(* ===== verification/Prelude.thy ===== *)
theory Prelude
  imports Main "HOL-Library.Word" "HOL-Library.Monad_Syntax"
begin

text \<open>
  Shared vocabulary of the development: machine integers at their Rust widths, byte
  buffers with the panics of slice indexing made explicit, big-endian conversions, and
  the generic lemmas and rule collections that carry the component proofs.

  Conventions used by every theory:
  \<^item> A value that the code computes with an operation that may panic (indexing, slicing,
    \<open>copy_from_slice\<close>, \<open>assert!\<close>) has type \<open>'a option\<close>; \<open>None\<close> is the panic.
  \<^item> A Rust \<open>Result<T, E>\<close> is the sum \<open>E + T\<close>, with \<open>Inl\<close> the error.
  \<^item> A Rust function that mutates a \<open>&mut [u8]\<close> argument returns the new buffer beside
    its result, on the error branches too.
  \<^item> Integer arithmetic is that of the release profile of the workspace: \<open>+\<close>, \<open>-\<close> and
    \<open>*\<close> wrap at their width and \<open>debug_assert!\<close> is not compiled.
  \<^item> Slice lengths are \<open>nat\<close>; a \<open>usize\<close> sum that is not bounded by the length of an
    existing slice is written with \<open>usize_add\<close>, which wraps at 64 bits.
\<close>

unbundle bit_operations_syntax

section \<open>Types\<close>

type_synonym u8 = "8 word"
type_synonym u16 = "16 word"
type_synonym u32 = "32 word"
type_synonym u64 = "64 word"
type_synonym bytes = "u8 list"

text \<open>\<open>std::net::Ipv4Addr\<close>, through its \<open>u32\<close> value (most significant octet first).\<close>

type_synonym ipv4addr = u32

named_theorems view_simps \<open>closed forms of readers, parsers and writers on long enough buffers\<close>
named_theorems len_simps \<open>lengths of buffers after a write\<close>

section \<open>Integer helpers of the standard library\<close>

definition usize_add :: "nat \<Rightarrow> nat \<Rightarrow> nat" where
  "usize_add a b = (a + b) mod 2 ^ 64"

definition saturating_add :: "'a::len word \<Rightarrow> 'a word \<Rightarrow> 'a word" where
  "saturating_add a b = (if unat a + unat b < 2 ^ LENGTH('a) then a + b else - 1)"

definition saturating_sub :: "'a::len word \<Rightarrow> 'a word \<Rightarrow> 'a word" where
  "saturating_sub a b = (if a < b then 0 else a - b)"

lemma usize_add_small: "a + b < 2 ^ 64 \<Longrightarrow> usize_add a b = a + b"
  by (simp add: usize_add_def)

lemma unat_saturating_add:
  "unat (saturating_add a b) = min (unat a + unat b) (2 ^ LENGTH('a) - 1)"
  for a b :: "'a::len word"
  by (auto simp: saturating_add_def unat_word_ariths unsigned_minus_1_eq_mask mask_eq_exp_minus_1)

lemma unat_saturating_sub: "unat (saturating_sub a b) = unat a - unat b"
  by (auto simp: saturating_sub_def word_less_nat_alt unat_sub_if')

lemma unat_u8_less: "unat (w :: u8) < 256"
  using unsigned_less [of w, where ?'a = nat] by simp

lemma unat_u16_less: "unat (w :: u16) < 65536"
  using unsigned_less [of w, where ?'a = nat] by simp

lemma unat_u32_less: "unat (w :: u32) < 4294967296"
  using unsigned_less [of w, where ?'a = nat] by simp

lemma unat_of_nat_u16: "n < 65536 \<Longrightarrow> unat (of_nat n :: u16) = n"
  by (simp add: unsigned_of_nat take_bit_nat_eq_self)

lemma unat_ucast_mod: "unat (ucast (w :: 'a::len word) :: 'b::len word) = unat w mod 2 ^ LENGTH('b)"
  by (simp add: unsigned_ucast_eq take_bit_eq_mod)

lemma unat_ucast_up:
  "LENGTH('a) \<le> LENGTH('b) \<Longrightarrow> unat (ucast (w :: 'a::len word) :: 'b::len word) = unat w"
  by (simp add: unsigned_ucast_eq take_bit_nat_eq_self order_less_le_trans [OF unsigned_less])

lemma unat_drop_bit_div: "unat (drop_bit n (w :: 'a::len word)) = unat w div 2 ^ n"
  by (simp only: unat_drop_bit_eq) (simp add: drop_bit_eq_div)

lemma unat_not_u16: "unat (NOT (w :: u16)) = 65535 - unat w"
proof -
  have "NOT w = - 1 - w" by (simp add: not_eq_complement)
  then have "unat (NOT w) = unat (- 1 :: u16) - unat w"
    by (simp add: unat_sub)
  then show ?thesis by (simp add: unsigned_minus_1_eq_mask mask_eq_exp_minus_1)
qed

text \<open>Two congruences in a row, as two checksum updates in a row need them.\<close>

lemma sum_chain:
  fixes m :: nat
  assumes "(s1 + n1) mod m = (s + o1) mod m" and "(s2 + n2) mod m = (s1 + o2) mod m"
  shows "(s2 + (n1 + n2)) mod m = (s + (o1 + o2)) mod m"
proof -
  have "(s2 + n2 + n1) mod m = (s1 + o2 + n1) mod m" using assms(2) by (metis mod_add_left_eq)
  also have "\<dots> = (s1 + n1 + o2) mod m" by (simp only: ac_simps)
  also have "\<dots> = (s + o1 + o2) mod m" using assms(1) by (metis mod_add_left_eq)
  finally show ?thesis by (simp only: ac_simps)
qed

section \<open>Big-endian conversions\<close>

text \<open>\<open>u16::from_be_bytes\<close>, \<open>u32::from_be_bytes\<close> and \<open>to_be_bytes\<close>.\<close>

definition be16 :: "u8 \<Rightarrow> u8 \<Rightarrow> u16" where
  "be16 hi lo = push_bit 8 (ucast hi) OR ucast lo"

definition be32 :: "u8 \<Rightarrow> u8 \<Rightarrow> u8 \<Rightarrow> u8 \<Rightarrow> u32" where
  "be32 a b c d = push_bit 16 (ucast (be16 a b)) OR ucast (be16 c d)"

definition to_be16 :: "u16 \<Rightarrow> bytes" where
  "to_be16 w = [ucast (drop_bit 8 w), ucast w]"

lemma be16_zero [simp]: "be16 0 0 = 0"
  by (simp add: be16_def)

text \<open>\<open>Ipv4Addr::octets\<close> (equivalently \<open>u32::to_be_bytes\<close>).\<close>

definition octets :: "ipv4addr \<Rightarrow> bytes" where
  "octets a = to_be16 (ucast (drop_bit 16 a)) @ to_be16 (ucast a)"

lemma length_to_be16 [simp]: "length (to_be16 w) = 2"
  by (simp add: to_be16_def)

lemma length_octets [simp]: "length (octets a) = 4"
  by (simp add: octets_def)

lemma unat_push_or:
  fixes a b :: "'a::len word"
  assumes "unat b < 2 ^ n" and "2 ^ n * unat a + unat b < 2 ^ LENGTH('a)"
  shows "unat (push_bit n a OR b) = 2 ^ n * unat a + unat b"
proof -
  have "b = take_bit n b"
    using assms(1) by (simp add: word_unat_eq_iff unsigned_take_bit_eq take_bit_nat_eq_self)
  then have "push_bit n a OR b = push_bit n a + b"
    by (metis disjunctive_add bit_push_bit_iff bit_take_bit_iff leD)
  moreover have "unat (push_bit n a) = 2 ^ n * unat a"
    unfolding unsigned_push_bit_eq
    using assms(2) by (simp add: push_bit_eq_mult take_bit_nat_eq_self mult.commute)
  ultimately show ?thesis
    using assms(2) by (simp only: unat_word_ariths) simp
qed

lemma unat_be16: "unat (be16 hi lo) = 256 * unat hi + unat lo"
  using unat_push_or [of "ucast lo :: u16" 8 "ucast hi"] unat_u8_less [of hi] unat_u8_less [of lo]
  by (simp add: be16_def unat_ucast_up)

lemma unat_be32: "unat (be32 a b c d) = 65536 * unat (be16 a b) + unat (be16 c d)"
  using unat_push_or [of "ucast (be16 c d) :: u32" 16 "ucast (be16 a b)"]
    unat_u16_less [of "be16 a b"] unat_u16_less [of "be16 c d"]
  by (simp add: be32_def unat_ucast_up)

lemma unat_lo_u16: "unat (ucast (w :: u16) :: u8) = unat w mod 256"
  by (simp add: unat_ucast_mod)

lemma unat_lo_u32: "unat (ucast (w :: u32) :: u16) = unat w mod 65536"
  by (simp add: unat_ucast_mod)

lemma unat_hi_u16: "unat (ucast (drop_bit 8 (w :: u16)) :: u8) = unat w div 256"
  using unat_u16_less [of w]
  by (simp only: unat_lo_u16 unat_drop_bit_div) (simp add: less_mult_imp_div_less)

lemma unat_hi_u32: "unat (ucast (drop_bit 16 (w :: u32)) :: u16) = unat w div 65536"
  using unat_u32_less [of w]
  by (simp only: unat_lo_u32 unat_drop_bit_div) (simp add: less_mult_imp_div_less)

lemma be16_hi_lo: "be16 (ucast (drop_bit 8 w)) (ucast w) = w"
  unfolding word_unat_eq_iff unat_be16 unat_hi_u16 unfolding unat_lo_u16 by simp

lemma to_be16_be16 [simp]: "to_be16 (be16 hi lo) = [hi, lo]"
proof -
  have "ucast (drop_bit 8 (be16 hi lo)) = hi"
    unfolding word_unat_eq_iff unat_hi_u16 unat_be16 using unat_u8_less [of lo] by simp
  moreover have "ucast (be16 hi lo) = lo"
    unfolding word_unat_eq_iff unat_lo_u16 unat_be16 using unat_u8_less [of lo] by simp
  ultimately show ?thesis by (simp only: to_be16_def)
qed

lemma be16_nth_to_be16 [simp]: "be16 (to_be16 w ! 0) (to_be16 w ! Suc 0) = w"
  using be16_hi_lo [of w] by (simp only: to_be16_def nth_Cons_0 nth_Cons_Suc)

lemma be32_halves:
  "ucast (drop_bit 16 (be32 a b c d)) = be16 a b" "ucast (be32 a b c d) = be16 c d"
  unfolding word_unat_eq_iff unat_hi_u32 unat_be32 using unat_u16_less [of "be16 c d"]
  by (simp_all add: unat_lo_u32 unat_be32)

lemma octets_be32 [simp]: "octets (be32 a b c d) = [a, b, c, d]"
  by (simp only: octets_def be32_halves to_be16_be16 append_Cons append_Nil)

lemma be32_octets:
  "be32 (octets a ! 0) (octets a ! Suc 0) (octets a ! 2) (octets a ! 3) = a"
proof -
  let ?h = "ucast (drop_bit 16 a) :: u16" and ?l = "ucast a :: u16"
  have "octets a = to_be16 ?h @ to_be16 ?l" by (simp only: octets_def)
  then have "be32 (octets a ! 0) (octets a ! Suc 0) (octets a ! 2) (octets a ! 3) =
      be32 (to_be16 ?h ! 0) (to_be16 ?h ! Suc 0) (to_be16 ?l ! 0) (to_be16 ?l ! Suc 0)"
    by (simp add: nth_append del: ucast_drop_bit_eq)
  also have "unat \<dots> = unat a"
    by (simp only: unat_be32 be16_nth_to_be16 unat_hi_u32) (simp add: unat_lo_u32)
  finally show ?thesis by (simp only: word_unat_eq_iff)
qed

section \<open>Byte buffers\<close>

subsection \<open>Reading: \<open>buf[i]\<close>, \<open>&buf[a..b]\<close>, \<open>&buf[a..]\<close>\<close>

definition rd8 :: "bytes \<Rightarrow> nat \<Rightarrow> u8 option" where
  "rd8 b i = (if i < length b then Some (b ! i) else None)"

text \<open>\<open>u16::from_be_bytes([buf[i], buf[i + 1]])\<close> and its 32-bit analogue.\<close>

definition rd16 :: "bytes \<Rightarrow> nat \<Rightarrow> u16 option" where
  "rd16 b i = do { hi \<leftarrow> rd8 b i; lo \<leftarrow> rd8 b (i + 1); Some (be16 hi lo) }"

definition rd32 :: "bytes \<Rightarrow> nat \<Rightarrow> u32 option" where
  "rd32 b i = do { w \<leftarrow> rd8 b i; x \<leftarrow> rd8 b (i + 1); y \<leftarrow> rd8 b (i + 2); z \<leftarrow> rd8 b (i + 3);
     Some (be32 w x y z) }"

definition slice :: "bytes \<Rightarrow> nat \<Rightarrow> nat \<Rightarrow> bytes option" where
  "slice b a e = (if a \<le> e \<and> e \<le> length b then Some (take (e - a) (drop a b)) else None)"

definition slice_from :: "bytes \<Rightarrow> nat \<Rightarrow> bytes option" where
  "slice_from b a = (if a \<le> length b then Some (drop a b) else None)"

text \<open>The total readers the specifications use; they agree with the panicking ones in range.\<close>

definition word16 :: "bytes \<Rightarrow> nat \<Rightarrow> u16" where
  "word16 b i = be16 (b ! i) (b ! (i + 1))"

definition word32 :: "bytes \<Rightarrow> nat \<Rightarrow> u32" where
  "word32 b i = be32 (b ! i) (b ! (i + 1)) (b ! (i + 2)) (b ! (i + 3))"

lemma long_not_Nil [view_simps]: "numeral k \<le> length b \<Longrightarrow> b \<noteq> []"
  by auto

lemma rd8_eq [view_simps]: "i < length b \<Longrightarrow> rd8 b i = Some (b ! i)"
  by (simp add: rd8_def)

lemma rd16_eq [view_simps]: "i + 1 < length b \<Longrightarrow> rd16 b i = Some (word16 b i)"
  by (simp add: rd16_def rd8_def word16_def)

lemma rd32_eq [view_simps]: "i + 3 < length b \<Longrightarrow> rd32 b i = Some (word32 b i)"
  by (simp add: rd32_def rd8_def word32_def)

lemma slice_eq [view_simps]:
  "a \<le> e \<Longrightarrow> e \<le> length b \<Longrightarrow> slice b a e = Some (take (e - a) (drop a b))"
  by (simp add: slice_def)

lemma slice_from_eq [view_simps]: "a \<le> length b \<Longrightarrow> slice_from b a = Some (drop a b)"
  by (simp add: slice_from_def)

subsection \<open>Writing: \<open>buf[i] = v\<close>, \<open>buf[a..b].copy_from_slice(src)\<close>, \<open>f(&mut buf[a..b])\<close>\<close>

definition patch :: "bytes \<Rightarrow> nat \<Rightarrow> bytes \<Rightarrow> bytes" where
  "patch b a src = take a b @ src @ drop (a + length src) b"

definition wr8 :: "bytes \<Rightarrow> nat \<Rightarrow> u8 \<Rightarrow> bytes option" where
  "wr8 b i v = (if i < length b then Some (b[i := v]) else None)"

definition put :: "bytes \<Rightarrow> nat \<Rightarrow> nat \<Rightarrow> bytes \<Rightarrow> bytes option" where
  "put b a e src =
     (if a \<le> e \<and> e \<le> length b \<and> length src = e - a then Some (patch b a src) else None)"

definition sub_mut ::
    "bytes \<Rightarrow> nat \<Rightarrow> nat \<Rightarrow> (bytes \<Rightarrow> (bytes \<times> 'r) option) \<Rightarrow> (bytes \<times> 'r) option" where
  "sub_mut b a e f = do { s \<leftarrow> slice b a e; (s', r) \<leftarrow> f s; Some (patch b a s', r) }"

lemma wr8_eq [view_simps]: "i < length b \<Longrightarrow> wr8 b i v = Some (patch b i [v])"
  by (simp add: wr8_def patch_def upd_conv_take_nth_drop)

lemma put_eq [view_simps]:
  "a \<le> e \<Longrightarrow> e \<le> length b \<Longrightarrow> length src = e - a \<Longrightarrow> put b a e src = Some (patch b a src)"
  by (simp add: put_def)

lemma sub_mut_eq [view_simps]:
  "a \<le> e \<Longrightarrow> e \<le> length b \<Longrightarrow>
   sub_mut b a e f = do { (s', r) \<leftarrow> f (take (e - a) (drop a b)); Some (patch b a s', r) }"
  by (simp add: sub_mut_def slice_def)

text \<open>Writing a buffer front to back: what is written so far, followed by the old rest.\<close>

lemma wr8_next: "length xs = i \<Longrightarrow> i < length b \<Longrightarrow> wr8 (xs @ drop i b) i v = Some ((xs @ [v]) @ drop (i + 1) b)"
  by (auto simp: wr8_def list_update_append Cons_nth_drop_Suc [symmetric])

lemma put_next:
  "length xs = a \<Longrightarrow> a \<le> e \<Longrightarrow> e \<le> length b \<Longrightarrow> length src = e - a \<Longrightarrow>
   put (xs @ drop a b) a e src = Some ((xs @ src) @ drop e b)"
  by (auto simp: put_def patch_def)

lemma sub_mut_next:
  "length xs = a \<Longrightarrow> a \<le> e \<Longrightarrow> e \<le> length b \<Longrightarrow> f (take (e - a) (drop a b)) = Some (h, r) \<Longrightarrow>
   length h = e - a \<Longrightarrow> sub_mut (xs @ drop a b) a e f = Some ((xs @ h) @ drop e b, r)"
  by (auto simp: sub_mut_def slice_def patch_def)

lemma length_patch [simp]: "a + length src \<le> length b \<Longrightarrow> length (patch b a src) = length b"
  by (simp add: patch_def)

lemma nth_patch:
  "a + length src \<le> length b \<Longrightarrow> i < length b \<Longrightarrow>
   patch b a src ! i = (if a \<le> i \<and> i < a + length src then src ! (i - a) else b ! i)"
  by (auto simp: patch_def nth_append min_def)

lemma patch_0: "patch b 0 src = src @ drop (length src) b"
  by (simp add: patch_def)

lemma patch_append_right:
  "length xs \<le> a \<Longrightarrow> patch (xs @ ys) a src = xs @ patch ys (a - length xs) src"
  by (simp add: patch_def)

lemma patch_append_left:
  "a + length src \<le> length xs \<Longrightarrow> patch (xs @ ys) a src = patch xs a src @ ys"
  by (simp add: patch_def)

lemma take_patch_before: "n \<le> a \<Longrightarrow> a \<le> length b \<Longrightarrow> take n (patch b a src) = take n b"
  by (simp add: patch_def)

lemma take_patch_after:
  "a + length src \<le> n \<Longrightarrow> a \<le> length b \<Longrightarrow> take n (patch b a src) = patch (take n b) a src"
  by (simp add: patch_def drop_take min_absorb1)

lemma drop_patch_before:
  "n \<le> a \<Longrightarrow> a \<le> length b \<Longrightarrow> drop n (patch b a src) = patch (drop n b) (a - n) src"
  by (simp add: patch_def drop_take ac_simps)

lemma drop_patch_after:
  "a + length src \<le> n \<Longrightarrow> a \<le> length b \<Longrightarrow> drop n (patch b a src) = drop n b"
  by (simp add: patch_def)

lemma patch_patch_same:
  "length src = length src' \<Longrightarrow> a + length src \<le> length b \<Longrightarrow>
   patch (patch b a src) a src' = patch b a src'"
  by (simp add: patch_def)

lemma word16_patch_same [simp]:
  "a + 2 \<le> length b \<Longrightarrow> word16 (patch b a (to_be16 w)) a = w"
  by (simp add: word16_def nth_patch)

lemma word16_patch_other:
  "i + 2 \<le> a \<or> a + length src \<le> i \<Longrightarrow> a + length src \<le> length b \<Longrightarrow> i + 1 < length b \<Longrightarrow>
   word16 (patch b a src) i = word16 b i"
  by (auto simp: word16_def nth_patch)

lemma word32_patch_same [simp]:
  "a + 4 \<le> length b \<Longrightarrow> word32 (patch b a (octets w)) a = w"
  using be32_octets [of w] by (simp add: word32_def nth_patch)

lemma word32_patch_other:
  "i + 4 \<le> a \<or> a + length src \<le> i \<Longrightarrow> a + length src \<le> length b \<Longrightarrow> i + 3 < length b \<Longrightarrow>
   word32 (patch b a src) i = word32 b i"
  by (auto simp: word32_def nth_patch)

lemma nth_patch_other:
  "i < a \<or> a + length src \<le> i \<Longrightarrow> a + length src \<le> length b \<Longrightarrow> i < length b \<Longrightarrow>
   patch b a src ! i = b ! i"
  by (auto simp: nth_patch)

lemma word16_drop: "n + i + 1 < length b \<Longrightarrow> word16 (drop n b) i = word16 b (n + i)"
  by (simp add: word16_def add.assoc)

lemma word32_drop: "n + i + 3 < length b \<Longrightarrow> word32 (drop n b) i = word32 b (n + i)"
  by (simp add: word32_def add.assoc)

lemma to_be16_word16: "i + 2 \<le> length b \<Longrightarrow> to_be16 (word16 b i) = take 2 (drop i b)"
  by (simp add: word16_def numeral_2_eq_2 take_Suc_conv_app_nth flip: Cons_nth_drop_Suc)

lemma word32_halves:
  "ucast (drop_bit 16 (word32 b i)) = word16 b i" "ucast (word32 b i) = word16 b (i + 2)"
  by (simp_all only: word32_def be32_halves word16_def add.assoc one_add_one [symmetric])
    (simp_all add: numeral_3_eq_3)

end
