(* ===== verification/Checksum.thy ===== *)
theory Checksum
  imports Prelude
begin

text \<open>
  \<open>andromeda-core/src/checksum.rs\<close>: the Internet checksum (RFC 1071) and its incremental
  update (RFC 1624). The code folds a wrapping 32-bit accumulator with a loop; the
  specification is ones' complement arithmetic on natural numbers: \<open>oc16\<close> is the
  representative in \<open>1..65535\<close> of a positive sum modulo \<open>65535\<close>, and \<open>word_sum\<close> the sum
  of the big-endian 16-bit words of a buffer.
\<close>

section \<open>Operations\<close>

text \<open>The loop of \<open>sum_be16\<close> over \<open>as_chunks::<2>()\<close>, with the odd trailing byte.\<close>

fun sum_be16_loop :: "u32 \<Rightarrow> bytes \<Rightarrow> u32" where
  "sum_be16_loop acc (hi # lo # rest) = sum_be16_loop (acc + ucast (be16 hi lo)) rest"
| "sum_be16_loop acc [b] = acc + ucast (be16 b 0)"
| "sum_be16_loop acc [] = acc"

definition sum_be16 :: "bytes \<Rightarrow> u32" where
  "sum_be16 data = sum_be16_loop 0 data"

lemma unat_and_ffff: "unat (s AND 0xffff :: u32) = unat s mod 65536"
proof -
  have "s AND 0xffff = take_bit 16 s" by (simp add: take_bit_eq_mask mask_eq_exp_minus_1)
  then show ?thesis by (simp only: unsigned_take_bit_eq) (simp add: take_bit_eq_mod)
qed

lemma fold_step_unat:
  "unat ((s AND 0xffff) + drop_bit 16 s :: u32) = unat s mod 65536 + unat s div 65536"
proof -
  have "unat s mod 65536 + unat s div 65536 < 4294967296"
    using unat_u32_less [of s] mod_less_divisor [of 65536 "unat s"]
      div_le_dividend [of "unat s div 1" 1] by linarith
  then show ?thesis
    by (simp only: unat_word_ariths unat_and_ffff unat_drop_bit_div) simp
qed

lemma drop_bit_16_nonzero: "drop_bit 16 (s :: u32) \<noteq> 0 \<longleftrightarrow> 65536 \<le> unat s"
  by (simp only: word_unat_eq_iff unat_drop_bit_div) auto

function checksum_fold :: "u32 \<Rightarrow> u16" where
  "checksum_fold s =
     (if drop_bit 16 s \<noteq> 0 then checksum_fold ((s AND 0xffff) + drop_bit 16 s) else ucast s)"
  by pat_completeness auto
termination
proof (relation "measure unat", simp, unfold in_measure)
  fix s :: u32
  assume "drop_bit 16 s \<noteq> 0"
  then have "65536 \<le> unat s" by (simp only: drop_bit_16_nonzero)
  moreover from this have "1 \<le> unat s div 65536" by (simp add: div_greater_zero_iff Suc_leI)
  ultimately show "unat ((s AND 0xffff) + drop_bit 16 s) < unat s"
    using div_mult_mod_eq [of "unat s" 65536] unfolding fold_step_unat by linarith
qed

declare checksum_fold.simps [simp del]

definition checksum :: "bytes \<Rightarrow> u16" where
  "checksum data = NOT (checksum_fold (sum_be16 data))"

definition accumulate :: "u32 \<Rightarrow> bytes \<Rightarrow> u32" where
  "accumulate acc data = acc + sum_be16 data"

definition finalize :: "u32 \<Rightarrow> u16" where
  "finalize acc = NOT (checksum_fold acc)"

definition update_word :: "u16 \<Rightarrow> u16 \<Rightarrow> u16 \<Rightarrow> u16" where
  "update_word old_check old new =
     (let s = (ucast (NOT old_check) :: u32) AND 0xffff;
          s = s + ((ucast (NOT old) :: u32) AND 0xffff);
          s = s + ucast new
      in NOT (checksum_fold s))"

definition update_dword :: "u16 \<Rightarrow> u32 \<Rightarrow> u32 \<Rightarrow> u16" where
  "update_dword old_check old new =
     (let c = update_word old_check (ucast (drop_bit 16 old)) (ucast (drop_bit 16 new))
      in update_word c (ucast (old AND 0xffff)) (ucast (new AND 0xffff)))"

section \<open>Ones' complement arithmetic\<close>

definition oc16 :: "nat \<Rightarrow> nat" where
  "oc16 n = (if n = 0 then 0 else (n - 1) mod 65535 + 1)"

lemma mod_cancel: "(a + c) mod m = (b + c) mod m \<longleftrightarrow> a mod m = b mod (m :: nat)"
proof -
  have *: "(a + c) mod m = (b + c) mod m \<longleftrightarrow> a mod m = b mod m" if "b \<le> a" for a b
    using that mod_eq_dvd_iff_nat [of b a m] mod_eq_dvd_iff_nat [of "b + c" "a + c" m] by simp
  show ?thesis using * [of b a] * [of a b] by (cases "b \<le> a") auto
qed

lemma oc16_le: "oc16 n \<le> 65535"
proof -
  have "(n - 1) mod 65535 < 65535" by simp
  then have "(n - 1) mod 65535 + 1 \<le> 65535" by linarith
  then show ?thesis by (simp only: oc16_def split: if_split) simp
qed

lemma oc16_eq_0_iff [simp]: "oc16 n = 0 \<longleftrightarrow> n = 0"
  by (simp add: oc16_def)

lemma oc16_small: "n \<le> 65535 \<Longrightarrow> oc16 n = n"
  by (cases "n = 0") (simp_all add: oc16_def)

lemma oc16_mod [simp]: "oc16 n mod 65535 = n mod 65535"
proof (cases "n = 0")
  case False
  have "((n - 1) mod 65535 + 1) mod 65535 = (n - 1 + 1) mod 65535" by (rule mod_add_left_eq)
  with False show ?thesis by (simp add: oc16_def)
qed (simp add: oc16_def)

text \<open>A folded sum is determined by its residue, up to the two representations of zero.\<close>

lemma oc16_eqI:
  assumes "m mod 65535 = n mod 65535" and "0 < m" and "0 < n"
  shows "oc16 m = oc16 n"
proof -
  have "(m - 1 + 1) mod 65535 = (n - 1 + 1) mod 65535" using assms by simp
  then have "(m - 1) mod 65535 = (n - 1) mod 65535" by (simp only: mod_cancel)
  with assms(2,3) show ?thesis by (simp add: oc16_def)
qed

lemma oc16_eq_65535_iff: "oc16 n = 65535 \<longleftrightarrow> 0 < n \<and> n mod 65535 = 0"
proof
  assume *: "oc16 n = 65535"
  moreover have "n mod 65535 = oc16 n mod 65535" by simp
  moreover have "n \<noteq> 0" using * oc16_eq_0_iff [of n] by linarith
  ultimately show "0 < n \<and> n mod 65535 = 0" by simp
next
  assume *: "0 < n \<and> n mod 65535 = 0"
  then have m: "oc16 n mod 65535 = 0" and z: "oc16 n \<noteq> 0" by simp_all
  have "\<not> oc16 n < 65535"
  proof
    assume "oc16 n < 65535"
    then have "oc16 n mod 65535 = oc16 n" by (rule mod_less)
    with m z show False by linarith
  qed
  with oc16_le [of n] show "oc16 n = 65535" by simp
qed

lemma unat_checksum_fold: "unat (checksum_fold s) = oc16 (unat s)"
proof (induction s rule: checksum_fold.induct)
  case (1 s)
  show ?case
  proof (cases "drop_bit 16 s \<noteq> 0")
    case True
    let ?s = "(s AND 0xffff) + drop_bit 16 s"
    have ge: "65536 \<le> unat s" using True by (simp only: drop_bit_16_nonzero)
    have "unat s = unat ?s + 65535 * (unat s div 65536)"
      using div_mult_mod_eq [of "unat s" 65536] unfolding fold_step_unat by linarith
    then have "unat ?s mod 65535 = unat s mod 65535" by (metis mod_mult_self2)
    moreover have "0 < unat ?s" using ge unfolding fold_step_unat by (cases "unat s mod 65536 = 0") auto
    ultimately have "oc16 (unat ?s) = oc16 (unat s)" using ge by (intro oc16_eqI) auto
    with 1 True show ?thesis by (simp only: checksum_fold.simps [of s] if_True not_False_eq_True)
  next
    case False
    then have "unat s < 65536" by (simp only: drop_bit_16_nonzero not_le)
    with False show ?thesis
      by (simp add: checksum_fold.simps [of s] unat_ucast_mod oc16_small del: ucast_drop_bit_eq)
  qed
qed

section \<open>Sums of 16-bit words\<close>

fun word_sum :: "bytes \<Rightarrow> nat" where
  "word_sum (hi # lo # rest) = unat (be16 hi lo) + word_sum rest"
| "word_sum [b] = unat (be16 b 0)"
| "word_sum [] = 0"

lemma word_sum_bound: "word_sum d \<le> 65535 * ((length d + 1) div 2)"
proof (induction d rule: word_sum.induct)
  case (1 hi lo rest)
  then show ?case using unat_u16_less [of "be16 hi lo"] by simp
next
  case (2 b)
  then show ?case using unat_u16_less [of "be16 b 0"] by simp
qed simp

lemma unat_sum_be16_loop: "unat (sum_be16_loop acc d) = (unat acc + word_sum d) mod 2 ^ 32"
proof (induction acc d rule: sum_be16_loop.induct)
  case (1 acc hi lo rest)
  have "unat (acc + ucast (be16 hi lo)) = (unat acc + unat (be16 hi lo)) mod 2 ^ 32"
    by (simp only: unat_word_ariths) (simp add: unat_ucast_up)
  with 1 show ?case by (simp only: sum_be16_loop.simps word_sum.simps mod_add_left_eq add.assoc)
next
  case (2 acc b)
  show ?case by (simp only: sum_be16_loop.simps word_sum.simps unat_word_ariths) (simp add: unat_ucast_up)
next
  case (3 acc)
  show ?case using unat_u32_less [of acc] by simp
qed

text \<open>The 32-bit accumulator does not wrap on buffers of up to 65537 words.\<close>

lemma unat_sum_be16: "length d \<le> 131074 \<Longrightarrow> unat (sum_be16 d) = word_sum d"
proof -
  assume "length d \<le> 131074"
  then have "(length d + 1) div 2 \<le> 65537" by simp
  then have "65535 * ((length d + 1) div 2) \<le> 65535 * 65537" by (rule mult_le_mono2)
  with word_sum_bound [of d] have "word_sum d < 2 ^ 32" by simp
  then show ?thesis by (simp add: sum_be16_def unat_sum_be16_loop)
qed

lemma word_sum_append:
  "even (length xs) \<Longrightarrow> word_sum (xs @ ys) = word_sum xs + word_sum ys"
  by (induction xs rule: word_sum.induct) auto

lemma word_sum_to_be16 [simp]: "word_sum (to_be16 w) = unat w"
  by (simp only: to_be16_def word_sum.simps be16_hi_lo add_0_right)

lemma word_sum_two: "i + 2 \<le> length b \<Longrightarrow> word_sum (take 2 (drop i b)) = unat (word16 b i)"
  by (simp only: to_be16_word16 [symmetric] word_sum_to_be16)

lemma word_sum_eq_0_iff: "word_sum d = 0 \<longleftrightarrow> (\<forall>x\<in>set d. x = 0)"
  by (induction d rule: word_sum.induct) (auto simp: unat_be16 unsigned_eq_0_iff)

lemma word_sum_patch:
  assumes "even a" and "even (length src)" and "a + length src \<le> length b"
  shows "word_sum (patch b a src) + word_sum (take (length src) (drop a b)) =
    word_sum b + word_sum src"
proof -
  have "take a b @ take (length src) (drop a b) @ drop (a + length src) b = b"
    by (metis append_take_drop_id drop_drop add.commute)
  moreover have "even (length (take a b))" and "even (length (take (length src) (drop a b)))"
    using assms by (simp_all add: min_absorb2)
  ultimately show ?thesis
    using assms(2) word_sum_append [of "take a b" "take (length src) (drop a b) @ drop (a + length src) b"]
    by (simp only: patch_def word_sum_append)
qed

lemma word_sum_put16:
  assumes "even a" and "a + 2 \<le> length b"
  shows "word_sum (patch b a (to_be16 w)) + unat (word16 b a) = word_sum b + unat w"
  using word_sum_patch [of a "to_be16 w" b] assms by (simp add: word_sum_two)

lemma octets_split:
  "word_sum (octets a) = unat (ucast (drop_bit 16 a) :: u16) + unat (ucast a :: u16)"
  by (simp only: octets_def) (simp only: word_sum_append length_to_be16 even_numeral word_sum_to_be16)

lemma word_sum_put32:
  assumes "even a" and "a + 4 \<le> length b"
  shows "word_sum (patch b a (octets w)) + unat (word16 b a) + unat (word16 b (a + 2)) =
    word_sum b + unat (ucast (drop_bit 16 w) :: u16) + unat (ucast w :: u16)"
proof -
  have "take 4 (drop a b) = take 2 (drop a b) @ take 2 (drop (a + 2) b)"
    using take_add [of 2 2 "drop a b"] by (simp add: add.commute)
  then have "word_sum (take 4 (drop a b)) = unat (word16 b a) + unat (word16 b (a + 2))"
    using assms by (simp add: word_sum_append word_sum_two)
  then show ?thesis
    using word_sum_patch [of a "octets w" b] assms by (simp only: octets_split) simp
qed

section \<open>The checksum in ones' complement terms\<close>

lemma unat_checksum: "length d \<le> 131074 \<Longrightarrow> unat (checksum d) = 65535 - oc16 (word_sum d)"
  by (simp add: checksum_def unat_not_u16 unat_checksum_fold unat_sum_be16)

lemma checksum_eq_0_iff:
  assumes "length d \<le> 131074"
  shows "checksum d = 0 \<longleftrightarrow> 0 < word_sum d \<and> word_sum d mod 65535 = 0"
  using unat_checksum [OF assms] oc16_le [of "word_sum d"] oc16_eq_65535_iff [of "word_sum d"]
  by (auto simp: unat_eq_zero [symmetric])

lemma unat_update_word:
  "unat (update_word c old new) =
     65535 - oc16 ((65535 - unat c) + (65535 - unat old) + unat new)"
proof -
  have bnd: "unat c < 65536" "unat old < 65536" "unat new < 65536" by (rule unat_u16_less)+
  then have "unat (((ucast (NOT c) :: u32) AND 0xffff) + ((ucast (NOT old) :: u32) AND 0xffff)
      + ucast new) = (65535 - unat c) + (65535 - unat old) + unat new"
    by (simp add: unat_word_ariths unat_and_ffff unat_ucast_up unat_not_u16)
  then show ?thesis
    by (simp only: update_word_def Let_def unat_not_u16 unat_checksum_fold)
qed

text \<open>The one law the wire formats need: the update moves the residue of the checksum
  field by exactly the difference of the changed word.\<close>

lemma update_word_cong:
  "(unat (update_word c old new) + unat new) mod 65535 = (unat c + unat old) mod 65535"
proof -
  let ?n = "(65535 - unat c) + (65535 - unat old) + unat new"
  have "unat c \<le> 65535" "unat old \<le> 65535"
    using unat_u16_less [of c] unat_u16_less [of old] by linarith+
  then have "unat c + unat old + ?n = 2 * 65535 + unat new" by linarith
  then have "(unat c + unat old + ?n) mod 65535 = unat new mod 65535"
    by (simp only: mod_mult_self3)
  then have "(unat c + unat old + oc16 ?n) mod 65535 = unat new mod 65535"
    by (metis mod_add_right_eq oc16_mod)
  moreover have "unat (update_word c old new) + unat new + oc16 ?n = 65535 + unat new"
    unfolding unat_update_word using oc16_le [of ?n] by linarith
  ultimately have "(unat (update_word c old new) + unat new + oc16 ?n) mod 65535 =
      (unat c + unat old + oc16 ?n) mod 65535" by (simp only: mod_add_self1)
  then show ?thesis by (simp only: mod_cancel)
qed

lemma ucast_and_ffff: "ucast (x AND 0xffff) = (ucast x :: u16)" for x :: u32
  by (simp add: word_unat_eq_iff unat_ucast_mod unat_and_ffff)

lemma update_dword_cong:
  "(unat (update_dword c old new) + unat (ucast (drop_bit 16 new) :: u16) + unat (ucast new :: u16))
     mod 65535 =
   (unat c + unat (ucast (drop_bit 16 old) :: u16) + unat (ucast old :: u16)) mod 65535"
proof -
  define oh ol nh nl :: u16 where
    "oh = ucast (drop_bit 16 old)" and "ol = ucast old" and
    "nh = ucast (drop_bit 16 new)" and "nl = ucast new"
  define c' where "c' = update_word c oh nh"
  have "(unat c' + unat nh + (unat (update_word c' ol nl) + unat nl)) mod 65535 =
      (unat c + unat oh + (unat c' + unat ol)) mod 65535"
    unfolding c'_def by (rule mod_add_cong) (rule update_word_cong)+
  then have "(unat (update_word c' ol nl) + unat nh + unat nl + unat c') mod 65535 =
      (unat c + unat oh + unat ol + unat c') mod 65535" by (simp only: ac_simps)
  then show ?thesis
    by (simp only: mod_cancel update_dword_def Let_def ucast_and_ffff c'_def oh_def ol_def nh_def nl_def)
qed

section \<open>Properties\<close>

text \<open>The fold loop of the code, which terminates on every accumulator, computes the
  ones' complement fold: the representative in \<open>1..65535\<close> of a positive sum, and \<open>0\<close> only
  for \<open>0\<close>.\<close>

lemma checksum_fold_spec:
  "unat (checksum_fold s) = (if s = 0 then 0 else (unat s - 1) mod 65535 + 1)"
  by (simp add: unat_checksum_fold oc16_def unsigned_eq_0_iff)

lemma checksum_stored:
  assumes "even i" and "i + 2 \<le> length d" and "length d \<le> 131074"
    and "word16 d i = 0" and "\<exists>x\<in>set d. x \<noteq> 0"
  shows "checksum (patch d i (to_be16 (checksum d))) = 0"
proof -
  let ?d = "patch d i (to_be16 (checksum d))"
  have sum: "word_sum ?d = word_sum d + (65535 - oc16 (word_sum d))"
    using word_sum_put16 [OF assms(1,2), of "checksum d"] assms(3,4) by (simp add: unat_checksum)
  moreover have pos: "0 < word_sum d" using assms(5) word_sum_eq_0_iff [of d] by blast
  moreover have "(word_sum d + (65535 - oc16 (word_sum d))) mod 65535 =
      (oc16 (word_sum d) + (65535 - oc16 (word_sum d))) mod 65535"
    by (rule mod_add_cong) simp_all
  ultimately show ?thesis
    using assms(2,3) oc16_le [of "word_sum d"] by (simp add: checksum_eq_0_iff)
qed

text \<open>A checksum stored over the zeroed checksum field of any buffer with a non-zero
  byte makes the whole buffer verify (\<open>checksum == 0\<close>), for every even field offset.\<close>

lemma checksum_verifies:
  assumes "even i" and "i + 2 \<le> length d" and "length d \<le> 131074"
    and "word16 d i = 0" and "\<exists>x\<in>set d. x \<noteq> 0"
  shows "checksum (patch d i (to_be16 (checksum d))) = 0"
  using assms by (rule checksum_stored)

theorem checksum_verifies_witness:
  "checksum (patch [0x45, 0, 0, 0] 2 (to_be16 (checksum [0x45, 0, 0, 0]))) = 0"
  by (rule checksum_verifies) (simp_all add: word16_def be16_def)

lemma update_word_exact:
  assumes "even i" and "i + 2 \<le> length d" and "length d \<le> 131074"
  shows "update_word (checksum d) (word16 d i) new = checksum (patch d i (to_be16 new)) \<longleftrightarrow>
    (\<exists>x\<in>set (patch d i (to_be16 new)). x \<noteq> 0)"
proof -
  let ?d = "patch d i (to_be16 new)" and ?m = "unat (word16 d i)"
  let ?n = "oc16 (word_sum d) + (65535 - ?m) + unat new"
  have len: "length ?d \<le> 131074" using assms by simp
  have sum: "word_sum ?d + ?m = word_sum d + unat new" by (rule word_sum_put16) (use assms in auto)
  have m: "?m \<le> 65535" using unat_u16_less [of "word16 d i"] by simp
  have inc: "unat (update_word (checksum d) (word16 d i) new) = 65535 - oc16 ?n"
    using assms(3) oc16_le [of "word_sum d"] by (simp add: unat_update_word unat_checksum)
  have "(?n + ?m) mod 65535 = (word_sum ?d + ?m) mod 65535"
  proof -
    have "?n + ?m = (oc16 (word_sum d) + unat new) + 65535" using m by linarith
    then have "(?n + ?m) mod 65535 = (oc16 (word_sum d) + unat new) mod 65535"
      by (simp only: mod_add_self2)
    also have "\<dots> = (word_sum d + unat new) mod 65535" by (rule mod_add_cong) simp_all
    finally show ?thesis by (simp only: sum)
  qed
  then have cong: "?n mod 65535 = word_sum ?d mod 65535" by (simp only: mod_cancel)
  have "word_sum d = 0 \<Longrightarrow> ?m = 0" using word_sum_put16 [OF assms(1,2), of 0] by simp
  then have pos: "0 < ?n" using m oc16_eq_0_iff [of "word_sum d"] by (cases "word_sum d = 0") linarith+
  have eq: "update_word (checksum d) (word16 d i) new = checksum ?d \<longleftrightarrow>
      oc16 ?n = oc16 (word_sum ?d)"
    using inc len oc16_le [of ?n] oc16_le [of "word_sum ?d"]
    by (simp add: word_unat_eq_iff unat_checksum) linarith
  show ?thesis
  proof (cases "word_sum ?d = 0")
    case True
    then have "oc16 ?n \<noteq> oc16 (word_sum ?d)" using pos by (metis oc16_eq_0_iff less_irrefl)
    with True show ?thesis using eq word_sum_eq_0_iff [of ?d] by blast
  next
    case False
    then show ?thesis
      using eq oc16_eqI [OF cong pos] word_sum_eq_0_iff [of ?d] by (metis neq0_conv)
  qed
qed

text \<open>C27: the RFC 1624 incremental update of a checksum equals a full recomputation for
  every aligned 16-bit change of every buffer, except exactly when the changed buffer is
  all zero bytes (there the update yields \<open>0\<close> and the recomputation \<open>0xffff\<close>).\<close>

theorem update_word_recompute:
  assumes "even i" and "i + 2 \<le> length d" and "length d \<le> 131074"
  shows "update_word (checksum d) (word16 d i) new = checksum (patch d i (to_be16 new)) \<longleftrightarrow>
    (\<exists>x\<in>set (patch d i (to_be16 new)). x \<noteq> 0)"
  using assms by (rule update_word_exact)

theorem update_word_recompute_witness:
  "update_word (checksum [0x45, 0, 0, 1]) (word16 [0x45, 0, 0, 1] 2) 7 =
     checksum (patch [0x45, 0, 0, 1] 2 (to_be16 7)) \<and>
   update_word (checksum [0, 1]) (word16 [0, 1] 0) 0 \<noteq> checksum (patch [0, 1] 0 (to_be16 0))"
  using update_word_recompute [of 2 "[0x45, 0, 0, 1]" 7] update_word_recompute [of 0 "[0, 1]" 0]
  by (simp add: patch_def to_be16_def)

end
