(* ===== verification/Text_Std.thy ===== *)
theory Text_Std
  imports Prelude
begin

text \<open>
  The text conversions of the Rust standard library that the sources call: decimal and
  hexadecimal formatting, \<open>from_str_radix\<close>, \<open>str::split\<close> on a set of characters, and
  \<open>Display\<close> and \<open>FromStr\<close> of \<open>Ipv4Addr\<close>. A Rust \<open>&str\<close> is a list of bytes (\<open>string\<close>).
\<close>

section \<open>Digits\<close>

text \<open>\<open>char::to_digit(radix)\<close> for radix 10 and 16.\<close>

definition to_digit :: "nat \<Rightarrow> char \<Rightarrow> nat option" where
  "to_digit radix c =
     (let n = of_char c :: nat;
          d = (if 48 \<le> n \<and> n \<le> 57 then n - 48
               else if 97 \<le> n \<and> n \<le> 122 then n - 87
               else if 65 \<le> n \<and> n \<le> 90 then n - 55 else radix)
      in if d < radix then Some d else None)"

text \<open>The lower-case digit character of \<open>n < 16\<close>.\<close>

definition digit_char :: "nat \<Rightarrow> char" where
  "digit_char n = char_of (if n < 10 then 48 + n else 87 + n)"

lemma to_digit_digit_char:
  assumes "n < radix" and "radix \<le> 16"
  shows "to_digit radix (digit_char n) = Some n"
proof -
  have "of_char (digit_char n) = (if n < 10 then 48 + n else 87 + n)"
    using assms by (simp add: digit_char_def)
  then show ?thesis
    using assms by (auto simp: to_digit_def Let_def)
qed

section \<open>Numbers\<close>

text \<open>\<open>format!("{n}")\<close> of an unsigned integer, and \<open>format!("{n:02x}")\<close> of a byte.\<close>

fun nat_to_string :: "nat \<Rightarrow> string" where
  "nat_to_string n =
     (if n < 10 then [digit_char n] else nat_to_string (n div 10) @ [digit_char (n mod 10)])"

declare nat_to_string.simps [simp del]

definition hex02 :: "u8 \<Rightarrow> string" where
  "hex02 b = [digit_char (unat b div 16), digit_char (unat b mod 16)]"

text \<open>The digit loop of \<open>from_str_radix\<close>: \<open>checked_mul\<close> and \<open>checked_add\<close> at each digit.\<close>

fun radix_digits :: "nat \<Rightarrow> nat \<Rightarrow> nat \<Rightarrow> string \<Rightarrow> nat option" where
  "radix_digits limit radix acc [] = Some acc"
| "radix_digits limit radix acc (c # cs) =
     (case to_digit radix c of
        None \<Rightarrow> None
      | Some d \<Rightarrow> (if acc * radix + d > limit then None
                   else radix_digits limit radix (acc * radix + d) cs))"

text \<open>\<open><unsigned>::from_str_radix\<close>: empty input, a lone sign, a bad digit and overflow are
  errors; one leading \<open>+\<close> is accepted.\<close>

definition from_str_radix :: "nat \<Rightarrow> nat \<Rightarrow> string \<Rightarrow> nat option" where
  "from_str_radix limit radix s =
     (case s of
        [] \<Rightarrow> None
      | c # cs \<Rightarrow>
          if (c = CHR ''+'' \<or> c = CHR ''-'') \<and> cs = [] then None
          else if c = CHR ''+'' then radix_digits limit radix 0 cs
          else radix_digits limit radix 0 s)"

definition u8_from_str_radix :: "nat \<Rightarrow> string \<Rightarrow> u8 option" where
  "u8_from_str_radix radix s = map_option of_nat (from_str_radix 255 radix s)"

lemma of_char_digit_char: "n < 16 \<Longrightarrow> of_char (digit_char n) = (if n < 10 then 48 + n else 87 + n)"
  by (simp add: digit_char_def)

lemma digit_char_not:
  assumes "n < 16" and "(of_char c :: nat) < 48 \<or> of_char c = (58 :: nat)"
  shows "digit_char n \<noteq> c"
  using of_char_digit_char [OF assms(1)] assms(2) by (auto split: if_splits)

lemma digit_char_not_sign: "n < 16 \<Longrightarrow> digit_char n \<noteq> CHR ''+'' \<and> digit_char n \<noteq> CHR ''-''"
  by (simp add: digit_char_not)

lemma u8_from_str_radix_hex02: "u8_from_str_radix 16 (hex02 b) = Some b"
proof -
  have "unat b < 256" by (rule unat_u8_less)
  then have d: "unat b div 16 < 16" by (simp add: less_mult_imp_div_less)
  have *: "radix_digits 255 16 0 (hex02 b) = Some (unat b)"
    using d \<open>unat b < 256\<close> by (simp add: hex02_def to_digit_digit_char)
  show ?thesis
    using digit_char_not_sign [OF d] * 
    by (simp add: u8_from_str_radix_def from_str_radix_def hex02_def)
qed

section \<open>Splitting\<close>

text \<open>\<open>s.split(seps)\<close>: the parts between separators, in order; never empty.\<close>

fun split_on :: "char list \<Rightarrow> string \<Rightarrow> string list" where
  "split_on seps [] = [[]]"
| "split_on seps (c # cs) =
     (if c \<in> set seps then [] # split_on seps cs
      else (case split_on seps cs of
              [] \<Rightarrow> [[c]]
            | p # ps \<Rightarrow> (c # p) # ps))"

lemma split_on_nonempty [simp]: "split_on seps s \<noteq> []"
  by (induction s) (auto split: list.splits)

lemma split_on_no_sep: "set p \<inter> set seps = {} \<Longrightarrow> split_on seps p = [p]"
  by (induction p) auto

lemma split_on_append:
  "set p \<inter> set seps = {} \<Longrightarrow> c \<in> set seps \<Longrightarrow> split_on seps (p @ c # rest) = p # split_on seps rest"
  by (induction p) auto

section \<open>\<open>Ipv4Addr\<close>\<close>

definition ipv4_to_string :: "ipv4addr \<Rightarrow> string" where
  "ipv4_to_string a =
     nat_to_string (unat (octets a ! 0)) @ ''.'' @ nat_to_string (unat (octets a ! 1)) @ ''.'' @
     nat_to_string (unat (octets a ! 2)) @ ''.'' @ nat_to_string (unat (octets a ! 3))"

text \<open>\<open>Parser::read_number(10, Some(3), false)\<close>: the value and the rest of the input.\<close>

definition is_dec :: "char \<Rightarrow> bool" where
  "is_dec c \<longleftrightarrow> to_digit 10 c \<noteq> None"

definition read_octet :: "string \<Rightarrow> (u8 \<times> string) option" where
  "read_octet s =
     (let ds = takeWhile is_dec s; rest = dropWhile is_dec s
      in if ds = [] \<or> 3 < length ds \<or> (1 < length ds \<and> hd ds = CHR ''0'') then None
         else (case radix_digits 255 10 0 ds of
                 None \<Rightarrow> None
               | Some n \<Rightarrow> Some (of_nat n, rest)))"

fun expect_dot :: "string \<Rightarrow> string option" where
  "expect_dot (c # cs) = (if c = CHR ''.'' then Some cs else None)"
| "expect_dot [] = None"

definition ipv4_from_str :: "string \<Rightarrow> ipv4addr option" where
  "ipv4_from_str s =
     (if 15 < length s then None
      else do {
        (a, s) \<leftarrow> read_octet s; s \<leftarrow> expect_dot s;
        (b, s) \<leftarrow> read_octet s; s \<leftarrow> expect_dot s;
        (c, s) \<leftarrow> read_octet s; s \<leftarrow> expect_dot s;
        (d, s) \<leftarrow> read_octet s;
        (if s = [] then Some (be32 a b c d) else None) })"

subsection \<open>Printing and parsing an address\<close>

lemma is_dec_digit_char: "n < 10 \<Longrightarrow> is_dec (digit_char n)"
  by (simp add: is_dec_def to_digit_digit_char)

lemma digit_char_0: "n < 16 \<Longrightarrow> digit_char n = CHR ''0'' \<longleftrightarrow> n = 0"
proof -
  assume "n < 16"
  then have "(of_char (digit_char n) :: nat) = (if n < 10 then 48 + n else 87 + n)" by (rule of_char_digit_char)
  moreover have "(digit_char n = CHR ''0'') = ((of_char (digit_char n) :: nat) = of_char (CHR ''0''))"
    by (simp only: of_char_eq_iff)
  ultimately show ?thesis by simp
qed

lemma nat_to_string_1: "n < 10 \<Longrightarrow> nat_to_string n = [digit_char n]"
  by (simp add: nat_to_string.simps)

lemma nat_to_string_2: "10 \<le> n \<Longrightarrow> n < 100 \<Longrightarrow> nat_to_string n = [digit_char (n div 10), digit_char (n mod 10)]"
  by (subst nat_to_string.simps) (simp add: nat_to_string_1 less_mult_imp_div_less)

lemma nat_to_string_3:
  "100 \<le> n \<Longrightarrow> n < 1000 \<Longrightarrow>
   nat_to_string n = [digit_char (n div 100), digit_char (n div 10 mod 10), digit_char (n mod 10)]"
  by (subst nat_to_string.simps)
    (simp add: nat_to_string_2 less_mult_imp_div_less div_mult2_eq [symmetric])

text \<open>Reading back a number of at most three digits.\<close>

lemma octet_digits:
  assumes "n < 256"
  shows "(\<forall>c \<in> set (nat_to_string n). is_dec c) \<and> nat_to_string n \<noteq> [] \<and> length (nat_to_string n) \<le> 3 \<and>
    \<not> (1 < length (nat_to_string n) \<and> hd (nat_to_string n) = CHR ''0'') \<and>
    radix_digits 255 10 0 (nat_to_string n) = Some n"
proof -
  consider "n < 10" | "10 \<le> n" "n < 100" | "100 \<le> n" "n < 1000" using assms by linarith
  then show ?thesis
  proof cases
    case 1
    then show ?thesis by (simp add: nat_to_string_1 is_dec_digit_char to_digit_digit_char)
  next
    case 2
    have d: "n div 10 < 10" "0 < n div 10" using 2 by (simp_all add: less_mult_imp_div_less div_greater_zero_iff)
    then show ?thesis
      using 2 assms by (simp add: nat_to_string_2 is_dec_digit_char to_digit_digit_char digit_char_0)
  next
    case 3
    have d: "n div 100 < 10" "0 < n div 100" using 3 by (simp_all add: less_mult_imp_div_less div_greater_zero_iff)
    have e: "n div 100 * 10 + n div 10 mod 10 = n div 10"
      using div_mult_mod_eq [of "n div 10" 10] by (simp add: div_mult2_eq [symmetric])
    have "n div 10 < 256" using assms by linarith
    moreover have "n div 100 < 256" using assms by linarith
    ultimately show ?thesis
      using 3 assms d by (simp add: nat_to_string_3 is_dec_digit_char to_digit_digit_char digit_char_0 e)
  qed
qed

lemma read_octet_nat_to_string:
  assumes "rest = [] \<or> hd rest = CHR ''.''"
  shows "read_octet (nat_to_string (unat b) @ rest) = Some (b, rest)"
proof -
  note D = octet_digits [OF unat_u8_less [of b]]
  have "\<not> is_dec (CHR ''.'')" by (simp add: is_dec_def to_digit_def)
  then have "takeWhile is_dec rest = []" "dropWhile is_dec rest = rest"
    using assms by (cases rest; simp)+
  then have "takeWhile is_dec (nat_to_string (unat b) @ rest) = nat_to_string (unat b)"
      "dropWhile is_dec (nat_to_string (unat b) @ rest) = rest"
    using D by (simp_all add: takeWhile_append2 dropWhile_append2)
  then show ?thesis using D by (auto simp: read_octet_def Let_def)
qed

lemma ipv4_from_str_to_string: "ipv4_from_str (ipv4_to_string a) = Some a"
proof -
  have l: "length (nat_to_string (unat (b :: u8))) \<le> 3" for b using octet_digits [OF unat_u8_less [of b]] by simp
  have "length (ipv4_to_string a) \<le> 15"
    using l [of "octets a ! 0"] l [of "octets a ! 1"] l [of "octets a ! 2"] l [of "octets a ! 3"]
    unfolding ipv4_to_string_def by simp
  then show ?thesis
    using be32_octets [of a]
    by (simp add: ipv4_from_str_def ipv4_to_string_def read_octet_nat_to_string
        read_octet_nat_to_string [of "[]", simplified])
qed

section \<open>\<open>str::split_once\<close>\<close>

definition split_once :: "char \<Rightarrow> string \<Rightarrow> (string \<times> string) option" where
  "split_once c s =
     (case dropWhile (\<lambda>x. x \<noteq> c) s of
        [] \<Rightarrow> None
      | _ # r \<Rightarrow> Some (takeWhile (\<lambda>x. x \<noteq> c) s, r))"

end
