(* ===== verification/Parse_Error.thy ===== *)
theory Parse_Error
  imports Text_Std
begin

text \<open>
  The error type of \<open>andromeda-core/src/lib.rs\<close>, its \<open>Display\<close>, and the \<open>?\<close> operator on
  results inside computations that may panic.
\<close>

text \<open>The fields, in the order of the source: \<open>TooShort { what, need, got }\<close>,
  \<open>BadVersion { what, version }\<close>, \<open>BadHeaderLen { what, len }\<close>, \<open>BufferTooSmall { need, got }\<close>.\<close>

datatype parse_error =
    TooShort string nat nat
  | BadVersion string u8
  | BadHeaderLen string nat
  | BufferTooSmall nat nat

type_synonym 'a parse_result = "(parse_error + 'a) option"

definition ParseError_to_string :: "parse_error \<Rightarrow> string" where
  "ParseError_to_string e =
     (case e of
        TooShort w n g \<Rightarrow>
          w @ '': buffer too short (need '' @ nat_to_string n @ '', got '' @ nat_to_string g @ '')''
      | BadVersion w v \<Rightarrow> w @ '': unexpected version '' @ nat_to_string (unat v)
      | BadHeaderLen w l \<Rightarrow> w @ '': invalid header length '' @ nat_to_string l
      | BufferTooSmall n g \<Rightarrow>
          ''output buffer too small (need '' @ nat_to_string n @ '', got '' @ nat_to_string g @ '')'')"

text \<open>\<open>let x = m?; k x\<close>: an error ends the function, a panic ends everything.\<close>

definition try_bind :: "('e + 'a) option \<Rightarrow> ('a \<Rightarrow> ('e + 'b) option) \<Rightarrow> ('e + 'b) option" where
  "try_bind m k =
     (case m of None \<Rightarrow> None | Some (Inl e) \<Rightarrow> Some (Inl e) | Some (Inr x) \<Rightarrow> k x)"

lemma try_bind_simps [simp]:
  "try_bind None k = None"
  "try_bind (Some (Inl e)) k = Some (Inl e)"
  "try_bind (Some (Inr x)) k = k x"
  by (simp_all add: try_bind_def)

text \<open>\<open>m.ok()\<close>: the error is forgotten, the panic is not.\<close>

definition res_ok :: "'e + 'a \<Rightarrow> 'a option" where
  "res_ok r = (case r of Inl _ \<Rightarrow> None | Inr x \<Rightarrow> Some x)"

lemma res_ok_simps [simp]: "res_ok (Inl e) = None" "res_ok (Inr x) = Some x"
  by (simp_all add: res_ok_def)

end
