(* ===== verification/Ethernet.thy ===== *)
theory Ethernet
  imports Parse_Error
begin

text \<open>
  \<open>andromeda-core/src/ethernet.rs\<close>: MAC addresses with their text form, the read-only and
  the mutable view of an Ethernet II frame, and the header writer. A view is the slice it
  borrows; the accessors index it and may panic on a slice that \<open>parse\<close> refused.
\<close>

definition ETH_HDR_LEN :: nat where
  "ETH_HDR_LEN = 14"

definition ethertype_IPV4 :: u16 where "ethertype_IPV4 = 0x0800"

definition ethertype_ARP :: u16 where "ethertype_ARP = 0x0806"

definition ethertype_IPV6 :: u16 where "ethertype_IPV6 = 0x86dd"

lemmas ethertype_defs = ethertype_IPV4_def ethertype_ARP_def ethertype_IPV6_def

section \<open>MAC addresses\<close>

datatype mac_addr = MacAddr u8 u8 u8 u8 u8 u8

fun mac_bytes :: "mac_addr \<Rightarrow> bytes" where
  "mac_bytes (MacAddr a b c d e f) = [a, b, c, d, e, f]"

text \<open>The array \<open>[u8; 6]\<close> filled from a slice of length 6 (\<open>None\<close> is the panic of
  \<open>copy_from_slice\<close> on another length).\<close>

fun mac_of :: "bytes \<Rightarrow> mac_addr option" where
  "mac_of [a, b, c, d, e, f] = Some (MacAddr a b c d e f)"
| "mac_of _ = None"

definition BROADCAST :: mac_addr where
  "BROADCAST = MacAddr 0xff 0xff 0xff 0xff 0xff 0xff"

definition ZERO :: mac_addr where
  "ZERO = MacAddr 0 0 0 0 0 0"

fun is_multicast :: "mac_addr \<Rightarrow> bool" where
  "is_multicast (MacAddr a b c d e f) \<longleftrightarrow> a AND 0x01 \<noteq> 0"

definition is_broadcast :: "mac_addr \<Rightarrow> bool" where
  "is_broadcast m \<longleftrightarrow> m = BROADCAST"

lemma length_mac_bytes [simp]: "length (mac_bytes m) = 6"
  by (cases m) simp

lemma mac_of_mac_bytes [simp]: "mac_of (mac_bytes m) = Some m"
  by (cases m) simp

lemma mac_of_eq_Some: "length b = 6 \<Longrightarrow> \<exists>m. mac_of b = Some m \<and> mac_bytes m = b"
  by (cases b rule: mac_of.cases) auto

lemma mac_bytes_inject [simp]: "mac_bytes m = mac_bytes n \<longleftrightarrow> m = n"
  by (cases m; cases n) simp

subsection \<open>Text form\<close>

datatype mac_parse_error = MacParseError

definition MacParseError_to_string :: "mac_parse_error \<Rightarrow> string" where
  "MacParseError_to_string e = ''invalid MAC address (expected aa:bb:cc:dd:ee:ff)''"

fun MacAddr_to_string :: "mac_addr \<Rightarrow> string" where
  "MacAddr_to_string (MacAddr a b c d e f) =
     hex02 a @ '':'' @ hex02 b @ '':'' @ hex02 c @ '':'' @ hex02 d @ '':'' @ hex02 e @ '':'' @ hex02 f"

text \<open>The \<open>for part in s.split([':', '-'])\<close> loop with its state \<open>octets\<close> and \<open>n\<close>.\<close>

fun mac_from_parts :: "string list \<Rightarrow> bytes \<Rightarrow> nat \<Rightarrow> mac_parse_error + (bytes \<times> nat)" where
  "mac_from_parts [] octs n = Inr (octs, n)"
| "mac_from_parts (part # parts) octs n =
     (if n = 6 then Inl MacParseError
      else (case u8_from_str_radix 16 part of
              None \<Rightarrow> Inl MacParseError
            | Some v \<Rightarrow> mac_from_parts parts (octs[n := v]) (n + 1)))"

definition MacAddr_from_str :: "string \<Rightarrow> (mac_parse_error + mac_addr) option" where
  "MacAddr_from_str s =
     (case mac_from_parts (split_on [CHR '':'', CHR ''-''] s) (replicate 6 0) 0 of
        Inl e \<Rightarrow> Some (Inl e)
      | Inr (octs, n) \<Rightarrow>
          if n \<noteq> 6 then Some (Inl MacParseError)
          else map_option Inr (mac_of octs))"

lemma mac_from_parts_eq:
  "n + length vs \<le> 6 \<Longrightarrow> length octs = 6 \<Longrightarrow> map (u8_from_str_radix 16) parts = map Some vs \<Longrightarrow>
   mac_from_parts parts octs n = Inr (take n octs @ vs @ drop (n + length vs) octs, n + length vs)"
proof (induction parts arbitrary: octs n vs)
  case (Cons p ps)
  then obtain v vs' where [simp]: "vs = v # vs'" by (cases vs) auto
  from Cons.prems have "mac_from_parts ps (octs[n := v]) (n + 1) =
      Inr (take (n + 1) (octs[n := v]) @ vs' @ drop (n + 1 + length vs') (octs[n := v]), n + 1 + length vs')"
    by (intro Cons.IH) auto
  moreover have "take (n + 1) (octs[n := v]) = take n octs @ [v]"
    using Cons.prems by (simp add: take_Suc_conv_app_nth)
  ultimately show ?case using Cons.prems by (simp add: drop_update_cancel)
qed simp

lemma mac_from_parts_Inr:
  "mac_from_parts parts octs n = Inr (octs', n') \<Longrightarrow>
   n' = n + length parts \<and> (\<exists>vs. map (u8_from_str_radix 16) parts = map Some vs) \<and> length octs' = length octs"
proof (induction parts arbitrary: octs n)
  case (Cons p ps)
  then obtain v where v: "u8_from_str_radix 16 p = Some v" "n \<noteq> 6"
    and rec: "mac_from_parts ps (octs[n := v]) (n + 1) = Inr (octs', n')"
    by (auto split: if_splits option.splits)
  from Cons.IH [OF rec] obtain vs where "map (u8_from_str_radix 16) ps = map Some vs"
    "n' = n + 1 + length ps" "length octs' = length octs" by auto
  then show ?case using v by (auto intro!: exI [of _ "v # vs"])
qed simp

text \<open>The accepted texts: exactly six hexadecimal octets.\<close>

lemma MacAddr_from_str_iff:
  "MacAddr_from_str s = Some (Inr m) \<longleftrightarrow>
   map (u8_from_str_radix 16) (split_on [CHR '':'', CHR ''-''] s) = map Some (mac_bytes m)"
  (is "?l \<longleftrightarrow> map ?p ?parts = _")
proof
  assume ?l
  then obtain octs where run: "mac_from_parts ?parts (replicate 6 0) 0 = Inr (octs, 6)"
    and m: "mac_of octs = Some m"
    by (auto simp: MacAddr_from_str_def split: sum.splits if_splits)
  from mac_from_parts_Inr [OF run] obtain vs where len: "length ?parts = 6"
    and vs: "map ?p ?parts = map Some vs" by auto
  have "length vs = 6" using len vs by (metis length_map)
  then have "mac_from_parts ?parts (replicate 6 0) 0 = Inr (vs, 6)"
    using mac_from_parts_eq [of 0 vs "replicate 6 0" ?parts] vs by simp
  with run have [simp]: "vs = octs" by simp
  have "mac_bytes m = octs" using mac_of_eq_Some [of octs] m \<open>length vs = 6\<close> by auto
  with vs show "map ?p ?parts = map Some (mac_bytes m)" by simp
next
  assume "map ?p ?parts = map Some (mac_bytes m)"
  then show ?l
    using mac_from_parts_eq [of 0 "mac_bytes m" "replicate 6 0" ?parts]
    by (simp add: MacAddr_from_str_def)
qed

lemma hex02_no_sep: "set (hex02 b) \<inter> set [CHR '':'', CHR ''-''] = {}"
proof -
  have "unat b div 16 < 16" using unat_u8_less [of b] by (simp add: less_mult_imp_div_less)
  then show ?thesis
    by (auto simp: hex02_def dest!: sym [where t = "digit_char _"] simp: digit_char_not)
qed

lemma split_on_mac_string:
  "split_on [CHR '':'', CHR ''-''] (MacAddr_to_string m) = map hex02 (mac_bytes m)"
  by (cases m) (simp add: split_on_append [OF hex02_no_sep] split_on_no_sep [OF hex02_no_sep])

text \<open>Printing a MAC address and parsing the text gives the address back, for every
  address; parsing never panics.\<close>

lemma MacAddr_text_roundtrip:
  "MacAddr_from_str (MacAddr_to_string m) = Some (Inr m)"
  by (simp add: MacAddr_from_str_iff split_on_mac_string u8_from_str_radix_hex02)

section \<open>Read-only view\<close>

definition EthFrame_parse :: "bytes \<Rightarrow> parse_error + bytes" where
  "EthFrame_parse buf =
     (if length buf < ETH_HDR_LEN then Inl (TooShort ''ethernet'' ETH_HDR_LEN (length buf))
      else Inr buf)"

definition EthFrame_dst :: "bytes \<Rightarrow> mac_addr option" where
  "EthFrame_dst buf = do { s \<leftarrow> slice buf 0 6; mac_of s }"

definition EthFrame_src :: "bytes \<Rightarrow> mac_addr option" where
  "EthFrame_src buf = do { s \<leftarrow> slice buf 6 12; mac_of s }"

definition EthFrame_ethertype :: "bytes \<Rightarrow> u16 option" where
  "EthFrame_ethertype buf = rd16 buf 12"

definition EthFrame_payload :: "bytes \<Rightarrow> bytes option" where
  "EthFrame_payload buf = slice_from buf ETH_HDR_LEN"

definition EthFrame_bytes :: "bytes \<Rightarrow> bytes" where
  "EthFrame_bytes buf = buf"

section \<open>Mutable view\<close>

definition EthFrameMut_parse :: "bytes \<Rightarrow> parse_error + bytes" where
  "EthFrameMut_parse buf =
     (if length buf < ETH_HDR_LEN then Inl (TooShort ''ethernet'' ETH_HDR_LEN (length buf))
      else Inr buf)"

definition EthFrameMut_set_dst :: "bytes \<Rightarrow> mac_addr \<Rightarrow> bytes option" where
  "EthFrameMut_set_dst buf m = put buf 0 6 (mac_bytes m)"

definition EthFrameMut_set_src :: "bytes \<Rightarrow> mac_addr \<Rightarrow> bytes option" where
  "EthFrameMut_set_src buf m = put buf 6 12 (mac_bytes m)"

definition EthFrameMut_set_ethertype :: "bytes \<Rightarrow> u16 \<Rightarrow> bytes option" where
  "EthFrameMut_set_ethertype buf ty = put buf 12 14 (to_be16 ty)"

definition EthFrameMut_payload_mut ::
    "bytes \<Rightarrow> (bytes \<Rightarrow> (bytes \<times> 'r) option) \<Rightarrow> (bytes \<times> 'r) option" where
  "EthFrameMut_payload_mut buf f = sub_mut buf ETH_HDR_LEN (length buf) f"

section \<open>Header writer\<close>

definition ethernet_write_header ::
    "bytes \<Rightarrow> mac_addr \<Rightarrow> mac_addr \<Rightarrow> u16 \<Rightarrow> (bytes \<times> nat) option" where
  "ethernet_write_header buf dst src ethertype = do {
     buf \<leftarrow> put buf 0 6 (mac_bytes dst);
     buf \<leftarrow> put buf 6 12 (mac_bytes src);
     buf \<leftarrow> put buf 12 14 (to_be16 ethertype);
     Some (buf, ETH_HDR_LEN) }"

text \<open>The 14 bytes the writer leaves at the front of the buffer.\<close>

definition eth_hdr :: "mac_addr \<Rightarrow> mac_addr \<Rightarrow> u16 \<Rightarrow> bytes" where
  "eth_hdr dst src ty = mac_bytes dst @ mac_bytes src @ to_be16 ty"

lemma length_eth_hdr [simp]: "length (eth_hdr dst src ty) = 14"
  by (simp add: eth_hdr_def)

lemma ethernet_write_header_eq [view_simps]:
  "14 \<le> length buf \<Longrightarrow>
   ethernet_write_header buf dst src ty = Some (eth_hdr dst src ty @ drop 14 buf, 14)"
  by (simp add: ethernet_write_header_def view_simps ETH_HDR_LEN_def eth_hdr_def patch_def)

lemma EthFrame_parse_eq:
  "EthFrame_parse buf =
     (if length buf < 14 then Inl (TooShort ''ethernet'' 14 (length buf)) else Inr buf)"
  by (simp add: EthFrame_parse_def ETH_HDR_LEN_def)

lemma EthFrame_hdr_simps [simp]:
  "EthFrame_dst (eth_hdr d s ty @ p) = Some d"
  "EthFrame_src (eth_hdr d s ty @ p) = Some s"
  "EthFrame_ethertype (eth_hdr d s ty @ p) = Some ty"
  "EthFrame_payload (eth_hdr d s ty @ p) = Some p"
  by (simp_all add: EthFrame_dst_def EthFrame_src_def EthFrame_ethertype_def EthFrame_payload_def
      view_simps ETH_HDR_LEN_def eth_hdr_def word16_def nth_append)

lemma EthFrame_accessors [view_simps]:
  assumes "14 \<le> length buf"
  shows "EthFrame_ethertype buf = Some (word16 buf 12)"
    and "EthFrame_payload buf = Some (drop 14 buf)"
    and "\<exists>m. EthFrame_dst buf = Some m \<and> mac_bytes m = take 6 buf"
    and "\<exists>m. EthFrame_src buf = Some m \<and> mac_bytes m = take 6 (drop 6 buf)"
  using assms mac_of_eq_Some [of "take 6 buf"] mac_of_eq_Some [of "take 6 (drop 6 buf)"]
  by (auto simp: EthFrame_dst_def EthFrame_src_def EthFrame_ethertype_def EthFrame_payload_def
      view_simps ETH_HDR_LEN_def)

end
