(* ===== verification/Arp.thy ===== *)
theory Arp
  imports Ethernet
begin

text \<open>
  \<open>andromeda-core/src/arp.rs\<close>: the ARP view and the proxy-ARP reply builder. The reply
  theorem covers every request payload, every buffer, and both error branches.
\<close>

definition ARP_LEN :: nat where
  "ARP_LEN = 28"

definition ARP_FRAME_LEN :: nat where
  "ARP_FRAME_LEN = ETH_HDR_LEN + ARP_LEN"

definition oper_REQUEST :: u16 where "oper_REQUEST = 1"

definition oper_REPLY :: u16 where "oper_REPLY = 2"

lemmas arp_defs = ARP_LEN_def ARP_FRAME_LEN_def ETH_HDR_LEN_def oper_REQUEST_def oper_REPLY_def

section \<open>View\<close>

definition ArpView_parse :: "bytes \<Rightarrow> bytes parse_result" where
  "ArpView_parse buf =
     (if length buf < ARP_LEN then Some (Inl (TooShort ''arp'' ARP_LEN (length buf)))
      else do {
        htype \<leftarrow> rd16 buf 0;
        ptype \<leftarrow> rd16 buf 2;
        hlen \<leftarrow> rd8 buf 4;
        plen \<leftarrow> rd8 buf 5;
        if htype \<noteq> 1 \<or> ptype \<noteq> ethertype_IPV4 \<or> hlen \<noteq> 6 \<or> plen \<noteq> 4 then
          Some (Inl (BadHeaderLen ''arp'' (length buf)))
        else Some (Inr buf) })"

definition ArpView_oper :: "bytes \<Rightarrow> u16 option" where
  "ArpView_oper buf = rd16 buf 6"

definition ArpView_is_request :: "bytes \<Rightarrow> bool option" where
  "ArpView_is_request buf = do { op \<leftarrow> ArpView_oper buf; Some (op = oper_REQUEST) }"

definition ArpView_sender_mac :: "bytes \<Rightarrow> mac_addr option" where
  "ArpView_sender_mac buf = do { s \<leftarrow> slice buf 8 14; mac_of s }"

definition ArpView_sender_ip :: "bytes \<Rightarrow> ipv4addr option" where
  "ArpView_sender_ip buf = rd32 buf 14"

definition ArpView_target_ip :: "bytes \<Rightarrow> ipv4addr option" where
  "ArpView_target_ip buf = rd32 buf 24"

section \<open>Reply\<close>

text \<open>The ten writes to \<open>p = &mut out[14..ARP_FRAME_LEN]\<close>.\<close>

definition arp_write_payload ::
    "mac_addr \<Rightarrow> ipv4addr \<Rightarrow> mac_addr \<Rightarrow> ipv4addr \<Rightarrow> bytes \<Rightarrow> (bytes \<times> unit) option" where
  "arp_write_payload answer_mac asked_ip requester_mac requester_ip p = do {
     p \<leftarrow> put p 0 2 (to_be16 1);
     p \<leftarrow> put p 2 4 (to_be16 ethertype_IPV4);
     p \<leftarrow> wr8 p 4 6;
     p \<leftarrow> wr8 p 5 4;
     p \<leftarrow> put p 6 8 (to_be16 oper_REPLY);
     p \<leftarrow> put p 8 14 (mac_bytes answer_mac);
     p \<leftarrow> put p 14 18 (octets asked_ip);
     p \<leftarrow> put p 18 24 (mac_bytes requester_mac);
     p \<leftarrow> put p 24 28 (octets requester_ip);
     Some (p, ()) }"

definition arp_write_reply :: "bytes \<Rightarrow> bytes \<Rightarrow> mac_addr \<Rightarrow> (bytes \<times> (parse_error + nat)) option" where
  "arp_write_reply out request_payload answer_mac =
     (if length out < ARP_FRAME_LEN then
        Some (out, Inl (BufferTooSmall ARP_FRAME_LEN (length out)))
      else (case ArpView_parse request_payload of
          None \<Rightarrow> None
        | Some (Inl e) \<Rightarrow> Some (out, Inl e)
        | Some (Inr req) \<Rightarrow> do {
            requester_mac \<leftarrow> ArpView_sender_mac req;
            requester_ip \<leftarrow> ArpView_sender_ip req;
            asked_ip \<leftarrow> ArpView_target_ip req;
            (out, _) \<leftarrow> sub_mut out 0 14
              (\<lambda>s. ethernet_write_header s requester_mac answer_mac ethertype_ARP);
            (out, _) \<leftarrow> sub_mut out 14 ARP_FRAME_LEN
              (arp_write_payload answer_mac asked_ip requester_mac requester_ip);
            Some (out, Inr ARP_FRAME_LEN) }))"

section \<open>Closed forms\<close>

definition arp_ok :: "bytes \<Rightarrow> bool" where
  "arp_ok b \<longleftrightarrow> 28 \<le> length b \<and> word16 b 0 = 1 \<and> word16 b 2 = ethertype_IPV4 \<and> b ! 4 = 6 \<and> b ! 5 = 4"

lemma ArpView_parse_total:
  "ArpView_parse b = Some
     (if length b < 28 then Inl (TooShort ''arp'' 28 (length b))
      else if \<not> arp_ok b then Inl (BadHeaderLen ''arp'' (length b)) else Inr b)"
  by (simp add: ArpView_parse_def arp_defs arp_ok_def view_simps)

lemma ArpView_parse_ok: "arp_ok b \<Longrightarrow> ArpView_parse b = Some (Inr b)"
  by (auto simp: ArpView_parse_total arp_ok_def)

lemma ArpView_parse_err: "\<not> arp_ok b \<Longrightarrow> \<exists>e. ArpView_parse b = Some (Inl e)"
  by (simp add: ArpView_parse_total)

lemma ArpView_accessors [view_simps]:
  assumes "28 \<le> length b"
  shows "ArpView_oper b = Some (word16 b 6)"
    and "ArpView_is_request b = Some (word16 b 6 = 1)"
    and "ArpView_sender_ip b = Some (word32 b 14)"
    and "ArpView_target_ip b = Some (word32 b 24)"
  using assms by (simp_all add: ArpView_oper_def ArpView_is_request_def ArpView_sender_ip_def
      ArpView_target_ip_def view_simps arp_defs)

lemma ArpView_sender_mac_eq:
  "28 \<le> length b \<Longrightarrow> \<exists>m. ArpView_sender_mac b = Some m \<and> mac_bytes m = take 6 (drop 8 b)"
  using mac_of_eq_Some [of "take 6 (drop 8 b)"] by (auto simp: ArpView_sender_mac_def view_simps)

definition arp_body :: "mac_addr \<Rightarrow> ipv4addr \<Rightarrow> mac_addr \<Rightarrow> ipv4addr \<Rightarrow> bytes" where
  "arp_body smac sip tmac tip =
     to_be16 1 @ to_be16 ethertype_IPV4 @ [6, 4] @ to_be16 oper_REPLY @
     mac_bytes smac @ octets sip @ mac_bytes tmac @ octets tip"

lemma length_arp_body [simp]: "length (arp_body a b c d) = 28"
  by (simp add: arp_body_def)

lemma arp_write_payload_eq:
  assumes "length p = 28"
  shows "arp_write_payload a i m r p = Some (arp_body a i m r, ())"
proof -
  have "put p 0 2 (to_be16 1) = Some (to_be16 1 @ drop 2 p)"
    using put_next [of "[]" 0 2 p "to_be16 1"] assms by simp
  then show ?thesis
    using assms by (simp add: arp_write_payload_def put_next wr8_next arp_body_def del: append_assoc)
qed

lemma arp_body_fields:
  "arp_ok (arp_body smac sip tmac tip @ r)"
  "word16 (arp_body smac sip tmac tip @ r) 6 = 2"
  "ArpView_sender_mac (arp_body smac sip tmac tip @ r) = Some smac"
  "word32 (arp_body smac sip tmac tip @ r) 14 = sip"
  "word32 (arp_body smac sip tmac tip @ r) 24 = tip"
  using be32_octets [of sip] be32_octets [of tip]
  by (simp_all add: arp_ok_def ArpView_sender_mac_def view_simps)
    (simp_all add: arp_body_def word16_def word32_def nth_append oper_REPLY_def)

lemma arp_write_reply_eq:
  assumes "42 \<le> length out" and "arp_ok req" and "ArpView_sender_mac req = Some m"
  shows "arp_write_reply out req mac =
    Some (eth_hdr m mac ethertype_ARP @ arp_body mac (word32 req 24) m (word32 req 14) @ drop 42 out, Inr 42)"
proof -
  have len: "28 \<le> length req" using assms(2) by (simp add: arp_ok_def)
  show ?thesis
    using assms len
    by (simp add: arp_write_reply_def ArpView_parse_ok view_simps arp_defs arp_write_payload_eq patch_def)
qed

text \<open>The proxy-ARP builder returns on every output buffer and every request payload. It
  succeeds exactly when the buffer holds 42 bytes and the request is an Ethernet/IPv4 ARP
  payload; then the frame goes to the requester's MAC from the answered MAC, and its ARP
  body is a well-formed reply that binds the asked address to the answered MAC and is
  addressed to the requester. On an error the buffer is unchanged.\<close>

lemma arp_write_reply_spec:
  "\<exists>out' r. arp_write_reply out req mac = Some (out', r) \<and> length out' = length out \<and>
     (r = Inr 42 \<longleftrightarrow> 42 \<le> length out \<and> ArpView_parse req = Some (Inr req)) \<and>
     (if r = Inr 42
      then \<exists>m body. ArpView_sender_mac req = Some m \<and> EthFrame_dst out' = Some m \<and>
        EthFrame_src out' = Some mac \<and> EthFrame_ethertype out' = Some ethertype_ARP \<and>
        EthFrame_payload out' = Some body \<and> ArpView_parse body = Some (Inr body) \<and>
        ArpView_oper body = Some oper_REPLY \<and> ArpView_is_request body = Some False \<and>
        ArpView_sender_mac body = Some mac \<and> ArpView_sender_ip body = ArpView_target_ip req \<and>
        ArpView_target_ip body = ArpView_sender_ip req \<and> drop 42 out' = drop 42 out
      else out' = out \<and> (\<exists>e. r = Inl e))"
proof (cases "42 \<le> length out \<and> arp_ok req")
  case False
  then have "\<not> (42 \<le> length out \<and> ArpView_parse req = Some (Inr req))"
    using ArpView_parse_err [of req] by auto
  moreover have "\<exists>e. arp_write_reply out req mac = Some (out, Inl e)"
    using False ArpView_parse_err [of req] by (auto simp: arp_write_reply_def arp_defs)
  ultimately show ?thesis by auto
next
  case True
  then have len: "28 \<le> length req" by (simp add: arp_ok_def)
  obtain m where m: "ArpView_sender_mac req = Some m" using ArpView_sender_mac_eq [OF len] by auto
  let ?body = "arp_body mac (word32 req 24) m (word32 req 14) @ drop 42 out"
  have "arp_write_reply out req mac = Some (eth_hdr m mac ethertype_ARP @ ?body, Inr 42)"
    using True m by (intro arp_write_reply_eq) simp_all
  moreover have "28 \<le> length ?body" by simp
  ultimately show ?thesis
    using True m len
    by (simp add: ArpView_parse_ok arp_body_fields view_simps oper_REPLY_def)
qed

end
