(* ===== verification/Ipv4.thy ===== *)
theory Ipv4
  imports Checksum Parse_Error
begin

text \<open>
  \<open>andromeda-core/src/ipv4.rs\<close>: the read-only and the mutable IPv4 view, the pseudo-header
  sum and the header writer. The theorems show that the parser is total, that the three
  rewriting operations keep a valid header checksum valid, and that the writer produces a
  header that parses back and verifies.
\<close>

definition IPV4_MIN_HDR_LEN :: nat where
  "IPV4_MIN_HDR_LEN = 20"

definition proto_ICMP :: u8 where "proto_ICMP = 1"

definition proto_TCP :: u8 where "proto_TCP = 6"

definition proto_UDP :: u8 where "proto_UDP = 17"

lemmas proto_defs = proto_ICMP_def proto_TCP_def proto_UDP_def

section \<open>Read-only view\<close>

definition Ipv4View_parse :: "bytes \<Rightarrow> bytes parse_result" where
  "Ipv4View_parse buf =
     (if length buf < IPV4_MIN_HDR_LEN then
        Some (Inl (TooShort ''ipv4'' IPV4_MIN_HDR_LEN (length buf)))
      else do {
        b0 \<leftarrow> rd8 buf 0;
        let version = drop_bit 4 b0;
        if version \<noteq> 4 then Some (Inl (BadVersion ''ipv4'' version))
        else do {
          let ihl = unat (b0 AND 0x0f) * 4;
          if ihl < IPV4_MIN_HDR_LEN \<or> length buf < ihl then Some (Inl (BadHeaderLen ''ipv4'' ihl))
          else do {
            total \<leftarrow> rd16 buf 2;
            if unat total < ihl then Some (Inl (BadHeaderLen ''ipv4-total'' (unat total)))
            else Some (Inr buf) } } })"

definition Ipv4View_ihl_bytes :: "bytes \<Rightarrow> nat option" where
  "Ipv4View_ihl_bytes buf = do { b \<leftarrow> rd8 buf 0; Some (unat (b AND 0x0f) * 4) }"

definition Ipv4View_dscp_ecn :: "bytes \<Rightarrow> u8 option" where
  "Ipv4View_dscp_ecn buf = rd8 buf 1"

definition Ipv4View_total_length :: "bytes \<Rightarrow> u16 option" where
  "Ipv4View_total_length buf = rd16 buf 2"

definition Ipv4View_identification :: "bytes \<Rightarrow> u16 option" where
  "Ipv4View_identification buf = rd16 buf 4"

definition Ipv4View_flags_frag :: "bytes \<Rightarrow> u16 option" where
  "Ipv4View_flags_frag buf = rd16 buf 6"

definition Ipv4View_dont_fragment :: "bytes \<Rightarrow> bool option" where
  "Ipv4View_dont_fragment buf = do { f \<leftarrow> Ipv4View_flags_frag buf; Some (f AND 0x4000 \<noteq> 0) }"

definition Ipv4View_more_fragments :: "bytes \<Rightarrow> bool option" where
  "Ipv4View_more_fragments buf = do { f \<leftarrow> Ipv4View_flags_frag buf; Some (f AND 0x2000 \<noteq> 0) }"

definition Ipv4View_fragment_offset :: "bytes \<Rightarrow> u16 option" where
  "Ipv4View_fragment_offset buf = do { f \<leftarrow> Ipv4View_flags_frag buf; Some ((f AND 0x1fff) * 8) }"

definition Ipv4View_ttl :: "bytes \<Rightarrow> u8 option" where
  "Ipv4View_ttl buf = rd8 buf 8"

definition Ipv4View_protocol :: "bytes \<Rightarrow> u8 option" where
  "Ipv4View_protocol buf = rd8 buf 9"

definition Ipv4View_header_checksum :: "bytes \<Rightarrow> u16 option" where
  "Ipv4View_header_checksum buf = rd16 buf 10"

definition Ipv4View_src :: "bytes \<Rightarrow> ipv4addr option" where
  "Ipv4View_src buf = rd32 buf 12"

definition Ipv4View_dst :: "bytes \<Rightarrow> ipv4addr option" where
  "Ipv4View_dst buf = rd32 buf 16"

definition Ipv4View_checksum_valid :: "bytes \<Rightarrow> bool option" where
  "Ipv4View_checksum_valid buf = do {
     ihl \<leftarrow> Ipv4View_ihl_bytes buf; h \<leftarrow> slice buf 0 ihl; Some (checksum h = 0) }"

definition Ipv4View_payload :: "bytes \<Rightarrow> bytes option" where
  "Ipv4View_payload buf = do { ihl \<leftarrow> Ipv4View_ihl_bytes buf; slice_from buf ihl }"

definition Ipv4View_bytes :: "bytes \<Rightarrow> bytes" where
  "Ipv4View_bytes buf = buf"

section \<open>Mutable view\<close>

definition Ipv4ViewMut_parse :: "bytes \<Rightarrow> bytes parse_result" where
  "Ipv4ViewMut_parse buf = try_bind (Ipv4View_parse buf) (\<lambda>_. Some (Inr buf))"

definition Ipv4ViewMut_ihl_bytes :: "bytes \<Rightarrow> nat option" where
  "Ipv4ViewMut_ihl_bytes buf = do { b \<leftarrow> rd8 buf 0; Some (unat (b AND 0x0f) * 4) }"

definition Ipv4ViewMut_protocol :: "bytes \<Rightarrow> u8 option" where
  "Ipv4ViewMut_protocol buf = rd8 buf 9"

definition Ipv4ViewMut_src :: "bytes \<Rightarrow> ipv4addr option" where
  "Ipv4ViewMut_src buf = rd32 buf 12"

definition Ipv4ViewMut_dst :: "bytes \<Rightarrow> ipv4addr option" where
  "Ipv4ViewMut_dst buf = rd32 buf 16"

definition Ipv4ViewMut_header_checksum :: "bytes \<Rightarrow> u16 option" where
  "Ipv4ViewMut_header_checksum buf = rd16 buf 10"

definition Ipv4ViewMut_set_header_checksum :: "bytes \<Rightarrow> u16 \<Rightarrow> bytes option" where
  "Ipv4ViewMut_set_header_checksum buf c = put buf 10 12 (to_be16 c)"

definition Ipv4ViewMut_set_src :: "bytes \<Rightarrow> ipv4addr \<Rightarrow> (bytes \<times> u32 \<times> u32) option" where
  "Ipv4ViewMut_set_src buf new = do {
     old \<leftarrow> Ipv4ViewMut_src buf;
     hc \<leftarrow> Ipv4ViewMut_header_checksum buf;
     let c = update_dword hc old new;
     buf \<leftarrow> put buf 12 16 (octets new);
     buf \<leftarrow> Ipv4ViewMut_set_header_checksum buf c;
     Some (buf, old, new) }"

definition Ipv4ViewMut_set_dst :: "bytes \<Rightarrow> ipv4addr \<Rightarrow> (bytes \<times> u32 \<times> u32) option" where
  "Ipv4ViewMut_set_dst buf new = do {
     old \<leftarrow> Ipv4ViewMut_dst buf;
     hc \<leftarrow> Ipv4ViewMut_header_checksum buf;
     let c = update_dword hc old new;
     buf \<leftarrow> put buf 16 20 (octets new);
     buf \<leftarrow> Ipv4ViewMut_set_header_checksum buf c;
     Some (buf, old, new) }"

text \<open>The inner option is the function's own: \<open>None\<close> when the TTL was already 0.\<close>

definition Ipv4ViewMut_decrement_ttl :: "bytes \<Rightarrow> (bytes \<times> u8 option) option" where
  "Ipv4ViewMut_decrement_ttl buf = do {
     ttl \<leftarrow> rd8 buf 8;
     if ttl = 0 then Some (buf, None)
     else do {
       old_word \<leftarrow> rd16 buf 8;
       let new_ttl = ttl - 1;
       b9 \<leftarrow> rd8 buf 9;
       let new_word = be16 new_ttl b9;
       hc \<leftarrow> Ipv4ViewMut_header_checksum buf;
       let c = update_word hc old_word new_word;
       buf \<leftarrow> wr8 buf 8 new_ttl;
       buf \<leftarrow> Ipv4ViewMut_set_header_checksum buf c;
       Some (buf, Some new_ttl) } }"

definition Ipv4ViewMut_payload_mut ::
    "bytes \<Rightarrow> (bytes \<Rightarrow> (bytes \<times> 'r) option) \<Rightarrow> (bytes \<times> 'r) option" where
  "Ipv4ViewMut_payload_mut buf f = do {
     ihl \<leftarrow> Ipv4ViewMut_ihl_bytes buf; sub_mut buf ihl (length buf) f }"

section \<open>Pseudo-header and header writer\<close>

definition pseudo_header_sum :: "ipv4addr \<Rightarrow> ipv4addr \<Rightarrow> u8 \<Rightarrow> u16 \<Rightarrow> u32" where
  "pseudo_header_sum src dst protocol l4_len =
     (let acc = 0;
          acc = accumulate acc (octets src);
          acc = accumulate acc (octets dst);
          acc = acc + ucast protocol;
          acc = acc + ucast l4_len
      in acc)"

definition ipv4_write_header ::
    "bytes \<Rightarrow> ipv4addr \<Rightarrow> ipv4addr \<Rightarrow> u8 \<Rightarrow> u8 \<Rightarrow> u16 \<Rightarrow> bool \<Rightarrow> u16 \<Rightarrow> (bytes \<times> nat) option" where
  "ipv4_write_header buf src dst protocol ttl identification dont_fragment payload_len = do {
     buf \<leftarrow> wr8 buf 0 0x45;
     buf \<leftarrow> wr8 buf 1 0x00;
     let total = of_nat IPV4_MIN_HDR_LEN + payload_len;
     buf \<leftarrow> put buf 2 4 (to_be16 total);
     buf \<leftarrow> put buf 4 6 (to_be16 identification);
     let flags = (if dont_fragment then 0x4000 else 0);
     buf \<leftarrow> put buf 6 8 (to_be16 flags);
     buf \<leftarrow> wr8 buf 8 ttl;
     buf \<leftarrow> wr8 buf 9 protocol;
     buf \<leftarrow> wr8 buf 10 0;
     buf \<leftarrow> wr8 buf 11 0;
     buf \<leftarrow> put buf 12 16 (octets src);
     buf \<leftarrow> put buf 16 20 (octets dst);
     h \<leftarrow> slice buf 0 IPV4_MIN_HDR_LEN;
     let c = checksum h;
     buf \<leftarrow> put buf 10 12 (to_be16 c);
     Some (buf, IPV4_MIN_HDR_LEN) }"

section \<open>Well-formed packets and closed forms\<close>

text \<open>The header length a packet declares, and the packets \<open>Ipv4View::parse\<close> accepts.\<close>

definition ihl :: "bytes \<Rightarrow> nat" where
  "ihl b = unat (b ! 0 AND 0x0f) * 4"

definition ipv4_ok :: "bytes \<Rightarrow> bool" where
  "ipv4_ok b \<longleftrightarrow> 20 \<le> length b \<and> drop_bit 4 (b ! 0) = 4 \<and> 20 \<le> ihl b \<and> ihl b \<le> length b \<and>
     ihl b \<le> unat (word16 b 2)"

lemma ihl_le_60: "ihl b \<le> 60"
proof -
  have "b ! 0 AND 0x0f = take_bit 4 (b ! 0)" by (simp add: take_bit_eq_mask mask_eq_exp_minus_1)
  then have "unat (b ! 0 AND 0x0f) = unat (b ! 0) mod 16"
    by (simp only: unsigned_take_bit_eq) (simp add: take_bit_eq_mod)
  then have "unat (b ! 0 AND 0x0f) < 16" by simp
  then show ?thesis by (simp add: ihl_def)
qed

lemma even_ihl [simp]: "even (ihl b)"
  by (simp add: ihl_def)

lemma ipv4_okD:
  assumes "ipv4_ok b"
  shows "20 \<le> length b" "20 \<le> ihl b" "ihl b \<le> length b" "ihl b \<le> unat (word16 b 2)"
    "drop_bit 4 (b ! 0) = 4"
  using assms by (auto simp: ipv4_ok_def)

lemma Ipv4View_parse_total:
  "Ipv4View_parse b = Some
     (if length b < 20 then Inl (TooShort ''ipv4'' 20 (length b))
      else if drop_bit 4 (b ! 0) \<noteq> 4 then Inl (BadVersion ''ipv4'' (drop_bit 4 (b ! 0)))
      else if ihl b < 20 \<or> length b < ihl b then Inl (BadHeaderLen ''ipv4'' (ihl b))
      else if unat (word16 b 2) < ihl b then Inl (BadHeaderLen ''ipv4-total'' (unat (word16 b 2)))
      else Inr b)"
proof (cases "length b < 20")
  case False
  then have "rd8 b 0 = Some (b ! 0)" "rd16 b 2 = Some (word16 b 2)"
    by (auto simp: rd8_def rd16_eq)
  then show ?thesis
    by (simp add: Ipv4View_parse_def IPV4_MIN_HDR_LEN_def Let_def ihl_def)
qed (simp add: Ipv4View_parse_def IPV4_MIN_HDR_LEN_def)

text \<open>The parser returns on every byte string (it never indexes out of range), and it
  accepts exactly the well-formed headers: at least 20 bytes, version 4, a header length
  of at least 20 that lies inside the buffer, and a total length that covers the header.\<close>

lemma Ipv4View_parse_spec:
  "\<exists>r. Ipv4View_parse b = Some r \<and>
     (r = Inr b \<longleftrightarrow> 20 \<le> length b \<and> drop_bit 4 (b ! 0) = 4 \<and> 20 \<le> ihl b \<and> ihl b \<le> length b \<and>
        ihl b \<le> unat (word16 b 2)) \<and>
     (r = Inr b \<or> (\<exists>e. r = Inl e))"
  by (auto simp: Ipv4View_parse_total)

lemma Ipv4View_parse_ok [view_simps]: "ipv4_ok b \<Longrightarrow> Ipv4View_parse b = Some (Inr b)"
  by (auto simp: Ipv4View_parse_total ipv4_ok_def)

lemma Ipv4View_parse_err: "\<not> ipv4_ok b \<Longrightarrow> \<exists>e. Ipv4View_parse b = Some (Inl e)"
  by (auto simp: Ipv4View_parse_total ipv4_ok_def)

lemma Ipv4View_parse_cases:
  obtains (ok) "ipv4_ok b" "Ipv4View_parse b = Some (Inr b)"
        | (err) e where "\<not> ipv4_ok b" "Ipv4View_parse b = Some (Inl e)"
  using Ipv4View_parse_ok Ipv4View_parse_err by blast

lemma Ipv4ViewMut_parse_ok [view_simps]: "ipv4_ok b \<Longrightarrow> Ipv4ViewMut_parse b = Some (Inr b)"
  by (simp add: Ipv4ViewMut_parse_def view_simps)

lemma Ipv4View_accessors [view_simps]:
  assumes "20 \<le> length b"
  shows "Ipv4View_ihl_bytes b = Some (ihl b)"
    and "Ipv4View_total_length b = Some (word16 b 2)"
    and "Ipv4View_identification b = Some (word16 b 4)"
    and "Ipv4View_flags_frag b = Some (word16 b 6)"
    and "Ipv4View_dont_fragment b = Some (word16 b 6 AND 0x4000 \<noteq> 0)"
    and "Ipv4View_ttl b = Some (b ! 8)"
    and "Ipv4View_protocol b = Some (b ! 9)"
    and "Ipv4View_header_checksum b = Some (word16 b 10)"
    and "Ipv4View_src b = Some (word32 b 12)"
    and "Ipv4View_dst b = Some (word32 b 16)"
    and "Ipv4ViewMut_ihl_bytes b = Some (ihl b)"
    and "Ipv4ViewMut_protocol b = Some (b ! 9)"
    and "Ipv4ViewMut_src b = Some (word32 b 12)"
    and "Ipv4ViewMut_dst b = Some (word32 b 16)"
    and "Ipv4ViewMut_header_checksum b = Some (word16 b 10)"
  using assms by (simp_all add: Ipv4View_ihl_bytes_def Ipv4View_total_length_def
      Ipv4View_identification_def Ipv4View_flags_frag_def Ipv4View_dont_fragment_def Ipv4View_ttl_def
      Ipv4View_protocol_def Ipv4View_header_checksum_def Ipv4View_src_def Ipv4View_dst_def
      Ipv4ViewMut_ihl_bytes_def Ipv4ViewMut_protocol_def Ipv4ViewMut_src_def Ipv4ViewMut_dst_def
      Ipv4ViewMut_header_checksum_def ihl_def view_simps)

lemma Ipv4View_payload_eq [view_simps]: "ipv4_ok b \<Longrightarrow> Ipv4View_payload b = Some (drop (ihl b) b)"
  by (simp add: Ipv4View_payload_def view_simps ipv4_ok_def)

text \<open>The header checksum as a predicate on packets.\<close>

definition ip_sum_ok :: "bytes \<Rightarrow> bool" where
  "ip_sum_ok b \<longleftrightarrow> checksum (take (ihl b) b) = 0"

lemma Ipv4View_checksum_valid_eq [view_simps]:
  "ipv4_ok b \<Longrightarrow> Ipv4View_checksum_valid b = Some (ip_sum_ok b)"
  by (simp add: Ipv4View_checksum_valid_def view_simps ipv4_ok_def ip_sum_ok_def)

lemma ip_sum_ok_iff: "ip_sum_ok b \<longleftrightarrow> 0 < word_sum (take (ihl b) b) \<and> word_sum (take (ihl b) b) mod 65535 = 0"
  unfolding ip_sum_ok_def using ihl_le_60 [of b] by (intro checksum_eq_0_iff) simp

section \<open>Rewriting keeps the header valid\<close>

lemma hdr_positive: "ipv4_ok b \<Longrightarrow> 0 < word_sum (take (ihl b) b)"
proof -
  assume ok: "ipv4_ok b"
  then have "b ! 0 \<noteq> 0" by (auto simp: ipv4_ok_def)
  moreover have "b ! 0 \<in> set (take (ihl b) b)"
    using ipv4_okD [OF ok] by (auto simp: in_set_conv_nth intro!: exI [of _ 0])
  ultimately show ?thesis by (auto simp: word_sum_eq_0_iff simp flip: neq0_conv)
qed

lemma ip_sum_ok_mod: "ipv4_ok b \<Longrightarrow> ip_sum_ok b \<longleftrightarrow> word_sum (take (ihl b) b) mod 65535 = 0"
  by (simp add: ip_sum_ok_iff hdr_positive)

lemma ihl_patch: "0 < a \<Longrightarrow> a + length src \<le> length b \<Longrightarrow> b \<noteq> [] \<Longrightarrow> ihl (patch b a src) = ihl b"
  by (simp add: ihl_def nth_patch)

lemma ipv4_ok_patch:
  assumes "ipv4_ok b" and "4 \<le> a" and "a + length src \<le> length b"
  shows "ipv4_ok (patch b a src)"
proof -
  have "b \<noteq> []" "20 \<le> length b" using assms(1) by (auto simp: ipv4_ok_def)
  then have "ihl (patch b a src) = ihl b" "patch b a src ! 0 = b ! 0"
      "word16 (patch b a src) 2 = word16 b 2"
    using assms by (auto simp: ihl_patch nth_patch intro!: word16_patch_other)
  then show ?thesis using assms by (simp add: ipv4_ok_def)
qed

lemma ip_sum_ok_cong:
  assumes "ipv4_ok b" "ipv4_ok b'"
    and "(word_sum (take (ihl b') b') + k) mod 65535 = (word_sum (take (ihl b) b) + k) mod 65535"
  shows "ip_sum_ok b' \<longleftrightarrow> ip_sum_ok b"
  using assms(3) by (simp add: ip_sum_ok_mod assms(1,2) mod_cancel)

lemma ip_sum_ok_put_addr:
  assumes ok: "ipv4_ok b" and a: "even a" "12 \<le> a" "a + 4 \<le> 20"
    and b': "b' = patch (patch b a (octets new)) 10 (to_be16 (update_dword (word16 b 10) (word32 b a) new))"
  shows "ipv4_ok b' \<and> ihl b' = ihl b \<and> (ip_sum_ok b' \<longleftrightarrow> ip_sum_ok b)"
proof -
  let ?c = "update_dword (word16 b 10) (word32 b a) new"
  let ?h = "take (ihl b) b"
  let ?h1 = "patch ?h a (octets new)"
  let ?nh = "ucast (drop_bit 16 new) :: u16" and ?nl = "ucast new :: u16"
  have len: "20 \<le> length b" "20 \<le> ihl b" "ihl b \<le> length b" "b \<noteq> []"
    using ipv4_okD [OF ok] by auto
  have ok': "ipv4_ok b'"
    unfolding b' using len a ok by (intro ipv4_ok_patch) simp_all
  have ihl': "ihl b' = ihl b"
    using len a by (auto simp: b' ihl_def nth_patch)
  have h': "take (ihl b) b' = patch ?h1 10 (to_be16 ?c)"
    using len a by (simp add: b' take_patch_after)
  have w: "word16 ?h a = word16 b a" "word16 ?h (a + 2) = word16 b (a + 2)"
      "word16 ?h1 10 = word16 b 10"
    using len a by (simp_all add: word16_def nth_patch)
  have 1: "word_sum (take (ihl b) b') + unat (word16 b 10) = word_sum ?h1 + unat ?c"
    unfolding h' using word_sum_put16 [of 10 ?h1 ?c] len a w(3) by simp
  have 2: "word_sum ?h1 + unat (word16 b a) + unat (word16 b (a + 2)) =
      word_sum ?h + unat ?nh + unat ?nl"
    using word_sum_put32 [of a ?h new] len a w(1,2) by simp
  have 3: "(unat ?c + unat ?nh + unat ?nl) mod 65535 =
      (unat (word16 b 10) + unat (word16 b a) + unat (word16 b (a + 2))) mod 65535"
    using update_dword_cong [of "word16 b 10" "word32 b a" new] by (simp only: word32_halves)
  let ?k = "unat (word16 b 10) + unat (word16 b a) + unat (word16 b (a + 2))"
  have "word_sum (take (ihl b) b') + ?k = word_sum ?h + (unat ?c + unat ?nh + unat ?nl)"
    using 1 2 by linarith
  then have "(word_sum (take (ihl b') b') + ?k) mod 65535 = (word_sum ?h + ?k) mod 65535"
    using mod_add_cong [OF refl 3, of "word_sum ?h"] by (simp only: ihl')
  from ip_sum_ok_cong [OF ok ok' this] show ?thesis using ok' ihl' by simp
qed

lemma Ipv4ViewMut_set_src_eq [view_simps]:
  "20 \<le> length b \<Longrightarrow> Ipv4ViewMut_set_src b new =
     Some (patch (patch b 12 (octets new)) 10 (to_be16 (update_dword (word16 b 10) (word32 b 12) new)),
           word32 b 12, new)"
  by (simp add: Ipv4ViewMut_set_src_def Ipv4ViewMut_set_header_checksum_def view_simps Let_def)

lemma Ipv4ViewMut_set_dst_eq [view_simps]:
  "20 \<le> length b \<Longrightarrow> Ipv4ViewMut_set_dst b new =
     Some (patch (patch b 16 (octets new)) 10 (to_be16 (update_dword (word16 b 10) (word32 b 16) new)),
           word32 b 16, new)"
  by (simp add: Ipv4ViewMut_set_dst_def Ipv4ViewMut_set_header_checksum_def view_simps Let_def)

lemma Ipv4ViewMut_decrement_ttl_eq [view_simps]:
  "20 \<le> length b \<Longrightarrow> Ipv4ViewMut_decrement_ttl b =
     Some (if b ! 8 = 0 then (b, None)
           else (patch (patch b 8 [b ! 8 - 1]) 10
                   (to_be16 (update_word (word16 b 10) (word16 b 8) (be16 (b ! 8 - 1) (b ! 9)))),
                 Some (b ! 8 - 1)))"
  by (simp add: Ipv4ViewMut_decrement_ttl_def Ipv4ViewMut_set_header_checksum_def view_simps Let_def)

text \<open>Rewriting an address (\<open>set_src\<close>, \<open>set_dst\<close>) in a well-formed packet never panics,
  returns the old and the new address, stores the new one, leaves every byte outside the
  address and the checksum field alone, and the incrementally updated header checksum is
  valid exactly when it was valid before.\<close>

lemma Ipv4ViewMut_rewrite_addr:
  assumes ok: "ipv4_ok b"
    and op: "(op, a) = (Ipv4ViewMut_set_src, 12) \<or> (op, a) = (Ipv4ViewMut_set_dst, 16)"
  shows "\<exists>b'. op b new = Some (b', word32 b a, new) \<and> length b' = length b \<and> ipv4_ok b' \<and>
    word32 b' a = new \<and>
    (\<forall>i < length b. i \<notin> {10, 11} \<union> {a..<a + 4} \<longrightarrow> b' ! i = b ! i) \<and>
    Ipv4View_checksum_valid b' = Ipv4View_checksum_valid b"
proof (intro exI conjI)
  let ?b' = "patch (patch b a (octets new)) 10 (to_be16 (update_dword (word16 b 10) (word32 b a) new))"
  have len: "20 \<le> length b" using ok by (rule ipv4_okD)
  have a: "even a" "12 \<le> a" "a + 4 \<le> 20" "a = 12 \<or> a = 16" using op by auto
  show "op b new = Some (?b', word32 b a, new)" using op len by (auto simp: view_simps)
  have sum: "ipv4_ok ?b'" "ip_sum_ok ?b' \<longleftrightarrow> ip_sum_ok b"
    using ip_sum_ok_put_addr [OF ok a(1-3) refl] by simp_all
  show "ipv4_ok ?b'" by (fact sum)
  show "length ?b' = length b" using len a by simp
  show "word32 ?b' a = new" using len a by (subst word32_patch_other) auto
  show "\<forall>i < length b. i \<notin> {10, 11} \<union> {a..<a + 4} \<longrightarrow> ?b' ! i = b ! i"
    using len a by (auto simp: nth_patch)
  show "Ipv4View_checksum_valid ?b' = Ipv4View_checksum_valid b"
    using ok sum by (simp add: view_simps)
qed

text \<open>A valid 20-byte header from 10.0.0.1 to 10.0.0.2, used by the witnesses.\<close>

definition sample_ip :: bytes where
  "sample_ip = [0x45, 0, 0, 20, 0, 1, 0, 0, 64, 17, 0x66, 0xd6, 10, 0, 0, 1, 10, 0, 0, 2]"

lemma sample_ip_ok: "ipv4_ok sample_ip" "Ipv4View_checksum_valid sample_ip = Some True"
  by code_simp+

text \<open>\<open>decrement_ttl\<close> on a well-formed packet returns \<open>None\<close> and changes nothing exactly when
  the TTL is 0; otherwise it lowers the TTL by one, keeps every byte but the TTL and the
  checksum, and keeps the header checksum valid exactly when it was.\<close>

lemma Ipv4ViewMut_decrement_ttl_spec:
  assumes ok: "ipv4_ok b"
  shows "\<exists>b' r. Ipv4ViewMut_decrement_ttl b = Some (b', r) \<and>
    (if b ! 8 = 0 then b' = b \<and> r = None
     else r = Some (b ! 8 - 1) \<and> b' ! 8 = b ! 8 - 1 \<and> unat (b' ! 8) + 1 = unat (b ! 8) \<and>
       ipv4_ok b' \<and> length b' = length b \<and>
       (\<forall>i < length b. i \<notin> {8, 10, 11} \<longrightarrow> b' ! i = b ! i) \<and>
       Ipv4View_checksum_valid b' = Ipv4View_checksum_valid b)"
proof (cases "b ! 8 = 0")
  case True
  then show ?thesis using ipv4_okD [OF ok] by (simp add: view_simps)
next
  case False
  let ?t = "b ! 8 - 1"
  let ?c = "update_word (word16 b 10) (word16 b 8) (be16 ?t (b ! 9))"
  let ?b' = "patch (patch b 8 [?t]) 10 (to_be16 ?c)"
  let ?h = "take (ihl b) b" and ?w = "be16 ?t (b ! 9)"
  have len: "20 \<le> length b" "20 \<le> ihl b" "ihl b \<le> length b" "b \<noteq> []"
    using ipv4_okD [OF ok] by auto
  have same: "patch b 8 [?t] = patch b 8 (to_be16 ?w)"
    using len Cons_nth_drop_Suc [of 9 b] by (simp add: patch_def)
  have ok': "ipv4_ok ?b'" using len ok by (intro ipv4_ok_patch) simp_all
  have ihl': "ihl ?b' = ihl b" using len by (simp add: ihl_def nth_patch)
  let ?h1 = "patch ?h 8 (to_be16 ?w)"
  have h': "take (ihl b) ?b' = patch ?h1 10 (to_be16 ?c)"
    using len by (simp only: same) (simp add: take_patch_after)
  have w: "word16 ?h 8 = word16 b 8" "word16 ?h1 10 = word16 b 10"
    using len by (simp_all add: word16_def nth_patch)
  have "word_sum (patch ?h1 10 (to_be16 ?c)) + unat (word16 b 10) = word_sum ?h1 + unat ?c"
    using word_sum_put16 [of 10 ?h1 ?c] len w(2) by simp
  moreover have "word_sum ?h1 + unat (word16 b 8) = word_sum ?h + unat ?w"
    using word_sum_put16 [of 8 ?h ?w] len w(1) by simp
  ultimately have "word_sum (take (ihl b) ?b') + (unat (word16 b 10) + unat (word16 b 8)) =
      word_sum ?h + (unat ?c + unat ?w)" by (simp only: h')
  then have "(word_sum (take (ihl ?b') ?b') + (unat (word16 b 10) + unat (word16 b 8))) mod 65535 =
      (word_sum ?h + (unat (word16 b 10) + unat (word16 b 8))) mod 65535"
    using mod_add_cong [OF refl update_word_cong [of "word16 b 10" "word16 b 8" ?w], of "word_sum ?h"]
    by (simp only: ihl')
  then have "ip_sum_ok ?b' \<longleftrightarrow> ip_sum_ok b" by (rule ip_sum_ok_cong [OF ok ok'])
  moreover have "unat ?t + 1 = unat (b ! 8)"
    using False unat_gt_0 [of "b ! 8"] by (simp add: unat_sub_if' word_le_nat_alt)
  ultimately show ?thesis
    using False len ok ok' by (auto simp: view_simps nth_patch)
qed

lemma Ipv4ViewMut_decrement_ttl_witness:
  "\<exists>b'. Ipv4ViewMut_decrement_ttl sample_ip = Some (b', Some 63) \<and>
     Ipv4View_checksum_valid b' = Some True"
proof -
  have "sample_ip ! 8 = 64" by code_simp
  then show ?thesis
    using Ipv4ViewMut_decrement_ttl_spec [OF sample_ip_ok(1)] sample_ip_ok(2) by auto
qed

section \<open>The writer produces valid headers\<close>

text \<open>The bytes \<open>write_header\<close> leaves at the front: first with a zero checksum field, then
  with the checksum stored.\<close>

definition ip_hdr0 :: "ipv4addr \<Rightarrow> ipv4addr \<Rightarrow> u8 \<Rightarrow> u8 \<Rightarrow> u16 \<Rightarrow> bool \<Rightarrow> u16 \<Rightarrow> bytes" where
  "ip_hdr0 src dst protocol ttl ident df plen =
     [0x45, 0] @ to_be16 (20 + plen) @ to_be16 ident @ to_be16 (if df then 0x4000 else 0) @
     [ttl, protocol, 0, 0] @ octets src @ octets dst"

definition ip_hdr :: "ipv4addr \<Rightarrow> ipv4addr \<Rightarrow> u8 \<Rightarrow> u8 \<Rightarrow> u16 \<Rightarrow> bool \<Rightarrow> u16 \<Rightarrow> bytes" where
  "ip_hdr src dst protocol ttl ident df plen =
     patch (ip_hdr0 src dst protocol ttl ident df plen) 10
       (to_be16 (checksum (ip_hdr0 src dst protocol ttl ident df plen)))"

lemma length_ip_hdr0 [simp]: "length (ip_hdr0 s d p t i df n) = 20"
  by (simp add: ip_hdr0_def)

lemma length_ip_hdr [simp]: "length (ip_hdr s d p t i df n) = 20"
  by (simp add: ip_hdr_def)

lemma ipv4_write_header_eq [view_simps]:
  assumes "20 \<le> length buf"
  shows "ipv4_write_header buf s d p t i df n = Some (ip_hdr s d p t i df n @ drop 20 buf, 20)"
proof -
  have "wr8 buf 0 0x45 = Some ([0x45] @ drop 1 buf)"
    using wr8_next [of "[]" 0 buf "0x45"] assms by (cases buf) simp_all
  moreover have "put (ip_hdr0 s d p t i df n @ drop 20 buf) 10 12 (to_be16 c) =
      Some (patch (ip_hdr0 s d p t i df n) 10 (to_be16 c) @ drop 20 buf)" for c
    by (simp add: put_def patch_append_left)
  moreover have "ip_hdr0 s d p t i df n = (((((((((([0x45] @ [0]) @ to_be16 (20 + n)) @ to_be16 i) @
      to_be16 (if df then 0x4000 else 0)) @ [t]) @ [p]) @ [0]) @ [0]) @ octets s) @ octets d)"
    by (simp add: ip_hdr0_def)
  moreover have "slice (ip_hdr0 s d p t i df n @ drop 20 buf) 0 20 = Some (ip_hdr0 s d p t i df n)"
    by (simp add: slice_def)
  ultimately show ?thesis
    using assms by (simp add: ipv4_write_header_def wr8_next put_next Let_def IPV4_MIN_HDR_LEN_def
        ip_hdr_def numeral_2_eq_2 [symmetric] del: append.simps append_assoc split del: if_split)
qed

lemma ip_hdr_nth:
  "ip_hdr s d p t i df n ! 0 = 0x45" "ip_hdr s d p t i df n ! 8 = t" "ip_hdr s d p t i df n ! 9 = p"
  by (simp_all add: ip_hdr_def nth_patch) (simp_all add: ip_hdr0_def nth_append)

lemma ip_hdr_words:
  "word16 (ip_hdr s d p t i df n) 2 = 20 + n"
  "word16 (ip_hdr s d p t i df n) 4 = i"
  "word16 (ip_hdr s d p t i df n) 6 = (if df then 0x4000 else 0)"
  "word32 (ip_hdr s d p t i df n) 12 = s"
  "word32 (ip_hdr s d p t i df n) 16 = d"
  using be32_octets [of s] be32_octets [of d]
  by (simp_all add: ip_hdr_def word16_patch_other word32_patch_other)
    (simp_all add: ip_hdr0_def word16_def word32_def nth_append del: to_be16_be16)

lemma word16_append: "i + 1 < length xs \<Longrightarrow> word16 (xs @ ys) i = word16 xs i"
  by (simp add: word16_def nth_append)

lemma word32_append: "i + 3 < length xs \<Longrightarrow> word32 (xs @ ys) i = word32 xs i"
  by (simp add: word32_def nth_append)

lemma ihl_ip_hdr: "ihl (ip_hdr s d p t i df n @ pl) = 20"
proof -
  have "(0x45 :: u8) AND 0x0f = 5" by simp
  then show ?thesis by (simp add: ihl_def nth_append ip_hdr_nth)
qed

lemma checksum_ip_hdr: "checksum (ip_hdr s d p t i df n) = 0"
proof -
  let ?h = "ip_hdr0 s d p t i df n"
  have "word16 ?h 10 = 0" by (simp add: ip_hdr0_def word16_def nth_append be16_def)
  moreover have "\<exists>x\<in>set ?h. x \<noteq> 0" by (simp add: ip_hdr0_def)
  ultimately show ?thesis unfolding ip_hdr_def by (intro checksum_stored) simp_all
qed

lemma ipv4_ok_ip_hdr:
  assumes "unat n + 20 < 65536"
  shows "ipv4_ok (ip_hdr s d p t i df n @ pl)"
proof -
  have "unat (20 + n) = 20 + unat n" using assms by (simp add: unat_word_ariths)
  moreover have "drop_bit 4 (0x45 :: u8) = 4" by simp
  ultimately show ?thesis
    by (simp add: ipv4_ok_def ihl_ip_hdr nth_append ip_hdr_nth word16_append ip_hdr_words)
qed

text \<open>On any buffer of at least 20 bytes the header writer does not panic and writes
  exactly 20 bytes; whenever the total length fits 16 bits, parsing the result succeeds and
  reads back every field the caller passed, with a valid header checksum and the payload
  untouched.\<close>

lemma ipv4_write_header_roundtrip:
  assumes "20 \<le> length buf" and "unat payload_len + 20 < 65536"
  shows "\<exists>b. ipv4_write_header buf src dst protocol ttl ident df payload_len = Some (b, 20) \<and>
    length b = length buf \<and>
    Ipv4View_parse b = Some (Inr b) \<and>
    Ipv4View_src b = Some src \<and> Ipv4View_dst b = Some dst \<and> Ipv4View_protocol b = Some protocol \<and>
    Ipv4View_ttl b = Some ttl \<and> Ipv4View_identification b = Some ident \<and>
    Ipv4View_dont_fragment b = Some df \<and> Ipv4View_total_length b = Some (20 + payload_len) \<and>
    Ipv4View_checksum_valid b = Some True \<and> Ipv4View_payload b = Some (drop 20 buf)"
proof (intro exI conjI)
  let ?b = "ip_hdr src dst protocol ttl ident df payload_len @ drop 20 buf"
  have ok: "ipv4_ok ?b" using assms(2) by (rule ipv4_ok_ip_hdr)
  have len: "20 \<le> length ?b" by simp
  show "ipv4_write_header buf src dst protocol ttl ident df payload_len = Some (?b, 20)"
    using assms by (simp add: view_simps)
  show "length ?b = length buf" using assms by simp
  show "Ipv4View_parse ?b = Some (Inr ?b)" using ok by (rule Ipv4View_parse_ok)
  show "Ipv4View_checksum_valid ?b = Some True"
    using ok by (simp add: view_simps ip_sum_ok_def ihl_ip_hdr checksum_ip_hdr)
  show "Ipv4View_payload ?b = Some (drop 20 buf)" using ok by (simp add: view_simps ihl_ip_hdr)
qed (simp_all add: view_simps word16_append word32_append nth_append ip_hdr_nth ip_hdr_words)

section \<open>The view as a type\<close>

text \<open>What a holder of the view can do to the packet: the three setters and any write to the payload
  through the borrowed slice, which cannot change its length.\<close>

datatype ipv4_edit = SetSrc ipv4addr | SetDst ipv4addr | DecTtl | WritePayload "bytes \<Rightarrow> bytes"

definition ipv4_edit_step :: "ipv4_edit \<Rightarrow> bytes \<Rightarrow> bytes option" where
  "ipv4_edit_step ed b =
     (case ed of
        SetSrc a \<Rightarrow> map_option fst (Ipv4ViewMut_set_src b a)
      | SetDst a \<Rightarrow> map_option fst (Ipv4ViewMut_set_dst b a)
      | DecTtl \<Rightarrow> map_option fst (Ipv4ViewMut_decrement_ttl b)
      | WritePayload f \<Rightarrow> map_option fst (Ipv4ViewMut_payload_mut b (\<lambda>s. Some (f s, ()))))"

fun ipv4_edits :: "ipv4_edit list \<Rightarrow> bytes \<Rightarrow> bytes option" where
  "ipv4_edits [] b = Some b"
| "ipv4_edits (ed # eds) b = do { b \<leftarrow> ipv4_edit_step ed b; ipv4_edits eds b }"

definition borrow_ok :: "ipv4_edit \<Rightarrow> bool" where
  "borrow_ok ed \<longleftrightarrow> (case ed of WritePayload f \<Rightarrow> (\<forall>s. length (f s) = length s) | _ \<Rightarrow> True)"

text \<open>The addresses after a list of edits.\<close>

definition edit_addrs :: "ipv4_edit list \<Rightarrow> ipv4addr \<times> ipv4addr \<Rightarrow> ipv4addr \<times> ipv4addr" where
  "edit_addrs eds = fold (\<lambda>ed (s, d). case ed of SetSrc a \<Rightarrow> (a, d) | SetDst a \<Rightarrow> (s, a) | _ \<Rightarrow> (s, d)) eds"

lemma ipv4_edit_step_ok:
  assumes ok: "ipv4_ok b" and ed: "borrow_ok ed"
  shows "\<exists>b'. ipv4_edit_step ed b = Some b' \<and> ipv4_ok b' \<and> length b' = length b \<and> ihl b' = ihl b \<and>
    word16 b' 2 = word16 b 2 \<and> word16 b' 4 = word16 b 4 \<and> word16 b' 6 = word16 b 6 \<and> b' ! 9 = b ! 9 \<and> unat (b' ! 8) \<le> unat (b ! 8) \<and>
    (word32 b' 12, word32 b' 16) = edit_addrs [ed] (word32 b 12, word32 b 16) \<and>
    Ipv4View_checksum_valid b' = Ipv4View_checksum_valid b"
proof -
  have len: "20 \<le> length b" using ok by (rule ipv4_okD)
  have frame: "ihl b' = ihl b \<and> word16 b' 2 = word16 b 2 \<and> word16 b' 4 = word16 b 4 \<and> word16 b' 6 = word16 b 6 \<and> b' ! 9 = b ! 9"
    if "\<And>i. i < 10 \<Longrightarrow> i \<noteq> 8 \<Longrightarrow> b' ! i = b ! i" for b' :: bytes
    using that by (simp add: ihl_def word16_def word32_def)
  show ?thesis
  proof (cases ed)
    case (SetSrc a)
    from Ipv4ViewMut_rewrite_addr [OF ok, of Ipv4ViewMut_set_src 12 a] obtain b' where
      b': "Ipv4ViewMut_set_src b a = Some (b', word32 b 12, a)" "length b' = length b" "ipv4_ok b'" "word32 b' 12 = a"
      "\<forall>i < length b. i \<notin> {10, 11} \<union> {12..<12 + 4} \<longrightarrow> b' ! i = b ! i" "Ipv4View_checksum_valid b' = Ipv4View_checksum_valid b" by auto
    have "word32 b' 16 = word32 b 16" using b'(5) len by (simp add: word32_def)
    then show ?thesis using b' len frame [of b'] SetSrc by (simp add: ipv4_edit_step_def edit_addrs_def)
  next
    case (SetDst a)
    from Ipv4ViewMut_rewrite_addr [OF ok, of Ipv4ViewMut_set_dst 16 a] obtain b' where
      b': "Ipv4ViewMut_set_dst b a = Some (b', word32 b 16, a)" "length b' = length b" "ipv4_ok b'" "word32 b' 16 = a"
      "\<forall>i < length b. i \<notin> {10, 11} \<union> {16..<16 + 4} \<longrightarrow> b' ! i = b ! i" "Ipv4View_checksum_valid b' = Ipv4View_checksum_valid b" by auto
    have "word32 b' 12 = word32 b 12" using b'(5) len by (simp add: word32_def)
    then show ?thesis using b' len frame [of b'] SetDst by (simp add: ipv4_edit_step_def edit_addrs_def)
  next
    case DecTtl
    from Ipv4ViewMut_decrement_ttl_spec [OF ok] obtain b' r where b': "Ipv4ViewMut_decrement_ttl b = Some (b', r)"
      "if b ! 8 = 0 then b' = b \<and> r = None
       else r = Some (b ! 8 - 1) \<and> b' ! 8 = b ! 8 - 1 \<and> unat (b' ! 8) + 1 = unat (b ! 8) \<and> ipv4_ok b' \<and> length b' = length b \<and>
         (\<forall>i < length b. i \<notin> {8, 10, 11} \<longrightarrow> b' ! i = b ! i) \<and> Ipv4View_checksum_valid b' = Ipv4View_checksum_valid b"
      by blast
    show ?thesis
    proof (cases "b ! 8 = 0")
      case True
      then show ?thesis using b' ok DecTtl by (simp add: ipv4_edit_step_def edit_addrs_def)
    next
      case False
      with b'(2) have t: "b' ! 8 = b ! 8 - 1" "unat (b' ! 8) + 1 = unat (b ! 8)" by metis+
      then have "unat (b ! 8 - 1) \<le> unat (b ! 8)" by simp
      moreover have "word32 b' 12 = word32 b 12" "word32 b' 16 = word32 b 16" using b'(2) len False by (simp_all add: word32_def)
      ultimately show ?thesis using b' len frame [of b'] DecTtl False by (simp add: ipv4_edit_step_def edit_addrs_def)
    qed
  next
    case (WritePayload f)
    let ?b' = "take (ihl b) b @ f (drop (ihl b) b)"
    have l: "20 \<le> ihl b" "ihl b \<le> length b" "length (f (drop (ihl b) b)) = length b - ihl b"
      using ok ed WritePayload by (simp_all add: ipv4_ok_def borrow_ok_def)
    have nth: "?b' ! i = b ! i" if "i < 20" for i using that l by (simp add: nth_append)
    have "ihl ?b' = ihl b" "word16 ?b' 2 = word16 b 2" using nth by (simp_all add: ihl_def word16_def)
    then have "ipv4_ok ?b'" "Ipv4View_checksum_valid ?b' = Ipv4View_checksum_valid b"
      using ok l nth [of 0] len by (simp_all add: ipv4_ok_def Ipv4View_checksum_valid_def Ipv4View_accessors slice_def)
    moreover have "Ipv4ViewMut_payload_mut b (\<lambda>s. Some (f s, ())) = Some (?b', ())"
      using l len by (simp add: Ipv4ViewMut_payload_mut_def view_simps patch_def)
    ultimately show ?thesis
      using l nth frame [of ?b'] WritePayload by (simp add: ipv4_edit_step_def edit_addrs_def word32_def)
  qed
qed

text \<open>C33: the mutable IPv4 view is type safe. Whatever edits the holder of a view that parsed makes,
  in any number and order, none panics, and afterwards the buffer still parses as an IPv4 packet:
  its length, header length, total length, identification, fragment field and protocol are what
  they were, the TTL has not grown, the addresses are the last ones set, and the header checksum
  is valid exactly when it was at the start.\<close>

theorem ipv4_view_type_safe:
  assumes "Ipv4ViewMut_parse b = Some (Inr v)" and "list_all borrow_ok eds"
  shows "\<exists>b'. ipv4_edits eds v = Some b' \<and> Ipv4ViewMut_parse b' = Some (Inr b') \<and> length b' = length b \<and>
    Ipv4View_ihl_bytes b' = Ipv4View_ihl_bytes b \<and> Ipv4View_total_length b' = Ipv4View_total_length b \<and>
    Ipv4View_identification b' = Ipv4View_identification b \<and> Ipv4View_flags_frag b' = Ipv4View_flags_frag b \<and>
    Ipv4View_protocol b' = Ipv4View_protocol b \<and> unat (b' ! 8) \<le> unat (b ! 8) \<and>
    (word32 b' 12, word32 b' 16) = edit_addrs eds (word32 b 12, word32 b 16) \<and>
    Ipv4View_checksum_valid b' = Ipv4View_checksum_valid b"
proof -
  have ok: "ipv4_ok b" "v = b" using assms(1) Ipv4View_parse_err [of b] Ipv4View_parse_ok [of b]
    by (cases "ipv4_ok b"; auto simp: Ipv4ViewMut_parse_def)+
  have "\<exists>b'. ipv4_edits eds b = Some b' \<and> ipv4_ok b' \<and> length b' = length b \<and> ihl b' = ihl b \<and>
      word16 b' 2 = word16 b 2 \<and> word16 b' 4 = word16 b 4 \<and> word16 b' 6 = word16 b 6 \<and> b' ! 9 = b ! 9 \<and> unat (b' ! 8) \<le> unat (b ! 8) \<and>
      (word32 b' 12, word32 b' 16) = edit_addrs eds (word32 b 12, word32 b 16) \<and>
      Ipv4View_checksum_valid b' = Ipv4View_checksum_valid b"
    using ok(1) assms(2)
  proof (induction eds arbitrary: b)
    case (Cons ed eds)
    then obtain b1 where s: "ipv4_edit_step ed b = Some b1" "ipv4_ok b1" "length b1 = length b" "ihl b1 = ihl b"
      "word16 b1 2 = word16 b 2" "word16 b1 4 = word16 b 4" "word16 b1 6 = word16 b 6" "b1 ! 9 = b ! 9" "unat (b1 ! 8) \<le> unat (b ! 8)"
      "(word32 b1 12, word32 b1 16) = edit_addrs [ed] (word32 b 12, word32 b 16)"
      "Ipv4View_checksum_valid b1 = Ipv4View_checksum_valid b" using ipv4_edit_step_ok [of b ed] by auto
    have "edit_addrs (ed # eds) (word32 b 12, word32 b 16) = edit_addrs eds (word32 b1 12, word32 b1 16)"
      unfolding s(10) by (simp add: edit_addrs_def)
    with s Cons.IH [OF s(2)] Cons.prems(2) show ?case by fastforce
  qed (simp add: edit_addrs_def)
  then obtain b' where b': "ipv4_edits eds b = Some b'" "ipv4_ok b'" "length b' = length b" "ihl b' = ihl b"
      "word16 b' 2 = word16 b 2" "word16 b' 4 = word16 b 4" "word16 b' 6 = word16 b 6" "b' ! 9 = b ! 9" "unat (b' ! 8) \<le> unat (b ! 8)"
      "(word32 b' 12, word32 b' 16) = edit_addrs eds (word32 b 12, word32 b 16)"
      "Ipv4View_checksum_valid b' = Ipv4View_checksum_valid b" by blast
  have "20 \<le> length b" "20 \<le> length b'" using ok(1) b'(2) by (simp_all add: ipv4_ok_def)
  then show ?thesis using b' ok by (intro exI [of _ b']) (simp add: Ipv4View_accessors Ipv4ViewMut_parse_ok)
qed

theorem ipv4_view_type_safe_witness:
  "\<exists>b'. ipv4_edits [SetSrc 0xcb007101, DecTtl, SetDst 0x08080808, WritePayload rev] sample_ip = Some b' \<and>
     Ipv4View_checksum_valid b' = Some True \<and> (word32 b' 12, word32 b' 16) = (0xcb007101, 0x08080808)"
proof -
  have "Ipv4ViewMut_parse sample_ip = Some (Inr sample_ip)" using sample_ip_ok(1) by (rule Ipv4ViewMut_parse_ok)
  from ipv4_view_type_safe [OF this, of "[SetSrc 0xcb007101, DecTtl, SetDst 0x08080808, WritePayload rev]"]
  show ?thesis using sample_ip_ok(2) by (auto simp: borrow_ok_def edit_addrs_def)
qed

end
