(* ===== verification/Icmp.thy ===== *)
theory Icmp
  imports Ethernet Ipv4
begin

text \<open>
  \<open>andromeda-core/src/icmp.rs\<close>: the builder of the ICMPv4 ``Fragmentation Needed'' reply that
  the virtual gateway sends back to a tenant for path MTU discovery.
\<close>

definition ICMP_HDR_LEN :: nat where
  "ICMP_HDR_LEN = 8"

definition icmp_type_DEST_UNREACHABLE :: u8 where "icmp_type_DEST_UNREACHABLE = 3"

definition icmp_code_FRAG_NEEDED :: u8 where "icmp_code_FRAG_NEEDED = 4"

lemmas icmp_defs = ICMP_HDR_LEN_def ETH_HDR_LEN_def IPV4_MIN_HDR_LEN_def
  icmp_type_DEST_UNREACHABLE_def icmp_code_FRAG_NEEDED_def

text \<open>The writes to \<open>icmp = &mut out[ip_end..icmp_end]\<close>.\<close>

definition icmp_write_message :: "u16 \<Rightarrow> bytes \<Rightarrow> bytes \<Rightarrow> (bytes \<times> unit) option" where
  "icmp_write_message next_hop_mtu quote icmp = do {
     icmp \<leftarrow> wr8 icmp 0 icmp_type_DEST_UNREACHABLE;
     icmp \<leftarrow> wr8 icmp 1 icmp_code_FRAG_NEEDED;
     icmp \<leftarrow> wr8 icmp 2 0;
     icmp \<leftarrow> wr8 icmp 3 0;
     icmp \<leftarrow> wr8 icmp 4 0;
     icmp \<leftarrow> wr8 icmp 5 0;
     icmp \<leftarrow> put icmp 6 8 (to_be16 next_hop_mtu);
     icmp \<leftarrow> put icmp ICMP_HDR_LEN (length icmp) quote;
     Some (icmp, ()) }"

definition write_frag_needed ::
    "bytes \<Rightarrow> bytes \<Rightarrow> mac_addr \<Rightarrow> ipv4addr \<Rightarrow> u16 \<Rightarrow> (bytes \<times> (parse_error + nat)) option" where
  "write_frag_needed out orig_frame gateway_mac gateway_ip next_hop_mtu =
     (case EthFrame_parse orig_frame of
        Inl e \<Rightarrow> Some (out, Inl e)
      | Inr eth \<Rightarrow> do {
          payload \<leftarrow> EthFrame_payload eth;
          parsed \<leftarrow> Ipv4View_parse payload;
          (case parsed of
             Inl e \<Rightarrow> Some (out, Inl e)
           | Inr ip \<Rightarrow> do {
               let ip_bytes = Ipv4View_bytes ip;
               ihl \<leftarrow> Ipv4View_ihl_bytes ip;
               let quote_len = min (ihl + 8) (length ip_bytes);
               let eth_end = ETH_HDR_LEN;
               let ip_end = eth_end + IPV4_MIN_HDR_LEN;
               let icmp_end = ip_end + ICMP_HDR_LEN + quote_len;
               if length out < icmp_end then
                 Some (out, Inl (BufferTooSmall icmp_end (length out)))
               else do {
                 src_mac \<leftarrow> EthFrame_src eth;
                 (out, _) \<leftarrow> sub_mut out 0 eth_end
                   (\<lambda>s. ethernet_write_header s src_mac gateway_mac ethertype_IPV4);
                 let icmp_len = ICMP_HDR_LEN + quote_len;
                 src_ip \<leftarrow> Ipv4View_src ip;
                 (out, _) \<leftarrow> sub_mut out eth_end ip_end
                   (\<lambda>s. ipv4_write_header s gateway_ip src_ip proto_ICMP 64 0 False (of_nat icmp_len));
                 quote \<leftarrow> slice ip_bytes 0 quote_len;
                 (out, _) \<leftarrow> sub_mut out ip_end icmp_end (icmp_write_message next_hop_mtu quote);
                 msg \<leftarrow> slice out ip_end icmp_end;
                 let c = checksum msg;
                 out \<leftarrow> put out (ip_end + 2) (ip_end + 4) (to_be16 c);
                 Some (out, Inr icmp_end) } }) })"

section \<open>Closed form\<close>

definition icmp_msg0 :: "u16 \<Rightarrow> bytes \<Rightarrow> bytes" where
  "icmp_msg0 mtu quote = [3, 4, 0, 0, 0, 0] @ to_be16 mtu @ quote"

definition icmp_msg :: "u16 \<Rightarrow> bytes \<Rightarrow> bytes" where
  "icmp_msg mtu quote = patch (icmp_msg0 mtu quote) 2 (to_be16 (checksum (icmp_msg0 mtu quote)))"

lemma length_icmp_msg0 [simp]: "length (icmp_msg0 mtu q) = 8 + length q"
  by (simp add: icmp_msg0_def)

lemma length_icmp_msg [simp]: "length (icmp_msg mtu q) = 8 + length q"
  by (simp add: icmp_msg_def)

lemma icmp_write_message_eq:
  assumes "length b = 8 + length q"
  shows "icmp_write_message mtu q b = Some (icmp_msg0 mtu q, ())"
proof -
  have "wr8 b 0 3 = Some ([3] @ drop 1 b)"
    using wr8_next [of "[]" 0 b 3] assms by (cases b) simp_all
  then show ?thesis
    using assms by (simp add: icmp_write_message_def icmp_defs wr8_next put_next icmp_msg0_def
        numeral_2_eq_2 [symmetric] del: append_assoc append.simps)
qed

lemma checksum_icmp_msg: "length q \<le> 1000 \<Longrightarrow> checksum (icmp_msg mtu q) = 0"
  unfolding icmp_msg_def
  by (rule checksum_stored) (simp_all add: icmp_msg0_def word16_def be16_def)

lemma icmp_msg_fields:
  "icmp_msg mtu q ! 0 = 3" "icmp_msg mtu q ! Suc 0 = 4" "word16 (icmp_msg mtu q) 4 = 0"
  "word16 (icmp_msg mtu q) 6 = mtu" "drop 8 (icmp_msg mtu q) = q"
  by (simp_all add: icmp_msg_def nth_patch word16_patch_other drop_patch_after)
    (simp_all add: icmp_msg0_def word16_def nth_append)

text \<open>The quoted part of the offending packet.\<close>

definition icmp_quote :: "bytes \<Rightarrow> bytes" where
  "icmp_quote ip = take (min (ihl ip + 8) (length ip)) ip"

lemma length_icmp_quote: "ipv4_ok ip \<Longrightarrow> 20 \<le> length (icmp_quote ip) \<and> length (icmp_quote ip) \<le> 68"
  using ihl_le_60 [of ip] by (auto simp: icmp_quote_def ipv4_ok_def)

definition frag_needed_frame :: "mac_addr \<Rightarrow> mac_addr \<Rightarrow> ipv4addr \<Rightarrow> ipv4addr \<Rightarrow> u16 \<Rightarrow> bytes \<Rightarrow> bytes" where
  "frag_needed_frame dmac gmac gip dip mtu q =
     eth_hdr dmac gmac ethertype_IPV4 @
     ip_hdr gip dip proto_ICMP 64 0 False (of_nat (8 + length q)) @ icmp_msg mtu q"

lemma length_frag_needed_frame [simp]: "length (frag_needed_frame a b c d e q) = 42 + length q"
  by (simp add: frag_needed_frame_def)

lemma write_frag_needed_eq:
  assumes "14 \<le> length orig" and ok: "ipv4_ok (drop 14 orig)" and m: "EthFrame_src orig = Some m"
    and q: "q = icmp_quote (drop 14 orig)" and out: "42 + length q \<le> length out"
  shows "write_frag_needed out orig gmac gip mtu =
    Some (frag_needed_frame m gmac gip (word32 (drop 14 orig) 12) mtu q @ drop (42 + length q) out,
          Inr (42 + length q))"
proof -
  let ?ip = "drop 14 orig" and ?n = "42 + length q"
  let ?E = "eth_hdr m gmac ethertype_IPV4"
  let ?I = "ip_hdr gip (word32 ?ip 12) proto_ICMP 64 0 False (of_nat (8 + length q))"
  have len: "20 \<le> length ?ip" using ok by (simp add: ipv4_ok_def)
  have ql: "length q = min (ihl ?ip + 8) (length orig - 14)" by (simp add: q icmp_quote_def)
  have 1: "sub_mut out 0 14 (\<lambda>s. ethernet_write_header s m gmac ethertype_IPV4) = Some (?E @ drop 14 out, 14)"
    using out by (simp add: view_simps patch_def)
  have 2: "sub_mut (?E @ drop 14 out) 14 34
      (\<lambda>s. ipv4_write_header s gip (word32 ?ip 12) proto_ICMP 64 0 False (of_nat (8 + length q))) =
      Some (?E @ ?I @ drop 34 out, 20)"
    using out by (simp add: view_simps patch_def)
  have 3: "sub_mut (?E @ ?I @ drop 34 out) 34 ?n (icmp_write_message mtu q) =
      Some (?E @ ?I @ icmp_msg0 mtu q @ drop ?n out, ())"
    using out by (simp add: view_simps icmp_write_message_eq patch_def)
  have 4: "slice (?E @ ?I @ icmp_msg0 mtu q @ drop ?n out) 34 ?n = Some (icmp_msg0 mtu q)"
    using out by (simp add: view_simps)
  have 5: "put (?E @ ?I @ icmp_msg0 mtu q @ drop ?n out) 36 38 (to_be16 c) =
      Some (?E @ ?I @ patch (icmp_msg0 mtu q) 2 (to_be16 c) @ drop ?n out)" for c
    using out by (simp add: put_def patch_append_right patch_append_left)
  have 6: "slice ?ip 0 (length q) = Some q"
    by (simp add: slice_def ql) (simp add: q icmp_quote_def)
  show ?thesis
    unfolding write_frag_needed_def
    using assms(1) ok len out m 1 2 3 4 5 6
    by (simp add: EthFrame_parse_eq EthFrame_accessors Ipv4View_parse_ok Ipv4View_accessors
        Ipv4View_bytes_def icmp_defs ql [symmetric] Let_def frag_needed_frame_def icmp_msg_def)
qed

text \<open>The ``Fragmentation Needed'' builder returns on every input, and it answers exactly the
  frames that carry a well-formed IPv4 header when the buffer can hold the reply. The reply
  is an Ethernet frame from the gateway to the sender's MAC, carrying a valid IPv4 header
  (checksum included) from the gateway to the packet's source, and an ICMP type 3 code 4
  message whose checksum verifies, which announces the next-hop MTU and quotes the original
  IP header with the first 8 bytes after it. On an error the buffer is unchanged.\<close>

lemma write_frag_needed_spec:
  "\<exists>out' r. write_frag_needed out orig gmac gip mtu = Some (out', r) \<and> length out' = length out \<and>
     (let ip = drop 14 orig; q = take (min (ihl ip + 8) (length ip)) ip; n = 42 + length q in
      if 14 \<le> length orig \<and> Ipv4View_parse ip = Some (Inr ip) \<and> n \<le> length out
      then r = Inr n \<and> drop n out' = drop n out \<and> n \<le> 110 \<and>
        EthFrame_dst out' = EthFrame_src orig \<and> EthFrame_src out' = Some gmac \<and>
        EthFrame_ethertype out' = Some ethertype_IPV4 \<and>
        (let rip = drop 14 (take n out') in
           Ipv4View_parse rip = Some (Inr rip) \<and> Ipv4View_checksum_valid rip = Some True \<and>
           Ipv4View_src rip = Some gip \<and> Ipv4View_dst rip = Ipv4View_src ip \<and>
           Ipv4View_protocol rip = Some proto_ICMP \<and> Ipv4View_dont_fragment rip = Some False \<and>
           (\<exists>icmp. Ipv4View_payload rip = Some icmp \<and> checksum icmp = 0 \<and>
              icmp ! 0 = icmp_type_DEST_UNREACHABLE \<and> icmp ! 1 = icmp_code_FRAG_NEEDED \<and>
              word16 icmp 6 = mtu \<and> drop ICMP_HDR_LEN icmp = q))
      else out' = out \<and> (\<exists>e. r = Inl e))"
proof (cases "14 \<le> length orig \<and> ipv4_ok (drop 14 orig) \<and> 42 + length (icmp_quote (drop 14 orig)) \<le> length out")
  case False
  have "\<exists>e. write_frag_needed out orig gmac gip mtu = Some (out, Inl e)"
  proof (cases "14 \<le> length orig \<and> ipv4_ok (drop 14 orig)")
    case True
    with False show ?thesis
      using ipv4_okD [of "drop 14 orig"]
      by (auto simp: write_frag_needed_def EthFrame_parse_eq view_simps Ipv4View_bytes_def icmp_defs Let_def
          icmp_quote_def)
  next
    case False
    then show ?thesis
      using Ipv4View_parse_err [of "drop 14 orig"]
      by (auto simp: write_frag_needed_def EthFrame_parse_eq view_simps)
  qed
  moreover have "\<not> (14 \<le> length orig \<and> Ipv4View_parse (drop 14 orig) = Some (Inr (drop 14 orig)) \<and>
      42 + length (icmp_quote (drop 14 orig)) \<le> length out)"
    using False Ipv4View_parse_err [of "drop 14 orig"] by auto
  ultimately show ?thesis by (auto simp: Let_def icmp_quote_def)
next
  case True
  let ?ip = "drop 14 orig" and ?q = "icmp_quote (drop 14 orig)"
  let ?pl = "of_nat (8 + length ?q) :: u16"
  have ql: "20 \<le> length ?q" "length ?q \<le> 68" using True length_icmp_quote [of ?ip] by simp_all
  obtain m where m: "EthFrame_src orig = Some m" using True EthFrame_accessors(4) [of orig] by auto
  define fr where "fr = frag_needed_frame m gmac gip (word32 ?ip 12) mtu ?q"
  define rip where "rip = ip_hdr gip (word32 ?ip 12) proto_ICMP 64 0 False ?pl @ icmp_msg mtu ?q"
  have fr: "fr = eth_hdr m gmac ethertype_IPV4 @ rip" "length fr = 42 + length ?q"
    by (simp_all only: fr_def frag_needed_frame_def rip_def) simp_all
  have run: "write_frag_needed out orig gmac gip mtu = Some (fr @ drop (42 + length ?q) out, Inr (42 + length ?q))"
    unfolding fr_def using True m by (intro write_frag_needed_eq) simp_all
  have "unat ?pl = 8 + length ?q" using ql by (intro unat_of_nat_u16) simp
  then have ok: "ipv4_ok rip" unfolding rip_def using ql by (intro ipv4_ok_ip_hdr) simp
  have valid: "Ipv4View_parse rip = Some (Inr rip)" "Ipv4View_checksum_valid rip = Some True"
      "Ipv4View_payload rip = Some (icmp_msg mtu ?q)"
    using ok by (simp_all add: view_simps) (simp_all add: rip_def ip_sum_ok_def ihl_ip_hdr checksum_ip_hdr)
  have len: "20 \<le> length rip" "20 \<le> length ?ip" using ok True by (simp_all only: ipv4_okD)
  have fields: "Ipv4View_src rip = Some gip" "Ipv4View_dst rip = Ipv4View_src ?ip"
      "Ipv4View_protocol rip = Some proto_ICMP" "Ipv4View_dont_fragment rip = Some False"
    using len
    by (simp_all add: Ipv4View_accessors del: length_drop)
      (simp_all add: rip_def word32_append word16_append nth_append ip_hdr_words ip_hdr_nth)
  have q: "take (min (ihl ?ip + 8) (length ?ip)) ?ip = ?q" by (simp only: icmp_quote_def)
  have icmp: "checksum (icmp_msg mtu ?q) = 0" using ql by (intro checksum_icmp_msg) simp
  have body: "drop 14 (take (42 + length ?q) (fr @ z)) = rip" for z
    using fr by simp
  have eth: "EthFrame_dst (fr @ z) = Some m" "EthFrame_src (fr @ z) = Some gmac"
      "EthFrame_ethertype (fr @ z) = Some ethertype_IPV4" for z
    by (simp_all add: fr(1))
  have cond: "14 \<le> length orig \<and> Ipv4View_parse ?ip = Some (Inr ?ip) \<and> 42 + length ?q \<le> length out"
    using True by (simp add: Ipv4View_parse_ok)
  show ?thesis
    unfolding Let_def q
    by (rule exI [of _ "fr @ drop (42 + length ?q) out"], rule exI [of _ "Inr (42 + length ?q)"])
      (simp only: run body if_P [OF cond] valid fields eth m,
       use cond ql in \<open>simp add: fr(2) icmp icmp_msg_fields icmp_defs\<close>)
qed

end
