(* ===== verification/Fabric.thy ===== *)
theory Fabric
  imports Ethernet "HOL-Library.Finite_Map"
begin

text \<open>
  \<open>andromeda-control/src/lib.rs\<close>: virtual networks, endpoints and the fabric map of a switch,
  with the contract \<open>endpoint_map\<close> that the configuration loader relies on.
\<close>

section \<open>Virtual networks\<close>

record vpc =
  v_vni :: u32
  v_name :: string
  v_cidr :: "ipv4addr \<times> u8"

definition Vpc_contains :: "vpc \<Rightarrow> ipv4addr \<Rightarrow> bool" where
  "Vpc_contains v ip =
     (case v_cidr v of (net, len) \<Rightarrow>
        if len = 0 then True
        else if 32 \<le> len then ip = net
        else let mask = push_bit (unat (32 - (ucast len :: u32))) (- 1 :: u32)
             in ip AND mask = net AND mask)"

section \<open>Endpoints and the fabric map\<close>

record endpoint =
  e_vni :: u32
  e_inner_ip :: ipv4addr
  e_inner_mac :: mac_addr
  e_node_ip :: ipv4addr
  e_local :: bool

record next_hop =
  nh_node_ip :: ipv4addr
  nh_inner_mac :: mac_addr
  nh_local :: bool

record fabric =
  local_node_ip :: ipv4addr
  fab_vpcs :: "(u32, vpc) fmap"
  fab_endpoints :: "(u32 \<times> ipv4addr, endpoint) fmap"

definition Fabric_new :: "ipv4addr \<Rightarrow> fabric" where
  "Fabric_new ip = \<lparr> local_node_ip = ip, fab_vpcs = fmempty, fab_endpoints = fmempty \<rparr>"

definition Fabric_add_vpc :: "fabric \<Rightarrow> vpc \<Rightarrow> fabric" where
  "Fabric_add_vpc f v = f \<lparr> fab_vpcs := fmupd (v_vni v) v (fab_vpcs f) \<rparr>"

definition Fabric_add_endpoint :: "fabric \<Rightarrow> endpoint \<Rightarrow> fabric" where
  "Fabric_add_endpoint f ep = f \<lparr> fab_endpoints := fmupd (e_vni ep, e_inner_ip ep) ep (fab_endpoints f) \<rparr>"

definition Fabric_vpc :: "fabric \<Rightarrow> u32 \<Rightarrow> vpc option" where
  "Fabric_vpc f vni = fmlookup (fab_vpcs f) vni"

definition hop_of :: "endpoint \<Rightarrow> next_hop" where
  "hop_of ep = \<lparr> nh_node_ip = e_node_ip ep, nh_inner_mac = e_inner_mac ep, nh_local = e_local ep \<rparr>"

definition Fabric_resolve :: "fabric \<Rightarrow> u32 \<Rightarrow> ipv4addr \<Rightarrow> next_hop option" where
  "Fabric_resolve f vni inner_dst = do {
     ep \<leftarrow> fmlookup (fab_endpoints f) (vni, inner_dst);
     Some (hop_of ep) }"

definition Fabric_local_endpoints :: "fabric \<Rightarrow> endpoint fset" where
  "Fabric_local_endpoints f = ffilter e_local (fmran (fab_endpoints f))"

definition Fabric_endpoint_count :: "fabric \<Rightarrow> nat" where
  "Fabric_endpoint_count f = fcard (fmdom (fab_endpoints f))"

lemma find_rev_last: "find P (rev xs) = (if filter P xs = [] then None else Some (last (filter P xs)))"
  by (induction xs rule: rev_induct) auto

section \<open>The contract of the endpoint map\<close>

text \<open>A lookup after an insertion gives the inserted endpoint for its own network and address,
  and what it gave before for every other.\<close>

locale endpoint_map =
  fixes add :: "'f \<Rightarrow> endpoint \<Rightarrow> 'f" and lookup :: "'f \<Rightarrow> u32 \<Rightarrow> ipv4addr \<Rightarrow> next_hop option"
  assumes lookup_add: "lookup (add f ep) vni ip =
    (if e_vni ep = vni \<and> e_inner_ip ep = ip then Some (hop_of ep) else lookup f vni ip)"
begin

text \<open>Loading a list of endpoints: the last one for a network and an address wins.\<close>

lemma lookup_foldl:
  "lookup (foldl add f eps) vni ip =
     (case find (\<lambda>e. e_vni e = vni \<and> e_inner_ip e = ip) (rev eps) of
        Some e \<Rightarrow> Some (hop_of e) | None \<Rightarrow> lookup f vni ip)"
  by (induction eps rule: rev_induct) (simp_all add: lookup_add)

lemma lookup_foldl_other:
  assumes "\<And>e. e \<in> set eps \<Longrightarrow> e_vni e \<noteq> vni"
  shows "lookup (foldl add f eps) vni ip = lookup f vni ip"
proof -
  have "find (\<lambda>e. e_vni e = vni \<and> e_inner_ip e = ip) (rev eps) = None"
    using assms by (auto simp: find_None_iff)
  then show ?thesis by (simp add: lookup_foldl)
qed

end

interpretation fabmap: endpoint_map Fabric_add_endpoint Fabric_resolve
  by unfold_locales (auto simp: Fabric_add_endpoint_def Fabric_resolve_def)

lemma Fabric_resolve_new [simp]: "Fabric_resolve (Fabric_new ip) vni dst = None"
  by (simp add: Fabric_resolve_def Fabric_new_def)

lemma Fabric_resolve_add_vpc [simp]: "Fabric_resolve (Fabric_add_vpc f v) = Fabric_resolve f"
  by (intro ext) (simp add: Fabric_resolve_def Fabric_add_vpc_def)

section \<open>Properties\<close>

lemma and_high_mask:
  fixes a b :: u32
  assumes "k < 32"
  shows "a AND push_bit k (- 1) = b AND push_bit k (- 1) \<longleftrightarrow> drop_bit k a = drop_bit k b"
proof -
  have *: "a AND push_bit k (- 1) = push_bit k (drop_bit k a)" for a :: u32
    by (rule bit_word_eqI) (auto simp: bit_simps)
  have "drop_bit k (push_bit k (drop_bit k a)) = drop_bit k a" for a :: u32
    using assms by (intro bit_word_eqI) (auto simp: bit_simps dest: bit_imp_le_length)
  then show ?thesis unfolding * by metis
qed

text \<open>An address belongs to a virtual network with prefix length up to 32 exactly when its
  first prefix-length bits are those of the network address, including the lengths 0 and
  32, where the shift of the mask would be out of range.\<close>

lemma Vpc_contains_spec:
  assumes "v_cidr v = (net, len)" and "len \<le> 32"
  shows "Vpc_contains v ip \<longleftrightarrow> unat ip div 2 ^ (32 - unat len) = unat net div 2 ^ (32 - unat len)"
proof -
  have b: "unat ip < 2 ^ 32" "unat net < 2 ^ 32" using unat_u32_less [of ip] unat_u32_less [of net] by simp_all
  have l: "unat len \<le> 32" using assms(2) by (simp add: word_le_nat_alt)
  consider "unat len = 0" | "unat len = 32" | "0 < unat len" "unat len < 32" using l by linarith
  then show ?thesis
  proof cases
    case 1
    then show ?thesis using assms(1) b by (simp add: Vpc_contains_def unsigned_eq_0_iff)
  next
    case 2
    then have "32 \<le> len" "len \<noteq> 0" by (auto simp: word_le_nat_alt)
    then show ?thesis using assms(1) 2 by (simp add: Vpc_contains_def word_unat_eq_iff)
  next
    case 3
    have "unat (ucast len :: u32) = unat len" by (simp add: unat_ucast_up)
    then have k: "unat (32 - (ucast len :: u32)) = 32 - unat len"
      using 3 by (subst unat_sub) (simp_all add: word_le_nat_alt)
    have "len \<noteq> 0" "\<not> 32 \<le> len" using 3 by (auto simp: word_le_nat_alt)
    then have "Vpc_contains v ip \<longleftrightarrow> drop_bit (32 - unat len) ip = drop_bit (32 - unat len) net"
      using assms(1) 3 and_high_mask [of "32 - unat len" ip net] by (simp add: Vpc_contains_def k)
    then show ?thesis by (simp add: word_unat_eq_iff unat_drop_bit_div)
  qed
qed

lemma Vpc_contains_witness:
  "Vpc_contains \<lparr> v_vni = 1, v_name = ''a'', v_cidr = (0x0a000000, 24) \<rparr> 0x0a000042"
  using Vpc_contains_spec [of "\<lparr> v_vni = 1, v_name = ''a'', v_cidr = (0x0a000000, 24) \<rparr>" "0x0a000000" 24 "0x0a000042"]
  by simp

text \<open>Tenant isolation of the fabric map. Loading any list of endpoints into a fabric changes
  the answer for a network and an address only if the list has an endpoint with that very
  network and address, and then the last such endpoint is the answer; two networks that use
  the same inner address never see each other's endpoints.\<close>

lemma Fabric_isolation:
  "Fabric_resolve (foldl Fabric_add_endpoint f eps) vni ip =
     (let es = filter (\<lambda>e. e_vni e = vni \<and> e_inner_ip e = ip) eps
      in if es = [] then Fabric_resolve f vni ip else Some (hop_of (last es)))"
  by (simp add: fabmap.lookup_foldl find_rev_last Let_def)

end
