(* ===== verification/L4.thy ===== *)
theory L4
  imports Ipv4
begin

text \<open>
  What UDP and TCP share: the pseudo-header checksum as a receiver verifies it, and the
  contract \<open>l4_view\<close> of a mutable transport view, which the address and port translation
  relies on. \<open>Udp\<close> and \<open>Tcp\<close> interpret the contract.
\<close>

section \<open>The pseudo-header checksum\<close>

text \<open>The receiver's check, with the functions of the code: the ones' complement sum of the
  pseudo-header and the segment is all ones.\<close>

definition l4_sum_ok :: "ipv4addr \<Rightarrow> ipv4addr \<Rightarrow> u8 \<Rightarrow> bytes \<Rightarrow> bool" where
  "l4_sum_ok src dst protocol seg \<longleftrightarrow>
     finalize (accumulate (pseudo_header_sum src dst protocol (of_nat (length seg))) seg) = 0"

definition addr_sum :: "ipv4addr \<Rightarrow> nat" where
  "addr_sum a = unat (ucast (drop_bit 16 a) :: u16) + unat (ucast a :: u16)"

definition pseudo_sum :: "ipv4addr \<Rightarrow> ipv4addr \<Rightarrow> u8 \<Rightarrow> nat \<Rightarrow> nat" where
  "pseudo_sum src dst protocol n = addr_sum src + addr_sum dst + unat protocol + n"

lemma addr_sum_bound: "addr_sum a \<le> 131070"
  using unat_u16_less [of "ucast (drop_bit 16 a)"] unat_u16_less [of "ucast a"]
  unfolding addr_sum_def by linarith

lemma word_sum_octets: "word_sum (octets a) = addr_sum a"
  by (simp only: octets_split addr_sum_def)

lemma unat_accumulate:
  "length d \<le> 131074 \<Longrightarrow> unat acc + word_sum d < 2 ^ 32 \<Longrightarrow> unat (accumulate acc d) = unat acc + word_sum d"
  by (simp add: accumulate_def unat_word_ariths unat_sum_be16)

lemma unat_pseudo_header_sum:
  "unat (pseudo_header_sum src dst protocol l) = pseudo_sum src dst protocol (unat l)"
proof -
  have b: "addr_sum src \<le> 131070" "addr_sum dst \<le> 131070" "unat protocol < 256" "unat l < 65536"
    by (rule addr_sum_bound unat_u8_less unat_u16_less)+
  have "unat (accumulate 0 (octets src)) = addr_sum src"
    using b by (subst unat_accumulate) (simp_all add: word_sum_octets)
  moreover from this have "unat (accumulate (accumulate 0 (octets src)) (octets dst)) = addr_sum src + addr_sum dst"
    using b by (subst unat_accumulate) (simp_all add: word_sum_octets)
  ultimately show ?thesis
    using b by (simp add: pseudo_header_sum_def Let_def unat_word_ariths pseudo_sum_def unat_ucast_up)
qed

lemma word_sum_le: "length d \<le> 65535 \<Longrightarrow> word_sum d \<le> 2147450880"
proof -
  assume "length d \<le> 65535"
  then have "(length d + 1) div 2 \<le> 32768" by simp
  then have "65535 * ((length d + 1) div 2) \<le> 2147450880" by linarith
  then show ?thesis using word_sum_bound [of d] by linarith
qed

lemma unat_l4_accumulate:
  assumes "length seg \<le> 65535"
  shows "unat (accumulate (pseudo_header_sum src dst protocol (of_nat (length seg))) seg) =
    pseudo_sum src dst protocol (length seg) + word_sum seg"
proof -
  have "pseudo_sum src dst protocol (length seg) \<le> 131070 + 131070 + 255 + 65535"
    using addr_sum_bound [of src] addr_sum_bound [of dst] unat_u8_less [of protocol] assms
    unfolding pseudo_sum_def by linarith
  moreover have "unat (of_nat (length seg) :: u16) = length seg"
    using assms by (simp add: unat_of_nat_u16)
  ultimately show ?thesis
    using assms word_sum_le [OF assms] by (simp add: unat_accumulate unat_pseudo_header_sum)
qed

lemma finalize_eq_0: "finalize acc = 0 \<longleftrightarrow> 0 < unat acc \<and> unat acc mod 65535 = 0"
proof -
  have "finalize acc = 0 \<longleftrightarrow> unat (finalize acc) = 0" by (simp add: unsigned_eq_0_iff)
  also have "\<dots> \<longleftrightarrow> oc16 (unat acc) = 65535"
    using oc16_le [of "unat acc"] by (auto simp: finalize_def unat_not_u16 unat_checksum_fold)
  finally show ?thesis by (simp only: oc16_eq_65535_iff)
qed

lemma l4_sum_ok_iff:
  assumes "length seg \<le> 65535" and "protocol \<noteq> 0"
  shows "l4_sum_ok src dst protocol seg \<longleftrightarrow>
    (pseudo_sum src dst protocol (length seg) + word_sum seg) mod 65535 = 0"
proof -
  have "0 < pseudo_sum src dst protocol (length seg)"
    using assms(2) unat_gt_0 [of protocol] by (simp add: pseudo_sum_def)
  then show ?thesis
    unfolding l4_sum_ok_def finalize_eq_0 by (simp add: unat_l4_accumulate [OF assms(1)])
qed

text \<open>The value a checksum field needs: its sum with the rest is a multiple of 65535.\<close>

lemma finalize_completes:
  "(unat acc + unat (finalize acc)) mod 65535 = 0"
proof -
  have "unat (finalize acc) = 65535 - oc16 (unat acc)"
    by (simp add: finalize_def unat_not_u16 unat_checksum_fold)
  moreover have "(unat acc + (65535 - oc16 (unat acc))) mod 65535 =
      (oc16 (unat acc) + (65535 - oc16 (unat acc))) mod 65535"
    by (rule mod_add_cong) simp_all
  ultimately show ?thesis using oc16_le [of "unat acc"] by simp
qed

lemma mod_65535_unique:
  assumes "(a + x) mod 65535 = 0" and "(a + y) mod 65535 = 0" and "x \<le> y" and "y - x < 65535"
  shows "x = (y :: nat)"
proof -
  have "(x + a) mod 65535 = (y + a) mod 65535" using assms by (simp add: ac_simps)
  then have "y mod 65535 = x mod 65535" by (simp only: mod_cancel)
  then have "65535 dvd y - x" using mod_eq_dvd_iff_nat [OF assms(3)] by blast
  then show ?thesis using assms(3,4) by (auto dest: dvd_imp_le)
qed

lemma word_sum_zero_field:
  assumes "even k" and "k + 2 \<le> length s"
  shows "word_sum s = word_sum (patch s k [0, 0]) + unat (word16 s k)"
proof -
  have "to_be16 0 = [0, 0]" by (simp add: to_be16_def)
  then show ?thesis using word_sum_put16 [OF assms, of 0] by simp
qed

section \<open>The contract of a mutable transport view\<close>

text \<open>\<open>l4_ok\<close> are the segments the parser accepts, \<open>csum_on\<close> those that carry a checksum,
  \<open>coff\<close> is the offset of the checksum field. A port update keeps the sum of the segment,
  and a patch for a changed address moves it by the difference of the two addresses.\<close>

locale l4_view =
  fixes l4_ok :: "bytes \<Rightarrow> bool" and csum_on :: "bytes \<Rightarrow> bool" and coff :: nat
    and parse :: "bytes \<Rightarrow> bytes parse_result"
    and set_src_port set_dst_port :: "bytes \<Rightarrow> u16 \<Rightarrow> bytes option"
    and patch_dword :: "bytes \<Rightarrow> u32 \<Rightarrow> u32 \<Rightarrow> bytes option"
  assumes parse_ok: "l4_ok s \<Longrightarrow> parse s = Some (Inr s)"
    and parse_err: "\<not> l4_ok s \<Longrightarrow> \<exists>e. parse s = Some (Inl e)"
    and ok_len: "l4_ok s \<Longrightarrow> 4 \<le> coff \<and> coff + 2 \<le> length s"
    and set_src_law: "l4_ok s \<Longrightarrow> \<exists>s'. set_src_port s p = Some s' \<and> l4_ok s' \<and> length s' = length s \<and>
        word16 s' 0 = p \<and> (\<forall>i < length s. i \<notin> {0, 1, coff, coff + 1} \<longrightarrow> s' ! i = s ! i) \<and>
        csum_on s' = csum_on s \<and> (csum_on s \<longrightarrow> word_sum s' mod 65535 = word_sum s mod 65535)"
    and set_dst_law: "l4_ok s \<Longrightarrow> \<exists>s'. set_dst_port s p = Some s' \<and> l4_ok s' \<and> length s' = length s \<and>
        word16 s' 2 = p \<and> (\<forall>i < length s. i \<notin> {2, 3, coff, coff + 1} \<longrightarrow> s' ! i = s ! i) \<and>
        csum_on s' = csum_on s \<and> (csum_on s \<longrightarrow> word_sum s' mod 65535 = word_sum s mod 65535)"
    and patch_law: "l4_ok s \<Longrightarrow> \<exists>s'. patch_dword s old new = Some s' \<and> l4_ok s' \<and> length s' = length s \<and>
        (\<forall>i < length s. i \<notin> {coff, coff + 1} \<longrightarrow> s' ! i = s ! i) \<and>
        csum_on s' = csum_on s \<and>
        (csum_on s \<longrightarrow> (word_sum s' + addr_sum new) mod 65535 = (word_sum s + addr_sum old) mod 65535)"
begin

lemma parse_total: "\<exists>r. parse s = Some r \<and> (r = Inr s \<longleftrightarrow> l4_ok s)"
  using parse_ok [of s] parse_err [of s] by (cases "l4_ok s") auto

end

section \<open>The arithmetic of a checksum field\<close>

text \<open>Storing an updated checksum at an even offset.\<close>

lemma word_sum_store_update:
  assumes "even k" and "k + 2 \<le> length s" and "unat c mod 65535 = unat (update_word (word16 s k) old new) mod 65535"
  shows "(word_sum (patch s k (to_be16 c)) + unat new) mod 65535 = (word_sum s + unat old) mod 65535"
proof -
  have "word_sum (patch s k (to_be16 c)) + unat (word16 s k) = word_sum s + unat c"
    using assms(1,2) by (rule word_sum_put16)
  then have "word_sum (patch s k (to_be16 c)) + unat new + unat (word16 s k) =
      word_sum s + (unat c + unat new)" by linarith
  moreover have "(unat c + unat new) mod 65535 = (unat (word16 s k) + unat old) mod 65535"
    using mod_add_cong [OF assms(3) refl, of "unat new"] update_word_cong by metis
  ultimately have "(word_sum (patch s k (to_be16 c)) + unat new + unat (word16 s k)) mod 65535 =
      (word_sum s + unat old + unat (word16 s k)) mod 65535"
    using mod_add_cong [OF refl, of "unat c + unat new" 65535 "unat (word16 s k) + unat old" "word_sum s"]
    by (simp only: ac_simps)
  then show ?thesis by (simp only: mod_cancel)
qed

lemma word_sum_port_update:
  assumes "even a" and "a + 2 \<le> k" and "even k" and "k + 2 \<le> length s"
    and "unat c mod 65535 = unat (update_word (word16 s k) (word16 s a) new) mod 65535"
  shows "word_sum (patch (patch s a (to_be16 new)) k (to_be16 c)) mod 65535 = word_sum s mod 65535"
proof -
  let ?s = "patch s a (to_be16 new)"
  have k: "word16 ?s k = word16 s k" using assms by (intro word16_patch_other) simp_all
  have "(word_sum (patch ?s k (to_be16 c)) + unat new) mod 65535 = (word_sum ?s + unat (word16 s a)) mod 65535"
    using assms k by (intro word_sum_store_update) simp_all
  also have "word_sum ?s + unat (word16 s a) = word_sum s + unat new"
    using assms by (intro word_sum_put16) simp_all
  finally show ?thesis by (simp only: mod_cancel)
qed

lemma field_frame:
  assumes "k + 2 \<le> length s"
  shows "length (patch s k (to_be16 c)) = length s"
    and "\<forall>i < length s. i \<notin> {k, k + 1} \<longrightarrow> patch s k (to_be16 c) ! i = s ! i"
  using assms by (auto simp: nth_patch)

lemma port_frame:
  assumes "a + 2 \<le> k" and "k + 2 \<le> length s"
  shows "length (patch (patch s a (to_be16 p)) k (to_be16 c)) = length s"
    and "word16 (patch (patch s a (to_be16 p)) k (to_be16 c)) a = p"
    and "\<forall>i < length s. i \<notin> {a, a + 1, k, k + 1} \<longrightarrow>
      patch (patch s a (to_be16 p)) k (to_be16 c) ! i = s ! i"
  using assms by (auto simp: nth_patch word16_patch_other)

end
