(* ===== verification/Udp.thy ===== *)
theory Udp
  imports L4
begin

text \<open>
  \<open>andromeda-core/src/udp.rs\<close>: the UDP views with their incremental checksum updates, the
  full checksum computation and the header writer, with the interpretation of the
  transport-view contract.
\<close>

definition UDP_HDR_LEN :: nat where
  "UDP_HDR_LEN = 8"

section \<open>Read-only view\<close>

definition UdpView_parse :: "bytes \<Rightarrow> parse_error + bytes" where
  "UdpView_parse buf =
     (if length buf < UDP_HDR_LEN then Inl (TooShort ''udp'' UDP_HDR_LEN (length buf)) else Inr buf)"

definition UdpView_src_port :: "bytes \<Rightarrow> u16 option" where
  "UdpView_src_port buf = rd16 buf 0"

definition UdpView_dst_port :: "bytes \<Rightarrow> u16 option" where
  "UdpView_dst_port buf = rd16 buf 2"

definition UdpView_length :: "bytes \<Rightarrow> u16 option" where
  "UdpView_length buf = rd16 buf 4"

definition UdpView_checksum :: "bytes \<Rightarrow> u16 option" where
  "UdpView_checksum buf = rd16 buf 6"

definition UdpView_payload :: "bytes \<Rightarrow> bytes option" where
  "UdpView_payload buf = slice_from buf UDP_HDR_LEN"

section \<open>Mutable view\<close>

definition UdpViewMut_parse :: "bytes \<Rightarrow> parse_error + bytes" where
  "UdpViewMut_parse buf =
     (if length buf < UDP_HDR_LEN then Inl (TooShort ''udp'' UDP_HDR_LEN (length buf)) else Inr buf)"

definition UdpViewMut_src_port :: "bytes \<Rightarrow> u16 option" where
  "UdpViewMut_src_port buf = rd16 buf 0"

definition UdpViewMut_dst_port :: "bytes \<Rightarrow> u16 option" where
  "UdpViewMut_dst_port buf = rd16 buf 2"

definition UdpViewMut_checksum :: "bytes \<Rightarrow> u16 option" where
  "UdpViewMut_checksum buf = rd16 buf 6"

definition UdpViewMut_set_checksum :: "bytes \<Rightarrow> u16 \<Rightarrow> bytes option" where
  "UdpViewMut_set_checksum buf c = put buf 6 8 (to_be16 c)"

definition UdpViewMut_checksum_disabled :: "bytes \<Rightarrow> bool option" where
  "UdpViewMut_checksum_disabled buf = do { c \<leftarrow> UdpViewMut_checksum buf; Some (c = 0) }"

definition UdpViewMut_patch_checksum_word :: "bytes \<Rightarrow> u16 \<Rightarrow> u16 \<Rightarrow> bytes option" where
  "UdpViewMut_patch_checksum_word buf old new = do {
     off \<leftarrow> UdpViewMut_checksum_disabled buf;
     if off then Some buf
     else do {
       cs \<leftarrow> UdpViewMut_checksum buf;
       let c = update_word cs old new;
       UdpViewMut_set_checksum buf (if c = 0 then 0xffff else c) } }"

definition UdpViewMut_patch_checksum_dword :: "bytes \<Rightarrow> u32 \<Rightarrow> u32 \<Rightarrow> bytes option" where
  "UdpViewMut_patch_checksum_dword buf old new = do {
     buf \<leftarrow> UdpViewMut_patch_checksum_word buf (ucast (drop_bit 16 old)) (ucast (drop_bit 16 new));
     UdpViewMut_patch_checksum_word buf (ucast (old AND 0xffff)) (ucast (new AND 0xffff)) }"

definition UdpViewMut_set_src_port :: "bytes \<Rightarrow> u16 \<Rightarrow> bytes option" where
  "UdpViewMut_set_src_port buf port = do {
     old \<leftarrow> UdpViewMut_src_port buf;
     buf \<leftarrow> put buf 0 2 (to_be16 port);
     UdpViewMut_patch_checksum_word buf old port }"

definition UdpViewMut_set_dst_port :: "bytes \<Rightarrow> u16 \<Rightarrow> bytes option" where
  "UdpViewMut_set_dst_port buf port = do {
     old \<leftarrow> UdpViewMut_dst_port buf;
     buf \<leftarrow> put buf 2 4 (to_be16 port);
     UdpViewMut_patch_checksum_word buf old port }"

section \<open>Building\<close>

definition udp_compute_checksum :: "ipv4addr \<Rightarrow> ipv4addr \<Rightarrow> bytes \<Rightarrow> u16" where
  "udp_compute_checksum src dst l4 =
     (let pseudo = pseudo_header_sum src dst proto_UDP (of_nat (length l4));
          acc = accumulate pseudo l4;
          c = finalize acc
      in if c = 0 then 0xffff else c)"

definition udp_write_header :: "bytes \<Rightarrow> u16 \<Rightarrow> u16 \<Rightarrow> u16 \<Rightarrow> (bytes \<times> nat) option" where
  "udp_write_header buf src_port dst_port payload_len = do {
     buf \<leftarrow> put buf 0 2 (to_be16 src_port);
     buf \<leftarrow> put buf 2 4 (to_be16 dst_port);
     let len = of_nat UDP_HDR_LEN + payload_len;
     buf \<leftarrow> put buf 4 6 (to_be16 len);
     buf \<leftarrow> put buf 6 8 [0, 0];
     Some (buf, UDP_HDR_LEN) }"

section \<open>Closed forms\<close>

definition udp_hdr :: "u16 \<Rightarrow> u16 \<Rightarrow> u16 \<Rightarrow> bytes" where
  "udp_hdr sp dp n = to_be16 sp @ to_be16 dp @ to_be16 (8 + n) @ [0, 0]"

lemma length_udp_hdr [simp]: "length (udp_hdr sp dp n) = 8"
  by (simp add: udp_hdr_def)

lemma udp_write_header_eq [view_simps]:
  assumes "8 \<le> length buf"
  shows "udp_write_header buf sp dp n = Some (udp_hdr sp dp n @ drop 8 buf, 8)"
proof -
  have "put buf 0 2 (to_be16 sp) = Some (to_be16 sp @ drop 2 buf)"
    using put_next [of "[]" 0 2 buf "to_be16 sp"] assms by simp
  then show ?thesis
    using assms by (simp add: udp_write_header_def UDP_HDR_LEN_def put_next Let_def udp_hdr_def
        del: append_assoc)
qed

lemma UdpView_parse_eq:
  "UdpView_parse b = (if length b < 8 then Inl (TooShort ''udp'' 8 (length b)) else Inr b)"
  "UdpViewMut_parse b = (if length b < 8 then Inl (TooShort ''udp'' 8 (length b)) else Inr b)"
  by (simp_all add: UdpView_parse_def UdpViewMut_parse_def UDP_HDR_LEN_def)

lemma UdpView_accessors [view_simps]:
  "8 \<le> length b \<Longrightarrow> UdpView_src_port b = Some (word16 b 0)"
  "8 \<le> length b \<Longrightarrow> UdpView_dst_port b = Some (word16 b 2)"
  "8 \<le> length b \<Longrightarrow> UdpView_length b = Some (word16 b 4)"
  "8 \<le> length b \<Longrightarrow> UdpView_checksum b = Some (word16 b 6)"
  "8 \<le> length b \<Longrightarrow> UdpView_payload b = Some (drop 8 b)"
  by (simp_all add: UdpView_src_port_def UdpView_dst_port_def UdpView_length_def UdpView_checksum_def
      UdpView_payload_def UDP_HDR_LEN_def view_simps)

text \<open>The checksum a nonzero stored one is replaced by.\<close>

definition udp_store :: "u16 \<Rightarrow> u16" where
  "udp_store c = (if c = 0 then 0xffff else c)"

lemma udp_store_nonzero [simp]: "udp_store c \<noteq> 0"
  by (simp add: udp_store_def)

lemma udp_store_mod: "unat (udp_store c) mod 65535 = unat c mod 65535"
  by (simp add: udp_store_def)

lemma UdpViewMut_patch_checksum_word_eq [view_simps]:
  "8 \<le> length b \<Longrightarrow> UdpViewMut_patch_checksum_word b old new =
     Some (if word16 b 6 = 0 then b
           else patch b 6 (to_be16 (udp_store (update_word (word16 b 6) old new))))"
  by (simp add: UdpViewMut_patch_checksum_word_def UdpViewMut_checksum_disabled_def
      UdpViewMut_checksum_def UdpViewMut_set_checksum_def view_simps Let_def udp_store_def)

lemma udp_patch_word_law:
  assumes "8 \<le> length s"
  shows "\<exists>s'. UdpViewMut_patch_checksum_word s old new = Some s' \<and> length s' = length s \<and>
     (\<forall>i < length s. i \<notin> {6, 7} \<longrightarrow> s' ! i = s ! i) \<and> (word16 s' 6 = 0 \<longleftrightarrow> word16 s 6 = 0) \<and>
     (word16 s 6 \<noteq> 0 \<longrightarrow> (word_sum s' + unat new) mod 65535 = (word_sum s + unat old) mod 65535)"
proof (cases "word16 s 6 = 0")
  case False
  let ?c = "udp_store (update_word (word16 s 6) old new)"
  have "(word_sum (patch s 6 (to_be16 ?c)) + unat new) mod 65535 = (word_sum s + unat old) mod 65535"
    using assms by (intro word_sum_store_update) (simp_all add: udp_store_mod)
  then show ?thesis using False assms field_frame [of 6 s ?c] by (simp add: view_simps)
qed (use assms in \<open>simp add: view_simps\<close>)

lemma udp_patch_dword_law:
  assumes "8 \<le> length s"
  shows "\<exists>s'. UdpViewMut_patch_checksum_dword s old new = Some s' \<and> length s' = length s \<and>
     (\<forall>i < length s. i \<notin> {6, 7} \<longrightarrow> s' ! i = s ! i) \<and> (word16 s' 6 = 0 \<longleftrightarrow> word16 s 6 = 0) \<and>
     (word16 s 6 \<noteq> 0 \<longrightarrow> (word_sum s' + addr_sum new) mod 65535 = (word_sum s + addr_sum old) mod 65535)"
proof -
  let ?oh = "ucast (drop_bit 16 old) :: u16" and ?nh = "ucast (drop_bit 16 new) :: u16"
  obtain s1 where 1: "UdpViewMut_patch_checksum_word s ?oh ?nh = Some s1" "length s1 = length s"
      "\<forall>i < length s. i \<notin> {6, 7} \<longrightarrow> s1 ! i = s ! i" "word16 s1 6 = 0 \<longleftrightarrow> word16 s 6 = 0"
      "word16 s 6 \<noteq> 0 \<longrightarrow> (word_sum s1 + unat ?nh) mod 65535 = (word_sum s + unat ?oh) mod 65535"
    using udp_patch_word_law [OF assms] by blast
  obtain s2 where 2: "UdpViewMut_patch_checksum_word s1 (ucast old) (ucast new) = Some s2" "length s2 = length s1"
      "\<forall>i < length s1. i \<notin> {6, 7} \<longrightarrow> s2 ! i = s1 ! i" "word16 s2 6 = 0 \<longleftrightarrow> word16 s1 6 = 0"
      "word16 s1 6 \<noteq> 0 \<longrightarrow>
        (word_sum s2 + unat (ucast new :: u16)) mod 65535 = (word_sum s1 + unat (ucast old :: u16)) mod 65535"
    using udp_patch_word_law [of s1] assms 1(2) by (metis (no_types, lifting))
  have run: "UdpViewMut_patch_checksum_dword s old new = Some s2"
    unfolding UdpViewMut_patch_checksum_dword_def ucast_and_ffff by (simp only: 1(1) 2(1) bind.bind_lunit)
  have "(word_sum s2 + addr_sum new) mod 65535 = (word_sum s + addr_sum old) mod 65535"
    if "word16 s 6 \<noteq> 0"
    unfolding addr_sum_def
    using sum_chain [of "word_sum s1" "unat ?nh" 65535 "word_sum s" "unat ?oh" "word_sum s2"] 1(4,5) 2(5) that
    by blast
  then show ?thesis using run 1 2 by auto
qed

lemma udp_set_port_law:
  assumes len: "8 \<le> length s" and a: "a = 0 \<or> a = 2"
    and s': "s' = (if word16 s 6 = 0 then patch s a (to_be16 p)
      else patch (patch s a (to_be16 p)) 6 (to_be16 (udp_store (update_word (word16 s 6) (word16 s a) p))))"
  shows "length s' = length s" and "word16 s' a = p"
    and "\<forall>i < length s. i \<notin> {a, a + 1, 6, 7} \<longrightarrow> s' ! i = s ! i"
    and "word16 s' 6 = 0 \<longleftrightarrow> word16 s 6 = 0"
    and "word16 s 6 \<noteq> 0 \<longrightarrow> word_sum s' mod 65535 = word_sum s mod 65535"
proof -
  let ?c = "udp_store (update_word (word16 s 6) (word16 s a) p)"
  have ak: "a + 2 \<le> 6" "even a" using a by auto
  show "length s' = length s" "word16 s' a = p"
    "\<forall>i < length s. i \<notin> {a, a + 1, 6, 7} \<longrightarrow> s' ! i = s ! i"
    using port_frame [of a 6 s p ?c] field_frame [of a s p] ak len by (auto simp: s')
  show "word16 s' 6 = 0 \<longleftrightarrow> word16 s 6 = 0"
    using ak len by (auto simp: s' word16_patch_other)
  show "word16 s 6 \<noteq> 0 \<longrightarrow> word_sum s' mod 65535 = word_sum s mod 65535"
    using word_sum_port_update [of a 6 s ?c p] ak len by (simp add: s' udp_store_mod)
qed

lemma UdpViewMut_set_port_eq [view_simps]:
  assumes "8 \<le> length s"
  shows "UdpViewMut_set_src_port s p = Some (if word16 s 6 = 0 then patch s 0 (to_be16 p)
      else patch (patch s 0 (to_be16 p)) 6 (to_be16 (udp_store (update_word (word16 s 6) (word16 s 0) p))))"
    and "UdpViewMut_set_dst_port s p = Some (if word16 s 6 = 0 then patch s 2 (to_be16 p)
      else patch (patch s 2 (to_be16 p)) 6 (to_be16 (udp_store (update_word (word16 s 6) (word16 s 2) p))))"
  using assms by (simp_all add: UdpViewMut_set_src_port_def UdpViewMut_set_dst_port_def
      UdpViewMut_src_port_def UdpViewMut_dst_port_def view_simps word16_patch_other)

text \<open>The UDP view meets the contract of a transport view; its checksum is on unless the field is 0.\<close>

definition udp_ok :: "bytes \<Rightarrow> bool" where
  "udp_ok s \<longleftrightarrow> 8 \<le> length s"

definition udp_csum_on :: "bytes \<Rightarrow> bool" where
  "udp_csum_on s \<longleftrightarrow> word16 s 6 \<noteq> 0"

interpretation udp: l4_view udp_ok udp_csum_on 6 "\<lambda>s. Some (UdpViewMut_parse s)"
    UdpViewMut_set_src_port UdpViewMut_set_dst_port UdpViewMut_patch_checksum_dword
proof (unfold_locales, goal_cases)
  case (4 s p)
  then show ?case
    using udp_set_port_law [of s 0 _ p, OF _ _ refl] by (simp add: udp_ok_def udp_csum_on_def view_simps)
next
  case (5 s p)
  then show ?case
    using udp_set_port_law [of s 2 _ p, OF _ _ refl] by (simp add: udp_ok_def udp_csum_on_def view_simps)
next
  case (6 s old new)
  then show ?case
    using udp_patch_dword_law [of s old new] by (auto simp: udp_ok_def udp_csum_on_def)
qed (auto simp: udp_ok_def UdpView_parse_eq)

section \<open>Full computation against the receiver's check\<close>

lemma udp_field_iff:
  assumes "8 \<le> length s" and "length s \<le> 65535" and "word16 s 6 \<noteq> 0"
  shows "l4_sum_ok src dst proto_UDP s \<longleftrightarrow> word16 s 6 = udp_compute_checksum src dst (patch s 6 [0, 0])"
proof -
  let ?z = "patch s 6 [0, 0]"
  let ?S = "pseudo_sum src dst proto_UDP (length s) + word_sum ?z"
  let ?c = "udp_compute_checksum src dst ?z"
  let ?acc = "accumulate (pseudo_header_sum src dst proto_UDP (of_nat (length ?z))) ?z"
  have len: "length ?z = length s" using assms by simp
  have field: "l4_sum_ok src dst proto_UDP s \<longleftrightarrow> (?S + unat (word16 s 6)) mod 65535 = 0"
    using assms word_sum_zero_field [of 6 s]
    by (subst l4_sum_ok_iff) (simp_all add: proto_defs add.assoc)
  have "?c = udp_store (finalize ?acc)"
    by (simp add: udp_compute_checksum_def udp_store_def Let_def)
  then have "(?S + unat ?c) mod 65535 = (unat ?acc + unat (finalize ?acc)) mod 65535"
    using unat_l4_accumulate [of ?z src dst proto_UDP] assms(2) len
    by (intro mod_add_cong) (simp_all add: udp_store_mod)
  then have c: "(?S + unat ?c) mod 65535 = 0" by (simp only: finalize_completes)
  have nz: "?c \<noteq> 0" by (simp add: udp_compute_checksum_def Let_def)
  have "unat (word16 s 6) = unat ?c" if f: "(?S + unat (word16 s 6)) mod 65535 = 0"
  proof -
    have "0 < unat (word16 s 6)" "0 < unat ?c" using assms(3) nz by (simp_all add: unat_gt_0)
    moreover have "unat (word16 s 6) < 65536" "unat ?c < 65536" by (rule unat_u16_less)+
    ultimately show ?thesis
      using mod_65535_unique [OF f c] mod_65535_unique [OF c f] by linarith
  qed
  then show ?thesis unfolding field using c by (auto simp: word_unat_eq_iff)
qed

text \<open>For a UDP segment with a nonzero checksum field, the receiver's check over
  pseudo-header and segment accepts exactly when the field holds the value
  \<open>compute_checksum\<close> returns for the segment with a zeroed field: the computed checksum
  verifies, it is never the value 0 that means ``disabled'', and no other value verifies.\<close>

lemma udp_checksum_unique:
  assumes "8 \<le> length s" and "length s \<le> 65535" and "word16 s 6 \<noteq> 0"
  shows "l4_sum_ok src dst proto_UDP s \<longleftrightarrow> word16 s 6 = udp_compute_checksum src dst (patch s 6 [0, 0])"
  using assms by (rule udp_field_iff)

text \<open>A UDP segment from port 1000 to port 53 with two payload bytes and its checksum.\<close>

definition sample_udp :: bytes where
  "sample_udp = [0x03, 0xe8, 0x00, 0x35, 0x00, 0x0a, 0x86, 0x58, 0x61, 0x62]"

end
