(* ===== verification/Overlay.thy ===== *)
theory Overlay
  imports Ethernet Udp
begin

text \<open>
  \<open>andromeda-core/src/overlay.rs\<close>: the Andromeda header, the flow hash, encapsulation (copying
  and in place) and decapsulation.
\<close>

definition ANDROMEDA_UDP_PORT :: u16 where "ANDROMEDA_UDP_PORT = 43481"

definition ANDROMEDA_VERSION :: u8 where "ANDROMEDA_VERSION = 1"

definition ANDROMEDA_HDR_LEN :: nat where "ANDROMEDA_HDR_LEN = 8"

definition OVERLAY_OVERHEAD :: nat where
  "OVERLAY_OVERHEAD = ETH_HDR_LEN + IPV4_MIN_HDR_LEN + UDP_HDR_LEN + ANDROMEDA_HDR_LEN"

definition flags_CONTROL :: u8 where "flags_CONTROL = 0x8"

definition flags_OAM :: u8 where "flags_OAM = 0x4"

definition inner_proto_ETHERNET :: u8 where "inner_proto_ETHERNET = 0"

definition inner_proto_IPV4 :: u8 where "inner_proto_IPV4 = 1"

lemma OVERLAY_OVERHEAD_eq: "OVERLAY_OVERHEAD = 50"
  by (simp add: OVERLAY_OVERHEAD_def ETH_HDR_LEN_def IPV4_MIN_HDR_LEN_def UDP_HDR_LEN_def ANDROMEDA_HDR_LEN_def)

lemmas overlay_len_defs = OVERLAY_OVERHEAD_eq ETH_HDR_LEN_def IPV4_MIN_HDR_LEN_def UDP_HDR_LEN_def
  ANDROMEDA_HDR_LEN_def

section \<open>The Andromeda header\<close>

record andromeda_hdr =
  ah_version :: u8
  ah_flags :: u8
  ah_inner_proto :: u8
  ah_flow_hash :: u16
  ah_vni :: u32
  ah_hop_limit :: u8

definition AndromedaHdr_new :: "u32 \<Rightarrow> u16 \<Rightarrow> andromeda_hdr" where
  "AndromedaHdr_new vni flow_hash =
     \<lparr> ah_version = ANDROMEDA_VERSION, ah_flags = 0, ah_inner_proto = inner_proto_ETHERNET,
       ah_flow_hash = flow_hash, ah_vni = vni AND 0x00ffffff, ah_hop_limit = 64 \<rparr>"

definition AndromedaHdr_is_control :: "andromeda_hdr \<Rightarrow> bool" where
  "AndromedaHdr_is_control h \<longleftrightarrow> ah_flags h AND flags_CONTROL \<noteq> 0"

definition AndromedaHdr_encode :: "andromeda_hdr \<Rightarrow> bytes \<Rightarrow> bytes option" where
  "AndromedaHdr_encode h out = do {
     out \<leftarrow> wr8 out 0 (push_bit 4 (ah_version h) OR (ah_flags h AND 0x0f));
     out \<leftarrow> wr8 out 1 (ah_inner_proto h);
     out \<leftarrow> put out 2 4 (to_be16 (ah_flow_hash h));
     let vni = ah_vni h AND 0x00ffffff;
     out \<leftarrow> wr8 out 4 (ucast (drop_bit 16 vni));
     out \<leftarrow> wr8 out 5 (ucast (drop_bit 8 vni));
     out \<leftarrow> wr8 out 6 (ucast vni);
     wr8 out 7 (ah_hop_limit h) }"

definition AndromedaHdr_decode :: "bytes \<Rightarrow> andromeda_hdr parse_result" where
  "AndromedaHdr_decode buf =
     (if length buf < ANDROMEDA_HDR_LEN then
        Some (Inl (TooShort ''andromeda'' ANDROMEDA_HDR_LEN (length buf)))
      else do {
        b0 \<leftarrow> rd8 buf 0;
        let version = drop_bit 4 b0;
        if version \<noteq> ANDROMEDA_VERSION then Some (Inl (BadVersion ''andromeda'' version))
        else do {
          b1 \<leftarrow> rd8 buf 1;
          fh \<leftarrow> rd16 buf 2;
          b4 \<leftarrow> rd8 buf 4;
          b5 \<leftarrow> rd8 buf 5;
          b6 \<leftarrow> rd8 buf 6;
          b7 \<leftarrow> rd8 buf 7;
          Some (Inr
            \<lparr> ah_version = version, ah_flags = b0 AND 0x0f, ah_inner_proto = b1, ah_flow_hash = fh,
              ah_vni = push_bit 16 (ucast b4) OR push_bit 8 (ucast b5) OR ucast b6,
              ah_hop_limit = b7 \<rparr>) } })"

section \<open>The flow hash\<close>

text \<open>\<open>u32::from_be_bytes(src.octets())\<close> is the address as a 32-bit word.\<close>

definition flow_hash :: "ipv4addr \<Rightarrow> ipv4addr \<Rightarrow> u8 \<Rightarrow> u16 \<Rightarrow> u16 \<Rightarrow> u16" where
  "flow_hash src dst protocol src_port dst_port =
     (let ports = push_bit 16 (ucast src_port) OR ucast dst_port;
          h = (src * 0x9E3779B1) XOR (dst * 0x85EBCA77) XOR (ports * 0xC2B2AE3D) XOR
              (ucast protocol * 0x27D4EB2F) :: u32;
          h = h XOR drop_bit 15 h;
          h = h * 0x2C1B3C6D;
          h = h XOR drop_bit 13 h
      in ucast (drop_bit 16 h XOR h))"

section \<open>Encapsulation\<close>

record encap_params =
  ep_outer_src_mac :: mac_addr
  ep_outer_dst_mac :: mac_addr
  ep_outer_src_ip :: ipv4addr
  ep_outer_dst_ip :: ipv4addr
  ep_vni :: u32
  ep_flow_hash :: u16
  ep_ip_id :: u16
  ep_outer_udp_checksum :: bool

definition MAX_INNER :: nat where
  "MAX_INNER = 65535 - (IPV4_MIN_HDR_LEN + UDP_HDR_LEN + ANDROMEDA_HDR_LEN)"

definition encap_in_place :: "bytes \<Rightarrow> nat \<Rightarrow> encap_params \<Rightarrow> (bytes \<times> (parse_error + nat)) option" where
  "encap_in_place out inner_len p =
     (let total = usize_add OVERLAY_OVERHEAD inner_len in
      if length out < total then Some (out, Inl (BufferTooSmall total (length out)))
      else if MAX_INNER < inner_len then Some (out, Inl (BadHeaderLen ''overlay encap'' inner_len))
      else do {
        let eth_end = ETH_HDR_LEN;
        let ip_end = eth_end + IPV4_MIN_HDR_LEN;
        let udp_end = ip_end + UDP_HDR_LEN;
        let andro_end = udp_end + ANDROMEDA_HDR_LEN;
        (out, _) \<leftarrow> sub_mut out 0 eth_end
          (\<lambda>s. ethernet_write_header s (ep_outer_dst_mac p) (ep_outer_src_mac p) ethertype_IPV4);
        let udp_payload_len = (of_nat (ANDROMEDA_HDR_LEN + inner_len) :: u16);
        let ip_payload_len = of_nat UDP_HDR_LEN + udp_payload_len;
        (out, _) \<leftarrow> sub_mut out eth_end ip_end
          (\<lambda>s. ipv4_write_header s (ep_outer_src_ip p) (ep_outer_dst_ip p) proto_UDP 64 (ep_ip_id p)
             True ip_payload_len);
        (out, _) \<leftarrow> sub_mut out ip_end udp_end
          (\<lambda>s. udp_write_header s (ep_flow_hash p OR 0xc000) ANDROMEDA_UDP_PORT udp_payload_len);
        let hdr = (AndromedaHdr_new (ep_vni p) (ep_flow_hash p)) \<lparr> ah_inner_proto := inner_proto_ETHERNET \<rparr>;
        (out, _) \<leftarrow> sub_mut out udp_end andro_end
          (\<lambda>s. do { s \<leftarrow> AndromedaHdr_encode hdr s; Some (s, ()) });
        if ep_outer_udp_checksum p then do {
          l4 \<leftarrow> slice out ip_end total;
          let c = udp_compute_checksum (ep_outer_src_ip p) (ep_outer_dst_ip p) l4;
          out \<leftarrow> put out (ip_end + 6) (ip_end + 8) (to_be16 c);
          Some (out, Inr total) }
        else Some (out, Inr total) })"

definition encap :: "bytes \<Rightarrow> bytes \<Rightarrow> encap_params \<Rightarrow> (bytes \<times> (parse_error + nat)) option" where
  "encap out inner p =
     (let total = OVERLAY_OVERHEAD + length inner in
      if length out < total then Some (out, Inl (BufferTooSmall total (length out)))
      else do {
        out \<leftarrow> put out OVERLAY_OVERHEAD total inner;
        encap_in_place out (length inner) p })"

section \<open>Decapsulation\<close>

record decapsulated =
  dc_header :: andromeda_hdr
  dc_inner :: bytes
  dc_outer_src_ip :: ipv4addr
  dc_outer_dst_ip :: ipv4addr

definition decap :: "bytes \<Rightarrow> decapsulated option parse_result" where
  "decap frame =
     try_bind (Some (EthFrame_parse frame)) (\<lambda>eth. do {
       ty \<leftarrow> EthFrame_ethertype eth;
       if ty \<noteq> ethertype_IPV4 then Some (Inr None)
       else do {
         pl \<leftarrow> EthFrame_payload eth;
         try_bind (Ipv4View_parse pl) (\<lambda>ip. do {
           pr \<leftarrow> Ipv4View_protocol ip;
           if pr \<noteq> proto_UDP then Some (Inr None)
           else do {
             l4 \<leftarrow> Ipv4View_payload ip;
             try_bind (Some (UdpView_parse l4)) (\<lambda>udp_v. do {
               dp \<leftarrow> UdpView_dst_port udp_v;
               if dp \<noteq> ANDROMEDA_UDP_PORT then Some (Inr None)
               else do {
                 after_udp \<leftarrow> slice_from l4 UDP_HDR_LEN;
                 try_bind (AndromedaHdr_decode after_udp) (\<lambda>header. do {
                   inner \<leftarrow> slice_from after_udp ANDROMEDA_HDR_LEN;
                   src \<leftarrow> Ipv4View_src ip;
                   dst \<leftarrow> Ipv4View_dst ip;
                   Some (Inr (Some
                     \<lparr> dc_header = header, dc_inner = inner, dc_outer_src_ip = src,
                       dc_outer_dst_ip = dst \<rparr>)) }) } }) } }) } })"

section \<open>Header round trip\<close>

definition andro_bytes :: "andromeda_hdr \<Rightarrow> bytes" where
  "andro_bytes h =
     (let vni = ah_vni h AND 0x00ffffff in
      [push_bit 4 (ah_version h) OR (ah_flags h AND 0x0f), ah_inner_proto h] @ to_be16 (ah_flow_hash h) @
      [ucast (drop_bit 16 vni), ucast (drop_bit 8 vni), ucast vni, ah_hop_limit h])"

lemma length_andro_bytes [simp]: "length (andro_bytes h) = 8"
  by (simp add: andro_bytes_def Let_def)

lemma AndromedaHdr_encode_eq [view_simps]:
  assumes "8 \<le> length out"
  shows "AndromedaHdr_encode h out = Some (andro_bytes h @ drop 8 out)"
proof -
  have "wr8 out 0 v = Some ([v] @ drop 1 out)" for v
    using wr8_next [of "[]" 0 out v] assms by (cases out) simp_all
  then show ?thesis
    using assms by (simp add: AndromedaHdr_encode_def wr8_next put_next Let_def andro_bytes_def
        numeral_2_eq_2 [symmetric] del: append_assoc append.simps ucast_drop_bit_eq)
qed

lemma nibble_join:
  fixes v f :: u8
  assumes "v < 16"
  shows "drop_bit 4 (push_bit 4 v OR (f AND 0x0f)) = v"
    and "(push_bit 4 v OR (f AND 0x0f)) AND 0x0f = f AND 0x0f"
proof -
  have m: "(0x0f :: u8) = mask 4" by (simp add: mask_eq_exp_minus_1)
  have "take_bit 4 v = v" using assms
    by (simp add: word_unat_eq_iff unsigned_take_bit_eq take_bit_nat_eq_self word_less_nat_alt)
  then have "\<And>n. bit v n \<Longrightarrow> n < 4" by (metis bit_take_bit_iff)
  then show "drop_bit 4 (push_bit 4 v OR (f AND 0x0f)) = v"
    unfolding m by (intro bit_word_eqI) (auto simp: bit_simps)
  show "(push_bit 4 v OR (f AND 0x0f)) AND 0x0f = f AND 0x0f"
    unfolding m by (intro bit_word_eqI) (auto simp: bit_simps)
qed

lemma vni_join:
  fixes v :: u32
  shows "push_bit 16 (ucast (ucast (drop_bit 16 (v AND 0xffffff)) :: u8)) OR
         push_bit 8 (ucast (ucast (drop_bit 8 (v AND 0xffffff)) :: u8)) OR
         ucast (ucast (v AND 0xffffff) :: u8) = v AND 0xffffff"
proof -
  have m: "(0xffffff :: u32) = mask 24" by (simp add: mask_eq_exp_minus_1)
  show ?thesis
    unfolding m by (rule bit_word_eqI) (auto simp: bit_simps)
qed

text \<open>The headers whose fields fit the wire format.\<close>

definition andro_ok :: "andromeda_hdr \<Rightarrow> bool" where
  "andro_ok h \<longleftrightarrow> ah_version h = ANDROMEDA_VERSION \<and> ah_flags h AND 0x0f = ah_flags h \<and>
     ah_vni h AND 0x00ffffff = ah_vni h"

lemma AndromedaHdr_decode_total:
  "AndromedaHdr_decode b = Some
     (if length b < 8 then Inl (TooShort ''andromeda'' 8 (length b))
      else if drop_bit 4 (b ! 0) \<noteq> 1 then Inl (BadVersion ''andromeda'' (drop_bit 4 (b ! 0)))
      else Inr \<lparr> ah_version = 1, ah_flags = b ! 0 AND 0x0f, ah_inner_proto = b ! 1,
             ah_flow_hash = word16 b 2,
             ah_vni = push_bit 16 (ucast (b ! 4)) OR push_bit 8 (ucast (b ! 5)) OR ucast (b ! 6),
             ah_hop_limit = b ! 7 \<rparr>)"
proof (cases "length b < 8")
  case False
  then have "rd8 b 0 = Some (b ! 0)" by (auto simp: rd8_def)
  with False show ?thesis
    by (simp add: AndromedaHdr_decode_def ANDROMEDA_HDR_LEN_def ANDROMEDA_VERSION_def view_simps Let_def)
qed (simp add: AndromedaHdr_decode_def ANDROMEDA_HDR_LEN_def)

lemma andro_decode_encode:
  assumes "andro_ok h"
  shows "AndromedaHdr_decode (andro_bytes h @ r) = Some (Inr h)"
proof -
  let ?b = "andro_bytes h @ r"
  have v: "ah_version h = 1" "ah_flags h AND 0x0f = ah_flags h" "ah_vni h AND 0xffffff = ah_vni h"
    using assms by (simp_all add: andro_ok_def ANDROMEDA_VERSION_def)
  have b: "?b ! 0 = push_bit 4 (ah_version h) OR (ah_flags h AND 0x0f)" "?b ! 1 = ah_inner_proto h"
      "word16 ?b 2 = ah_flow_hash h" "?b ! 7 = ah_hop_limit h"
      "?b ! 4 = ucast (drop_bit 16 (ah_vni h AND 0xffffff))"
      "?b ! 5 = ucast (drop_bit 8 (ah_vni h AND 0xffffff))" "?b ! 6 = ucast (ah_vni h AND 0xffffff)"
    by (simp_all add: andro_bytes_def Let_def nth_append word16_def del: ucast_drop_bit_eq)
  have n: "drop_bit 4 (?b ! 0) = 1" "?b ! 0 AND 0x0f = ah_flags h"
    using nibble_join [of "ah_version h" "ah_flags h"] v by (simp_all only: b) simp_all
  have vni: "push_bit 16 (ucast (?b ! 4)) OR push_bit 8 (ucast (?b ! 5)) OR ucast (?b ! 6) = ah_vni h"
    unfolding b vni_join by (rule v)
  show ?thesis
    unfolding AndromedaHdr_decode_total unfolding n vni unfolding b using v(1) by simp
qed

lemma andro_ok_new: "andro_ok (AndromedaHdr_new vni fh)"
  by (simp add: andro_ok_def AndromedaHdr_new_def and.assoc)

lemma vni_bytes:
  fixes x y z :: u8
  defines "v \<equiv> push_bit 16 (ucast x) OR push_bit 8 (ucast y) OR ucast z :: u32"
  shows "v AND 0xffffff = v" and "ucast (drop_bit 16 v) = x" and "ucast (drop_bit 8 v) = y" and "ucast v = z"
proof -
  have m: "(0xffffff :: u32) = mask 24" by (simp add: mask_eq_exp_minus_1)
  have len: "\<And>n. bit x n \<Longrightarrow> n < 8" "\<And>n. bit y n \<Longrightarrow> n < 8" "\<And>n. bit z n \<Longrightarrow> n < 8"
    using bit_imp_le_length by force+
  show "v AND 0xffffff = v"
    unfolding m v_def by (rule bit_word_eqI) (auto simp: bit_simps dest: len)
  show "ucast (drop_bit 16 v) = x" "ucast (drop_bit 8 v) = y" "ucast v = z"
    unfolding v_def by (rule bit_word_eqI; auto simp: bit_simps dest: len)+
qed

lemma nibble_split:
  fixes b :: u8
  shows "push_bit 4 (drop_bit 4 b) OR (b AND 0x0f) = b"
proof -
  have m: "(0x0f :: u8) = mask 4" by (simp add: mask_eq_exp_minus_1)
  show ?thesis unfolding m by (rule bit_word_eqI) (auto simp: bit_simps)
qed

lemma take_8: "8 \<le> length b \<Longrightarrow> take 8 b = [b ! 0, b ! 1, b ! 2, b ! 3, b ! 4, b ! 5, b ! 6, b ! 7]"
  by (simp add: list_eq_iff_nth_eq less_Suc_eq numeral_eq_Suc)

lemma andro_encode_decode:
  assumes "AndromedaHdr_decode b = Some (Inr h)"
  shows "andro_ok h" and "andro_bytes h = take 8 b"
proof -
  have len: "8 \<le> length b" and v: "drop_bit 4 (b ! 0) = 1"
    and h: "h = \<lparr> ah_version = 1, ah_flags = b ! 0 AND 0x0f, ah_inner_proto = b ! 1,
             ah_flow_hash = word16 b 2,
             ah_vni = push_bit 16 (ucast (b ! 4)) OR push_bit 8 (ucast (b ! 5)) OR ucast (b ! 6),
             ah_hop_limit = b ! 7 \<rparr>"
    using assms by (auto simp: AndromedaHdr_decode_total split: if_splits)
  show "andro_ok h" unfolding andro_ok_def
    by (simp add: h ANDROMEDA_VERSION_def vni_bytes and.assoc)
  have "push_bit 4 1 OR (b ! 0 AND 0x0f AND 0x0f) = b ! 0"
    using nibble_split [of "b ! 0"] by (simp add: v and.assoc)
  then show "andro_bytes h = take 8 b"
    unfolding andro_bytes_def h take_8 [OF len] Let_def
    by (simp only: andromeda_hdr.simps vni_bytes word16_def to_be16_be16) (simp add: and.assoc)
qed

text \<open>Encoding a header whose fields fit the format (version 1, 4-bit flags, 24-bit VNI)
  into any buffer of 8 bytes or more and decoding the buffer gives the header back; and a
  header decoded from any buffer fits the format and encodes to its first 8 bytes.\<close>

lemma AndromedaHdr_roundtrip:
  assumes "8 \<le> length out"
  shows "(andro_ok h \<longrightarrow> (\<exists>b. AndromedaHdr_encode h out = Some b \<and> length b = length out \<and>
        drop 8 b = drop 8 out \<and> AndromedaHdr_decode b = Some (Inr h))) \<and>
    (AndromedaHdr_decode buf = Some (Inr h) \<longrightarrow>
        andro_ok h \<and> AndromedaHdr_encode h out = Some (take 8 buf @ drop 8 out))"
  using assms by (auto simp: view_simps andro_decode_encode andro_encode_decode)

lemma AndromedaHdr_roundtrip_witness:
  "\<exists>b. AndromedaHdr_encode (AndromedaHdr_new 0x1234567 0xbeef) (replicate 8 0) = Some b \<and>
     AndromedaHdr_decode b = Some (Inr (AndromedaHdr_new 0x234567 0xbeef))"
proof -
  have "AndromedaHdr_new 0x1234567 0xbeef = AndromedaHdr_new 0x234567 0xbeef" by code_simp
  then show ?thesis
    using AndromedaHdr_roundtrip [of "replicate 8 0" "AndromedaHdr_new 0x1234567 0xbeef" "[]"] andro_ok_new
    by auto
qed

section \<open>What encapsulation writes\<close>

text \<open>The outer UDP datagram and the 50-byte prefix in front of an inner frame.\<close>

definition overlay_udp :: "encap_params \<Rightarrow> nat \<Rightarrow> bytes" where
  "overlay_udp p n = udp_hdr (ep_flow_hash p OR 0xc000) ANDROMEDA_UDP_PORT (of_nat (8 + n))"

definition overlay_andro :: "encap_params \<Rightarrow> bytes" where
  "overlay_andro p = andro_bytes (AndromedaHdr_new (ep_vni p) (ep_flow_hash p))"

definition overlay_prefix :: "encap_params \<Rightarrow> bytes \<Rightarrow> bytes" where
  "overlay_prefix p inner =
     (let n = length inner; U = overlay_udp p n; A = overlay_andro p in
      eth_hdr (ep_outer_dst_mac p) (ep_outer_src_mac p) ethertype_IPV4 @
      ip_hdr (ep_outer_src_ip p) (ep_outer_dst_ip p) proto_UDP 64 (ep_ip_id p) True (of_nat (16 + n)) @
      (if ep_outer_udp_checksum p then
         patch U 6 (to_be16 (udp_compute_checksum (ep_outer_src_ip p) (ep_outer_dst_ip p) (U @ A @ inner)))
       else U) @ A)"

lemma length_overlay [simp]:
  "length (overlay_udp p n) = 8" "length (overlay_andro p) = 8" "length (overlay_prefix p inner) = 50"
  by (simp_all add: overlay_udp_def overlay_andro_def overlay_prefix_def Let_def)

lemma encap_in_place_eq:
  assumes n: "n \<le> 65499" and out: "50 + n \<le> length out"
  shows "encap_in_place out n p = Some (overlay_prefix p (take n (drop 50 out)) @ drop 50 out, Inr (50 + n))"
proof -
  let ?E = "eth_hdr (ep_outer_dst_mac p) (ep_outer_src_mac p) ethertype_IPV4"
  let ?I = "ip_hdr (ep_outer_src_ip p) (ep_outer_dst_ip p) proto_UDP 64 (ep_ip_id p) True (of_nat (16 + n))"
  let ?U = "overlay_udp p n" and ?A = "overlay_andro p"
  let ?inner = "take n (drop 50 out)"
  have total: "usize_add 50 n = 50 + n" using n by (intro usize_add_small) simp
  have 1: "sub_mut out 0 14 (\<lambda>s. ethernet_write_header s (ep_outer_dst_mac p) (ep_outer_src_mac p) ethertype_IPV4)
      = Some (?E @ drop 14 out, 14)"
    using out by (simp add: view_simps patch_def)
  have 2: "sub_mut (?E @ drop 14 out) 14 34 (\<lambda>s. ipv4_write_header s (ep_outer_src_ip p) (ep_outer_dst_ip p)
        proto_UDP 64 (ep_ip_id p) True (of_nat 8 + of_nat (8 + n))) = Some ((?E @ ?I) @ drop 34 out, 20)"
    using out by (intro sub_mut_next) (simp_all add: ipv4_write_header_eq)
  have 3: "sub_mut ((?E @ ?I) @ drop 34 out) 34 42 (\<lambda>s. udp_write_header s (ep_flow_hash p OR 0xc000)
        ANDROMEDA_UDP_PORT (of_nat (8 + n))) = Some (((?E @ ?I) @ ?U) @ drop 42 out, 8)"
    using out by (intro sub_mut_next) (simp_all add: udp_write_header_eq overlay_udp_def)
  have 4: "sub_mut (((?E @ ?I) @ ?U) @ drop 42 out) 42 50 (\<lambda>s. do {
        s \<leftarrow> AndromedaHdr_encode ((AndromedaHdr_new (ep_vni p) (ep_flow_hash p))
               \<lparr> ah_inner_proto := inner_proto_ETHERNET \<rparr>) s; Some (s, ()) }) =
      Some ((((?E @ ?I) @ ?U) @ ?A) @ drop 50 out, ())"
    using out
    by (intro sub_mut_next) (simp_all add: AndromedaHdr_encode_eq overlay_andro_def AndromedaHdr_new_def)
  have 5: "slice ((((?E @ ?I) @ ?U) @ ?A) @ drop 50 out) 34 (50 + n) = Some (?U @ ?A @ ?inner)"
    using out by (simp add: slice_def)
  have 6: "put ((((?E @ ?I) @ ?U) @ ?A) @ drop 50 out) 40 42 (to_be16 c) =
      Some (?E @ ?I @ patch ?U 6 (to_be16 c) @ ?A @ drop 50 out)" for c
    using out by (simp add: put_def patch_append_right patch_append_left)
  have len: "length ?inner = n" using out by simp
  show ?thesis
    unfolding encap_in_place_def overlay_prefix_def len Let_def MAX_INNER_def overlay_len_defs
    using n out total 1 2 3 4 5 6 by simp
qed

lemma encap_in_place_err:
  assumes "inner_len < 2 ^ 64" and "\<not> (inner_len \<le> 65499 \<and> 50 + inner_len \<le> length out)"
  shows "\<exists>e. encap_in_place out inner_len p = Some (out, Inl e)"
proof (cases "inner_len \<le> 65499")
  case True
  then have "usize_add 50 inner_len = 50 + inner_len" by (intro usize_add_small) simp
  then show ?thesis using True assms by (simp add: encap_in_place_def overlay_len_defs)
next
  case False
  then have "MAX_INNER < inner_len" by (simp add: MAX_INNER_def overlay_len_defs)
  then show ?thesis by (simp add: encap_in_place_def Let_def)
qed

lemma encap_eq:
  assumes "length inner \<le> 65499" and "50 + length inner \<le> length out"
  shows "encap out inner p =
    Some (overlay_prefix p inner @ inner @ drop (50 + length inner) out, Inr (50 + length inner))"
  using assms by (simp add: encap_def overlay_len_defs view_simps encap_in_place_eq) (simp add: patch_def)

section \<open>Decapsulation\<close>

text \<open>The frames that carry Andromeda traffic.\<close>

definition is_andromeda :: "bytes \<Rightarrow> bool" where
  "is_andromeda f \<longleftrightarrow> 14 \<le> length f \<and> word16 f 12 = ethertype_IPV4 \<and> ipv4_ok (drop 14 f) \<and>
     f ! 23 = proto_UDP \<and> 16 + ihl (drop 14 f) + 14 \<le> length f \<and>
     word16 f (14 + ihl (drop 14 f) + 2) = ANDROMEDA_UDP_PORT \<and>
     drop_bit 4 (f ! (14 + ihl (drop 14 f) + 8)) = 1"

lemma decap_andromeda:
  assumes "is_andromeda f"
  obtains h where "AndromedaHdr_decode (drop (22 + ihl (drop 14 f)) f) = Some (Inr h)"
    and "decap f = Some (Inr (Some \<lparr> dc_header = h, dc_inner = drop (30 + ihl (drop 14 f)) f,
          dc_outer_src_ip = word32 (drop 14 f) 12, dc_outer_dst_ip = word32 (drop 14 f) 16 \<rparr>))"
proof -
  let ?ip = "drop 14 f" and ?l4 = "drop (ihl (drop 14 f)) (drop 14 f)"
  have l: "14 \<le> length f" "16 + ihl ?ip + 14 \<le> length f" and ok: "ipv4_ok ?ip"
    and c: "word16 f 12 = ethertype_IPV4" "f ! 23 = proto_UDP"
      "word16 f (14 + ihl ?ip + 2) = ANDROMEDA_UDP_PORT" "drop_bit 4 (f ! (14 + ihl ?ip + 8)) = 1"
    using assms by (simp_all add: is_andromeda_def)
  have len: "20 \<le> length ?ip" using ok by (rule ipv4_okD)
  have l4: "16 \<le> length ?l4" "8 \<le> length ?l4" using l by simp_all
  have port: "word16 ?l4 2 = ANDROMEDA_UDP_PORT" using l c(3) by (simp add: word16_drop)
  have pr: "?ip ! 9 = proto_UDP" using l c(2) by simp
  have "?l4 ! 8 = f ! (14 + ihl ?ip + 8)" using l by (simp add: add.commute)
  then have "\<exists>h. AndromedaHdr_decode (drop 8 ?l4) = Some (Inr h)"
    using l c(4) by (simp add: AndromedaHdr_decode_total add.commute add.left_commute)
  then obtain h where h: "AndromedaHdr_decode (drop 8 ?l4) = Some (Inr h)" ..
  have "decap f = Some (Inr (Some \<lparr> dc_header = h, dc_inner = drop 8 (drop 8 ?l4),
          dc_outer_src_ip = word32 ?ip 12, dc_outer_dst_ip = word32 ?ip 16 \<rparr>))"
    unfolding decap_def overlay_len_defs EthFrame_parse_eq
    using l(1) len l4 ok c(1) pr port h
    by (simp add: EthFrame_accessors Ipv4View_parse_ok Ipv4View_accessors Ipv4View_payload_eq
        UdpView_parse_eq UdpView_accessors slice_from_eq del: drop_drop)
  moreover have "drop 8 (drop 8 ?l4) = drop (30 + ihl ?ip) f" "drop 8 ?l4 = drop (22 + ihl ?ip) f"
    by (simp_all add: add.commute)
  ultimately show thesis using that h by simp
qed

lemma decap_other:
  assumes "\<not> is_andromeda f"
  shows "\<exists>r. decap f = Some r \<and> (\<forall>d. r \<noteq> Inr (Some d))"
proof (cases "14 \<le> length f \<and> word16 f 12 = ethertype_IPV4 \<and> ipv4_ok (drop 14 f)")
  case False
  then show ?thesis
    using Ipv4View_parse_err [of "drop 14 f"] by (auto simp: decap_def EthFrame_parse_eq EthFrame_accessors)
next
  case True
  let ?ip = "drop 14 f" and ?l4 = "drop (ihl (drop 14 f)) (drop 14 f)"
  from True have l: "14 \<le> length f" and c: "word16 f 12 = ethertype_IPV4" and ok: "ipv4_ok ?ip" by simp_all
  have len: "20 \<le> length ?ip" using ok by (rule ipv4_okD)
  have pr: "?ip ! 9 = f ! 23" using len by simp
  have port: "word16 ?l4 2 = word16 f (14 + ihl ?ip + 2)" if "8 \<le> length ?l4"
    using that by (simp add: word16_drop)
  have nt: "?l4 ! 8 = f ! (14 + ihl ?ip + 8)" if "16 \<le> length ?l4"
    using that by (simp add: add.commute)
  have bad: "\<exists>e. AndromedaHdr_decode (drop 8 ?l4) = Some (Inl e)"
    if "8 \<le> length ?l4" "f ! 23 = proto_UDP" "word16 ?l4 2 = ANDROMEDA_UDP_PORT"
  proof (cases "16 \<le> length ?l4")
    case True
    then have "drop_bit 4 (?l4 ! 8) \<noteq> 1"
      using assms that l c ok port nt by (auto simp: is_andromeda_def)
    with True show ?thesis by (simp add: AndromedaHdr_decode_total del: drop_drop)
  next
    case False
    then have "length (drop 8 ?l4) < 8" by simp
    then show ?thesis by (simp only: AndromedaHdr_decode_total if_True) blast
  qed
  show ?thesis
    unfolding decap_def overlay_len_defs EthFrame_parse_eq
    using l len ok c pr bad
    by (auto simp: EthFrame_accessors Ipv4View_parse_ok Ipv4View_accessors Ipv4View_payload_eq
        UdpView_parse_eq UdpView_accessors slice_from_eq not_less simp del: drop_drop)
qed

text \<open>Decapsulation returns on every byte string, and it yields a tenant frame exactly for
  the frames that are Andromeda traffic: Ethernet carrying IPv4 with a well-formed header,
  protocol UDP, destination port 43481, and a version-1 Andromeda header. The inner frame
  is then everything after that header, inside the received frame.\<close>

lemma decap_spec:
  "\<exists>r. decap f = Some r \<and>
     (if is_andromeda f
      then \<exists>d. r = Inr (Some d) \<and> dc_inner d = drop (30 + ihl (drop 14 f)) f \<and> 30 + ihl (drop 14 f) \<le> length f \<and>
        AndromedaHdr_decode (drop (22 + ihl (drop 14 f)) f) = Some (Inr (dc_header d)) \<and>
        Ipv4View_src (drop 14 f) = Some (dc_outer_src_ip d) \<and> Ipv4View_dst (drop 14 f) = Some (dc_outer_dst_ip d)
      else r = Inr None \<or> (\<exists>e. r = Inl e))"
proof (cases "is_andromeda f")
  case True
  then have "20 \<le> length (drop 14 f)" "30 + ihl (drop 14 f) \<le> length f"
    using ipv4_okD(1) [of "drop 14 f"] by (simp_all only: is_andromeda_def) simp_all
  with decap_andromeda [OF True] True show ?thesis
    by (metis (no_types, lifting) Ipv4View_accessors(9,10) decapsulated.select_convs)
next
  case False
  then obtain r where r: "decap f = Some r" "\<forall>d. r \<noteq> Inr (Some d)" using decap_other by blast
  have "r = Inr None \<or> (\<exists>e. r = Inl e)"
  proof (cases r)
    case (Inr x)
    then show ?thesis using r(2) by (cases x) auto
  qed simp
  with r False show ?thesis by simp
qed

section \<open>Encapsulation and decapsulation are inverse\<close>

lemma decap_overlay:
  assumes n: "length inner \<le> 65499"
  shows "decap (overlay_prefix p inner @ inner) = Some (Inr (Some
    \<lparr> dc_header = AndromedaHdr_new (ep_vni p) (ep_flow_hash p), dc_inner = inner,
      dc_outer_src_ip = ep_outer_src_ip p, dc_outer_dst_ip = ep_outer_dst_ip p \<rparr>))"
proof -
  let ?f = "overlay_prefix p inner @ inner"
  let ?pl = "of_nat (16 + length inner) :: u16"
  let ?I = "ip_hdr (ep_outer_src_ip p) (ep_outer_dst_ip p) proto_UDP 64 (ep_ip_id p) True ?pl"
  obtain E U where f: "?f = E @ ?I @ U @ overlay_andro p @ inner"
    and E: "E = eth_hdr (ep_outer_dst_mac p) (ep_outer_src_mac p) ethertype_IPV4"
    and U: "length U = 8" "word16 U 2 = ANDROMEDA_UDP_PORT"
    using that by (auto simp: overlay_prefix_def Let_def overlay_udp_def udp_hdr_def word16_def nth_append nth_patch)
  have len: "length E = 14" by (simp add: E)
  have ip: "drop 14 ?f = ?I @ U @ overlay_andro p @ inner" by (simp add: f len)
  have "unat ?pl = 16 + length inner" using n by (intro unat_of_nat_u16) simp
  then have ok: "ipv4_ok (drop 14 ?f)" unfolding ip using n by (intro ipv4_ok_ip_hdr) simp
  have ihl: "ihl (drop 14 ?f) = 20" unfolding ip by (rule ihl_ip_hdr)
  have w: "word16 ?f 12 = ethertype_IPV4" by (simp add: f E eth_hdr_def word16_def nth_append)
  have pr: "?f ! 23 = proto_UDP" by (simp add: f len nth_append ip_hdr_nth)
  have port: "word16 ?f 36 = ANDROMEDA_UDP_PORT"
    using U by (simp add: f len nth_append word16_def)
  have rest: "drop 42 ?f = overlay_andro p @ inner" "drop 50 ?f = inner" using U(1) by (simp_all add: f len)
  have dec: "AndromedaHdr_decode (drop 42 ?f) = Some (Inr (AndromedaHdr_new (ep_vni p) (ep_flow_hash p)))"
    unfolding rest overlay_andro_def by (intro andro_decode_encode andro_ok_new)
  have "drop 42 ?f ! 0 = ?f ! 42" by (subst nth_drop) simp_all
  then have "drop_bit 4 (?f ! 42) = 1"
    using dec by (auto simp: AndromedaHdr_decode_total simp del: drop_append nth_drop split: if_splits)
  then have isa: "is_andromeda ?f"
    unfolding is_andromeda_def ihl using ok w pr port by (simp del: drop_append)
  have addrs: "word32 (drop 14 ?f) 12 = ep_outer_src_ip p" "word32 (drop 14 ?f) 16 = ep_outer_dst_ip p"
    unfolding ip by (simp_all add: word32_append ip_hdr_words)
  obtain h where "AndromedaHdr_decode (drop (22 + 20) ?f) = Some (Inr h)"
    and "decap ?f = Some (Inr (Some \<lparr> dc_header = h, dc_inner = drop (30 + 20) ?f,
      dc_outer_src_ip = word32 (drop 14 ?f) 12, dc_outer_dst_ip = word32 (drop 14 ?f) 16 \<rparr>))"
    using decap_andromeda [OF isa] unfolding ihl by blast
  then show ?thesis using dec rest(2) addrs by (simp del: drop_append)
qed

text \<open>C26: encapsulating a frame of at most 65499 bytes into any large enough buffer succeeds and
  writes 50 bytes more than the frame; decapsulating what was written gives the frame back
  byte for byte, with the VNI (its 24 bits), the flow hash and the outer addresses. Frames
  that do not fit are refused; a buffer that is too small is left unchanged.\<close>

theorem encap_decap_roundtrip:
  "if length inner \<le> 65499 \<and> 50 + length inner \<le> length out
   then \<exists>out'. encap out inner p = Some (out', Inr (50 + length inner)) \<and> length out' = length out \<and>
     drop (50 + length inner) out' = drop (50 + length inner) out \<and>
     decap (take (50 + length inner) out') = Some (Inr (Some
       \<lparr> dc_header = AndromedaHdr_new (ep_vni p) (ep_flow_hash p), dc_inner = inner,
         dc_outer_src_ip = ep_outer_src_ip p, dc_outer_dst_ip = ep_outer_dst_ip p \<rparr>))
   else \<exists>out' e. encap out inner p = Some (out', Inl e) \<and> length out' = length out \<and>
     (length out < 50 + length inner \<longrightarrow> out' = out)"
proof (cases "length inner \<le> 65499 \<and> 50 + length inner \<le> length out")
  case True
  then show ?thesis using decap_overlay [of inner p] by (simp add: encap_eq)
next
  case False
  then have "\<exists>e. encap out inner p = Some (if length out < 50 + length inner then out else patch out 50 inner, Inl e)"
    by (auto simp: encap_def overlay_len_defs put_eq encap_in_place_def MAX_INNER_def Let_def)
  with False show ?thesis by auto
qed

definition sample_params :: encap_params where
  "sample_params =
     \<lparr> ep_outer_src_mac = MacAddr 2 0 0 0 0 1, ep_outer_dst_mac = MacAddr 2 0 0 0 0 2,
       ep_outer_src_ip = 0xc0a80001, ep_outer_dst_ip = 0xc0a80002, ep_vni = 42, ep_flow_hash = 0x1234,
       ep_ip_id = 7, ep_outer_udp_checksum = True \<rparr>"

theorem encap_decap_roundtrip_witness:
  "\<exists>out'. encap (replicate 70 0) [1, 2, 3] sample_params = Some (out', Inr 53) \<and>
     decap (take 53 out') = Some (Inr (Some
       \<lparr> dc_header = AndromedaHdr_new 42 0x1234, dc_inner = [1, 2, 3],
         dc_outer_src_ip = 0xc0a80001, dc_outer_dst_ip = 0xc0a80002 \<rparr>))"
  using encap_decap_roundtrip [of "[1, 2, 3]" "replicate 70 0" sample_params]
  by (auto simp: sample_params_def)

section \<open>The outer headers are valid\<close>

lemma overlay_prefix_split:
  obtains U where "overlay_prefix p inner = eth_hdr (ep_outer_dst_mac p) (ep_outer_src_mac p) ethertype_IPV4 @
      ip_hdr (ep_outer_src_ip p) (ep_outer_dst_ip p) proto_UDP 64 (ep_ip_id p) True (of_nat (16 + length inner)) @
      U @ overlay_andro p"
    and "length U = 8" and "word16 U 0 = ep_flow_hash p OR 0xc000" and "word16 U 2 = ANDROMEDA_UDP_PORT"
    and "word16 U 4 = of_nat (16 + length inner)"
    and "U = (if ep_outer_udp_checksum p then patch (overlay_udp p (length inner)) 6 (to_be16
        (udp_compute_checksum (ep_outer_src_ip p) (ep_outer_dst_ip p)
          (overlay_udp p (length inner) @ overlay_andro p @ inner)))
      else overlay_udp p (length inner))"
proof (rule that)
  let ?U = "(if ep_outer_udp_checksum p then patch (overlay_udp p (length inner)) 6 (to_be16
        (udp_compute_checksum (ep_outer_src_ip p) (ep_outer_dst_ip p)
          (overlay_udp p (length inner) @ overlay_andro p @ inner)))
      else overlay_udp p (length inner))"
  have w: "word16 ?U k = word16 (overlay_udp p (length inner)) k" if "k + 2 \<le> 6" for k
    using that by (simp add: word16_patch_other)
  show "word16 ?U 0 = ep_flow_hash p OR 0xc000" "word16 ?U 2 = ANDROMEDA_UDP_PORT"
    "word16 ?U 4 = of_nat (16 + length inner)"
    by (simp_all only: w) (simp_all add: overlay_udp_def udp_hdr_def word16_def nth_append)
qed (simp_all add: overlay_prefix_def Let_def)

text \<open>C32: the outer headers encapsulation writes are valid: the outer IPv4 header parses, its
  checksum verifies, Don't Fragment is set and its total length is the length of what
  follows the Ethernet header; the UDP length matches, the source port carries the flow
  hash in the dynamic range, and the UDP checksum either verifies against the pseudo-header
  or, when the option is off, is 0.\<close>

theorem encap_outer_headers_valid:
  assumes "length inner \<le> 65499" and "50 + length inner \<le> length out"
  shows "\<exists>out' ip udp. encap out inner p = Some (out', Inr (50 + length inner)) \<and>
    ip = drop 14 (take (50 + length inner) out') \<and>
    Ipv4View_parse ip = Some (Inr ip) \<and> Ipv4View_checksum_valid ip = Some True \<and>
    Ipv4View_dont_fragment ip = Some True \<and> Ipv4View_total_length ip = Some (of_nat (length ip)) \<and>
    length ip < 65536 \<and> Ipv4View_payload ip = Some udp \<and>
    UdpView_length udp = Some (of_nat (length udp)) \<and>
    UdpView_src_port udp = Some (ep_flow_hash p OR 0xc000) \<and>
    (if ep_outer_udp_checksum p
     then l4_sum_ok (ep_outer_src_ip p) (ep_outer_dst_ip p) proto_UDP udp \<and> UdpView_checksum udp \<noteq> Some 0
     else UdpView_checksum udp = Some 0)"
proof -
  let ?I = "ip_hdr (ep_outer_src_ip p) (ep_outer_dst_ip p) proto_UDP 64 (ep_ip_id p) True (of_nat (16 + length inner))"
  obtain U where U: "overlay_prefix p inner =
        eth_hdr (ep_outer_dst_mac p) (ep_outer_src_mac p) ethertype_IPV4 @ ?I @ U @ overlay_andro p"
      "length U = 8" "word16 U 0 = ep_flow_hash p OR 0xc000" "word16 U 4 = of_nat (16 + length inner)"
    and U6: "U = (if ep_outer_udp_checksum p then patch (overlay_udp p (length inner)) 6 (to_be16
        (udp_compute_checksum (ep_outer_src_ip p) (ep_outer_dst_ip p)
          (overlay_udp p (length inner) @ overlay_andro p @ inner)))
      else overlay_udp p (length inner))"
    by (rule overlay_prefix_split)
  define udp where "udp = U @ overlay_andro p @ inner"
  define ip where "ip = ?I @ udp"
  have udp_len: "length udp = 16 + length inner" "8 \<le> length udp" using U(2) by (simp_all add: udp_def)
  have "unat (of_nat (16 + length inner) :: u16) = 16 + length inner"
    using assms(1) by (intro unat_of_nat_u16) simp
  then have ok: "ipv4_ok ip" unfolding ip_def using assms(1) by (intro ipv4_ok_ip_hdr) simp
  have len: "length ip = 36 + length inner" "20 \<le> length ip" by (simp_all add: ip_def udp_len)
  have csum: "if ep_outer_udp_checksum p
     then l4_sum_ok (ep_outer_src_ip p) (ep_outer_dst_ip p) proto_UDP udp \<and> word16 udp 6 \<noteq> 0
     else word16 udp 6 = 0"
  proof (cases "ep_outer_udp_checksum p")
    case True
    let ?c = "udp_compute_checksum (ep_outer_src_ip p) (ep_outer_dst_ip p)
      (overlay_udp p (length inner) @ overlay_andro p @ inner)"
    have f: "word16 udp 6 = ?c" using True U6 by (simp add: udp_def word16_append)
    have nz: "?c \<noteq> 0" by (simp add: udp_compute_checksum_def Let_def)
    have "patch udp 6 [0, 0] = overlay_udp p (length inner) @ overlay_andro p @ inner"
      using True U6
      by (simp add: udp_def patch_append_left patch_patch_same overlay_udp_def udp_hdr_def patch_def)
    then show ?thesis
      using True f nz udp_field_iff [of udp "ep_outer_src_ip p" "ep_outer_dst_ip p"] udp_len assms(1) by simp
  next
    case False
    then show ?thesis
      using U6 by (simp add: udp_def overlay_udp_def udp_hdr_def word16_def nth_append)
  qed
  define fr where "fr = eth_hdr (ep_outer_dst_mac p) (ep_outer_src_mac p) ethertype_IPV4 @ ip @
      drop (50 + length inner) out"
  have "encap out inner p = Some (fr, Inr (50 + length inner))"
    using assms by (simp add: encap_eq U(1) ip_def udp_def fr_def)
  moreover have "ip = drop 14 (take (50 + length inner) fr)" using len by (simp add: fr_def)
  moreover have "Ipv4View_checksum_valid ip = Some True" "Ipv4View_payload ip = Some udp"
    using ok by (simp_all add: view_simps) (simp_all add: ip_def ip_sum_ok_def ihl_ip_hdr checksum_ip_hdr)
  moreover have "Ipv4View_dont_fragment ip = Some True" "Ipv4View_total_length ip = Some (of_nat (length ip))"
    using len by (simp_all add: Ipv4View_accessors) (simp_all add: ip_def word16_append ip_hdr_words)
  moreover have "UdpView_length udp = Some (of_nat (length udp))" "UdpView_src_port udp = Some (ep_flow_hash p OR 0xc000)"
    using udp_len U by (simp_all add: UdpView_accessors) (simp_all add: udp_def word16_append)
  ultimately show ?thesis
    using ok len(1) assms(1) csum udp_len
    by - (rule exI [of _ fr], rule exI [of _ ip], rule exI [of _ udp],
        simp add: Ipv4View_parse_ok UdpView_accessors)
qed

theorem encap_outer_headers_valid_witness:
  "\<exists>out' ip. encap (replicate 70 0) [1, 2, 3] sample_params = Some (out', Inr 53) \<and>
     ip = drop 14 (take 53 out') \<and> Ipv4View_checksum_valid ip = Some True"
  using encap_outer_headers_valid [of "[1, 2, 3]" "replicate 70 0" sample_params] by auto

end
