(* ===== verification/Config.thy ===== *)
theory Config
  imports Fabric Overlay
begin

text \<open>
  \<open>andromeda-control/src/config.rs\<close>: validation of a node configuration and construction of the
  fabric map it describes. The TOML decoder (\<open>toml::from_str\<close> with the derived
  deserializers) and the file reader are parameters.
\<close>

section \<open>Raw and validated configuration\<close>

record raw_endpoint =
  re_inner_ip :: string
  re_inner_mac :: string
  re_node_ip :: string
  re_local :: bool

record raw_vpc =
  rv_vni :: u32
  rv_cidr :: "string option"
  rv_endpoints :: "raw_endpoint list"

record raw_config =
  rc_local_node :: string
  rc_peer_node :: "string option"
  rc_vni :: "u32 option"
  rc_virtual_gateway_mac :: "string option"
  rc_virtual_gateway_ip :: "string option"
  rc_nat_ip :: "string option"
  rc_vpc_cidr :: "string option"
  rc_underlay_mtu :: "u16 option"
  rc_endpoints :: "raw_endpoint list"
  rc_vpcs :: "raw_vpc list"

record vpc_spec =
  vs_vni :: u32
  vs_cidr :: "ipv4addr \<times> u8"
  vs_endpoints :: "endpoint list"

record node_config =
  nc_local_node :: ipv4addr
  nc_peer_node :: "ipv4addr option"
  nc_vni :: u32
  nc_virtual_gateway_mac :: mac_addr
  nc_virtual_gateway_ip :: ipv4addr
  nc_nat_ip :: "ipv4addr option"
  nc_vpc_cidr :: "ipv4addr \<times> u8"
  nc_underlay_mtu :: u16
  nc_endpoints :: "endpoint list"
  nc_vpcs :: "vpc_spec list"

datatype config_error = ConfigError string

definition ConfigError_to_string :: "config_error \<Rightarrow> string" where
  "ConfigError_to_string e = (case e of ConfigError s \<Rightarrow> ''config error: '' @ s)"

type_synonym 'a config_result = "(config_error + 'a) option"

section \<open>Field parsers\<close>

definition parse_ip :: "string \<Rightarrow> string \<Rightarrow> ipv4addr config_result" where
  "parse_ip s field =
     Some (case ipv4_from_str s of
             Some a \<Rightarrow> Inr a
           | None \<Rightarrow> Inl (ConfigError (''bad '' @ field @ '': '' @ s)))"

text \<open>\<open>s.parse::<MacAddr>()\<close> with its error replaced by a message.\<close>

definition parse_mac :: "string \<Rightarrow> string \<Rightarrow> mac_addr config_result" where
  "parse_mac s field =
     (case MacAddr_from_str s of
        None \<Rightarrow> None
      | Some (Inr m) \<Rightarrow> Some (Inr m)
      | Some (Inl _) \<Rightarrow> Some (Inl (ConfigError (''bad '' @ field @ '': '' @ s))))"

definition parse_cidr :: "string \<Rightarrow> (ipv4addr \<times> u8) config_result" where
  "parse_cidr s =
     (case split_once (CHR ''/'') s of
        None \<Rightarrow> Some (Inl (ConfigError (''bad cidr: '' @ s)))
      | Some (net, len) \<Rightarrow>
          try_bind (parse_ip net ''vpc_cidr'') (\<lambda>ip.
            (case u8_from_str_radix 10 len of
               None \<Rightarrow> Some (Inl (ConfigError (''bad cidr prefix: '' @ s)))
             | Some prefix \<Rightarrow>
                 if 32 < prefix then Some (Inl (ConfigError (''cidr prefix out of range: '' @ s)))
                 else Some (Inr (ip, prefix)))))"

text \<open>\<open>opt.map(f).transpose()?\<close>, and \<open>collect\<close> into a \<open>Result\<close> (the first error wins).\<close>

definition opt_parse :: "('a \<Rightarrow> 'b config_result) \<Rightarrow> 'a option \<Rightarrow> 'b option config_result" where
  "opt_parse f o' =
     (case o' of None \<Rightarrow> Some (Inr None) | Some s \<Rightarrow> try_bind (f s) (\<lambda>v. Some (Inr (Some v))))"

fun collect_res :: "('a \<Rightarrow> 'b config_result) \<Rightarrow> 'a list \<Rightarrow> 'b list config_result" where
  "collect_res f [] = Some (Inr [])"
| "collect_res f (x # xs) = try_bind (f x) (\<lambda>y. try_bind (collect_res f xs) (\<lambda>ys. Some (Inr (y # ys))))"

definition parse_endpoint :: "u32 \<Rightarrow> raw_endpoint \<Rightarrow> endpoint config_result" where
  "parse_endpoint vni e =
     try_bind (parse_ip (re_inner_ip e) ''endpoint.inner_ip'') (\<lambda>iip.
     try_bind (parse_mac (re_inner_mac e) ''endpoint.inner_mac'') (\<lambda>mac.
     try_bind (parse_ip (re_node_ip e) ''endpoint.node_ip'') (\<lambda>nip.
       Some (Inr \<lparr> e_vni = vni, e_inner_ip = iip, e_inner_mac = mac, e_node_ip = nip, e_local = re_local e \<rparr>))))"

definition parse_endpoints :: "raw_endpoint list \<Rightarrow> u32 \<Rightarrow> endpoint list config_result" where
  "parse_endpoints raw vni = collect_res (parse_endpoint vni) raw"

section \<open>The configuration\<close>

definition cidr_or_any :: "(ipv4addr \<times> u8) option \<Rightarrow> ipv4addr \<times> u8" where
  "cidr_or_any c = (case c of None \<Rightarrow> (0, 0) | Some x \<Rightarrow> x)"

text \<open>The body of \<open>for v in &raw.vpcs\<close>, and the two forms of the network list.\<close>

definition parse_vpc :: "raw_vpc \<Rightarrow> vpc_spec config_result" where
  "parse_vpc v =
     try_bind (opt_parse parse_cidr (rv_cidr v)) (\<lambda>c.
     try_bind (parse_endpoints (rv_endpoints v) (rv_vni v)) (\<lambda>eps.
       Some (Inr \<lparr> vs_vni = rv_vni v, vs_cidr = cidr_or_any c, vs_endpoints = eps \<rparr>)))"

definition parse_vpcs :: "raw_config \<Rightarrow> vpc_spec list config_result" where
  "parse_vpcs raw =
     (if rc_vpcs raw \<noteq> [] then collect_res parse_vpc (rc_vpcs raw)
      else (case rc_vni raw of
          None \<Rightarrow> Some (Inl (ConfigError ''config needs a `vni` or at least one `[[vpc]]`''))
        | Some vni \<Rightarrow>
            try_bind (opt_parse parse_cidr (rc_vpc_cidr raw)) (\<lambda>c.
            try_bind (parse_endpoints (rc_endpoints raw) vni) (\<lambda>eps.
              Some (Inr [\<lparr> vs_vni = vni, vs_cidr = cidr_or_any c, vs_endpoints = eps \<rparr>])))))"

definition default_gateway_mac :: mac_addr where
  "default_gateway_mac = MacAddr 0x02 0 0 0 0 0xff"

text \<open>The part of \<open>parse\<close> from \<open>vpcs[0]\<close> on, which panics on an empty list of networks.\<close>

definition NodeConfig_finish ::
    "raw_config \<Rightarrow> ipv4addr \<Rightarrow> ipv4addr option \<Rightarrow> ipv4addr option \<Rightarrow> mac_addr \<Rightarrow> vpc_spec list \<Rightarrow>
     node_config config_result" where
  "NodeConfig_finish raw local_node peer_node nat_ip gw_mac vpcs =
     (case vpcs of
        [] \<Rightarrow> None
      | v0 # _ \<Rightarrow>
          try_bind (case rc_virtual_gateway_ip raw of
                      Some s \<Rightarrow> parse_ip s ''virtual_gateway_ip''
                    | None \<Rightarrow> Some (Inr (fst (vs_cidr v0) OR 1))) (\<lambda>gw_ip.
          let underlay_mtu = (case rc_underlay_mtu raw of None \<Rightarrow> 1500 | Some m \<Rightarrow> m) in
          if unat underlay_mtu \<le> OVERLAY_OVERHEAD then
            Some (Inl (ConfigError (''underlay_mtu '' @ nat_to_string (unat underlay_mtu) @
              '' too small (must exceed the '' @ nat_to_string OVERLAY_OVERHEAD @ ''-byte overlay header)'')))
          else
            Some (Inr
              \<lparr> nc_local_node = local_node, nc_peer_node = peer_node, nc_vni = vs_vni v0,
                nc_virtual_gateway_mac = gw_mac, nc_virtual_gateway_ip = gw_ip, nc_nat_ip = nat_ip,
                nc_vpc_cidr = vs_cidr v0, nc_underlay_mtu = underlay_mtu,
                nc_endpoints = concat (map vs_endpoints vpcs), nc_vpcs = vpcs \<rparr>)))"

definition NodeConfig_parse :: "(string \<Rightarrow> string + raw_config) \<Rightarrow> string \<Rightarrow> node_config config_result" where
  "NodeConfig_parse from_str toml_str =
     (case from_str toml_str of
        Inl e \<Rightarrow> Some (Inl (ConfigError e))
      | Inr raw \<Rightarrow>
          try_bind (parse_ip (rc_local_node raw) ''local_node'') (\<lambda>local_node.
          try_bind (opt_parse (\<lambda>s. parse_ip s ''peer_node'') (rc_peer_node raw)) (\<lambda>peer_node.
          try_bind (opt_parse (\<lambda>s. parse_ip s ''nat_ip'') (rc_nat_ip raw)) (\<lambda>nat_ip.
          try_bind (case rc_virtual_gateway_mac raw of
                      Some s \<Rightarrow> parse_mac s ''virtual_gateway_mac''
                    | None \<Rightarrow> Some (Inr default_gateway_mac)) (\<lambda>gw_mac.
          try_bind (parse_vpcs raw) (NodeConfig_finish raw local_node peer_node nat_ip gw_mac))))))"

definition NodeConfig_served_vnis :: "node_config \<Rightarrow> u32 list" where
  "NodeConfig_served_vnis c = map vs_vni (nc_vpcs c)"

text \<open>The reader gets the path and the byte limit of \<open>take\<close> and returns an error text or the
  content.\<close>

definition NodeConfig_load ::
    "(string \<Rightarrow> nat \<Rightarrow> string + string) \<Rightarrow> (string \<Rightarrow> string + raw_config) \<Rightarrow> string \<Rightarrow> node_config config_result" where
  "NodeConfig_load read_file from_str path =
     (case read_file path 1048576 of
        Inl e \<Rightarrow> Some (Inl (ConfigError (path @ '': '' @ e)))
      | Inr text \<Rightarrow> NodeConfig_parse from_str text)"

definition add_vpc_spec :: "fabric \<Rightarrow> vpc_spec \<Rightarrow> fabric" where
  "add_vpc_spec fabric v =
     foldl Fabric_add_endpoint
       (Fabric_add_vpc fabric
         \<lparr> v_vni = vs_vni v, v_name = ''vpc-'' @ nat_to_string (unat (vs_vni v)), v_cidr = vs_cidr v \<rparr>)
       (vs_endpoints v)"

definition NodeConfig_build_fabric :: "node_config \<Rightarrow> fabric" where
  "NodeConfig_build_fabric c = foldl add_vpc_spec (Fabric_new (nc_local_node c)) (nc_vpcs c)"

section \<open>Totality and validity\<close>

lemma try_bind_total: "(\<exists>r. m = Some r) \<Longrightarrow> (\<And>x. m = Some (Inr x) \<Longrightarrow> \<exists>r. k x = Some r) \<Longrightarrow> \<exists>r. try_bind m k = Some r"
  by (auto simp: try_bind_def split: sum.split)

lemma try_bind_Inr: "try_bind m k = Some (Inr y) \<longleftrightarrow> (\<exists>x. m = Some (Inr x) \<and> k x = Some (Inr y))"
  by (auto simp: try_bind_def split: option.splits sum.splits)

lemma MacAddr_from_str_total: "\<exists>r. MacAddr_from_str s = Some r"
proof (cases "mac_from_parts (split_on [CHR '':'', CHR ''-''] s) (replicate 6 0) 0")
  case (Inr x)
  then obtain octs n where x: "x = (octs, n)" by (cases x)
  then have "length octs = 6" using mac_from_parts_Inr [of _ "replicate 6 0" 0 octs n] Inr by simp
  then show ?thesis using Inr x mac_of_eq_Some [of octs] by (auto simp: MacAddr_from_str_def)
qed (simp add: MacAddr_from_str_def)

lemma parse_ip_total: "\<exists>r. parse_ip s f = Some r"
  by (simp add: parse_ip_def)

lemma parse_mac_total: "\<exists>r. parse_mac s f = Some r"
  using MacAddr_from_str_total [of s] by (auto simp: parse_mac_def split: sum.split)

lemma parse_cidr_total: "\<exists>r. parse_cidr s = Some r"
  by (auto simp: parse_cidr_def split: option.split intro!: try_bind_total parse_ip_total)

lemma opt_parse_total: "(\<And>s. \<exists>r. f s = Some r) \<Longrightarrow> \<exists>r. opt_parse f o' = Some r"
  by (auto simp: opt_parse_def split: option.split intro!: try_bind_total)

lemma collect_res_total: "(\<And>x. \<exists>r. f x = Some r) \<Longrightarrow> \<exists>r. collect_res f xs = Some r"
  by (induction xs) (auto intro!: try_bind_total)

lemma parse_endpoints_total: "\<exists>r. parse_endpoints raw vni = Some r"
  unfolding parse_endpoints_def parse_endpoint_def
  by (intro collect_res_total try_bind_total parse_ip_total parse_mac_total) auto

lemma parse_vpc_total: "\<exists>r. parse_vpc v = Some r"
  unfolding parse_vpc_def
  by (intro try_bind_total opt_parse_total parse_cidr_total parse_endpoints_total) auto

lemma parse_vpcs_total: "\<exists>r. parse_vpcs raw = Some r"
  by (auto simp: parse_vpcs_def split: option.split
      intro!: collect_res_total parse_vpc_total try_bind_total opt_parse_total parse_cidr_total parse_endpoints_total)

lemma collect_res_Inr:
  "collect_res f xs = Some (Inr ys) \<longleftrightarrow> list_all2 (\<lambda>x y. f x = Some (Inr y)) xs ys"
  by (induction xs arbitrary: ys) (auto simp: try_bind_Inr list_all2_Cons1)

definition vpc_spec_ok :: "vpc_spec \<Rightarrow> bool" where
  "vpc_spec_ok v \<longleftrightarrow> snd (vs_cidr v) \<le> 32 \<and> (\<forall>e \<in> set (vs_endpoints v). e_vni e = vs_vni v)"

lemma parse_cidr_ok:
  assumes "parse_cidr s = Some (Inr c)"
  shows "snd c \<le> 32"
proof -
  obtain net l where "split_once (CHR ''/'') s = Some (net, l)"
    using assms by (auto simp: parse_cidr_def split: option.splits)
  then obtain ip where "(case u8_from_str_radix 10 l of
        None \<Rightarrow> Some (Inl (ConfigError (''bad cidr prefix: '' @ s)))
      | Some prefix \<Rightarrow> if 32 < prefix then Some (Inl (ConfigError (''cidr prefix out of range: '' @ s)))
          else Some (Inr (ip, prefix))) = Some (Inr c)"
    using assms by (auto simp: parse_cidr_def try_bind_Inr)
  then show ?thesis by (auto split: option.splits if_splits)
qed

lemma opt_cidr_ok: "opt_parse parse_cidr o' = Some (Inr c) \<Longrightarrow> snd (cidr_or_any c) \<le> 32"
  using parse_cidr_ok by (auto simp: opt_parse_def cidr_or_any_def try_bind_Inr split: option.splits)

lemma parse_endpoints_vni:
  assumes "parse_endpoints raw vni = Some (Inr eps)"
  shows "\<forall>e \<in> set eps. e_vni e = vni"
proof
  fix e assume "e \<in> set eps"
  then obtain i where "i < length eps" "e = eps ! i" by (auto simp: in_set_conv_nth)
  then have "parse_endpoint vni (raw ! i) = Some (Inr e)"
    using assms by (auto simp: parse_endpoints_def collect_res_Inr list_all2_conv_all_nth)
  then show "e_vni e = vni" by (auto simp: parse_endpoint_def try_bind_Inr)
qed

lemma parse_vpcs_ok:
  assumes "parse_vpcs raw = Some (Inr vs)"
  shows "vs \<noteq> []" and "\<forall>v \<in> set vs. vpc_spec_ok v"
proof -
  show "vs \<noteq> []"
    using assms by (auto simp: parse_vpcs_def collect_res_Inr try_bind_Inr split: if_splits option.splits)
  show "\<forall>v \<in> set vs. vpc_spec_ok v"
  proof
    fix v assume v: "v \<in> set vs"
    show "vpc_spec_ok v"
    proof (cases "rc_vpcs raw = []")
      case True
      then show ?thesis
        using assms v opt_cidr_ok parse_endpoints_vni
        by (fastforce simp: parse_vpcs_def try_bind_Inr vpc_spec_ok_def split: option.splits)
    next
      case False
      from v obtain i where "i < length vs" "v = vs ! i" by (auto simp: in_set_conv_nth)
      then have "parse_vpc (rc_vpcs raw ! i) = Some (Inr v)"
        using assms False by (auto simp: parse_vpcs_def collect_res_Inr list_all2_conv_all_nth)
      then show ?thesis
        using opt_cidr_ok parse_endpoints_vni by (fastforce simp: parse_vpc_def try_bind_Inr vpc_spec_ok_def)
    qed
  qed
qed

section \<open>Properties\<close>

lemma build_fabric_resolve:
  "Fabric_resolve (foldl add_vpc_spec f vs) = Fabric_resolve (foldl Fabric_add_endpoint f (concat (map vs_endpoints vs)))"
proof (induction vs arbitrary: f)
  case (Cons v vs)
  have "Fabric_resolve (add_vpc_spec f v) vni ip = Fabric_resolve (foldl Fabric_add_endpoint f (vs_endpoints v)) vni ip" for vni ip
    by (simp add: add_vpc_spec_def fabmap.lookup_foldl split: option.split)
  then have "Fabric_resolve (foldl Fabric_add_endpoint (add_vpc_spec f v) eps) vni ip =
      Fabric_resolve (foldl Fabric_add_endpoint (foldl Fabric_add_endpoint f (vs_endpoints v)) eps) vni ip" for eps vni ip
    by (simp add: fabmap.lookup_foldl split: option.split)
  then show ?case using Cons by (intro ext) simp
qed simp

lemma NodeConfig_finish_Inr:
  assumes "NodeConfig_finish raw ln pn ni gm vs = Some (Inr c)"
  shows "nc_vpcs c = vs" and "nc_endpoints c = concat (map vs_endpoints vs)" and "nc_vni c = vs_vni (hd vs)"
    and "nc_vpc_cidr c = vs_cidr (hd vs)" and "50 < unat (nc_underlay_mtu c)"
  using assms
  by (cases vs; auto simp: NodeConfig_finish_def try_bind_Inr Let_def OVERLAY_OVERHEAD_eq split: if_splits)+

lemma NodeConfig_parse_Inr:
  assumes "NodeConfig_parse from_str text = Some (Inr c)"
  obtains raw vs ln pn ni gm where "parse_vpcs raw = Some (Inr vs)" and "NodeConfig_finish raw ln pn ni gm vs = Some (Inr c)"
  using assms by (auto simp: NodeConfig_parse_def try_bind_Inr split: sum.splits)

lemma NodeConfig_finish_total:
  "vs \<noteq> [] \<Longrightarrow> \<exists>r. NodeConfig_finish raw ln pn ni gm vs = Some r"
  by (cases vs) (auto simp: NodeConfig_finish_def Let_def parse_ip_total split: option.split intro!: try_bind_total)

lemma NodeConfig_parse_total: "\<exists>r. NodeConfig_parse from_str text = Some r"
proof (cases "from_str text")
  case (Inr raw)
  have "\<exists>r. (case rc_virtual_gateway_mac raw of Some s \<Rightarrow> parse_mac s ''virtual_gateway_mac''
      | None \<Rightarrow> Some (Inr default_gateway_mac)) = Some r"
    by (simp add: parse_mac_total split: option.split)
  then show ?thesis
    unfolding NodeConfig_parse_def Inr sum.case
    by (intro try_bind_total parse_ip_total opt_parse_total parse_vpcs_total NodeConfig_finish_total)
      (auto dest: parse_vpcs_ok(1))
qed (simp add: NodeConfig_parse_def)

text \<open>C38: whatever the TOML decoder returns, loading a configuration ends with an error or with a
  valid configuration, never with a panic. A valid configuration serves at least one
  network, its prefixes are at most 32, its underlay MTU exceeds the overlay header, each
  endpoint carries the VNI of the network it is listed under, and the endpoint list is the
  concatenation of the networks' lists.\<close>

theorem NodeConfig_parse_valid:
  "\<exists>r. NodeConfig_parse from_str text = Some r \<and>
     (case r of Inl e \<Rightarrow> True
      | Inr c \<Rightarrow> nc_vpcs c \<noteq> [] \<and> nc_vni c = vs_vni (hd (nc_vpcs c)) \<and> nc_vpc_cidr c = vs_cidr (hd (nc_vpcs c)) \<and>
          50 < unat (nc_underlay_mtu c) \<and> nc_endpoints c = concat (map vs_endpoints (nc_vpcs c)) \<and>
          list_all (\<lambda>v. snd (vs_cidr v) \<le> 32 \<and> list_all (\<lambda>e. e_vni e = vs_vni v) (vs_endpoints v)) (nc_vpcs c))"
proof -
  obtain r where r: "NodeConfig_parse from_str text = Some r" using NodeConfig_parse_total ..
  show ?thesis
  proof (cases r)
    case (Inr c)
    with r have "NodeConfig_parse from_str text = Some (Inr c)" by simp
    then obtain raw vs ln pn ni gm where vs: "parse_vpcs raw = Some (Inr vs)"
        and c: "NodeConfig_finish raw ln pn ni gm vs = Some (Inr c)"
      by (rule NodeConfig_parse_Inr)
    show ?thesis
      using r Inr NodeConfig_finish_Inr [OF c] parse_vpcs_ok [OF vs] by (simp add: list_all_iff vpc_spec_ok_def)
  qed (simp add: r)
qed

text \<open>C40: the fabric built from a configuration resolves a network and an inner address to the
  last endpoint the configuration lists for exactly that pair, and to nothing when it lists
  none: tenants that reuse an address in different networks stay apart.\<close>

theorem NodeConfig_build_fabric_resolve:
  assumes "NodeConfig_parse from_str text = Some (Inr c)"
  shows "Fabric_resolve (NodeConfig_build_fabric c) vni ip =
    (let es = filter (\<lambda>e. e_vni e = vni \<and> e_inner_ip e = ip) (nc_endpoints c)
     in if es = [] then None else Some (hop_of (last es)))"
proof -
  have c: "nc_endpoints c = concat (map vs_endpoints (nc_vpcs c))"
    using assms by (elim NodeConfig_parse_Inr) (simp add: NodeConfig_finish_Inr(1,2))
  have "Fabric_resolve (NodeConfig_build_fabric c) vni ip =
      Fabric_resolve (foldl Fabric_add_endpoint (Fabric_new (nc_local_node c)) (nc_endpoints c)) vni ip"
    by (simp add: NodeConfig_build_fabric_def build_fabric_resolve c)
  then show ?thesis by (simp add: fabmap.lookup_foldl find_rev_last Let_def)
qed

text \<open>A single-network document: the result of decoding, and of validating it.\<close>

definition sample_raw :: raw_config where
  "sample_raw =
     \<lparr> rc_local_node = ''192.168.0.1'', rc_peer_node = None, rc_vni = Some 42, rc_virtual_gateway_mac = None,
       rc_virtual_gateway_ip = None, rc_nat_ip = None, rc_vpc_cidr = Some ''10.0.0.0/24'', rc_underlay_mtu = None,
       rc_endpoints = [\<lparr> re_inner_ip = ''10.0.0.2'', re_inner_mac = ''02:00:00:00:00:02'',
         re_node_ip = ''192.168.0.2'', re_local = False \<rparr>], rc_vpcs = [] \<rparr>"

definition sample_endpoint :: endpoint where
  "sample_endpoint = \<lparr> e_vni = 42, e_inner_ip = 0x0a000002, e_inner_mac = MacAddr 2 0 0 0 0 2,
     e_node_ip = 0xc0a80002, e_local = False \<rparr>"

definition sample_config :: node_config where
  "sample_config = \<lparr> nc_local_node = 0xc0a80001, nc_peer_node = None, nc_vni = 42,
     nc_virtual_gateway_mac = default_gateway_mac, nc_virtual_gateway_ip = 0x0a000001, nc_nat_ip = None,
     nc_vpc_cidr = (0x0a000000, 24), nc_underlay_mtu = 1500, nc_endpoints = [sample_endpoint],
     nc_vpcs = [\<lparr> vs_vni = 42, vs_cidr = (0x0a000000, 24), vs_endpoints = [sample_endpoint] \<rparr>] \<rparr>"

lemma sample_config_parse: "NodeConfig_parse (\<lambda>_. Inr sample_raw) [] = Some (Inr sample_config)"
  by code_simp

theorem NodeConfig_build_fabric_witness:
  "Fabric_resolve (NodeConfig_build_fabric sample_config) 42 0x0a000002 =
     Some \<lparr> nh_node_ip = 0xc0a80002, nh_inner_mac = MacAddr 2 0 0 0 0 2, nh_local = False \<rparr>"
  using NodeConfig_build_fabric_resolve [OF sample_config_parse, of 42 "0x0a000002"]
  by (simp add: hop_of_def sample_config_def sample_endpoint_def)

end
