(* ===== verification/Tcp.thy ===== *)
theory Tcp
  imports L4
begin

text \<open>
  \<open>andromeda-core/src/tcp.rs\<close>: the TCP views with their incremental checksum updates and the
  full checksum computation, with the interpretation of the transport-view contract.
\<close>

definition TCP_MIN_HDR_LEN :: nat where
  "TCP_MIN_HDR_LEN = 20"

definition flag_FIN :: u8 where "flag_FIN = 0x01"

definition flag_SYN :: u8 where "flag_SYN = 0x02"

definition flag_RST :: u8 where "flag_RST = 0x04"

definition flag_PSH :: u8 where "flag_PSH = 0x08"

definition flag_ACK :: u8 where "flag_ACK = 0x10"

definition flag_URG :: u8 where "flag_URG = 0x20"

section \<open>Read-only view\<close>

definition TcpView_parse :: "bytes \<Rightarrow> bytes parse_result" where
  "TcpView_parse buf =
     (if length buf < TCP_MIN_HDR_LEN then
        Some (Inl (TooShort ''tcp'' TCP_MIN_HDR_LEN (length buf)))
      else do {
        b \<leftarrow> rd8 buf 12;
        let data_off = unat (drop_bit 4 b) * 4;
        if data_off < TCP_MIN_HDR_LEN \<or> length buf < data_off then
          Some (Inl (BadHeaderLen ''tcp'' data_off))
        else Some (Inr buf) })"

definition TcpView_src_port :: "bytes \<Rightarrow> u16 option" where
  "TcpView_src_port buf = rd16 buf 0"

definition TcpView_dst_port :: "bytes \<Rightarrow> u16 option" where
  "TcpView_dst_port buf = rd16 buf 2"

definition TcpView_seq :: "bytes \<Rightarrow> u32 option" where
  "TcpView_seq buf = rd32 buf 4"

definition TcpView_ack :: "bytes \<Rightarrow> u32 option" where
  "TcpView_ack buf = rd32 buf 8"

definition TcpView_data_offset :: "bytes \<Rightarrow> nat option" where
  "TcpView_data_offset buf = do { b \<leftarrow> rd8 buf 12; Some (unat (drop_bit 4 b) * 4) }"

definition TcpView_flags :: "bytes \<Rightarrow> u8 option" where
  "TcpView_flags buf = rd8 buf 13"

definition TcpView_has_flag :: "bytes \<Rightarrow> u8 \<Rightarrow> bool option" where
  "TcpView_has_flag buf f = do { fl \<leftarrow> TcpView_flags buf; Some (fl AND f \<noteq> 0) }"

definition TcpView_window :: "bytes \<Rightarrow> u16 option" where
  "TcpView_window buf = rd16 buf 14"

definition TcpView_checksum :: "bytes \<Rightarrow> u16 option" where
  "TcpView_checksum buf = rd16 buf 16"

definition TcpView_payload :: "bytes \<Rightarrow> bytes option" where
  "TcpView_payload buf = do { off \<leftarrow> TcpView_data_offset buf; slice_from buf off }"

section \<open>Mutable view\<close>

definition TcpViewMut_parse :: "bytes \<Rightarrow> bytes parse_result" where
  "TcpViewMut_parse buf = try_bind (TcpView_parse buf) (\<lambda>_. Some (Inr buf))"

definition TcpViewMut_src_port :: "bytes \<Rightarrow> u16 option" where
  "TcpViewMut_src_port buf = rd16 buf 0"

definition TcpViewMut_dst_port :: "bytes \<Rightarrow> u16 option" where
  "TcpViewMut_dst_port buf = rd16 buf 2"

definition TcpViewMut_checksum :: "bytes \<Rightarrow> u16 option" where
  "TcpViewMut_checksum buf = rd16 buf 16"

definition TcpViewMut_set_checksum :: "bytes \<Rightarrow> u16 \<Rightarrow> bytes option" where
  "TcpViewMut_set_checksum buf c = put buf 16 18 (to_be16 c)"

definition TcpViewMut_patch_checksum_word :: "bytes \<Rightarrow> u16 \<Rightarrow> u16 \<Rightarrow> bytes option" where
  "TcpViewMut_patch_checksum_word buf old new = do {
     cs \<leftarrow> TcpViewMut_checksum buf;
     let c = update_word cs old new;
     TcpViewMut_set_checksum buf c }"

definition TcpViewMut_patch_checksum_dword :: "bytes \<Rightarrow> u32 \<Rightarrow> u32 \<Rightarrow> bytes option" where
  "TcpViewMut_patch_checksum_dword buf old new = do {
     buf \<leftarrow> TcpViewMut_patch_checksum_word buf (ucast (drop_bit 16 old)) (ucast (drop_bit 16 new));
     TcpViewMut_patch_checksum_word buf (ucast (old AND 0xffff)) (ucast (new AND 0xffff)) }"

definition TcpViewMut_set_src_port :: "bytes \<Rightarrow> u16 \<Rightarrow> bytes option" where
  "TcpViewMut_set_src_port buf port = do {
     old \<leftarrow> TcpViewMut_src_port buf;
     buf \<leftarrow> put buf 0 2 (to_be16 port);
     TcpViewMut_patch_checksum_word buf old port }"

definition TcpViewMut_set_dst_port :: "bytes \<Rightarrow> u16 \<Rightarrow> bytes option" where
  "TcpViewMut_set_dst_port buf port = do {
     old \<leftarrow> TcpViewMut_dst_port buf;
     buf \<leftarrow> put buf 2 4 (to_be16 port);
     TcpViewMut_patch_checksum_word buf old port }"

definition tcp_compute_checksum :: "ipv4addr \<Rightarrow> ipv4addr \<Rightarrow> bytes \<Rightarrow> u16" where
  "tcp_compute_checksum src dst l4 =
     (let pseudo = pseudo_header_sum src dst proto_TCP (of_nat (length l4));
          acc = accumulate pseudo l4
      in finalize acc)"

section \<open>Closed forms\<close>

definition tcp_ok :: "bytes \<Rightarrow> bool" where
  "tcp_ok s \<longleftrightarrow> 20 \<le> length s \<and> 20 \<le> unat (drop_bit 4 (s ! 12)) * 4 \<and>
     unat (drop_bit 4 (s ! 12)) * 4 \<le> length s"

lemma TcpView_parse_total:
  "TcpView_parse s = Some
     (if length s < 20 then Inl (TooShort ''tcp'' 20 (length s))
      else if unat (drop_bit 4 (s ! 12)) * 4 < 20 \<or> length s < unat (drop_bit 4 (s ! 12)) * 4
        then Inl (BadHeaderLen ''tcp'' (unat (drop_bit 4 (s ! 12)) * 4))
      else Inr s)"
  by (simp add: TcpView_parse_def TCP_MIN_HDR_LEN_def rd8_eq Let_def)

lemma TcpView_parse_ok [view_simps]: "tcp_ok s \<Longrightarrow> TcpView_parse s = Some (Inr s)"
  by (auto simp: TcpView_parse_total tcp_ok_def)

lemma TcpView_parse_err: "\<not> tcp_ok s \<Longrightarrow> \<exists>e. TcpView_parse s = Some (Inl e)"
  by (auto simp: TcpView_parse_total tcp_ok_def)

lemma TcpView_accessors [view_simps]:
  "20 \<le> length s \<Longrightarrow> TcpView_src_port s = Some (word16 s 0)"
  "20 \<le> length s \<Longrightarrow> TcpView_dst_port s = Some (word16 s 2)"
  by (simp_all add: TcpView_src_port_def TcpView_dst_port_def view_simps)

lemma tcp_ok_frame:
  assumes "tcp_ok s" and "length s' = length s" and "s' ! 12 = s ! 12"
  shows "tcp_ok s'"
  using assms by (simp add: tcp_ok_def)

lemma TcpViewMut_patch_checksum_word_eq [view_simps]:
  "20 \<le> length s \<Longrightarrow> TcpViewMut_patch_checksum_word s old new =
     Some (patch s 16 (to_be16 (update_word (word16 s 16) old new)))"
  by (simp add: TcpViewMut_patch_checksum_word_def TcpViewMut_checksum_def TcpViewMut_set_checksum_def
      view_simps Let_def)

lemma tcp_patch_dword_law:
  assumes "20 \<le> length s"
  shows "\<exists>s'. TcpViewMut_patch_checksum_dword s old new = Some s' \<and> length s' = length s \<and>
     (\<forall>i < length s. i \<notin> {16, 17} \<longrightarrow> s' ! i = s ! i) \<and>
     (word_sum s' + addr_sum new) mod 65535 = (word_sum s + addr_sum old) mod 65535"
proof -
  let ?oh = "ucast (drop_bit 16 old) :: u16" and ?nh = "ucast (drop_bit 16 new) :: u16"
  let ?s1 = "patch s 16 (to_be16 (update_word (word16 s 16) ?oh ?nh))"
  let ?s2 = "patch ?s1 16 (to_be16 (update_word (word16 ?s1 16) (ucast old) (ucast new)))"
  have len: "20 \<le> length ?s1" using assms by simp
  have run: "TcpViewMut_patch_checksum_dword s old new = Some ?s2"
    unfolding TcpViewMut_patch_checksum_dword_def ucast_and_ffff
    using assms len by (simp only: TcpViewMut_patch_checksum_word_eq bind.bind_lunit)
  have "(word_sum ?s1 + unat ?nh) mod 65535 = (word_sum s + unat ?oh) mod 65535"
    using assms by (intro word_sum_store_update) simp_all
  moreover have "(word_sum ?s2 + unat (ucast new :: u16)) mod 65535 =
      (word_sum ?s1 + unat (ucast old :: u16)) mod 65535"
    using len by (intro word_sum_store_update) simp_all
  ultimately have "(word_sum ?s2 + addr_sum new) mod 65535 = (word_sum s + addr_sum old) mod 65535"
    unfolding addr_sum_def by (rule sum_chain)
  then show ?thesis
    using run assms by (intro exI [of _ ?s2]) (auto simp: nth_patch)
qed

lemma TcpViewMut_set_port_eq [view_simps]:
  assumes "20 \<le> length s"
  shows "TcpViewMut_set_src_port s p =
      Some (patch (patch s 0 (to_be16 p)) 16 (to_be16 (update_word (word16 s 16) (word16 s 0) p)))"
    and "TcpViewMut_set_dst_port s p =
      Some (patch (patch s 2 (to_be16 p)) 16 (to_be16 (update_word (word16 s 16) (word16 s 2) p)))"
  using assms by (simp_all add: TcpViewMut_set_src_port_def TcpViewMut_set_dst_port_def
      TcpViewMut_src_port_def TcpViewMut_dst_port_def view_simps word16_patch_other)

lemma tcp_set_port_law:
  assumes ok: "tcp_ok s" and a: "a = 0 \<or> a = 2"
    and s': "s' = patch (patch s a (to_be16 p)) 16 (to_be16 (update_word (word16 s 16) (word16 s a) p))"
  shows "tcp_ok s'" and "length s' = length s" and "word16 s' a = p"
    and "\<forall>i < length s. i \<notin> {a, a + 1, 16, 17} \<longrightarrow> s' ! i = s ! i"
    and "word_sum s' mod 65535 = word_sum s mod 65535"
proof -
  have len: "20 \<le> length s" using ok by (simp add: tcp_ok_def)
  have ak: "a + 2 \<le> 16" "even a" using a by auto
  show frame: "length s' = length s" "word16 s' a = p"
    "\<forall>i < length s. i \<notin> {a, a + 1, 16, 17} \<longrightarrow> s' ! i = s ! i"
    using port_frame [OF ak(1), of s p] len by (simp_all add: s')
  show "tcp_ok s'" using ok frame(1) by (rule tcp_ok_frame) (use frame(3) len a in auto)
  show "word_sum s' mod 65535 = word_sum s mod 65535"
    unfolding s' using ak len by (intro word_sum_port_update) simp_all
qed

text \<open>The TCP view meets the contract of a transport view; its checksum is always on.\<close>

interpretation tcp: l4_view tcp_ok "\<lambda>_. True" 16 TcpViewMut_parse
    TcpViewMut_set_src_port TcpViewMut_set_dst_port TcpViewMut_patch_checksum_dword
proof (unfold_locales, goal_cases)
  case (1 s)
  then show ?case by (simp add: TcpViewMut_parse_def view_simps)
next
  case (2 s)
  then show ?case using TcpView_parse_err [of s] by (auto simp: TcpViewMut_parse_def)
next
  case (4 s p)
  then show ?case
    using tcp_set_port_law [of s 0 _ p, OF _ _ refl] by (simp add: view_simps tcp_ok_def)
next
  case (5 s p)
  then show ?case
    using tcp_set_port_law [of s 2 _ p, OF _ _ refl] by (simp add: view_simps tcp_ok_def)
next
  case (6 s old new)
  then have len: "20 \<le> length s" by (simp add: tcp_ok_def)
  from tcp_patch_dword_law [OF this, of old new] obtain s' where
    s': "TcpViewMut_patch_checksum_dword s old new = Some s'" "length s' = length s"
      "\<forall>i < length s. i \<notin> {16, 17} \<longrightarrow> s' ! i = s ! i"
      "(word_sum s' + addr_sum new) mod 65535 = (word_sum s + addr_sum old) mod 65535" by blast
  moreover have "tcp_ok s'" using 6 s'(2) by (rule tcp_ok_frame) (use s'(3) len in auto)
  ultimately show ?case by auto
qed (auto simp: tcp_ok_def)

section \<open>Full computation against the receiver's check\<close>

lemma tcp_field_iff:
  assumes "20 \<le> length s" and "length s \<le> 65535" and "word16 s 16 \<noteq> 0xffff"
  shows "l4_sum_ok src dst proto_TCP s \<longleftrightarrow> word16 s 16 = tcp_compute_checksum src dst (patch s 16 [0, 0])"
proof -
  let ?z = "patch s 16 [0, 0]"
  let ?S = "pseudo_sum src dst proto_TCP (length s) + word_sum ?z"
  let ?c = "tcp_compute_checksum src dst ?z"
  let ?acc = "accumulate (pseudo_header_sum src dst proto_TCP (of_nat (length ?z))) ?z"
  have len: "length ?z = length s" using assms by simp
  have field: "l4_sum_ok src dst proto_TCP s \<longleftrightarrow> (?S + unat (word16 s 16)) mod 65535 = 0"
    using assms word_sum_zero_field [of 16 s]
    by (subst l4_sum_ok_iff) (simp_all add: proto_defs add.assoc)
  have acc: "unat ?acc = ?S" using unat_l4_accumulate [of ?z src dst proto_TCP] assms(2) len by simp
  have c_eq: "?c = finalize ?acc" by (simp add: tcp_compute_checksum_def Let_def)
  have c: "(?S + unat ?c) mod 65535 = 0" using finalize_completes [of ?acc] by (simp only: c_eq acc)
  have "0 < ?S" by (simp add: pseudo_sum_def proto_defs)
  then have "oc16 ?S \<noteq> 0" by simp
  then have "unat ?c < 65535"
    by (simp only: c_eq finalize_def unat_not_u16 unat_checksum_fold acc)
  moreover have "unat (word16 s 16) < 65535"
    using assms(3) unat_u16_less [of "word16 s 16"] by (simp add: word_unat_eq_iff)
  ultimately have "unat (word16 s 16) = unat ?c" if f: "(?S + unat (word16 s 16)) mod 65535 = 0"
    using mod_65535_unique [OF f c] mod_65535_unique [OF c f] by linarith
  then show ?thesis unfolding field using c by (auto simp: word_unat_eq_iff)
qed

text \<open>For a TCP segment whose checksum field is not \<open>0xffff\<close>, the receiver's check accepts
  exactly when the field holds the value \<open>compute_checksum\<close> returns for the segment with a
  zeroed field.\<close>

lemma tcp_checksum_unique:
  assumes "20 \<le> length s" and "length s \<le> 65535" and "word16 s 16 \<noteq> 0xffff"
  shows "l4_sum_ok src dst proto_TCP s \<longleftrightarrow> word16 s 16 = tcp_compute_checksum src dst (patch s 16 [0, 0])"
  using assms by (rule tcp_field_iff)

text \<open>A TCP SYN from port 1000 to port 80 with its checksum.\<close>

definition sample_tcp :: bytes where
  "sample_tcp = [0x03, 0xe8, 0, 80, 0, 0, 0, 1, 0, 0, 0, 0, 0x50, 2, 0xff, 0xff, 0x97, 0xa7, 0, 0]"

lemma tcp_checksum_unique_witness:
  "l4_sum_ok 0x0a000001 0x0a000002 proto_TCP sample_tcp"
proof -
  have "word16 sample_tcp 16 = tcp_compute_checksum 0x0a000001 0x0a000002 (patch sample_tcp 16 [0, 0])"
    and "word16 sample_tcp 16 \<noteq> 0xffff" by code_simp+
  then show ?thesis
    using tcp_checksum_unique [of sample_tcp "0x0a000001" "0x0a000002"] by (simp add: sample_tcp_def)
qed

end
