(* ===== verification/Five_Tuple.thy ===== *)
theory Five_Tuple
  imports Udp Tcp
begin

text \<open>
  The connection key of \<open>andromeda-core/src/lib.rs\<close> and its extraction from an IPv4 packet.
\<close>

record five_tuple =
  src_ip :: ipv4addr
  dst_ip :: ipv4addr
  protocol :: u8
  src_port :: u16
  dst_port :: u16

definition FiveTuple_reversed :: "five_tuple \<Rightarrow> five_tuple" where
  "FiveTuple_reversed t =
     \<lparr> src_ip = dst_ip t, dst_ip = src_ip t, protocol = protocol t,
       src_port = dst_port t, dst_port = src_port t \<rparr>"

definition FiveTuple_to_string :: "five_tuple \<Rightarrow> string" where
  "FiveTuple_to_string t =
     ipv4_to_string (src_ip t) @ '':'' @ nat_to_string (unat (src_port t)) @ '' -> '' @
     ipv4_to_string (dst_ip t) @ '':'' @ nat_to_string (unat (dst_port t)) @ '' proto='' @
     nat_to_string (unat (protocol t))"

text \<open>The outer option is the panic, the inner one the function's own result.\<close>

definition five_tuple_of :: "bytes \<Rightarrow> five_tuple option option" where
  "five_tuple_of ipv4_packet = do {
     parsed \<leftarrow> Ipv4View_parse ipv4_packet;
     (case res_ok parsed of
        None \<Rightarrow> Some None
      | Some ip \<Rightarrow> do {
          proto \<leftarrow> Ipv4View_protocol ip;
          ports \<leftarrow>
            (if proto = proto_TCP then do {
               pl \<leftarrow> Ipv4View_payload ip;
               r \<leftarrow> TcpView_parse pl;
               (case res_ok r of
                  None \<Rightarrow> Some None
                | Some t \<Rightarrow> do { sp \<leftarrow> TcpView_src_port t; dp \<leftarrow> TcpView_dst_port t; Some (Some (sp, dp)) }) }
             else if proto = proto_UDP then do {
               pl \<leftarrow> Ipv4View_payload ip;
               (case res_ok (UdpView_parse pl) of
                  None \<Rightarrow> Some None
                | Some u \<Rightarrow> do { sp \<leftarrow> UdpView_src_port u; dp \<leftarrow> UdpView_dst_port u; Some (Some (sp, dp)) }) }
             else Some None);
          (case ports of
             None \<Rightarrow> Some None
           | Some (sp, dp) \<Rightarrow> do {
               s \<leftarrow> Ipv4View_src ip;
               d \<leftarrow> Ipv4View_dst ip;
               Some (Some \<lparr> src_ip = s, dst_ip = d, protocol = proto, src_port = sp, dst_port = dp \<rparr>) }) }) }"

section \<open>Closed form\<close>

text \<open>The packets that have a connection key, and the key.\<close>

definition l4_seg :: "bytes \<Rightarrow> bytes" where
  "l4_seg b = drop (ihl b) b"

definition has_ports :: "bytes \<Rightarrow> bool" where
  "has_ports b \<longleftrightarrow> ipv4_ok b \<and>
     (b ! 9 = proto_TCP \<and> tcp_ok (l4_seg b) \<or> b ! 9 = proto_UDP \<and> udp_ok (l4_seg b))"

definition tuple_of :: "bytes \<Rightarrow> five_tuple" where
  "tuple_of b = \<lparr> src_ip = word32 b 12, dst_ip = word32 b 16, protocol = b ! 9,
     src_port = word16 (l4_seg b) 0, dst_port = word16 (l4_seg b) 2 \<rparr>"

lemma five_tuple_of_eq: "five_tuple_of b = Some (if has_ports b then Some (tuple_of b) else None)"
proof (cases "ipv4_ok b")
  case False
  then show ?thesis
    using Ipv4View_parse_err [OF False] by (auto simp: five_tuple_of_def has_ports_def)
next
  case True
  have len: "20 \<le> length b" using True by (rule ipv4_okD)
  have diff: "proto_TCP \<noteq> proto_UDP" by (simp add: proto_defs)
  show ?thesis
  proof (cases "b ! 9 = proto_TCP")
    case tcp: True
    have "20 \<le> length (l4_seg b)" if "tcp_ok (l4_seg b)" using that by (simp add: tcp_ok_def)
    then show ?thesis
      using True len tcp diff TcpView_parse_err [of "l4_seg b"] TcpView_parse_ok [of "l4_seg b"]
      by (cases "tcp_ok (l4_seg b)")
        (auto simp: five_tuple_of_def has_ports_def tuple_of_def Ipv4View_parse_ok Ipv4View_accessors
          Ipv4View_payload_eq TcpView_accessors l4_seg_def)
  next
    case False
    then show ?thesis
      using True len
      by (auto simp: five_tuple_of_def has_ports_def tuple_of_def Ipv4View_parse_ok Ipv4View_accessors
          Ipv4View_payload_eq UdpView_parse_eq UdpView_accessors udp_ok_def l4_seg_def)
  qed
qed

text \<open>The key extraction returns on every byte string; it gives a key exactly for a
  well-formed IPv4 packet whose protocol is TCP or UDP and whose transport header parses,
  and the key holds the addresses, the protocol and the ports of the packet.\<close>

lemma five_tuple_of_spec:
  "\<exists>r. five_tuple_of b = Some r \<and>
     (r \<noteq> None \<longleftrightarrow> Ipv4View_parse b = Some (Inr b) \<and>
        (\<exists>seg. Ipv4View_payload b = Some seg \<and>
           (Ipv4View_protocol b = Some proto_TCP \<and> TcpView_parse seg = Some (Inr seg) \<or>
            Ipv4View_protocol b = Some proto_UDP \<and> UdpView_parse seg = Inr seg))) \<and>
     (case r of None \<Rightarrow> True
      | Some t \<Rightarrow> Ipv4View_src b = Some (src_ip t) \<and> Ipv4View_dst b = Some (dst_ip t) \<and>
          Ipv4View_protocol b = Some (protocol t) \<and>
          (\<exists>seg. Ipv4View_payload b = Some seg \<and> word16 seg 0 = src_port t \<and> word16 seg 2 = dst_port t))"
proof (cases "ipv4_ok b")
  case False
  then show ?thesis using Ipv4View_parse_err [OF False] by (auto simp: five_tuple_of_eq has_ports_def)
next
  case True
  have len: "20 \<le> length b" using True by (rule ipv4_okD)
  have "TcpView_parse seg = Some (Inr seg) \<longleftrightarrow> tcp_ok seg" for seg
    using TcpView_parse_ok TcpView_parse_err by fastforce
  moreover have "UdpView_parse seg = Inr seg \<longleftrightarrow> udp_ok seg" for seg
    by (auto simp: UdpView_parse_eq udp_ok_def)
  ultimately show ?thesis
    using True len
    by (simp add: five_tuple_of_eq has_ports_def tuple_of_def Ipv4View_parse_ok Ipv4View_accessors
        Ipv4View_payload_eq l4_seg_def)
qed

lemma FiveTuple_reversed_reversed: "FiveTuple_reversed (FiveTuple_reversed t) = t"
  by (simp add: FiveTuple_reversed_def)

end
