(* ===== verification/Timing_Wheel.thy ===== *)
theory Timing_Wheel
  imports Prelude "HOL-Library.Multiset"
begin

text \<open>
  \<open>andromeda-nat/src/timing_wheel.rs\<close>: the hashed timing wheel, with the contract
  \<open>timer_wheel\<close> its client relies on (no entry is lost or duplicated) and the schedule it keeps
  over any sequence of operations.
\<close>

section \<open>State and operations\<close>

record 'k timing_wheel =
  slots :: "'k list list"
  tick :: u64
  wheel_now :: u64

definition TimingWheel_new :: "u64 \<Rightarrow> nat \<Rightarrow> 'k timing_wheel option" where
  "TimingWheel_new tk n =
     (if \<not> 0 < tk then None
      else if \<not> 0 < n then None
      else Some \<lparr> slots = replicate n [], tick = tk, wheel_now = 0 \<rparr>)"

text \<open>Division and remainder panic on a zero divisor.\<close>

definition TimingWheel_bucket_of :: "'k timing_wheel \<Rightarrow> u64 \<Rightarrow> nat option" where
  "TimingWheel_bucket_of w deadline =
     (if tick w = 0 \<or> of_nat (length (slots w)) = (0 :: u64) then None
      else Some (unat ((deadline div tick w) mod of_nat (length (slots w)))))"

definition TimingWheel_insert :: "'k timing_wheel \<Rightarrow> 'k \<Rightarrow> u64 \<Rightarrow> 'k timing_wheel option" where
  "TimingWheel_insert w key deadline = do {
     b \<leftarrow> TimingWheel_bucket_of w deadline;
     if b < length (slots w) then Some (w \<lparr> slots := (slots w)[b := slots w ! b @ [key]] \<rparr>) else None }"

text \<open>The loop \<open>for s in 1..=steps\<close>; the first argument counts the iterations that are left.\<close>

fun advance_loop ::
    "nat \<Rightarrow> u64 \<Rightarrow> u64 \<Rightarrow> u64 \<Rightarrow> 'k list list \<Rightarrow> 'k list \<Rightarrow> ('k list list \<times> 'k list) option" where
  "advance_loop 0 n last_tick s sl due = Some (sl, due)"
| "advance_loop (Suc k) n last_tick s sl due =
     (let b = unat ((last_tick + s) mod n) in
      if b < length sl then advance_loop k n last_tick (s + 1) (sl[b := []]) (due @ sl ! b) else None)"

definition TimingWheel_advance ::
    "'k timing_wheel \<Rightarrow> u64 \<Rightarrow> 'k list \<Rightarrow> ('k timing_wheel \<times> 'k list) option" where
  "TimingWheel_advance w now due =
     (let n = of_nat (length (slots w)) in
      if tick w = 0 \<or> n = 0 then None
      else do {
        let cur_tick = now div tick w;
        let last_tick = wheel_now w div tick w;
        let steps = min (cur_tick - last_tick) n;
        (sl, due) \<leftarrow> advance_loop (unat steps) n last_tick 1 (slots w) due;
        Some (w \<lparr> slots := sl, wheel_now := now \<rparr>, due) })"

definition TimingWheel_len :: "'k timing_wheel \<Rightarrow> nat" where
  "TimingWheel_len w = sum_list (map length (slots w))"

definition TimingWheel_is_empty :: "'k timing_wheel \<Rightarrow> bool" where
  "TimingWheel_is_empty w \<longleftrightarrow> list_all (\<lambda>s. s = []) (slots w)"

section \<open>Invariant and contents\<close>

definition wheel_wf :: "'k timing_wheel \<Rightarrow> bool" where
  "wheel_wf w \<longleftrightarrow> 0 < tick w \<and> 0 < length (slots w) \<and> length (slots w) < 2 ^ 64"

definition entries :: "'k timing_wheel \<Rightarrow> 'k multiset" where
  "entries w = mset (concat (slots w))"

text \<open>The contract: a wheel holds a multiset of entries, \<open>insert\<close> adds one, \<open>advance\<close> splits
  it into what is due and what stays.\<close>

locale timer_wheel =
  fixes wf :: "'w \<Rightarrow> bool" and content :: "'w \<Rightarrow> 'k multiset"
    and ins :: "'w \<Rightarrow> 'k \<Rightarrow> u64 \<Rightarrow> 'w option"
    and adv :: "'w \<Rightarrow> u64 \<Rightarrow> 'k list \<Rightarrow> ('w \<times> 'k list) option"
  assumes ins_law: "wf w \<Longrightarrow> \<exists>w'. ins w k d = Some w' \<and> wf w' \<and> content w' = content w + {#k#}"
    and adv_law: "wf w \<Longrightarrow> \<exists>w' due. adv w t due0 = Some (w', due) \<and> wf w' \<and>
        mset due0 + content w = mset due + content w'"
begin

lemma adv_distinct:
  assumes "wf w" and "content w = mset_set A" and "finite A"
  obtains w' due where "adv w t [] = Some (w', due)" and "wf w'" and "distinct due" and "set due \<subseteq> A"
    and "content w' = mset_set (A - set due)"
proof -
  obtain w' due where r: "adv w t [] = Some (w', due)" "wf w'" and c: "content w = mset due + content w'"
    using adv_law [OF assms(1), of t "[]"] by auto
  have le: "mset due \<subseteq># mset_set A" using c assms(2) by (metis mset_subset_eq_add_left)
  have count: "count (mset due) k \<le> 1" for k
    using mset_subset_eq_count [OF le, of k] by (metis count_mset_set(1,2,3) dual_order.trans le_numeral_extra(3) zero_le_one)
  have d: "distinct due" unfolding distinct_count_atmost_1
    using count by (metis One_nat_def count_mset count_mset_0_iff le_Suc_eq le_zero_eq)
  have sub: "set due \<subseteq> A" using set_mset_mono [OF le] assms(3) by simp
  have "content w' = mset_set A - mset due" using c assms(2) by simp
  also have "\<dots> = mset_set (A - set due)"
    using d sub assms(3) by (simp add: mset_set_Diff mset_set_set [symmetric])
  finally show thesis using that r d sub by blast
qed

end

lemma entries_update:
  assumes "b < length sl"
  shows "mset (concat (sl[b := ys])) + mset (sl ! b) = mset (concat sl) + mset ys"
  using assms
  by (subst (3) id_take_nth_drop [OF assms]) (simp add: upd_conv_take_nth_drop)

lemma advance_loop_conserves:
  assumes "0 < n" and "unat n \<le> length sl"
  shows "\<exists>sl' due'. advance_loop k n l s sl due = Some (sl', due') \<and> length sl' = length sl \<and>
     mset due' + mset (concat sl') = mset due + mset (concat sl)"
  using assms
proof (induction k arbitrary: s sl due)
  case (Suc k)
  let ?b = "unat ((l + s) mod n)"
  have "?b < unat n" using Suc.prems(1) by (simp add: unat_mod word_less_nat_alt)
  then have b: "?b < length sl" using Suc.prems(2) by simp
  obtain sl' due' where r: "advance_loop k n l (s + 1) (sl[?b := []]) (due @ sl ! ?b) = Some (sl', due')"
      "length sl' = length sl"
      "mset due' + mset (concat sl') = mset (due @ sl ! ?b) + mset (concat (sl[?b := []]))"
    using Suc.IH [of "sl[?b := []]" "s + 1" "due @ sl ! ?b"] Suc.prems by auto
  have "mset due' + mset (concat sl') = mset due + mset (concat sl)"
    using r(3) entries_update [OF b, of "[]"] by (simp add: ac_simps)
  then show ?case using r b by (simp add: Let_def)
qed simp

lemma unat_of_nat_length: "n < 2 ^ 64 \<Longrightarrow> unat (of_nat n :: u64) = n"
  by (simp add: unsigned_of_nat take_bit_nat_eq_self)

interpretation tw: timer_wheel wheel_wf entries TimingWheel_insert TimingWheel_advance
proof (unfold_locales, goal_cases)
  case (1 w k d)
  let ?n = "of_nat (length (slots w)) :: u64"
  have n: "unat ?n = length (slots w)" "0 < length (slots w)" "tick w \<noteq> 0"
    using 1 by (auto simp: wheel_wf_def unat_of_nat_length)
  then have nz: "?n \<noteq> 0" by (metis less_numeral_extra(3) unsigned_0)
  let ?b = "unat ((d div tick w) mod ?n)"
  have b: "?b < length (slots w)" using n by (simp add: unat_mod)
  have "mset (concat ((slots w)[?b := slots w ! ?b @ [k]])) + mset (slots w ! ?b) =
      mset (concat (slots w)) + mset (slots w ! ?b @ [k])"
    by (rule entries_update [OF b])
  then show ?case
    using 1 n nz b by (simp add: TimingWheel_insert_def TimingWheel_bucket_of_def wheel_wf_def entries_def)
next
  case (2 w t due)
  let ?n = "of_nat (length (slots w)) :: u64"
  have n: "unat ?n = length (slots w)" "0 < length (slots w)" "tick w \<noteq> 0"
    using 2 by (auto simp: wheel_wf_def unat_of_nat_length)
  then have nz: "?n \<noteq> 0" by (metis less_numeral_extra(3) unsigned_0)
  then have "0 < ?n" by (simp add: word_neq_0_conv)
  then obtain sl' due' where
    "advance_loop (unat (min (t div tick w - wheel_now w div tick w) ?n)) ?n (wheel_now w div tick w) 1
       (slots w) due = Some (sl', due')"
    "length sl' = length (slots w)" "mset due' + mset (concat sl') = mset due + mset (concat (slots w))"
    using advance_loop_conserves [of ?n "slots w"] n(1) by fastforce
  then show ?case
    using 2 n nz by (auto simp: TimingWheel_advance_def wheel_wf_def entries_def Let_def)
qed

section \<open>When an entry fires\<close>

lemma drained_rest:
  assumes "b < length sl"
  shows "set (sl ! b) \<union> (\<Union>i<(k::nat). set (sl[b := []] ! f i)) = set (sl ! b) \<union> (\<Union>i<k. set (sl ! f i))"
proof -
  have "set (sl ! b) \<union> set (sl[b := []] ! f i) = set (sl ! b) \<union> set (sl ! f i)" for i
    using assms by (cases "f i = b") simp_all
  then show ?thesis by blast
qed

text \<open>One pass of the loop drains the buckets of the ticks it crosses.\<close>

lemma advance_loop_set:
  assumes "0 < n" and "unat n = length sl"
    and "advance_loop k n l s sl due = Some (sl', due')"
  shows "set due' = set due \<union> (\<Union>i<k. set (sl ! unat ((l + s + of_nat i) mod n)))"
  using assms
proof (induction k arbitrary: s sl due)
  case (Suc k)
  let ?b = "unat ((l + s) mod n)"
  have b: "?b < length sl" using Suc.prems(1,2) by (simp add: unat_mod word_less_nat_alt)
  have rec: "advance_loop k n l (s + 1) (sl[?b := []]) (due @ sl ! ?b) = Some (sl', due')"
    using Suc.prems(3) b by (simp add: Let_def)
  have "set due' = set (due @ sl ! ?b) \<union>
      (\<Union>i<k. set (sl[?b := []] ! unat ((l + (s + 1) + of_nat i) mod n)))"
    using Suc.IH [OF Suc.prems(1) _ rec] Suc.prems(2) by simp
  also have "\<dots> = set due \<union> set (sl ! ?b) \<union> (\<Union>i<k. set (sl ! unat ((l + (s + 1) + of_nat i) mod n)))"
    using drained_rest [OF b, where f = "\<lambda>i. unat ((l + (s + 1) + of_nat i) mod n)"]
    by (simp only: set_append Un_assoc)
  also have "(\<Union>i<k. set (sl ! unat ((l + (s + 1) + of_nat i) mod n))) =
      (\<Union>i\<in>{1..<Suc k}. set (sl ! unat ((l + s + of_nat i) mod n)))"
  proof -
    have "{1..<Suc k} = Suc ` {..<k}"
      by (simp only: image_Suc_lessThan One_nat_def) (simp add: atLeastLessThanSuc_atLeastAtMost)
    then show ?thesis by (simp add: ac_simps)
  qed
  also have "set due \<union> set (sl ! ?b) \<union> \<dots> = set due \<union> (\<Union>i<Suc k. set (sl ! unat ((l + s + of_nat i) mod n)))"
  proof -
    have "{..<Suc k} = insert 0 {1..<Suc k}" by auto
    then show ?thesis by auto
  qed
  finally show ?case .
qed simp

lemma residue_unique:
  fixes i j n l :: nat
  assumes "1 \<le> i" "i \<le> n" "1 \<le> j" "j \<le> n" "(l + i) mod n = (l + j) mod n"
  shows "i = j"
proof -
  have *: "x = y" if "x \<le> y" "1 \<le> x" "y \<le> n" "(l + x) mod n = (l + y) mod n" for x y
  proof -
    have "n dvd (l + y) - (l + x)" using that mod_eq_dvd_iff_nat [of "l + x" "l + y" n] by simp
    then show "x = y" using that by (auto dest: dvd_imp_le)
  qed
  show ?thesis using * [of i j] * [of j i] assms by (metis nat_le_linear)
qed

text \<open>The buckets after the loop: those of the ticks it crosses are empty, the others as before.\<close>

lemma advance_loop_slots:
  assumes "0 < n" and "unat n = length sl"
    and "advance_loop k n l s sl due = Some (sl', due')" and "b < length sl"
  shows "sl' ! b = (if \<exists>i<k. unat ((l + s + of_nat i) mod n) = b then [] else sl ! b)"
  using assms
proof (induction k arbitrary: s sl due)
  case (Suc k)
  let ?b = "unat ((l + s) mod n)"
  have rec: "advance_loop k n l (s + 1) (sl[?b := []]) (due @ sl ! ?b) = Some (sl', due')"
    using Suc.prems(3) by (simp add: Let_def split: if_splits)
  have "sl' ! b = (if \<exists>i<k. unat ((l + (s + 1) + of_nat i) mod n) = b then [] else sl[?b := []] ! b)"
    using Suc.IH [OF Suc.prems(1) _ rec] Suc.prems(2,4) by simp
  moreover have "(\<exists>i<Suc k. unat ((l + s + of_nat i) mod n) = b) \<longleftrightarrow>
      ?b = b \<or> (\<exists>i<k. unat ((l + (s + 1) + of_nat i) mod n) = b)"
    by (simp add: Ex_less_Suc2 ac_simps)
  ultimately show ?case using Suc.prems(4) by (auto simp: nth_list_update)
qed simp

section \<open>The schedule a wheel keeps\<close>

text \<open>What the wheel promises, without buckets: every pending entry has a tick at which it fires. The
  hand is at a tick; an entry inserted now fires at the first later tick that falls into the bucket of
  its deadline, and \<open>advance\<close> fires the entries whose tick has come.\<close>

definition fire_tick :: "nat \<Rightarrow> nat \<Rightarrow> nat \<Rightarrow> nat" where
  "fire_tick n hand deadline = Suc hand + (deadline + (n - Suc hand mod n)) mod n"

lemma fire_tick_mod: "0 < n \<Longrightarrow> fire_tick n hand deadline mod n = deadline mod n"
proof -
  assume n: "0 < n"
  have "fire_tick n hand deadline mod n = (Suc hand mod n + (deadline + (n - Suc hand mod n))) mod n"
    unfolding fire_tick_def mod_add_right_eq by (simp only: mod_add_left_eq)
  also have "Suc hand mod n + (deadline + (n - Suc hand mod n)) = deadline + n"
    using n mod_less_divisor [OF n, of "Suc hand"] by simp
  finally show ?thesis by simp
qed

lemma fire_tick_range: "0 < n \<Longrightarrow> hand < fire_tick n hand deadline \<and> fire_tick n hand deadline \<le> hand + n"
proof -
  assume "0 < n"
  then have "(deadline + (n - Suc hand mod n)) mod n < n" by (rule mod_less_divisor)
  then show ?thesis unfolding fire_tick_def by linarith
qed

text \<open>The first such tick: no tick between the hand and it is in the bucket of the deadline.\<close>

lemma fire_tick_first:
  assumes "0 < n" and "hand < t" and "t mod n = deadline mod n"
  shows "fire_tick n hand deadline \<le> t"
proof (rule ccontr)
  assume "\<not> fire_tick n hand deadline \<le> t"
  then have "t - hand = fire_tick n hand deadline - hand"
    using residue_unique [of "t - hand" n "fire_tick n hand deadline - hand" hand] assms
      fire_tick_mod [OF assms(1), of hand deadline] fire_tick_range [OF assms(1), of hand deadline] by simp
  with \<open>\<not> fire_tick n hand deadline \<le> t\<close> assms(2) show False by simp
qed

lemma fire_tick_exact: "hand < deadline \<Longrightarrow> deadline \<le> hand + n \<Longrightarrow> fire_tick n hand deadline = deadline"
  using fire_tick_first [of n hand deadline deadline] fire_tick_mod [of n hand deadline] fire_tick_range [of n hand deadline]
    residue_unique [of "deadline - hand" n "fire_tick n hand deadline - hand" hand] by fastforce

datatype 'k wheel_op = Wheel_insert 'k u64 | Wheel_advance u64

text \<open>The keys each operation returns.\<close>

fun wheel_run :: "'k timing_wheel \<Rightarrow> 'k wheel_op list \<Rightarrow> ('k timing_wheel \<times> 'k list list) option" where
  "wheel_run w [] = Some (w, [])"
| "wheel_run w (Wheel_insert k d # ops) = do {
     w \<leftarrow> TimingWheel_insert w k d;
     (w, outs) \<leftarrow> wheel_run w ops;
     Some (w, [] # outs) }"
| "wheel_run w (Wheel_advance now # ops) = do {
     (w, due) \<leftarrow> TimingWheel_advance w now [];
     (w, outs) \<leftarrow> wheel_run w ops;
     Some (w, due # outs) }"

text \<open>The schedule: the wheel's number of buckets and tick, the tick of the hand, and the pending entries.\<close>

fun wheel_schedule :: "nat \<Rightarrow> nat \<Rightarrow> nat \<Rightarrow> ('k \<times> nat) multiset \<Rightarrow> 'k wheel_op list \<Rightarrow> ('k \<times> nat) multiset \<times> 'k multiset list" where
  "wheel_schedule n tk hand P [] = (P, [])"
| "wheel_schedule n tk hand P (Wheel_insert k d # ops) =
     (case wheel_schedule n tk hand (add_mset (k, fire_tick n hand (unat d div tk)) P) ops of (Q, outs) \<Rightarrow> (Q, {#} # outs))"
| "wheel_schedule n tk hand P (Wheel_advance now # ops) =
     (case wheel_schedule n tk (unat now div tk) {# x \<in># P. unat now div tk < snd x #} ops of
        (Q, outs) \<Rightarrow> (Q, image_mset fst {# x \<in># P. snd x \<le> unat now div tk #} # outs))"

fun advance_times :: "'k wheel_op list \<Rightarrow> u64 list" where
  "advance_times [] = []"
| "advance_times (Wheel_insert k d # ops) = advance_times ops"
| "advance_times (Wheel_advance now # ops) = now # advance_times ops"

definition wheel_hand :: "'k timing_wheel \<Rightarrow> nat" where "wheel_hand w = unat (wheel_now w) div unat (tick w)"

text \<open>A wheel that keeps a schedule: each bucket has the pending entries whose tick falls into it, and
  all of them fire within one revolution of the hand.\<close>

definition wheel_keeps :: "'k timing_wheel \<Rightarrow> ('k \<times> nat) multiset \<Rightarrow> bool" where
  "wheel_keeps w P \<longleftrightarrow> wheel_wf w \<and>
     (\<forall>b < length (slots w). mset (slots w ! b) = image_mset fst {# x \<in># P. snd x mod length (slots w) = b #}) \<and>
     (\<forall>x \<in># P. wheel_hand w < snd x \<and> snd x \<le> wheel_hand w + length (slots w))"

lemma buckets_partition:
  fixes n :: nat
  assumes "0 < n"
  shows "(\<Sum>b<n. image_mset fst {# x \<in># P. snd x mod n = b #}) = image_mset fst P"
proof (induction P)
  case (add x P)
  have "image_mset fst {# y \<in># add_mset x P. snd y mod n = b #} =
      (if snd x mod n = b then {# fst x #} else {#}) + image_mset fst {# y \<in># P. snd y mod n = b #}" for b
    by (cases "snd x mod n = b") simp_all
  moreover have "(\<Sum>b<n. if snd x mod n = b then {# fst x #} else {#}) = {# fst x #}"
    using assms by simp
  ultimately show ?case using add by (simp only: sum.distrib) simp
qed simp

lemma wheel_keeps_entries: "wheel_keeps w P \<Longrightarrow> entries w = image_mset fst P"
proof -
  assume k: "wheel_keeps w P"
  have "entries w = (\<Sum>b<length (slots w). mset (slots w ! b))"
    by (simp add: entries_def mset_concat sum_list_sum_nth atLeast0LessThan)
  also have "\<dots> = (\<Sum>b<length (slots w). image_mset fst {# x \<in># P. snd x mod length (slots w) = b #})"
    using k by (intro sum.cong) (simp_all add: wheel_keeps_def)
  finally show ?thesis using k buckets_partition [of "length (slots w)" P] by (simp add: wheel_keeps_def wheel_wf_def)
qed

lemma wheel_words:
  assumes "wheel_wf w"
  shows "unat (of_nat (length (slots w)) :: u64) = length (slots w)" "0 < (of_nat (length (slots w)) :: u64)" "tick w \<noteq> 0"
    "unat (t div tick w) = unat t div unat (tick w)"
  using assms by (auto simp: wheel_wf_def unat_of_nat_length word_less_nat_alt unat_div)

lemma wheel_keeps_insert:
  assumes "wheel_keeps w P"
  shows "\<exists>w'. TimingWheel_insert w k d = Some w' \<and> tick w' = tick w \<and> length (slots w') = length (slots w) \<and>
    wheel_hand w' = wheel_hand w \<and>
    wheel_keeps w' (add_mset (k, fire_tick (length (slots w)) (wheel_hand w) (unat d div unat (tick w))) P)"
proof -
  have wf: "wheel_wf w" using assms by (simp add: wheel_keeps_def)
  note n = wheel_words [OF wf]
  let ?n = "length (slots w)" and ?D = "unat d div unat (tick w)"
  have n0: "0 < ?n" using wf by (simp add: wheel_wf_def)
  let ?w = "w \<lparr> slots := (slots w)[?D mod ?n := slots w ! (?D mod ?n) @ [k]] \<rparr>"
  have "TimingWheel_insert w k d = Some ?w"
    using n n0 by (simp add: TimingWheel_insert_def TimingWheel_bucket_of_def unat_mod word_neq_0_conv)
  moreover have "wheel_hand ?w = wheel_hand w" by (simp add: wheel_hand_def)
  moreover have "wheel_keeps ?w (add_mset (k, fire_tick ?n (wheel_hand w) ?D) P)"
    using assms n0 fire_tick_mod [OF n0, of "wheel_hand w" ?D] fire_tick_range [OF n0, of "wheel_hand w" ?D]
    by (auto simp: wheel_keeps_def wheel_wf_def wheel_hand_def nth_list_update)
  ultimately show ?thesis by (intro exI [of _ ?w]) simp
qed

lemma wheel_keeps_advance:
  assumes "wheel_keeps w P" and "wheel_now w \<le> now"
  shows "\<exists>w' due. TimingWheel_advance w now [] = Some (w', due) \<and> tick w' = tick w \<and> length (slots w') = length (slots w) \<and>
    wheel_now w' = now \<and> mset due = image_mset fst {# x \<in># P. snd x \<le> unat now div unat (tick w) #} \<and>
    wheel_keeps w' {# x \<in># P. unat now div unat (tick w) < snd x #}"
proof -
  have wf: "wheel_wf w" using assms(1) by (simp add: wheel_keeps_def)
  note n = wheel_words [OF wf]
  let ?n = "length (slots w)" and ?l = "wheel_now w div tick w" and ?L = "wheel_hand w" and ?C = "unat now div unat (tick w)"
  have L: "unat ?l = ?L" by (simp add: n(4) wheel_hand_def)
  have le: "?L \<le> ?C" using assms(2) by (simp add: wheel_hand_def word_le_nat_alt div_le_mono)
  obtain w' due where w': "TimingWheel_advance w now [] = Some (w', due)" "wheel_wf w'" "entries w = mset due + entries w'"
    using tw.adv_law [OF wf, of now "[]"] by auto
  have "?l \<le> now div tick w" using le unfolding word_le_nat_alt L n(4) [of now] .
  then have steps: "unat (min (now div tick w - ?l) (of_nat ?n)) = min (?C - ?L) ?n"
    using le by (auto simp: min_def word_le_nat_alt unat_sub n(1,4) wheel_hand_def)
  obtain sl where run: "advance_loop (min (?C - ?L) ?n) (of_nat ?n) ?l 1 (slots w) [] = Some (sl, due)"
    and eq: "w' = w \<lparr> slots := sl, wheel_now := now \<rparr>"
    using w'(1) n(2,3) unfolding TimingWheel_advance_def Let_def steps
    by (auto simp: Option.bind_eq_Some_conv word_neq_0_conv split: if_splits)
  have len: "length sl = ?n"
    using advance_loop_conserves [OF n(2), of "slots w" "min (?C - ?L) ?n" ?l 1 "[]"] run n(1) by simp
  have "unat (now div tick w) < 2 ^ 64" using unsigned_less [of "now div tick w"] by simp
  then have lt: "?C < 2 ^ 64" by (simp only: n(4))
  have bucket: "unat ((?l + 1 + of_nat i) mod of_nat ?n) = (?L + Suc i) mod ?n" if "i < ?C - ?L" for i
  proof -
    have "?L + Suc i < 2 ^ 64" using that lt by simp
    then have "unat (?l + (1 + of_nat i)) = ?L + Suc i"
      by (simp add: wheel_hand_def unat_word_ariths unsigned_of_nat take_bit_nat_eq_self)
    then show ?thesis by (simp add: unat_mod n(1) add.assoc)
  qed
  have crossed: "(\<exists>i < min (?C - ?L) ?n. unat ((?l + 1 + of_nat i) mod of_nat ?n) = snd x mod ?n) \<longleftrightarrow> snd x \<le> ?C" if "x \<in># P" for x
  proof -
    let ?j = "snd x - ?L"
    have j: "1 \<le> ?j" "?j \<le> ?n" "?L + ?j = snd x" using assms(1) that by (auto simp: wheel_keeps_def)
    have "unat ((?l + 1 + of_nat i) mod of_nat ?n) = snd x mod ?n \<longleftrightarrow> Suc i = ?j" if "i < min (?C - ?L) ?n" for i
    proof -
      have "1 \<le> Suc i" "Suc i \<le> ?n" using that by simp_all
      from residue_unique [OF this j(1,2), of ?L] have "(?L + Suc i) mod ?n = (?L + ?j) mod ?n \<longleftrightarrow> Suc i = ?j" by metis
      then show ?thesis using bucket [of i] that by (simp only: j(3) min_less_iff_conj)
    qed
    then have "(\<exists>i < min (?C - ?L) ?n. unat ((?l + 1 + of_nat i) mod of_nat ?n) = snd x mod ?n) \<longleftrightarrow>
        (\<exists>i < min (?C - ?L) ?n. Suc i = ?j)" by blast
    also have "\<dots> \<longleftrightarrow> ?j \<le> ?C - ?L" using j(1,2) by (auto intro: exI [of _ "?j - 1"])
    finally show ?thesis using j(1,3) le by auto
  qed
  have "mset (sl ! b) = image_mset fst {# x \<in># {# x \<in># P. ?C < snd x #}. snd x mod ?n = b #}" if b: "b < ?n" for b
  proof -
    have old: "mset (slots w ! b) = image_mset fst {# x \<in># P. snd x mod ?n = b #}" using assms(1) b by (simp add: wheel_keeps_def)
    define c where "c \<longleftrightarrow> (\<exists>i < min (?C - ?L) ?n. unat ((?l + 1 + of_nat i) mod of_nat ?n) = b)"
    have sl: "sl ! b = (if c then [] else slots w ! b)"
      unfolding c_def by (rule advance_loop_slots [OF n(2,1) run b])
    have "?C < snd x \<longleftrightarrow> \<not> c" if "x \<in># P" "snd x mod ?n = b" for x
      using crossed [OF that(1)] unfolding that(2) c_def by (simp only: not_le [symmetric])
    then have "{# x \<in># P. ?C < snd x \<and> snd x mod ?n = b #} = {# x \<in># P. \<not> c \<and> snd x mod ?n = b #}"
      by (intro filter_mset_cong) blast+
    then show ?thesis by (cases c) (simp_all add: sl old filter_filter_mset conj_commute)
  qed
  moreover have "?C < snd x \<and> snd x \<le> ?C + ?n" if "x \<in># P" "?C < snd x" for x
    using assms(1) that le by (fastforce simp: wheel_keeps_def)
  ultimately have k: "wheel_keeps w' {# x \<in># P. ?C < snd x #}"
    using w'(2) by (simp add: wheel_keeps_def eq len wheel_hand_def)
  have "P = {# x \<in># P. snd x \<le> ?C #} + {# x \<in># P. ?C < snd x #}"
    using multiset_partition [of P "\<lambda>x. snd x \<le> ?C"] by (simp only: not_le)
  then have "image_mset fst P = image_mset fst {# x \<in># P. snd x \<le> ?C #} + image_mset fst {# x \<in># P. ?C < snd x #}"
    by (metis image_mset_union)
  moreover have "mset due + image_mset fst {# x \<in># P. ?C < snd x #} = image_mset fst P"
    using w'(3) wheel_keeps_entries [OF k] wheel_keeps_entries [OF assms(1)] by simp
  ultimately have "mset due = image_mset fst {# x \<in># P. snd x \<le> ?C #}" by simp
  then show ?thesis using w'(1) k by (simp add: eq len)
qed

lemma wheel_run_schedule:
  assumes "wheel_keeps w P" and "sorted (wheel_now w # advance_times ops)"
  shows "\<exists>w' outs Q. wheel_run w ops = Some (w', outs) \<and> wheel_keeps w' Q \<and>
    wheel_schedule (length (slots w)) (unat (tick w)) (wheel_hand w) P ops = (Q, map mset outs)"
  using assms
proof (induction ops arbitrary: w P)
  case (Cons op ops)
  show ?case
  proof (cases op)
    case (Wheel_insert k d)
    from wheel_keeps_insert [OF Cons.prems(1), of k d] obtain w' where w':
      "TimingWheel_insert w k d = Some w'" "tick w' = tick w" "length (slots w') = length (slots w)"
      "wheel_hand w' = wheel_hand w" "wheel_now w' = wheel_now w"
      "wheel_keeps w' (add_mset (k, fire_tick (length (slots w)) (wheel_hand w) (unat d div unat (tick w))) P)"
      by (auto simp: TimingWheel_insert_def Option.bind_eq_Some_conv split: if_splits)
    from Cons.IH [OF w'(6)] Cons.prems(2) obtain w2 outs Q where "wheel_run w' ops = Some (w2, outs)" "wheel_keeps w2 Q"
      "wheel_schedule (length (slots w)) (unat (tick w)) (wheel_hand w)
         (add_mset (k, fire_tick (length (slots w)) (wheel_hand w) (unat d div unat (tick w))) P) ops = (Q, map mset outs)"
      by (auto simp: Wheel_insert w'(2-5))
    then show ?thesis using w'(1) by (simp add: Wheel_insert)
  next
    case (Wheel_advance now)
    from Cons.prems(2) have "wheel_now w \<le> now" by (simp add: Wheel_advance)
    from wheel_keeps_advance [OF Cons.prems(1) this] obtain w' due where w':
      "TimingWheel_advance w now [] = Some (w', due)" "tick w' = tick w" "length (slots w') = length (slots w)"
      "wheel_now w' = now" "mset due = image_mset fst {# x \<in># P. snd x \<le> unat now div unat (tick w) #}"
      "wheel_keeps w' {# x \<in># P. unat now div unat (tick w) < snd x #}" by blast
    have "wheel_hand w' = unat now div unat (tick w)" by (simp add: wheel_hand_def w'(2,4))
    with Cons.IH [OF w'(6)] Cons.prems(2) obtain w2 outs Q where "wheel_run w' ops = Some (w2, outs)" "wheel_keeps w2 Q"
      "wheel_schedule (length (slots w)) (unat (tick w)) (unat now div unat (tick w))
         {# x \<in># P. unat now div unat (tick w) < snd x #} ops = (Q, map mset outs)"
      by (auto simp: Wheel_advance w'(2-4))
    then show ?thesis using w'(1,5) by (simp add: Wheel_advance)
  qed
qed auto

section \<open>Properties\<close>

text \<open>C37: on a well-formed wheel neither operation panics, both keep it well-formed, and no
  entry is ever lost or duplicated: \<open>insert\<close> adds exactly the key, and \<open>advance\<close> moves entries
  from the wheel to the list of due keys, whatever the two times are.\<close>

theorem TimingWheel_conserves:
  assumes "wheel_wf w"
  shows "\<exists>w1 w2 due'. TimingWheel_insert w k d = Some w1 \<and> wheel_wf w1 \<and> entries w1 = entries w + {#k#} \<and>
    TimingWheel_advance w now due = Some (w2, due') \<and> wheel_wf w2 \<and>
    mset due' + entries w2 = mset due + entries w"
  using tw.ins_law [OF assms, of k d] tw.adv_law [OF assms, of now due] by metis

definition sample_wheel :: "nat timing_wheel" where
  "sample_wheel = \<lparr> slots = [[], [7], [], []], tick = 10, wheel_now = 0 \<rparr>"

lemma sample_wheel_wf: "wheel_wf sample_wheel"
  by (simp add: wheel_wf_def sample_wheel_def)

theorem TimingWheel_conserves_witness:
  "\<exists>w2 due'. TimingWheel_advance sample_wheel 15 [] = Some (w2, due') \<and>
     mset due' + entries w2 = {#7#}"
  using TimingWheel_conserves [OF sample_wheel_wf, of 0 0 15 "[]"]
  by (auto simp: entries_def sample_wheel_def)

text \<open>C36: the wheel keeps the schedule, over its whole life. From a new wheel, for any sequence of
  insertions and of advances whose times do not decrease, no operation panics and each advance returns,
  as a multiset, exactly the pending entries whose firing tick is not after the tick of its time; what
  is left in the wheel is what the schedule has pending. The firing tick of an entry is the first tick
  after the hand, at insertion, that falls into the bucket of its deadline. So it is the deadline's own
  tick when that lies after the hand and at most one revolution ahead, and it is always within one
  revolution: a deadline in the tick of the hand, or an earlier one, fires up to a revolution later,
  and one more than a revolution ahead fires early.\<close>

theorem TimingWheel_keeps_schedule:
  assumes "TimingWheel_new tk n = Some w" and "n < 2 ^ 64" and "sorted (advance_times ops)"
  shows "(\<exists>w' outs P. wheel_run w ops = Some (w', outs) \<and> wheel_schedule n (unat tk) 0 {#} ops = (P, map mset outs) \<and>
      entries w' = image_mset fst P) \<and>
    (\<forall>hand d. hand < fire_tick n hand d \<and> fire_tick n hand d \<le> hand + n \<and> fire_tick n hand d mod n = d mod n \<and>
      (hand < d \<and> d \<le> hand + n \<longrightarrow> fire_tick n hand d = d))"
proof -
  have w: "w = \<lparr> slots = replicate n [], tick = tk, wheel_now = 0 \<rparr>" "0 < n" "tk \<noteq> 0"
    using assms(1) by (auto simp: TimingWheel_new_def word_neq_0_conv split: if_splits)
  then have "wheel_keeps w {#}" using assms(2) by (simp add: wheel_keeps_def wheel_wf_def word_neq_0_conv)
  moreover have "sorted (wheel_now w # advance_times ops)" using assms(3) by (simp add: w(1))
  ultimately obtain w' outs P where "wheel_run w ops = Some (w', outs)" "wheel_keeps w' P"
    "wheel_schedule n (unat tk) 0 {#} ops = (P, map mset outs)"
    using wheel_run_schedule [of w "{#}" ops] by (auto simp: w(1) wheel_hand_def)
  then show ?thesis
    using wheel_keeps_entries fire_tick_mod [OF w(2)] fire_tick_range [OF w(2)] fire_tick_exact by blast
qed

text \<open>Four buckets of width 10: the entries fire at the advance that reaches their ticks and at no other,
  the one inserted with a passed deadline a revolution later.\<close>

theorem TimingWheel_keeps_schedule_witness:
  "\<exists>w w' outs. TimingWheel_new 10 4 = Some w \<and>
     wheel_run w [Wheel_insert (1::nat) 25, Wheel_insert 2 35, Wheel_advance 12, Wheel_advance 31, Wheel_insert 3 30, Wheel_advance 69, Wheel_advance 70] = Some (w', outs) \<and>
     map mset outs = [{#}, {#}, {#}, {#1, 2#}, {#}, {#}, {#3#}] \<and> entries w' = {#}"
proof -
  let ?ops = "[Wheel_insert (1::nat) 25, Wheel_insert 2 35, Wheel_advance 12, Wheel_advance 31, Wheel_insert 3 30, Wheel_advance 69, Wheel_advance 70]"
  obtain w where w: "TimingWheel_new 10 4 = Some (w :: nat timing_wheel)" by (simp add: TimingWheel_new_def)
  have sched: "wheel_schedule 4 (unat (10 :: u64)) 0 {#} ?ops = ({#}, [{#}, {#}, {#}, {#1, 2#}, {#}, {#}, {#3#}])"
    by (simp add: fire_tick_def add_mset_commute)
  have prem: "(4 :: nat) < 2 ^ 64" "sorted (advance_times ?ops)" by simp_all
  from TimingWheel_keeps_schedule [OF w prem] obtain w' outs P where "wheel_run w ?ops = Some (w', outs)"
    "wheel_schedule 4 (unat (10 :: u64)) 0 {#} ?ops = (P, map mset outs)" "entries w' = image_mset fst P" by blast
  then show ?thesis using w unfolding sched by (intro exI [of _ w] exI [of _ w'] exI [of _ outs]) simp
qed

end
