(* ===== verification/Nat_Engine.thy ===== *)
theory Nat_Engine
  imports Five_Tuple Timing_Wheel "HOL-Library.Finite_Map"
begin

text \<open>
  The connection-tracking engine of \<open>andromeda-nat/src/lib.rs\<close>: its state, the port
  allocator, the translation decisions in both directions and the idle-flow collector. The
  \<open>HashMap\<close>s are finite maps, the \<open>HashSet\<close> of ports a set. The state invariant
  \<open>nat_inv\<close> and its preservation are in \<open>Nat_Inv\<close>.
\<close>

section \<open>State\<close>

datatype direction = Outbound | Inbound

record rewrite =
  new_src_ip :: "ipv4addr option"
  new_dst_ip :: "ipv4addr option"
  new_src_port :: "u16 option"
  new_dst_port :: "u16 option"

definition Rewrite_default :: rewrite where
  "Rewrite_default = \<lparr> new_src_ip = None, new_dst_ip = None, new_src_port = None, new_dst_port = None \<rparr>"

definition Rewrite_is_noop :: "rewrite \<Rightarrow> bool" where
  "Rewrite_is_noop rw \<longleftrightarrow> new_src_ip rw = None \<and> new_dst_ip rw = None \<and>
     new_src_port rw = None \<and> new_dst_port rw = None"

record dnat_rule =
  rule_protocol :: u8
  ext_port :: u16
  to_ip :: ipv4addr
  to_port :: u16

record binding =
  b_ip :: ipv4addr
  b_port :: u16
  last_seen :: u64

record nat_stats =
  snat_created :: u64
  snat_hits :: u64
  dnat_created :: u64
  dnat_hits :: u64
  reversed :: u64
  port_exhausted :: u64
  expired :: u64

definition NatStats_default :: nat_stats where
  "NatStats_default =
     \<lparr> snat_created = 0, snat_hits = 0, dnat_created = 0, dnat_hits = 0, reversed = 0,
       port_exhausted = 0, expired = 0 \<rparr>"

type_synonym conntrack = "(five_tuple, binding) fmap"

record nat_engine =
  nat_ip :: ipv4addr
  port_min :: u16
  port_max :: u16
  next_port :: u32
  used_ports :: "u16 set"
  dnat_rules :: "dnat_rule list"
  snat_fwd :: conntrack
  snat_rev :: conntrack
  dnat_rev :: conntrack
  wheel :: "five_tuple timing_wheel"
  idle_timeout :: u64
  stats :: nat_stats

section \<open>Construction and configuration\<close>

definition NatEngine_new :: "ipv4addr \<Rightarrow> u16 \<Rightarrow> u16 \<Rightarrow> nat_engine option" where
  "NatEngine_new ip pmin pmax =
     (if \<not> pmin \<le> pmax then None
      else do {
        w \<leftarrow> TimingWheel_new 1000 256;
        Some \<lparr> nat_ip = ip, port_min = pmin, port_max = pmax, next_port = ucast pmin,
          used_ports = {}, dnat_rules = [], snat_fwd = fmempty, snat_rev = fmempty, dnat_rev = fmempty,
          wheel = w, idle_timeout = 120000, stats = NatStats_default \<rparr> })"

definition NatEngine_add_dnat_rule :: "nat_engine \<Rightarrow> dnat_rule \<Rightarrow> nat_engine" where
  "NatEngine_add_dnat_rule e rule = e \<lparr> dnat_rules := dnat_rules e @ [rule] \<rparr>"

definition NatEngine_set_idle_timeout :: "nat_engine \<Rightarrow> u64 \<Rightarrow> nat_engine" where
  "NatEngine_set_idle_timeout e timeout = e \<lparr> idle_timeout := timeout \<rparr>"

definition NatEngine_stats :: "nat_engine \<Rightarrow> nat_stats" where
  "NatEngine_stats e = stats e"

definition NatEngine_active_bindings :: "nat_engine \<Rightarrow> nat" where
  "NatEngine_active_bindings e = fcard (fmdom (snat_fwd e))"

section \<open>Port allocation\<close>

text \<open>The loop \<open>for _ in 0..span\<close> over the candidate ports.\<close>

fun alloc_loop :: "nat \<Rightarrow> nat_engine \<Rightarrow> nat_engine \<times> u16 option" where
  "alloc_loop 0 e = (e, None)"
| "alloc_loop (Suc k) e =
     (let p = ucast (next_port e);
          e = e \<lparr> next_port := next_port e + 1 \<rparr>;
          e = (if ucast (port_max e) < next_port e then e \<lparr> next_port := ucast (port_min e) \<rparr> else e)
      in if p \<notin> used_ports e then (e \<lparr> used_ports := insert p (used_ports e) \<rparr>, Some p)
         else alloc_loop k e)"

definition NatEngine_alloc_port :: "nat_engine \<Rightarrow> u16 \<Rightarrow> nat_engine \<times> u16 option" where
  "NatEngine_alloc_port e preferred =
     (if port_min e \<le> preferred \<and> preferred \<le> port_max e \<and> preferred \<notin> used_ports e then
        (e \<lparr> used_ports := insert preferred (used_ports e) \<rparr>, Some preferred)
      else
        let span = (ucast (port_max e - port_min e) :: u32) + 1
        in alloc_loop (unat span) e)"

section \<open>Translation decisions\<close>

text \<open>The reply a remote endpoint sends to a translated flow.\<close>

definition reply_tuple :: "ipv4addr \<Rightarrow> five_tuple \<Rightarrow> u16 \<Rightarrow> five_tuple" where
  "reply_tuple ip t nat_port =
     \<lparr> src_ip = dst_ip t, dst_ip = ip, protocol = protocol t, src_port = dst_port t, dst_port = nat_port \<rparr>"

definition NatEngine_process_outbound ::
    "nat_engine \<Rightarrow> five_tuple \<Rightarrow> u64 \<Rightarrow> (nat_engine \<times> rewrite) option" where
  "NatEngine_process_outbound e tuple now =
     (case fmlookup (dnat_rev e) tuple of
        Some b \<Rightarrow>
          Some (e \<lparr> dnat_rev := fmupd tuple (b \<lparr> last_seen := now \<rparr>) (dnat_rev e),
                    stats := (stats e) \<lparr> reversed := reversed (stats e) + 1 \<rparr> \<rparr>,
                Rewrite_default \<lparr> new_src_ip := Some (b_ip b), new_src_port := Some (b_port b) \<rparr>)
      | None \<Rightarrow>
          (case fmlookup (snat_fwd e) tuple of
             Some b \<Rightarrow>
               Some (e \<lparr> snat_fwd := fmupd tuple (b \<lparr> last_seen := now \<rparr>) (snat_fwd e),
                         stats := (stats e) \<lparr> snat_hits := snat_hits (stats e) + 1 \<rparr> \<rparr>,
                     Rewrite_default \<lparr> new_src_ip := Some (nat_ip e), new_src_port := Some (b_port b) \<rparr>)
           | None \<Rightarrow>
               (case NatEngine_alloc_port e (src_port tuple) of
                  (e, None) \<Rightarrow>
                    Some (e \<lparr> stats := (stats e) \<lparr> port_exhausted := port_exhausted (stats e) + 1 \<rparr> \<rparr>,
                          Rewrite_default)
                | (e, Some nat_port) \<Rightarrow> do {
                    let e = e \<lparr> snat_fwd := fmupd tuple
                        \<lparr> b_ip = nat_ip e, b_port = nat_port, last_seen = now \<rparr> (snat_fwd e) \<rparr>;
                    let reply = reply_tuple (nat_ip e) tuple nat_port;
                    let e = e \<lparr> snat_rev := fmupd reply
                        \<lparr> b_ip = src_ip tuple, b_port = src_port tuple, last_seen = now \<rparr> (snat_rev e) \<rparr>;
                    w \<leftarrow> TimingWheel_insert (wheel e) tuple (saturating_add now (idle_timeout e));
                    Some (e \<lparr> wheel := w,
                              stats := (stats e) \<lparr> snat_created := snat_created (stats e) + 1 \<rparr> \<rparr>,
                          Rewrite_default \<lparr> new_src_ip := Some (nat_ip e), new_src_port := Some nat_port \<rparr>) })))"

definition MAX_DNAT_BINDINGS :: nat where
  "MAX_DNAT_BINDINGS = 65536"

definition NatEngine_process_inbound ::
    "nat_engine \<Rightarrow> five_tuple \<Rightarrow> u64 \<Rightarrow> (nat_engine \<times> rewrite) option" where
  "NatEngine_process_inbound e tuple now =
     (case fmlookup (snat_rev e) tuple of
        Some b \<Rightarrow>
          Some (e \<lparr> snat_rev := fmupd tuple (b \<lparr> last_seen := now \<rparr>) (snat_rev e),
                    stats := (stats e) \<lparr> reversed := reversed (stats e) + 1 \<rparr> \<rparr>,
                Rewrite_default \<lparr> new_dst_ip := Some (b_ip b), new_dst_port := Some (b_port b) \<rparr>)
      | None \<Rightarrow>
          if dst_ip tuple = nat_ip e then
            (case find (\<lambda>r. rule_protocol r = protocol tuple \<and> ext_port r = dst_port tuple) (dnat_rules e) of
               Some rule \<Rightarrow>
                 (let server_reply = \<lparr> src_ip = to_ip rule, dst_ip = src_ip tuple, protocol = protocol tuple,
                        src_port = to_port rule, dst_port = src_port tuple \<rparr>;
                      e' = (if fcard (fmdom (dnat_rev e)) < MAX_DNAT_BINDINGS then
                              e \<lparr> dnat_rev := fmupd server_reply
                                    \<lparr> b_ip = nat_ip e, b_port = ext_port rule, last_seen = now \<rparr> (dnat_rev e),
                                  stats := (stats e) \<lparr> dnat_created := dnat_created (stats e) + 1 \<rparr> \<rparr>
                            else e)
                  in Some (e', Rewrite_default \<lparr> new_dst_ip := Some (to_ip rule), new_dst_port := Some (to_port rule) \<rparr>))
             | None \<Rightarrow> Some (e, Rewrite_default))
          else Some (e, Rewrite_default))"

definition NatEngine_process ::
    "nat_engine \<Rightarrow> five_tuple \<Rightarrow> direction \<Rightarrow> u64 \<Rightarrow> (nat_engine \<times> rewrite) option" where
  "NatEngine_process e tuple direction now =
     (case direction of
        Outbound \<Rightarrow> NatEngine_process_outbound e tuple now
      | Inbound \<Rightarrow> NatEngine_process_inbound e tuple now)"

section \<open>Collection of idle flows\<close>

text \<open>The body of \<open>for k in due\<close>, with the count of freed flows.\<close>

definition gc_step :: "u64 \<Rightarrow> u64 \<Rightarrow> nat_engine \<times> nat \<Rightarrow> five_tuple \<Rightarrow> (nat_engine \<times> nat) option" where
  "gc_step now timeout st k =
     (case st of (e, freed) \<Rightarrow>
        (case fmlookup (snat_fwd e) k of
           None \<Rightarrow> Some (e, freed)
         | Some b \<Rightarrow>
             (let rev_key = reply_tuple (nat_ip e) k (b_port b);
                  rev_seen = (case fmlookup (snat_rev e) rev_key of
                                None \<Rightarrow> last_seen b | Some rb \<Rightarrow> last_seen rb);
                  eff_last = max (last_seen b) rev_seen
              in if saturating_add eff_last timeout \<le> now then
                   Some (e \<lparr> snat_fwd := fmdrop k (snat_fwd e), snat_rev := fmdrop rev_key (snat_rev e),
                             used_ports := used_ports e - {b_port b} \<rparr>, freed + 1)
                 else do {
                   w \<leftarrow> TimingWheel_insert (wheel e) k (saturating_add eff_last timeout);
                   Some (e \<lparr> wheel := w \<rparr>, freed) })))"

fun gc_loop :: "u64 \<Rightarrow> u64 \<Rightarrow> nat_engine \<times> nat \<Rightarrow> five_tuple list \<Rightarrow> (nat_engine \<times> nat) option" where
  "gc_loop now timeout st [] = Some st"
| "gc_loop now timeout st (k # ks) = do { st \<leftarrow> gc_step now timeout st k; gc_loop now timeout st ks }"

text \<open>\<open>HashMap::retain\<close> on the value.\<close>

definition fm_retain :: "('v \<Rightarrow> bool) \<Rightarrow> ('k, 'v) fmap \<Rightarrow> ('k, 'v) fmap" where
  "fm_retain P m = fmfilter (\<lambda>k. case fmlookup m k of None \<Rightarrow> False | Some v \<Rightarrow> P v) m"

definition NatEngine_gc :: "nat_engine \<Rightarrow> u64 \<Rightarrow> u64 \<Rightarrow> (nat_engine \<times> nat) option" where
  "NatEngine_gc e now timeout = do {
     let e = e \<lparr> idle_timeout := timeout \<rparr>;
     (w, due) \<leftarrow> TimingWheel_advance (wheel e) now [];
     let e = e \<lparr> wheel := w \<rparr>;
     (e, freed) \<leftarrow> gc_loop now timeout (e, 0) due;
     let cutoff = saturating_sub now timeout;
     let e = e \<lparr> dnat_rev := fm_retain (\<lambda>b. cutoff \<le> last_seen b) (dnat_rev e) \<rparr>;
     Some (e \<lparr> stats := (stats e) \<lparr> expired := expired (stats e) + of_nat freed \<rparr> \<rparr>, freed) }"

end
