(* ===== verification/Nat_Inv.thy ===== *)
theory Nat_Inv
  imports Nat_Engine
begin

text \<open>
  Correctness of the connection tracker: the port allocator, the state invariant, its
  preservation by every operation, and the properties of the translation that follow.
\<close>

section \<open>Port allocator\<close>

definition ports_wf :: "nat_engine \<Rightarrow> bool" where
  "ports_wf e \<longleftrightarrow> port_min e \<le> port_max e \<and> ucast (port_min e) \<le> next_port e \<and>
     next_port e \<le> ucast (port_max e)"

lemma unat_u16_to_u32 [simp]: "unat (ucast (p :: u16) :: u32) = unat p"
  by (simp add: unat_ucast_up)

lemma ports_wf_nat:
  "ports_wf e \<longleftrightarrow> unat (port_min e) \<le> unat (port_max e) \<and> unat (port_min e) \<le> unat (next_port e) \<and>
     unat (next_port e) \<le> unat (port_max e)"
  by (simp add: ports_wf_def word_le_nat_alt)

lemma unat_next_port_u16: "ports_wf e \<Longrightarrow> unat (ucast (next_port e) :: u16) = unat (next_port e)"
  using unat_u16_less [of "port_max e"] by (simp add: ports_wf_nat unat_lo_u32)

text \<open>One iteration moves the cursor to the next port, wrapping at the end of the range.\<close>

definition cursor_next :: "nat_engine \<Rightarrow> nat_engine" where
  "cursor_next e = e \<lparr> next_port :=
     (if ucast (port_max e) < next_port e + 1 then ucast (port_min e) else next_port e + 1) \<rparr>"

lemma alloc_loop_Suc:
  "alloc_loop (Suc k) e =
     (if ucast (next_port e) \<notin> used_ports e
      then ((cursor_next e) \<lparr> used_ports := insert (ucast (next_port e)) (used_ports e) \<rparr>, Some (ucast (next_port e)))
      else alloc_loop k (cursor_next e))"
  by (simp add: cursor_next_def Let_def)

declare alloc_loop.simps(2) [simp del]

lemma cursor_next_wf:
  assumes "ports_wf e"
  shows "ports_wf (cursor_next e)"
    and "unat (next_port (cursor_next e)) - unat (port_min e) =
      (unat (next_port e) - unat (port_min e) + 1) mod (unat (port_max e) - unat (port_min e) + 1)"
proof -
  have b: "unat (port_min e) \<le> unat (next_port e)" "unat (next_port e) \<le> unat (port_max e)"
      "unat (port_max e) < 65536"
    using assms unat_u16_less [of "port_max e"] by (simp_all add: ports_wf_nat)
  then have n: "unat (next_port e + 1) = unat (next_port e) + 1" by (simp add: unat_word_ariths)
  show "ports_wf (cursor_next e)"
    using b n by (auto simp: ports_wf_nat cursor_next_def word_less_nat_alt)
  show "unat (next_port (cursor_next e)) - unat (port_min e) =
      (unat (next_port e) - unat (port_min e) + 1) mod (unat (port_max e) - unat (port_min e) + 1)"
  proof (cases "unat (next_port e) = unat (port_max e)")
    case True
    then show ?thesis using n by (simp add: cursor_next_def word_less_nat_alt)
  next
    case False
    then have "unat (next_port e) - unat (port_min e) + 1 < unat (port_max e) - unat (port_min e) + 1"
      using b by linarith
    then show ?thesis using False b n by (simp add: cursor_next_def word_less_nat_alt)
  qed
qed

lemma cursor_next_fields [simp]:
  "port_min (cursor_next e) = port_min e" "port_max (cursor_next e) = port_max e"
  "used_ports (cursor_next e) = used_ports e"
  by (simp_all add: cursor_next_def)

lemma of_nat_next_port: "of_nat (unat (w :: u32)) = (ucast w :: u16)"
  by (simp add: unsigned_ucast_eq word_unat_eq_iff unsigned_of_nat)

text \<open>The port a scan visits at its iteration \<open>i\<close>.\<close>

definition scan_port :: "nat_engine \<Rightarrow> nat \<Rightarrow> u16" where
  "scan_port e i = of_nat (unat (port_min e) + (unat (next_port e) - unat (port_min e) + i) mod
     (unat (port_max e) - unat (port_min e) + 1))"

lemma scan_port_0: "ports_wf e \<Longrightarrow> scan_port e 0 = ucast (next_port e)"
proof -
  assume "ports_wf e"
  then have "unat (port_min e) + (unat (next_port e) - unat (port_min e) + 0) mod
      (unat (port_max e) - unat (port_min e) + 1) = unat (next_port e)"
    by (auto simp: ports_wf_nat)
  then show ?thesis unfolding scan_port_def by (simp only: of_nat_next_port)
qed

lemma scan_port_Suc: "ports_wf e \<Longrightarrow> scan_port e (Suc i) = scan_port (cursor_next e) i"
proof -
  assume wf: "ports_wf e"
  let ?o = "unat (next_port e) - unat (port_min e)" and ?S = "unat (port_max e) - unat (port_min e) + 1"
  have "((?o + 1) mod ?S + i) mod ?S = (?o + 1 + i) mod ?S" by (simp only: mod_add_left_eq)
  then show ?thesis unfolding scan_port_def by (simp add: cursor_next_wf(2) [OF wf])
qed

lemma alloc_loop_spec:
  assumes "ports_wf e" and "alloc_loop k e = (e', r)"
  shows "ports_wf e' \<and>
    e' = e \<lparr> next_port := next_port e',
           used_ports := (case r of None \<Rightarrow> used_ports e | Some p \<Rightarrow> insert p (used_ports e)) \<rparr> \<and>
    (\<forall>p. r = Some p \<longrightarrow> p \<notin> used_ports e \<and> port_min e \<le> p \<and> p \<le> port_max e) \<and>
    (r = None \<longrightarrow> (\<forall>i<k. scan_port e i \<in> used_ports e))"
  using assms
proof (induction k arbitrary: e)
  case (Suc k)
  note c = cursor_next_wf(1) [OF Suc.prems(1)]
  show ?case
  proof (cases "ucast (next_port e) \<in> used_ports e")
    case False
    have "unat (ucast (next_port e) :: u16) = unat (next_port e)" using Suc.prems(1) by (rule unat_next_port_u16)
    then show ?thesis
      using Suc.prems False c
      by (auto simp: alloc_loop_Suc ports_wf_nat word_le_nat_alt cursor_next_def)
  next
    case True
    then have rec: "alloc_loop k (cursor_next e) = (e', r)" using Suc.prems(2) by (simp add: alloc_loop_Suc)
    note IH = Suc.IH [OF c rec, unfolded cursor_next_fields]
    from IH have e': "e' = (cursor_next e) \<lparr> next_port := next_port e',
        used_ports := (case r of None \<Rightarrow> used_ports e | Some p \<Rightarrow> insert p (used_ports e)) \<rparr>" by (elim conjE)
    have "e' = e \<lparr> next_port := next_port e',
        used_ports := (case r of None \<Rightarrow> used_ports e | Some p \<Rightarrow> insert p (used_ports e)) \<rparr>"
      by (subst e') (simp add: cursor_next_def)
    moreover have "scan_port e i \<in> used_ports e" if "r = None" "i < Suc k" for i
      using that IH True scan_port_0 [OF Suc.prems(1)] scan_port_Suc [OF Suc.prems(1)] by (cases i) auto
    ultimately show ?thesis using IH by auto
  qed
qed simp

text \<open>A full scan visits every port of the range.\<close>

lemma scan_port_surj:
  assumes "ports_wf e" and "port_min e \<le> q" and "q \<le> port_max e"
  shows "\<exists>i < unat (port_max e) - unat (port_min e) + 1. scan_port e i = q"
proof -
  let ?m = "unat (port_min e)" and ?o = "unat (next_port e) - unat (port_min e)"
  let ?S = "unat (port_max e) - unat (port_min e) + 1"
  let ?i = "(unat q - ?m + ?S - ?o) mod ?S"
  have b: "?m \<le> unat q" "unat q \<le> unat (port_max e)" "?o < ?S"
    using assms by (auto simp: ports_wf_nat word_le_nat_alt)
  have "(?o + ?i) mod ?S = (?o + (unat q - ?m + ?S - ?o)) mod ?S" by (simp only: mod_add_right_eq)
  also have "?o + (unat q - ?m + ?S - ?o) = unat q - ?m + ?S" using b by linarith
  also have "(unat q - ?m + ?S) mod ?S = unat q - ?m" using b by (subst mod_add_self2) simp
  finally have "scan_port e ?i = of_nat (?m + (unat q - ?m))" unfolding scan_port_def by simp
  then have "scan_port e ?i = q" using b by simp
  moreover have "?i < ?S" by simp
  ultimately show ?thesis by blast
qed

lemma alloc_span:
  assumes "ports_wf e"
  shows "unat ((ucast (port_max e - port_min e) :: u32) + 1) = unat (port_max e) - unat (port_min e) + 1"
proof -
  have "unat (port_max e - port_min e) = unat (port_max e) - unat (port_min e)"
    using assms by (simp add: ports_wf_def unat_sub)
  moreover have "unat (port_max e) < 65536" by (rule unat_u16_less)
  ultimately show ?thesis by (simp add: unat_word_ariths)
qed

lemma alloc_port_spec:
  assumes wf: "ports_wf e" and run: "NatEngine_alloc_port e pref = (e', r)"
  shows "ports_wf e'"
    and "e' = e \<lparr> next_port := next_port e',
           used_ports := (case r of None \<Rightarrow> used_ports e | Some p \<Rightarrow> insert p (used_ports e)) \<rparr>"
    and "\<And>p. r = Some p \<Longrightarrow> p \<notin> used_ports e \<and> port_min e \<le> p \<and> p \<le> port_max e"
    and "r = None \<longleftrightarrow> {port_min e..port_max e} \<subseteq> used_ports e"
    and "port_min e \<le> pref \<Longrightarrow> pref \<le> port_max e \<Longrightarrow> pref \<notin> used_ports e \<Longrightarrow> r = Some pref"
proof -
  let ?P = "port_min e \<le> pref \<and> pref \<le> port_max e \<and> pref \<notin> used_ports e"
  let ?S = "unat (port_max e) - unat (port_min e) + 1"
  have scan: "alloc_loop ?S e = (e', r)" if "\<not> ?P"
    using that run by (simp add: NatEngine_alloc_port_def alloc_span [OF wf] split: if_splits)
  have pref: "e' = e \<lparr> used_ports := insert pref (used_ports e) \<rparr>" "r = Some pref" if ?P
    using that run by (simp_all add: NatEngine_alloc_port_def)
  note loop = alloc_loop_spec [OF wf scan]
  have all: "ports_wf e' \<and> e' = e \<lparr> next_port := next_port e',
           used_ports := (case r of None \<Rightarrow> used_ports e | Some p \<Rightarrow> insert p (used_ports e)) \<rparr> \<and>
         (\<forall>p. r = Some p \<longrightarrow> p \<notin> used_ports e \<and> port_min e \<le> p \<and> p \<le> port_max e)"
  proof (cases ?P)
    case True
    then show ?thesis using wf by (simp add: pref ports_wf_def)
  next
    case False
    then show ?thesis using loop by blast
  qed
  then show "ports_wf e'" "e' = e \<lparr> next_port := next_port e',
           used_ports := (case r of None \<Rightarrow> used_ports e | Some p \<Rightarrow> insert p (used_ports e)) \<rparr>" by blast+
  show some: "p \<notin> used_ports e \<and> port_min e \<le> p \<and> p \<le> port_max e" if "r = Some p" for p
    using all that by blast
  show "r = Some pref" if "port_min e \<le> pref" "pref \<le> port_max e" "pref \<notin> used_ports e"
    using that pref by simp
  show "r = None \<longleftrightarrow> {port_min e..port_max e} \<subseteq> used_ports e"
  proof
    assume none: "r = None"
    then have "\<not> ?P" using pref by auto
    then have "\<forall>i < ?S. scan_port e i \<in> used_ports e" using loop none by blast
    then show "{port_min e..port_max e} \<subseteq> used_ports e" using scan_port_surj [OF wf] by fastforce
  next
    assume "{port_min e..port_max e} \<subseteq> used_ports e"
    then show "r = None" using some by (cases r) auto
  qed
qed

section \<open>State invariant\<close>

text \<open>The endpoints a connection table tracks, without the time stamps.\<close>

definition ends :: "conntrack \<Rightarrow> five_tuple \<Rightarrow> (ipv4addr \<times> u16) option" where
  "ends F k = map_option (\<lambda>b. (b_ip b, b_port b)) (fmlookup F k)"

lemma ends_simps [simp]:
  "ends fmempty = (\<lambda>_. None)"
  "ends (fmupd k b F) = (ends F)(k \<mapsto> (b_ip b, b_port b))"
  "ends (fmdrop k F) = (ends F)(k := None)"
  by (auto simp: ends_def)

lemma ends_touch [simp]:
  "fmlookup F k = Some b \<Longrightarrow> (ends F)(k \<mapsto> (b_ip b, b_port b)) = ends F"
  by (auto simp: ends_def)

lemma ends_SomeI: "fmlookup F k = Some b \<Longrightarrow> ends F k = Some (b_ip b, b_port b)"
  by (simp add: ends_def)

lemma ends_SomeD: "ends F k = Some v \<Longrightarrow> \<exists>b. fmlookup F k = Some b \<and> v = (b_ip b, b_port b)"
  by (auto simp: ends_def)

lemma ends_None [simp]: "ends F k = None \<longleftrightarrow> fmlookup F k = None"
  by (simp add: ends_def)

text \<open>The forward table, the reverse table and the set of used ports describe the same flows:
  a port belongs to one flow, the reply tuple of each flow is tracked back to its private
  endpoint, and nothing else is tracked.\<close>

definition flows_ok ::
    "ipv4addr \<Rightarrow> u16 set \<Rightarrow> (five_tuple \<Rightarrow> (ipv4addr \<times> u16) option) \<Rightarrow> (five_tuple \<Rightarrow> (ipv4addr \<times> u16) option) \<Rightarrow> bool"
  where
  "flows_ok ip U f g \<longleftrightarrow>
     (\<forall>p. p \<in> U \<longleftrightarrow> (\<exists>k. f k = Some (ip, p))) \<and>
     (\<forall>k k' p. f k = Some (ip, p) \<longrightarrow> f k' = Some (ip, p) \<longrightarrow> k = k') \<and>
     (\<forall>k i p. f k = Some (i, p) \<longrightarrow> i = ip \<and> g (reply_tuple ip k p) = Some (src_ip k, src_port k)) \<and>
     (\<forall>r v. g r = Some v \<longrightarrow> (\<exists>k p. f k = Some (ip, p) \<and> r = reply_tuple ip k p))"

definition dnat_ok :: "ipv4addr \<Rightarrow> dnat_rule list \<Rightarrow> conntrack \<Rightarrow> bool" where
  "dnat_ok ip rules D \<longleftrightarrow> fcard (fmdom D) \<le> MAX_DNAT_BINDINGS \<and>
     (\<forall>t i p. ends D t = Some (i, p) \<longrightarrow> i = ip \<and>
        (\<exists>rule \<in> set rules. rule_protocol rule = protocol t \<and> ext_port rule = p \<and>
           to_ip rule = src_ip t \<and> to_port rule = src_port t))"

text \<open>The invariant of the engine; each flow has exactly one entry in the wheel.\<close>

definition nat_inv :: "nat_engine \<Rightarrow> bool" where
  "nat_inv e \<longleftrightarrow> ports_wf e \<and> used_ports e \<subseteq> {port_min e..port_max e} \<and>
     flows_ok (nat_ip e) (used_ports e) (ends (snat_fwd e)) (ends (snat_rev e)) \<and>
     wheel_wf (wheel e) \<and> entries (wheel e) = mset_set (fset (fmdom (snat_fwd e))) \<and>
     dnat_ok (nat_ip e) (dnat_rules e) (dnat_rev e)"

lemma reply_tuple_port: "reply_tuple ip k p = reply_tuple ip k' p' \<Longrightarrow> p = p'"
  by (simp add: reply_tuple_def)

lemma flows_ok_empty: "flows_ok ip {} (\<lambda>_. None) (\<lambda>_. None)"
  by (simp add: flows_ok_def)

lemma flows_okD:
  assumes "flows_ok ip U f g" and "f k = Some (i, p)"
  shows "p \<in> U" "i = ip" "g (reply_tuple ip k p) = Some (src_ip k, src_port k)"
  using assms unfolding flows_ok_def by blast+

lemma flows_ok_inj: "flows_ok ip U f g \<Longrightarrow> f k = Some (i, p) \<Longrightarrow> f k' = Some (i', p) \<Longrightarrow> k = k'"
  unfolding flows_ok_def by blast

lemma flows_okR:
  assumes ok: "flows_ok ip U f g" and r: "g r = Some v"
  shows "\<exists>k p. f k = Some (ip, p) \<and> r = reply_tuple ip k p \<and> v = (src_ip k, src_port k)"
proof -
  obtain k p where "f k = Some (ip, p)" "r = reply_tuple ip k p"
    using ok r unfolding flows_ok_def by blast
  then show ?thesis using flows_okD(3) [OF ok] r by auto
qed

lemma flows_okU: "flows_ok ip U f g \<Longrightarrow> p \<in> U \<Longrightarrow> \<exists>k. f k = Some (ip, p)"
  unfolding flows_ok_def by blast

lemma flows_ok_add:
  assumes ok: "flows_ok ip U f g" and k: "f k = None" and p: "p \<notin> U"
  shows "flows_ok ip (insert p U) (f(k \<mapsto> (ip, p))) (g(reply_tuple ip k p \<mapsto> (src_ip k, src_port k)))"
proof -
  have np: "q \<noteq> p" if "f k' = Some (i, q)" for k' i q using flows_okD(1) [OF ok that] p by blast
  then have nr: "reply_tuple ip k' q \<noteq> reply_tuple ip k p" if "f k' = Some (i, q)" for k' i q
    using that reply_tuple_port by blast
  have U: "q \<in> U \<longleftrightarrow> (\<exists>k. f k = Some (ip, q))" for q
    using ok unfolding flows_ok_def by blast
  show ?thesis
    unfolding flows_ok_def
  proof (intro conjI allI impI)
    fix q show "q \<in> insert p U \<longleftrightarrow> (\<exists>k'. (f(k \<mapsto> (ip, p))) k' = Some (ip, q))"
    proof
      assume "q \<in> insert p U"
      then consider "q = p" | k' where "f k' = Some (ip, q)" using U by auto
      then show "\<exists>k'. (f(k \<mapsto> (ip, p))) k' = Some (ip, q)"
      proof cases
        case (2 k')
        then show ?thesis using k by (intro exI [of _ k']) auto
      qed auto
    qed (use U in \<open>auto split: if_splits\<close>)
  next
    fix k1 k2 q assume "(f(k \<mapsto> (ip, p))) k1 = Some (ip, q)" "(f(k \<mapsto> (ip, p))) k2 = Some (ip, q)"
    then show "k1 = k2" using np flows_ok_inj [OF ok] by (auto split: if_splits)
  next
    fix k1 i q assume l: "(f(k \<mapsto> (ip, p))) k1 = Some (i, q)"
    then show "i = ip" using flows_okD(2) [OF ok] by (auto split: if_splits)
    from l show "(g(reply_tuple ip k p \<mapsto> (src_ip k, src_port k))) (reply_tuple ip k1 q) = Some (src_ip k1, src_port k1)"
      using flows_okD(3) [OF ok] nr by (auto split: if_splits)
  next
    fix r v assume r: "(g(reply_tuple ip k p \<mapsto> (src_ip k, src_port k))) r = Some v"
    show "\<exists>k' q. (f(k \<mapsto> (ip, p))) k' = Some (ip, q) \<and> r = reply_tuple ip k' q"
    proof (cases "r = reply_tuple ip k p")
      case True
      then show ?thesis by (intro exI [of _ k] exI [of _ p]) simp
    next
      case False
      then obtain k' q where "f k' = Some (ip, q)" "r = reply_tuple ip k' q"
        using r flows_okR [OF ok, of r v] by auto
      then show ?thesis using k by (intro exI [of _ k'] exI [of _ q]) auto
    qed
  qed
qed

lemma flows_ok_remove:
  assumes ok: "flows_ok ip U f g" and k: "f k = Some (i, p)"
  shows "flows_ok ip (U - {p}) (f(k := None)) (g(reply_tuple ip k p := None))"
proof -
  have inj: "q \<noteq> p" if "f k' = Some (j, q)" "k' \<noteq> k" for k' j q
    using flows_ok_inj [OF ok that(1)] k that(2) by blast
  then have nr: "reply_tuple ip k' q \<noteq> reply_tuple ip k p" if "f k' = Some (j, q)" "k' \<noteq> k" for k' j q
    using that reply_tuple_port by blast
  have U: "q \<in> U \<longleftrightarrow> (\<exists>k. f k = Some (ip, q))" for q
    using ok unfolding flows_ok_def by blast
  show ?thesis
    unfolding flows_ok_def
  proof (intro conjI allI impI)
    fix q show "q \<in> U - {p} \<longleftrightarrow> (\<exists>k'. (f(k := None)) k' = Some (ip, q))"
    proof
      assume "q \<in> U - {p}"
      then obtain k' where k': "f k' = Some (ip, q)" "q \<noteq> p" using U by auto
      then have "k' \<noteq> k" using k by auto
      with k' show "\<exists>k'. (f(k := None)) k' = Some (ip, q)" by auto
    qed (use U inj in \<open>auto split: if_splits\<close>)
  next
    fix k1 k2 q assume "(f(k := None)) k1 = Some (ip, q)" "(f(k := None)) k2 = Some (ip, q)"
    then show "k1 = k2" using flows_ok_inj [OF ok] by (auto split: if_splits)
  next
    fix k1 j q assume l: "(f(k := None)) k1 = Some (j, q)"
    then show "j = ip" using flows_okD(2) [OF ok] by (auto split: if_splits)
    from l show "(g(reply_tuple ip k p := None)) (reply_tuple ip k1 q) = Some (src_ip k1, src_port k1)"
      using flows_okD(3) [OF ok] nr by (auto split: if_splits)
  next
    fix r v assume "(g(reply_tuple ip k p := None)) r = Some v"
    then obtain k' q where k': "f k' = Some (ip, q)" "r = reply_tuple ip k' q" "r \<noteq> reply_tuple ip k p"
      using flows_okR [OF ok, of r v] by (auto split: if_splits)
    then have "k' \<noteq> k" using k by auto
    with k' show "\<exists>k' q. (f(k := None)) k' = Some (ip, q) \<and> r = reply_tuple ip k' q" by auto
  qed
qed

section \<open>Preservation by construction and by the translation\<close>

lemma alloc_port_cases:
  assumes "ports_wf e"
  obtains (full) np where "NatEngine_alloc_port e pref = (e \<lparr> next_port := np \<rparr>, None)"
      "ports_wf (e \<lparr> next_port := np \<rparr>)" "{port_min e..port_max e} \<subseteq> used_ports e"
    | (free) np p where "NatEngine_alloc_port e pref =
        (e \<lparr> next_port := np, used_ports := insert p (used_ports e) \<rparr>, Some p)"
      "ports_wf (e \<lparr> next_port := np, used_ports := insert p (used_ports e) \<rparr>)"
      "p \<notin> used_ports e" "port_min e \<le> p" "p \<le> port_max e"
proof -
  obtain e' r where run: "NatEngine_alloc_port e pref = (e', r)" by fastforce
  note spec = alloc_port_spec [OF assms run]
  show thesis
  proof (cases r)
    case None
    have "e' = e \<lparr> next_port := next_port e' \<rparr>" using spec(2) None by simp
    then show thesis using full [of "next_port e'"] run None spec(1,4) by simp
  next
    case (Some p)
    have "e' = e \<lparr> next_port := next_port e', used_ports := insert p (used_ports e) \<rparr>"
      using spec(2) Some by simp
    then show thesis using free [of p "next_port e'"] run Some spec(1) spec(3) [OF Some] by simp
  qed
qed

lemma nat_inv_new:
  assumes "NatEngine_new ip pmin pmax = Some e"
  shows "nat_inv e"
proof -
  have le: "pmin \<le> pmax" using assms by (auto simp: NatEngine_new_def split: if_splits)
  have "entries \<lparr> slots = replicate 256 [], tick = 1000, wheel_now = 0 \<rparr> = {#}"
    by (simp add: entries_def)
  then show ?thesis
    using assms le
    by (auto simp: NatEngine_new_def TimingWheel_new_def nat_inv_def ports_wf_nat word_le_nat_alt flows_ok_empty
        wheel_wf_def dnat_ok_def fcard_fempty)
qed

lemma nat_inv_add_dnat_rule: "nat_inv e \<Longrightarrow> nat_inv (NatEngine_add_dnat_rule e rule)"
  by (fastforce simp: nat_inv_def NatEngine_add_dnat_rule_def ports_wf_def dnat_ok_def)

lemma nat_inv_set_idle_timeout: "nat_inv e \<Longrightarrow> nat_inv (NatEngine_set_idle_timeout e t)"
  by (simp add: nat_inv_def NatEngine_set_idle_timeout_def ports_wf_def)

lemma fmdom_touch [simp]: "fmlookup m k = Some v \<Longrightarrow> finsert k (fmdom m) = fmdom m"
  by (auto intro: fmdomI)

lemma nat_inv_outbound:
  assumes inv: "nat_inv e"
  shows "\<exists>e' rw. NatEngine_process_outbound e t now = Some (e', rw) \<and> nat_inv e' \<and> nat_ip e' = nat_ip e"
proof (cases "fmlookup (dnat_rev e) t")
  case (Some b)
  then show ?thesis using inv by (simp add: NatEngine_process_outbound_def nat_inv_def ports_wf_def dnat_ok_def)
next
  case None
  note dn = None
  show ?thesis
  proof (cases "fmlookup (snat_fwd e) t")
    case (Some b)
    then show ?thesis using dn inv by (simp add: NatEngine_process_outbound_def nat_inv_def ports_wf_def)
  next
    case None
    have wf: "ports_wf e" using inv by (simp add: nat_inv_def)
    show ?thesis
    proof (cases rule: alloc_port_cases [OF wf, of "src_port t"])
      case (1 np)
      show ?thesis
        using 1(1,2) dn None inv by (simp add: NatEngine_process_outbound_def nat_inv_def ports_wf_def)
    next
      case (2 np p)
      have wh: "wheel_wf (wheel e)" using inv by (simp add: nat_inv_def)
      obtain w where w: "TimingWheel_insert (wheel e) t (saturating_add now (idle_timeout e)) = Some w" "wheel_wf w"
          "entries w = entries (wheel e) + {#t#}"
        using tw.ins_law [OF wh] by blast
      have "flows_ok (nat_ip e) (insert p (used_ports e)) ((ends (snat_fwd e))(t \<mapsto> (nat_ip e, p)))
          ((ends (snat_rev e))(reply_tuple (nat_ip e) t p \<mapsto> (src_ip t, src_port t)))"
        using inv None 2(3) by (intro flows_ok_add) (simp_all add: nat_inv_def)
      moreover have "t |\<notin>| fmdom (snat_fwd e)" using None by (simp add: fmdom_notI)
      ultimately show ?thesis
        using dn None 2 w inv by (simp add: NatEngine_process_outbound_def nat_inv_def ports_wf_def)
    qed
  qed
qed

lemma nat_inv_inbound:
  assumes inv: "nat_inv e"
  shows "\<exists>e' rw. NatEngine_process_inbound e t now = Some (e', rw) \<and> nat_inv e' \<and> nat_ip e' = nat_ip e"
proof (cases "fmlookup (snat_rev e) t")
  case (Some b)
  then show ?thesis using inv by (simp add: NatEngine_process_inbound_def nat_inv_def ports_wf_def)
next
  case None
  note rv = None
  let ?find = "find (\<lambda>r. rule_protocol r = protocol t \<and> ext_port r = dst_port t) (dnat_rules e)"
  show ?thesis
  proof (cases "dst_ip t = nat_ip e \<and> fcard (fmdom (dnat_rev e)) < MAX_DNAT_BINDINGS \<and> ?find \<noteq> None")
    case False
    then show ?thesis using rv inv by (auto simp: NatEngine_process_inbound_def Let_def split: option.splits)
  next
    case True
    then obtain rule where f: "?find = Some rule" by auto
    then have rule: "rule \<in> set (dnat_rules e)" "rule_protocol rule = protocol t"
      by (auto simp: find_Some_iff)
    let ?r = "\<lparr> src_ip = to_ip rule, dst_ip = src_ip t, protocol = protocol t, src_port = to_port rule,
      dst_port = src_port t \<rparr>"
    let ?D = "fmupd ?r \<lparr> b_ip = nat_ip e, b_port = ext_port rule, last_seen = now \<rparr> (dnat_rev e)"
    have "fcard (fmdom ?D) \<le> Suc (fcard (fmdom (dnat_rev e)))" by (simp add: fcard_finsert_if)
    then have "dnat_ok (nat_ip e) (dnat_rules e) ?D"
      using True inv rule unfolding nat_inv_def dnat_ok_def by (auto split: if_splits)
    then show ?thesis
      using rv True f inv by (simp add: NatEngine_process_inbound_def Let_def nat_inv_def ports_wf_def)
  qed
qed

section \<open>Preservation by the collector\<close>

text \<open>A flow's last activity in either direction, and the flows \<open>gc\<close> finds idle.\<close>

definition eff_last :: "nat_engine \<Rightarrow> five_tuple \<Rightarrow> binding \<Rightarrow> u64" where
  "eff_last e k b = max (last_seen b)
     (case fmlookup (snat_rev e) (reply_tuple (nat_ip e) k (b_port b)) of
        None \<Rightarrow> last_seen b | Some rb \<Rightarrow> last_seen rb)"

definition idle_flow :: "nat_engine \<Rightarrow> u64 \<Rightarrow> u64 \<Rightarrow> five_tuple \<Rightarrow> bool" where
  "idle_flow e now timeout k \<longleftrightarrow>
     (case fmlookup (snat_fwd e) k of None \<Rightarrow> False
      | Some b \<Rightarrow> saturating_add (eff_last e k b) timeout \<le> now)"

text \<open>The invariant in the middle of the loop: the keys that are left have no wheel entry.\<close>

definition gc_inv :: "nat_engine \<Rightarrow> five_tuple list \<Rightarrow> bool" where
  "gc_inv e ks \<longleftrightarrow> ports_wf e \<and> used_ports e \<subseteq> {port_min e..port_max e} \<and>
     flows_ok (nat_ip e) (used_ports e) (ends (snat_fwd e)) (ends (snat_rev e)) \<and>
     wheel_wf (wheel e) \<and> entries (wheel e) = mset_set (fset (fmdom (snat_fwd e)) - set ks) \<and>
     distinct ks \<and> set ks \<subseteq> fset (fmdom (snat_fwd e)) \<and>
     dnat_ok (nat_ip e) (dnat_rules e) (dnat_rev e)"

text \<open>The part of the state the loop does not touch.\<close>

definition gc_frame :: "nat_engine \<Rightarrow> nat_engine \<Rightarrow> bool" where
  "gc_frame e e' \<longleftrightarrow> nat_ip e' = nat_ip e \<and> port_min e' = port_min e \<and> port_max e' = port_max e \<and>
     next_port e' = next_port e \<and> dnat_rules e' = dnat_rules e \<and> dnat_rev e' = dnat_rev e \<and>
     idle_timeout e' = idle_timeout e \<and> stats e' = stats e"

lemma gc_step_spec:
  assumes inv: "gc_inv e (k # ks)"
  shows "\<exists>e'. gc_step now timeout (e, freed) k = Some (e', freed + (if idle_flow e now timeout k then 1 else 0)) \<and>
    gc_inv e' ks \<and> gc_frame e e' \<and>
    snat_fwd e' = (if idle_flow e now timeout k then fmdrop k (snat_fwd e) else snat_fwd e) \<and>
    snat_rev e' = (if idle_flow e now timeout k then
      fmdrop (reply_tuple (nat_ip e) k (b_port (the (fmlookup (snat_fwd e) k)))) (snat_rev e) else snat_rev e)"
proof -
  let ?dom = "fset (fmdom (snat_fwd e))"
  have kd: "k \<in> ?dom" "k \<notin> set ks" using inv by (auto simp: gc_inv_def)
  then obtain b where b: "fmlookup (snat_fwd e) k = Some b" by (meson fmlookup_dom_iff)
  show ?thesis
  proof (cases "idle_flow e now timeout k")
    case True
    then have idle: "saturating_add (eff_last e k b) timeout \<le> now" using b by (simp add: idle_flow_def)
    have "flows_ok (nat_ip e) (used_ports e - {b_port b}) ((ends (snat_fwd e))(k := None))
        ((ends (snat_rev e))(reply_tuple (nat_ip e) k (b_port b) := None))"
      using inv ends_SomeI [OF b] by (intro flows_ok_remove) (simp_all add: gc_inv_def)
    moreover have "?dom - {k} - set ks = ?dom - set (k # ks)" by auto
    ultimately show ?thesis
      using inv True b idle kd
      by (auto simp: gc_step_def eff_last_def gc_inv_def gc_frame_def ports_wf_def Let_def)
  next
    case False
    then have busy: "\<not> saturating_add (eff_last e k b) timeout \<le> now" using b by (simp add: idle_flow_def)
    have wh: "wheel_wf (wheel e)" using inv by (simp add: gc_inv_def)
    obtain w where w: "TimingWheel_insert (wheel e) k (saturating_add (eff_last e k b) timeout) = Some w" "wheel_wf w"
        "entries w = entries (wheel e) + {#k#}"
      using tw.ins_law [OF wh] by blast
    have "entries w = add_mset k (mset_set (?dom - set (k # ks)))" using w(3) inv by (simp add: gc_inv_def)
    also have "\<dots> = mset_set (insert k (?dom - set (k # ks)))" by (subst mset_set.insert) auto
    also have "insert k (?dom - set (k # ks)) = ?dom - set ks" using kd by auto
    finally have "entries w = mset_set (?dom - set ks)" .
    then show ?thesis
      using inv False b busy w(1,2)
      by (simp add: gc_step_def eff_last_def gc_inv_def gc_frame_def ports_wf_def Let_def)
  qed
qed

lemma gc_frame_trans: "gc_frame e e' \<Longrightarrow> gc_frame e' e'' \<Longrightarrow> gc_frame e e''"
  by (simp add: gc_frame_def)

lemma reply_ne:
  assumes "flows_ok ip U (ends F) g" and "fmlookup F k = Some b" and "fmlookup F k' = Some b'" and "k \<noteq> k'"
  shows "reply_tuple ip k (b_port b) \<noteq> reply_tuple ip k' (b_port b')"
  using flows_ok_inj [OF assms(1) ends_SomeI [OF assms(2)]] ends_SomeI [OF assms(3)] assms(4) reply_tuple_port
  by metis

lemma idle_other:
  assumes ok: "flows_ok (nat_ip e) U (ends (snat_fwd e)) g" and k: "fmlookup (snat_fwd e) k = Some b" and ne: "k' \<noteq> k"
    and e1: "nat_ip e1 = nat_ip e" "snat_fwd e1 = fmdrop k (snat_fwd e)"
      "snat_rev e1 = fmdrop (reply_tuple (nat_ip e) k (b_port b)) (snat_rev e)"
  shows "idle_flow e1 now timeout k' = idle_flow e now timeout k'"
proof (cases "fmlookup (snat_fwd e) k'")
  case (Some b')
  have "reply_tuple (nat_ip e) k' (b_port b') \<noteq> reply_tuple (nat_ip e) k (b_port b)"
    using reply_ne [OF ok Some k ne] .
  then show ?thesis using Some ne by (simp add: idle_flow_def eff_last_def e1)
qed (use ne in \<open>simp add: idle_flow_def e1\<close>)

lemma evicted_rev:
  assumes ok: "flows_ok ip U (ends F) g" and ok': "flows_ok ip U' (ends F') (ends R')"
    and b: "fmlookup F k = Some b" and gone: "fmlookup F' k = None"
    and sub: "\<And>k'. fmlookup F' k' = None \<or> fmlookup F' k' = fmlookup F k'"
  shows "fmlookup R' (reply_tuple ip k (b_port b)) = None"
proof (rule ccontr)
  assume "fmlookup R' (reply_tuple ip k (b_port b)) \<noteq> None"
  then obtain v where "ends R' (reply_tuple ip k (b_port b)) = Some v" by (metis ends_None not_None_eq)
  then obtain k' p where k': "ends F' k' = Some (ip, p)" "reply_tuple ip k (b_port b) = reply_tuple ip k' p"
    using flows_okR [OF ok'] by blast
  have "ends F k' = Some (ip, b_port b)"
    using k' sub [of k'] reply_tuple_port [OF k'(2)] by (auto simp: ends_def)
  then have "k' = k" using flows_ok_inj [OF ok _ ends_SomeI [OF b]] by blast
  then show False using k'(1) gone by (simp add: ends_def)
qed

lemma gc_loop_spec:
  assumes "gc_inv e ks"
  shows "\<exists>e'. gc_loop now timeout (e, freed) ks =
      Some (e', freed + length (filter (idle_flow e now timeout) ks)) \<and> gc_inv e' [] \<and> gc_frame e e' \<and>
    (\<forall>k. fmlookup (snat_fwd e') k =
      (if k \<in> set ks \<and> idle_flow e now timeout k then None else fmlookup (snat_fwd e) k)) \<and>
    (\<forall>k b. fmlookup (snat_fwd e) k = Some b \<longrightarrow>
      fmlookup (snat_rev e') (reply_tuple (nat_ip e) k (b_port b)) =
        (if k \<in> set ks \<and> idle_flow e now timeout k then None
         else fmlookup (snat_rev e) (reply_tuple (nat_ip e) k (b_port b))))"
  using assms
proof (induction ks arbitrary: e freed)
  case Nil
  then show ?case by (simp add: gc_frame_def)
next
  case (Cons k ks)
  let ?idle = "idle_flow e now timeout"
  have kd: "k \<in> fset (fmdom (snat_fwd e))" "k \<notin> set ks" using Cons.prems by (auto simp: gc_inv_def)
  then obtain b where b: "fmlookup (snat_fwd e) k = Some b" by (meson fmlookup_dom_iff)
  have ok: "flows_ok (nat_ip e) (used_ports e) (ends (snat_fwd e)) (ends (snat_rev e))"
    using Cons.prems by (simp add: gc_inv_def)
  obtain e1 where s1: "gc_step now timeout (e, freed) k = Some (e1, freed + (if ?idle k then 1 else 0))"
      "gc_inv e1 ks" "gc_frame e e1"
    and f1: "snat_fwd e1 = (if ?idle k then fmdrop k (snat_fwd e) else snat_fwd e)"
    and r1: "snat_rev e1 = (if ?idle k then fmdrop (reply_tuple (nat_ip e) k (b_port b)) (snat_rev e) else snat_rev e)"
    using gc_step_spec [OF Cons.prems, of now timeout freed] b by auto
  have ip: "nat_ip e1 = nat_ip e" using s1(3) by (simp add: gc_frame_def)
  have same: "idle_flow e1 now timeout k' = ?idle k'" if "k' \<noteq> k" for k'
  proof (cases "?idle k")
    case True
    then show ?thesis using idle_other [OF ok b that ip] f1 r1 by simp
  next
    case False
    then have "eff_last e1 = eff_last e" using r1 ip by (intro ext) (simp add: eff_last_def)
    then show ?thesis using False f1 by (simp add: idle_flow_def split: option.split)
  qed
  have flt: "filter (idle_flow e1 now timeout) ks = filter ?idle ks"
    using kd(2) by (intro filter_cong refl same) auto
  obtain e2 where s2: "gc_loop now timeout (e1, freed + (if ?idle k then 1 else 0)) ks =
        Some (e2, freed + (if ?idle k then 1 else 0) + length (filter ?idle ks))" "gc_inv e2 []" "gc_frame e1 e2"
    and f2: "\<forall>k'. fmlookup (snat_fwd e2) k' =
      (if k' \<in> set ks \<and> idle_flow e1 now timeout k' then None else fmlookup (snat_fwd e1) k')"
    and r2: "\<forall>k' b'. fmlookup (snat_fwd e1) k' = Some b' \<longrightarrow>
      fmlookup (snat_rev e2) (reply_tuple (nat_ip e) k' (b_port b')) =
        (if k' \<in> set ks \<and> idle_flow e1 now timeout k' then None
         else fmlookup (snat_rev e1) (reply_tuple (nat_ip e) k' (b_port b')))"
    using Cons.IH [OF s1(2), of "freed + (if ?idle k then 1 else 0)"] unfolding flt ip by blast
  have fwd: "fmlookup (snat_fwd e2) k' = (if k' \<in> set (k # ks) \<and> ?idle k' then None else fmlookup (snat_fwd e) k')" for k'
    using f2 [rule_format, of k'] f1 same [of k'] kd(2) by (cases "k' = k") auto
  have rev: "fmlookup (snat_rev e2) (reply_tuple (nat_ip e) k' (b_port b')) =
      (if k' \<in> set (k # ks) \<and> ?idle k' then None else fmlookup (snat_rev e) (reply_tuple (nat_ip e) k' (b_port b')))"
    if b': "fmlookup (snat_fwd e) k' = Some b'" for k' b'
  proof (cases "k' = k")
    case True
    show ?thesis
    proof (cases "?idle k")
      case False
      then show ?thesis using r2 [rule_format, of k b'] b' f1 r1 True kd(2) by simp
    next
      case idle: True
      have "fmlookup (snat_rev e2) (reply_tuple (nat_ip e) k (b_port b)) = None"
      proof (rule evicted_rev [OF ok _ b])
        show "flows_ok (nat_ip e) (used_ports e2) (ends (snat_fwd e2)) (ends (snat_rev e2))"
          using s2(2,3) ip by (simp add: gc_inv_def gc_frame_def)
      qed (use fwd idle in auto)
      then show ?thesis using True idle b' b by simp
    qed
  next
    case False
    then have "fmlookup (snat_fwd e1) k' = Some b'" using b' f1 by simp
    moreover have "fmlookup (snat_rev e1) (reply_tuple (nat_ip e) k' (b_port b')) =
        fmlookup (snat_rev e) (reply_tuple (nat_ip e) k' (b_port b'))"
      using r1 reply_ne [OF ok b' b False] by simp
    ultimately show ?thesis using r2 same [OF False] False by simp
  qed
  have "gc_loop now timeout (e, freed) (k # ks) = Some (e2, freed + length (filter ?idle (k # ks)))"
    using s1(1) s2(1) by (auto simp: ac_simps)
  then show ?case
    using s2(2) gc_frame_trans [OF s1(3) s2(3)] fwd rev by blast
qed

lemma fmlookup_fm_retain:
  "fmlookup (fm_retain P m) k = (case fmlookup m k of None \<Rightarrow> None | Some v \<Rightarrow> if P v then Some v else None)"
  by (simp add: fm_retain_def split: option.split)

lemma dnat_ok_retain: "dnat_ok ip rules D \<Longrightarrow> dnat_ok ip rules (fm_retain P D)"
proof -
  assume ok: "dnat_ok ip rules D"
  have "fmdom (fm_retain P D) |\<subseteq>| fmdom D" by (auto simp: fm_retain_def)
  then have "fcard (fmdom (fm_retain P D)) \<le> fcard (fmdom D)" by (rule fcard_mono)
  moreover have "ends (fm_retain P D) t = Some v \<Longrightarrow> ends D t = Some v" for t v
    by (auto simp: ends_def fmlookup_fm_retain split: option.splits if_splits)
  ultimately show ?thesis using ok unfolding dnat_ok_def by (meson le_trans)
qed

lemma gc_spec:
  assumes inv: "nat_inv e"
  shows "\<exists>w due e'. TimingWheel_advance (wheel e) now [] = Some (w, due) \<and>
    NatEngine_gc e now timeout = Some (e', length (filter (idle_flow e now timeout) due)) \<and>
    nat_inv e' \<and> nat_ip e' = nat_ip e \<and> distinct due \<and> set due \<subseteq> fset (fmdom (snat_fwd e)) \<and>
    (\<forall>k. fmlookup (snat_fwd e') k =
      (if k \<in> set due \<and> idle_flow e now timeout k then None else fmlookup (snat_fwd e) k)) \<and>
    (\<forall>k b. fmlookup (snat_fwd e) k = Some b \<longrightarrow>
      fmlookup (snat_rev e') (reply_tuple (nat_ip e) k (b_port b)) =
        (if k \<in> set due \<and> idle_flow e now timeout k then None
         else fmlookup (snat_rev e) (reply_tuple (nat_ip e) k (b_port b)))) \<and>
    dnat_rev e' = fm_retain (\<lambda>b. saturating_sub now timeout \<le> last_seen b) (dnat_rev e)"
proof -
  let ?A = "fset (fmdom (snat_fwd e))"
  have wh: "wheel_wf (wheel e)" and en: "entries (wheel e) = mset_set ?A" using inv by (simp_all add: nat_inv_def)
  obtain w due where w: "TimingWheel_advance (wheel e) now [] = Some (w, due)" "wheel_wf w" "distinct due"
      "set due \<subseteq> ?A" "entries w = mset_set (?A - set due)"
    by (rule tw.adv_distinct [OF wh en, of now]) simp
  let ?e = "e \<lparr> idle_timeout := timeout, wheel := w \<rparr>"
  have gi: "gc_inv ?e due" using inv w by (simp add: nat_inv_def gc_inv_def ports_wf_def)
  have idle: "idle_flow ?e now timeout = idle_flow e now timeout"
    by (intro ext) (simp add: idle_flow_def eff_last_def split: option.split)
  have upd: "snat_fwd ?e = snat_fwd e" "snat_rev ?e = snat_rev e" "nat_ip ?e = nat_ip e" by simp_all
  obtain e1 where l: "gc_loop now timeout (?e, 0) due = Some (e1, length (filter (idle_flow e now timeout) due))"
      "gc_inv e1 []" "gc_frame ?e e1"
    and f: "\<forall>k. fmlookup (snat_fwd e1) k =
      (if k \<in> set due \<and> idle_flow e now timeout k then None else fmlookup (snat_fwd e) k)"
    and r: "\<forall>k b. fmlookup (snat_fwd e) k = Some b \<longrightarrow>
      fmlookup (snat_rev e1) (reply_tuple (nat_ip e) k (b_port b)) =
        (if k \<in> set due \<and> idle_flow e now timeout k then None
         else fmlookup (snat_rev e) (reply_tuple (nat_ip e) k (b_port b)))"
    using gc_loop_spec [OF gi, of now timeout 0] unfolding idle upd add_0 by blast
  let ?n = "length (filter (idle_flow e now timeout) due)"
  let ?D = "fm_retain (\<lambda>b. saturating_sub now timeout \<le> last_seen b) (dnat_rev e1)"
  let ?e' = "e1 \<lparr> dnat_rev := ?D, stats := (stats e1) \<lparr> expired := expired (stats e1) + of_nat ?n \<rparr> \<rparr>"
  have "NatEngine_gc e now timeout = Some (?e', ?n)"
    using w(1) l(1) by (simp add: NatEngine_gc_def Let_def)
  moreover have "nat_inv ?e'"
    using l(2) dnat_ok_retain by (simp add: gc_inv_def nat_inv_def ports_wf_def)
  moreover have "dnat_rev e1 = dnat_rev e" "nat_ip e1 = nat_ip e" using l(3) by (simp_all add: gc_frame_def)
  ultimately show ?thesis
    using w(1,3,4) f r by (intro exI [of _ w] exI [of _ due] exI [of _ ?e']) simp
qed

lemma nat_inv_gc:
  assumes "nat_inv e"
  shows "\<exists>e' n. NatEngine_gc e now timeout = Some (e', n) \<and> nat_inv e' \<and> nat_ip e' = nat_ip e"
  using gc_spec [OF assms, of now timeout] by blast

section \<open>Reachable states\<close>

inductive nat_step :: "nat_engine \<Rightarrow> nat_engine \<Rightarrow> bool" where
  add_rule: "nat_step e (NatEngine_add_dnat_rule e rule)"
| set_timeout: "nat_step e (NatEngine_set_idle_timeout e t)"
| process: "NatEngine_process e tuple dir now = Some (e', rw) \<Longrightarrow> nat_step e e'"
| gc: "NatEngine_gc e now timeout = Some (e', n) \<Longrightarrow> nat_step e e'"

inductive_cases nat_stepE: "nat_step e e'"

inductive nat_reachable :: "nat_engine \<Rightarrow> bool" where
  start: "NatEngine_new ip pmin pmax = Some e \<Longrightarrow> nat_reachable e"
| step: "nat_reachable e \<Longrightarrow> nat_step e e' \<Longrightarrow> nat_reachable e'"

lemma nat_inv_process:
  assumes "nat_inv e"
  shows "\<exists>e' rw. NatEngine_process e t dir now = Some (e', rw) \<and> nat_inv e' \<and> nat_ip e' = nat_ip e"
  using nat_inv_outbound [OF assms] nat_inv_inbound [OF assms]
  by (cases dir) (simp_all add: NatEngine_process_def)

lemma nat_inv_step: "nat_step e e' \<Longrightarrow> nat_inv e \<Longrightarrow> nat_inv e'"
proof (induction rule: nat_step.induct)
  case (process e tuple dir now e' rw)
  then show ?case using nat_inv_process [of e tuple dir now] by auto
next
  case (gc e now timeout e' n)
  then show ?case using nat_inv_gc [of e now timeout] by auto
qed (simp_all add: nat_inv_add_dnat_rule nat_inv_set_idle_timeout)

lemma nat_reachable_nat_inv: "nat_reachable e \<Longrightarrow> nat_inv e"
  by (induction rule: nat_reachable.induct) (auto intro: nat_inv_new nat_inv_step)

end
