(* ===== verification/Nat_Props.thy ===== *)
theory Nat_Props
  imports Nat_Inv
begin

text \<open>
  The properties of the connection tracker, stated over the operations of the engine.
\<close>

section \<open>Closed forms of the decisions\<close>

lemma outbound_snat:
  assumes inv: "nat_inv e" and dn: "fmlookup (dnat_rev e) t = None"
    and run: "NatEngine_process_outbound e t now = Some (e', rw)" and rw: "\<not> Rewrite_is_noop rw"
  shows "\<exists>p. rw = Rewrite_default \<lparr> new_src_ip := Some (nat_ip e), new_src_port := Some p \<rparr> \<and>
    ends (snat_fwd e') t = Some (nat_ip e, p) \<and> port_min e \<le> p \<and> p \<le> port_max e"
proof (cases "fmlookup (snat_fwd e) t")
  case (Some b)
  have fo: "flows_ok (nat_ip e) (used_ports e) (ends (snat_fwd e)) (ends (snat_rev e))"
    and u: "used_ports e \<subseteq> {port_min e..port_max e}" using inv by (simp_all add: nat_inv_def)
  have "b_ip b = nat_ip e" "b_port b \<in> used_ports e" using flows_okD [OF fo ends_SomeI [OF Some]] by simp_all
  then show ?thesis using dn Some run u by (auto simp: NatEngine_process_outbound_def)
next
  case None
  have wf: "ports_wf e" using inv by (simp add: nat_inv_def)
  show ?thesis
  proof (cases rule: alloc_port_cases [OF wf, of "src_port t"])
    case (1 np)
    then have "rw = Rewrite_default" using dn None run by (simp add: NatEngine_process_outbound_def)
    then show ?thesis using rw by (simp add: Rewrite_is_noop_def Rewrite_default_def)
  next
    case (2 np p)
    then show ?thesis
      using dn None run by (auto simp: NatEngine_process_outbound_def Let_def Option.bind_eq_Some_conv)
  qed
qed

lemma inbound_reply:
  assumes "ends (snat_rev e) t = Some (i, p)"
  shows "\<exists>e'. NatEngine_process e t Inbound now =
    Some (e', Rewrite_default \<lparr> new_dst_ip := Some i, new_dst_port := Some p \<rparr>)"
  using ends_SomeD [OF assms] by (auto simp: NatEngine_process_def NatEngine_process_inbound_def)

section \<open>Properties\<close>

text \<open>C2: in every state reachable from a new engine by any sequence of rule changes, packets in
  both directions and collections, the tracker is consistent: each tracked flow owns a port
  of the configured range that no other flow has, exactly those ports are marked used, the
  reply tuple of each flow leads back to its private endpoint, no other reply tuple is
  tracked, the wheel holds exactly one entry per flow, and the table of inbound
  connections has at most 65536 entries. No operation panics in such a state.\<close>

theorem nat_reachable_inv:
  assumes "nat_reachable e"
  shows "(\<forall>k b. fmlookup (snat_fwd e) k = Some b \<longrightarrow>
      b_ip b = nat_ip e \<and> port_min e \<le> b_port b \<and> b_port b \<le> port_max e \<and>
      (\<exists>rb. fmlookup (snat_rev e) (reply_tuple (nat_ip e) k (b_port b)) = Some rb \<and>
        b_ip rb = src_ip k \<and> b_port rb = src_port k) \<and>
      (\<forall>k' b'. fmlookup (snat_fwd e) k' = Some b' \<longrightarrow> b_port b' = b_port b \<longrightarrow> k' = k)) \<and>
    used_ports e = {b_port b | k b. fmlookup (snat_fwd e) k = Some b} \<and>
    (\<forall>r. fmlookup (snat_rev e) r \<noteq> None \<longrightarrow>
      (\<exists>k b. fmlookup (snat_fwd e) k = Some b \<and> r = reply_tuple (nat_ip e) k (b_port b))) \<and>
    entries (wheel e) = mset_set (fset (fmdom (snat_fwd e))) \<and>
    fcard (fmdom (dnat_rev e)) \<le> 65536 \<and>
    (\<forall>t dir now timeout. NatEngine_process e t dir now \<noteq> None \<and> NatEngine_gc e now timeout \<noteq> None)"
proof (intro conjI allI impI)
  have inv: "nat_inv e" using assms by (rule nat_reachable_nat_inv)
  then have fo: "flows_ok (nat_ip e) (used_ports e) (ends (snat_fwd e)) (ends (snat_rev e))"
    and u: "used_ports e \<subseteq> {port_min e..port_max e}" by (simp_all add: nat_inv_def)
  show "entries (wheel e) = mset_set (fset (fmdom (snat_fwd e)))" using inv by (simp add: nat_inv_def)
  show "fcard (fmdom (dnat_rev e)) \<le> 65536" using inv by (simp add: nat_inv_def dnat_ok_def MAX_DNAT_BINDINGS_def)
  show "NatEngine_process e t dir now \<noteq> None" "NatEngine_gc e now timeout \<noteq> None" for t dir now timeout
    using nat_inv_process [OF inv, of t dir now] nat_inv_gc [OF inv, of now timeout] by auto
  show "used_ports e = {b_port b | k b. fmlookup (snat_fwd e) k = Some b}"
  proof (intro set_eqI iffI)
    fix p assume "p \<in> used_ports e"
    then obtain k where "ends (snat_fwd e) k = Some (nat_ip e, p)" using flows_okU [OF fo] by blast
    then show "p \<in> {b_port b | k b. fmlookup (snat_fwd e) k = Some b}" by (auto simp: ends_def)
  qed (use flows_okD(1) [OF fo ends_SomeI] in auto)
  show "\<exists>k b. fmlookup (snat_fwd e) k = Some b \<and> r = reply_tuple (nat_ip e) k (b_port b)"
    if tracked: "fmlookup (snat_rev e) r \<noteq> None" for r
  proof -
    obtain v where "ends (snat_rev e) r = Some v" using tracked by (auto simp: ends_def)
    then obtain k p where "ends (snat_fwd e) k = Some (nat_ip e, p)" "r = reply_tuple (nat_ip e) k p"
      using flows_okR [OF fo] by blast
    then show ?thesis by (auto simp: ends_def)
  qed
  fix k b assume b: "fmlookup (snat_fwd e) k = Some b"
  note D = flows_okD [OF fo ends_SomeI [OF b]]
  show "b_ip b = nat_ip e" "port_min e \<le> b_port b" "b_port b \<le> port_max e" using D(1,2) u by auto
  show "\<exists>rb. fmlookup (snat_rev e) (reply_tuple (nat_ip e) k (b_port b)) = Some rb \<and>
      b_ip rb = src_ip k \<and> b_port rb = src_port k"
    using ends_SomeD [OF D(3)] by auto
  show "k' = k" if "fmlookup (snat_fwd e) k' = Some b'" "b_port b' = b_port b" for k' b'
    using flows_ok_inj [OF fo ends_SomeI [OF that(1)]] ends_SomeI [OF b] that(2) by simp
qed

theorem nat_reachable_inv_witness:
  "\<exists>e. NatEngine_new 0xcb007101 40000 40001 = Some e \<and> fcard (fmdom (dnat_rev e)) \<le> 65536"
proof -
  obtain e where e: "NatEngine_new 0xcb007101 40000 40001 = Some e"
    by (simp add: NatEngine_new_def TimingWheel_new_def)
  then have "nat_reachable e" by (rule nat_reachable.start)
  then show ?thesis using nat_reachable_inv [of e] e by blast
qed

lemma snat_reply_back:
  assumes inv: "nat_inv e" and "fmlookup (dnat_rev e) t = None"
    and "NatEngine_process e t Outbound now = Some (e', rw)" and "\<not> Rewrite_is_noop rw"
  shows "\<exists>p. rw = Rewrite_default \<lparr> new_src_ip := Some (nat_ip e), new_src_port := Some p \<rparr> \<and>
    port_min e \<le> p \<and> p \<le> port_max e \<and>
    (\<exists>e''. NatEngine_process e' (FiveTuple_reversed (t \<lparr> src_ip := nat_ip e, src_port := p \<rparr>)) Inbound now' =
       Some (e'', Rewrite_default \<lparr> new_dst_ip := Some (src_ip t), new_dst_port := Some (src_port t) \<rparr>))"
proof -
  have run: "NatEngine_process_outbound e t now = Some (e', rw)" using assms(3) by (simp add: NatEngine_process_def)
  obtain p where p: "rw = Rewrite_default \<lparr> new_src_ip := Some (nat_ip e), new_src_port := Some p \<rparr>"
      "ends (snat_fwd e') t = Some (nat_ip e, p)" "port_min e \<le> p" "p \<le> port_max e"
    using outbound_snat [OF inv assms(2) run assms(4)] by blast
  have "nat_inv e'" "nat_ip e' = nat_ip e" using nat_inv_outbound [OF inv, of t now] run by auto
  then have "flows_ok (nat_ip e) (used_ports e') (ends (snat_fwd e')) (ends (snat_rev e'))"
    by (simp add: nat_inv_def)
  then have "ends (snat_rev e') (reply_tuple (nat_ip e) t p) = Some (src_ip t, src_port t)"
    using p(2) by (rule flows_okD(3))
  moreover have "FiveTuple_reversed (t \<lparr> src_ip := nat_ip e, src_port := p \<rparr>) = reply_tuple (nat_ip e) t p"
    by (simp add: FiveTuple_reversed_def reply_tuple_def)
  ultimately show ?thesis using p inbound_reply by metis
qed

text \<open>C24: source translation round trip. When an outbound packet that is no reply to a forwarded
  connection is translated, its source becomes the NAT address with a port of the range;
  whatever the time, the reply of the remote endpoint to the translated packet is then
  rewritten back to the private address and port the packet came from.\<close>

theorem snat_roundtrip:
  assumes "nat_reachable e" and "fmlookup (dnat_rev e) t = None"
    and "NatEngine_process e t Outbound now = Some (e', rw)" and "\<not> Rewrite_is_noop rw"
  shows "\<exists>p. rw = Rewrite_default \<lparr> new_src_ip := Some (nat_ip e), new_src_port := Some p \<rparr> \<and>
    port_min e \<le> p \<and> p \<le> port_max e \<and>
    (\<exists>e''. NatEngine_process e' (FiveTuple_reversed (t \<lparr> src_ip := nat_ip e, src_port := p \<rparr>)) Inbound now' =
       Some (e'', Rewrite_default \<lparr> new_dst_ip := Some (src_ip t), new_dst_port := Some (src_port t) \<rparr>))"
  using snat_reply_back [OF nat_reachable_nat_inv [OF assms(1)] assms(2-4)] .

definition sample_flow :: five_tuple where
  "sample_flow = \<lparr> src_ip = 0x0a000005, dst_ip = 0x08080808, protocol = proto_UDP, src_port = 40000, dst_port = 53 \<rparr>"

theorem snat_roundtrip_witness:
  "\<exists>e e' e''. NatEngine_new 0xcb007101 40000 40001 = Some e \<and>
     NatEngine_process e sample_flow Outbound 5 =
       Some (e', Rewrite_default \<lparr> new_src_ip := Some 0xcb007101, new_src_port := Some 40000 \<rparr>) \<and>
     NatEngine_process e' (FiveTuple_reversed (sample_flow \<lparr> src_ip := 0xcb007101, src_port := 40000 \<rparr>)) Inbound 9 =
       Some (e'', Rewrite_default \<lparr> new_dst_ip := Some 0x0a000005, new_dst_port := Some 40000 \<rparr>)"
proof -
  obtain e where e: "NatEngine_new 0xcb007101 40000 40001 = Some e" and empty: "dnat_rev e = fmempty" "snat_fwd e = fmempty"
    and f: "nat_ip e = 0xcb007101" "used_ports e = {}" "port_min e = 40000" "port_max e = 40001"
    by (simp add: NatEngine_new_def TimingWheel_new_def)
  have r: "nat_reachable e" using e by (rule nat_reachable.start)
  obtain e' rw where run: "NatEngine_process e sample_flow Outbound 5 = Some (e', rw)"
    using nat_inv_process [OF nat_reachable_nat_inv [OF r]] by blast
  have al: "NatEngine_alloc_port e 40000 = (e \<lparr> used_ports := {40000} \<rparr>, Some 40000)"
    by (simp add: NatEngine_alloc_port_def f)
  have rw: "rw = Rewrite_default \<lparr> new_src_ip := Some 0xcb007101, new_src_port := Some 40000 \<rparr>"
    using run by (auto simp: NatEngine_process_def NatEngine_process_outbound_def empty sample_flow_def al f Let_def
        Option.bind_eq_Some_conv)
  have n: "\<not> Rewrite_is_noop rw" by (simp add: rw Rewrite_is_noop_def)
  have d: "fmlookup (dnat_rev e) sample_flow = None" by (simp add: empty)
  show ?thesis
    using snat_roundtrip [OF r d run n, of 9] e run rw by (auto simp: f Rewrite_default_def sample_flow_def)
qed

text \<open>C25: destination translation round trip. When an inbound packet to the NAT address that is no
  reply to an outbound flow matches a forwarding rule and the table has room, its
  destination becomes the rule's server; the server's reply to the translated packet then
  leaves with the NAT address and the external port as its source, so the client sees the
  endpoint it contacted. The first matching rule decides.\<close>

theorem dnat_roundtrip:
  assumes "fmlookup (snat_rev e) t = None" and "dst_ip t = nat_ip e"
    and "find (\<lambda>r. rule_protocol r = protocol t \<and> ext_port r = dst_port t) (dnat_rules e) = Some rule"
    and "fcard (fmdom (dnat_rev e)) < 65536"
  shows "\<exists>e'. NatEngine_process e t Inbound now =
      Some (e', Rewrite_default \<lparr> new_dst_ip := Some (to_ip rule), new_dst_port := Some (to_port rule) \<rparr>) \<and>
    (\<exists>e''. NatEngine_process e'
        (FiveTuple_reversed (t \<lparr> dst_ip := to_ip rule, dst_port := to_port rule \<rparr>)) Outbound now' =
      Some (e'', Rewrite_default \<lparr> new_src_ip := Some (dst_ip t), new_src_port := Some (dst_port t) \<rparr>))"
proof -
  have "ext_port rule = dst_port t" using assms(3) by (auto simp: find_Some_iff)
  then show ?thesis
    using assms
    by (simp add: NatEngine_process_def NatEngine_process_inbound_def NatEngine_process_outbound_def Let_def
        MAX_DNAT_BINDINGS_def FiveTuple_reversed_def)
qed

definition sample_rule :: dnat_rule where
  "sample_rule = \<lparr> rule_protocol = proto_TCP, ext_port = 8080, to_ip = 0x0a000009, to_port = 80 \<rparr>"

theorem dnat_roundtrip_witness:
  "\<exists>e e' e''. NatEngine_new 0xcb007101 40000 40001 = Some e \<and>
     NatEngine_process (NatEngine_add_dnat_rule e sample_rule)
       \<lparr> src_ip = 0x01020304, dst_ip = 0xcb007101, protocol = proto_TCP, src_port = 999, dst_port = 8080 \<rparr> Inbound 1 =
       Some (e', Rewrite_default \<lparr> new_dst_ip := Some 0x0a000009, new_dst_port := Some 80 \<rparr>) \<and>
     NatEngine_process e'
       \<lparr> src_ip = 0x0a000009, dst_ip = 0x01020304, protocol = proto_TCP, src_port = 80, dst_port = 999 \<rparr> Outbound 2 =
       Some (e'', Rewrite_default \<lparr> new_src_ip := Some 0xcb007101, new_src_port := Some 8080 \<rparr>)"
proof -
  obtain e where e: "NatEngine_new 0xcb007101 40000 40001 = Some e"
    and f: "nat_ip e = 0xcb007101" "snat_rev e = fmempty" "dnat_rev e = fmempty" "dnat_rules e = []"
    by (simp add: NatEngine_new_def TimingWheel_new_def)
  show ?thesis
    using dnat_roundtrip [of "NatEngine_add_dnat_rule e sample_rule" "\<lparr> src_ip = 0x01020304,
        dst_ip = 0xcb007101, protocol = proto_TCP, src_port = 999, dst_port = 8080 \<rparr>" sample_rule 1 2] e f
    by (auto simp: NatEngine_add_dnat_rule_def sample_rule_def FiveTuple_reversed_def fcard_fempty)
qed

text \<open>C28: port allocation for a new outbound flow. The packet is left untranslated exactly when
  every port of the range is taken; otherwise it gets a port that no flow had, and its own
  source port whenever that lies in the range and is free. A flow that has a port keeps it.\<close>

theorem snat_port_choice:
  assumes "nat_reachable e" and "fmlookup (dnat_rev e) t = None"
    and "NatEngine_process e t Outbound now = Some (e', rw)"
  shows "case fmlookup (snat_fwd e) t of
      Some b \<Rightarrow> new_src_port rw = Some (b_port b)
    | None \<Rightarrow>
       (Rewrite_is_noop rw \<longleftrightarrow> {port_min e..port_max e} \<subseteq> used_ports e) \<and>
       (\<forall>p. new_src_port rw = Some p \<longrightarrow> p \<notin> used_ports e \<and> used_ports e' = insert p (used_ports e)) \<and>
       (src_port t \<in> {port_min e..port_max e} - used_ports e \<longrightarrow> new_src_port rw = Some (src_port t))"
proof (cases "fmlookup (snat_fwd e) t")
  case (Some b)
  then show ?thesis using assms(2,3) by (auto simp: NatEngine_process_def NatEngine_process_outbound_def)
next
  case None
  have "nat_inv e" using assms(1) by (rule nat_reachable_nat_inv)
  then have wf: "ports_wf e" by (simp add: nat_inv_def)
  obtain e1 r where al: "NatEngine_alloc_port e (src_port t) = (e1, r)" by fastforce
  note spec = alloc_port_spec [OF wf al]
  have run: "NatEngine_process_outbound e t now = Some (e', rw)" using assms(3) by (simp add: NatEngine_process_def)
  have noop: "Rewrite_is_noop rw \<longleftrightarrow> r = None" and port: "new_src_port rw = r"
    using run None assms(2) al
    by (auto simp: NatEngine_process_outbound_def Let_def Option.bind_eq_Some_conv Rewrite_is_noop_def
        Rewrite_default_def split: option.splits)
  have used: "used_ports e' = insert p (used_ports e)" if "r = Some p" for p
  proof -
    have "used_ports e' = used_ports e1"
      using that run None assms(2) al
      by (clarsimp simp: NatEngine_process_outbound_def Let_def Option.bind_eq_Some_conv)
    also have "\<dots> = insert p (used_ports e)"
      using arg_cong [OF spec(2), of used_ports] that by simp
    finally show ?thesis .
  qed
  show ?thesis using None noop port used spec(3,4,5) by auto
qed

theorem snat_port_choice_witness:
  "\<exists>e e' rw. NatEngine_new 0xcb007101 40000 40001 = Some e \<and>
     NatEngine_process e sample_flow Outbound 5 = Some (e', rw) \<and> new_src_port rw = Some 40000"
proof -
  obtain e where e: "NatEngine_new 0xcb007101 40000 40001 = Some e" and empty: "dnat_rev e = fmempty" "snat_fwd e = fmempty"
    and f: "used_ports e = {}" "port_min e = 40000" "port_max e = 40001"
    by (simp add: NatEngine_new_def TimingWheel_new_def)
  have r: "nat_reachable e" using e by (rule nat_reachable.start)
  obtain e' rw where run: "NatEngine_process e sample_flow Outbound 5 = Some (e', rw)"
    using nat_inv_process [OF nat_reachable_nat_inv [OF r]] by blast
  have d: "fmlookup (dnat_rev e) sample_flow = None" by (simp add: empty)
  show ?thesis
    using snat_port_choice [OF r d run] e run by (auto simp: empty f sample_flow_def)
qed

text \<open>C23: collection is sound. It never removes a flow that was active, in either direction,
  within the timeout; a flow it removes was due in the wheel and idle past the timeout,
  loses both table entries and frees its port; every other flow keeps its binding and its
  reply entry; and the returned count is the number of removed flows.\<close>

theorem gc_sound:
  assumes "nat_reachable e"
  shows "\<exists>e' n. NatEngine_gc e now timeout = Some (e', n) \<and>
    n = card {k. fmlookup (snat_fwd e) k \<noteq> None \<and> fmlookup (snat_fwd e') k = None} \<and>
    (\<forall>k b. fmlookup (snat_fwd e) k = Some b \<longrightarrow>
      (let rk = reply_tuple (nat_ip e) k (b_port b);
           seen = max (last_seen b) (case fmlookup (snat_rev e) rk of None \<Rightarrow> last_seen b | Some rb \<Rightarrow> last_seen rb)
       in if fmlookup (snat_fwd e') k = None
          then saturating_add seen timeout \<le> now \<and> fmlookup (snat_rev e') rk = None \<and> b_port b \<notin> used_ports e'
          else fmlookup (snat_fwd e') k = Some b \<and> fmlookup (snat_rev e') rk = fmlookup (snat_rev e) rk))"
proof -
  have inv: "nat_inv e" using assms by (rule nat_reachable_nat_inv)
  let ?idle = "idle_flow e now timeout"
  obtain w due e' where run: "NatEngine_gc e now timeout = Some (e', length (filter ?idle due))"
    and inv': "nat_inv e'" "nat_ip e' = nat_ip e" and d: "distinct due" "set due \<subseteq> fset (fmdom (snat_fwd e))"
    and f: "\<And>k. fmlookup (snat_fwd e') k = (if k \<in> set due \<and> ?idle k then None else fmlookup (snat_fwd e) k)"
    and r: "\<And>k b. fmlookup (snat_fwd e) k = Some b \<Longrightarrow> fmlookup (snat_rev e') (reply_tuple (nat_ip e) k (b_port b)) =
        (if k \<in> set due \<and> ?idle k then None else fmlookup (snat_rev e) (reply_tuple (nat_ip e) k (b_port b)))"
    using gc_spec [OF inv, of now timeout] by metis
  have fo: "flows_ok (nat_ip e) (used_ports e) (ends (snat_fwd e)) (ends (snat_rev e))"
    and fo': "flows_ok (nat_ip e) (used_ports e') (ends (snat_fwd e')) (ends (snat_rev e'))"
    using inv inv' by (simp_all add: nat_inv_def)
  have "{k. fmlookup (snat_fwd e) k \<noteq> None \<and> fmlookup (snat_fwd e') k = None} = set (filter ?idle due)"
    using d(2) f by (auto split: if_splits simp: fmlookup_dom_iff)
  then have n: "length (filter ?idle due) = card {k. fmlookup (snat_fwd e) k \<noteq> None \<and> fmlookup (snat_fwd e') k = None}"
    using distinct_card [OF distinct_filter [OF d(1), of ?idle]] by (simp only:)
  have freed: "b_port b \<notin> used_ports e'" if b: "fmlookup (snat_fwd e) k = Some b" and gone: "fmlookup (snat_fwd e') k = None" for k b
  proof
    assume "b_port b \<in> used_ports e'"
    then obtain k' where k': "ends (snat_fwd e') k' = Some (nat_ip e, b_port b)" using flows_okU [OF fo'] by blast
    then have "ends (snat_fwd e) k' = Some (nat_ip e, b_port b)" using f [of k'] by (auto simp: ends_def split: if_splits)
    then have "k' = k" using flows_ok_inj [OF fo _ ends_SomeI [OF b]] by blast
    then show False using k' gone by (simp add: ends_def)
  qed
  show ?thesis
  proof (intro exI conjI allI impI)
    show "NatEngine_gc e now timeout = Some (e', length (filter ?idle due))" by (fact run)
  next
    fix k b assume b: "fmlookup (snat_fwd e) k = Some b"
    have idle: "?idle k \<longleftrightarrow> saturating_add (eff_last e k b) timeout \<le> now" using b by (simp add: idle_flow_def)
    show "let rk = reply_tuple (nat_ip e) k (b_port b);
           seen = max (last_seen b) (case fmlookup (snat_rev e) rk of None \<Rightarrow> last_seen b | Some rb \<Rightarrow> last_seen rb)
       in if fmlookup (snat_fwd e') k = None
          then saturating_add seen timeout \<le> now \<and> fmlookup (snat_rev e') rk = None \<and> b_port b \<notin> used_ports e'
          else fmlookup (snat_fwd e') k = Some b \<and> fmlookup (snat_rev e') rk = fmlookup (snat_rev e) rk"
      unfolding Let_def eff_last_def [symmetric] using f [of k] r [OF b] b idle freed [OF b] by simp
  qed (fact n)
qed

theorem gc_sound_witness:
  "\<exists>e e' n. NatEngine_new 0xcb007101 40000 40001 = Some e \<and> NatEngine_gc e 1000 10 = Some (e', n) \<and>
     n = card {k. fmlookup (snat_fwd e) k \<noteq> None \<and> fmlookup (snat_fwd e') k = None}"
proof -
  obtain e where e: "NatEngine_new 0xcb007101 40000 40001 = Some e"
    by (simp add: NatEngine_new_def TimingWheel_new_def)
  then have "nat_reachable e" by (rule nat_reachable.start)
  then show ?thesis using gc_sound [of e 1000 10] e by blast
qed

end
