(* ===== verification/Nat_Apply.thy ===== *)
theory Nat_Apply
  imports Nat_Engine
begin

text \<open>
  \<open>apply\<close> of \<open>andromeda-nat/src/lib.rs\<close>: a rewrite is applied to an IPv4 packet in place. The
  proof about the transport part is done once, in the contract \<open>l4_view\<close>, and used for TCP
  and UDP through its two interpretations.
\<close>

section \<open>Definition\<close>

text \<open>The statements the TCP and the UDP arm of the \<open>match\<close> share, over the operations of the
  mutable view.\<close>

definition l4_rewrite ::
    "(bytes \<Rightarrow> bytes parse_result) \<Rightarrow> (bytes \<Rightarrow> u16 \<Rightarrow> bytes option) \<Rightarrow> (bytes \<Rightarrow> u16 \<Rightarrow> bytes option) \<Rightarrow>
     (bytes \<Rightarrow> u32 \<Rightarrow> u32 \<Rightarrow> bytes option) \<Rightarrow> u32 \<Rightarrow> u32 \<Rightarrow> u32 \<Rightarrow> u32 \<Rightarrow> rewrite \<Rightarrow> bytes \<Rightarrow>
     (bytes \<times> (parse_error + unit)) option" where
  "l4_rewrite parse set_src_port set_dst_port patch_dword old_src new_src old_dst new_dst rw l4 =
     (case parse l4 of
        None \<Rightarrow> None
      | Some (Inl e) \<Rightarrow> Some (l4, Inl e)
      | Some (Inr t) \<Rightarrow> do {
          t \<leftarrow> (if new_src \<noteq> old_src then patch_dword t old_src new_src else Some t);
          t \<leftarrow> (if new_dst \<noteq> old_dst then patch_dword t old_dst new_dst else Some t);
          t \<leftarrow> (case new_src_port rw of Some p \<Rightarrow> set_src_port t p | None \<Rightarrow> Some t);
          t \<leftarrow> (case new_dst_port rw of Some p \<Rightarrow> set_dst_port t p | None \<Rightarrow> Some t);
          Some (t, Inr ()) })"

definition nat_apply :: "bytes \<Rightarrow> rewrite \<Rightarrow> (bytes \<times> (parse_error + unit)) option" where
  "nat_apply pkt rw =
     (if Rewrite_is_noop rw then Some (pkt, Inr ())
      else (case Ipv4View_parse pkt of
          None \<Rightarrow> None
        | Some (Inl e) \<Rightarrow> Some (pkt, Inl e)
        | Some (Inr v) \<Rightarrow> do {
            ihl \<leftarrow> Ipv4View_ihl_bytes v;
            protocol \<leftarrow> Ipv4View_protocol v;
            old_src \<leftarrow> Ipv4View_src v;
            old_dst \<leftarrow> Ipv4View_dst v;
            (case Ipv4ViewMut_parse pkt of
               None \<Rightarrow> None
             | Some (Inl e) \<Rightarrow> Some (pkt, Inl e)
             | Some (Inr ip) \<Rightarrow> do {
                 (pkt, new_src) \<leftarrow> (case new_src_ip rw of
                     Some s \<Rightarrow> do { (b, _, n) \<leftarrow> Ipv4ViewMut_set_src ip s; Some (b, n) }
                   | None \<Rightarrow> Some (ip, old_src));
                 (pkt, new_dst) \<leftarrow> (case new_dst_ip rw of
                     Some d \<Rightarrow> do { (b, _, n) \<leftarrow> Ipv4ViewMut_set_dst pkt d; Some (b, n) }
                   | None \<Rightarrow> Some (pkt, old_dst));
                 sub_mut pkt ihl (length pkt) (\<lambda>l4.
                   if protocol = proto_TCP then
                     l4_rewrite TcpViewMut_parse TcpViewMut_set_src_port TcpViewMut_set_dst_port
                       TcpViewMut_patch_checksum_dword old_src new_src old_dst new_dst rw l4
                   else if protocol = proto_UDP then
                     l4_rewrite (\<lambda>b. Some (UdpViewMut_parse b)) UdpViewMut_set_src_port UdpViewMut_set_dst_port
                       UdpViewMut_patch_checksum_dword old_src new_src old_dst new_dst rw l4
                   else Some (l4, Inr ())) }) }))"

section \<open>The transport part\<close>

context l4_view
begin

lemma opt_patch:
  assumes "l4_ok s"
  shows "\<exists>s'. (if n \<noteq> o' then patch_dword s o' n else Some s) = Some s' \<and> l4_ok s' \<and> length s' = length s \<and>
    (\<forall>i < length s. i \<notin> {coff, coff + 1} \<longrightarrow> s' ! i = s ! i) \<and> csum_on s' = csum_on s \<and>
    (csum_on s \<longrightarrow> (word_sum s' + addr_sum n) mod 65535 = (word_sum s + addr_sum o') mod 65535)"
  using patch_law [OF assms, of o' n] assms by (cases "n = o'") auto

lemma opt_src:
  assumes "l4_ok s"
  shows "\<exists>s'. (case po of Some p \<Rightarrow> set_src_port s p | None \<Rightarrow> Some s) = Some s' \<and> l4_ok s' \<and> length s' = length s \<and>
    word16 s' 0 = (case po of Some p \<Rightarrow> p | None \<Rightarrow> word16 s 0) \<and>
    (\<forall>i < length s. i \<notin> {0, 1, coff, coff + 1} \<longrightarrow> s' ! i = s ! i) \<and>
    csum_on s' = csum_on s \<and> (csum_on s \<longrightarrow> word_sum s' mod 65535 = word_sum s mod 65535)"
  using set_src_law [OF assms] assms by (cases po) auto

lemma opt_dst:
  assumes "l4_ok s"
  shows "\<exists>s'. (case po of Some p \<Rightarrow> set_dst_port s p | None \<Rightarrow> Some s) = Some s' \<and> l4_ok s' \<and> length s' = length s \<and>
    word16 s' 2 = (case po of Some p \<Rightarrow> p | None \<Rightarrow> word16 s 2) \<and>
    (\<forall>i < length s. i \<notin> {2, 3, coff, coff + 1} \<longrightarrow> s' ! i = s ! i) \<and>
    csum_on s' = csum_on s \<and> (csum_on s \<longrightarrow> word_sum s' mod 65535 = word_sum s mod 65535)"
  using set_dst_law [OF assms] assms by (cases po) auto

lemma word16_frame:
  assumes "l4_ok s" and "length s' = length s" and "\<forall>i < length s. i \<notin> X \<longrightarrow> s' ! i = s ! i"
    and "a = 0 \<or> a = 2" and "{a, a + 1} \<inter> X = {}"
  shows "word16 s' a = word16 s a"
proof -
  have "a + 1 < length s" using ok_len [OF assms(1)] assms(4) by auto
  then show ?thesis using assms(2,3,5) by (simp add: word16_def)
qed

lemma l4_rewrite_ok:
  assumes ok: "l4_ok s"
  shows "\<exists>s'. l4_rewrite parse set_src_port set_dst_port patch_dword os ns od nd rw s = Some (s', Inr ()) \<and>
    length s' = length s \<and> l4_ok s' \<and>
    word16 s' 0 = (case new_src_port rw of Some p \<Rightarrow> p | None \<Rightarrow> word16 s 0) \<and>
    word16 s' 2 = (case new_dst_port rw of Some p \<Rightarrow> p | None \<Rightarrow> word16 s 2) \<and>
    (\<forall>i < length s. i \<notin> {0, 1, 2, 3, coff, coff + 1} \<longrightarrow> s' ! i = s ! i) \<and> csum_on s' = csum_on s \<and>
    (csum_on s \<longrightarrow> (word_sum s' + (addr_sum ns + addr_sum nd)) mod 65535 =
      (word_sum s + (addr_sum os + addr_sum od)) mod 65535)"
proof -
  obtain s1 where 1: "(if ns \<noteq> os then patch_dword s os ns else Some s) = Some s1" "l4_ok s1" "length s1 = length s"
      "\<forall>i < length s. i \<notin> {coff, coff + 1} \<longrightarrow> s1 ! i = s ! i" "csum_on s1 = csum_on s"
      "csum_on s \<longrightarrow> (word_sum s1 + addr_sum ns) mod 65535 = (word_sum s + addr_sum os) mod 65535"
    using opt_patch [OF ok, of ns os] by blast
  obtain s2 where 2: "(if nd \<noteq> od then patch_dword s1 od nd else Some s1) = Some s2" "l4_ok s2" "length s2 = length s1"
      "\<forall>i < length s1. i \<notin> {coff, coff + 1} \<longrightarrow> s2 ! i = s1 ! i" "csum_on s2 = csum_on s1"
      "csum_on s1 \<longrightarrow> (word_sum s2 + addr_sum nd) mod 65535 = (word_sum s1 + addr_sum od) mod 65535"
    using opt_patch [OF 1(2), of nd od] by blast
  obtain s3 where 3: "(case new_src_port rw of Some p \<Rightarrow> set_src_port s2 p | None \<Rightarrow> Some s2) = Some s3" "l4_ok s3"
      "length s3 = length s2" "word16 s3 0 = (case new_src_port rw of Some p \<Rightarrow> p | None \<Rightarrow> word16 s2 0)"
      "\<forall>i < length s2. i \<notin> {0, 1, coff, coff + 1} \<longrightarrow> s3 ! i = s2 ! i" "csum_on s3 = csum_on s2"
      "csum_on s2 \<longrightarrow> word_sum s3 mod 65535 = word_sum s2 mod 65535"
    using opt_src [OF 2(2), of "new_src_port rw"] by blast
  obtain s4 where 4: "(case new_dst_port rw of Some p \<Rightarrow> set_dst_port s3 p | None \<Rightarrow> Some s3) = Some s4" "l4_ok s4"
      "length s4 = length s3" "word16 s4 2 = (case new_dst_port rw of Some p \<Rightarrow> p | None \<Rightarrow> word16 s3 2)"
      "\<forall>i < length s3. i \<notin> {2, 3, coff, coff + 1} \<longrightarrow> s4 ! i = s3 ! i" "csum_on s4 = csum_on s3"
      "csum_on s3 \<longrightarrow> word_sum s4 mod 65535 = word_sum s3 mod 65535"
    using opt_dst [OF 3(2), of "new_dst_port rw"] by blast
  have coff: "4 \<le> coff" using ok_len [OF ok] by simp
  have run: "l4_rewrite parse set_src_port set_dst_port patch_dword os ns od nd rw s = Some (s4, Inr ())"
    using 1(1) 2(1) 3(1) 4(1) by (simp add: l4_rewrite_def parse_ok [OF ok])
  have w0: "word16 s4 0 = word16 s3 0" "word16 s2 0 = word16 s1 0" "word16 s1 0 = word16 s 0"
    using coff by (intro word16_frame [OF 3(2) 4(3,5)] word16_frame [OF 1(2) 2(3,4)] word16_frame [OF ok 1(3,4)]; simp)+
  have w2: "word16 s3 2 = word16 s2 2" "word16 s2 2 = word16 s1 2" "word16 s1 2 = word16 s 2"
    using coff by (intro word16_frame [OF 2(2) 3(3,5)] word16_frame [OF 1(2) 2(3,4)] word16_frame [OF ok 1(3,4)]; simp)+
  have "(word_sum s4 + (addr_sum ns + addr_sum nd)) mod 65535 = (word_sum s + (addr_sum os + addr_sum od)) mod 65535"
    if on: "csum_on s"
  proof -
    have "word_sum s4 mod 65535 = word_sum s2 mod 65535" using on 1(5) 2(5) 3(6,7) 4(7) by simp
    then have "(word_sum s4 + addr_sum nd) mod 65535 = (word_sum s1 + addr_sum od) mod 65535"
      using on 1(5) 2(6) by (metis mod_add_cong)
    then show ?thesis using sum_chain [OF 1(6) [rule_format, OF on]] by blast
  qed
  moreover have "word16 s4 0 = (case new_src_port rw of Some p \<Rightarrow> p | None \<Rightarrow> word16 s 0)"
    using 3(4) w0 by (simp split: option.split)
  moreover have "word16 s4 2 = (case new_dst_port rw of Some p \<Rightarrow> p | None \<Rightarrow> word16 s 2)"
    using 4(4) w2 by (simp split: option.split)
  moreover have "\<forall>i < length s. i \<notin> {0, 1, 2, 3, coff, coff + 1} \<longrightarrow> s4 ! i = s ! i"
    using 1(3,4) 2(3,4) 3(3,5) 4(5) by simp
  moreover have "length s4 = length s" "csum_on s4 = csum_on s" using 1(3,5) 2(3,5) 3(3,6) 4(3,6) by simp_all
  ultimately show ?thesis using run 4(2) by blast
qed

lemma l4_rewrite_err:
  assumes "\<not> l4_ok s"
  shows "\<exists>e. l4_rewrite parse set_src_port set_dst_port patch_dword os ns od nd rw s = Some (s, Inl e)"
  using parse_err [OF assms] by (auto simp: l4_rewrite_def)

lemma l4_rewrite_sum:
  assumes "(word_sum s' + (addr_sum ns + addr_sum nd)) mod 65535 = (word_sum s + (addr_sum os + addr_sum od)) mod 65535"
    and "length s' = length s" and "length s \<le> 65535" and "pr \<noteq> 0"
  shows "l4_sum_ok ns nd pr s' \<longleftrightarrow> l4_sum_ok os od pr s"
proof -
  have "(pseudo_sum ns nd pr (length s') + word_sum s') mod 65535 =
      (pseudo_sum os od pr (length s) + word_sum s) mod 65535"
    using mod_add_cong [OF assms(1) refl, of "unat pr + length s"] assms(2)
    by (simp add: pseudo_sum_def ac_simps)
  then show ?thesis using assms by (simp add: l4_sum_ok_iff)
qed

end

section \<open>The whole operation\<close>

text \<open>The packet after the address part, and the transport part on its own.\<close>

definition put_src :: "bytes \<Rightarrow> ipv4addr option \<Rightarrow> bytes" where
  "put_src b s = (case s of None \<Rightarrow> b
     | Some a \<Rightarrow> patch (patch b 12 (octets a)) 10 (to_be16 (update_dword (word16 b 10) (word32 b 12) a)))"

definition put_dst :: "bytes \<Rightarrow> ipv4addr option \<Rightarrow> bytes" where
  "put_dst b d = (case d of None \<Rightarrow> b
     | Some a \<Rightarrow> patch (patch b 16 (octets a)) 10 (to_be16 (update_dword (word16 b 10) (word32 b 16) a)))"

lemma put_src_law:
  assumes "ipv4_ok b"
  shows "ipv4_ok (put_src b s)" "length (put_src b s) = length b" "ihl (put_src b s) = ihl b"
    "ip_sum_ok (put_src b s) \<longleftrightarrow> ip_sum_ok b"
    "word32 (put_src b s) 12 = (case s of None \<Rightarrow> word32 b 12 | Some a \<Rightarrow> a)" "word32 (put_src b s) 16 = word32 b 16"
    "\<forall>i < length b. i \<notin> {10..<16} \<longrightarrow> put_src b s ! i = b ! i"
proof -
  have len: "20 \<le> length b" using assms by (rule ipv4_okD)
  show "ipv4_ok (put_src b s)" "ihl (put_src b s) = ihl b" "ip_sum_ok (put_src b s) \<longleftrightarrow> ip_sum_ok b"
    using ip_sum_ok_put_addr [OF assms, of 12, OF _ _ _ refl] assms by (cases s; simp add: put_src_def)+
  show "length (put_src b s) = length b" "word32 (put_src b s) 12 = (case s of None \<Rightarrow> word32 b 12 | Some a \<Rightarrow> a)"
    "word32 (put_src b s) 16 = word32 b 16" "\<forall>i < length b. i \<notin> {10..<16} \<longrightarrow> put_src b s ! i = b ! i"
    using len by (cases s; auto simp: put_src_def word32_patch_other nth_patch)+
qed

lemma put_dst_law:
  assumes "ipv4_ok b"
  shows "ipv4_ok (put_dst b s)" "length (put_dst b s) = length b" "ihl (put_dst b s) = ihl b"
    "ip_sum_ok (put_dst b s) \<longleftrightarrow> ip_sum_ok b"
    "word32 (put_dst b s) 16 = (case s of None \<Rightarrow> word32 b 16 | Some a \<Rightarrow> a)" "word32 (put_dst b s) 12 = word32 b 12"
    "\<forall>i < length b. i \<notin> {10, 11} \<union> {16..<20} \<longrightarrow> put_dst b s ! i = b ! i"
proof -
  have len: "20 \<le> length b" using assms by (rule ipv4_okD)
  show "ipv4_ok (put_dst b s)" "ihl (put_dst b s) = ihl b" "ip_sum_ok (put_dst b s) \<longleftrightarrow> ip_sum_ok b"
    using ip_sum_ok_put_addr [OF assms, of 16, OF _ _ _ refl] assms by (cases s; simp add: put_dst_def)+
  show "length (put_dst b s) = length b" "word32 (put_dst b s) 16 = (case s of None \<Rightarrow> word32 b 16 | Some a \<Rightarrow> a)"
    "word32 (put_dst b s) 12 = word32 b 12" "\<forall>i < length b. i \<notin> {10, 11} \<union> {16..<20} \<longrightarrow> put_dst b s ! i = b ! i"
    using len by (cases s; auto simp: put_dst_def word32_patch_other nth_patch)+
qed

definition l4_part :: "bytes \<Rightarrow> rewrite \<Rightarrow> bytes \<Rightarrow> (bytes \<times> (parse_error + unit)) option" where
  "l4_part b rw = (\<lambda>l4.
     let os = word32 b 12; ns = (case new_src_ip rw of None \<Rightarrow> os | Some a \<Rightarrow> a);
         od = word32 b 16; nd = (case new_dst_ip rw of None \<Rightarrow> od | Some a \<Rightarrow> a) in
     if b ! 9 = proto_TCP then
       l4_rewrite TcpViewMut_parse TcpViewMut_set_src_port TcpViewMut_set_dst_port
         TcpViewMut_patch_checksum_dword os ns od nd rw l4
     else if b ! 9 = proto_UDP then
       l4_rewrite (\<lambda>b. Some (UdpViewMut_parse b)) UdpViewMut_set_src_port UdpViewMut_set_dst_port
         UdpViewMut_patch_checksum_dword os ns od nd rw l4
     else Some (l4, Inr ()))"

lemma nat_apply_eq:
  assumes ok: "ipv4_ok b" and rw: "\<not> Rewrite_is_noop rw"
  shows "nat_apply b rw =
    (let b' = put_dst (put_src b (new_src_ip rw)) (new_dst_ip rw) in
     do { (s', r) \<leftarrow> l4_part b rw (drop (ihl b) b'); Some (take (ihl b) b' @ s' @ drop (ihl b + length s') b', r) })"
proof -
  have len: "20 \<le> length b" "ihl b \<le> length b" using ipv4_okD [OF ok] by simp_all
  let ?b1 = "put_src b (new_src_ip rw)"
  let ?b2 = "put_dst ?b1 (new_dst_ip rw)"
  note S = put_src_law [OF ok, of "new_src_ip rw"]
  note D = put_dst_law [OF S(1), of "new_dst_ip rw"]
  have s: "(case new_src_ip rw of Some s \<Rightarrow> do { (b, _, n) \<leftarrow> Ipv4ViewMut_set_src b s; Some (b, n) }
      | None \<Rightarrow> Some (b, word32 b 12)) = Some (?b1, case new_src_ip rw of None \<Rightarrow> word32 b 12 | Some a \<Rightarrow> a)"
    using len by (cases "new_src_ip rw") (simp_all add: put_src_def Ipv4ViewMut_set_src_eq)
  have d: "(case new_dst_ip rw of Some s \<Rightarrow> do { (b, _, n) \<leftarrow> Ipv4ViewMut_set_dst ?b1 s; Some (b, n) }
      | None \<Rightarrow> Some (?b1, word32 b 16)) = Some (?b2, case new_dst_ip rw of None \<Rightarrow> word32 b 16 | Some a \<Rightarrow> a)"
    using len S(2) by (cases "new_dst_ip rw") (simp_all add: put_dst_def Ipv4ViewMut_set_dst_eq)
  have l2: "length ?b2 = length b" using S D by simp
  show ?thesis
    unfolding nat_apply_def if_not_P [OF rw]
    using ok len(1) s d
    by (simp add: Ipv4View_parse_ok Ipv4ViewMut_parse_ok Ipv4View_accessors Let_def l4_part_def [symmetric]
        sub_mut_eq len(2) l2 patch_def) (simp add: l4_part_def Let_def)
qed

text \<open>Segments whose checksum is in use, and where it is.\<close>

definition seg_on :: "u8 \<Rightarrow> bytes \<Rightarrow> bool" where
  "seg_on pr s \<longleftrightarrow> pr = proto_TCP \<or> udp_csum_on s"

definition seg_coff :: "u8 \<Rightarrow> nat" where
  "seg_coff pr = (if pr = proto_TCP then 16 else 6)"

text \<open>The key a rewrite gives a packet.\<close>

definition rewrite_tuple :: "rewrite \<Rightarrow> five_tuple \<Rightarrow> five_tuple" where
  "rewrite_tuple rw t = t
     \<lparr> src_ip := (case new_src_ip rw of None \<Rightarrow> src_ip t | Some a \<Rightarrow> a),
       dst_ip := (case new_dst_ip rw of None \<Rightarrow> dst_ip t | Some a \<Rightarrow> a),
       src_port := (case new_src_port rw of None \<Rightarrow> src_port t | Some p \<Rightarrow> p),
       dst_port := (case new_dst_port rw of None \<Rightarrow> dst_port t | Some p \<Rightarrow> p) \<rparr>"

lemma l4_part_ok:
  assumes hp: "has_ports b" and len: "length (l4_seg b) \<le> 65535"
  shows "\<exists>s'. l4_part b rw (l4_seg b) = Some (s', Inr ()) \<and> length s' = length (l4_seg b) \<and>
    (b ! 9 = proto_TCP \<and> tcp_ok s' \<or> b ! 9 = proto_UDP \<and> udp_ok s') \<and>
    word16 s' 0 = src_port (rewrite_tuple rw (tuple_of b)) \<and> word16 s' 2 = dst_port (rewrite_tuple rw (tuple_of b)) \<and>
    (\<forall>i < length (l4_seg b). i \<notin> {0, 1, 2, 3, seg_coff (b ! 9), seg_coff (b ! 9) + 1} \<longrightarrow> s' ! i = l4_seg b ! i) \<and>
    seg_on (b ! 9) s' = seg_on (b ! 9) (l4_seg b) \<and>
    (seg_on (b ! 9) (l4_seg b) \<longrightarrow>
      (l4_sum_ok (src_ip (rewrite_tuple rw (tuple_of b))) (dst_ip (rewrite_tuple rw (tuple_of b))) (b ! 9) s' \<longleftrightarrow>
       l4_sum_ok (word32 b 12) (word32 b 16) (b ! 9) (l4_seg b)))"
proof -
  let ?s = "l4_seg b" and ?t = "rewrite_tuple rw (tuple_of b)"
  let ?os = "word32 b 12" and ?od = "word32 b 16"
  have ns: "(case new_src_ip rw of None \<Rightarrow> ?os | Some a \<Rightarrow> a) = src_ip ?t"
      "(case new_dst_ip rw of None \<Rightarrow> ?od | Some a \<Rightarrow> a) = dst_ip ?t"
      "(case new_src_port rw of Some p \<Rightarrow> p | None \<Rightarrow> word16 ?s 0) = src_port ?t"
      "(case new_dst_port rw of Some p \<Rightarrow> p | None \<Rightarrow> word16 ?s 2) = dst_port ?t"
    by (simp_all add: rewrite_tuple_def tuple_of_def split: option.split)
  have diff: "proto_TCP \<noteq> proto_UDP" "proto_TCP \<noteq> 0" "proto_UDP \<noteq> 0" by (simp_all add: proto_defs)
  consider "b ! 9 = proto_TCP" "tcp_ok ?s" | "b ! 9 = proto_UDP" "udp_ok ?s"
    using hp by (auto simp: has_ports_def)
  then show ?thesis
  proof cases
    case 1
    show ?thesis
      using tcp.l4_rewrite_ok [OF 1(2), of ?os "src_ip ?t" ?od "dst_ip ?t" rw] 1(1) len diff
        tcp.l4_rewrite_sum [of _ "src_ip ?t" "dst_ip ?t" ?s ?os ?od proto_TCP]
      unfolding ns by (auto simp: l4_part_def Let_def ns seg_on_def seg_coff_def)
  next
    case 2
    show ?thesis
      using udp.l4_rewrite_ok [OF 2(2), of ?os "src_ip ?t" ?od "dst_ip ?t" rw] 2(1) len diff
        udp.l4_rewrite_sum [of _ "src_ip ?t" "dst_ip ?t" ?s ?os ?od proto_UDP]
      unfolding ns by (auto simp: l4_part_def Let_def ns seg_on_def seg_coff_def)
  qed
qed

text \<open>The shape of the result.\<close>

lemma nat_apply_split:
  assumes hp: "has_ports b" and rw: "\<not> Rewrite_is_noop rw"
    and run: "l4_part b rw (l4_seg b) = Some (s', r)" and s': "length s' = length (l4_seg b)"
  defines "h \<equiv> take (ihl b) (put_dst (put_src b (new_src_ip rw)) (new_dst_ip rw))"
  shows "nat_apply b rw = Some (h @ s', r)" and "length h = ihl b"
    and "ipv4_ok (h @ s')" and "ihl (h @ s') = ihl b" and "ip_sum_ok (h @ s') \<longleftrightarrow> ip_sum_ok b"
    and "word32 (h @ s') 12 = (case new_src_ip rw of None \<Rightarrow> word32 b 12 | Some a \<Rightarrow> a)"
    and "word32 (h @ s') 16 = (case new_dst_ip rw of None \<Rightarrow> word32 b 16 | Some a \<Rightarrow> a)"
    and "\<forall>i < ihl b. i \<notin> {10..<20} \<longrightarrow> h ! i = b ! i"
proof -
  have ok: "ipv4_ok b" using hp by (simp add: has_ports_def)
  let ?b1 = "put_src b (new_src_ip rw)"
  let ?b2 = "put_dst ?b1 (new_dst_ip rw)"
  note S = put_src_law [OF ok, of "new_src_ip rw"]
  note D = put_dst_law [OF S(1), of "new_dst_ip rw"]
  have len: "20 \<le> ihl b" "ihl b \<le> length b" "length ?b2 = length b" using ipv4_okD [OF ok] S(2) D(2) by simp_all
  have same: "i < length b \<Longrightarrow> i \<notin> {10..<20} \<Longrightarrow> ?b2 ! i = b ! i" for i using S(2,7) D(7) by auto
  have seg: "drop (ihl b) ?b2 = l4_seg b"
    using len same by (auto simp: l4_seg_def list_eq_iff_nth_eq)
  have L: "length s' = length b - ihl b" using s' by (simp add: l4_seg_def)
  show "nat_apply b rw = Some (h @ s', r)"
    unfolding nat_apply_eq [OF ok rw] Let_def seg h_def using run L len by simp
  show lh: "length h = ihl b" using len by (simp add: h_def)
  have hn: "(h @ s') ! i = ?b2 ! i" if "i < 20" for i using that len by (simp add: h_def nth_append)
  have w: "word32 (h @ s') 12 = word32 ?b2 12" "word32 (h @ s') 16 = word32 ?b2 16"
    "word16 (h @ s') 2 = word16 ?b2 2" by (simp_all add: word32_def word16_def hn)
  have i: "ihl (h @ s') = ihl ?b2" by (simp add: ihl_def hn)
  have i2: "ihl ?b2 = ihl b" using S(3) D(3) by simp
  show "ihl (h @ s') = ihl b" using i i2 by simp
  have "length (h @ s') = length ?b2" using lh L len by simp
  then show "ipv4_ok (h @ s')" using D(1) hn [of 0] i w(3) by (simp only: ipv4_ok_def)
  have "take (ihl b) (h @ s') = take (ihl b) ?b2" using lh by (simp add: h_def)
  then show "ip_sum_ok (h @ s') \<longleftrightarrow> ip_sum_ok b" using i i2 S(4) D(4) by (simp add: ip_sum_ok_def)
  show "word32 (h @ s') 12 = (case new_src_ip rw of None \<Rightarrow> word32 b 12 | Some a \<Rightarrow> a)"
    "word32 (h @ s') 16 = (case new_dst_ip rw of None \<Rightarrow> word32 b 16 | Some a \<Rightarrow> a)"
    using w S(5,6) D(5,6) by (simp_all split: option.split)
  show "\<forall>i < ihl b. i \<notin> {10..<20} \<longrightarrow> h ! i = b ! i" using same len by (simp add: h_def)
qed

section \<open>Properties\<close>

lemma nat_apply_total: "\<exists>b' r. nat_apply b rw = Some (b', r) \<and> length b' = length b"
proof (cases "Rewrite_is_noop rw \<or> \<not> ipv4_ok b")
  case True
  then show ?thesis using Ipv4View_parse_err [of b] by (auto simp: nat_apply_def)
next
  case False
  then have ok: "ipv4_ok b" by simp
  let ?b2 = "put_dst (put_src b (new_src_ip rw)) (new_dst_ip rw)"
  have len: "length ?b2 = length b" "ihl b \<le> length b"
    using put_src_law [OF ok] put_dst_law ipv4_okD [OF ok] by simp_all
  let ?s = "drop (ihl b) ?b2"
  have tcp: "\<exists>s' r. l4_rewrite TcpViewMut_parse TcpViewMut_set_src_port TcpViewMut_set_dst_port
      TcpViewMut_patch_checksum_dword os ns od nd rw ?s = Some (s', r) \<and> length s' = length ?s" for os ns od nd
    using tcp.l4_rewrite_ok [of ?s os ns od nd rw] tcp.l4_rewrite_err [of ?s os ns od nd rw] by blast
  have udp: "\<exists>s' r. l4_rewrite (\<lambda>b. Some (UdpViewMut_parse b)) UdpViewMut_set_src_port UdpViewMut_set_dst_port
      UdpViewMut_patch_checksum_dword os ns od nd rw ?s = Some (s', r) \<and> length s' = length ?s" for os ns od nd
    using udp.l4_rewrite_ok [of ?s os ns od nd rw] udp.l4_rewrite_err [of ?s os ns od nd rw] by blast
  have "\<exists>s' r. l4_part b rw ?s = Some (s', r) \<and> length s' = length ?s"
    unfolding l4_part_def Let_def using tcp udp by (simp del: length_drop)
  then obtain s' r where run: "l4_part b rw ?s = Some (s', r)" "length s' = length ?s" by blast
  have "length (take (ihl b) ?b2 @ s' @ drop (ihl b + length s') ?b2) = length b"
    using run(2) len by simp
  then show ?thesis using nat_apply_eq [OF ok, of rw] run(1) False by (auto simp: Let_def)
qed

lemma nat_apply_law:
  assumes "five_tuple_of b = Some (Some t)" and "length b \<le> 65535"
  shows "\<exists>b' c. nat_apply b rw = Some (b', Inr ()) \<and> length b' = length b \<and>
    five_tuple_of b' = Some (Some (rewrite_tuple rw t)) \<and>
    Ipv4View_checksum_valid b' = Ipv4View_checksum_valid b \<and>
    ihl b' = ihl b \<and> seg_on (protocol t) (l4_seg b') = seg_on (protocol t) (l4_seg b) \<and>
    (seg_on (protocol t) (l4_seg b) \<longrightarrow>
       (l4_sum_ok (src_ip (rewrite_tuple rw t)) (dst_ip (rewrite_tuple rw t)) (protocol t) (l4_seg b') \<longleftrightarrow>
        l4_sum_ok (src_ip t) (dst_ip t) (protocol t) (l4_seg b))) \<and>
    c = ihl b + seg_coff (protocol t) \<and>
    (\<forall>i < length b. i \<notin> {10..<20} \<union> {ihl b..<ihl b + 4} \<union> {c, c + 1} \<longrightarrow> b' ! i = b ! i)"
proof -
  have hp: "has_ports b" and t: "t = tuple_of b" using assms(1) by (auto simp: five_tuple_of_eq split: if_splits)
  have pr: "protocol t = b ! 9" "src_ip t = word32 b 12" "dst_ip t = word32 b 16" by (simp_all add: t tuple_of_def)
  have ok: "ipv4_ok b" using hp by (simp add: has_ports_def)
  show ?thesis
  proof (cases "Rewrite_is_noop rw")
    case True
    then have "rewrite_tuple rw t = t" by (simp add: Rewrite_is_noop_def rewrite_tuple_def)
    then show ?thesis using True assms(1) by (simp add: nat_apply_def)
  next
    case False
    have segl: "length (l4_seg b) \<le> 65535" using assms(2) by (simp add: l4_seg_def)
    obtain s' where s: "l4_part b rw (l4_seg b) = Some (s', Inr ())" "length s' = length (l4_seg b)"
        "b ! 9 = proto_TCP \<and> tcp_ok s' \<or> b ! 9 = proto_UDP \<and> udp_ok s'"
        "word16 s' 0 = src_port (rewrite_tuple rw t)" "word16 s' 2 = dst_port (rewrite_tuple rw t)"
        "\<forall>i < length (l4_seg b). i \<notin> {0, 1, 2, 3, seg_coff (b ! 9), seg_coff (b ! 9) + 1} \<longrightarrow> s' ! i = l4_seg b ! i"
        "seg_on (b ! 9) s' = seg_on (b ! 9) (l4_seg b)"
        "seg_on (b ! 9) (l4_seg b) \<longrightarrow>
          (l4_sum_ok (src_ip (rewrite_tuple rw t)) (dst_ip (rewrite_tuple rw t)) (b ! 9) s' \<longleftrightarrow>
           l4_sum_ok (word32 b 12) (word32 b 16) (b ! 9) (l4_seg b))"
      using l4_part_ok [OF hp segl, of rw] unfolding t by blast
    define h where "h = take (ihl b) (put_dst (put_src b (new_src_ip rw)) (new_dst_ip rw))"
    note R = nat_apply_split [OF hp False s(1,2), folded h_def]
    have i20: "20 \<le> ihl b" "ihl b \<le> length b" using ipv4_okD [OF ok] by simp_all
    have seg: "l4_seg (h @ s') = s'" using R(2,4) by (simp add: l4_seg_def)
    have p9: "(h @ s') ! 9 = b ! 9" using R(2,8) i20 by (simp add: nth_append)
    have len: "length (h @ s') = length b" using R(2) s(2) i20 by (simp add: l4_seg_def)
    have "has_ports (h @ s')" using R(3) s(3) by (simp add: has_ports_def seg p9)
    moreover have "tuple_of (h @ s') = rewrite_tuple rw t"
      using R(6,7) s(4,5) by (simp add: tuple_of_def seg p9 rewrite_tuple_def t split: option.splits)
    ultimately have ft: "five_tuple_of (h @ s') = Some (Some (rewrite_tuple rw t))" by (simp add: five_tuple_of_eq)
    have frame: "(h @ s') ! i = b ! i" if "i < length b"
      "i \<notin> {10..<20} \<union> {ihl b..<ihl b + 4} \<union> {ihl b + seg_coff (b ! 9), ihl b + seg_coff (b ! 9) + 1}" for i
    proof (cases "i < ihl b")
      case True
      then show ?thesis using R(2,8) that by (simp add: nth_append)
    next
      case False
      then have "i - ihl b < length (l4_seg b)" "l4_seg b ! (i - ihl b) = b ! i"
        using that(1) i20 by (simp_all add: l4_seg_def)
      moreover have "i - ihl b \<notin> {0, 1, 2, 3, seg_coff (b ! 9), seg_coff (b ! 9) + 1}"
        using that(2) False by auto
      ultimately show ?thesis using s(6) R(2) False by (simp add: nth_append)
    qed
    show ?thesis
      unfolding pr
      by (rule exI [of _ "h @ s'"], rule exI [of _ "ihl b + seg_coff (b ! 9)"])
        (use R(1,3,4,5) ok ft len frame s(7,8) in \<open>simp add: seg Ipv4View_checksum_valid_eq\<close>)
  qed
qed

text \<open>C5: applying a rewrite to a packet with a TCP or UDP header. The operation succeeds; the
  packet keeps its length and stays well-formed; its key becomes the key with the requested
  addresses and ports; the IPv4 header checksum and, when the transport checksum is in use,
  the transport checksum are valid after the rewrite exactly when they were before (each
  for its own addresses); a UDP checksum that was off stays off; and every byte outside the
  two addresses, the two ports and the two checksums is untouched.\<close>

theorem nat_apply_correct:
  assumes "five_tuple_of b = Some (Some t)" and "length b \<le> 65535"
  shows "\<exists>b' c. nat_apply b rw = Some (b', Inr ()) \<and> length b' = length b \<and>
    five_tuple_of b' = Some (Some (rewrite_tuple rw t)) \<and>
    Ipv4View_checksum_valid b' = Ipv4View_checksum_valid b \<and>
    ihl b' = ihl b \<and> seg_on (protocol t) (l4_seg b') = seg_on (protocol t) (l4_seg b) \<and>
    (seg_on (protocol t) (l4_seg b) \<longrightarrow>
       (l4_sum_ok (src_ip (rewrite_tuple rw t)) (dst_ip (rewrite_tuple rw t)) (protocol t) (l4_seg b') \<longleftrightarrow>
        l4_sum_ok (src_ip t) (dst_ip t) (protocol t) (l4_seg b))) \<and>
    c = ihl b + seg_coff (protocol t) \<and>
    (\<forall>i < length b. i \<notin> {10..<20} \<union> {ihl b..<ihl b + 4} \<union> {c, c + 1} \<longrightarrow> b' ! i = b ! i)"
  using assms by (rule nat_apply_law)

text \<open>The sample header with the sample UDP segment, and a source rewrite.\<close>

definition sample_pkt :: bytes where
  "sample_pkt = [0x45, 0, 0, 30, 0, 1, 0, 0, 64, 17, 0x66, 0xcc, 10, 0, 0, 1, 10, 0, 0, 2] @ sample_udp"

definition sample_rewrite :: rewrite where
  "sample_rewrite = Rewrite_default \<lparr> new_src_ip := Some 0xcb007101, new_src_port := Some 40000 \<rparr>"

theorem nat_apply_correct_witness:
  "\<exists>b'. nat_apply sample_pkt sample_rewrite = Some (b', Inr ()) \<and>
     five_tuple_of b' = Some (Some \<lparr> src_ip = 0xcb007101, dst_ip = 0x0a000002, protocol = 17,
       src_port = 40000, dst_port = 53 \<rparr>) \<and> Ipv4View_checksum_valid b' = Some True"
proof -
  let ?t = "\<lparr> src_ip = 0x0a000001, dst_ip = 0x0a000002, protocol = 17, src_port = 1000, dst_port = 53 \<rparr> :: five_tuple"
  have "five_tuple_of sample_pkt = Some (Some ?t)" "Ipv4View_checksum_valid sample_pkt = Some True"
    by code_simp+
  moreover have "length sample_pkt \<le> 65535" by (simp add: sample_pkt_def sample_udp_def)
  moreover have "rewrite_tuple sample_rewrite ?t = \<lparr> src_ip = 0xcb007101, dst_ip = 0x0a000002, protocol = 17,
       src_port = 40000, dst_port = 53 \<rparr>" by (simp add: rewrite_tuple_def sample_rewrite_def Rewrite_default_def)
  ultimately show ?thesis using nat_apply_correct [of sample_pkt ?t sample_rewrite] by auto
qed

text \<open>Applying a rewrite returns on every byte string and every rewrite, and never changes the
  length of the packet.\<close>

lemma nat_apply_never_panics: "\<exists>b' r. nat_apply b rw = Some (b', r) \<and> length b' = length b"
  by (rule nat_apply_total)

end
