(* ===== verification/Pipeline.thy ===== *)
theory Pipeline
  imports Overlay Arp Icmp Fabric Nat_Apply Nat_Inv
begin

text \<open>
  \<open>andromeda-dataplane/src/pipeline.rs\<close>: the per-packet forwarding pipeline. The state is the
  configuration, the fabric map, the translation engine, the precomputed outer header, the
  identification counter and the statistics. Every handler returns the new state, the
  output buffer and its decision, or \<open>None\<close> for a panic. The fabric field is the value of
  the shared \<open>ArcSwap\<close> handle during the call. Closed forms, the state invariant and the
  theorems are in \<open>Pipeline_Refine\<close>, \<open>Pipeline_Inv\<close> and \<open>Pipeline_Props\<close>.
\<close>

section \<open>State\<close>

record pipeline_config =
  pc_local_node_ip :: ipv4addr
  pc_outer_src_mac :: mac_addr
  pc_outer_dst_mac :: mac_addr
  pc_vni :: u32
  pc_nat_ip :: "ipv4addr option"
  pc_gateway_node_ip :: "ipv4addr option"
  pc_virtual_gateway_mac :: mac_addr
  pc_outer_udp_checksum :: bool
  pc_underlay_mtu :: u16
  pc_virtual_gateway_ip :: ipv4addr

datatype decision = Forward nat | Reply nat | Drop string | Pass

record pipeline_stats =
  ps_encapped :: u64
  ps_decapped :: u64
  ps_natted :: u64
  ps_arp_replied :: u64
  ps_pmtud_replied :: u64
  ps_dropped :: u64
  ps_passed :: u64

definition PipelineStats_default :: pipeline_stats where
  "PipelineStats_default =
     \<lparr> ps_encapped = 0, ps_decapped = 0, ps_natted = 0, ps_arp_replied = 0, ps_pmtud_replied = 0,
       ps_dropped = 0, ps_passed = 0 \<rparr>"

record frame_slot =
  fs_offset :: nat
  fs_inner_len :: nat

record outer_template =
  ot_prefix :: bytes
  ot_ip_csum_base :: u32

record pipeline =
  p_cfg :: pipeline_config
  p_fabric :: fabric
  p_nat :: nat_engine
  p_tmpl :: outer_template
  p_ip_id :: u16
  p_stats :: pipeline_stats

section \<open>Construction\<close>

definition OuterTemplate_new :: "pipeline_config \<Rightarrow> outer_template option" where
  "OuterTemplate_new cfg = do {
     let p = replicate 42 0;
     (p, _) \<leftarrow> sub_mut p 0 14
       (\<lambda>s. ethernet_write_header s (pc_outer_dst_mac cfg) (pc_outer_src_mac cfg) ethertype_IPV4);
     p \<leftarrow> wr8 p 14 0x45;
     p \<leftarrow> put p 20 22 (to_be16 0x4000);
     p \<leftarrow> wr8 p 22 64;
     p \<leftarrow> wr8 p 23 proto_UDP;
     p \<leftarrow> put p 26 30 (octets (pc_local_node_ip cfg));
     p \<leftarrow> put p 36 38 (to_be16 ANDROMEDA_UDP_PORT);
     hi \<leftarrow> rd16 p 26;
     lo \<leftarrow> rd16 p 28;
     let ip_csum_base = 0x4500 + 0x4000 + 0x4011 + ucast hi + ucast lo;
     Some \<lparr> ot_prefix = p, ot_ip_csum_base = ip_csum_base \<rparr> }"

definition Pipeline_new_shared :: "pipeline_config \<Rightarrow> fabric \<Rightarrow> nat_engine \<Rightarrow> pipeline option" where
  "Pipeline_new_shared cfg fab eng = do {
     tmpl \<leftarrow> OuterTemplate_new cfg;
     Some \<lparr> p_cfg = cfg, p_fabric = fab, p_nat = eng, p_tmpl = tmpl, p_ip_id = 0,
            p_stats = PipelineStats_default \<rparr> }"

definition Pipeline_new :: "pipeline_config \<Rightarrow> fabric \<Rightarrow> nat_engine \<Rightarrow> pipeline option" where
  "Pipeline_new cfg fab eng = Pipeline_new_shared cfg fab eng"

definition Pipeline_reload_fabric :: "pipeline \<Rightarrow> fabric \<Rightarrow> pipeline" where
  "Pipeline_reload_fabric p new = p \<lparr> p_fabric := new \<rparr>"

definition Pipeline_stats :: "pipeline \<Rightarrow> pipeline_stats" where
  "Pipeline_stats p = p_stats p"

definition Pipeline_config :: "pipeline \<Rightarrow> pipeline_config" where
  "Pipeline_config p = p_cfg p"

definition Pipeline_gc :: "pipeline \<Rightarrow> u64 \<Rightarrow> u64 \<Rightarrow> (pipeline \<times> nat) option" where
  "Pipeline_gc p now idle = do {
     (eng, freed) \<leftarrow> NatEngine_gc (p_nat p) now idle;
     Some (p \<lparr> p_nat := eng \<rparr>, freed) }"

definition Pipeline_next_ip_id :: "pipeline \<Rightarrow> pipeline \<times> u16" where
  "Pipeline_next_ip_id p = (let p = p \<lparr> p_ip_id := p_ip_id p + 1 \<rparr> in (p, p_ip_id p))"

section \<open>Counters\<close>

definition add_encapped :: "u64 \<Rightarrow> pipeline \<Rightarrow> pipeline" where
  "add_encapped n p = p \<lparr> p_stats := (p_stats p) \<lparr> ps_encapped := ps_encapped (p_stats p) + n \<rparr> \<rparr>"

definition add_decapped :: "u64 \<Rightarrow> pipeline \<Rightarrow> pipeline" where
  "add_decapped n p = p \<lparr> p_stats := (p_stats p) \<lparr> ps_decapped := ps_decapped (p_stats p) + n \<rparr> \<rparr>"

definition add_natted :: "u64 \<Rightarrow> pipeline \<Rightarrow> pipeline" where
  "add_natted n p = p \<lparr> p_stats := (p_stats p) \<lparr> ps_natted := ps_natted (p_stats p) + n \<rparr> \<rparr>"

definition add_arp_replied :: "u64 \<Rightarrow> pipeline \<Rightarrow> pipeline" where
  "add_arp_replied n p = p \<lparr> p_stats := (p_stats p) \<lparr> ps_arp_replied := ps_arp_replied (p_stats p) + n \<rparr> \<rparr>"

definition add_pmtud_replied :: "u64 \<Rightarrow> pipeline \<Rightarrow> pipeline" where
  "add_pmtud_replied n p =
     p \<lparr> p_stats := (p_stats p) \<lparr> ps_pmtud_replied := ps_pmtud_replied (p_stats p) + n \<rparr> \<rparr>"

definition add_dropped :: "u64 \<Rightarrow> pipeline \<Rightarrow> pipeline" where
  "add_dropped n p = p \<lparr> p_stats := (p_stats p) \<lparr> ps_dropped := ps_dropped (p_stats p) + n \<rparr> \<rparr>"

definition add_passed :: "u64 \<Rightarrow> pipeline \<Rightarrow> pipeline" where
  "add_passed n p = p \<lparr> p_stats := (p_stats p) \<lparr> ps_passed := ps_passed (p_stats p) + n \<rparr> \<rparr>"

definition Pipeline_drop :: "pipeline \<Rightarrow> string \<Rightarrow> pipeline \<times> decision" where
  "Pipeline_drop p why = (add_dropped 1 p, Drop why)"

text \<open>\<open>return self.drop(why)\<close>, with the output buffer as it is.\<close>

definition return_drop :: "pipeline \<Rightarrow> bytes \<Rightarrow> string \<Rightarrow> (pipeline \<times> bytes \<times> decision) option" where
  "return_drop p out why = (case Pipeline_drop p why of (p, d) \<Rightarrow> Some (p, out, d))"

section \<open>The outer header\<close>

definition flow_hash_of :: "bytes \<Rightarrow> u16 option" where
  "flow_hash_of ip = do {
     p \<leftarrow> Ipv4View_protocol ip;
     if p = proto_TCP \<or> p = proto_UDP then do {
       l4 \<leftarrow> Ipv4View_payload ip;
       if 4 \<le> length l4 then do {
         sp \<leftarrow> rd16 l4 0;
         dp \<leftarrow> rd16 l4 2;
         src \<leftarrow> Ipv4View_src ip;
         dst \<leftarrow> Ipv4View_dst ip;
         Some (flow_hash src dst p sp dp) }
       else Some 0 }
     else Some 0 }"

definition Pipeline_stamp_outer ::
    "pipeline_config \<Rightarrow> outer_template \<Rightarrow> bytes \<Rightarrow> nat \<Rightarrow> ipv4addr \<Rightarrow> u16 \<Rightarrow> u16 \<Rightarrow> u32 \<Rightarrow> bytes option" where
  "Pipeline_stamp_outer cfg tmpl out inner_len dst flow ip_id vni = do {
     out \<leftarrow> put out 0 42 (ot_prefix tmpl);
     let total_len = (of_nat (IPV4_MIN_HDR_LEN + 8 + ANDROMEDA_HDR_LEN + inner_len) :: u16);
     out \<leftarrow> put out 16 18 (to_be16 total_len);
     out \<leftarrow> put out 18 20 (to_be16 ip_id);
     let d = octets dst;
     out \<leftarrow> put out 30 34 d;
     dhi \<leftarrow> rd16 d 0;
     dlo \<leftarrow> rd16 d 2;
     let sum = ot_ip_csum_base tmpl + ucast total_len + ucast ip_id + ucast dhi + ucast dlo;
     let csum = NOT (checksum_fold sum);
     out \<leftarrow> put out 24 26 (to_be16 csum);
     out \<leftarrow> put out 34 36 (to_be16 (flow OR 0xc000));
     let udp_len = (of_nat (8 + ANDROMEDA_HDR_LEN + inner_len) :: u16);
     out \<leftarrow> put out 38 40 (to_be16 udp_len);
     (out, _) \<leftarrow> sub_mut out 42 50
       (\<lambda>s. do { s \<leftarrow> AndromedaHdr_encode (AndromedaHdr_new vni flow) s; Some (s, ()) });
     if pc_outer_udp_checksum cfg then do {
       let end = OVERLAY_OVERHEAD + inner_len;
       l4 \<leftarrow> slice out 34 end;
       let c = udp_compute_checksum (pc_local_node_ip cfg) dst l4;
       put out 40 42 (to_be16 c) }
     else Some out }"

section \<open>Tenant to underlay\<close>

text \<open>The next hop within a VNI, or the default route: the underlay node, the inner destination
  MAC to write, and whether the flow leaves the VPC and is translated.\<close>

definition next_hop_of ::
    "pipeline_config \<Rightarrow> fabric \<Rightarrow> u32 \<Rightarrow> ipv4addr \<Rightarrow> (ipv4addr \<times> mac_addr option \<times> bool) option" where
  "next_hop_of cfg fab vni inner_dst =
     (case Fabric_resolve fab vni inner_dst of
        Some nh \<Rightarrow> Some (nh_node_ip nh, Some (nh_inner_mac nh), False)
      | None \<Rightarrow>
          (case pc_gateway_node_ip cfg of
             Some gw \<Rightarrow> Some (gw, None, pc_nat_ip cfg \<noteq> None)
           | None \<Rightarrow> None))"

definition inner_mtu_of :: "pipeline_config \<Rightarrow> u16" where
  "inner_mtu_of cfg = saturating_sub (pc_underlay_mtu cfg) (of_nat OVERLAY_OVERHEAD)"

text \<open>Translation of the IPv4 packet in a slice; the flag tells whether \<open>natted\<close> is counted.\<close>

definition nat_translate ::
    "nat_engine \<Rightarrow> direction \<Rightarrow> u64 \<Rightarrow> bytes \<Rightarrow> (bytes \<times> nat_engine \<times> bool) option" where
  "nat_translate eng dir now pkt = do {
     t \<leftarrow> five_tuple_of pkt;
     (case t of
        None \<Rightarrow> Some (pkt, eng, False)
      | Some t \<Rightarrow> do {
          (eng, rw) \<leftarrow> NatEngine_process eng t dir now;
          if Rewrite_is_noop rw then Some (pkt, eng, False)
          else do {
            (pkt, _) \<leftarrow> nat_apply pkt rw;
            Some (pkt, eng, True) } }) }"

text \<open>Translation on egress, with the flow hash recomputed from the new header.\<close>

definition snat_egress ::
    "nat_engine \<Rightarrow> u64 \<Rightarrow> u16 \<Rightarrow> bytes \<Rightarrow> (bytes \<times> nat_engine \<times> bool \<times> u16) option" where
  "snat_egress eng now flow pkt = do {
     (pkt, eng, natted) \<leftarrow> nat_translate eng Outbound now pkt;
     r \<leftarrow> Ipv4View_parse pkt;
     flow \<leftarrow> (case r of Inr ip2 \<Rightarrow> flow_hash_of ip2 | Inl _ \<Rightarrow> Some flow);
     Some (pkt, eng, natted, flow) }"

text \<open>What the three tenant paths do to a buffer that holds the inner frame after 50 bytes of
  headroom: the inner destination MAC, the translation, and the outer header.\<close>

definition egress_frame ::
    "pipeline_config \<Rightarrow> outer_template \<Rightarrow> nat_engine \<Rightarrow> u16 \<Rightarrow> bytes \<Rightarrow> nat \<Rightarrow>
     ipv4addr \<times> mac_addr option \<times> bool \<Rightarrow> u16 \<Rightarrow> u32 \<Rightarrow> u64 \<Rightarrow> (bytes \<times> nat_engine \<times> bool) option" where
  "egress_frame cfg tmpl eng ip_id frame inner_len hop flow vni now =
     (case hop of (dst_node, new_dst_mac, do_snat) \<Rightarrow> do {
        let ioff = OVERLAY_OVERHEAD;
        let end = ioff + inner_len;
        frame \<leftarrow> (case new_dst_mac of
            Some m \<Rightarrow> put frame ioff (ioff + 6) (mac_bytes m)
          | None \<Rightarrow> Some frame);
        (frame, eng, natted, flow) \<leftarrow>
          (if do_snat then sub_mut frame (ioff + ETH_HDR_LEN) end (snat_egress eng now flow)
           else Some (frame, eng, False, flow));
        frame \<leftarrow> Pipeline_stamp_outer cfg tmpl frame inner_len dst_node flow ip_id vni;
        Some (frame, eng, natted) })"

definition Pipeline_encap_for_vni ::
    "pipeline \<Rightarrow> bytes \<Rightarrow> bytes \<Rightarrow> u64 \<Rightarrow> u32 \<Rightarrow> (pipeline \<times> bytes \<times> decision) option" where
  "Pipeline_encap_for_vni p inner out now vni =
     (case EthFrame_parse inner of
        Inl _ \<Rightarrow> return_drop p out ''bad-inner-eth''
      | Inr eth \<Rightarrow> do {
          ethertype \<leftarrow> EthFrame_ethertype eth;
          payload \<leftarrow> EthFrame_payload eth;
          if ethertype = ethertype_ARP then do {
            r \<leftarrow> ArpView_parse payload;
            answer \<leftarrow> (case r of
                Inl _ \<Rightarrow> Some False
              | Inr a \<Rightarrow> do {
                  is_req \<leftarrow> ArpView_is_request a;
                  tip \<leftarrow> ArpView_target_ip a;
                  sip \<leftarrow> ArpView_sender_ip a;
                  Some (is_req \<and> tip \<noteq> sip) });
            if answer then do {
              (out, r) \<leftarrow> arp_write_reply out payload (pc_virtual_gateway_mac (p_cfg p));
              (case r of
                 Inr n \<Rightarrow> Some (add_arp_replied 1 p, out, Reply n)
               | Inl _ \<Rightarrow> return_drop p out ''arp-build'') }
            else return_drop p out ''arp-ignored'' }
          else if ethertype \<noteq> ethertype_IPV4 then return_drop p out ''non-ipv4-inner''
          else do {
            r \<leftarrow> Ipv4View_parse payload;
            (case r of
               Inl _ \<Rightarrow> return_drop p out ''bad-inner-ip''
             | Inr ip \<Rightarrow> do {
                 inner_dst \<leftarrow> Ipv4View_dst ip;
                 flow \<leftarrow> flow_hash_of ip;
                 (case next_hop_of (p_cfg p) (p_fabric p) vni inner_dst of
                    None \<Rightarrow> return_drop p out ''no-route''
                  | Some hop \<Rightarrow> do {
                      let inner_mtu = inner_mtu_of (p_cfg p);
                      df \<leftarrow> Ipv4View_dont_fragment ip;
                      total_len \<leftarrow> Ipv4View_total_length ip;
                      if df \<and> inner_mtu < total_len then do {
                        (out, r) \<leftarrow> write_frag_needed out inner (pc_virtual_gateway_mac (p_cfg p))
                          (pc_virtual_gateway_ip (p_cfg p)) inner_mtu;
                        (case r of
                           Inr n \<Rightarrow> Some (add_pmtud_replied 1 p, out, Reply n)
                         | Inl _ \<Rightarrow> return_drop p out ''pmtud-build'') }
                      else do {
                        let ioff = OVERLAY_OVERHEAD;
                        let end = ioff + length inner;
                        if length out < end then return_drop p out ''encap-out-too-small''
                        else do {
                          out \<leftarrow> put out ioff end inner;
                          let (p, ip_id) = Pipeline_next_ip_id p;
                          (out, eng, natted) \<leftarrow>
                            egress_frame (p_cfg p) (p_tmpl p) (p_nat p) ip_id out (length inner) hop flow vni now;
                          let p = p \<lparr> p_nat := eng \<rparr>;
                          let p = (if natted then add_natted 1 p else p);
                          Some (add_encapped 1 p, out, Forward end) } } }) }) } })"

definition Pipeline_on_tenant_frame ::
    "pipeline \<Rightarrow> bytes \<Rightarrow> bytes \<Rightarrow> u64 \<Rightarrow> (pipeline \<times> bytes \<times> decision) option" where
  "Pipeline_on_tenant_frame p inner out now = Pipeline_encap_for_vni p inner out now (pc_vni (p_cfg p))"

text \<open>The in-place parse of the inner frame: a drop reason, or the destination, the flow hash,
  the Don't Fragment bit and the total length.\<close>

definition parse_inner :: "bytes \<Rightarrow> (string + ipv4addr \<times> u16 \<times> bool \<times> u16) option" where
  "parse_inner inner =
     (case EthFrame_parse inner of
        Inl _ \<Rightarrow> Some (Inl ''bad-inner-eth'')
      | Inr eth \<Rightarrow> do {
          ethertype \<leftarrow> EthFrame_ethertype eth;
          if ethertype \<noteq> ethertype_IPV4 then Some (Inl ''non-ipv4-inner'')
          else do {
            payload \<leftarrow> EthFrame_payload eth;
            r \<leftarrow> Ipv4View_parse payload;
            (case r of
               Inl _ \<Rightarrow> Some (Inl ''bad-inner-ip'')
             | Inr ip \<Rightarrow> do {
                 dst \<leftarrow> Ipv4View_dst ip;
                 flow \<leftarrow> flow_hash_of ip;
                 df \<leftarrow> Ipv4View_dont_fragment ip;
                 total_len \<leftarrow> Ipv4View_total_length ip;
                 Some (Inr (dst, flow, df, total_len)) }) } })"

definition Pipeline_on_tenant_frame_inplace ::
    "pipeline \<Rightarrow> bytes \<Rightarrow> nat \<Rightarrow> u64 \<Rightarrow> (pipeline \<times> bytes \<times> decision) option" where
  "Pipeline_on_tenant_frame_inplace p frame inner_len now =
     (let ioff = OVERLAY_OVERHEAD; end = usize_add ioff inner_len in
      if length frame < end then return_drop p frame ''frame-too-small''
      else do {
        inner \<leftarrow> slice frame ioff end;
        r \<leftarrow> parse_inner inner;
        (case r of
           Inl why \<Rightarrow> return_drop p frame why
         | Inr (inner_dst, flow, df, total_len) \<Rightarrow>
             (case next_hop_of (p_cfg p) (p_fabric p) (pc_vni (p_cfg p)) inner_dst of
                None \<Rightarrow> return_drop p frame ''no-route''
              | Some hop \<Rightarrow> do {
                  let inner_mtu = inner_mtu_of (p_cfg p);
                  if df \<and> inner_mtu < total_len then do {
                    orig \<leftarrow> slice frame ioff end;
                    (frame, r) \<leftarrow> write_frag_needed frame orig (pc_virtual_gateway_mac (p_cfg p))
                      (pc_virtual_gateway_ip (p_cfg p)) inner_mtu;
                    (case r of
                       Inr n \<Rightarrow> Some (add_pmtud_replied 1 p, frame, Reply n)
                     | Inl _ \<Rightarrow> return_drop p frame ''pmtud-build'') }
                  else do {
                    let (p, ip_id) = Pipeline_next_ip_id p;
                    (frame, eng, natted) \<leftarrow>
                      egress_frame (p_cfg p) (p_tmpl p) (p_nat p) ip_id frame inner_len hop flow
                        (pc_vni (p_cfg p)) now;
                    let p = p \<lparr> p_nat := eng \<rparr>;
                    let p = (if natted then add_natted 1 p else p);
                    Some (add_encapped 1 p, frame, Forward end) } })) })"

text \<open>The loop of the batch path, with its locals: the identification counter and the counts of
  forwarded, translated and too large frames. The engine is the field of \<open>self\<close>.\<close>

record batch_state =
  bs_buf :: bytes
  bs_nat :: nat_engine
  bs_ip_id :: u16
  bs_forwarded :: u64
  bs_natted :: u64
  bs_mtu_dropped :: u64

definition encap_batch_slot :: "pipeline \<Rightarrow> u64 \<Rightarrow> batch_state \<Rightarrow> frame_slot \<Rightarrow> batch_state option" where
  "encap_batch_slot p now s slot =
     (let ioff = OVERLAY_OVERHEAD;
          inner_mtu = inner_mtu_of (p_cfg p);
          end = usize_add (usize_add (fs_offset slot) ioff) (fs_inner_len slot) in
      if length (bs_buf s) < end then Some s
      else do {
        frame \<leftarrow> slice (bs_buf s) (fs_offset slot) end;
        inner \<leftarrow> slice_from frame ioff;
        r \<leftarrow> parse_inner inner;
        (case r of
           Inl _ \<Rightarrow> Some s
         | Inr (inner_dst, flow, df, total_len) \<Rightarrow>
             if df \<and> inner_mtu < total_len then Some (s \<lparr> bs_mtu_dropped := bs_mtu_dropped s + 1 \<rparr>)
             else (case next_hop_of (p_cfg p) (p_fabric p) (pc_vni (p_cfg p)) inner_dst of
                 None \<Rightarrow> Some s
               | Some hop \<Rightarrow> do {
                   let ip_id = bs_ip_id s + 1;
                   (frame, eng, natted) \<leftarrow>
                     egress_frame (p_cfg p) (p_tmpl p) (bs_nat s) ip_id frame (fs_inner_len slot) hop flow
                       (pc_vni (p_cfg p)) now;
                   Some (s \<lparr> bs_buf := patch (bs_buf s) (fs_offset slot) frame, bs_nat := eng,
                     bs_natted := (if natted then bs_natted s + 1 else bs_natted s),
                     bs_ip_id := ip_id, bs_forwarded := bs_forwarded s + 1 \<rparr>) })) })"

fun encap_batch_loop :: "pipeline \<Rightarrow> u64 \<Rightarrow> batch_state \<Rightarrow> frame_slot list \<Rightarrow> batch_state option" where
  "encap_batch_loop p now s [] = Some s"
| "encap_batch_loop p now s (slot # rest) = do {
     s \<leftarrow> encap_batch_slot p now s slot;
     encap_batch_loop p now s rest }"

definition Pipeline_encap_batch_inplace ::
    "pipeline \<Rightarrow> bytes \<Rightarrow> frame_slot list \<Rightarrow> u64 \<Rightarrow> (pipeline \<times> bytes \<times> nat) option" where
  "Pipeline_encap_batch_inplace p buf batch now = do {
     s \<leftarrow> encap_batch_loop p now
       \<lparr> bs_buf = buf, bs_nat = p_nat p, bs_ip_id = p_ip_id p, bs_forwarded = 0, bs_natted = 0,
         bs_mtu_dropped = 0 \<rparr> batch;
     let p = p \<lparr> p_nat := bs_nat s, p_ip_id := bs_ip_id s \<rparr>;
     let p = add_dropped (bs_mtu_dropped s) (add_natted (bs_natted s) (add_encapped (bs_forwarded s) p));
     Some (p, bs_buf s, unat (bs_forwarded s)) }"

section \<open>Underlay to tenant\<close>

definition Pipeline_on_underlay_frame ::
    "pipeline \<Rightarrow> bytes \<Rightarrow> bytes \<Rightarrow> u64 \<Rightarrow> (pipeline \<times> bytes \<times> decision) option" where
  "Pipeline_on_underlay_frame p frame out now = do {
     r \<leftarrow> decap frame;
     (case r of
        Inl _ \<Rightarrow> return_drop p out ''bad-encap''
      | Inr None \<Rightarrow> Some (add_passed 1 p, out, Pass)
      | Inr (Some d) \<Rightarrow>
          let vni = ah_vni (dc_header d); inner = dc_inner d in
          if vni \<noteq> pc_vni (p_cfg p) \<and> Fabric_vpc (p_fabric p) vni = None then return_drop p out ''wrong-vni''
          else if length out < length inner then return_drop p out ''decap-out-too-small''
          else do {
            out \<leftarrow> put out 0 (length inner) inner;
            is_ipv4 \<leftarrow> (case EthFrame_parse inner of
                Inr e \<Rightarrow> do { ty \<leftarrow> EthFrame_ethertype e; Some (ty = ethertype_IPV4) }
              | Inl _ \<Rightarrow> Some False);
            (out, eng, natted) \<leftarrow>
              (if pc_nat_ip (p_cfg p) \<noteq> None \<and> is_ipv4
               then sub_mut out ETH_HDR_LEN (length inner) (nat_translate (p_nat p) Inbound now)
               else Some (out, p_nat p, False));
            let p = p \<lparr> p_nat := eng \<rparr>;
            let p = (if natted then add_natted 1 p else p);
            Some (add_decapped 1 p, out, Forward (length inner)) }) }"

end
