(* ===== verification/Pipeline_Refine.thy ===== *)
theory Pipeline_Refine
  imports Pipeline
begin

text \<open>
  The forwarding pipeline refines an abstract description. The precomputed outer header with
  its patched fields is the header of \<open>encap_in_place\<close>; the tenant handlers are
  \<open>tenant_outcome\<close> of a verdict that depends on the configuration, the fabric map and the
  frame alone; the underlay handler is \<open>underlay_outcome\<close> of the decapsulated frame.
\<close>

section \<open>The flow hash and the precomputed header\<close>

definition flow_of :: "bytes \<Rightarrow> u16" where
  "flow_of b =
     (if (b ! 9 = proto_TCP \<or> b ! 9 = proto_UDP) \<and> 4 \<le> length (l4_seg b)
      then flow_hash (word32 b 12) (word32 b 16) (b ! 9) (word16 (l4_seg b) 0) (word16 (l4_seg b) 2)
      else 0)"

lemma flow_hash_of_eq [view_simps]: "ipv4_ok b \<Longrightarrow> flow_hash_of b = Some (flow_of b)"
  using ipv4_okD(1) [of b]
  by (simp add: flow_hash_of_def flow_of_def Ipv4View_accessors Ipv4View_payload_eq l4_seg_def rd16_eq)

text \<open>The parameters the general encapsulation would be called with.\<close>

definition outer_params :: "pipeline_config \<Rightarrow> ipv4addr \<Rightarrow> u16 \<Rightarrow> u16 \<Rightarrow> u32 \<Rightarrow> encap_params" where
  "outer_params cfg dst flow ip_id vni =
     \<lparr> ep_outer_src_mac = pc_outer_src_mac cfg, ep_outer_dst_mac = pc_outer_dst_mac cfg,
       ep_outer_src_ip = pc_local_node_ip cfg, ep_outer_dst_ip = dst, ep_vni = vni, ep_flow_hash = flow,
       ep_ip_id = ip_id, ep_outer_udp_checksum = pc_outer_udp_checksum cfg \<rparr>"

text \<open>The 42-byte prefix, field by field.\<close>

definition prefix_of :: "bytes \<Rightarrow> bytes \<Rightarrow> bytes \<Rightarrow> bytes \<Rightarrow> bytes \<Rightarrow> bytes \<Rightarrow> bytes \<Rightarrow> bytes \<Rightarrow> bytes \<Rightarrow> bytes \<Rightarrow> bytes \<Rightarrow> bytes" where
  "prefix_of eth tlen ident frag tp csum src dst sport dport ulen =
     eth @ [0x45, 0] @ tlen @ ident @ frag @ tp @ csum @ src @ dst @ sport @ dport @ ulen @ [0, 0]"

definition template :: "pipeline_config \<Rightarrow> outer_template" where
  "template cfg =
     \<lparr> ot_prefix = prefix_of (eth_hdr (pc_outer_dst_mac cfg) (pc_outer_src_mac cfg) ethertype_IPV4)
         [0, 0] [0, 0] (to_be16 0x4000) [64, proto_UDP] [0, 0] (octets (pc_local_node_ip cfg)) [0, 0, 0, 0]
         [0, 0] (to_be16 ANDROMEDA_UDP_PORT) [0, 0],
       ot_ip_csum_base = 0x4500 + 0x4000 + 0x4011 + ucast (ucast (drop_bit 16 (pc_local_node_ip cfg)) :: u16) +
         ucast (ucast (pc_local_node_ip cfg) :: u16) \<rparr>"

lemma word32_octets: "word32 (octets a) 0 = a"
  using be32_octets [of a] unfolding word32_def add_0 One_nat_def .

lemma rd16_octets:
  "rd16 (octets a) 0 = Some (ucast (drop_bit 16 a))" "rd16 (octets a) 2 = Some (ucast a)"
  using word32_halves [of "octets a" 0] unfolding word32_octets add_0 by (simp_all add: rd16_eq)

lemma put_chunk:
  "length xs = a \<Longrightarrow> length old = length src \<Longrightarrow> e = a + length src \<Longrightarrow>
   put (xs @ old @ zs) a e src = Some (xs @ src @ zs)"
  by (simp add: put_def patch_def)

lemma rd16_chunk: "length xs = a \<Longrightarrow> 1 < length ys \<Longrightarrow> rd16 (xs @ ys @ zs) a = rd16 ys 0"
  by (auto simp: rd16_eq word16_def nth_append)

lemma OuterTemplate_new_eq: "OuterTemplate_new cfg = Some (template cfg)"
proof -
  let ?E = "eth_hdr (pc_outer_dst_mac cfg) (pc_outer_src_mac cfg) ethertype_IPV4"
  let ?ip = "pc_local_node_ip cfg"
  let ?D = "to_be16 0x4000" and ?P = "to_be16 ANDROMEDA_UDP_PORT"
  let ?Z = "\<lambda>n. replicate n (0 :: u8)"
  have z: "?Z 28 = ?Z 1 @ ?Z 5 @ ?Z 2 @ ?Z 1 @ ?Z 1 @ ?Z 2 @ ?Z 4 @ ?Z 6 @ ?Z 2 @ ?Z 4"
    by (simp only: replicate_add [symmetric]) simp
  have 1: "sub_mut (?Z 42) 0 14 (\<lambda>s. ethernet_write_header s (pc_outer_dst_mac cfg) (pc_outer_src_mac cfg)
      ethertype_IPV4) = Some (?E @ ?Z 28, 14)"
    by (simp add: view_simps patch_def)
  have w: "length xs = i \<Longrightarrow> wr8 (xs @ ?Z 1 @ zs) i v = Some (xs @ [v] @ zs)" for xs zs i v
    by (simp add: wr8_def list_update_append)
  have 2: "wr8 (?E @ ?Z 28) 14 0x45 = Some ((?E @ [0x45] @ ?Z 5) @ ?Z 2 @ ?Z 1 @ ?Z 1 @ ?Z 2 @ ?Z 4 @ ?Z 6 @ ?Z 2 @ ?Z 4)"
    unfolding z by (subst w) simp_all
  have 3: "put ((?E @ [0x45] @ ?Z 5) @ ?Z 2 @ zs) 20 22 ?D = Some ((?E @ [0x45] @ ?Z 5) @ ?D @ zs)" for zs
    by (rule put_chunk) simp_all
  have 4: "wr8 ((?E @ [0x45] @ ?Z 5) @ ?D @ ?Z 1 @ zs) 22 64 = Some ((?E @ [0x45] @ ?Z 5) @ ?D @ [64] @ zs)" for zs
    using w [of "(?E @ [0x45] @ ?Z 5) @ ?D"] by simp
  have 5: "wr8 ((?E @ [0x45] @ ?Z 5) @ ?D @ [64] @ ?Z 1 @ zs) 23 proto_UDP =
      Some ((?E @ [0x45] @ ?Z 5) @ ?D @ [64] @ [proto_UDP] @ zs)" for zs
    using w [of "(?E @ [0x45] @ ?Z 5) @ ?D @ [64]"] by simp
  let ?A = "(?E @ [0x45] @ ?Z 5) @ ?D @ [64] @ [proto_UDP] @ ?Z 2"
  have 6: "put ((?E @ [0x45] @ ?Z 5) @ ?D @ [64] @ [proto_UDP] @ ?Z 2 @ ?Z 4 @ zs) 26 30 (octets ?ip) =
      Some (?A @ octets ?ip @ zs)" for zs
    using put_chunk [of ?A 26 "?Z 4" "octets ?ip" 30 zs] by simp
  have 7: "put (?A @ octets ?ip @ ?Z 6 @ ?Z 2 @ ?Z 4) 36 38 ?P = Some (?A @ octets ?ip @ ?Z 6 @ ?P @ ?Z 4)"
    using put_chunk [of "?A @ octets ?ip @ ?Z 6" 36 "?Z 2" ?P 38 "?Z 4"] by simp
  have 8: "rd16 (?A @ octets ?ip @ zs) 26 = Some (ucast (drop_bit 16 ?ip))" for zs
    using rd16_chunk [of ?A 26 "octets ?ip" zs] rd16_octets(1) by simp
  have 9: "rd16 (?A @ octets ?ip @ zs) 28 = Some (ucast ?ip)" for zs
  proof -
    have "rd16 (?A @ octets ?ip @ zs) 28 = rd16 (octets ?ip) 2"
      by (simp add: rd16_eq word16_def nth_append)
    then show ?thesis by (simp only: rd16_octets)
  qed
  have 10: "?A @ octets ?ip @ ?Z 6 @ ?P @ ?Z 4 = ot_prefix (template cfg)"
    by (simp add: template_def prefix_of_def numeral_eq_Suc)
  show ?thesis
    unfolding OuterTemplate_new_def Let_def 1 Option.bind.bind_lunit prod.case 2 3 4 5 6 7 8 9
    unfolding 10 by (simp add: template_def)
qed

lemma prefix_put:
  assumes "length eth = 14" "length tlen = 2" "length ident = 2" "length frag = 2" "length tp = 2"
    "length csum = 2" "length src = 4" "length dst = 4" "length sport = 2" "length dport = 2" "length ulen = 2"
  shows "length v = 2 \<Longrightarrow> put (prefix_of eth tlen ident frag tp csum src dst sport dport ulen @ r) 16 18 v =
      Some (prefix_of eth v ident frag tp csum src dst sport dport ulen @ r)"
    and "length v = 2 \<Longrightarrow> put (prefix_of eth tlen ident frag tp csum src dst sport dport ulen @ r) 18 20 v =
      Some (prefix_of eth tlen v frag tp csum src dst sport dport ulen @ r)"
    and "length v = 2 \<Longrightarrow> put (prefix_of eth tlen ident frag tp csum src dst sport dport ulen @ r) 24 26 v =
      Some (prefix_of eth tlen ident frag tp v src dst sport dport ulen @ r)"
    and "length w = 4 \<Longrightarrow> put (prefix_of eth tlen ident frag tp csum src dst sport dport ulen @ r) 30 34 w =
      Some (prefix_of eth tlen ident frag tp csum src w sport dport ulen @ r)"
    and "length v = 2 \<Longrightarrow> put (prefix_of eth tlen ident frag tp csum src dst sport dport ulen @ r) 34 36 v =
      Some (prefix_of eth tlen ident frag tp csum src dst v dport ulen @ r)"
    and "length v = 2 \<Longrightarrow> put (prefix_of eth tlen ident frag tp csum src dst sport dport ulen @ r) 38 40 v =
      Some (prefix_of eth tlen ident frag tp csum src dst sport dport v @ r)"
  using assms
    put_chunk [of "eth @ [0x45, 0]" 16 tlen v 18]
    put_chunk [of "eth @ [0x45, 0] @ tlen" 18 ident v 20]
    put_chunk [of "eth @ [0x45, 0] @ tlen @ ident @ frag @ tp" 24 csum v 26]
    put_chunk [of "eth @ [0x45, 0] @ tlen @ ident @ frag @ tp @ csum @ src" 30 dst w 34]
    put_chunk [of "eth @ [0x45, 0] @ tlen @ ident @ frag @ tp @ csum @ src @ dst" 34 sport v 36]
    put_chunk [of "eth @ [0x45, 0] @ tlen @ ident @ frag @ tp @ csum @ src @ dst @ sport @ dport" 38 ulen v 40]
  by (simp_all add: prefix_of_def)

lemma sum_be16_loop_to_be16: "sum_be16_loop acc (to_be16 w @ r) = sum_be16_loop (acc + ucast w) r"
  by (simp only: to_be16_def append_Cons append_Nil sum_be16_loop.simps be16_hi_lo)

lemma sum_ip_hdr0:
  "sum_be16 (ip_hdr0 s d proto_UDP 64 i True n) =
     0x4500 + 0x4000 + 0x4011 + ucast (ucast (drop_bit 16 s) :: u16) + ucast (ucast s :: u16) +
     ucast (20 + n) + ucast i + ucast (ucast (drop_bit 16 d) :: u16) + ucast (ucast d :: u16)"
proof -
  have c: "[0x45, 0] = to_be16 0x4500" "[64, proto_UDP, 0, 0] = to_be16 0x4011 @ to_be16 0"
    by (simp_all add: to_be16_def proto_UDP_def)
  have "sum_be16 (ip_hdr0 s d proto_UDP 64 i True n) =
      sum_be16_loop 0 (to_be16 0x4500 @ to_be16 (20 + n) @ to_be16 i @ to_be16 0x4000 @ to_be16 0x4011 @ to_be16 0 @
        to_be16 (ucast (drop_bit 16 s)) @ to_be16 (ucast s) @ to_be16 (ucast (drop_bit 16 d)) @ to_be16 (ucast d) @ [])"
    unfolding sum_be16_def ip_hdr0_def octets_def c by (simp only: if_True append_assoc append_Nil2)
  also have "\<dots> = 0 + ucast (0x4500 :: u16) + ucast (20 + n) + ucast i + ucast (0x4000 :: u16) + ucast (0x4011 :: u16) +
      ucast (0 :: u16) + ucast (ucast (drop_bit 16 s) :: u16) + ucast (ucast s :: u16) +
      ucast (ucast (drop_bit 16 d) :: u16) + ucast (ucast d :: u16)"
    by (simp only: sum_be16_loop_to_be16 sum_be16_loop.simps)
  finally show ?thesis by (simp del: ucast_drop_bit_eq)
qed

lemma prefix_full:
  fixes n :: nat
  shows "prefix_of (eth_hdr dm sm ethertype_IPV4) (to_be16 (of_nat (36 + n))) (to_be16 i) (to_be16 0x4000)
      [64, proto_UDP] (to_be16 (checksum (ip_hdr0 s d proto_UDP 64 i True (of_nat (16 + n))))) (octets s) (octets d)
      (to_be16 fl) (to_be16 ANDROMEDA_UDP_PORT) (to_be16 (of_nat (16 + n))) =
    eth_hdr dm sm ethertype_IPV4 @ ip_hdr s d proto_UDP 64 i True (of_nat (16 + n)) @
      udp_hdr fl ANDROMEDA_UDP_PORT (of_nat (8 + n))"
proof -
  have "(of_nat (36 + n) :: u16) = 20 + of_nat (16 + n)" "(of_nat (16 + n) :: u16) = 8 + of_nat (8 + n)" by simp_all
  moreover have "ip_hdr s d proto_UDP 64 i True m = ([0x45, 0] @ to_be16 (20 + m) @ to_be16 i @ to_be16 0x4000 @
      [64, proto_UDP] @ to_be16 (checksum (ip_hdr0 s d proto_UDP 64 i True m)) @ octets s @ octets d)" for m
    unfolding ip_hdr_def
    by (subst (1) ip_hdr0_def) (simp add: patch_def)
  ultimately show ?thesis
    by (simp only: prefix_of_def) (simp add: udp_hdr_def)
qed

lemma Pipeline_stamp_outer_eq:
  assumes out: "50 + n \<le> length out"
  shows "Pipeline_stamp_outer cfg (template cfg) out n dst flow ip_id vni =
    Some (overlay_prefix (outer_params cfg dst flow ip_id vni) (take n (drop 50 out)) @ drop 50 out)"
proof -
  let ?p = "outer_params cfg dst flow ip_id vni"
  let ?E = "eth_hdr (pc_outer_dst_mac cfg) (pc_outer_src_mac cfg) ethertype_IPV4"
  let ?s = "pc_local_node_ip cfg"
  let ?I = "ip_hdr ?s dst proto_UDP 64 ip_id True (of_nat (16 + n))"
  let ?U = "overlay_udp ?p n" and ?A = "overlay_andro ?p" and ?r = "drop 42 out"
  let ?P = "\<lambda>t i c d f u. prefix_of ?E t i (to_be16 0x4000) [64, proto_UDP] c (octets ?s) d f (to_be16 ANDROMEDA_UDP_PORT) u @ ?r"
  let ?t = "to_be16 (of_nat (36 + n))" and ?u = "to_be16 (of_nat (16 + n))"
  let ?sum = "ot_ip_csum_base (template cfg) + ucast (of_nat (36 + n) :: u16) + ucast ip_id +
    ucast (ucast (drop_bit 16 dst) :: u16) + ucast (ucast dst :: u16)"
  let ?c = "to_be16 (NOT (checksum_fold ?sum))"
  have tl: "(of_nat (36 + n) :: u16) = 20 + of_nat (16 + n)" by simp
  have sum: "NOT (checksum_fold ?sum) = checksum (ip_hdr0 ?s dst proto_UDP 64 ip_id True (of_nat (16 + n)))"
    unfolding checksum_def sum_ip_hdr0 tl template_def outer_template.select_convs ..
  have 0: "put out 0 42 (ot_prefix (template cfg)) = Some (?P [0, 0] [0, 0] [0, 0] [0, 0, 0, 0] [0, 0] [0, 0])"
    using out by (simp add: put_def patch_def template_def prefix_of_def)
  have 1: "put (?P [0, 0] [0, 0] [0, 0] [0, 0, 0, 0] [0, 0] [0, 0]) 16 18 ?t =
      Some (?P ?t [0, 0] [0, 0] [0, 0, 0, 0] [0, 0] [0, 0])"
    and 2: "put (?P ?t [0, 0] [0, 0] [0, 0, 0, 0] [0, 0] [0, 0]) 18 20 (to_be16 ip_id) =
      Some (?P ?t (to_be16 ip_id) [0, 0] [0, 0, 0, 0] [0, 0] [0, 0])"
    and 3: "put (?P ?t (to_be16 ip_id) [0, 0] [0, 0, 0, 0] [0, 0] [0, 0]) 30 34 (octets dst) =
      Some (?P ?t (to_be16 ip_id) [0, 0] (octets dst) [0, 0] [0, 0])"
    and 4: "put (?P ?t (to_be16 ip_id) [0, 0] (octets dst) [0, 0] [0, 0]) 24 26 ?c =
      Some (?P ?t (to_be16 ip_id) ?c (octets dst) [0, 0] [0, 0])"
    and 5: "put (?P ?t (to_be16 ip_id) ?c (octets dst) [0, 0] [0, 0]) 34 36 (to_be16 (flow OR 0xc000)) =
      Some (?P ?t (to_be16 ip_id) ?c (octets dst) (to_be16 (flow OR 0xc000)) [0, 0])"
    and 6: "put (?P ?t (to_be16 ip_id) ?c (octets dst) (to_be16 (flow OR 0xc000)) [0, 0]) 38 40 ?u =
      Some (?P ?t (to_be16 ip_id) ?c (octets dst) (to_be16 (flow OR 0xc000)) ?u)"
    by (intro prefix_put; simp)+
  have full: "?P ?t (to_be16 ip_id) ?c (octets dst) (to_be16 (flow OR 0xc000)) ?u = (?E @ ?I @ ?U) @ ?r"
    unfolding sum prefix_full by (simp add: overlay_udp_def outer_params_def)
  have 7: "sub_mut ((?E @ ?I @ ?U) @ ?r) 42 50 (\<lambda>s. do { s \<leftarrow> AndromedaHdr_encode (AndromedaHdr_new vni flow) s; Some (s, ()) }) =
      Some (((?E @ ?I @ ?U) @ ?A) @ drop 50 out, ())"
    using out
    by (intro sub_mut_next) (simp_all add: AndromedaHdr_encode_eq overlay_andro_def outer_params_def)
  have 8: "slice (((?E @ ?I @ ?U) @ ?A) @ drop 50 out) 34 (50 + n) = Some (?U @ ?A @ take n (drop 50 out))"
    using out by (simp add: slice_def)
  have 9: "put (((?E @ ?I @ ?U) @ ?A) @ drop 50 out) 40 42 (to_be16 c) =
      Some (?E @ ?I @ patch ?U 6 (to_be16 c) @ ?A @ drop 50 out)" for c
    using out by (simp add: put_def patch_append_right patch_append_left)
  have len: "length (take n (drop 50 out)) = n" using out by simp
  have e: "IPV4_MIN_HDR_LEN + 8 + ANDROMEDA_HDR_LEN + n = 36 + n" "8 + ANDROMEDA_HDR_LEN + n = 16 + n"
    by (simp_all add: overlay_len_defs)
  show ?thesis
    unfolding Pipeline_stamp_outer_def Let_def e 0 Option.bind.bind_lunit 1 2 3 rd16_octets 4 5 6 full 7 prod.case
    unfolding overlay_len_defs 8 Option.bind.bind_lunit 9 overlay_prefix_def len Let_def
    by (simp add: outer_params_def)
qed

section \<open>Translation and egress\<close>

lemma nat_translate_ok:
  assumes "nat_inv e"
  shows "\<exists>pkt' e' natted. nat_translate e dir now pkt = Some (pkt', e', natted) \<and>
    length pkt' = length pkt \<and> nat_inv e' \<and> nat_ip e' = nat_ip e"
proof (cases "has_ports pkt")
  case False
  then show ?thesis using assms by (auto simp: nat_translate_def five_tuple_of_eq)
next
  case True
  obtain e' rw where e: "NatEngine_process e (tuple_of pkt) dir now = Some (e', rw)" "nat_inv e'" "nat_ip e' = nat_ip e"
    using nat_inv_process [OF assms] by blast
  obtain b r where b: "nat_apply pkt rw = Some (b, r)" "length b = length pkt" using nat_apply_total by blast
  show ?thesis
    using True e b by (cases "Rewrite_is_noop rw") (auto simp: nat_translate_def five_tuple_of_eq)
qed

lemma snat_egress_ok:
  assumes "nat_inv e"
  shows "\<exists>pkt' e' natted flow'. snat_egress e now flow pkt = Some (pkt', e', natted, flow') \<and>
    length pkt' = length pkt \<and> nat_inv e' \<and> nat_ip e' = nat_ip e"
proof -
  obtain pkt' e' natted where t: "nat_translate e Outbound now pkt = Some (pkt', e', natted)"
      "length pkt' = length pkt" "nat_inv e'" "nat_ip e' = nat_ip e"
    using nat_translate_ok [OF assms] by blast
  show ?thesis
    by (cases rule: Ipv4View_parse_cases [of pkt']) (use t in \<open>simp_all add: snat_egress_def flow_hash_of_eq\<close>)
qed

text \<open>What egress does to the inner frame alone.\<close>

definition egress_inner ::
    "nat_engine \<Rightarrow> u64 \<Rightarrow> u16 \<Rightarrow> ipv4addr \<times> mac_addr option \<times> bool \<Rightarrow> bytes \<Rightarrow>
     (bytes \<times> nat_engine \<times> bool \<times> u16) option" where
  "egress_inner eng now flow hop inner =
     (case hop of (_, new_dst_mac, do_snat) \<Rightarrow>
        let inner = (case new_dst_mac of Some m \<Rightarrow> mac_bytes m @ drop 6 inner | None \<Rightarrow> inner) in
        if do_snat then do {
          (pkt, eng, natted, flow) \<leftarrow> snat_egress eng now flow (drop 14 inner);
          Some (take 14 inner @ pkt, eng, natted, flow) }
        else Some (inner, eng, False, flow))"

lemma egress_inner_ok:
  assumes "nat_inv e" and "14 \<le> length inner"
  shows "\<exists>inner' e' natted flow'. egress_inner e now flow hop inner = Some (inner', e', natted, flow') \<and>
    length inner' = length inner \<and> nat_inv e' \<and> nat_ip e' = nat_ip e"
proof (cases hop)
  case (fields d m s)
  let ?i = "case m of Some m \<Rightarrow> mac_bytes m @ drop 6 inner | None \<Rightarrow> inner"
  have len: "length ?i = length inner" using assms(2) by (cases m) simp_all
  show ?thesis
    using snat_egress_ok [OF assms(1), of now flow "drop 14 ?i"] assms len
    by (cases s) (auto simp: egress_inner_def fields Let_def)
qed

lemma egress_frame_eq:
  assumes n: "14 \<le> n" "50 + n \<le> length frame"
    and inner: "egress_inner e now flow hop (take n (drop 50 frame)) = Some (inner', e', natted, flow')"
      "length inner' = n"
  shows "egress_frame cfg (template cfg) e ip_id frame n hop flow vni now =
    Some (overlay_prefix (outer_params cfg (fst hop) flow' ip_id vni) inner' @ inner' @ drop (50 + n) frame, e', natted)"
proof (cases hop)
  case (fields d m s)
  let ?inner = "take n (drop 50 frame)"
  define i1 where "i1 = (case m of Some m \<Rightarrow> mac_bytes m @ drop 6 ?inner | None \<Rightarrow> ?inner)"
  define f1 where "f1 = take 50 frame @ i1 @ drop (50 + n) frame"
  have l1: "length i1 = n" using n by (cases m) (simp_all add: i1_def)
  have lf: "length f1 = length frame" using n l1 by (simp add: f1_def)
  have tail: "?inner @ drop (50 + n) frame = drop 50 frame"
    using append_take_drop_id [of n "drop 50 frame"] by (simp add: add.commute)
  have m1: "(case m of Some m \<Rightarrow> put frame 50 (50 + 6) (mac_bytes m) | None \<Rightarrow> Some frame) = Some f1"
  proof (cases m)
    case None
    then show ?thesis by (simp add: f1_def i1_def tail)
  next
    case (Some m')
    have "drop 6 ?inner @ drop (50 + n) frame = drop 6 (?inner @ drop (50 + n) frame)" using n by simp
    also have "\<dots> = drop 56 frame" unfolding tail by simp
    finally have "drop 56 frame = drop 6 ?inner @ drop (50 + n) frame" ..
    then show ?thesis using Some n by (simp add: put_def patch_def f1_def i1_def)
  qed
  have final: "Pipeline_stamp_outer cfg (template cfg) (take 50 frame @ inner' @ drop (50 + n) frame) n d flow' ip_id vni =
      Some (overlay_prefix (outer_params cfg d flow' ip_id vni) inner' @ inner' @ drop (50 + n) frame)"
    using n inner(2) by (simp add: Pipeline_stamp_outer_eq)
  show ?thesis
  proof (cases s)
    case False
    then have "inner' = i1" "e' = e" "flow' = flow" "natted = False"
      using inner(1) by (auto simp: egress_inner_def fields Let_def i1_def)
    then show ?thesis
      using m1 final False
      by (simp add: egress_frame_def fields overlay_len_defs Let_def) (simp add: f1_def)
  next
    case True
    then obtain pkt where pkt: "snat_egress e now flow (drop 14 i1) = Some (pkt, e', natted, flow')"
      and i': "inner' = take 14 i1 @ pkt"
      using inner(1) by (auto simp: egress_inner_def fields Let_def i1_def [symmetric] Option.bind_eq_Some_conv)
    have lp: "length pkt = n - 14" using inner(2) i' l1 n by simp
    have "take (n - 14) (drop 64 f1) = drop 14 i1" using n l1 by (simp add: f1_def)
    moreover have "patch f1 64 pkt = take 50 frame @ inner' @ drop (50 + n) frame"
      using n l1 lp by (simp add: patch_def f1_def i')
    ultimately have "sub_mut f1 64 (50 + n) (snat_egress e now flow) =
        Some (take 50 frame @ inner' @ drop (50 + n) frame, e', natted, flow')"
      using n lf pkt by (simp add: sub_mut_eq)
    then show ?thesis
      using m1 final True
      by (simp add: egress_frame_def fields overlay_len_defs Let_def)
  qed
qed

section \<open>Abstract behaviour of the tenant side\<close>

text \<open>What the pipeline does with a tenant frame, as a function of the configuration, the fabric
  map and the frame alone.\<close>

datatype tenant_verdict =
    Refused string
  | ArpAnswer
  | TooBig
  | Encapsulate "ipv4addr \<times> mac_addr option \<times> bool"

definition too_big :: "pipeline_config \<Rightarrow> bytes \<Rightarrow> bool" where
  "too_big cfg ip \<longleftrightarrow> word16 ip 6 AND 0x4000 \<noteq> 0 \<and> unat (pc_underlay_mtu cfg) - 50 < unat (word16 ip 2)"

definition ip_verdict :: "pipeline_config \<Rightarrow> fabric \<Rightarrow> u32 \<Rightarrow> bytes \<Rightarrow> tenant_verdict" where
  "ip_verdict cfg fab vni ip =
     (if \<not> ipv4_ok ip then Refused ''bad-inner-ip''
      else (case next_hop_of cfg fab vni (word32 ip 16) of
          None \<Rightarrow> Refused ''no-route''
        | Some hop \<Rightarrow> if too_big cfg ip then TooBig else Encapsulate hop))"

definition tenant_verdict :: "pipeline_config \<Rightarrow> fabric \<Rightarrow> u32 \<Rightarrow> bytes \<Rightarrow> tenant_verdict" where
  "tenant_verdict cfg fab vni inner =
     (let payload = drop 14 inner in
      if length inner < 14 then Refused ''bad-inner-eth''
      else if word16 inner 12 = ethertype_ARP then
        (if arp_ok payload \<and> word16 payload 6 = 1 \<and> word32 payload 24 \<noteq> word32 payload 14 then ArpAnswer
         else Refused ''arp-ignored'')
      else if word16 inner 12 \<noteq> ethertype_IPV4 then Refused ''non-ipv4-inner''
      else ip_verdict cfg fab vni payload)"

definition mac_at :: "bytes \<Rightarrow> nat \<Rightarrow> mac_addr" where
  "mac_at b i = MacAddr (b ! i) (b ! (i + 1)) (b ! (i + 2)) (b ! (i + 3)) (b ! (i + 4)) (b ! (i + 5))"

definition arp_answer :: "pipeline_config \<Rightarrow> bytes \<Rightarrow> bytes" where
  "arp_answer cfg req =
     eth_hdr (mac_at req 8) (pc_virtual_gateway_mac cfg) ethertype_ARP @
     arp_body (pc_virtual_gateway_mac cfg) (word32 req 24) (mac_at req 8) (word32 req 14)"

definition pmtud_answer :: "pipeline_config \<Rightarrow> bytes \<Rightarrow> bytes" where
  "pmtud_answer cfg inner =
     frag_needed_frame (mac_at inner 6) (pc_virtual_gateway_mac cfg) (pc_virtual_gateway_ip cfg)
       (word32 (drop 14 inner) 12) (inner_mtu_of cfg) (icmp_quote (drop 14 inner))"

definition after_egress :: "pipeline \<Rightarrow> nat_engine \<Rightarrow> bool \<Rightarrow> pipeline" where
  "after_egress p eng natted =
     add_encapped 1 ((if natted then add_natted 1 else id) (p \<lparr> p_ip_id := p_ip_id p + 1, p_nat := eng \<rparr>))"

text \<open>The result of a handler on the inner frame and on the buffer \<open>out\<close> it writes to, from the
  verdict: the buffer is changed only by an answer or by an encapsulated frame.\<close>

definition tenant_outcome ::
    "pipeline \<Rightarrow> bytes \<Rightarrow> bytes \<Rightarrow> u64 \<Rightarrow> u32 \<Rightarrow> tenant_verdict \<Rightarrow> (pipeline \<times> bytes \<times> decision) option" where
  "tenant_outcome p inner out now vni v =
     (case v of
        Refused why \<Rightarrow> return_drop p out why
      | ArpAnswer \<Rightarrow>
          if length out < 42 then return_drop p out ''arp-build''
          else Some (add_arp_replied 1 p, arp_answer (p_cfg p) (drop 14 inner) @ drop 42 out, Reply 42)
      | TooBig \<Rightarrow>
          let r = pmtud_answer (p_cfg p) inner in
          if length out < length r then return_drop p out ''pmtud-build''
          else Some (add_pmtud_replied 1 p, r @ drop (length r) out, Reply (length r))
      | Encapsulate hop \<Rightarrow>
          if length out < 50 + length inner then return_drop p out ''encap-out-too-small''
          else do {
            (inner', eng, natted, flow) \<leftarrow>
              egress_inner (p_nat p) now (flow_of (drop 14 inner)) hop inner;
            Some (after_egress p eng natted,
              overlay_prefix (outer_params (p_cfg p) (fst hop) flow (p_ip_id p + 1) vni) inner' @ inner' @
                drop (50 + length inner) out,
              Forward (50 + length inner)) })"

definition pipeline_inv :: "pipeline \<Rightarrow> bool" where
  "pipeline_inv p \<longleftrightarrow> p_tmpl p = template (p_cfg p) \<and> nat_inv (p_nat p)"

lemma mac_of_at: "i + 6 \<le> length b \<Longrightarrow> mac_of (take 6 (drop i b)) = Some (mac_at b i)"
proof -
  assume "i + 6 \<le> length b"
  then have "take 6 (drop i b) = [b ! i, b ! (i + 1), b ! (i + 2), b ! (i + 3), b ! (i + 4), b ! (i + 5)]"
    by (simp add: list_eq_iff_nth_eq less_Suc_eq numeral_eq_Suc)
  then show ?thesis by (simp add: mac_at_def)
qed

lemma EthFrame_src_at: "14 \<le> length b \<Longrightarrow> EthFrame_src b = Some (mac_at b 6)"
  by (simp add: EthFrame_src_def slice_eq mac_of_at)

lemma ArpView_sender_mac_at: "28 \<le> length b \<Longrightarrow> ArpView_sender_mac b = Some (mac_at b 8)"
  by (simp add: ArpView_sender_mac_def slice_eq mac_of_at)

lemma inner_mtu_less: "inner_mtu_of cfg < n \<longleftrightarrow> unat (pc_underlay_mtu cfg) - 50 < unat n"
  by (simp add: inner_mtu_of_def word_less_nat_alt unat_saturating_sub OVERLAY_OVERHEAD_eq)

lemma too_big_iff:
  "20 \<le> length ip \<Longrightarrow> Ipv4View_dont_fragment ip = Some df \<Longrightarrow> Ipv4View_total_length ip = Some n \<Longrightarrow>
   df \<and> inner_mtu_of cfg < n \<longleftrightarrow> too_big cfg ip"
  by (auto simp: Ipv4View_accessors inner_mtu_less too_big_def)

lemma pmtud_answer_eq:
  assumes "14 \<le> length inner" and "ipv4_ok (drop 14 inner)"
  shows "\<exists>e. write_frag_needed out inner (pc_virtual_gateway_mac cfg) (pc_virtual_gateway_ip cfg) (inner_mtu_of cfg) =
    (let r = pmtud_answer cfg inner in
     if length out < length r then Some (out, Inl e) else Some (r @ drop (length r) out, Inr (length r)))"
proof (cases "length out < length (pmtud_answer cfg inner)")
  case True
  then show ?thesis
    using assms ipv4_okD [of "drop 14 inner"]
    by (auto simp: write_frag_needed_def EthFrame_parse_eq view_simps Ipv4View_bytes_def icmp_defs Let_def
        icmp_quote_def pmtud_answer_def)
next
  case False
  then show ?thesis
    using assms write_frag_needed_eq [OF assms EthFrame_src_at [OF assms(1)] refl]
    by (simp add: pmtud_answer_def Let_def)
qed

lemma arp_answer_eq:
  assumes "arp_ok req"
  shows "\<exists>e. arp_write_reply out req (pc_virtual_gateway_mac cfg) =
    (if length out < 42 then Some (out, Inl e) else Some (arp_answer cfg req @ drop 42 out, Inr 42))"
proof -
  have "28 \<le> length req" using assms by (simp add: arp_ok_def)
  then show ?thesis
    using assms arp_write_reply_eq [of out req "mac_at req 8"]
    by (cases "length out < 42") (auto simp: arp_write_reply_def arp_defs ArpView_sender_mac_at arp_answer_def)
qed

lemma egress_step:
  assumes "pipeline_inv p" and "14 \<le> n" and "50 + n \<le> length frame"
  obtains inner' eng natted flow' where
    "egress_inner (p_nat p) now flow hop (take n (drop 50 frame)) = Some (inner', eng, natted, flow')"
    "length inner' = n" "nat_inv eng"
    "egress_frame (p_cfg p) (p_tmpl p) (p_nat p) ip_id frame n hop flow vni now =
      Some (overlay_prefix (outer_params (p_cfg p) (fst hop) flow' ip_id vni) inner' @ inner' @ drop (50 + n) frame,
        eng, natted)"
proof -
  have inv: "nat_inv (p_nat p)" "p_tmpl p = template (p_cfg p)" using assms(1) by (simp_all add: pipeline_inv_def)
  have l: "14 \<le> length (take n (drop 50 frame))" using assms by simp
  obtain inner' eng natted flow' where
    i: "egress_inner (p_nat p) now flow hop (take n (drop 50 frame)) = Some (inner', eng, natted, flow')"
      "length inner' = length (take n (drop 50 frame))" "nat_inv eng"
    using egress_inner_ok [OF inv(1) l, of now flow hop] by blast
  then have "length inner' = n" using assms(3) by simp
  with i show thesis using that egress_frame_eq [OF assms(2,3) i(1)] inv(2) by simp
qed

lemma Pipeline_encap_ip:
  assumes inv: "pipeline_inv p" and len: "14 \<le> length inner" and ty: "word16 inner 12 = ethertype_IPV4"
  shows "Pipeline_encap_for_vni p inner out now vni =
    tenant_outcome p inner out now vni (ip_verdict (p_cfg p) (p_fabric p) vni (drop 14 inner))"
proof (cases rule: Ipv4View_parse_cases [of "drop 14 inner"])
  case (err e)
  then show ?thesis
    using len ty
    by (simp add: Pipeline_encap_for_vni_def EthFrame_parse_eq EthFrame_accessors ethertype_defs ip_verdict_def
        tenant_outcome_def)
next
  case ok
  let ?ip = "drop 14 inner"
  have l20: "20 \<le> length ?ip" using ok(1) by (rule ipv4_okD)
  have na: "ethertype_IPV4 \<noteq> ethertype_ARP" by (simp add: ethertype_defs)
  have big: "(word16 ?ip 6 AND 0x4000 \<noteq> 0 \<and> inner_mtu_of (p_cfg p) < word16 ?ip 2) = too_big (p_cfg p) ?ip"
    using too_big_iff [OF l20] Ipv4View_accessors [OF l20] by simp
  have acc: "Ipv4View_dst ?ip = Some (word32 ?ip 16)" "Ipv4View_total_length ?ip = Some (word16 ?ip 2)"
      "Ipv4View_dont_fragment ?ip = Some (word16 ?ip 6 AND 0x4000 \<noteq> 0)"
    using Ipv4View_accessors [OF l20] by simp_all
  note run = Pipeline_encap_for_vni_def EthFrame_parse_eq EthFrame_accessors(1,2) [OF len] flow_hash_of_eq [OF ok(1)]
    acc Let_def
  show ?thesis
  proof (cases "next_hop_of (p_cfg p) (p_fabric p) vni (word32 ?ip 16)")
    case None
    then show ?thesis using len ty na ok by (simp add: run ip_verdict_def tenant_outcome_def)
  next
    case (Some hop)
    show ?thesis
    proof (cases "too_big (p_cfg p) ?ip")
      case True
      obtain e where "write_frag_needed out inner (pc_virtual_gateway_mac (p_cfg p)) (pc_virtual_gateway_ip (p_cfg p))
          (inner_mtu_of (p_cfg p)) =
        (let r = pmtud_answer (p_cfg p) inner in
         if length out < length r then Some (out, Inl e) else Some (r @ drop (length r) out, Inr (length r)))"
        using pmtud_answer_eq [OF len ok(1)] by blast
      then show ?thesis
        using len ty na ok Some True by (simp add: run big ip_verdict_def tenant_outcome_def)
    next
      case False
      show ?thesis
      proof (cases "length out < 50 + length inner")
        case True
        then show ?thesis
          using len ty na ok Some False
          by (simp add: run big ip_verdict_def tenant_outcome_def OVERLAY_OVERHEAD_eq)
      next
        case fits: False
        let ?f = "patch out 50 inner"
        have f: "put out 50 (50 + length inner) inner = Some ?f" "length ?f = length out"
            "take (length inner) (drop 50 ?f) = inner" "drop (50 + length inner) ?f = drop (50 + length inner) out"
          using fits by (simp_all add: put_eq) (simp_all add: patch_def)
        have fits': "50 + length inner \<le> length ?f" using fits f(2) by simp
        obtain inner' eng natted flow' where
          "egress_inner (p_nat p) now (flow_of ?ip) hop (take (length inner) (drop 50 ?f)) = Some (inner', eng, natted, flow')"
          "length inner' = length inner" "nat_inv eng"
          "egress_frame (p_cfg p) (p_tmpl p) (p_nat p) (p_ip_id p + 1) ?f (length inner) hop (flow_of ?ip) vni now =
            Some (overlay_prefix (outer_params (p_cfg p) (fst hop) flow' (p_ip_id p + 1) vni) inner' @ inner' @
              drop (50 + length inner) ?f, eng, natted)"
          by (rule egress_step [OF inv len fits'])
        then show ?thesis
          using len ty na ok Some False fits
          by (simp add: run big ip_verdict_def tenant_outcome_def OVERLAY_OVERHEAD_eq f Pipeline_next_ip_id_def
              after_egress_def)
      qed
    qed
  qed
qed

lemma Pipeline_encap_for_vni_eq:
  assumes inv: "pipeline_inv p"
  shows "Pipeline_encap_for_vni p inner out now vni =
    tenant_outcome p inner out now vni (tenant_verdict (p_cfg p) (p_fabric p) vni inner)"
proof (cases "14 \<le> length inner")
  case False
  then show ?thesis
    by (simp add: Pipeline_encap_for_vni_def EthFrame_parse_eq tenant_verdict_def tenant_outcome_def)
next
  case len: True
  let ?r = "drop 14 inner"
  consider (arp) "word16 inner 12 = ethertype_ARP" | (ip) "word16 inner 12 = ethertype_IPV4"
    | (other) "word16 inner 12 \<noteq> ethertype_ARP" "word16 inner 12 \<noteq> ethertype_IPV4" by blast
  then show ?thesis
  proof cases
    case ip
    then have "tenant_verdict (p_cfg p) (p_fabric p) vni inner = ip_verdict (p_cfg p) (p_fabric p) vni ?r"
      using len by (simp add: tenant_verdict_def Let_def ethertype_defs)
    then show ?thesis using Pipeline_encap_ip [OF inv len ip] by simp
  next
    case other
    then show ?thesis
      using len by (simp add: Pipeline_encap_for_vni_def EthFrame_parse_eq EthFrame_accessors tenant_verdict_def
          tenant_outcome_def Let_def)
  next
    case arp
    show ?thesis
    proof (cases "arp_ok ?r")
      case False
      then obtain e where "ArpView_parse ?r = Some (Inl e)" using ArpView_parse_err by blast
      then show ?thesis
        using len arp False by (simp add: Pipeline_encap_for_vni_def EthFrame_parse_eq EthFrame_accessors
            tenant_verdict_def tenant_outcome_def Let_def)
    next
      case True
      then have l28: "28 \<le> length ?r" by (simp add: arp_ok_def)
      obtain e where "arp_write_reply out ?r (pc_virtual_gateway_mac (p_cfg p)) =
          (if length out < 42 then Some (out, Inl e) else Some (arp_answer (p_cfg p) ?r @ drop 42 out, Inr 42))"
        using arp_answer_eq [OF True] by blast
      then show ?thesis
        using len arp True ArpView_accessors [OF l28]
        by (simp add: Pipeline_encap_for_vni_def EthFrame_parse_eq EthFrame_accessors ArpView_parse_ok
            tenant_verdict_def tenant_outcome_def Let_def)
    qed
  qed
qed

section \<open>The in-place path\<close>

lemma parse_inner_eq:
  "parse_inner inner = Some
     (let ip = drop 14 inner in
      if length inner < 14 then Inl ''bad-inner-eth''
      else if word16 inner 12 \<noteq> ethertype_IPV4 then Inl ''non-ipv4-inner''
      else if \<not> ipv4_ok ip then Inl ''bad-inner-ip''
      else Inr (word32 ip 16, flow_of ip, word16 ip 6 AND 0x4000 \<noteq> 0, word16 ip 2))"
proof (cases "14 \<le> length inner \<and> word16 inner 12 = ethertype_IPV4")
  case False
  then show ?thesis by (auto simp: parse_inner_def EthFrame_parse_eq EthFrame_accessors Let_def)
next
  case True
  then show ?thesis
    by (cases rule: Ipv4View_parse_cases [of "drop 14 inner"])
      (use ipv4_okD(1) [of "drop 14 inner"] in \<open>simp_all add: parse_inner_def EthFrame_parse_eq EthFrame_accessors
        Ipv4View_accessors flow_hash_of_eq Let_def\<close>)
qed

text \<open>The in-place path does not answer ARP; everything else is as in the copying path.\<close>

definition inplace_verdict :: "pipeline_config \<Rightarrow> fabric \<Rightarrow> u32 \<Rightarrow> bytes \<Rightarrow> tenant_verdict" where
  "inplace_verdict cfg fab vni inner =
     (if 14 \<le> length inner \<and> word16 inner 12 = ethertype_ARP then Refused ''non-ipv4-inner''
      else tenant_verdict cfg fab vni inner)"

lemma inplace_verdict_eq:
  "inplace_verdict cfg fab vni inner =
     (if length inner < 14 then Refused ''bad-inner-eth''
      else if word16 inner 12 \<noteq> ethertype_IPV4 then Refused ''non-ipv4-inner''
      else ip_verdict cfg fab vni (drop 14 inner))"
  by (auto simp: inplace_verdict_def tenant_verdict_def Let_def ethertype_defs)

lemma Pipeline_inplace_eq:
  assumes inv: "pipeline_inv p" and n: "50 + n < 2 ^ 64"
  shows "Pipeline_on_tenant_frame_inplace p frame n now =
    (let inner = take n (drop 50 frame) in
     if length frame < 50 + n then return_drop p frame ''frame-too-small''
     else tenant_outcome p inner frame now (pc_vni (p_cfg p))
            (inplace_verdict (p_cfg p) (p_fabric p) (pc_vni (p_cfg p)) inner))"
proof (cases "length frame < 50 + n")
  case True
  then show ?thesis
    by (simp add: Pipeline_on_tenant_frame_inplace_def OVERLAY_OVERHEAD_eq usize_add_small [OF n] Let_def)
next
  case fits: False
  let ?inner = "take n (drop 50 frame)" and ?cfg = "p_cfg p" and ?ip = "drop 14 (take n (drop 50 frame))"
  let ?vni = "pc_vni (p_cfg p)"
  have sl: "slice frame 50 (50 + n) = Some ?inner" "length ?inner = n" using fits by (simp_all add: slice_def)
  note run = Pipeline_on_tenant_frame_inplace_def OVERLAY_OVERHEAD_eq usize_add_small [OF n] Let_def sl parse_inner_eq
    inplace_verdict_eq ip_verdict_def tenant_outcome_def
  show ?thesis
  proof (cases "n < 14 \<or> word16 ?inner 12 \<noteq> ethertype_IPV4 \<or> \<not> ipv4_ok ?ip")
    case True
    then show ?thesis using fits by (auto simp: run)
  next
    case False
    then have ok: "14 \<le> n" "word16 ?inner 12 = ethertype_IPV4" "ipv4_ok ?ip" by simp_all
    have l20: "20 \<le> length ?ip" using ok(3) by (rule ipv4_okD)
    have big: "(word16 ?ip 6 AND 0x4000 \<noteq> 0 \<and> inner_mtu_of ?cfg < word16 ?ip 2) = too_big ?cfg ?ip"
      using too_big_iff [OF l20] Ipv4View_accessors [OF l20] by simp
    have l14: "14 \<le> length ?inner" using ok(1) sl(2) by simp
    obtain e where pm: "write_frag_needed frame ?inner (pc_virtual_gateway_mac ?cfg) (pc_virtual_gateway_ip ?cfg)
          (inner_mtu_of ?cfg) =
        (let r = pmtud_answer ?cfg ?inner in
         if length frame < length r then Some (frame, Inl e) else Some (r @ drop (length r) frame, Inr (length r)))"
      using pmtud_answer_eq [OF l14 ok(3)] by blast
    show ?thesis
    proof (cases "next_hop_of ?cfg (p_fabric p) ?vni (word32 ?ip 16)")
      case None
      then show ?thesis using fits ok by (simp add: run del: drop_take)
    next
      case (Some hop)
      have fits': "50 + n \<le> length frame" using fits by simp
      obtain inner' eng natted flow' where
        "egress_inner (p_nat p) now (flow_of ?ip) hop ?inner = Some (inner', eng, natted, flow')"
        "length inner' = n" "nat_inv eng"
        "egress_frame ?cfg (p_tmpl p) (p_nat p) (p_ip_id p + 1) frame n hop (flow_of ?ip) ?vni now =
          Some (overlay_prefix (outer_params ?cfg (fst hop) flow' (p_ip_id p + 1) ?vni) inner' @ inner' @
            drop (50 + n) frame, eng, natted)"
        by (rule egress_step [OF inv ok(1) fits'])
      then show ?thesis
        using fits ok Some pm
        by (simp add: run big Pipeline_next_ip_id_def after_egress_def del: drop_take)
    qed
  qed
qed

section \<open>The underlay side\<close>

definition serves :: "pipeline \<Rightarrow> u32 \<Rightarrow> bool" where
  "serves p vni \<longleftrightarrow> vni = pc_vni (p_cfg p) \<or> Fabric_vpc (p_fabric p) vni \<noteq> None"

text \<open>What delivery does to the inner frame alone.\<close>

definition ingress_inner :: "pipeline \<Rightarrow> u64 \<Rightarrow> bytes \<Rightarrow> (bytes \<times> nat_engine \<times> bool) option" where
  "ingress_inner p now inner =
     (if pc_nat_ip (p_cfg p) \<noteq> None \<and> 14 \<le> length inner \<and> word16 inner 12 = ethertype_IPV4 then do {
        (pkt, eng, natted) \<leftarrow> nat_translate (p_nat p) Inbound now (drop 14 inner);
        Some (take 14 inner @ pkt, eng, natted) }
      else Some (inner, p_nat p, False))"

definition after_ingress :: "pipeline \<Rightarrow> nat_engine \<Rightarrow> bool \<Rightarrow> pipeline" where
  "after_ingress p eng natted = add_decapped 1 ((if natted then add_natted 1 else id) (p \<lparr> p_nat := eng \<rparr>))"

definition underlay_outcome ::
    "pipeline \<Rightarrow> bytes \<Rightarrow> u64 \<Rightarrow> parse_error + decapsulated option \<Rightarrow> (pipeline \<times> bytes \<times> decision) option" where
  "underlay_outcome p out now r =
     (case r of
        Inl _ \<Rightarrow> return_drop p out ''bad-encap''
      | Inr None \<Rightarrow> Some (add_passed 1 p, out, Pass)
      | Inr (Some d) \<Rightarrow>
          let inner = dc_inner d in
          if \<not> serves p (ah_vni (dc_header d)) then return_drop p out ''wrong-vni''
          else if length out < length inner then return_drop p out ''decap-out-too-small''
          else do {
            (inner', eng, natted) \<leftarrow> ingress_inner p now inner;
            Some (after_ingress p eng natted, inner' @ drop (length inner) out, Forward (length inner)) })"

lemma ingress_inner_ok:
  assumes "pipeline_inv p"
  shows "\<exists>inner' eng natted. ingress_inner p now inner = Some (inner', eng, natted) \<and>
    length inner' = length inner \<and> nat_inv eng"
proof -
  have inv: "nat_inv (p_nat p)" using assms by (simp add: pipeline_inv_def)
  then show ?thesis
    using nat_translate_ok [OF inv, of Inbound now "drop 14 inner"] by (auto simp: ingress_inner_def)
qed

lemma Pipeline_underlay_eq:
  assumes inv: "pipeline_inv p" and r: "decap frame = Some r"
  shows "Pipeline_on_underlay_frame p frame out now = underlay_outcome p out now r"
proof (cases r)
  case (Inl e)
  then show ?thesis using r by (simp add: Pipeline_on_underlay_frame_def underlay_outcome_def)
next
  case (Inr o')
  show ?thesis
  proof (cases o')
    case None
    then show ?thesis using r Inr by (simp add: Pipeline_on_underlay_frame_def underlay_outcome_def)
  next
    case (Some d)
    let ?i = "dc_inner d" and ?v = "ah_vni (dc_header d)"
    have nv: "(?v \<noteq> pc_vni (p_cfg p) \<and> Fabric_vpc (p_fabric p) ?v = None) = (\<not> serves p ?v)"
      by (auto simp: serves_def)
    have ty: "(case EthFrame_parse ?i of Inr e \<Rightarrow> do { ty \<leftarrow> EthFrame_ethertype e; Some (ty = ethertype_IPV4) }
        | Inl _ \<Rightarrow> Some False) = Some (14 \<le> length ?i \<and> word16 ?i 12 = ethertype_IPV4)"
      by (simp add: EthFrame_parse_eq EthFrame_accessors)
    show ?thesis
    proof (cases "serves p ?v \<and> length ?i \<le> length out")
      case False
      then show ?thesis
        using r Inr Some by (auto simp: Pipeline_on_underlay_frame_def underlay_outcome_def Let_def nv)
    next
      case True
      have put: "put out 0 (length ?i) ?i = Some (?i @ drop (length ?i) out)"
        using True by (simp add: put_def patch_def)
      have sub: "sub_mut (?i @ drop (length ?i) out) 14 (length ?i) f = do {
          (s', x) \<leftarrow> f (drop 14 ?i); Some (take 14 ?i @ s' @ drop (14 + length s') (?i @ drop (length ?i) out), x) }"
        if "14 \<le> length ?i" for f :: "bytes \<Rightarrow> (bytes \<times> nat_engine \<times> bool) option"
        using that True by (simp add: sub_mut_eq patch_def)
      have inv': "nat_inv (p_nat p)" using inv by (simp add: pipeline_inv_def)
      obtain pkt eng natted where t: "nat_translate (p_nat p) Inbound now (drop 14 ?i) = Some (pkt, eng, natted)"
          "length pkt = length ?i - 14"
        using nat_translate_ok [OF inv', of Inbound now "drop 14 ?i"] by auto
      show ?thesis
        using r Inr Some True sub [of "nat_translate (p_nat p) Inbound now"] t
        by (auto simp: Pipeline_on_underlay_frame_def underlay_outcome_def Let_def nv ty put ingress_inner_def
            after_ingress_def ETH_HDR_LEN_def)
    qed
  qed
qed

end
