(* ===== verification/Pipeline_Inv.thy ===== *)
theory Pipeline_Inv
  imports Pipeline_Refine
begin

text \<open>
  The contract \<open>frame_handler\<close> of the three per-frame handlers, its consequences for a loop that
  feeds frames to a handler, and the states a pipeline can reach.
\<close>

section \<open>The contract of a frame handler\<close>

text \<open>The counters that record the fate of a frame; \<open>ps_natted\<close> is not one of them.\<close>

definition fates :: "pipeline \<Rightarrow> u64" where
  "fates p = (let s = p_stats p in ps_encapped s + ps_decapped s + ps_arp_replied s + ps_pmtud_replied s +
     ps_dropped s + ps_passed s)"

definition handled :: "pipeline \<Rightarrow> bytes \<Rightarrow> pipeline \<times> bytes \<times> decision \<Rightarrow> bool" where
  "handled p out r =
     (case r of (p', out', d) \<Rightarrow> pipeline_inv p' \<and> p_cfg p' = p_cfg p \<and> p_fabric p' = p_fabric p \<and>
        fates p' = fates p + 1 \<and> length out' = length out \<and>
        (case d of Forward n \<Rightarrow> n \<le> length out | Reply n \<Rightarrow> n \<le> length out | Drop why \<Rightarrow> out' = out | Pass \<Rightarrow> out' = out))"

text \<open>The loop of a client that feeds frames to a handler, each with the buffer the previous call
  left, and collects the decisions.\<close>

fun run_frames ::
    "(pipeline \<Rightarrow> 'f \<Rightarrow> bytes \<Rightarrow> u64 \<Rightarrow> (pipeline \<times> bytes \<times> decision) option) \<Rightarrow>
     pipeline \<Rightarrow> bytes \<Rightarrow> ('f \<times> u64) list \<Rightarrow> (pipeline \<times> bytes \<times> decision list) option" where
  "run_frames h p out [] = Some (p, out, [])"
| "run_frames h p out ((f, now) # fs) = do {
     (p, out, d) \<leftarrow> h p f out now;
     (p, out, ds) \<leftarrow> run_frames h p out fs;
     Some (p, out, d # ds) }"

locale frame_handler =
  fixes handle :: "pipeline \<Rightarrow> 'f \<Rightarrow> bytes \<Rightarrow> u64 \<Rightarrow> (pipeline \<times> bytes \<times> decision) option"
    and accepts :: "'f \<Rightarrow> bool"
  assumes handle_ok: "pipeline_inv p \<Longrightarrow> accepts f \<Longrightarrow> \<exists>r. handle p f out now = Some r \<and> handled p out r"
begin

lemma run_total:
  assumes "pipeline_inv p" and "\<forall>(f, now) \<in> set fs. accepts f"
  shows "\<exists>p' out' ds. run_frames handle p out fs = Some (p', out', ds) \<and> pipeline_inv p' \<and>
    p_cfg p' = p_cfg p \<and> p_fabric p' = p_fabric p \<and>
    length out' = length out \<and> length ds = length fs \<and> fates p' = fates p + of_nat (length fs) \<and>
    (\<forall>d \<in> set ds. \<forall>n. d = Forward n \<or> d = Reply n \<longrightarrow> n \<le> length out)"
  using assms
proof (induction fs arbitrary: p out)
  case (Cons x fs)
  obtain f now where x: "x = (f, now)" by (cases x)
  then have "accepts f" using Cons.prems(2) by auto
  then obtain p1 out1 d where 1: "handle p f out now = Some (p1, out1, d)" "handled p out (p1, out1, d)"
    using handle_ok [OF Cons.prems(1)] by (metis prod_cases3)
  then have h: "pipeline_inv p1" "p_cfg p1 = p_cfg p" "p_fabric p1 = p_fabric p" "fates p1 = fates p + 1"
      "length out1 = length out" "\<forall>n. d = Forward n \<or> d = Reply n \<longrightarrow> n \<le> length out"
    by (auto simp: handled_def)
  have "\<forall>(f, now) \<in> set fs. accepts f" using Cons.prems(2) by simp
  from Cons.IH [OF h(1) this, of out1] obtain p' out' ds where
    "run_frames handle p1 out1 fs = Some (p', out', ds)" "pipeline_inv p'" "p_cfg p' = p_cfg p1" "p_fabric p' = p_fabric p1"
    "length out' = length out1" "length ds = length fs" "fates p' = fates p1 + of_nat (length fs)"
    "\<forall>d \<in> set ds. \<forall>n. d = Forward n \<or> d = Reply n \<longrightarrow> n \<le> length out1"
    by blast
  then show ?case using 1(1) h by (simp add: x)
qed simp

end

lemmas counter_defs = add_encapped_def add_decapped_def add_natted_def add_arp_replied_def add_pmtud_replied_def
  add_dropped_def add_passed_def

lemma pipeline_inv_counters [simp]:
  "pipeline_inv (add_encapped k p) = pipeline_inv p" "pipeline_inv (add_decapped k p) = pipeline_inv p"
  "pipeline_inv (add_natted k p) = pipeline_inv p" "pipeline_inv (add_arp_replied k p) = pipeline_inv p"
  "pipeline_inv (add_pmtud_replied k p) = pipeline_inv p" "pipeline_inv (add_dropped k p) = pipeline_inv p"
  "pipeline_inv (add_passed k p) = pipeline_inv p"
  by (simp_all add: pipeline_inv_def counter_defs)

lemma fates_counters [simp]:
  "fates (add_encapped k p) = fates p + k" "fates (add_decapped k p) = fates p + k" "fates (add_natted k p) = fates p"
  "fates (add_arp_replied k p) = fates p + k" "fates (add_pmtud_replied k p) = fates p + k"
  "fates (add_dropped k p) = fates p + k" "fates (add_passed k p) = fates p + k"
  by (simp_all add: fates_def counter_defs Let_def)

lemma config_counters [simp]:
  "p_cfg (add_encapped k p) = p_cfg p" "p_cfg (add_decapped k p) = p_cfg p" "p_cfg (add_natted k p) = p_cfg p"
  "p_cfg (add_arp_replied k p) = p_cfg p" "p_cfg (add_pmtud_replied k p) = p_cfg p"
  "p_cfg (add_dropped k p) = p_cfg p" "p_cfg (add_passed k p) = p_cfg p"
  "p_fabric (add_encapped k p) = p_fabric p" "p_fabric (add_decapped k p) = p_fabric p"
  "p_fabric (add_natted k p) = p_fabric p" "p_fabric (add_arp_replied k p) = p_fabric p"
  "p_fabric (add_pmtud_replied k p) = p_fabric p" "p_fabric (add_dropped k p) = p_fabric p"
  "p_fabric (add_passed k p) = p_fabric p"
  by (simp_all add: counter_defs)

lemma after_egress_simps:
  "p_cfg (after_egress p eng b) = p_cfg p" "p_fabric (after_egress p eng b) = p_fabric p"
  "fates (after_egress p eng b) = fates p + 1" "pipeline_inv p \<Longrightarrow> nat_inv eng \<Longrightarrow> pipeline_inv (after_egress p eng b)"
  "p_nat (after_egress p eng b) = eng" "p_ip_id (after_egress p eng b) = p_ip_id p + 1"
  by (simp_all add: after_egress_def) (simp_all add: counter_defs fates_def pipeline_inv_def)

lemma after_ingress_simps:
  "p_cfg (after_ingress p eng b) = p_cfg p" "p_fabric (after_ingress p eng b) = p_fabric p"
  "fates (after_ingress p eng b) = fates p + 1" "pipeline_inv p \<Longrightarrow> nat_inv eng \<Longrightarrow> pipeline_inv (after_ingress p eng b)"
  "p_nat (after_ingress p eng b) = eng"
  by (simp_all add: after_ingress_def) (simp_all add: counter_defs fates_def pipeline_inv_def)

lemma handled_drop: "pipeline_inv p \<Longrightarrow> \<exists>r. return_drop p out why = Some r \<and> handled p out r"
  by (simp add: return_drop_def Pipeline_drop_def handled_def)

lemma tenant_outcome_handled:
  assumes inv: "pipeline_inv p" and big: "\<And>hop. v = Encapsulate hop \<Longrightarrow> 14 \<le> length inner"
  shows "\<exists>r. tenant_outcome p inner out now vni v = Some r \<and> handled p out r"
proof (cases v)
  case (Refused why)
  then show ?thesis using handled_drop [OF inv] by (simp add: tenant_outcome_def)
next
  case ArpAnswer
  then show ?thesis
    using handled_drop [OF inv, of out "''arp-build''"] inv
    by (cases "length out < 42") (simp_all add: tenant_outcome_def handled_def arp_answer_def)
next
  case TooBig
  then show ?thesis
    using handled_drop [OF inv, of out "''pmtud-build''"] inv
    by (cases "length out < length (pmtud_answer (p_cfg p) inner)") (simp_all add: tenant_outcome_def handled_def Let_def)
next
  case (Encapsulate hop)
  show ?thesis
  proof (cases "length out < 50 + length inner")
    case True
    then show ?thesis
      using handled_drop [OF inv, of out "''encap-out-too-small''"] Encapsulate by (simp add: tenant_outcome_def)
  next
    case False
    have "nat_inv (p_nat p)" using inv by (simp add: pipeline_inv_def)
    from egress_inner_ok [OF this big [OF Encapsulate], of now "flow_of (drop 14 inner)" hop]
    obtain inner' eng natted flow' where
      "egress_inner (p_nat p) now (flow_of (drop 14 inner)) hop inner = Some (inner', eng, natted, flow')"
      "length inner' = length inner" "nat_inv eng" by blast
    then show ?thesis
      using False inv by (simp add: tenant_outcome_def Encapsulate handled_def after_egress_simps)
  qed
qed

lemma tenant_verdict_len:
  "tenant_verdict cfg fab vni inner = Encapsulate hop \<Longrightarrow> 14 \<le> length inner"
  "inplace_verdict cfg fab vni inner = Encapsulate hop \<Longrightarrow> 14 \<le> length inner"
  by (auto simp: inplace_verdict_def tenant_verdict_def Let_def split: if_splits)

lemma decap_total: "\<exists>r. decap f = Some r"
  by (cases "is_andromeda f") (blast elim: decap_andromeda dest: decap_other)+

interpretation tenant: frame_handler "\<lambda>p (inner, vni) out now. Pipeline_encap_for_vni p inner out now vni" "\<lambda>_. True"
proof (unfold_locales, clarify)
  fix p inner vni out now
  assume "pipeline_inv p"
  then show "\<exists>r. Pipeline_encap_for_vni p inner out now vni = Some r \<and> handled p out r"
    using tenant_outcome_handled [OF _ tenant_verdict_len(1)] by (simp only: Pipeline_encap_for_vni_eq)
qed

interpretation inplace: frame_handler "\<lambda>p n frame now. Pipeline_on_tenant_frame_inplace p frame n now" "\<lambda>n. 50 + n < 2 ^ 64"
proof (unfold_locales)
  fix p n frame now
  assume "pipeline_inv p" "50 + n < (2 :: nat) ^ 64"
  then show "\<exists>r. Pipeline_on_tenant_frame_inplace p frame n now = Some r \<and> handled p frame r"
    using tenant_outcome_handled [OF _ tenant_verdict_len(2)] handled_drop
    by (simp only: Pipeline_inplace_eq Let_def split: if_split) blast
qed

interpretation underlay: frame_handler Pipeline_on_underlay_frame "\<lambda>_. True"
proof (unfold_locales)
  fix p frame out now
  assume inv: "pipeline_inv p"
  obtain r where r: "decap frame = Some r" using decap_total by blast
  have "\<exists>x. underlay_outcome p out now r = Some x \<and> handled p out x"
  proof (cases "\<exists>d. r = Inr (Some d) \<and> serves p (ah_vni (dc_header d)) \<and> length (dc_inner d) \<le> length out")
    case True
    then obtain d where d: "r = Inr (Some d)" "serves p (ah_vni (dc_header d))" "length (dc_inner d) \<le> length out" by blast
    from ingress_inner_ok [OF inv, of now "dc_inner d"] obtain inner' eng natted where
      "ingress_inner p now (dc_inner d) = Some (inner', eng, natted)" "length inner' = length (dc_inner d)" "nat_inv eng"
      by blast
    then show ?thesis using d inv by (simp add: underlay_outcome_def handled_def after_ingress_simps Let_def)
  next
    case False
    then show ?thesis
      using handled_drop [OF inv, of out] inv
      by (auto simp: underlay_outcome_def Let_def handled_def split: sum.split option.split)
  qed
  then show "\<exists>x. Pipeline_on_underlay_frame p frame out now = Some x \<and> handled p out x"
    by (simp add: Pipeline_underlay_eq [OF inv r])
qed

section \<open>The batch path\<close>

text \<open>The reference: the in-place handler on the slice of a slot, whose result is kept when the
  frame is forwarded; the number of forwarded frames is counted.\<close>

definition batch_ref_slot :: "u64 \<Rightarrow> pipeline \<times> bytes \<times> nat \<Rightarrow> frame_slot \<Rightarrow> pipeline \<times> bytes \<times> nat" where
  "batch_ref_slot now st slot =
     (case st of (p, buf, k) \<Rightarrow>
        let n = fs_inner_len slot in
        if length buf < fs_offset slot + 50 + n then (p, buf, k)
        else (case Pipeline_on_tenant_frame_inplace p (take (50 + n) (drop (fs_offset slot) buf)) n now of
            Some (p', frame, Forward _) \<Rightarrow> (p', patch buf (fs_offset slot) frame, k + 1)
          | _ \<Rightarrow> (p, buf, k)))"

definition slot_ok :: "frame_slot \<Rightarrow> bool" where
  "slot_ok slot \<longleftrightarrow> fs_offset slot + 50 + fs_inner_len slot < 2 ^ 64"

text \<open>The pipeline a loop state stands for.\<close>

definition batch_abs :: "pipeline \<Rightarrow> batch_state \<Rightarrow> pipeline" where
  "batch_abs p s = add_natted (bs_natted s) (add_encapped (bs_forwarded s)
     (p \<lparr> p_nat := bs_nat s, p_ip_id := bs_ip_id s \<rparr>))"

lemma batch_abs_simps [simp]:
  "p_cfg (batch_abs p s) = p_cfg p" "p_fabric (batch_abs p s) = p_fabric p" "p_tmpl (batch_abs p s) = p_tmpl p"
  "p_nat (batch_abs p s) = bs_nat s" "p_ip_id (batch_abs p s) = bs_ip_id s"
  by (simp_all add: batch_abs_def counter_defs)

lemma batch_abs_egress:
  "after_egress (batch_abs p s) eng natted =
   batch_abs p (s \<lparr> bs_buf := b, bs_nat := eng, bs_natted := (if natted then bs_natted s + 1 else bs_natted s),
     bs_ip_id := bs_ip_id s + 1, bs_forwarded := bs_forwarded s + 1 \<rparr>)"
  by (simp add: after_egress_def batch_abs_def counter_defs)

lemma batch_slot_refines:
  assumes inv: "pipeline_inv (batch_abs p s)" and slot: "slot_ok slot"
  obtains s' where "encap_batch_slot p now s slot = Some s'"
    "pipeline_inv (batch_abs p s')"
    "batch_ref_slot now (batch_abs p s, bs_buf s, k) slot =
      (batch_abs p s', bs_buf s', k + (if bs_forwarded s' = bs_forwarded s then 0 else 1))"
    "bs_forwarded s' = bs_forwarded s \<or> bs_forwarded s' = bs_forwarded s + 1"
    "bs_mtu_dropped s' = bs_mtu_dropped s \<or> bs_mtu_dropped s' = bs_mtu_dropped s + 1"
proof -
  let ?o = "fs_offset slot" and ?n = "fs_inner_len slot" and ?buf = "bs_buf s" and ?q = "batch_abs p s"
  have add: "usize_add (usize_add ?o 50) ?n = ?o + 50 + ?n" "50 + ?n < 2 ^ 64"
    using slot by (simp_all add: slot_ok_def usize_add_small)
  show thesis
  proof (cases "length ?buf < ?o + 50 + ?n")
    case True
    then show thesis
      using inv by (intro that [of s])
        (simp_all add: encap_batch_slot_def OVERLAY_OVERHEAD_eq Let_def add batch_ref_slot_def)
  next
    case fits: False
    define f where "f = take (50 + ?n) (drop ?o ?buf)"
    define inner where "inner = take ?n (drop 50 f)"
    let ?cfg = "p_cfg p" and ?ip = "drop 14 inner"
    let ?v = "inplace_verdict ?cfg (p_fabric p) (pc_vni ?cfg) inner"
    have f: "slice ?buf ?o (?o + 50 + ?n) = Some f" "length f = 50 + ?n" "slice_from f 50 = Some inner"
        "length inner = ?n"
      using fits by (simp_all add: slice_def slice_from_def f_def inner_def)
    have big: "(word16 ?ip 6 AND 0x4000 \<noteq> 0 \<and> inner_mtu_of ?cfg < word16 ?ip 2) = too_big ?cfg ?ip"
      by (simp add: too_big_def inner_mtu_less)
    note slot_run = encap_batch_slot_def OVERLAY_OVERHEAD_eq Let_def add f parse_inner_eq big
    have ref: "batch_ref_slot now (?q, ?buf, k) slot =
        (case tenant_outcome ?q inner f now (pc_vni ?cfg) ?v of
            Some (p', frame, Forward _) \<Rightarrow> (p', patch ?buf ?o frame, k + 1) | _ \<Rightarrow> (?q, ?buf, k))"
      using fits f(2) by (simp add: batch_ref_slot_def Pipeline_inplace_eq [OF inv add(2)] Let_def f_def [symmetric] inner_def)
    show thesis
    proof (cases "\<exists>hop. ?v = Encapsulate hop")
      case True
      then obtain hop where hop: "?v = Encapsulate hop" by blast
      then have ok: "14 \<le> ?n" "word16 inner 12 = ethertype_IPV4" "ipv4_ok ?ip" "\<not> too_big ?cfg ?ip"
          "next_hop_of ?cfg (p_fabric p) (pc_vni ?cfg) (word32 ?ip 16) = Some hop"
        using f(4) by (auto simp: inplace_verdict_eq ip_verdict_def split: if_splits option.splits)
      have l: "50 + ?n \<le> length f" using f(2) by simp
      obtain inner' eng natted flow' where e:
        "egress_inner (p_nat ?q) now (flow_of ?ip) hop inner = Some (inner', eng, natted, flow')"
        "length inner' = ?n" "nat_inv eng"
        "egress_frame (p_cfg ?q) (p_tmpl ?q) (p_nat ?q) (bs_ip_id s + 1) f ?n hop (flow_of ?ip) (pc_vni ?cfg) now =
          Some (overlay_prefix (outer_params (p_cfg ?q) (fst hop) flow' (bs_ip_id s + 1) (pc_vni ?cfg)) inner' @ inner' @
            drop (50 + ?n) f, eng, natted)"
        by (rule egress_step [OF inv ok(1) l, folded inner_def])
      define fr where "fr = overlay_prefix (outer_params ?cfg (fst hop) flow' (bs_ip_id s + 1) (pc_vni ?cfg)) inner' @ inner'"
      let ?s' = "s \<lparr> bs_buf := patch ?buf ?o fr, bs_nat := eng, bs_natted := (if natted then bs_natted s + 1 else bs_natted s),
        bs_ip_id := bs_ip_id s + 1, bs_forwarded := bs_forwarded s + 1 \<rparr>"
      note abs = batch_abs_egress [of p s eng natted "patch ?buf ?o fr"]
      have run: "encap_batch_slot p now s slot = Some ?s'"
        using fits ok e(4) by (simp add: slot_run fr_def)
      have ref': "batch_ref_slot now (?q, ?buf, k) slot = (batch_abs p ?s', bs_buf ?s', k + 1)"
        using e(1) f(2,4) unfolding ref hop
        by (simp add: tenant_outcome_def fr_def abs)
      have "pipeline_inv (batch_abs p ?s')"
        using after_egress_simps(4) [OF inv e(3), of natted] by (simp only: abs)
      with run ref' show thesis by (intro that [of ?s']) simp_all
    next
      case False
      then have "\<exists>p' fr d. tenant_outcome ?q inner f now (pc_vni ?cfg) ?v = Some (p', fr, d) \<and> (\<forall>n. d \<noteq> Forward n)"
        by (auto simp: tenant_outcome_def return_drop_def Pipeline_drop_def Let_def split: tenant_verdict.split)
      then have ref': "batch_ref_slot now (?q, ?buf, k) slot = (?q, ?buf, k)"
        unfolding ref by (auto split: decision.split)
      have "\<exists>s'. encap_batch_slot p now s slot = Some s' \<and> (s' = s \<or> s' = s \<lparr> bs_mtu_dropped := bs_mtu_dropped s + 1 \<rparr>)"
        using False fits
        by (auto simp: slot_run inplace_verdict_eq ip_verdict_def split: option.splits)
      then obtain s' where s': "encap_batch_slot p now s slot = Some s'"
          "s' = s \<or> s' = s \<lparr> bs_mtu_dropped := bs_mtu_dropped s + 1 \<rparr>" by blast
      then have "batch_abs p s' = ?q" "bs_buf s' = ?buf" "bs_forwarded s' = bs_forwarded s"
        by (auto simp: batch_abs_def)
      then show thesis using s' ref' inv by (intro that [of s']) auto
    qed
  qed
qed

lemma batch_loop_refines:
  assumes "pipeline_inv (batch_abs p s)" and "\<forall>slot \<in> set batch. slot_ok slot" and "bs_forwarded s = of_nat k"
    and "k + length batch < 2 ^ 64"
  shows "\<exists>s' k'. encap_batch_loop p now s batch = Some s' \<and> pipeline_inv (batch_abs p s') \<and>
    foldl (batch_ref_slot now) (batch_abs p s, bs_buf s, k) batch = (batch_abs p s', bs_buf s', k') \<and>
    bs_forwarded s' = of_nat k' \<and> k \<le> k' \<and> k' \<le> k + length batch \<and>
    (\<exists>m \<le> length batch. bs_mtu_dropped s' = bs_mtu_dropped s + of_nat m)"
  using assms
proof (induction batch arbitrary: s k)
  case Nil
  then show ?case by simp
next
  case (Cons slot batch)
  have "slot_ok slot" using Cons.prems(2) by simp
  from Cons.prems(1) this obtain s1 where s1: "encap_batch_slot p now s slot = Some s1" "pipeline_inv (batch_abs p s1)"
    "batch_ref_slot now (batch_abs p s, bs_buf s, k) slot =
      (batch_abs p s1, bs_buf s1, k + (if bs_forwarded s1 = bs_forwarded s then 0 else 1))"
    "bs_forwarded s1 = bs_forwarded s \<or> bs_forwarded s1 = bs_forwarded s + 1"
    "bs_mtu_dropped s1 = bs_mtu_dropped s \<or> bs_mtu_dropped s1 = bs_mtu_dropped s + 1"
    by (rule batch_slot_refines)
  define k1 where "k1 = k + (if bs_forwarded s1 = bs_forwarded s then 0 else 1)"
  have k1: "bs_forwarded s1 = of_nat k1" "k \<le> k1" "k1 \<le> k + 1"
    using s1(4) Cons.prems(3) by (auto simp: k1_def add.commute)
  have "k1 + length batch < 2 ^ 64" "\<forall>slot \<in> set batch. slot_ok slot" using k1 Cons.prems(2,4) by simp_all
  from Cons.IH [OF s1(2) this(2) k1(1) this(1)] obtain s' k' m where
    "encap_batch_loop p now s1 batch = Some s'" "pipeline_inv (batch_abs p s')"
    "foldl (batch_ref_slot now) (batch_abs p s1, bs_buf s1, k1) batch = (batch_abs p s', bs_buf s', k')"
    "bs_forwarded s' = of_nat k'" "k1 \<le> k'" "k' \<le> k1 + length batch"
    "m \<le> length batch" "bs_mtu_dropped s' = bs_mtu_dropped s1 + of_nat m" by blast
  moreover have "\<exists>m' \<le> length (slot # batch). bs_mtu_dropped s' = bs_mtu_dropped s + of_nat m'"
    using calculation(7,8) s1(5)
    by (auto intro: exI [of _ m] exI [of _ "Suc m"])
  ultimately show ?case using s1(1) s1(3) [folded k1_def] k1 by auto
qed

lemma Pipeline_batch_eq:
  assumes inv: "pipeline_inv p" and "\<forall>slot \<in> set batch. slot_ok slot" and len: "length batch < 2 ^ 64"
  shows "\<exists>p' buf' k m. foldl (batch_ref_slot now) (p, buf, 0) batch = (p', buf', k) \<and> pipeline_inv p' \<and>
    k \<le> length batch \<and> m \<le> length batch \<and>
    Pipeline_encap_batch_inplace p buf batch now = Some (add_dropped (of_nat m) p', buf', k)"
proof -
  define s where "s = \<lparr> bs_buf = buf, bs_nat = p_nat p, bs_ip_id = p_ip_id p, bs_forwarded = 0, bs_natted = 0,
    bs_mtu_dropped = 0 \<rparr>"
  have abs: "batch_abs p s = p" "bs_buf s = buf" "bs_forwarded s = of_nat 0" "bs_mtu_dropped s = 0"
    by (simp_all add: s_def batch_abs_def counter_defs)
  from batch_loop_refines [of p s batch 0 now] obtain s' k m where r: "encap_batch_loop p now s batch = Some s'"
    "pipeline_inv (batch_abs p s')"
    "foldl (batch_ref_slot now) (p, buf, 0) batch = (batch_abs p s', bs_buf s', k)" "bs_forwarded s' = of_nat k"
    "k \<le> length batch" "m \<le> length batch" "bs_mtu_dropped s' = of_nat m"
    unfolding abs using assms by auto
  have "unat (of_nat k :: u64) = k" using r(5) len by (simp add: unsigned_of_nat take_bit_nat_eq_self)
  then have "Pipeline_encap_batch_inplace p buf batch now = Some (add_dropped (of_nat m) (batch_abs p s'), bs_buf s', k)"
    using r(1,4,7) unfolding s_def by (simp add: Pipeline_encap_batch_inplace_def batch_abs_def)
  with r show ?thesis by blast
qed

section \<open>Reachable states\<close>

text \<open>The field \<open>nat\<close> is public: its owner may also change the engine directly.\<close>

inductive pipeline_step :: "pipeline \<Rightarrow> pipeline \<Rightarrow> bool" where
  reload: "pipeline_step p (Pipeline_reload_fabric p fab)"
| collect: "Pipeline_gc p now idle = Some (p', n) \<Longrightarrow> pipeline_step p p'"
| engine: "nat_step (p_nat p) eng \<Longrightarrow> pipeline_step p (p \<lparr> p_nat := eng \<rparr>)"
| tenant: "Pipeline_encap_for_vni p inner out now vni = Some (p', out', d) \<Longrightarrow> pipeline_step p p'"
| inplace: "50 + n < 2 ^ 64 \<Longrightarrow> Pipeline_on_tenant_frame_inplace p frame n now = Some (p', frame', d) \<Longrightarrow>
    pipeline_step p p'"
| batch: "\<forall>slot \<in> set batch. slot_ok slot \<Longrightarrow> length batch < 2 ^ 64 \<Longrightarrow>
    Pipeline_encap_batch_inplace p buf batch now = Some (p', buf', k) \<Longrightarrow> pipeline_step p p'"
| underlay: "Pipeline_on_underlay_frame p frame out now = Some (p', out', d) \<Longrightarrow> pipeline_step p p'"

inductive pipeline_reachable :: "pipeline \<Rightarrow> bool" where
  start: "nat_reachable eng \<Longrightarrow> Pipeline_new cfg fab eng = Some p \<Longrightarrow> pipeline_reachable p"
| step: "pipeline_reachable p \<Longrightarrow> pipeline_step p p' \<Longrightarrow> pipeline_reachable p'"

inductive_cases pipeline_stepE: "pipeline_step p p'"

lemma Pipeline_new_eq:
  "Pipeline_new cfg fab eng = Some \<lparr> p_cfg = cfg, p_fabric = fab, p_nat = eng, p_tmpl = template cfg, p_ip_id = 0,
     p_stats = PipelineStats_default \<rparr>"
  by (simp add: Pipeline_new_def Pipeline_new_shared_def OuterTemplate_new_eq)

lemma Pipeline_gc_ok:
  assumes "pipeline_inv p"
  shows "\<exists>p' n. Pipeline_gc p now idle = Some (p', n) \<and> pipeline_inv p'"
proof -
  have "nat_inv (p_nat p)" using assms by (simp add: pipeline_inv_def)
  from nat_inv_gc [OF this, of now idle] show ?thesis
    using assms by (auto simp: Pipeline_gc_def pipeline_inv_def)
qed

lemma pipeline_inv_step:
  assumes "pipeline_step p p'" and inv: "pipeline_inv p"
  shows "pipeline_inv p'"
  using assms(1)
proof (cases rule: pipeline_step.cases)
  case (reload fab)
  then show ?thesis using inv by (simp add: Pipeline_reload_fabric_def pipeline_inv_def)
next
  case (collect now idle n)
  then show ?thesis using Pipeline_gc_ok [OF inv, of now idle] by auto
next
  case (engine eng)
  then show ?thesis using inv nat_inv_step by (auto simp: pipeline_inv_def)
next
  case (tenant inner out now vni out' d)
  then show ?thesis using tenant.handle_ok [OF inv, of "(inner, vni)" out now] by (auto simp: handled_def)
next
  case (inplace n frame now frame' d)
  then show ?thesis using inplace.handle_ok [OF inv, of n frame now] by (auto simp: handled_def)
next
  case (batch batch buf now buf' k)
  then show ?thesis using Pipeline_batch_eq [OF inv batch(1,2), of now buf] by auto
next
  case (underlay frame out now out' d)
  then show ?thesis using underlay.handle_ok [OF inv, of frame out now] by (auto simp: handled_def)
qed

lemma pipeline_reachable_inv: "pipeline_reachable p \<Longrightarrow> pipeline_inv p"
proof (induction rule: pipeline_reachable.induct)
  case (start eng cfg fab p)
  then show ?case using nat_reachable_nat_inv by (auto simp: Pipeline_new_eq pipeline_inv_def)
next
  case (step p p')
  then show ?case by (blast intro: pipeline_inv_step)
qed

end
