(* ===== verification/Pipeline_Props.thy ===== *)
theory Pipeline_Props
  imports Pipeline_Inv Nat_Props
begin

text \<open>
  The properties of the forwarding pipeline: totality, the fast outer header, delivery between
  switches, path MTU discovery, proxy ARP, isolation of tenants, agreement of the three
  tenant paths, and source translation end to end.
\<close>

section \<open>The handlers are total\<close>

text \<open>C6: no byte string makes the data path panic. In every state a pipeline can reach, feeding any
  sequence of tenant frames (each with its VNI) to the tenant handler, or any sequence of
  frames to the underlay handler, yields a decision for every frame; the lengths announced
  for transmission lie inside the output buffer, whose length never changes; the
  configuration and the fabric map are untouched; and the outcome counters together grow by
  exactly the number of frames (modulo 2^64).\<close>

theorem pipeline_total:
  assumes "pipeline_reachable p"
  shows "(\<exists>p' out' ds. run_frames (\<lambda>p (inner, vni) out now. Pipeline_encap_for_vni p inner out now vni) p out tenant_frames =
      Some (p', out', ds) \<and> length ds = length tenant_frames \<and> length out' = length out \<and>
      (\<forall>d \<in> set ds. \<forall>n. d = Forward n \<or> d = Reply n \<longrightarrow> n \<le> length out) \<and>
      p_cfg p' = p_cfg p \<and> p_fabric p' = p_fabric p \<and> fates p' = fates p + of_nat (length tenant_frames)) \<and>
    (\<exists>p' out' ds. run_frames Pipeline_on_underlay_frame p out underlay_frames = Some (p', out', ds) \<and>
      length ds = length underlay_frames \<and> length out' = length out \<and>
      (\<forall>d \<in> set ds. \<forall>n. d = Forward n \<or> d = Reply n \<longrightarrow> n \<le> length out) \<and>
      p_cfg p' = p_cfg p \<and> p_fabric p' = p_fabric p \<and> fates p' = fates p + of_nat (length underlay_frames))"
proof -
  note inv = pipeline_reachable_inv [OF assms]
  show ?thesis
    using tenant.run_total [OF inv, of tenant_frames out] underlay.run_total [OF inv, of underlay_frames out]
    by (simp add: case_prod_unfold) blast
qed

section \<open>Concrete instances\<close>

definition sample_cfg :: pipeline_config where
  "sample_cfg =
     \<lparr> pc_local_node_ip = 0xc0a80001, pc_outer_src_mac = MacAddr 2 0 0 0 0 1, pc_outer_dst_mac = MacAddr 2 0 0 0 0 2,
       pc_vni = 42, pc_nat_ip = Some 0xcb007101, pc_gateway_node_ip = Some 0xc0a800fe,
       pc_virtual_gateway_mac = MacAddr 2 0 0 0 0 0xfe, pc_outer_udp_checksum = False, pc_underlay_mtu = 1500,
       pc_virtual_gateway_ip = 0x0a0000fe \<rparr>"

definition sample_endpoint :: endpoint where
  "sample_endpoint =
     \<lparr> e_vni = 42, e_inner_ip = 0x0a000002, e_inner_mac = MacAddr 2 0 0 0 0 0x22, e_node_ip = 0xc0a80002,
       e_local = False \<rparr>"

definition sample_fabric :: fabric where
  "sample_fabric = Fabric_add_endpoint (Fabric_new 0xc0a80001) sample_endpoint"

definition sample_frame :: bytes where
  "sample_frame = eth_hdr (MacAddr 2 0 0 0 0 0xfe) (MacAddr 2 0 0 0 0 0x11) ethertype_IPV4 @ sample_pkt"

text \<open>The same packet under a configuration whose MTU it exceeds, with Don't Fragment set.\<close>

definition sample_df_frame :: bytes where
  "sample_df_frame = sample_frame[20 := 0x40]"

definition sample_arp_frame :: bytes where
  "sample_arp_frame = eth_hdr BROADCAST (MacAddr 2 0 0 0 0 0x11) ethertype_ARP @
     to_be16 1 @ to_be16 ethertype_IPV4 @ [6, 4] @ to_be16 oper_REQUEST @ mac_bytes (MacAddr 2 0 0 0 0 0x11) @
     octets 0x0a000001 @ mac_bytes ZERO @ octets 0x0a000002"

lemma fresh_pipeline:
  assumes "NatEngine_new ip pmin pmax = Some eng"
  obtains p where "Pipeline_new cfg fab eng = Some p" "pipeline_reachable p" "p_cfg p = cfg" "p_fabric p = fab"
    "p_nat p = eng" "nat_reachable eng"
proof -
  have r: "nat_reachable eng" using assms by (rule nat_reachable.start)
  let ?p = "\<lparr> p_cfg = cfg, p_fabric = fab, p_nat = eng, p_tmpl = template cfg, p_ip_id = 0,
     p_stats = PipelineStats_default \<rparr>"
  have "pipeline_reachable ?p" using r Pipeline_new_eq by (rule pipeline_reachable.start)
  with r show thesis using that Pipeline_new_eq by simp
qed

lemma sample_pipeline:
  obtains eng p where "NatEngine_new 0xcb007101 40000 40001 = Some eng" "Pipeline_new cfg fab eng = Some p"
    "pipeline_reachable p" "p_cfg p = cfg" "p_fabric p = fab" "p_nat p = eng" "nat_reachable eng"
proof -
  obtain eng where e: "NatEngine_new 0xcb007101 40000 40001 = Some eng"
    by (simp add: NatEngine_new_def TimingWheel_new_def)
  obtain p where "Pipeline_new cfg fab eng = Some p" "pipeline_reachable p" "p_cfg p = cfg" "p_fabric p = fab"
    "p_nat p = eng" "nat_reachable eng"
    by (rule fresh_pipeline [OF e])
  with e show thesis by (rule that)
qed

lemma sample_lengths: "length sample_frame = 44" "length sample_df_frame = 44" "length sample_arp_frame = 42"
  by (simp_all add: sample_frame_def sample_df_frame_def sample_arp_frame_def sample_pkt_def sample_udp_def)

lemma sample_frame_payload: "drop 14 sample_frame = sample_pkt" "word16 sample_frame 12 = ethertype_IPV4"
  by (simp_all add: sample_frame_def eth_hdr_def word16_def nth_append)

lemma sample_resolve:
  "Fabric_resolve sample_fabric 42 0x0a000002 = Some (hop_of sample_endpoint)"
  by (simp add: sample_fabric_def fabmap.lookup_add sample_endpoint_def)

theorem pipeline_total_witness:
  "\<exists>eng p p' out' d. NatEngine_new 0xcb007101 40000 40001 = Some eng \<and> Pipeline_new sample_cfg sample_fabric eng = Some p \<and>
     run_frames Pipeline_on_underlay_frame p (replicate 100 0) [([1, 2, 3], 5)] = Some (p', out', [d]) \<and>
     fates p' = fates p + 1"
proof -
  obtain eng p where p: "NatEngine_new 0xcb007101 40000 40001 = Some eng" "Pipeline_new sample_cfg sample_fabric eng = Some p"
    "pipeline_reachable p" "p_cfg p = sample_cfg" "p_fabric p = sample_fabric" "p_nat p = eng" "nat_reachable eng"
    by (rule sample_pipeline)
  from pipeline_total [OF p(3), of "replicate 100 0" "[]" "[([1, 2, 3], 5)]"] obtain p' out' ds where
    "run_frames Pipeline_on_underlay_frame p (replicate 100 0) [([1, 2, 3], 5)] = Some (p', out', ds)"
    "length ds = 1" "fates p' = fates p + 1"
    by auto
  moreover from this obtain d where "ds = [d]" by (cases ds) auto
  ultimately show ?thesis using p(1,2) by blast
qed

section \<open>The fast outer header\<close>

text \<open>C10: the precomputed header path is equivalent to the general encapsulation: for every
  configuration, destination, flow hash, identification, VNI and every buffer that holds an
  inner frame of at most 65499 bytes after its headroom, stamping the template and patching
  its variable fields (with the checksum folded from the template's base) leaves exactly the
  bytes that encapsulating in place would leave.\<close>

theorem stamp_outer_equals_encap:
  assumes "n \<le> 65499" and "50 + n \<le> length out"
  shows "\<exists>tmpl out'. OuterTemplate_new cfg = Some tmpl \<and>
    Pipeline_stamp_outer cfg tmpl out n dst flow ip_id vni = Some out' \<and>
    encap_in_place out n
      \<lparr> ep_outer_src_mac = pc_outer_src_mac cfg, ep_outer_dst_mac = pc_outer_dst_mac cfg,
        ep_outer_src_ip = pc_local_node_ip cfg, ep_outer_dst_ip = dst, ep_vni = vni, ep_flow_hash = flow,
        ep_ip_id = ip_id, ep_outer_udp_checksum = pc_outer_udp_checksum cfg \<rparr> = Some (out', Inr (50 + n))"
  using assms
  by (simp add: OuterTemplate_new_eq Pipeline_stamp_outer_eq encap_in_place_eq flip: outer_params_def)

theorem stamp_outer_equals_encap_witness:
  "\<exists>tmpl out'. OuterTemplate_new sample_cfg = Some tmpl \<and>
     Pipeline_stamp_outer sample_cfg tmpl (replicate 60 7) 10 0xc0a80002 5 1 42 = Some out' \<and>
     encap_in_place (replicate 60 7) 10 (outer_params sample_cfg 0xc0a80002 5 1 42) = Some (out', Inr 60)"
  using stamp_outer_equals_encap [of 10 "replicate 60 7" sample_cfg "0xc0a80002" 5 1 42] by (simp add: outer_params_def)

section \<open>Forwarding\<close>

text \<open>A tenant frame that the pipeline encapsulates, and what is on the wire then.\<close>

lemma encap_forwards:
  assumes inv: "pipeline_inv p" and v: "tenant_verdict (p_cfg p) (p_fabric p) vni inner = Encapsulate hop"
    and fits: "50 + length inner \<le> length out" and n: "length inner \<le> 65499"
    and e: "egress_inner (p_nat p) now (flow_of (drop 14 inner)) hop inner = Some (inner', eng, natted, flow)"
  obtains out' where "Pipeline_encap_for_vni p inner out now vni = Some (after_egress p eng natted, out', Forward (50 + length inner))"
    "length out' = length out"
    "decap (take (50 + length inner) out') = Some (Inr (Some
      \<lparr> dc_header = AndromedaHdr_new vni flow, dc_inner = inner', dc_outer_src_ip = pc_local_node_ip (p_cfg p),
        dc_outer_dst_ip = fst hop \<rparr>))"
proof -
  have l14: "14 \<le> length inner" using tenant_verdict_len(1) [OF v] .
  have "nat_inv (p_nat p)" using inv by (simp add: pipeline_inv_def)
  from egress_inner_ok [OF this l14, of now "flow_of (drop 14 inner)" hop] e
  have len: "length inner' = length inner" by auto
  let ?P = "overlay_prefix (outer_params (p_cfg p) (fst hop) flow (p_ip_id p + 1) vni) inner'"
  let ?out = "?P @ inner' @ drop (50 + length inner) out"
  have "Pipeline_encap_for_vni p inner out now vni = Some (after_egress p eng natted, ?out, Forward (50 + length inner))"
    using fits by (simp add: Pipeline_encap_for_vni_eq [OF inv] v tenant_outcome_def e)
  moreover have "length ?out = length out" using len fits by simp
  moreover have "take (50 + length inner) ?out = ?P @ inner'" using len by simp
  moreover have "decap (?P @ inner') = Some (Inr (Some
      \<lparr> dc_header = AndromedaHdr_new vni flow, dc_inner = inner', dc_outer_src_ip = pc_local_node_ip (p_cfg p),
        dc_outer_dst_ip = fst hop \<rparr>))"
    using decap_overlay [of inner' "outer_params (p_cfg p) (fst hop) flow (p_ip_id p + 1) vni"] n len
    by (simp add: outer_params_def)
  ultimately show thesis using that by metis
qed

lemma tenant_verdict_ip:
  assumes "14 \<le> length inner" and "EthFrame_ethertype inner = Some ethertype_IPV4"
    and "Ipv4View_parse (drop 14 inner) = Some (Inr (drop 14 inner))"
    and "Ipv4View_dst (drop 14 inner) = Some dst"
  shows "tenant_verdict cfg fab vni inner =
    (case next_hop_of cfg fab vni dst of None \<Rightarrow> Refused ''no-route''
     | Some hop \<Rightarrow> if too_big cfg (drop 14 inner) then TooBig else Encapsulate hop)"
proof -
  have ok: "ipv4_ok (drop 14 inner)" using assms(3) Ipv4View_parse_err [of "drop 14 inner"] by auto
  have "20 \<le> length (drop 14 inner)" using ok by (rule ipv4_okD)
  then have "dst = word32 (drop 14 inner) 16" using assms(4) by (simp add: Ipv4View_accessors del: length_drop)
  moreover have "word16 inner 12 = ethertype_IPV4" using assms(1,2) by (simp add: EthFrame_accessors)
  ultimately show ?thesis
    using assms(1) ok by (simp add: tenant_verdict_def ip_verdict_def Let_def ethertype_defs)
qed

text \<open>C1: end-to-end delivery between two switches. Switch A handles a tenant IPv4 frame whose
  destination the fabric resolves in the frame's VNI and whose size is within the limits;
  it forwards 50 bytes more than the frame to the resolved node. When switch B serves that
  VNI (24 bits) and does not translate, handing it those bytes delivers the tenant's frame
  with only its destination MAC replaced by the endpoint's, byte for byte; neither switch
  changes its translation state.\<close>

theorem end_to_end_delivery:
  assumes "pipeline_reachable a" and "pipeline_reachable b"
    and "14 \<le> length inner" and "length inner \<le> 65499" and "EthFrame_ethertype inner = Some ethertype_IPV4"
    and "Ipv4View_parse (drop 14 inner) = Some (Inr (drop 14 inner))" and "Ipv4View_dst (drop 14 inner) = Some dst"
    and "Fabric_resolve (p_fabric a) vni dst = Some nh" and "\<not> too_big (p_cfg a) (drop 14 inner)"
    and "50 + length inner \<le> length out" and "length inner \<le> length out2"
    and "vni AND 0xffffff = vni" and "vni = pc_vni (p_cfg b) \<or> Fabric_vpc (p_fabric b) vni \<noteq> None"
    and "pc_nat_ip (p_cfg b) = None"
  shows "\<exists>a' wire b'. Pipeline_encap_for_vni a inner out now vni = Some (a', wire, Forward (50 + length inner)) \<and>
    p_nat a' = p_nat a \<and>
    (\<exists>d. decap (take (50 + length inner) wire) = Some (Inr (Some d)) \<and>
      dc_outer_src_ip d = pc_local_node_ip (p_cfg a) \<and> dc_outer_dst_ip d = nh_node_ip nh) \<and>
    Pipeline_on_underlay_frame b (take (50 + length inner) wire) out2 now2 =
      Some (b', (mac_bytes (nh_inner_mac nh) @ drop 6 inner) @ drop (length inner) out2, Forward (length inner)) \<and>
    p_nat b' = p_nat b"
proof -
  have inv: "pipeline_inv a" "pipeline_inv b" using assms(1,2) by (auto intro: pipeline_reachable_inv)
  let ?hop = "(nh_node_ip nh, Some (nh_inner_mac nh), False)" and ?i = "mac_bytes (nh_inner_mac nh) @ drop 6 inner"
  have v: "tenant_verdict (p_cfg a) (p_fabric a) vni inner = Encapsulate ?hop"
    using tenant_verdict_ip [OF assms(3,5,6,7)] assms(8,9) by (simp add: next_hop_of_def)
  have e: "egress_inner (p_nat a) now (flow_of (drop 14 inner)) ?hop inner =
      Some (?i, p_nat a, False, flow_of (drop 14 inner))"
    by (simp add: egress_inner_def)
  obtain wire where w: "Pipeline_encap_for_vni a inner out now vni =
        Some (after_egress a (p_nat a) False, wire, Forward (50 + length inner))" "length wire = length out"
      "decap (take (50 + length inner) wire) = Some (Inr (Some
        \<lparr> dc_header = AndromedaHdr_new vni (flow_of (drop 14 inner)), dc_inner = ?i,
          dc_outer_src_ip = pc_local_node_ip (p_cfg a), dc_outer_dst_ip = fst ?hop \<rparr>))"
    by (rule encap_forwards [OF inv(1) v assms(10,4) e])
  have li: "length ?i = length inner" using assms(3) by simp
  have "Pipeline_on_underlay_frame b (take (50 + length inner) wire) out2 now2 =
      Some (after_ingress b (p_nat b) False, ?i @ drop (length inner) out2, Forward (length inner))"
    using assms(11-14) li
    by (simp add: Pipeline_underlay_eq [OF inv(2) w(3)] underlay_outcome_def serves_def AndromedaHdr_new_def
        ingress_inner_def del: append_assoc length_append)
  then show ?thesis using w after_egress_simps(5) after_ingress_simps(5) by auto
qed

lemma sample_frame_facts:
  "EthFrame_ethertype sample_frame = Some ethertype_IPV4" "14 \<le> length sample_frame" "length sample_frame \<le> 65499"
  "Ipv4View_parse (drop 14 sample_frame) = Some (Inr (drop 14 sample_frame))"
  "Ipv4View_dst (drop 14 sample_frame) = Some 0x0a000002" "\<not> too_big sample_cfg (drop 14 sample_frame)"
proof -
  show "EthFrame_ethertype sample_frame = Some ethertype_IPV4" "14 \<le> length sample_frame" "length sample_frame \<le> 65499"
    by (simp_all add: sample_lengths) (simp add: sample_frame_def)
  show "Ipv4View_parse (drop 14 sample_frame) = Some (Inr (drop 14 sample_frame))"
    "Ipv4View_dst (drop 14 sample_frame) = Some 0x0a000002"
    unfolding sample_frame_payload(1) by code_simp+
  show "\<not> too_big sample_cfg (drop 14 sample_frame)"
    unfolding sample_frame_payload(1)
    by (simp add: too_big_def sample_pkt_def word16_def be16_def)
qed

definition sample_peer_cfg :: pipeline_config where
  "sample_peer_cfg = sample_cfg \<lparr> pc_local_node_ip := 0xc0a80002, pc_nat_ip := None \<rparr>"

theorem end_to_end_delivery_witness:
  "\<exists>a b a' wire b'. pipeline_reachable a \<and> pipeline_reachable b \<and>
     Pipeline_encap_for_vni a sample_frame (replicate 200 0) 1 42 = Some (a', wire, Forward 94) \<and>
     Pipeline_on_underlay_frame b (take 94 wire) (replicate 44 0) 2 =
       Some (b', mac_bytes (e_inner_mac sample_endpoint) @ drop 6 sample_frame, Forward 44)"
proof -
  obtain eng a where a: "NatEngine_new 0xcb007101 40000 40001 = Some eng" "Pipeline_new sample_cfg sample_fabric eng = Some a"
    "pipeline_reachable a" "p_cfg a = sample_cfg" "p_fabric a = sample_fabric" "p_nat a = eng" "nat_reachable eng"
    by (rule sample_pipeline)
  obtain eng b where b: "NatEngine_new 0xcb007101 40000 40001 = Some eng" "Pipeline_new sample_peer_cfg sample_fabric eng = Some b"
    "pipeline_reachable b" "p_cfg b = sample_peer_cfg" "p_fabric b = sample_fabric" "p_nat b = eng" "nat_reachable eng"
    by (rule sample_pipeline)
  have "Fabric_resolve (p_fabric a) 42 0x0a000002 = Some (hop_of sample_endpoint)" "\<not> too_big (p_cfg a) (drop 14 sample_frame)"
    using a sample_resolve sample_frame_facts(6) by simp_all
  moreover have "50 + length sample_frame \<le> length (replicate 200 (0 :: u8))" "length sample_frame \<le> length (replicate 44 (0 :: u8))"
    "(42 :: u32) AND 0xffffff = 42"
    by (simp_all add: sample_lengths)
  moreover have "42 = pc_vni (p_cfg b) \<or> Fabric_vpc (p_fabric b) 42 \<noteq> None" "pc_nat_ip (p_cfg b) = None"
    using b(4) by (simp_all add: sample_peer_cfg_def sample_cfg_def)
  ultimately obtain a' wire b' where
    "Pipeline_encap_for_vni a sample_frame (replicate 200 0) 1 42 = Some (a', wire, Forward (50 + length sample_frame))"
    "Pipeline_on_underlay_frame b (take (50 + length sample_frame) wire) (replicate 44 0) 2 =
      Some (b', (mac_bytes (nh_inner_mac (hop_of sample_endpoint)) @ drop 6 sample_frame) @
        drop (length sample_frame) (replicate 44 0), Forward (length sample_frame))"
    using end_to_end_delivery [OF a(3) b(3) sample_frame_facts(2,3,1,4,5), where out = "replicate 200 0" and now = 1
        and ?now2.0 = 2] by blast
  then show ?thesis using a(3) b(3) by (simp add: sample_lengths hop_of_def) blast
qed

section \<open>Path MTU discovery and proxy ARP\<close>

lemma pmtud_answer_len: "14 \<le> length inner \<Longrightarrow> ipv4_ok (drop 14 inner) \<Longrightarrow>
    62 \<le> length (pmtud_answer cfg inner) \<and> length (pmtud_answer cfg inner) \<le> 110"
  using length_icmp_quote [of "drop 14 inner"] by (simp add: pmtud_answer_def)

lemma pmtud_answer_write:
  assumes "14 \<le> length inner" and "ipv4_ok (drop 14 inner)" and "110 \<le> length out"
  shows "write_frag_needed out inner (pc_virtual_gateway_mac cfg) (pc_virtual_gateway_ip cfg) (inner_mtu_of cfg) =
    Some (pmtud_answer cfg inner @ drop (length (pmtud_answer cfg inner)) out, Inr (length (pmtud_answer cfg inner)))"
  using pmtud_answer_eq [OF assms(1,2), of out cfg] pmtud_answer_len [OF assms(1,2), of cfg] assms(3)
  by (auto simp: Let_def)

text \<open>C11: overlay path MTU discovery. A routable tenant IPv4 frame with Don't Fragment set whose
  total length exceeds the underlay MTU less 50 is never forwarded, by the copying path or
  by the in-place path: both answer the tenant, with the very frame the ``Fragmentation
  Needed'' builder makes for the inner MTU, whenever the buffer has 110 bytes, and both
  drop it otherwise if the answer does not fit; the batch path leaves the buffer as it is,
  forwards nothing and counts the frame as dropped. The translation state is unchanged.\<close>

theorem pmtud_never_forwards_oversize:
  assumes "pipeline_reachable p" and "14 \<le> length inner" and "EthFrame_ethertype inner = Some ethertype_IPV4"
    and "Ipv4View_parse (drop 14 inner) = Some (Inr (drop 14 inner))" and "Ipv4View_dst (drop 14 inner) = Some dst"
    and "Ipv4View_dont_fragment (drop 14 inner) = Some True" and "Ipv4View_total_length (drop 14 inner) = Some tlen"
    and "unat (pc_underlay_mtu (p_cfg p)) - 50 < unat tlen"
    and "Fabric_resolve (p_fabric p) (pc_vni (p_cfg p)) dst \<noteq> None \<or> pc_gateway_node_ip (p_cfg p) \<noteq> None"
    and "50 + length inner \<le> length frame" and "take (length inner) (drop 50 frame) = inner"
    and "50 + length inner < 2 ^ 64"
  shows "(\<exists>p' out' d. Pipeline_on_tenant_frame p inner out now = Some (p', out', d) \<and> (\<forall>n. d \<noteq> Forward n) \<and>
      p_nat p' = p_nat p \<and>
      (110 \<le> length out \<longrightarrow> (\<exists>n. d = Reply n \<and> 62 \<le> n \<and> n \<le> 110 \<and>
        write_frag_needed out inner (pc_virtual_gateway_mac (p_cfg p)) (pc_virtual_gateway_ip (p_cfg p))
          (inner_mtu_of (p_cfg p)) = Some (out', Inr n)))) \<and>
    (\<exists>p' frame' d. Pipeline_on_tenant_frame_inplace p frame (length inner) now = Some (p', frame', d) \<and>
      (\<forall>n. d \<noteq> Forward n) \<and> p_nat p' = p_nat p \<and>
      (110 \<le> length frame \<longrightarrow> (\<exists>n. d = Reply n \<and> 62 \<le> n \<and> n \<le> 110 \<and>
        write_frag_needed frame inner (pc_virtual_gateway_mac (p_cfg p)) (pc_virtual_gateway_ip (p_cfg p))
          (inner_mtu_of (p_cfg p)) = Some (frame', Inr n)))) \<and>
    Pipeline_encap_batch_inplace p frame [\<lparr> fs_offset = 0, fs_inner_len = length inner \<rparr>] now =
      Some (add_dropped 1 p, frame, 0)"
proof -
  note inv = pipeline_reachable_inv [OF assms(1)]
  let ?ip = "drop 14 inner" and ?cfg = "p_cfg p" and ?vni = "pc_vni (p_cfg p)"
  have ok: "ipv4_ok ?ip" using assms(4) Ipv4View_parse_err [of ?ip] by auto
  have l20: "20 \<le> length ?ip" using ok by (rule ipv4_okD)
  have ty: "word16 inner 12 = ethertype_IPV4" using assms(2,3) by (simp add: EthFrame_accessors)
  have acc: "tlen = word16 ?ip 2" "word16 ?ip 6 AND 0x4000 \<noteq> 0"
    using assms(6,7) Ipv4View_accessors(2,5) [OF l20] by simp_all
  have big: "too_big ?cfg ?ip" using acc assms(8) by (simp add: too_big_def)
  have "next_hop_of ?cfg (p_fabric p) ?vni dst \<noteq> None"
    using assms(9) by (auto simp: next_hop_of_def split: option.split)
  then obtain hop where hop: "next_hop_of ?cfg (p_fabric p) ?vni dst = Some hop" by blast
  have v: "tenant_verdict ?cfg (p_fabric p) ?vni inner = TooBig"
    using tenant_verdict_ip [OF assms(2-5)] hop big by simp
  have vi: "inplace_verdict ?cfg (p_fabric p) ?vni inner = TooBig"
    using v ty by (simp add: inplace_verdict_def ethertype_defs)
  note len = pmtud_answer_len [OF assms(2) ok, of ?cfg]
  have tc: "\<exists>p' out' d. tenant_outcome p inner out now ?vni TooBig = Some (p', out', d) \<and> (\<forall>n. d \<noteq> Forward n) \<and>
      p_nat p' = p_nat p \<and>
      (110 \<le> length out \<longrightarrow> (\<exists>n. d = Reply n \<and> 62 \<le> n \<and> n \<le> 110 \<and>
        write_frag_needed out inner (pc_virtual_gateway_mac ?cfg) (pc_virtual_gateway_ip ?cfg)
          (inner_mtu_of ?cfg) = Some (out', Inr n)))" for out
  proof (cases "length out < length (pmtud_answer ?cfg inner)")
    case True
    then show ?thesis
      using len by (simp add: tenant_outcome_def return_drop_def Pipeline_drop_def counter_defs)
  next
    case False
    then show ?thesis
      using len pmtud_answer_write [OF assms(2) ok, of out ?cfg]
      by (simp add: tenant_outcome_def Let_def counter_defs)
  qed
  have "Pipeline_on_tenant_frame p inner out now = tenant_outcome p inner out now ?vni TooBig"
    by (simp add: Pipeline_on_tenant_frame_def Pipeline_encap_for_vni_eq [OF inv] v)
  moreover have "Pipeline_on_tenant_frame_inplace p frame (length inner) now = tenant_outcome p inner frame now ?vni TooBig"
    using assms(10,11) by (simp add: Pipeline_inplace_eq [OF inv assms(12)] vi)
  moreover have "Pipeline_encap_batch_inplace p frame [\<lparr> fs_offset = 0, fs_inner_len = length inner \<rparr>] now =
      Some (add_dropped 1 p, frame, 0)"
  proof -
    have "take (length inner) (drop 50 (take (50 + length inner) frame)) = inner"
      using assms(11) by (simp add: drop_take)
    then have i: "drop 50 (take (50 + length inner) frame) = inner" by (simp add: drop_take)
    have "(word16 ?ip 6 AND 0x4000 \<noteq> 0 \<and> inner_mtu_of ?cfg < word16 ?ip 2) = True"
      using acc assms(8) by (simp add: inner_mtu_less)
    then show ?thesis
      using assms(2,10,12) ty ok
      by (simp add: Pipeline_encap_batch_inplace_def encap_batch_slot_def OVERLAY_OVERHEAD_eq usize_add_small Let_def
          slice_def slice_from_def i parse_inner_eq del: drop_take)
        (simp add: counter_defs)
  qed
  ultimately show ?thesis using tc [of out] tc [of frame] by simp
qed

definition sample_small_mtu :: pipeline_config where
  "sample_small_mtu = sample_cfg \<lparr> pc_underlay_mtu := 60 \<rparr>"

lemma sample_df_facts:
  "14 \<le> length sample_df_frame" "EthFrame_ethertype sample_df_frame = Some ethertype_IPV4"
  "Ipv4View_parse (drop 14 sample_df_frame) = Some (Inr (drop 14 sample_df_frame))"
  "Ipv4View_dst (drop 14 sample_df_frame) = Some 0x0a000002" "Ipv4View_dont_fragment (drop 14 sample_df_frame) = Some True"
  "Ipv4View_total_length (drop 14 sample_df_frame) = Some 30"
  by (simp add: sample_lengths) code_simp+

theorem pmtud_witness:
  "\<exists>p p' out' n. pipeline_reachable p \<and> p_cfg p = sample_small_mtu \<and>
     Pipeline_on_tenant_frame p sample_df_frame (replicate 200 0) 1 = Some (p', out', Reply n) \<and> 62 \<le> n"
proof -
  obtain eng p where p: "NatEngine_new 0xcb007101 40000 40001 = Some eng" "Pipeline_new sample_small_mtu sample_fabric eng = Some p"
    "pipeline_reachable p" "p_cfg p = sample_small_mtu" "p_fabric p = sample_fabric" "p_nat p = eng" "nat_reachable eng"
    by (rule sample_pipeline)
  have c: "unat (pc_underlay_mtu (p_cfg p)) - 50 < unat (30 :: u16)" "pc_gateway_node_ip (p_cfg p) \<noteq> None"
    by (simp_all add: p(4) sample_small_mtu_def sample_cfg_def)
  let ?f = "replicate 50 0 @ sample_df_frame"
  have f: "50 + length sample_df_frame \<le> length ?f" "take (length sample_df_frame) (drop 50 ?f) = sample_df_frame"
    "50 + length sample_df_frame < 2 ^ 64" by (simp_all add: sample_lengths)
  from pmtud_never_forwards_oversize [OF p(3) sample_df_facts c(1) disjI2 [OF c(2)] f, of "replicate 200 0" 1]
  show ?thesis using p(3,4) by auto
qed

text \<open>Proxy ARP. A well-formed ARP request from a tenant for an address other than its own is
  answered in any VNI, when the buffer has 42 bytes, by a 42-byte frame to the requester
  that says the asked address is at the virtual gateway's MAC; every other ARP frame is
  dropped with the buffer unchanged. Nothing but one counter changes.\<close>

lemma proxy_arp:
  assumes "pipeline_reachable p" and "14 \<le> length inner" and "EthFrame_ethertype inner = Some ethertype_ARP"
    and "42 \<le> length out"
  shows "let req = drop 14 inner; mac = pc_virtual_gateway_mac (p_cfg p) in
    if ArpView_parse req = Some (Inr req) \<and> ArpView_is_request req = Some True \<and>
       ArpView_target_ip req \<noteq> ArpView_sender_ip req
    then \<exists>out' body. Pipeline_encap_for_vni p inner out now vni = Some (add_arp_replied 1 p, out', Reply 42) \<and>
      EthFrame_src out' = Some mac \<and> EthFrame_ethertype out' = Some ethertype_ARP \<and>
      EthFrame_dst out' = ArpView_sender_mac req \<and> EthFrame_payload (take 42 out') = Some body \<and>
      ArpView_parse body = Some (Inr body) \<and> ArpView_oper body = Some oper_REPLY \<and>
      ArpView_sender_mac body = Some mac \<and> ArpView_sender_ip body = ArpView_target_ip req \<and>
      ArpView_target_ip body = ArpView_sender_ip req
    else Pipeline_encap_for_vni p inner out now vni = Some (add_dropped 1 p, out, Drop ''arp-ignored'')"
proof -
  note inv = pipeline_reachable_inv [OF assms(1)]
  let ?r = "drop 14 inner" and ?mac = "pc_virtual_gateway_mac (p_cfg p)"
  have ty: "word16 inner 12 = ethertype_ARP" using assms(2,3) by (simp add: EthFrame_accessors)
  have parse: "(ArpView_parse ?r = Some (Inr ?r)) = arp_ok ?r"
    using ArpView_parse_ok ArpView_parse_err by fastforce
  show ?thesis
  proof (cases "arp_ok ?r")
    case False
    then have "tenant_verdict (p_cfg p) (p_fabric p) vni inner = Refused ''arp-ignored''"
      using assms(2) ty by (simp add: tenant_verdict_def Let_def)
    then show ?thesis
      using False by (simp add: parse Pipeline_encap_for_vni_eq [OF inv] tenant_outcome_def return_drop_def Pipeline_drop_def)
  next
    case True
    then have l28: "28 \<le> length ?r" by (simp add: arp_ok_def)
    let ?m = "mac_at ?r 8"
    let ?b = "arp_body ?mac (word32 ?r 24) ?m (word32 ?r 14)"
    have b: "arp_ok ?b" "word16 ?b 6 = 2" "ArpView_sender_mac ?b = Some ?mac" "word32 ?b 14 = word32 ?r 24"
      "word32 ?b 24 = word32 ?r 14"
      using arp_body_fields [of ?mac "word32 ?r 24" ?m "word32 ?r 14" "[]"] by simp_all
    have bl: "28 \<le> length ?b" by simp
    note acc = ArpView_accessors [OF l28]
    show ?thesis
    proof (cases "word16 ?r 6 = 1 \<and> word32 ?r 24 \<noteq> word32 ?r 14")
      case True
      then have "tenant_verdict (p_cfg p) (p_fabric p) vni inner = ArpAnswer"
        using assms(2) ty \<open>arp_ok ?r\<close> by (simp add: tenant_verdict_def Let_def)
      then have "Pipeline_encap_for_vni p inner out now vni =
          Some (add_arp_replied 1 p, eth_hdr ?m ?mac ethertype_ARP @ ?b @ drop 42 out, Reply 42)"
        using assms(4) by (simp add: Pipeline_encap_for_vni_eq [OF inv] tenant_outcome_def arp_answer_def)
      moreover have "EthFrame_payload (take 42 (eth_hdr ?m ?mac ethertype_ARP @ ?b @ drop 42 out)) = Some ?b" by simp
      ultimately show ?thesis
        using True \<open>arp_ok ?r\<close> b ArpView_accessors [OF bl] ArpView_sender_mac_at [OF l28]
        by (simp add: parse acc ArpView_parse_ok oper_REPLY_def Let_def del: take_append)
    next
      case False
      then have "tenant_verdict (p_cfg p) (p_fabric p) vni inner = Refused ''arp-ignored''"
        using assms(2) ty by (auto simp: tenant_verdict_def Let_def)
      then show ?thesis
        using False by (auto simp: acc Pipeline_encap_for_vni_eq [OF inv] tenant_outcome_def return_drop_def
            Pipeline_drop_def Let_def)
    qed
  qed
qed

lemma proxy_arp_witness:
  "\<exists>p out' body. pipeline_reachable p \<and>
     Pipeline_encap_for_vni p sample_arp_frame (replicate 60 0) 1 7 = Some (add_arp_replied 1 p, out', Reply 42) \<and>
     EthFrame_payload (take 42 out') = Some body \<and> ArpView_sender_ip body = Some 0x0a000002"
proof -
  obtain eng p where p: "NatEngine_new 0xcb007101 40000 40001 = Some eng" "Pipeline_new sample_cfg sample_fabric eng = Some p"
    "pipeline_reachable p" "p_cfg p = sample_cfg" "p_fabric p = sample_fabric" "p_nat p = eng" "nat_reachable eng"
    by (rule sample_pipeline)
  have a: "14 \<le> length sample_arp_frame" "EthFrame_ethertype sample_arp_frame = Some ethertype_ARP"
    by (simp add: sample_lengths) (simp add: sample_arp_frame_def)
  have r: "ArpView_parse (drop 14 sample_arp_frame) = Some (Inr (drop 14 sample_arp_frame))"
    "ArpView_is_request (drop 14 sample_arp_frame) = Some True"
    "ArpView_target_ip (drop 14 sample_arp_frame) = Some 0x0a000002"
    "ArpView_sender_ip (drop 14 sample_arp_frame) = Some 0x0a000001"
    by code_simp+
  have o: "42 \<le> length (replicate 60 (0 :: u8))" by simp
  from proxy_arp [OF p(3) a o, of 1 7] r show ?thesis using p(3) by (auto simp: Let_def)
qed

section \<open>Isolation of tenants\<close>

text \<open>C21: isolation on egress. What the switch does with a frame of one VNI does not depend on the
  endpoints of any other: adding endpoints of other VNIs to the fabric map, in any number
  and with any addresses (also the same inner addresses), changes neither the decision nor
  a byte of the output nor the state, apart from the map itself. And a frame is only ever
  sent to the node of an endpoint registered in its own VNI for its own destination, or to
  the configured gateway.\<close>

theorem tenant_isolation_egress:
  assumes "pipeline_reachable p" and "\<forall>e \<in> set eps. e_vni e \<noteq> vni"
  shows "\<exists>p' out' d. Pipeline_encap_for_vni p inner out now vni = Some (p', out', d) \<and>
    (let fab = foldl Fabric_add_endpoint (p_fabric p) eps in
     Pipeline_encap_for_vni (Pipeline_reload_fabric p fab) inner out now vni =
       Some (Pipeline_reload_fabric p' fab, out', d)) \<and>
    (\<forall>n c. d = Forward n \<and> length inner \<le> 65499 \<and> decap (take n out') = Some (Inr (Some c)) \<longrightarrow>
       ah_vni (dc_header c) = vni AND 0xffffff \<and>
       (\<exists>dst nh. Ipv4View_dst (drop 14 inner) = Some dst \<and>
          (Fabric_resolve (p_fabric p) vni dst = Some nh \<and> dc_outer_dst_ip c = nh_node_ip nh \<or>
           Fabric_resolve (p_fabric p) vni dst = None \<and> pc_gateway_node_ip (p_cfg p) = Some (dc_outer_dst_ip c))))"
proof -
  note inv = pipeline_reachable_inv [OF assms(1)]
  let ?fab = "foldl Fabric_add_endpoint (p_fabric p) eps"
  let ?q = "Pipeline_reload_fabric p ?fab"
  let ?v = "tenant_verdict (p_cfg p) (p_fabric p) vni inner"
  have invq: "pipeline_inv ?q" using inv by (simp add: Pipeline_reload_fabric_def pipeline_inv_def)
  have cq: "p_cfg ?q = p_cfg p" "p_fabric ?q = ?fab" "p_nat ?q = p_nat p" "p_ip_id ?q = p_ip_id p"
    by (simp_all add: Pipeline_reload_fabric_def)
  have "Fabric_resolve ?fab vni ip = Fabric_resolve (p_fabric p) vni ip" for ip
    using assms(2) by (intro fabmap.lookup_foldl_other) auto
  then have v: "tenant_verdict (p_cfg p) ?fab vni inner = ?v"
    by (simp add: tenant_verdict_def ip_verdict_def next_hop_of_def Let_def)
  obtain p' out' d where run: "Pipeline_encap_for_vni p inner out now vni = Some (p', out', d)"
    using tenant.handle_ok [OF inv, of "(inner, vni)" out now] by auto
  have "tenant_outcome ?q inner out now vni ?v =
      map_option (\<lambda>(p', out', d). (Pipeline_reload_fabric p' ?fab, out', d)) (tenant_outcome p inner out now vni ?v)"
    by (simp add: tenant_outcome_def cq Let_def return_drop_def Pipeline_drop_def split: tenant_verdict.split option.split)
      (auto simp: Pipeline_reload_fabric_def counter_defs after_egress_def split: Option.bind_splits)
  then have other: "Pipeline_encap_for_vni ?q inner out now vni = Some (Pipeline_reload_fabric p' ?fab, out', d)"
    using run by (simp add: Pipeline_encap_for_vni_eq [OF inv] Pipeline_encap_for_vni_eq [OF invq] cq v)
  have "ah_vni (dc_header c) = vni AND 0xffffff \<and>
       (\<exists>dst nh. Ipv4View_dst (drop 14 inner) = Some dst \<and>
          (Fabric_resolve (p_fabric p) vni dst = Some nh \<and> dc_outer_dst_ip c = nh_node_ip nh \<or>
           Fabric_resolve (p_fabric p) vni dst = None \<and> pc_gateway_node_ip (p_cfg p) = Some (dc_outer_dst_ip c)))"
    if d: "d = Forward n" and n: "length inner \<le> 65499" and c: "decap (take n out') = Some (Inr (Some c))" for n c
  proof -
    have out: "tenant_outcome p inner out now vni ?v = Some (p', out', Forward n)"
      using run d by (simp add: Pipeline_encap_for_vni_eq [OF inv])
    then obtain hop where hop: "?v = Encapsulate hop" and fits: "50 + length inner \<le> length out"
      by (auto simp: tenant_outcome_def return_drop_def Pipeline_drop_def Let_def
          split: tenant_verdict.splits if_splits)
    have l14: "14 \<le> length inner" using tenant_verdict_len(1) [OF hop] .
    have "nat_inv (p_nat p)" using inv by (simp add: pipeline_inv_def)
    from egress_inner_ok [OF this l14, of now "flow_of (drop 14 inner)" hop] obtain inner' eng natted flow where
      e: "egress_inner (p_nat p) now (flow_of (drop 14 inner)) hop inner = Some (inner', eng, natted, flow)" by blast
    obtain out'' where w: "Pipeline_encap_for_vni p inner out now vni =
        Some (after_egress p eng natted, out'', Forward (50 + length inner))" "length out'' = length out"
      "decap (take (50 + length inner) out'') = Some (Inr (Some
        \<lparr> dc_header = AndromedaHdr_new vni flow, dc_inner = inner', dc_outer_src_ip = pc_local_node_ip (p_cfg p),
          dc_outer_dst_ip = fst hop \<rparr>))"
      by (rule encap_forwards [OF inv hop fits n e])
    then have cc: "c = \<lparr> dc_header = AndromedaHdr_new vni flow, dc_inner = inner',
        dc_outer_src_ip = pc_local_node_ip (p_cfg p), dc_outer_dst_ip = fst hop \<rparr>"
      using run d c by simp
    have ok: "ipv4_ok (drop 14 inner)" and nh: "next_hop_of (p_cfg p) (p_fabric p) vni (word32 (drop 14 inner) 16) = Some hop"
      using hop by (auto simp: tenant_verdict_def ip_verdict_def Let_def split: if_splits option.splits)
    have "20 \<le> length (drop 14 inner)" using ok by (rule ipv4_okD)
    then have "Ipv4View_dst (drop 14 inner) = Some (word32 (drop 14 inner) 16)"
      by (simp add: Ipv4View_accessors del: length_drop)
    moreover have "ah_vni (dc_header c) = vni AND 0xffffff" by (simp add: cc AndromedaHdr_new_def)
    ultimately show ?thesis using nh by (auto simp: next_hop_of_def cc split: option.splits)
  qed
  then show ?thesis using run other by (auto simp: Let_def)
qed

theorem tenant_isolation_egress_witness:
  "\<exists>p p' out' d. pipeline_reachable p \<and> Pipeline_encap_for_vni p sample_frame (replicate 200 0) 1 42 = Some (p', out', d) \<and>
     (let fab = foldl Fabric_add_endpoint (p_fabric p) [sample_endpoint \<lparr> e_vni := 7 \<rparr>] in
      Pipeline_encap_for_vni (Pipeline_reload_fabric p fab) sample_frame (replicate 200 0) 1 42 =
        Some (Pipeline_reload_fabric p' fab, out', d))"
proof -
  obtain eng p where p: "NatEngine_new 0xcb007101 40000 40001 = Some eng" "Pipeline_new sample_cfg sample_fabric eng = Some p"
    "pipeline_reachable p" "p_cfg p = sample_cfg" "p_fabric p = sample_fabric" "p_nat p = eng" "nat_reachable eng"
    by (rule sample_pipeline)
  have "\<forall>e \<in> set [sample_endpoint \<lparr> e_vni := 7 \<rparr>]. e_vni e \<noteq> 42" by simp
  from tenant_isolation_egress [OF p(3) this, of sample_frame "replicate 200 0" 1] show ?thesis using p(3) by blast
qed

text \<open>C22: isolation on ingress, and what the underlay side does with any frame. A frame is passed
  back exactly when decapsulation says it is not overlay traffic, and dropped as bad when
  decapsulation fails; a tenant frame is delivered only if its VNI is the configured one or
  that of a virtual network of the fabric map and the buffer can hold it, and then the
  delivered bytes are the inner frame itself, unless the switch translates and the inner
  frame is IPv4, when they keep its length and its Ethernet header.\<close>

theorem underlay_delivery:
  assumes "pipeline_reachable p"
  shows "\<exists>r p' out' d. decap frame = Some r \<and> Pipeline_on_underlay_frame p frame out now = Some (p', out', d) \<and>
    (case r of
       Inl _ \<Rightarrow> d = Drop ''bad-encap'' \<and> out' = out
     | Inr None \<Rightarrow> d = Pass \<and> out' = out \<and> p' = add_passed 1 p
     | Inr (Some c) \<Rightarrow>
         let inner = dc_inner c; vni = ah_vni (dc_header c) in
         if \<not> (vni = pc_vni (p_cfg p) \<or> Fabric_vpc (p_fabric p) vni \<noteq> None) then d = Drop ''wrong-vni'' \<and> out' = out
         else if length out < length inner then d = Drop ''decap-out-too-small'' \<and> out' = out
         else d = Forward (length inner) \<and> drop (length inner) out' = drop (length inner) out \<and>
           take 14 out' = take 14 (inner @ drop (length inner) out) \<and>
           (pc_nat_ip (p_cfg p) = None \<or> EthFrame_ethertype inner \<noteq> Some ethertype_IPV4 \<longrightarrow>
              out' = inner @ drop (length inner) out \<and> p_nat p' = p_nat p))"
proof -
  note inv = pipeline_reachable_inv [OF assms]
  obtain r where r: "decap frame = Some r" using decap_total by blast
  note run = Pipeline_underlay_eq [OF inv r, of out now]
  show ?thesis
  proof (cases "\<exists>c. r = Inr (Some c) \<and> serves p (ah_vni (dc_header c)) \<and> length (dc_inner c) \<le> length out")
    case False
    then show ?thesis
      using r run by (auto simp: underlay_outcome_def return_drop_def Pipeline_drop_def serves_def Let_def
          split: sum.splits option.splits)
  next
    case True
    then obtain c where c: "r = Inr (Some c)" "serves p (ah_vni (dc_header c))" "length (dc_inner c) \<le> length out" by blast
    let ?i = "dc_inner c"
    from ingress_inner_ok [OF inv, of now ?i] obtain inner' eng natted where
      i: "ingress_inner p now ?i = Some (inner', eng, natted)" "length inner' = length ?i" by blast
    have hdr: "take 14 (inner' @ z) = take 14 (?i @ z)" for z
      using i by (auto simp: ingress_inner_def Option.bind_eq_Some_conv split: if_splits)
    have same: "inner' = ?i \<and> eng = p_nat p"
      if "pc_nat_ip (p_cfg p) = None \<or> EthFrame_ethertype ?i \<noteq> Some ethertype_IPV4"
      using that i(1) by (auto simp: ingress_inner_def EthFrame_accessors split: if_splits)
    have "Pipeline_on_underlay_frame p frame out now =
        Some (after_ingress p eng natted, inner' @ drop (length ?i) out, Forward (length ?i))"
      using c i by (simp add: run underlay_outcome_def Let_def)
    then show ?thesis
      using r c i(2) hdr same by (auto simp: serves_def Let_def after_ingress_simps)
  qed
qed

theorem underlay_delivery_witness:
  "\<exists>p p'. pipeline_reachable p \<and>
     Pipeline_on_underlay_frame p sample_frame (replicate 200 0) 1 = Some (p', replicate 200 0, Pass)"
proof -
  obtain eng p where p: "NatEngine_new 0xcb007101 40000 40001 = Some eng" "Pipeline_new sample_cfg sample_fabric eng = Some p"
    "pipeline_reachable p" "p_cfg p = sample_cfg" "p_fabric p = sample_fabric" "p_nat p = eng" "nat_reachable eng"
    by (rule sample_pipeline)
  have "decap sample_frame = Some (Inr None)" by code_simp
  with underlay_delivery [OF p(3), of sample_frame "replicate 200 0" 1] show ?thesis using p(3) by auto
qed

section \<open>The three tenant paths agree\<close>

text \<open>C9: the zero-copy path is equivalent to the copying path. For a frame that is not ARP, placed
  after 50 bytes of headroom in a buffer as long as the other path's output buffer, the two
  handlers take the same decision, reach the same state (translation, identification,
  statistics), and announce the same bytes for transmission.\<close>

theorem inplace_equals_copy:
  assumes "pipeline_reachable p" and "length frame = length out" and "50 + length inner \<le> length frame"
    and "take (length inner) (drop 50 frame) = inner" and "length frame < 2 ^ 64"
    and "EthFrame_ethertype inner \<noteq> Some ethertype_ARP"
  shows "\<exists>p' out' frame' d. Pipeline_on_tenant_frame p inner out now = Some (p', out', d) \<and>
    Pipeline_on_tenant_frame_inplace p frame (length inner) now = Some (p', frame', d) \<and>
    (\<forall>n. d = Forward n \<or> d = Reply n \<longrightarrow> take n frame' = take n out')"
proof -
  note inv = pipeline_reachable_inv [OF assms(1)]
  let ?cfg = "p_cfg p" and ?vni = "pc_vni (p_cfg p)"
  let ?v = "tenant_verdict ?cfg (p_fabric p) ?vni inner"
  have n: "50 + length inner < 2 ^ 64" using assms(3,5) by simp
  have v: "inplace_verdict ?cfg (p_fabric p) ?vni inner = ?v"
    using assms(6) by (auto simp: inplace_verdict_def EthFrame_accessors)
  have copy: "Pipeline_on_tenant_frame p inner out now = tenant_outcome p inner out now ?vni ?v"
    by (simp add: Pipeline_on_tenant_frame_def Pipeline_encap_for_vni_eq [OF inv])
  have inpl: "Pipeline_on_tenant_frame_inplace p frame (length inner) now = tenant_outcome p inner frame now ?vni ?v"
    using assms(3,4) v by (simp add: Pipeline_inplace_eq [OF inv n])
  have "nat_inv (p_nat p)" using inv by (simp add: pipeline_inv_def)
  then have e: "\<exists>inner' eng natted flow. length inner' = length inner \<and>
      egress_inner (p_nat p) now (flow_of (drop 14 inner)) hop inner = Some (inner', eng, natted, flow)"
    if "?v = Encapsulate hop" for hop
    using egress_inner_ok [OF _ tenant_verdict_len(1) [OF that], of "p_nat p" now "flow_of (drop 14 inner)" hop] by blast
  have "14 \<le> length inner \<Longrightarrow> word16 inner 12 \<noteq> ethertype_ARP" using assms(6) EthFrame_accessors(1) [of inner] by auto
  then have na: "?v \<noteq> ArpAnswer"
    by (simp add: tenant_verdict_def ip_verdict_def Let_def split: option.split)
  show ?thesis
  proof (cases ?v)
    case (Encapsulate hop)
    then show ?thesis using e [OF Encapsulate] assms(2,3) unfolding copy inpl by (auto simp: tenant_outcome_def)
  next
    case TooBig
    then show ?thesis
      using assms(2) unfolding copy inpl
      by (simp add: tenant_outcome_def Let_def return_drop_def Pipeline_drop_def)
  qed (use na in \<open>simp_all add: copy inpl tenant_outcome_def return_drop_def Pipeline_drop_def\<close>)
qed

theorem inplace_equals_copy_witness:
  "\<exists>p p' out' frame' d. pipeline_reachable p \<and> Pipeline_on_tenant_frame p sample_frame (replicate 94 0) 1 = Some (p', out', d) \<and>
     Pipeline_on_tenant_frame_inplace p (replicate 50 7 @ sample_frame) 44 1 = Some (p', frame', d)"
proof -
  obtain eng p where p: "NatEngine_new 0xcb007101 40000 40001 = Some eng" "Pipeline_new sample_cfg sample_fabric eng = Some p"
    "pipeline_reachable p" "p_cfg p = sample_cfg" "p_fabric p = sample_fabric" "p_nat p = eng" "nat_reachable eng"
    by (rule sample_pipeline)
  have "EthFrame_ethertype sample_frame \<noteq> Some ethertype_ARP"
    using sample_frame_facts(1) by (simp add: ethertype_defs)
  with inplace_equals_copy [OF p(3), of "replicate 50 7 @ sample_frame" "replicate 94 0" sample_frame 1]
  show ?thesis using p(3) by (auto simp: sample_lengths)
qed

text \<open>C7: the batch path refines the in-place path. For every list of slots, overlapping or not, and
  every buffer, the batch returns what the in-place handler would give slot by slot, in
  order, on the slice of each slot, keeping a result only when the frame is forwarded: the
  same buffer, the same number of forwarded frames, and the same state (translation,
  identification and every counter) except that the number of dropped frames grows by at
  most one per slot, for frames that exceed the path MTU.\<close>

theorem batch_refines_inplace:
  assumes "pipeline_reachable p" and "\<forall>slot \<in> set batch. fs_offset slot + 50 + fs_inner_len slot < 2 ^ 64"
    and "length batch < 2 ^ 64"
  shows "\<exists>p' buf' k m. foldl (batch_ref_slot now) (p, buf, 0) batch = (p', buf', k) \<and>
    m \<le> length batch \<and> k \<le> length batch \<and>
    Pipeline_encap_batch_inplace p buf batch now = Some (add_dropped (of_nat m) p', buf', k)"
  using Pipeline_batch_eq [OF pipeline_reachable_inv [OF assms(1)], of batch now buf] assms(2,3)
  by (auto simp: slot_ok_def)

theorem batch_refines_inplace_witness:
  "\<exists>p p' buf' k m. pipeline_reachable p \<and>
     foldl (batch_ref_slot 1) (p, replicate 50 0 @ sample_frame, 0) [\<lparr> fs_offset = 0, fs_inner_len = 44 \<rparr>] =
       (p', buf', k) \<and> m \<le> 1 \<and>
     Pipeline_encap_batch_inplace p (replicate 50 0 @ sample_frame) [\<lparr> fs_offset = 0, fs_inner_len = 44 \<rparr>] 1 =
       Some (add_dropped (of_nat m) p', buf', k)"
proof -
  obtain eng p where p: "NatEngine_new 0xcb007101 40000 40001 = Some eng" "Pipeline_new sample_cfg sample_fabric eng = Some p"
    "pipeline_reachable p" "p_cfg p = sample_cfg" "p_fabric p = sample_fabric" "p_nat p = eng" "nat_reachable eng"
    by (rule sample_pipeline)
  let ?b = "[\<lparr> fs_offset = 0, fs_inner_len = 44 \<rparr>] :: frame_slot list"
  have "\<forall>slot \<in> set ?b. fs_offset slot + 50 + fs_inner_len slot < 2 ^ 64" "length ?b < 2 ^ 64" by simp_all
  from batch_refines_inplace [OF p(3) this, of 1 "replicate 50 0 @ sample_frame"] obtain p' buf' k m where
    "foldl (batch_ref_slot 1) (p, replicate 50 0 @ sample_frame, 0) ?b = (p', buf', k)" "m \<le> length ?b"
    "Pipeline_encap_batch_inplace p (replicate 50 0 @ sample_frame) ?b 1 = Some (add_dropped (of_nat m) p', buf', k)"
    by blast
  then show ?thesis using p(3) by (intro exI [of _ p] exI [of _ p'] exI [of _ buf'] exI [of _ k] exI [of _ m]) simp
qed

section \<open>Source translation through the whole data path\<close>

lemma nat_translate_rewrites:
  assumes ft: "five_tuple_of pkt = Some (Some t)" and len: "length pkt \<le> 65535"
    and run: "NatEngine_process e t dir now = Some (e', rw)" and rw: "\<not> Rewrite_is_noop rw"
  obtains pkt' where "nat_translate e dir now pkt = Some (pkt', e', True)" "length pkt' = length pkt"
    "five_tuple_of pkt' = Some (Some (rewrite_tuple rw t))"
    "Ipv4View_checksum_valid pkt' = Ipv4View_checksum_valid pkt"
proof -
  obtain b where b: "nat_apply pkt rw = Some (b, Inr ())" "length b = length pkt"
      "five_tuple_of b = Some (Some (rewrite_tuple rw t))" "Ipv4View_checksum_valid b = Ipv4View_checksum_valid pkt"
    using nat_apply_law [OF ft len, of rw] by blast
  have "nat_translate e dir now pkt = Some (b, e', True)" using ft run rw b(1) by (simp add: nat_translate_def)
  with b that show thesis by blast
qed

lemma five_tuple_of_ok: "five_tuple_of b = Some (Some t) \<Longrightarrow> ipv4_ok b \<and> dst_ip t = word32 b 16"
  by (auto simp: five_tuple_of_eq has_ports_def tuple_of_def split: if_splits)

lemma snat_egress_rewrites:
  assumes "five_tuple_of pkt = Some (Some t)" and "length pkt \<le> 65535"
    and "NatEngine_process e t Outbound now = Some (e', rw)" and "\<not> Rewrite_is_noop rw"
  obtains pkt' where "snat_egress e now flow pkt = Some (pkt', e', True, flow_of pkt')" "length pkt' = length pkt"
    "five_tuple_of pkt' = Some (Some (rewrite_tuple rw t))"
    "Ipv4View_checksum_valid pkt' = Ipv4View_checksum_valid pkt"
proof -
  obtain b where b: "nat_translate e Outbound now pkt = Some (b, e', True)" "length b = length pkt"
      "five_tuple_of b = Some (Some (rewrite_tuple rw t))" "Ipv4View_checksum_valid b = Ipv4View_checksum_valid pkt"
    by (rule nat_translate_rewrites [OF assms])
  have "ipv4_ok b" using five_tuple_of_ok [OF b(3)] by simp
  then have "snat_egress e now flow pkt = Some (b, e', True, flow_of b)"
    using b(1) by (simp add: snat_egress_def Ipv4View_parse_ok flow_hash_of_eq)
  with b that show thesis by blast
qed

text \<open>C4: source translation end to end. A TCP or UDP packet of a tenant to a destination outside
  the fabric, in a flow the engine translates, leaves for the gateway node with the NAT
  address and a port of the range as its source, its header checksum as valid as before;
  and whenever the reply of the remote endpoint to that translated flow comes back in an
  overlay frame that the switch accepts, the packet it delivers to the tenant is addressed
  to the private address and port the flow came from.\<close>

theorem snat_end_to_end:
  assumes "pipeline_reachable p" and "14 \<le> length inner" and "length inner \<le> 65499"
    and "EthFrame_ethertype inner = Some ethertype_IPV4" and "five_tuple_of (drop 14 inner) = Some (Some t)"
    and "Fabric_resolve (p_fabric p) vni (dst_ip t) = None" and "pc_gateway_node_ip (p_cfg p) = Some gw"
    and "pc_nat_ip (p_cfg p) \<noteq> None" and "\<not> too_big (p_cfg p) (drop 14 inner)" and "50 + length inner \<le> length out"
    and "fmlookup (dnat_rev (p_nat p)) t = None" and "NatEngine_process (p_nat p) t Outbound now = Some (eng, rw)"
    and "\<not> Rewrite_is_noop rw"
  shows "\<exists>p' wire c port. Pipeline_encap_for_vni p inner out now vni = Some (p', wire, Forward (50 + length inner)) \<and>
    decap (take (50 + length inner) wire) = Some (Inr (Some c)) \<and> dc_outer_dst_ip c = gw \<and>
    port_min (p_nat p) \<le> port \<and> port \<le> port_max (p_nat p) \<and>
    (let t' = t \<lparr> src_ip := nat_ip (p_nat p), src_port := port \<rparr> in
     five_tuple_of (drop 14 (dc_inner c)) = Some (Some t') \<and>
     Ipv4View_checksum_valid (drop 14 (dc_inner c)) = Ipv4View_checksum_valid (drop 14 inner) \<and>
     (\<forall>f c2 out2 now2. decap f = Some (Inr (Some c2)) \<and> serves p' (ah_vni (dc_header c2)) \<and>
        14 \<le> length (dc_inner c2) \<and> length (dc_inner c2) \<le> 65535 \<and> length (dc_inner c2) \<le> length out2 \<and>
        EthFrame_ethertype (dc_inner c2) = Some ethertype_IPV4 \<and>
        five_tuple_of (drop 14 (dc_inner c2)) = Some (Some (FiveTuple_reversed t')) \<longrightarrow>
        (\<exists>p'' out''. Pipeline_on_underlay_frame p' f out2 now2 = Some (p'', out'', Forward (length (dc_inner c2))) \<and>
           five_tuple_of (drop 14 (take (length (dc_inner c2)) out'')) = Some (Some (FiveTuple_reversed t)))))"
proof -
  note inv = pipeline_reachable_inv [OF assms(1)]
  let ?ip = "drop 14 inner" and ?hop = "(gw, None, True) :: ipv4addr \<times> mac_addr option \<times> bool"
  have ninv: "nat_inv (p_nat p)" using inv by (simp add: pipeline_inv_def)
  have ok: "ipv4_ok ?ip" "dst_ip t = word32 ?ip 16" using five_tuple_of_ok [OF assms(5)] by simp_all
  have "20 \<le> length ?ip" using ok(1) by (rule ipv4_okD)
  then have dst: "Ipv4View_dst ?ip = Some (dst_ip t)" by (simp add: Ipv4View_accessors ok(2) del: length_drop)
  have v: "tenant_verdict (p_cfg p) (p_fabric p) vni inner = Encapsulate ?hop"
    using tenant_verdict_ip [OF assms(2,4) Ipv4View_parse_ok [OF ok(1)] dst] assms(6-9) by (simp add: next_hop_of_def)
  have len: "length ?ip \<le> 65535" using assms(3) by simp
  obtain pkt where pkt: "snat_egress (p_nat p) now (flow_of ?ip) ?ip = Some (pkt, eng, True, flow_of pkt)"
      "length pkt = length ?ip" "five_tuple_of pkt = Some (Some (rewrite_tuple rw t))"
      "Ipv4View_checksum_valid pkt = Ipv4View_checksum_valid ?ip"
    by (rule snat_egress_rewrites [OF assms(5) len assms(12,13)])
  have e: "egress_inner (p_nat p) now (flow_of ?ip) ?hop inner = Some (take 14 inner @ pkt, eng, True, flow_of pkt)"
    using pkt(1) by (simp add: egress_inner_def)
  obtain wire where w: "Pipeline_encap_for_vni p inner out now vni =
        Some (after_egress p eng True, wire, Forward (50 + length inner))" "length wire = length out"
      "decap (take (50 + length inner) wire) = Some (Inr (Some
        \<lparr> dc_header = AndromedaHdr_new vni (flow_of pkt), dc_inner = take 14 inner @ pkt,
          dc_outer_src_ip = pc_local_node_ip (p_cfg p), dc_outer_dst_ip = fst ?hop \<rparr>))"
    by (rule encap_forwards [OF inv v assms(10,3) e])
  let ?p' = "after_egress p eng True"
  have "nat_inv eng" using nat_inv_process [OF ninv, of t Outbound now] assms(12) by auto
  then have inv': "pipeline_inv ?p'" by (intro after_egress_simps inv)
  obtain port where port: "rw = Rewrite_default \<lparr> new_src_ip := Some (nat_ip (p_nat p)), new_src_port := Some port \<rparr>"
      "port_min (p_nat p) \<le> port" "port \<le> port_max (p_nat p)"
    using snat_reply_back [OF ninv assms(11-13)] by blast
  let ?t' = "t \<lparr> src_ip := nat_ip (p_nat p), src_port := port \<rparr>"
  have t': "rewrite_tuple rw t = ?t'" by (simp add: port(1) rewrite_tuple_def Rewrite_default_def)
  have reply: "\<exists>p'' out''. Pipeline_on_underlay_frame ?p' f out2 now2 = Some (p'', out'', Forward (length (dc_inner c2))) \<and>
       five_tuple_of (drop 14 (take (length (dc_inner c2)) out'')) = Some (Some (FiveTuple_reversed t))"
    if f: "decap f = Some (Inr (Some c2))" "serves ?p' (ah_vni (dc_header c2))" "14 \<le> length (dc_inner c2)"
      "length (dc_inner c2) \<le> 65535" "length (dc_inner c2) \<le> length out2"
      "EthFrame_ethertype (dc_inner c2) = Some ethertype_IPV4"
      "five_tuple_of (drop 14 (dc_inner c2)) = Some (Some (FiveTuple_reversed ?t'))" for f c2 out2 now2
  proof -
    let ?r = "dc_inner c2"
    obtain e'' where e'': "NatEngine_process eng (FiveTuple_reversed ?t') Inbound now2 =
        Some (e'', Rewrite_default \<lparr> new_dst_ip := Some (src_ip t), new_dst_port := Some (src_port t) \<rparr>)"
      using snat_reply_back [OF ninv assms(11-13), of now2] port(1) by (auto simp: Rewrite_default_def)
    have noop: "\<not> Rewrite_is_noop (Rewrite_default \<lparr> new_dst_ip := Some (src_ip t), new_dst_port := Some (src_port t) \<rparr>)"
      by (simp add: Rewrite_is_noop_def)
    have lr: "length (drop 14 ?r) \<le> 65535" using f(4) by simp
    obtain r' where r': "nat_translate eng Inbound now2 (drop 14 ?r) = Some (r', e'', True)" "length r' = length (drop 14 ?r)"
      "five_tuple_of r' = Some (Some (rewrite_tuple
        (Rewrite_default \<lparr> new_dst_ip := Some (src_ip t), new_dst_port := Some (src_port t) \<rparr>) (FiveTuple_reversed ?t')))"
      "Ipv4View_checksum_valid r' = Ipv4View_checksum_valid (drop 14 ?r)"
      by (rule nat_translate_rewrites [OF f(7) lr e'' noop])
    have tt: "rewrite_tuple (Rewrite_default \<lparr> new_dst_ip := Some (src_ip t), new_dst_port := Some (src_port t) \<rparr>)
        (FiveTuple_reversed ?t') = FiveTuple_reversed t"
      by (simp add: rewrite_tuple_def Rewrite_default_def FiveTuple_reversed_def)
    have "word16 ?r 12 = ethertype_IPV4" using f(3,6) by (simp add: EthFrame_accessors)
    then have "ingress_inner ?p' now2 ?r = Some (take 14 ?r @ r', e'', True)"
      using f(3) r'(1) assms(8) by (simp add: ingress_inner_def after_egress_simps)
    then have run: "Pipeline_on_underlay_frame ?p' f out2 now2 =
        Some (after_ingress ?p' e'' True, (take 14 ?r @ r') @ drop (length ?r) out2, Forward (length ?r))"
      using f(1,2,5) by (simp add: Pipeline_underlay_eq [OF inv' f(1)] underlay_outcome_def Let_def)
    have "drop 14 (take (length ?r) ((take 14 ?r @ r') @ drop (length ?r) out2)) = r'"
      using f(3) r'(2) by simp
    with run show ?thesis using r'(3) unfolding tt by simp
  qed
  have d14: "drop 14 (take 14 inner @ pkt) = pkt" using assms(2) by simp
  let ?c = "\<lparr> dc_header = AndromedaHdr_new vni (flow_of pkt), dc_inner = take 14 inner @ pkt,
    dc_outer_src_ip = pc_local_node_ip (p_cfg p), dc_outer_dst_ip = gw \<rparr>"
  show ?thesis
    by (rule exI [of _ ?p'], rule exI [of _ wire], rule exI [of _ ?c], rule exI [of _ port])
      (use w port(2,3) pkt(3,4) reply in \<open>simp add: t' Let_def d14 del: drop_append\<close>)
qed

theorem snat_end_to_end_witness:
  "\<exists>p p' wire c port. pipeline_reachable p \<and>
     Pipeline_encap_for_vni p sample_frame (replicate 200 0) 1 42 = Some (p', wire, Forward 94) \<and>
     decap (take 94 wire) = Some (Inr (Some c)) \<and>
     five_tuple_of (drop 14 (dc_inner c)) = Some (Some \<lparr> src_ip = 0xcb007101, dst_ip = 0x0a000002, protocol = 17,
       src_port = port, dst_port = 53 \<rparr>)"
proof -
  obtain eng where eng: "NatEngine_new 0xcb007101 1000 1001 = Some eng"
    by (simp add: NatEngine_new_def TimingWheel_new_def)
  obtain p where p: "Pipeline_new sample_cfg (Fabric_new 0xc0a80001) eng = Some p" "pipeline_reachable p"
      "p_cfg p = sample_cfg" "p_fabric p = Fabric_new 0xc0a80001" "p_nat p = eng" "nat_reachable eng"
    by (rule fresh_pipeline [OF eng])
  let ?t = "\<lparr> src_ip = 0x0a000001, dst_ip = 0x0a000002, protocol = 17, src_port = 1000, dst_port = 53 \<rparr> :: five_tuple"
  have e: "nat_ip eng = 0xcb007101" "used_ports eng = {}" "port_min eng = 1000" "port_max eng = 1001"
      "dnat_rev eng = fmempty" "snat_fwd eng = fmempty"
    using eng by (auto simp: NatEngine_new_def TimingWheel_new_def)
  obtain eng' rw where run: "NatEngine_process (p_nat p) ?t Outbound 1 = Some (eng', rw)"
    using nat_inv_process [OF nat_reachable_nat_inv [OF p(6)], of ?t Outbound 1] p(5) by blast
  have al: "NatEngine_alloc_port eng 1000 = (eng \<lparr> used_ports := {1000} \<rparr>, Some 1000)"
    by (simp add: NatEngine_alloc_port_def e)
  have noop: "\<not> Rewrite_is_noop rw"
    using run by (auto simp: p(5) NatEngine_process_def NatEngine_process_outbound_def e al Let_def
        Option.bind_eq_Some_conv Rewrite_is_noop_def)
  have ft: "five_tuple_of (drop 14 sample_frame) = Some (Some ?t)"
    unfolding sample_frame_payload(1) by code_simp
  have c: "Fabric_resolve (p_fabric p) 42 (dst_ip ?t) = None" "pc_gateway_node_ip (p_cfg p) = Some 0xc0a800fe"
    "pc_nat_ip (p_cfg p) \<noteq> None" "\<not> too_big (p_cfg p) (drop 14 sample_frame)"
    "50 + length sample_frame \<le> length (replicate 200 (0 :: u8))" "fmlookup (dnat_rev (p_nat p)) ?t = None"
    using sample_frame_facts(6) by (simp_all add: p(3,4,5) e sample_lengths) (simp_all add: sample_cfg_def)
  from snat_end_to_end [OF p(2) sample_frame_facts(2,3,1) ft c run noop]
  show ?thesis using p(2) by (auto simp: sample_lengths p(5) e Let_def)
qed

end
