(* ===== verification/Spsc.thy ===== *)
theory Spsc
  imports Prelude
begin

text \<open>
  \<open>andromeda-dataplane/src/spsc.rs\<close>: the bounded single-producer single-consumer ring. First the
  two operations as functions on the ring, with their contract \<open>bounded_queue\<close>; then the
  interleavings of one producer and one consumer thread, at the granularity of the atomic
  loads and stores and of the slot accesses. A thread's \<open>Acquire\<close> load of the other side's
  index may return any value that index had since the last value the thread observed; a
  slot written before a \<open>Release\<close> store is visible to the thread that acquired it.
\<close>

section \<open>The ring\<close>

record 'a ring =
  rg_buf :: "'a list"
  rg_mask :: u64
  rg_head :: u64
  rg_tail :: u64

text \<open>\<open>usize::next_power_of_two\<close> of the standard library: the number of bits of \<open>n - 1\<close> decides,
  and the release profile wraps.\<close>

fun bit_len :: "nat \<Rightarrow> nat" where
  "bit_len n = (if n = 0 then 0 else Suc (bit_len (n div 2)))"

declare bit_len.simps [simp del]

definition next_power_of_two :: "nat \<Rightarrow> nat" where
  "next_power_of_two n = (if n \<le> 1 then 1 else 2 ^ bit_len (n - 1) mod 2 ^ 64)"

definition spsc_channel :: "'a \<Rightarrow> nat \<Rightarrow> 'a ring" where
  "spsc_channel dflt capacity =
     (let cap = next_power_of_two (max capacity 2) in
      \<lparr> rg_buf = replicate cap dflt, rg_mask = of_nat cap - 1, rg_head = 0, rg_tail = 0 \<rparr>)"

definition Producer_push :: "'a ring \<Rightarrow> 'a \<Rightarrow> ('a ring \<times> ('a + unit)) option" where
  "Producer_push r val =
     (let tail = rg_tail r; head = rg_head r in
      if tail - head = of_nat (length (rg_buf r)) then Some (r, Inl val)
      else
        let i = unat (tail AND rg_mask r) in
        if i < length (rg_buf r)
        then Some (r \<lparr> rg_buf := (rg_buf r)[i := val], rg_tail := tail + 1 \<rparr>, Inr ())
        else None)"

definition Consumer_pop :: "'a ring \<Rightarrow> ('a ring \<times> 'a option) option" where
  "Consumer_pop r =
     (let head = rg_head r; tail = rg_tail r in
      if head = tail then Some (r, None)
      else
        let i = unat (head AND rg_mask r) in
        if i < length (rg_buf r)
        then Some (r \<lparr> rg_head := head + 1 \<rparr>, Some (rg_buf r ! i))
        else None)"

section \<open>Indices\<close>

lemma bit_len_bounds: "0 < n \<Longrightarrow> 2 ^ (bit_len n - 1) \<le> n \<and> n < 2 ^ bit_len n \<and> 0 < bit_len n"
proof (induction n rule: bit_len.induct)
  case (1 n)
  show ?case
  proof (cases "n div 2 = 0")
    case True
    then have "n = 1" using 1(2) by linarith
    then show ?thesis by (simp add: bit_len.simps)
  next
    case False
    then have IH: "2 ^ (bit_len (n div 2) - 1) \<le> n div 2" "n div 2 < 2 ^ bit_len (n div 2)" "0 < bit_len (n div 2)"
      using 1 by auto
    have b: "bit_len n = Suc (bit_len (n div 2))" using 1(2) by (subst bit_len.simps) simp
    obtain k where k: "bit_len (n div 2) = Suc k" using IH(3) by (cases "bit_len (n div 2)") auto
    have "2 ^ bit_len (n div 2) \<le> n" using IH(1) by (simp add: k)
    moreover have "n < 2 * 2 ^ bit_len (n div 2)" using IH(2) by linarith
    ultimately show ?thesis by (simp add: b)
  qed
qed

lemma next_power_of_two_eq:
  assumes "2 \<le> n" and "n \<le> 2 ^ 63"
  obtains k where "next_power_of_two n = 2 ^ k" "0 < k" "k < 64" "n \<le> 2 ^ k" "2 ^ k < 2 * n"
proof -
  let ?k = "bit_len (n - 1)"
  have b: "2 ^ (?k - 1) \<le> n - 1" "n - 1 < 2 ^ ?k" "0 < ?k" using bit_len_bounds [of "n - 1"] assms(1) by auto
  then obtain j where j: "?k = Suc j" by (cases ?k) auto
  have lo: "2 ^ j \<le> n - 1" using b(1) unfolding j by simp
  have "2 ^ j < (2 :: nat) ^ 63" using lo assms by linarith
  then have "j < 63" by (rule power_less_imp_less_exp [rotated]) simp
  then have k64: "?k < 64" by (simp add: j del: One_nat_def)
  then have "(2 :: nat) ^ ?k < 2 ^ 64" by (intro power_strict_increasing) simp_all
  then have "next_power_of_two n = 2 ^ ?k" using assms(1) by (simp add: next_power_of_two_def)
  moreover have "n \<le> 2 ^ ?k" "2 ^ ?k < 2 * n" using lo b(2) assms(1) unfolding j by simp_all
  ultimately show thesis using that b(3) k64 by blast
qed

lemma unat_and_mask:
  assumes "k < 64"
  shows "unat (w AND (of_nat (2 ^ k) - 1) :: u64) = unat w mod 2 ^ k"
proof -
  have "(of_nat (2 ^ k) - 1 :: u64) = mask k" by (simp add: mask_eq_exp_minus_1)
  then have "w AND (of_nat (2 ^ k) - 1) = take_bit k w" by (simp add: take_bit_eq_mask)
  then show ?thesis by (simp only: unsigned_take_bit_eq) (simp add: take_bit_eq_mod)
qed

lemma unat_of_nat_mod: "k < 64 \<Longrightarrow> unat (of_nat n :: u64) mod 2 ^ k = n mod 2 ^ k"
proof -
  assume "k < 64"
  then have "(2 :: nat) ^ k dvd 2 ^ 64" by (intro le_imp_power_dvd) simp
  then have "n mod 2 ^ 64 mod 2 ^ k = n mod 2 ^ k" by (rule mod_mod_cancel)
  then show ?thesis by (simp add: unsigned_of_nat take_bit_eq_mod)
qed

lemma mod_ne:
  assumes "a < b" and "b - a < (m :: nat)"
  shows "a mod m \<noteq> b mod m"
proof
  assume "a mod m = b mod m"
  then have "m dvd b - a" using assms(1) mod_eq_dvd_iff_nat [of a b m] by simp
  then have "m \<le> b - a" using assms(1) by (intro dvd_imp_le) auto
  with assms(2) show False by simp
qed

lemma of_nat_eq_near: "a \<le> b \<Longrightarrow> b - a < 2 ^ 64 \<Longrightarrow> (of_nat a :: u64) = of_nat b \<longleftrightarrow> a = b"
proof -
  assume ab: "a \<le> b" "b - a < 2 ^ 64"
  have "(of_nat b :: u64) = of_nat a + of_nat (b - a)" using ab(1) by (simp flip: of_nat_add)
  then have "((of_nat a :: u64) = of_nat b) = ((of_nat (b - a) :: u64) = 0)" by auto
  also have "\<dots> = (unat (of_nat (b - a) :: u64) = 0)" by (simp only: unsigned_eq_0_iff)
  also have "\<dots> = (b - a = 0)" using ab(2) by (simp add: unsigned_of_nat take_bit_nat_eq_self)
  finally show ?thesis using ab(1) by auto
qed

lemma of_nat_diff_near:
  assumes "a \<le> b" and "b - a \<le> c" and "c < 2 ^ 64"
  shows "(of_nat b - of_nat a :: u64) = of_nat c \<longleftrightarrow> b - a = c"
proof -
  have "(of_nat b - of_nat a :: u64) = of_nat (b - a)" using assms(1) by (simp add: of_nat_diff)
  then show ?thesis using of_nat_eq_near [of "b - a" c] assms(2,3) by auto
qed

section \<open>The operations as functions\<close>

text \<open>The ring after \<open>H\<close> pops and \<open>T\<close> pushes in all: the indices are these counts modulo \<open>2^64\<close>.\<close>

definition ring_at :: "nat \<Rightarrow> 'a ring \<Rightarrow> nat \<Rightarrow> nat \<Rightarrow> bool" where
  "ring_at k r H T \<longleftrightarrow> 0 < k \<and> k < 64 \<and> length (rg_buf r) = 2 ^ k \<and> rg_mask r = of_nat (2 ^ k) - 1 \<and>
     rg_head r = of_nat H \<and> rg_tail r = of_nat T \<and> H \<le> T \<and> T - H \<le> 2 ^ k"

definition ring_items :: "'a ring \<Rightarrow> nat \<Rightarrow> nat \<Rightarrow> 'a list" where
  "ring_items r H T = map (\<lambda>i. rg_buf r ! (i mod length (rg_buf r))) [H..<T]"

text \<open>The state of the ring without the counts.\<close>

definition ring_ok :: "'a ring \<Rightarrow> bool" where
  "ring_ok r \<longleftrightarrow> (\<exists>k. ring_at k r (unat (rg_head r)) (unat (rg_head r) + unat (rg_tail r - rg_head r)))"

definition ring_list :: "'a ring \<Rightarrow> 'a list" where
  "ring_list r = ring_items r (unat (rg_head r)) (unat (rg_head r) + unat (rg_tail r - rg_head r))"

lemma pow64: "k < 64 \<Longrightarrow> (2 :: nat) ^ k < 2 ^ 64"
  by (intro power_strict_increasing) simp_all

lemma ring_at_slot: "ring_at k r H T \<Longrightarrow> unat (of_nat i AND rg_mask r) = i mod 2 ^ k"
  using unat_and_mask [of k "of_nat i"] unat_of_nat_mod [of k i] by (simp add: ring_at_def)

lemma ring_at_full: "ring_at k r H T \<Longrightarrow> h \<le> H \<Longrightarrow> T - h \<le> 2 ^ k \<Longrightarrow>
    rg_tail r - of_nat h = of_nat (length (rg_buf r)) \<longleftrightarrow> T - h = 2 ^ k"
  unfolding ring_at_def using of_nat_diff_near [of h T "2 ^ k"] pow64 [of k] by simp

lemma ring_at_empty: "ring_at k r H T \<Longrightarrow> H \<le> t \<Longrightarrow> t \<le> T \<Longrightarrow> rg_head r = of_nat t \<longleftrightarrow> H = t"
proof -
  assume r: "ring_at k r H T" and t: "H \<le> t" "t \<le> T"
  then have "t - H < 2 ^ 64" using pow64 [of k] by (auto simp: ring_at_def)
  with r t show ?thesis using of_nat_eq_near [of H t] by (simp add: ring_at_def)
qed

lemma ring_items_push:
  assumes "ring_at k r H T" and "T - H < 2 ^ k"
  shows "ring_items (r \<lparr> rg_buf := (rg_buf r)[T mod 2 ^ k := v] \<rparr>) H (Suc T) = ring_items r H T @ [v]"
proof -
  have len: "length (rg_buf r) = 2 ^ k" "H \<le> T" using assms(1) by (simp_all add: ring_at_def)
  have "T mod 2 ^ k \<noteq> i mod 2 ^ k" if "H \<le> i" "i < T" for i
  proof -
    have "T - i < 2 ^ k" using that assms(2) by linarith
    with that(2) show ?thesis using mod_ne [of i T "2 ^ k"] by simp
  qed
  then show ?thesis using len by (simp add: ring_items_def nth_list_update)
qed

lemma ring_items_pop: "H < T \<Longrightarrow> ring_items r H T = rg_buf r ! (H mod length (rg_buf r)) # ring_items r (Suc H) T"
  by (simp add: ring_items_def upt_conv_Cons)

lemma ring_at_write: "ring_at k r H T \<Longrightarrow> ring_at k (r \<lparr> rg_buf := (rg_buf r)[i := v] \<rparr>) H T"
  by (simp add: ring_at_def)

lemma ring_at_push: "ring_at k r H T \<Longrightarrow> T - H < 2 ^ k \<Longrightarrow> ring_at k (r \<lparr> rg_tail := rg_tail r + 1 \<rparr>) H (Suc T)"
  by (auto simp: ring_at_def add.commute)

lemma ring_at_pop: "ring_at k r H T \<Longrightarrow> H < T \<Longrightarrow> ring_at k (r \<lparr> rg_head := rg_head r + 1 \<rparr>) (Suc H) T"
  by (auto simp: ring_at_def add.commute)

lemma ring_items_fields [simp]:
  "ring_items (r \<lparr> rg_tail := t \<rparr>) = ring_items r" "ring_items (r \<lparr> rg_head := h \<rparr>) = ring_items r"
  by (intro ext, simp add: ring_items_def)+

lemma Producer_push_eq:
  assumes "ring_at k r H T"
  shows "Producer_push r v =
    (if T - H = 2 ^ k then Some (r, Inl v)
     else Some (r \<lparr> rg_buf := (rg_buf r)[T mod 2 ^ k := v], rg_tail := rg_tail r + 1 \<rparr>, Inr ()))"
  using ring_at_full [OF assms, of H] ring_at_slot [OF assms, of T] assms
  by (simp add: Producer_push_def Let_def ring_at_def)

lemma Consumer_pop_eq:
  assumes "ring_at k r H T"
  shows "Consumer_pop r =
    (if H = T then Some (r, None) else Some (r \<lparr> rg_head := rg_head r + 1 \<rparr>, Some (rg_buf r ! (H mod 2 ^ k))))"
  using ring_at_empty [OF assms, of T] ring_at_slot [OF assms, of H] assms
  by (simp add: Consumer_pop_def Let_def ring_at_def)

lemma upt_shift: "[a..<a + n] = map ((+) a) [0..<n]"
  by (induction n) auto

lemma ring_at_shift:
  assumes "ring_at k r H T"
  shows "ring_at k r (unat (rg_head r)) (unat (rg_head r) + unat (rg_tail r - rg_head r))"
    and "ring_list r = ring_items r H T" and "length (ring_list r) = T - H"
proof -
  have r: "k < 64" "length (rg_buf r) = 2 ^ k" "rg_head r = of_nat H" "rg_tail r = of_nat T" "H \<le> T" "T - H \<le> 2 ^ k"
    using assms by (simp_all add: ring_at_def)
  have "T - H < 2 ^ 64" using r(1,6) pow64 [of k] by simp
  moreover have "rg_tail r - rg_head r = of_nat (T - H)" using r(3-5) by (simp add: of_nat_diff)
  ultimately have d: "unat (rg_tail r - rg_head r) = T - H" by (simp only: unsigned_of_nat) (simp add: take_bit_nat_eq_self)
  have h: "unat (rg_head r) mod 2 ^ k = H mod 2 ^ k" using unat_of_nat_mod [OF r(1), of H] by (simp add: r(3))
  have "(of_nat (unat (rg_head r) + (T - H)) :: u64) = of_nat T"
    using r(5) by (simp add: r(3) of_nat_diff)
  then show "ring_at k r (unat (rg_head r)) (unat (rg_head r) + unat (rg_tail r - rg_head r))"
    unfolding d using assms r(5,6) by (auto simp: ring_at_def)
  have "(unat (rg_head r) + i) mod 2 ^ k = (H + i) mod 2 ^ k" for i
    using h by (metis mod_add_left_eq)
  moreover have "[H..<T] = map ((+) H) [0..<T - H]" using upt_shift [of H "T - H"] r(5) by simp
  ultimately show l: "ring_list r = ring_items r H T"
    by (simp add: ring_list_def ring_items_def d r(2) upt_shift)
  show "length (ring_list r) = T - H" by (simp add: l ring_items_def)
qed

lemma ring_okI: "ring_at k r H T \<Longrightarrow> ring_ok r"
  using ring_at_shift(1) unfolding ring_ok_def by blast

lemma ring_ok_at: "ring_ok r \<Longrightarrow> \<exists>k H T. ring_at k r H T"
  by (auto simp: ring_ok_def)

lemma spsc_channel_at:
  assumes "capacity \<le> 2 ^ 63"
  obtains k where "ring_at k (spsc_channel d capacity) 0 0" "max capacity 2 \<le> 2 ^ k" "2 ^ k < 2 * max capacity 2"
proof -
  have "2 \<le> max capacity 2" "max capacity 2 \<le> 2 ^ 63" using assms by simp_all
  then obtain k where "next_power_of_two (max capacity 2) = 2 ^ k" "0 < k" "k < 64" "max capacity 2 \<le> 2 ^ k"
    "2 ^ k < 2 * max capacity 2" by (rule next_power_of_two_eq)
  then show thesis using that [of k] by (simp add: ring_at_def spsc_channel_def Let_def)
qed

section \<open>The contract of a bounded queue\<close>

datatype 'a queue_op = Push 'a | Pop

text \<open>A client that performs a list of operations, and the values that were accepted and taken.\<close>

fun queue_run ::
    "('q \<Rightarrow> 'a \<Rightarrow> ('q \<times> ('a + unit)) option) \<Rightarrow> ('q \<Rightarrow> ('q \<times> 'a option) option) \<Rightarrow> 'q \<Rightarrow> 'a queue_op list \<Rightarrow>
     ('q \<times> 'a list \<times> 'a list) option" where
  "queue_run push pop q [] = Some (q, [], [])"
| "queue_run push pop q (Push v # ops) = do {
     (q, r) \<leftarrow> push q v;
     (q, accepted, taken) \<leftarrow> queue_run push pop q ops;
     Some (q, (case r of Inr _ \<Rightarrow> v # accepted | Inl _ \<Rightarrow> accepted), taken) }"
| "queue_run push pop q (Pop # ops) = do {
     (q, r) \<leftarrow> pop q;
     (q, accepted, taken) \<leftarrow> queue_run push pop q ops;
     Some (q, accepted, (case r of Some v \<Rightarrow> v # taken | None \<Rightarrow> taken)) }"

locale bounded_queue =
  fixes inv :: "'q \<Rightarrow> bool" and cap :: "'q \<Rightarrow> nat" and items :: "'q \<Rightarrow> 'a list"
    and push :: "'q \<Rightarrow> 'a \<Rightarrow> ('q \<times> ('a + unit)) option" and pop :: "'q \<Rightarrow> ('q \<times> 'a option) option"
  assumes bounded: "inv q \<Longrightarrow> length (items q) \<le> cap q"
    and push_full: "inv q \<Longrightarrow> length (items q) = cap q \<Longrightarrow> push q v = Some (q, Inl v)"
    and push_room: "inv q \<Longrightarrow> length (items q) < cap q \<Longrightarrow>
      \<exists>q'. push q v = Some (q', Inr ()) \<and> inv q' \<and> cap q' = cap q \<and> items q' = items q @ [v]"
    and pop_empty: "inv q \<Longrightarrow> items q = [] \<Longrightarrow> pop q = Some (q, None)"
    and pop_some: "inv q \<Longrightarrow> items q = x # xs \<Longrightarrow>
      \<exists>q'. pop q = Some (q', Some x) \<and> inv q' \<and> cap q' = cap q \<and> items q' = xs"
begin

lemma push_cases:
  assumes "inv q"
  obtains (full) "push q v = Some (q, Inl v)" "length (items q) = cap q"
    | (room) q' where "push q v = Some (q', Inr ())" "inv q'" "cap q' = cap q" "items q' = items q @ [v]"
        "length (items q) < cap q"
proof (cases "length (items q) = cap q")
  case True
  then show thesis using full push_full [OF assms] by blast
next
  case False
  then have "length (items q) < cap q" using bounded [OF assms] by simp
  then show thesis using room push_room [OF assms] by blast
qed

lemma run_fifo:
  assumes "inv q"
  shows "\<exists>q' accepted taken. queue_run push pop q ops = Some (q', accepted, taken) \<and> inv q' \<and> cap q' = cap q \<and>
    items q @ accepted = taken @ items q'"
  using assms
proof (induction ops arbitrary: q)
  case (Cons op ops)
  show ?case
  proof (cases op)
    case (Push v)
    from Cons.prems show ?thesis
    proof (cases rule: push_cases [of q v])
      case full
      then show ?thesis using Cons.IH [OF Cons.prems] by (auto simp: Push)
    next
      case (room q1)
      from Cons.IH [OF room(2)] show ?thesis using room by (auto simp: Push)
    qed
  next
    case Pop
    show ?thesis
    proof (cases "items q")
      case Nil
      then show ?thesis using Cons.IH [OF Cons.prems] pop_empty [OF Cons.prems] by (auto simp: Pop)
    next
      case (Cons x xs)
      then obtain q1 where q1: "pop q = Some (q1, Some x)" "inv q1" "cap q1 = cap q" "items q1 = xs"
        using pop_some [OF Cons.prems] by blast
      from Cons.IH [OF q1(2)] show ?thesis using q1 Cons by (auto simp: Pop)
    qed
  qed
qed simp

end

lemma ring_list_Nil: "ring_at k r H T \<Longrightarrow> ring_list r = [] \<longleftrightarrow> H = T"
  using ring_at_shift(3) [of k r H T] by (auto simp: ring_at_def)

lemma Producer_push_room:
  assumes at: "ring_at k r H T" and "T - H < 2 ^ k"
  obtains r' where "Producer_push r v = Some (r', Inr ())" "ring_at k r' H (Suc T)" "ring_list r' = ring_list r @ [v]"
    "length (rg_buf r') = length (rg_buf r)"
proof -
  let ?w = "r \<lparr> rg_buf := (rg_buf r)[T mod 2 ^ k := v] \<rparr>"
  let ?r = "?w \<lparr> rg_tail := rg_tail ?w + 1 \<rparr>"
  have at': "ring_at k ?r H (Suc T)" using at assms(2) by (intro ring_at_push ring_at_write)
  have "ring_list ?r = ring_list r @ [v]"
    using ring_items_push [OF at assms(2)] ring_at_shift(2) [OF at] ring_at_shift(2) [OF at'] by simp
  moreover have "Producer_push r v = Some (?r, Inr ())" using Producer_push_eq [OF at] assms(2) by simp
  ultimately show thesis using that at' by simp
qed

lemma Consumer_pop_some:
  assumes at: "ring_at k r H T" and "H < T"
  obtains r' where "Consumer_pop r = Some (r', Some (hd (ring_list r)))" "ring_at k r' (Suc H) T" "ring_list r' = tl (ring_list r)"
    "ring_list r \<noteq> []" "length (rg_buf r') = length (rg_buf r)"
proof -
  let ?r = "r \<lparr> rg_head := rg_head r + 1 \<rparr>"
  have at': "ring_at k ?r (Suc H) T" using at assms(2) by (rule ring_at_pop)
  have "length (rg_buf r) = 2 ^ k" using at by (simp add: ring_at_def)
  then have l: "ring_list r = rg_buf r ! (H mod 2 ^ k) # ring_list ?r"
    using ring_items_pop [OF assms(2), of r] ring_at_shift(2) [OF at] ring_at_shift(2) [OF at'] by simp
  show thesis
  proof (rule that [of ?r])
    show "Consumer_pop r = Some (?r, Some (hd (ring_list r)))"
      unfolding l list.sel using Consumer_pop_eq [OF at] assms(2) by simp
    show "ring_list ?r = tl (ring_list r)" "ring_list r \<noteq> []" unfolding l by simp_all
  qed (use at' in simp_all)
qed

interpretation ringq: bounded_queue ring_ok "\<lambda>r. length (rg_buf r)" ring_list Producer_push Consumer_pop
proof
  fix q :: "'a ring" and v
  assume "ring_ok q"
  then obtain k H T where at: "ring_at k q H T" using ring_ok_at by blast
  then have len: "length (ring_list q) = T - H" "length (rg_buf q) = 2 ^ k" "T - H \<le> 2 ^ k"
    using ring_at_shift(3) [OF at] by (simp_all add: ring_at_def)
  then show "length (ring_list q) \<le> length (rg_buf q)" by simp
  show "Producer_push q v = Some (q, Inl v)" if "length (ring_list q) = length (rg_buf q)"
    using that len Producer_push_eq [OF at] by simp
  show "\<exists>q'. Producer_push q v = Some (q', Inr ()) \<and> ring_ok q' \<and> length (rg_buf q') = length (rg_buf q) \<and>
      ring_list q' = ring_list q @ [v]" if "length (ring_list q) < length (rg_buf q)"
  proof -
    have "T - H < 2 ^ k" using that len by simp
    from at this show ?thesis by (rule Producer_push_room [where v = v]) (auto intro: ring_okI)
  qed
  show "Consumer_pop q = Some (q, None)" if "ring_list q = []"
    using that ring_list_Nil [OF at] Consumer_pop_eq [OF at] by simp
  show "\<exists>q'. Consumer_pop q = Some (q', Some x) \<and> ring_ok q' \<and> length (rg_buf q') = length (rg_buf q) \<and> ring_list q' = xs"
    if "ring_list q = x # xs" for x xs
  proof -
    have "H < T" using that ring_list_Nil [OF at] at by (auto simp: ring_at_def)
    from at this show ?thesis by (rule Consumer_pop_some) (use that in \<open>auto intro: ring_okI\<close>)
  qed
qed

section \<open>One producer and one consumer thread\<close>

text \<open>Where each thread is inside \<open>push\<close> and \<open>pop\<close>, with its local variables: before the load of
  the other side's index, before the slot access, and before the store of its own index.\<close>

datatype 'a prod_pc = PIdle | PLoadHead 'a u64 | PWrite 'a u64 | PPublish 'a u64

datatype 'a cons_pc = CIdle | CLoadTail u64 | CRead u64 | CRelease 'a u64

text \<open>The ring, the two threads, what each has observed of the other's index (as the number of pops
  or pushes), and the values pushed and popped so far.\<close>

record 'a spsc_state =
  sp_ring :: "'a ring"
  sp_prod :: "'a prod_pc"
  sp_cons :: "'a cons_pc"
  sp_seen_head :: nat
  sp_seen_tail :: nat
  sp_pushed :: "'a list"
  sp_popped :: "'a list"

definition sees_head :: "'a spsc_state \<Rightarrow> nat \<Rightarrow> bool" where
  "sees_head s h \<longleftrightarrow> sp_seen_head s \<le> h \<and> h \<le> length (sp_popped s)"

definition sees_tail :: "'a spsc_state \<Rightarrow> nat \<Rightarrow> bool" where
  "sees_tail s t \<longleftrightarrow> sp_seen_tail s \<le> t \<and> t \<le> length (sp_pushed s)"

definition slot_of :: "'a ring \<Rightarrow> u64 \<Rightarrow> nat" where
  "slot_of r i = unat (i AND rg_mask r)"

inductive push_step :: "'a spsc_state \<Rightarrow> 'a spsc_state \<Rightarrow> bool" where
  push_begin: "sp_prod s = PIdle \<Longrightarrow> push_step s (s \<lparr> sp_prod := PLoadHead v (rg_tail (sp_ring s)) \<rparr>)"
| push_full: "sp_prod s = PLoadHead v t \<Longrightarrow> sees_head s h \<Longrightarrow>
    t - of_nat h = of_nat (length (rg_buf (sp_ring s))) \<Longrightarrow>
    push_step s (s \<lparr> sp_prod := PIdle, sp_seen_head := h \<rparr>)"
| push_room: "sp_prod s = PLoadHead v t \<Longrightarrow> sees_head s h \<Longrightarrow>
    t - of_nat h \<noteq> of_nat (length (rg_buf (sp_ring s))) \<Longrightarrow>
    push_step s (s \<lparr> sp_prod := PWrite v t, sp_seen_head := h \<rparr>)"
| push_write: "sp_prod s = PWrite v t \<Longrightarrow> slot_of (sp_ring s) t < length (rg_buf (sp_ring s)) \<Longrightarrow>
    push_step s (s \<lparr> sp_prod := PPublish v t,
      sp_ring := (sp_ring s) \<lparr> rg_buf := (rg_buf (sp_ring s))[slot_of (sp_ring s) t := v] \<rparr> \<rparr>)"
| push_publish: "sp_prod s = PPublish v t \<Longrightarrow>
    push_step s (s \<lparr> sp_prod := PIdle, sp_ring := (sp_ring s) \<lparr> rg_tail := t + 1 \<rparr>, sp_pushed := sp_pushed s @ [v] \<rparr>)"

inductive pop_step :: "'a spsc_state \<Rightarrow> 'a spsc_state \<Rightarrow> bool" where
  pop_begin: "sp_cons s = CIdle \<Longrightarrow> pop_step s (s \<lparr> sp_cons := CLoadTail (rg_head (sp_ring s)) \<rparr>)"
| pop_empty: "sp_cons s = CLoadTail h \<Longrightarrow> sees_tail s t \<Longrightarrow> h = of_nat t \<Longrightarrow>
    pop_step s (s \<lparr> sp_cons := CIdle, sp_seen_tail := t \<rparr>)"
| pop_some: "sp_cons s = CLoadTail h \<Longrightarrow> sees_tail s t \<Longrightarrow> h \<noteq> of_nat t \<Longrightarrow>
    pop_step s (s \<lparr> sp_cons := CRead h, sp_seen_tail := t \<rparr>)"
| pop_read: "sp_cons s = CRead h \<Longrightarrow> slot_of (sp_ring s) h < length (rg_buf (sp_ring s)) \<Longrightarrow>
    pop_step s (s \<lparr> sp_cons := CRelease (rg_buf (sp_ring s) ! slot_of (sp_ring s) h) h \<rparr>)"
| pop_release: "sp_cons s = CRelease v h \<Longrightarrow>
    pop_step s (s \<lparr> sp_cons := CIdle, sp_ring := (sp_ring s) \<lparr> rg_head := h + 1 \<rparr>, sp_popped := sp_popped s @ [v] \<rparr>)"

definition spsc_start :: "'a \<Rightarrow> nat \<Rightarrow> 'a spsc_state" where
  "spsc_start dflt capacity =
     \<lparr> sp_ring = spsc_channel dflt capacity, sp_prod = PIdle, sp_cons = CIdle, sp_seen_head = 0, sp_seen_tail = 0,
       sp_pushed = [], sp_popped = [] \<rparr>"

inductive spsc_reachable :: "nat \<Rightarrow> 'a spsc_state \<Rightarrow> bool" where
  start: "spsc_reachable capacity (spsc_start dflt capacity)"
| push: "spsc_reachable capacity s \<Longrightarrow> push_step s s' \<Longrightarrow> spsc_reachable capacity s'"
| pop: "spsc_reachable capacity s \<Longrightarrow> pop_step s s' \<Longrightarrow> spsc_reachable capacity s'"

inductive_cases push_stepE: "push_step s s'"

inductive_cases pop_stepE: "pop_step s s'"

text \<open>The invariant: the indices are the numbers of pops and pushes; what a thread observed lies in
  the past; the ring holds what was pushed and not yet popped; and each thread's locals
  agree with the state.\<close>

definition spsc_inv :: "nat \<Rightarrow> 'a spsc_state \<Rightarrow> bool" where
  "spsc_inv k s \<longleftrightarrow>
     (let r = sp_ring s; H = length (sp_popped s); T = length (sp_pushed s) in
      ring_at k r H T \<and> take H (sp_pushed s) = sp_popped s \<and> ring_items r H T = drop H (sp_pushed s) \<and>
      sp_seen_head s \<le> H \<and> T - sp_seen_head s \<le> 2 ^ k \<and> H \<le> sp_seen_tail s \<and> sp_seen_tail s \<le> T \<and>
      (case sp_prod s of PIdle \<Rightarrow> True
       | PLoadHead v t \<Rightarrow> t = of_nat T
       | PWrite v t \<Rightarrow> t = of_nat T \<and> T - sp_seen_head s < 2 ^ k
       | PPublish v t \<Rightarrow> t = of_nat T \<and> T - sp_seen_head s < 2 ^ k \<and> rg_buf r ! (T mod 2 ^ k) = v) \<and>
      (case sp_cons s of CIdle \<Rightarrow> True
       | CLoadTail h \<Rightarrow> h = of_nat H
       | CRead h \<Rightarrow> h = of_nat H \<and> H < sp_seen_tail s
       | CRelease v h \<Rightarrow> h = of_nat H \<and> H < sp_seen_tail s \<and> rg_buf r ! (H mod 2 ^ k) = v))"

lemma slot_of_at: "ring_at k r H T \<Longrightarrow> slot_of r (of_nat i) = i mod 2 ^ k"
  by (simp add: slot_of_def ring_at_slot)

lemma spsc_inv_start:
  assumes "capacity \<le> 2 ^ 63"
  shows "\<exists>k. spsc_inv k (spsc_start d capacity) \<and> max capacity 2 \<le> 2 ^ k \<and> 2 ^ k < 2 * max capacity 2"
proof -
  obtain k where "ring_at k (spsc_channel d capacity) 0 0" "max capacity 2 \<le> 2 ^ k" "2 ^ k < 2 * max capacity 2"
    by (rule spsc_channel_at [OF assms])
  then show ?thesis by (intro exI [of _ k]) (simp add: spsc_inv_def spsc_start_def Let_def ring_items_def)
qed

lemma ring_items_write_out:
  assumes "ring_at k r H T" and "T - H < 2 ^ k"
  shows "ring_items (r \<lparr> rg_buf := (rg_buf r)[T mod 2 ^ k := v] \<rparr>) H T = ring_items r H T"
  using ring_items_push [OF assms, of v] assms(1) by (simp add: ring_items_def ring_at_def)

lemma spsc_inv_push_step:
  assumes "push_step s s'" and inv: "spsc_inv k s"
  shows "spsc_inv k s'"
  using assms(1)
proof (cases rule: push_step.cases)
  case (push_begin v)
  then show ?thesis using inv by (auto simp: spsc_inv_def Let_def ring_at_def split: cons_pc.split)
next
  case (push_full v t h)
  then show ?thesis using inv by (auto simp: spsc_inv_def Let_def sees_head_def split: cons_pc.split)
next
  case (push_room v t h)
  let ?H = "length (sp_popped s)" and ?T = "length (sp_pushed s)"
  have at: "ring_at k (sp_ring s) ?H ?T" and t: "t = of_nat ?T" and sh: "sp_seen_head s \<le> h" "h \<le> ?H"
    "?T - sp_seen_head s \<le> 2 ^ k"
    using inv push_room by (auto simp: spsc_inv_def Let_def sees_head_def)
  have "rg_tail (sp_ring s) = of_nat ?T" using at by (simp add: ring_at_def)
  moreover have "?T - h \<le> 2 ^ k" using sh by linarith
  ultimately have "?T - h < 2 ^ k" using ring_at_full [OF at sh(2)] push_room(4) t by simp
  then show ?thesis using inv push_room sh by (auto simp: spsc_inv_def Let_def split: cons_pc.split)
next
  case (push_write v t)
  let ?H = "length (sp_popped s)" and ?T = "length (sp_pushed s)"
  have at: "ring_at k (sp_ring s) ?H ?T" and t: "t = of_nat ?T" and sh: "?T - sp_seen_head s < 2 ^ k" "sp_seen_head s \<le> ?H"
    using inv push_write by (auto simp: spsc_inv_def Let_def)
  have d: "?T - ?H < 2 ^ k" using sh by linarith
  have slot: "slot_of (sp_ring s) (of_nat ?T) = ?T mod 2 ^ k" using slot_of_at [OF at] .
  have len: "?T mod 2 ^ k < length (rg_buf (sp_ring s))" using push_write(3) slot t by simp
  have ne: "?H mod 2 ^ k \<noteq> ?T mod 2 ^ k" if "?H < ?T" using mod_ne [OF that d] .
  show ?thesis
    using inv push_write(1,2) at t sh len ne
      ring_at_write [OF at, of "?T mod 2 ^ k" v] ring_items_write_out [OF at d, of v]
    by (auto simp: spsc_inv_def Let_def slot split: cons_pc.split)
next
  case (push_publish v t)
  let ?H = "length (sp_popped s)" and ?T = "length (sp_pushed s)" and ?r = "sp_ring s"
  have at: "ring_at k ?r ?H ?T" and t: "t = of_nat ?T" and sh: "?T - sp_seen_head s < 2 ^ k" "sp_seen_head s \<le> ?H"
    and v: "rg_buf ?r ! (?T mod 2 ^ k) = v" and p: "ring_items ?r ?H ?T = drop ?H (sp_pushed s)"
    using inv push_publish by (auto simp: spsc_inv_def Let_def)
  have d: "?T - ?H < 2 ^ k" using sh by linarith
  have HT: "?H \<le> ?T" "length (rg_buf ?r) = 2 ^ k" "rg_tail ?r = t" using at t by (simp_all add: ring_at_def)
  have at': "ring_at k (?r \<lparr> rg_tail := t + 1 \<rparr>) ?H (Suc ?T)" using ring_at_push [OF at d] HT(3) by simp
  have "ring_items ?r ?H (Suc ?T) = ring_items ?r ?H ?T @ [v]" using HT v by (simp add: ring_items_def)
  then have "ring_items ?r ?H (Suc ?T) = drop ?H (sp_pushed s) @ [v]" using p by simp
  then show ?thesis
    using inv push_publish at' sh HT(1) by (auto simp: spsc_inv_def Let_def split: cons_pc.split)
qed

lemma spsc_inv_pop_step:
  assumes "pop_step s s'" and inv: "spsc_inv k s"
  shows "spsc_inv k s'"
  using assms(1)
proof (cases rule: pop_step.cases)
  case pop_begin
  then show ?thesis using inv by (auto simp: spsc_inv_def Let_def ring_at_def split: prod_pc.split)
next
  case (pop_empty h t)
  then show ?thesis using inv by (auto simp: spsc_inv_def Let_def sees_tail_def split: prod_pc.split)
next
  case (pop_some h t)
  let ?H = "length (sp_popped s)" and ?T = "length (sp_pushed s)"
  have at: "ring_at k (sp_ring s) ?H ?T" and h: "h = of_nat ?H" and st: "?H \<le> t" "t \<le> ?T"
    using inv pop_some by (auto simp: spsc_inv_def Let_def sees_tail_def)
  have "rg_head (sp_ring s) = of_nat ?H" using at by (simp add: ring_at_def)
  then have "?H < t" using ring_at_empty [OF at st] pop_some(4) h st by simp
  then show ?thesis using inv pop_some st by (auto simp: spsc_inv_def Let_def split: prod_pc.split)
next
  case (pop_read h)
  then show ?thesis
    using inv slot_of_at [of k "sp_ring s"] by (auto simp: spsc_inv_def Let_def split: prod_pc.split)
next
  case (pop_release v h)
  let ?H = "length (sp_popped s)" and ?T = "length (sp_pushed s)" and ?r = "sp_ring s"
  have at: "ring_at k ?r ?H ?T" and h: "h = of_nat ?H" and st: "?H < sp_seen_tail s" "sp_seen_tail s \<le> ?T"
    and v: "rg_buf ?r ! (?H mod 2 ^ k) = v" and p: "ring_items ?r ?H ?T = drop ?H (sp_pushed s)"
    and q: "take ?H (sp_pushed s) = sp_popped s"
    using inv pop_release by (auto simp: spsc_inv_def Let_def)
  have lt: "?H < ?T" using st by simp
  have HT: "length (rg_buf ?r) = 2 ^ k" "rg_head ?r = h" using at h by (simp_all add: ring_at_def)
  have at': "ring_at k (?r \<lparr> rg_head := h + 1 \<rparr>) (Suc ?H) ?T" using ring_at_pop [OF at lt] HT(2) by simp
  have "drop ?H (sp_pushed s) = v # ring_items ?r (Suc ?H) ?T"
    using p ring_items_pop [OF lt, of ?r] HT(1) v by simp
  moreover have "drop ?H (sp_pushed s) = sp_pushed s ! ?H # drop (Suc ?H) (sp_pushed s)"
    using lt by (simp add: Cons_nth_drop_Suc)
  ultimately have p': "ring_items ?r (Suc ?H) ?T = drop (Suc ?H) (sp_pushed s)" "sp_pushed s ! ?H = v" by simp_all
  then have "take (Suc ?H) (sp_pushed s) = sp_popped s @ [v]" using lt q by (simp add: take_Suc_conv_app_nth)
  with p'(1) show ?thesis
    using inv pop_release at' st by (auto simp: spsc_inv_def Let_def split: prod_pc.split)
qed

lemma spsc_reachable_inv:
  assumes "spsc_reachable capacity s" and "capacity \<le> 2 ^ 63"
  obtains k where "spsc_inv k s" "max capacity 2 \<le> 2 ^ k" "2 ^ k < 2 * max capacity 2"
proof -
  have "\<exists>k. spsc_inv k s \<and> max capacity 2 \<le> 2 ^ k \<and> 2 ^ k < 2 * max capacity 2"
    using assms
  proof (induction rule: spsc_reachable.induct)
    case (start capacity dflt)
    then show ?case by (rule spsc_inv_start)
  next
    case (push capacity s s')
    then show ?case using spsc_inv_push_step by blast
  next
    case (pop capacity s s')
    then show ?case using spsc_inv_pop_step by blast
  qed
  then show thesis using that by blast
qed

section \<open>An operation without interference\<close>

lemma push_steps_function:
  assumes "spsc_inv k s" and "sp_prod s = PIdle" and "Producer_push (sp_ring s) v = Some (r', res)"
  shows "\<exists>s'. push_step\<^sup>*\<^sup>* s s' \<and> sp_prod s' = PIdle \<and> sp_ring s' = r' \<and>
    sp_pushed s' = (case res of Inr _ \<Rightarrow> sp_pushed s @ [v] | Inl _ \<Rightarrow> sp_pushed s)"
proof -
  let ?r = "sp_ring s" and ?H = "length (sp_popped s)" and ?T = "length (sp_pushed s)"
  have at: "ring_at k ?r ?H ?T" and sh: "sp_seen_head s \<le> ?H" using assms(1) by (simp_all add: spsc_inv_def Let_def)
  have h: "rg_head ?r = of_nat ?H" "length (rg_buf ?r) = 2 ^ k" using at by (simp_all add: ring_at_def)
  let ?s1 = "s \<lparr> sp_prod := PLoadHead v (rg_tail ?r) \<rparr>"
  have 1: "push_step s ?s1" using assms(2) by (rule push_begin)
  have see: "sees_head ?s1 ?H" using sh by (simp add: sees_head_def)
  show ?thesis
  proof (cases "rg_tail ?r - rg_head ?r = of_nat (length (rg_buf ?r))")
    case True
    have "push_step ?s1 (?s1 \<lparr> sp_prod := PIdle, sp_seen_head := ?H \<rparr>)"
      using see True h(1) by (intro push_full [of _ v "rg_tail ?r"]) simp_all
    with 1 have "push_step\<^sup>*\<^sup>* s (?s1 \<lparr> sp_prod := PIdle, sp_seen_head := ?H \<rparr>)" by (meson converse_rtranclp_into_rtranclp r_into_rtranclp)
    then show ?thesis using assms(3) True by (intro exI) (auto simp: Producer_push_def Let_def)
  next
    case False
    let ?s2 = "?s1 \<lparr> sp_prod := PWrite v (rg_tail ?r), sp_seen_head := ?H \<rparr>"
    let ?i = "slot_of ?r (rg_tail ?r)"
    let ?s3 = "?s2 \<lparr> sp_prod := PPublish v (rg_tail ?r), sp_ring := ?r \<lparr> rg_buf := (rg_buf ?r)[?i := v] \<rparr> \<rparr>"
    let ?s4 = "?s3 \<lparr> sp_prod := PIdle, sp_ring := (sp_ring ?s3) \<lparr> rg_tail := rg_tail ?r + 1 \<rparr>, sp_pushed := sp_pushed s @ [v] \<rparr>"
    have 2: "push_step ?s1 ?s2" using see False h(1) by (intro push_room) simp_all
    have i: "?i < length (rg_buf ?r)" using slot_of_at [OF at, of ?T] at h(2) by (simp add: ring_at_def)
    have 3: "push_step ?s2 ?s3" using push_write [of ?s2 v "rg_tail ?r"] i by simp
    have 4: "push_step ?s3 ?s4" using push_publish [of ?s3 v "rg_tail ?r"] by simp
    have "push_step\<^sup>*\<^sup>* s ?s4" using 1 2 3 4 by (meson converse_rtranclp_into_rtranclp rtranclp.rtrancl_refl)
    then show ?thesis
      using assms(3) False i by (intro exI [of _ ?s4]) (auto simp: Producer_push_def Let_def slot_of_def)
  qed
qed

section \<open>Properties\<close>

text \<open>The ring is a bounded first-in first-out queue. From a new ring of any requested capacity up
  to 2^63, any list of pushes and pops runs without a panic; the values taken are the values
  accepted, in order, without loss or duplication, and what is left is what the ring holds,
  also when the 64-bit indices wrap around; the ring holds at least the requested number of
  values and less than twice as many (or two).\<close>

lemma spsc_queue_fifo:
  assumes "capacity \<le> 2 ^ 63"
  shows "\<exists>r accepted taken. queue_run Producer_push Consumer_pop (spsc_channel d capacity) ops = Some (r, accepted, taken) \<and>
    accepted = taken @ ring_list r \<and> length (ring_list r) \<le> length (rg_buf r) \<and>
    max capacity 2 \<le> length (rg_buf r) \<and> length (rg_buf r) < 2 * max capacity 2"
proof -
  obtain k where k: "ring_at k (spsc_channel d capacity) 0 0" "max capacity 2 \<le> 2 ^ k" "2 ^ k < 2 * max capacity 2"
    by (rule spsc_channel_at [OF assms])
  have "ring_list (spsc_channel d capacity) = []" using ring_list_Nil [OF k(1)] by simp
  moreover have "length (rg_buf (spsc_channel d capacity)) = 2 ^ k" using k(1) by (simp add: ring_at_def)
  ultimately show ?thesis
    using ringq.run_fifo [OF ring_okI [OF k(1)], of ops] k(2,3) ringq.bounded by fastforce
qed

lemma sample_channel:
  "spsc_channel (0 :: nat) 2 = \<lparr> rg_buf = [0, 0], rg_mask = 1, rg_head = 0, rg_tail = 0 \<rparr>"
proof -
  have "next_power_of_two 2 = 2" by (simp add: next_power_of_two_def bit_len.simps)
  then show ?thesis by (simp add: spsc_channel_def Let_def eval_nat_numeral)
qed

lemma spsc_queue_fifo_witness:
  "\<exists>r. queue_run Producer_push Consumer_pop (spsc_channel (0 :: nat) 2) [Push 5, Push 6, Push 7, Pop, Push 8, Pop] =
     Some (r, [5, 6, 8], [5, 6]) \<and> ring_list r = [8]"
proof -
  have run: "queue_run Producer_push Consumer_pop (spsc_channel (0 :: nat) 2) [Push 5, Push 6, Push 7, Pop, Push 8, Pop] =
      Some (\<lparr> rg_buf = [8, 6], rg_mask = 1, rg_head = 2, rg_tail = 3 \<rparr>, [5, 6, 8], [5, 6])"
    by (simp add: sample_channel Producer_push_def Consumer_pop_def Let_def)
  have "(2 :: nat) \<le> 2 ^ 63" by simp
  then show ?thesis
    using spsc_queue_fifo [of 2 "0 :: nat" "[Push 5, Push 6, Push 7, Pop, Push 8, Pop]"] unfolding run by auto
qed

text \<open>C12: the same under concurrency. In every state reachable by any interleaving of one producer and
  one consumer thread, where each may observe the other's index late, the values popped so
  far followed by the published contents of the ring are exactly the values pushed so far,
  and the ring never holds more than its capacity.\<close>

theorem spsc_concurrent_fifo:
  assumes "spsc_reachable capacity s" and "capacity \<le> 2 ^ 63"
  shows "sp_pushed s = sp_popped s @ ring_list (sp_ring s) \<and>
    length (ring_list (sp_ring s)) \<le> length (rg_buf (sp_ring s)) \<and>
    max capacity 2 \<le> length (rg_buf (sp_ring s)) \<and> length (rg_buf (sp_ring s)) < 2 * max capacity 2"
proof -
  obtain k where k: "spsc_inv k s" "max capacity 2 \<le> 2 ^ k" "2 ^ k < 2 * max capacity 2"
    by (rule spsc_reachable_inv [OF assms])
  let ?H = "length (sp_popped s)"
  have at: "ring_at k (sp_ring s) ?H (length (sp_pushed s))" "take ?H (sp_pushed s) = sp_popped s"
    "ring_items (sp_ring s) ?H (length (sp_pushed s)) = drop ?H (sp_pushed s)"
    using k(1) by (simp_all add: spsc_inv_def Let_def)
  have "sp_pushed s = take ?H (sp_pushed s) @ drop ?H (sp_pushed s)" by simp
  then have "sp_pushed s = sp_popped s @ ring_list (sp_ring s)"
    unfolding at(2) at(3) [symmetric] ring_at_shift(2) [OF at(1)] .
  moreover have "length (rg_buf (sp_ring s)) = 2 ^ k" using at(1) by (simp add: ring_at_def)
  ultimately show ?thesis using ringq.bounded [OF ring_okI [OF at(1)]] k(2,3) by simp
qed

text \<open>A reachable state in which the producer is about to write the second value into slot 1 while the
  consumer is about to read the first one from slot 0.\<close>

definition sample_spsc :: "nat spsc_state" where
  "sample_spsc =
     \<lparr> sp_ring = \<lparr> rg_buf = [5, 0], rg_mask = 1, rg_head = 0, rg_tail = 1 \<rparr>, sp_prod = PWrite 6 1, sp_cons = CRead 0,
       sp_seen_head = 0, sp_seen_tail = 1, sp_pushed = [5], sp_popped = [] \<rparr>"

lemma sample_spsc_reachable: "spsc_reachable 2 sample_spsc"
proof -
  let ?st = "\<lambda>b t p c n l. \<lparr> sp_ring = \<lparr> rg_buf = [b, 0 :: nat], rg_mask = 1, rg_head = 0, rg_tail = t \<rparr>, sp_prod = p,
       sp_cons = c, sp_seen_head = 0, sp_seen_tail = n, sp_pushed = l, sp_popped = [] \<rparr>"
  have "spsc_start (0 :: nat) 2 = ?st 0 0 PIdle CIdle 0 []" by (simp add: spsc_start_def sample_channel)
  then have 0: "spsc_reachable 2 (?st 0 0 PIdle CIdle 0 [])" by (metis spsc_reachable.start)
  have 1: "push_step (?st 0 0 PIdle CIdle 0 []) (?st 0 0 (PLoadHead 5 0) CIdle 0 [])"
    using push_begin [of "?st 0 0 PIdle CIdle 0 []" 5] by simp
  have 2: "push_step (?st 0 0 (PLoadHead 5 0) CIdle 0 []) (?st 0 0 (PWrite 5 0) CIdle 0 [])"
    using push_room [of "?st 0 0 (PLoadHead 5 0) CIdle 0 []" 5 0 0] by (simp add: sees_head_def)
  have 3: "push_step (?st 0 0 (PWrite 5 0) CIdle 0 []) (?st 5 0 (PPublish 5 0) CIdle 0 [])"
    using push_write [of "?st 0 0 (PWrite 5 0) CIdle 0 []" 5 0] by (simp add: slot_of_def)
  have 4: "push_step (?st 5 0 (PPublish 5 0) CIdle 0 []) (?st 5 1 PIdle CIdle 0 [5])"
    using push_publish [of "?st 5 0 (PPublish 5 0) CIdle 0 []" 5 0] by simp
  have 5: "push_step (?st 5 1 PIdle CIdle 0 [5]) (?st 5 1 (PLoadHead 6 1) CIdle 0 [5])"
    using push_begin [of "?st 5 1 PIdle CIdle 0 [5]" 6] by simp
  have 6: "push_step (?st 5 1 (PLoadHead 6 1) CIdle 0 [5]) (?st 5 1 (PWrite 6 1) CIdle 0 [5])"
    using push_room [of "?st 5 1 (PLoadHead 6 1) CIdle 0 [5]" 6 1 0] by (simp add: sees_head_def)
  have 7: "pop_step (?st 5 1 (PWrite 6 1) CIdle 0 [5]) (?st 5 1 (PWrite 6 1) (CLoadTail 0) 0 [5])"
    using pop_begin [of "?st 5 1 (PWrite 6 1) CIdle 0 [5]"] by simp
  have 8: "pop_step (?st 5 1 (PWrite 6 1) (CLoadTail 0) 0 [5]) (?st 5 1 (PWrite 6 1) (CRead 0) 1 [5])"
    using pop_some [of "?st 5 1 (PWrite 6 1) (CLoadTail 0) 0 [5]" 0 1] by (simp add: sees_tail_def)
  show ?thesis
    unfolding sample_spsc_def
    by (rule spsc_reachable.pop [OF spsc_reachable.pop [OF spsc_reachable.push [OF spsc_reachable.push
          [OF spsc_reachable.push [OF spsc_reachable.push [OF spsc_reachable.push [OF spsc_reachable.push
          [OF 0 1] 2] 3] 4] 5] 6] 7] 8])
qed

theorem spsc_concurrent_fifo_witness:
  "spsc_reachable 2 sample_spsc \<and> sp_pushed sample_spsc = sp_popped sample_spsc @ ring_list (sp_ring sample_spsc) \<and>
   ring_list (sp_ring sample_spsc) = [5]"
proof -
  have "(2 :: nat) \<le> 2 ^ 63" by simp
  from spsc_concurrent_fifo [OF sample_spsc_reachable this] show ?thesis
    using sample_spsc_reachable by (simp add: sample_spsc_def)
qed

text \<open>The steps a thread still has to take to finish its operation.\<close>

fun prod_rank :: "'a prod_pc \<Rightarrow> nat" where
  "prod_rank PIdle = 0"
| "prod_rank (PLoadHead v t) = 3"
| "prod_rank (PWrite v t) = 2"
| "prod_rank (PPublish v t) = 1"

fun cons_rank :: "'a cons_pc \<Rightarrow> nat" where
  "cons_rank CIdle = 0"
| "cons_rank (CLoadTail h) = 3"
| "cons_rank (CRead h) = 2"
| "cons_rank (CRelease v h) = 1"

text \<open>C17: freedom from races and wait-freedom. In every reachable state, when the producer is about to
  write a slot and the consumer about to read one, both slots exist and they are different
  slots; a thread inside an operation can always take its next step, every step it takes
  brings it closer to the end of the operation (at most three steps after the first), and
  no step of the other thread takes it back.\<close>

theorem spsc_race_free_wait_free:
  assumes "spsc_reachable capacity s" and "capacity \<le> 2 ^ 63"
  shows "(\<forall>v t h. sp_prod s = PWrite v t \<and> sp_cons s = CRead h \<longrightarrow>
      slot_of (sp_ring s) t < length (rg_buf (sp_ring s)) \<and> slot_of (sp_ring s) h < length (rg_buf (sp_ring s)) \<and>
      slot_of (sp_ring s) t \<noteq> slot_of (sp_ring s) h) \<and>
    (\<exists>s'. push_step s s') \<and> (\<exists>s'. pop_step s s') \<and>
    (\<forall>s'. push_step s s' \<longrightarrow> cons_rank (sp_cons s') = cons_rank (sp_cons s) \<and>
      (sp_prod s \<noteq> PIdle \<longrightarrow> prod_rank (sp_prod s') < prod_rank (sp_prod s))) \<and>
    (\<forall>s'. pop_step s s' \<longrightarrow> prod_rank (sp_prod s') = prod_rank (sp_prod s) \<and>
      (sp_cons s \<noteq> CIdle \<longrightarrow> cons_rank (sp_cons s') < cons_rank (sp_cons s)))"
proof -
  obtain k where inv: "spsc_inv k s" by (rule spsc_reachable_inv [OF assms])
  let ?r = "sp_ring s" and ?H = "length (sp_popped s)" and ?T = "length (sp_pushed s)"
  have at: "ring_at k ?r ?H ?T" and len: "length (rg_buf ?r) = 2 ^ k"
    using inv by (simp_all add: spsc_inv_def ring_at_def Let_def)
  have seen: "sees_head s (sp_seen_head s)" "sees_tail s (sp_seen_tail s)"
    using inv by (simp_all add: spsc_inv_def sees_head_def sees_tail_def Let_def)
  have pw: "slot_of ?r t = ?T mod 2 ^ k \<and> ?T - ?H < 2 ^ k" if "sp_prod s = PWrite v t" for v t
    using inv that slot_of_at [OF at, of ?T] by (auto simp: spsc_inv_def Let_def)
  have cr: "slot_of ?r h = ?H mod 2 ^ k \<and> ?H < ?T" if "sp_cons s = CRead h" for h
    using inv that slot_of_at [OF at, of ?H] by (auto simp: spsc_inv_def Let_def)
  have "slot_of ?r t \<noteq> slot_of ?r h" if "sp_prod s = PWrite v t" "sp_cons s = CRead h" for v t h
    using pw [OF that(1)] cr [OF that(2)] mod_ne [of ?H ?T "2 ^ k"] by auto
  moreover have "\<exists>s'. push_step s s'"
  proof (cases "sp_prod s")
    case (PWrite v t)
    then show ?thesis using pw [OF PWrite] len push_write [OF PWrite] by auto
  qed (use seen in \<open>blast intro: push_begin push_full push_room push_publish\<close>)+
  moreover have "\<exists>s'. pop_step s s'"
  proof (cases "sp_cons s")
    case (CRead h)
    then show ?thesis using cr [OF CRead] len pop_read [OF CRead] by auto
  qed (use seen in \<open>blast intro: pop_begin pop_empty pop_some pop_release\<close>)+
  moreover have "cons_rank (sp_cons s') = cons_rank (sp_cons s) \<and>
      (sp_prod s \<noteq> PIdle \<longrightarrow> prod_rank (sp_prod s') < prod_rank (sp_prod s))" if "push_step s s'" for s'
    using that by (cases rule: push_step.cases) auto
  moreover have "prod_rank (sp_prod s') = prod_rank (sp_prod s) \<and>
      (sp_cons s \<noteq> CIdle \<longrightarrow> cons_rank (sp_cons s') < cons_rank (sp_cons s))" if "pop_step s s'" for s'
    using that by (cases rule: pop_step.cases) auto
  ultimately show ?thesis using pw cr len by auto
qed

theorem spsc_race_free_witness:
  "spsc_reachable 2 sample_spsc \<and> slot_of (sp_ring sample_spsc) 1 \<noteq> slot_of (sp_ring sample_spsc) 0 \<and>
   (\<exists>s'. push_step sample_spsc s' \<and> prod_rank (sp_prod s') < 2) \<and> (\<exists>s'. pop_step sample_spsc s' \<and> cons_rank (sp_cons s') < 2)"
proof -
  have s: "sp_prod sample_spsc = PWrite 6 1" "sp_cons sample_spsc = CRead 0" by (simp_all add: sample_spsc_def)
  have "(2 :: nat) \<le> 2 ^ 63" by simp
  note w = spsc_race_free_wait_free [OF sample_spsc_reachable this, unfolded s]
  from w obtain s1 where s1: "push_step sample_spsc s1" by blast
  from w obtain s2 where s2: "pop_step sample_spsc s2" by blast
  have "prod_rank (sp_prod s1) < 2" "cons_rank (sp_cons s2) < 2" using w s1 s2 by auto
  moreover have "slot_of (sp_ring sample_spsc) 1 \<noteq> slot_of (sp_ring sample_spsc) 0" using w by blast
  ultimately show ?thesis using s1 s2 sample_spsc_reachable by blast
qed

end
