(* ===== verification/Control_Socket.thy ===== *)
theory Control_Socket
  imports Config
begin

text \<open>
  \<open>andromeda-dataplane/src/control.rs\<close>: the command interpreter of the control socket and its
  accept loop. The fabric handle is the value it holds; the socket, the file reader and the
  TOML decoder are parameters: a connection is what reading a line from it gave. White space
  is Unicode white space in its UTF-8 encoding, as in \<open>str::trim\<close> and \<open>splitn\<close>.
\<close>

section \<open>Unicode white space in UTF-8\<close>

text \<open>The encodings of the characters for which \<open>char::is_whitespace\<close> holds.\<close>

definition ws_chars :: "string list" where
  "ws_chars = map (map char_of)
     ([[9], [10], [11], [12], [13], [32], [0xc2, 0x85], [0xc2, 0xa0], [0xe1, 0x9a, 0x80]] @
      map (\<lambda>b. [0xe2, 0x80, b])
        [0x80, 0x81, 0x82, 0x83, 0x84, 0x85, 0x86, 0x87, 0x88, 0x89, 0x8a, 0xa8, 0xa9, 0xaf :: nat] @
      [[0xe2, 0x81, 0x9f], [0xe3, 0x80, 0x80]])"

text \<open>The length of the character of \<open>ws\<close> the text starts with, and 0 when there is none.\<close>

definition lead_len :: "string list \<Rightarrow> string \<Rightarrow> nat" where
  "lead_len ws s = (case find (\<lambda>w. take (length w) s = w) ws of None \<Rightarrow> 0 | Some w \<Rightarrow> length w)"

lemma lead_len_le: "lead_len ws s \<le> length s"
  by (auto simp: lead_len_def find_Some_iff dest: arg_cong [where f = length] split: option.split)

function strip_lead :: "string list \<Rightarrow> string \<Rightarrow> string" where
  "strip_lead ws s = (if lead_len ws s = 0 then s else strip_lead ws (drop (lead_len ws s) s))"
  by pat_completeness auto
termination
proof (relation "measure (\<lambda>(ws, s). length s)")
  show "((ws, drop (lead_len ws s) s), ws, s) \<in> measure (\<lambda>(ws, s). length s)" if "lead_len ws s \<noteq> 0" for ws s
    using that lead_len_le [of ws s] by auto
qed simp

declare strip_lead.simps [simp del]

definition trim_start :: "string \<Rightarrow> string" where
  "trim_start s = strip_lead ws_chars s"

definition trim_end :: "string \<Rightarrow> string" where
  "trim_end s = rev (strip_lead (map rev ws_chars) (rev s))"

text \<open>\<open>str::trim\<close>, and \<open>str::splitn(2, char::is_whitespace)\<close> as the first part and, after a white
  space character, the rest.\<close>

definition str_trim :: "string \<Rightarrow> string" where
  "str_trim s = trim_end (trim_start s)"

fun split_ws :: "string \<Rightarrow> string \<times> string option" where
  "split_ws [] = ([], None)"
| "split_ws (c # cs) =
     (if lead_len ws_chars (c # cs) \<noteq> 0 then ([], Some (drop (lead_len ws_chars (c # cs)) (c # cs)))
      else (case split_ws cs of (a, r) \<Rightarrow> (c # a, r)))"

section \<open>Commands\<close>

definition apply_command ::
    "(string \<Rightarrow> nat \<Rightarrow> string + string) \<Rightarrow> (string \<Rightarrow> string + raw_config) \<Rightarrow> string \<Rightarrow> fabric \<Rightarrow> (fabric \<times> string) option" where
  "apply_command read_file from_str line fabric =
     (case split_ws (str_trim line) of (cmd, rest) \<Rightarrow>
        let arg = map_option str_trim rest in
        if cmd = ''reload'' \<and> arg \<noteq> None \<and> the arg \<noteq> [] then
          (case NodeConfig_load read_file from_str (the arg) of
             None \<Rightarrow> None
           | Some (Inr nc) \<Rightarrow>
               let vnis = length (NodeConfig_served_vnis nc); eps = length (nc_endpoints nc) in
               Some (NodeConfig_build_fabric nc,
                 ''ok reloaded: '' @ nat_to_string vnis @ '' vpc(s), '' @ nat_to_string eps @ '' endpoint(s)'')
           | Some (Inl e) \<Rightarrow> Some (fabric, ''err '' @ ConfigError_to_string e))
        else if cmd = ''ping'' then Some (fabric, ''ok pong'')
        else Some (fabric, ''err usage: `reload <config.toml>` | `ping`''))"

text \<open>One connection: what \<open>read_line\<close> gave (\<open>None\<close> for an error) and whether the stream could be
  cloned for the reply. The result is the fabric and what is written to the stream.\<close>

record control_conn =
  cn_line :: "string option"
  cn_clones :: bool

definition handle_conn ::
    "(string \<Rightarrow> nat \<Rightarrow> string + string) \<Rightarrow> (string \<Rightarrow> string + raw_config) \<Rightarrow> control_conn \<Rightarrow> fabric \<Rightarrow>
     (fabric \<times> string option) option" where
  "handle_conn read_file from_str stream fabric =
     (case cn_line stream of
        None \<Rightarrow> Some (fabric, None)
      | Some line \<Rightarrow> do {
          (fabric, reply) \<leftarrow> apply_command read_file from_str line fabric;
          Some (fabric, if cn_clones stream then Some (reply @ [CHR 0x0A]) else None) })"

text \<open>The accept loop of \<open>serve\<close>, over what the listener yields (\<open>None\<close> for an error, which ends
  the loop).\<close>

fun serve_loop ::
    "(string \<Rightarrow> nat \<Rightarrow> string + string) \<Rightarrow> (string \<Rightarrow> string + raw_config) \<Rightarrow> fabric \<Rightarrow> control_conn option list \<Rightarrow>
     (fabric \<times> string option list) option" where
  "serve_loop read_file from_str fabric [] = Some (fabric, [])"
| "serve_loop read_file from_str fabric (None # conns) = Some (fabric, [])"
| "serve_loop read_file from_str fabric (Some s # conns) = do {
     (fabric, out) \<leftarrow> handle_conn read_file from_str s fabric;
     (fabric, outs) \<leftarrow> serve_loop read_file from_str fabric conns;
     Some (fabric, out # outs) }"

section \<open>White space around the words of a command\<close>

text \<open>A text of white space characters, and the first byte of a word: no encoding of a white space
  character starts or ends with a printable ASCII byte.\<close>

definition blank :: "string \<Rightarrow> bool" where
  "blank s \<longleftrightarrow> (\<exists>ws. set ws \<subseteq> set ws_chars \<and> s = concat ws)"

definition is_graph :: "char \<Rightarrow> bool" where
  "is_graph c \<longleftrightarrow> 33 \<le> (of_char c :: nat) \<and> (of_char c :: nat) \<le> 126"

definition prefix_code :: "string list \<Rightarrow> bool" where
  "prefix_code ws \<longleftrightarrow> list_all (\<lambda>w. w \<noteq> [] \<and> \<not> is_graph (hd w) \<and> list_all (\<lambda>v. take (length v) w = v \<longrightarrow> v = w) ws) ws"

lemma ws_chars_code: "prefix_code ws_chars" "prefix_code (map rev ws_chars)"
  by (simp_all add: ws_chars_def prefix_code_def is_graph_def)

lemma lead_len_word:
  assumes "prefix_code ws" and "is_graph c"
  shows "lead_len ws (c # cs) = 0"
proof -
  have "take (length w) (c # cs) \<noteq> w" if "w \<in> set ws" for w
  proof (cases w)
    case Nil
    then show ?thesis using that assms(1) by (auto simp: prefix_code_def list_all_iff)
  next
    case (Cons d ds)
    then show ?thesis using that assms by (auto simp: prefix_code_def list_all_iff)
  qed
  then have "find (\<lambda>w. take (length w) (c # cs) = w) ws = None" by (simp add: find_None_iff)
  then show ?thesis by (simp add: lead_len_def)
qed

lemma lead_len_blank:
  assumes code: "prefix_code ws" and w: "w \<in> set ws"
  shows "lead_len ws (w @ s) = length w"
proof -
  have "v = w" if v: "v \<in> set ws" "take (length v) (w @ s) = v" for v
  proof (cases "length v \<le> length w")
    case True
    then show ?thesis using v code w by (auto simp: prefix_code_def list_all_iff)
  next
    case False
    then have "take (length w) v = w" using v(2) by (metis append_eq_conv_conj append_take_drop_id nat_le_linear take_all take_append take_take min.absorb1)
    then show ?thesis using v code w by (auto simp: prefix_code_def list_all_iff)
  qed
  then have "find (\<lambda>v. take (length v) (w @ s) = v) ws = Some w"
    using w by (induction ws) auto
  then show ?thesis by (simp add: lead_len_def)
qed

lemma strip_lead_concat:
  assumes code: "prefix_code ws" and "set vs \<subseteq> set ws"
  shows "strip_lead ws (concat vs @ s) = strip_lead ws s"
  using assms(2)
proof (induction vs)
  case (Cons v vs)
  then have v: "v \<in> set ws" "v \<noteq> []" using code by (auto simp: prefix_code_def list_all_iff)
  have "lead_len ws (v @ concat vs @ s) = length v" by (rule lead_len_blank [OF code v(1)])
  then have "strip_lead ws (v @ concat vs @ s) = strip_lead ws (concat vs @ s)"
    using v(2) by (subst strip_lead.simps) simp
  then show ?case using Cons by simp
qed simp

lemma strip_lead_word: "prefix_code ws \<Longrightarrow> is_graph c \<Longrightarrow> strip_lead ws (c # cs) = c # cs"
  by (subst strip_lead.simps) (simp add: lead_len_word)

lemma trim_start_blank: "blank w \<Longrightarrow> is_graph c \<Longrightarrow> trim_start (w @ c # cs) = c # cs"
  using strip_lead_concat [OF ws_chars_code(1)] strip_lead_word [OF ws_chars_code(1)]
  by (auto simp: blank_def trim_start_def)

lemma rev_concat_map_rev: "rev (concat vs) = concat (map rev (rev vs))"
  by (induction vs) auto

lemma trim_end_blank:
  assumes "blank w" and "is_graph c"
  shows "trim_end (cs @ c # w) = cs @ [c]"
proof -
  obtain vs where vs: "set vs \<subseteq> set ws_chars" "w = concat vs" using assms(1) by (auto simp: blank_def)
  then have s: "set (map rev (rev vs)) \<subseteq> set (map rev ws_chars)" by auto
  show ?thesis
    using strip_lead_concat [OF ws_chars_code(2) s] strip_lead_word [OF ws_chars_code(2) assms(2)]
    by (simp add: trim_end_def vs(2) rev_concat_map_rev)
qed

text \<open>A word starts and ends with a printable ASCII byte; only the reload command itself need be
  free of white space inside.\<close>

definition is_word :: "string \<Rightarrow> bool" where
  "is_word p \<longleftrightarrow> p \<noteq> [] \<and> is_graph (hd p) \<and> is_graph (last p)"

lemma str_trim_word:
  assumes "blank w1" and "blank w2" and "is_word p"
  shows "str_trim (w1 @ p @ w2) = p"
proof -
  obtain c cs where c: "p = c # cs" "is_graph c" using assms(3) by (cases p) (auto simp: is_word_def)
  obtain d ds where d: "p = ds @ [d]" "is_graph d" using assms(3) by (cases p rule: rev_cases) (auto simp: is_word_def)
  have "trim_start (w1 @ p @ w2) = p @ w2" using trim_start_blank [OF assms(1) c(2)] by (simp add: c(1))
  then show ?thesis using trim_end_blank [OF assms(2) d(2), of ds] by (simp add: str_trim_def d(1))
qed

lemma split_ws_word:
  assumes "list_all is_graph p" and "w \<in> set ws_chars"
  shows "split_ws (p @ w @ s) = (p, Some s)"
  using assms(1)
proof (induction p)
  case Nil
  have "w \<noteq> []" "lead_len ws_chars (w @ s) = length w"
    using lead_len_blank [OF ws_chars_code(1) assms(2), of s] ws_chars_code(1) assms(2)
    by (auto simp: prefix_code_def list_all_iff)
  moreover from this obtain a r where "w @ s = a # r" by (cases w) auto
  ultimately show ?case using split_ws.simps(2) [of a r] by (metis append_Nil append_eq_conv_conj length_0_conv)
next
  case (Cons c p)
  then show ?case using lead_len_word [OF ws_chars_code(1)] by auto
qed

lemma blank_nonempty:
  assumes "blank w" and "w \<noteq> []"
  obtains v w' where "v \<in> set ws_chars" "blank w'" "w = v @ w'"
proof -
  obtain vs where vs: "set vs \<subseteq> set ws_chars" "w = concat vs" using assms(1) by (auto simp: blank_def)
  then obtain v vs' where "vs = v # vs'" using assms(2) by (cases vs) auto
  then show thesis using that [of v "concat vs'"] vs by (auto simp: blank_def)
qed

text \<open>The words of a reload command.\<close>

lemma reload_words:
  assumes "blank w1" and "blank w2" and "w2 \<noteq> []" and "blank w3" and "is_word path"
  shows "\<exists>rest. split_ws (str_trim (w1 @ ''reload'' @ w2 @ path @ w3)) = (''reload'', Some rest) \<and> str_trim rest = path"
proof -
  have cmd: "list_all is_graph ''reload''" by (simp add: is_graph_def)
  have "is_word (''reload'' @ w2 @ path)" using assms(5) by (simp add: is_word_def is_graph_def)
  then have t: "str_trim (w1 @ (''reload'' @ w2 @ path) @ w3) = ''reload'' @ w2 @ path"
    by (rule str_trim_word [OF assms(1,4)])
  obtain v w where v: "v \<in> set ws_chars" "blank w" "w2 = v @ w" using assms(2,3) by (rule blank_nonempty)
  have "blank []" by (auto simp: blank_def intro: exI [of _ "[]"])
  then have "str_trim (w @ path) = path" using str_trim_word [OF v(2) _ assms(5), of "[]"] by simp
  then show ?thesis using t split_ws_word [OF cmd v(1), of "w @ path"] by (simp add: v(3))
qed

section \<open>Properties\<close>

lemma NodeConfig_load_total: "\<exists>r. NodeConfig_load read_file from_str path = Some r"
  using NodeConfig_parse_total by (auto simp: NodeConfig_load_def split: sum.split)

text \<open>The configuration a command line loads, if any.\<close>

definition reloads :: "(string \<Rightarrow> nat \<Rightarrow> string + string) \<Rightarrow> (string \<Rightarrow> string + raw_config) \<Rightarrow> string \<Rightarrow> node_config option" where
  "reloads read_file from_str line =
     (case split_ws (str_trim line) of
        (cmd, Some rest) \<Rightarrow>
          if cmd = ''reload'' \<and> str_trim rest \<noteq> [] then
            (case NodeConfig_load read_file from_str (str_trim rest) of Some (Inr nc) \<Rightarrow> Some nc | _ \<Rightarrow> None)
          else None
      | _ \<Rightarrow> None)"

lemma apply_command_total:
  "\<exists>reply. apply_command read_file from_str line fabric =
     Some (case reloads read_file from_str line of None \<Rightarrow> fabric | Some nc \<Rightarrow> NodeConfig_build_fabric nc, reply)"
proof -
  obtain cmd rest where c: "split_ws (str_trim line) = (cmd, rest)" by (cases "split_ws (str_trim line)")
  show ?thesis
  proof (cases rest)
    case (Some s)
    obtain r where "NodeConfig_load read_file from_str (str_trim s) = Some r" using NodeConfig_load_total by blast
    then show ?thesis by (cases r) (auto simp: apply_command_def reloads_def c Some Let_def)
  qed (auto simp: apply_command_def reloads_def c)
qed

text \<open>The lines the served connections carry.\<close>

fun served_lines :: "control_conn option list \<Rightarrow> string list" where
  "served_lines (Some s # conns) = (case cn_line s of None \<Rightarrow> served_lines conns | Some l \<Rightarrow> l # served_lines conns)"
| "served_lines conns = []"

text \<open>A session of the control socket never panics, whatever clients send and whatever the file
  system and the decoder return; the fabric afterwards is the one built from the last
  configuration that was asked for and loaded without an error, and the initial one when
  there was none; connections up to the first listener error are answered in order.\<close>

lemma control_session:
  "\<exists>outs. serve_loop read_file from_str fabric conns =
     Some (last (fabric # map NodeConfig_build_fabric (List.map_filter (reloads read_file from_str) (served_lines conns))), outs) \<and>
     length outs = length (takeWhile (\<lambda>c. c \<noteq> None) conns)"
proof (induction conns arbitrary: fabric)
  case (Cons c conns)
  show ?case
  proof (cases c)
    case (Some s)
    show ?thesis
    proof (cases "cn_line s")
      case None
      then show ?thesis using Cons [of fabric] by (auto simp: Some handle_conn_def)
    next
      case line: (Some l)
      obtain reply where "apply_command read_file from_str l fabric =
          Some (case reloads read_file from_str l of None \<Rightarrow> fabric | Some nc \<Rightarrow> NodeConfig_build_fabric nc, reply)"
        using apply_command_total by blast
      then show ?thesis
        using Cons [of fabric] Cons [of "NodeConfig_build_fabric (the (reloads read_file from_str l))"]
        by (cases "reloads read_file from_str l") (auto simp: Some line handle_conn_def map_filter_simps)
    qed
  qed (simp add: map_filter_simps)
qed (simp add: map_filter_simps)

text \<open>C39: the reload command. A line made of \<open>reload\<close>, white space and a path, with any white space
  around it (the line end included), loads the configuration at exactly that path; when it
  loads, the fabric is replaced by the one built from it and the reply gives the numbers of
  networks and endpoints; otherwise the fabric stays and the reply carries the error.\<close>

theorem control_reload:
  assumes "blank w1" and "blank w2" and "w2 \<noteq> []" and "blank w3" and "is_word path"
  shows "\<exists>r. NodeConfig_load read_file from_str path = Some r \<and>
    apply_command read_file from_str (w1 @ ''reload'' @ w2 @ path @ w3) fabric = Some
      (case r of
         Inr nc \<Rightarrow> (NodeConfig_build_fabric nc, ''ok reloaded: '' @ nat_to_string (length (nc_vpcs nc)) @ '' vpc(s), '' @
           nat_to_string (length (nc_endpoints nc)) @ '' endpoint(s)'')
       | Inl (ConfigError e) \<Rightarrow> (fabric, ''err config error: '' @ e))"
proof -
  obtain rest where rest: "split_ws (str_trim (w1 @ ''reload'' @ w2 @ path @ w3)) = (''reload'', Some rest)" "str_trim rest = path"
    using reload_words [OF assms] by blast
  have "path \<noteq> []" using assms(5) by (simp add: is_word_def)
  moreover obtain r where "NodeConfig_load read_file from_str path = Some r" using NodeConfig_load_total by blast
  ultimately show ?thesis
    unfolding apply_command_def rest(1)
    by (auto simp: rest(2) Let_def NodeConfig_served_vnis_def ConfigError_to_string_def split: sum.split config_error.split)
qed

theorem control_reload_witness:
  "apply_command (\<lambda>_ _. Inr []) (\<lambda>_. Inr sample_raw) (''reload /etc/a.toml'' @ [CHR 0x0A]) (Fabric_new 0) =
     Some (NodeConfig_build_fabric sample_config, ''ok reloaded: 1 vpc(s), 1 endpoint(s)'')"
proof -
  have mem: "'' '' \<in> set ws_chars" "[CHR 0x0A] \<in> set ws_chars" by (simp_all add: ws_chars_def char_of_def bit_0)
  have b: "blank []" "blank '' ''" "blank [CHR 0x0A]"
    using mem by (auto simp: blank_def intro: exI [of _ "[]"] exI [of _ "['' '']"] exI [of _ "[[CHR 0x0A]]"])
  have p: "is_word ''/etc/a.toml''" by (simp add: is_word_def is_graph_def)
  have n: "nat_to_string 1 = ''1''" by (simp add: nat_to_string_1 digit_char_def char_of_def bit_0)
  have l: "NodeConfig_load (\<lambda>_ _. Inr []) (\<lambda>_. Inr sample_raw) ''/etc/a.toml'' = Some (Inr sample_config)"
    by (simp add: NodeConfig_load_def sample_config_parse)
  show ?thesis
    using control_reload [OF b(1) b(2) _ b(3) p, of "\<lambda>_ _. Inr []" "\<lambda>_. Inr sample_raw" "Fabric_new 0"] n
    by (simp add: l sample_config_def)
qed

end
