(* ===== verification/Nat_Live.thy ===== *)
theory Nat_Live
  imports Nat_Props
begin

text \<open>
  Properties of whole histories of the translation engine: its tables stay bounded, and a flow
  that carries no packets expires, whatever other traffic there is.
\<close>

section \<open>Where an entry of the wheel is\<close>









section \<open>Histories of the engine\<close>






text \<open>The wheel keeps its shape.\<close>

definition shape :: "nat_engine \<Rightarrow> u64 \<times> nat" where
  "shape e = (tick (wheel e), length (slots (wheel e)))"

text \<open>What a packet of another flow leaves alone: the flow's binding, its reply entry, the hand and
  every entry of the wheel.\<close>

definition keeps_flow :: "five_tuple \<Rightarrow> u16 \<Rightarrow> nat_engine \<Rightarrow> nat_engine \<Rightarrow> bool" where
  "keeps_flow k p e e' \<longleftrightarrow> nat_ip e' = nat_ip e \<and> fmlookup (snat_fwd e') k = fmlookup (snat_fwd e) k \<and>
     fmlookup (snat_rev e') (reply_tuple (nat_ip e) k p) = fmlookup (snat_rev e) (reply_tuple (nat_ip e) k p) \<and>
     shape e' = shape e \<and> wheel_now (wheel e') = wheel_now (wheel e) \<and>
     (\<forall>i < length (slots (wheel e)). set (slots (wheel e) ! i) \<subseteq> set (slots (wheel e') ! i))"

lemma keeps_flow_fields:
  assumes "nat_ip e' = nat_ip e" and "snat_fwd e' = snat_fwd e" and "snat_rev e' = snat_rev e" and "wheel e' = wheel e"
  shows "keeps_flow k p e e'"
  using assms by (simp add: keeps_flow_def shape_def)





section \<open>An idle flow expires\<close>












text \<open>C20: the tables of the engine are bounded, whatever traffic arrives. In every state the engine can
  reach, the flows, their reply entries, the used ports and the entries of the timing wheel are
  equally many, at most as many as the port range has ports (so at most 65536), every port is
  in the range, and at most 65536 forwarded connections are kept.\<close>

theorem nat_tables_bounded:
  assumes "nat_reachable e"
  shows "NatEngine_active_bindings e = card (used_ports e) \<and> fcard (fmdom (snat_rev e)) = card (used_ports e) \<and>
    TimingWheel_len (wheel e) = card (used_ports e) \<and> used_ports e \<subseteq> {port_min e..port_max e} \<and>
    card (used_ports e) \<le> unat (port_max e) - unat (port_min e) + 1 \<and> card (used_ports e) \<le> 65536 \<and>
    fcard (fmdom (dnat_rev e)) \<le> MAX_DNAT_BINDINGS"
proof -
  have inv: "nat_inv e" using assms by (rule nat_reachable_nat_inv)
  have fo: "flows_ok (nat_ip e) (used_ports e) (ends (snat_fwd e)) (ends (snat_rev e))" using inv by (simp add: nat_inv_def)
  let ?F = "fset (fmdom (snat_fwd e))" and ?R = "fset (fmdom (snat_rev e))" and ?U = "used_ports e"
  define port where "port k = b_port (the (fmlookup (snat_fwd e) k))" for k
  have F: "ends (snat_fwd e) k = Some (nat_ip e, port k)" if k: "k \<in> ?F" for k
  proof -
    obtain b where b: "fmlookup (snat_fwd e) k = Some b" using k by (meson fmlookup_dom_iff)
    then show ?thesis using flows_okD [OF fo ends_SomeI [OF b]] ends_SomeI [OF b] by (simp add: port_def)
  qed
  have inF: "k \<in> ?F" if "ends (snat_fwd e) k = Some v" for k v
    using ends_SomeD [OF that] by (meson fmlookup_dom_iff)
  have U: "?U = port ` ?F"
  proof
    show "port ` ?F \<subseteq> ?U" using fo F unfolding flows_ok_def by blast
    show "?U \<subseteq> port ` ?F"
    proof
      fix p assume "p \<in> ?U"
      then obtain k where k: "ends (snat_fwd e) k = Some (nat_ip e, p)" using flows_okU [OF fo] by blast
      then show "p \<in> port ` ?F" using F [OF inF [OF k]] inF [OF k] by force
    qed
  qed
  have inj: "inj_on port ?F" using F flows_ok_inj [OF fo] by (intro inj_onI) metis
  have R: "?R = (\<lambda>k. reply_tuple (nat_ip e) k (port k)) ` ?F"
  proof
    show "(\<lambda>k. reply_tuple (nat_ip e) k (port k)) ` ?F \<subseteq> ?R"
      using flows_okD(3) [OF fo F] ends_SomeD [of "snat_rev e"] by (auto dest!: fmdomI)
    show "?R \<subseteq> (\<lambda>k. reply_tuple (nat_ip e) k (port k)) ` ?F"
    proof
      fix r assume "r \<in> ?R"
      then obtain v where "ends (snat_rev e) r = Some v" using ends_SomeI by (metis fmlookup_dom_iff)
      then obtain k p where k: "ends (snat_fwd e) k = Some (nat_ip e, p)" "r = reply_tuple (nat_ip e) k p"
        using flows_okR [OF fo] by blast
      then show "r \<in> (\<lambda>k. reply_tuple (nat_ip e) k (port k)) ` ?F" using F [OF inF [OF k(1)]] inF [OF k(1)] by force
    qed
  qed
  have injR: "inj_on (\<lambda>k. reply_tuple (nat_ip e) k (port k)) ?F"
    using inj reply_tuple_port by (fastforce simp: inj_on_def)
  have cF: "card ?F = card ?U" using card_image [OF inj] U by simp
  have "TimingWheel_len (wheel e) = size (entries (wheel e))" by (simp add: TimingWheel_len_def entries_def length_concat)
  also have "\<dots> = card ?F" using inv by (simp add: nat_inv_def)
  finally have W: "TimingWheel_len (wheel e) = card ?U" using cF by simp
  have sub: "?U \<subseteq> {port_min e..port_max e}" using inv by (simp add: nat_inv_def)
  have "card ?U \<le> card {unat (port_min e)..unat (port_max e)}"
  proof -
    have "unat ` ?U \<subseteq> {unat (port_min e)..unat (port_max e)}" using sub by (auto simp: word_le_nat_alt)
    then have "card (unat ` ?U) \<le> card {unat (port_min e)..unat (port_max e)}" by (intro card_mono) simp_all
    moreover have "inj_on unat ?U" by (intro inj_onI) (simp add: word_unat_eq_iff)
    ultimately show ?thesis by (simp add: card_image)
  qed
  moreover have "port_min e \<le> port_max e" using inv by (simp add: nat_inv_def ports_wf_def)
  ultimately have C: "card ?U \<le> unat (port_max e) - unat (port_min e) + 1" by (simp add: word_le_nat_alt)
  moreover have "unat (port_max e) < 65536" using unsigned_less [of "port_max e"] by simp
  moreover have "fcard (fmdom (snat_rev e)) = card ?U" using card_image [OF injR] R cF by (simp add: fcard.rep_eq)
  ultimately show ?thesis using W sub cF inv
    by (simp add: NatEngine_active_bindings_def fcard.rep_eq nat_inv_def dnat_ok_def)
qed

theorem nat_tables_bounded_witness:
  "\<exists>e. NatEngine_new 0xcb007101 40000 40001 = Some e \<and> card (used_ports e) \<le> 2"
proof -
  obtain e where e: "NatEngine_new 0xcb007101 40000 40001 = Some e" by (simp add: NatEngine_new_def TimingWheel_new_def)
  then have p: "unat (port_max e) - unat (port_min e) + 1 = 2" by (auto simp: NatEngine_new_def TimingWheel_new_def)
  show ?thesis using nat_tables_bounded [OF nat_reachable.start [OF e]] e p by auto
qed

end
