(* ===== verification/Afxdp.thy ===== *)
theory Afxdp
  imports Pipeline Five_Tuple Text_Std
begin

text \<open>
  \<open>andromeda-dataplane/src/afxdp.rs\<close>: the AF\_XDP socket with its pool of UMEM frames, and the
  forwarding loops. The rings, libxdp and the kernel behind the C shim are the parameter
  \<open>'k xdp_api\<close>; the check of the frame size and the treatment of received descriptors, which
  the shim does, are part of it here. \<open>Xsk_Shim\<close> models the whole shim and provides the parameter. What the loops observe from outside (clock,
  stop flag, \<open>poll\<close>, reloads of the shared fabric) is a list of ticks, one per iteration.
  The lines printed by \<open>print_frame\<close> are kept in a log; the statistics line of the switch has
  no effect on the state and is left out. The signal handler and thread pinning are in
  \<open>Afxdp_Host\<close>.
\<close>

section \<open>The socket and its frames\<close>

datatype xdp_mode = Auto | Skb | Drv

record xsk_config =
  xc_n_frames :: u32
  xc_frame_size :: u32
  xc_fill_size :: u32
  xc_comp_size :: u32
  xc_rx_size :: u32
  xc_tx_size :: u32
  xc_xdp_mode :: xdp_mode
  xc_zerocopy :: bool

definition XskConfig_default :: xsk_config where
  "XskConfig_default =
     \<lparr> xc_n_frames = 4096, xc_frame_size = 2048, xc_fill_size = 2048, xc_comp_size = 2048, xc_rx_size = 2048,
       xc_tx_size = 2048, xc_xdp_mode = Auto, xc_zerocopy = False \<rparr>"

text \<open>The rings and the kernel behind them, as functions of their state: creating the socket (an
  errno, or the state with the descriptor and the mode it bound in), handing addresses to
  the FILL ring, taking descriptors from the RX ring (the kernel has written the frames),
  queueing descriptors on the TX ring, taking addresses from the COMPLETION ring, and the
  wakeup of the transmitter.\<close>

record 'k xdp_api =
  xk_create :: "string \<Rightarrow> u32 \<Rightarrow> xsk_config \<Rightarrow> nat + 'k \<times> int \<times> bool"
  xk_fill :: "'k \<Rightarrow> u64 list \<Rightarrow> nat \<times> 'k"
  xk_rx :: "'k \<Rightarrow> bytes \<Rightarrow> nat \<Rightarrow> (u64 \<times> u32) list \<times> 'k \<times> bytes"
  xk_tx :: "'k \<Rightarrow> (u64 \<times> u32) list \<Rightarrow> nat \<times> 'k"
  xk_comp :: "'k \<Rightarrow> nat \<Rightarrow> u64 list \<times> 'k"
  xk_kick :: "'k \<Rightarrow> 'k"

text \<open>The socket: \<open>ptr\<close> is the kernel state with the number of frames the shim keeps, \<open>area\<close> the
  contents of the UMEM.\<close>

record 'k xsk_socket =
  xs_kernel :: 'k
  xs_n_frames :: u32
  xs_area :: bytes
  xs_frame_size :: u32
  xs_fd :: int
  xs_zerocopy :: bool
  xs_free :: "u64 list"

datatype io_error = InvalidInput string | RawOsError nat

definition umem_frames :: "u32 \<Rightarrow> u32 \<Rightarrow> u64 list" where
  "umem_frames n_frames frame_size = map (\<lambda>i. of_nat i * ucast frame_size) [0..<unat n_frames]"

definition XskSocket_free_frames :: "'k xsk_socket \<Rightarrow> nat" where
  "XskSocket_free_frames s = length (xs_free s)"

definition XskSocket_is_zerocopy :: "'k xsk_socket \<Rightarrow> bool" where
  "XskSocket_is_zerocopy s = xs_zerocopy s"

text \<open>\<open>truncate\<close> to a length beyond the end leaves the vector as it is.\<close>

definition XskSocket_refill :: "'k xdp_api \<Rightarrow> 'k xsk_socket \<Rightarrow> u32 \<Rightarrow> 'k xsk_socket \<times> u32" where
  "XskSocket_refill api s want =
     (if want = 0 \<or> xs_free s = [] then (s, 0)
      else
        let n = length (xs_free s); start = n - min (unat want) n;
            (pushed, k) = xk_fill api (xs_kernel s) (drop start (xs_free s)) in
        (s \<lparr> xs_kernel := k, xs_free := (if pushed \<le> n then take (n - pushed) (xs_free s) else xs_free s) \<rparr>,
         of_nat pushed))"

definition XskSocket_open ::
    "'k xdp_api \<Rightarrow> string \<Rightarrow> u32 \<Rightarrow> xsk_config \<Rightarrow> io_error + 'k xsk_socket" where
  "XskSocket_open api ifname queue cfg =
     (if CHR 0x00 \<in> set ifname then Inl (InvalidInput ''interface name has NUL'')
      else if xc_frame_size cfg = 0 then Inl (RawOsError 22)
      else (case xk_create api ifname queue cfg of
          Inl err \<Rightarrow> Inl (RawOsError err)
        | Inr (k, fd, zerocopy) \<Rightarrow>
            let s = \<lparr> xs_kernel = k, xs_n_frames = xc_n_frames cfg,
                  xs_area = replicate (unat (xc_n_frames cfg) * unat (xc_frame_size cfg)) 0,
                  xs_frame_size = xc_frame_size cfg, xs_fd = fd, xs_zerocopy = zerocopy,
                  xs_free = umem_frames (xc_n_frames cfg) (xc_frame_size cfg) \<rparr>
            in Inr (fst (XskSocket_refill api s (xc_fill_size cfg)))))"

text \<open>What the shim makes of a received descriptor: an address inside the area, snapped to the base
  of its frame, and a length within the frame.\<close>

definition rx_desc :: "u32 \<Rightarrow> u32 \<Rightarrow> u64 \<times> u32 \<Rightarrow> u64 \<times> u32" where
  "rx_desc n_frames frame_size d =
     (case d of (a, l) \<Rightarrow>
        let area_sz = ucast n_frames * ucast frame_size;
            (a, l) = (if area_sz \<le> a then (0, 0) else (a, l));
            a = a - a mod ucast frame_size
        in (a, if frame_size < l then frame_size else l))"

text \<open>\<open>rx_burst\<close> with the arrays of length \<open>limit\<close>: more than that from the ring would index past
  them.\<close>

definition XskSocket_rx_burst :: "'k xdp_api \<Rightarrow> 'k xsk_socket \<Rightarrow> nat \<Rightarrow> ('k xsk_socket \<times> (u64 \<times> u32) list) option" where
  "XskSocket_rx_burst api s limit =
     (case xk_rx api (xs_kernel s) (xs_area s) limit of (ds, k, area) \<Rightarrow>
        if limit < length ds then None
        else
          let ds = map (rx_desc (xs_n_frames s) (xs_frame_size s)) ds;
              ds = map (\<lambda>(a, l). (a, if xs_frame_size s < l then xs_frame_size s else l)) ds
          in Some (s \<lparr> xs_kernel := k, xs_area := area \<rparr>, ds))"

text \<open>The two views of a frame. Memory outside the area is \<open>None\<close>.\<close>

definition XskSocket_frame :: "'k xsk_socket \<Rightarrow> u64 \<Rightarrow> u32 \<Rightarrow> bytes option" where
  "XskSocket_frame s addr len = slice (xs_area s) (unat addr) (unat addr + unat len)"

definition XskSocket_frame_mut ::
    "'k xsk_socket \<Rightarrow> u64 \<Rightarrow> (bytes \<Rightarrow> (bytes \<times> 'r) option) \<Rightarrow> ('k xsk_socket \<times> 'r) option" where
  "XskSocket_frame_mut s addr f = do {
     (area, r) \<leftarrow> sub_mut (xs_area s) (unat addr) (unat addr + unat (xs_frame_size s)) f;
     Some (s \<lparr> xs_area := area \<rparr>, r) }"

definition XskSocket_alloc_tx :: "'k xsk_socket \<Rightarrow> 'k xsk_socket \<times> u64 option" where
  "XskSocket_alloc_tx s =
     (if xs_free s = [] then (s, None) else (s \<lparr> xs_free := butlast (xs_free s) \<rparr>, Some (last (xs_free s))))"

definition XskSocket_recycle :: "'k xsk_socket \<Rightarrow> u64 \<Rightarrow> 'k xsk_socket" where
  "XskSocket_recycle s addr = s \<lparr> xs_free := xs_free s @ [addr] \<rparr>"

definition XskSocket_tx_one :: "'k xdp_api \<Rightarrow> 'k xsk_socket \<Rightarrow> u64 \<Rightarrow> u32 \<Rightarrow> 'k xsk_socket \<times> bool" where
  "XskSocket_tx_one api s addr len =
     (case xk_tx api (xs_kernel s) [(addr, len)] of (n, k) \<Rightarrow> (s \<lparr> xs_kernel := k \<rparr>, n = 1))"

definition XskSocket_kick_tx_if_needed :: "'k xdp_api \<Rightarrow> 'k xsk_socket \<Rightarrow> 'k xsk_socket" where
  "XskSocket_kick_tx_if_needed api s = s \<lparr> xs_kernel := xk_kick api (xs_kernel s) \<rparr>"

definition XskSocket_complete_tx :: "'k xdp_api \<Rightarrow> 'k xsk_socket \<Rightarrow> u32 \<Rightarrow> ('k xsk_socket \<times> nat) option" where
  "XskSocket_complete_tx api s limit =
     (if limit = 0 then Some (s, 0)
      else (case xk_comp api (xs_kernel s) (unat limit) of (addrs, k) \<Rightarrow>
          if unat limit < length addrs then None
          else Some (s \<lparr> xs_kernel := k, xs_free := xs_free s @ addrs \<rparr>, length addrs)))"

section \<open>The forwarding loops\<close>

datatype run_mode = Dump | Encap | Decap

record run_opts =
  ro_mode :: run_mode
  ro_max_packets :: "u64 option"
  ro_max_secs :: "u64 option"
  ro_batch :: u32

record run_stats =
  rt_rx :: u64
  rt_tx :: u64
  rt_dropped :: u64
  rt_decapped :: u64
  rt_bytes_in :: u64

definition RunStats_default :: run_stats where
  "RunStats_default = \<lparr> rt_rx = 0, rt_tx = 0, rt_dropped = 0, rt_decapped = 0, rt_bytes_in = 0 \<rparr>"

definition count_rx :: "u32 \<Rightarrow> run_stats \<Rightarrow> run_stats" where
  "count_rx len st = st \<lparr> rt_rx := rt_rx st + 1, rt_bytes_in := rt_bytes_in st + ucast len \<rparr>"

definition count_tx :: "run_stats \<Rightarrow> run_stats" where
  "count_tx st = st \<lparr> rt_tx := rt_tx st + 1 \<rparr>"

definition count_dropped :: "run_stats \<Rightarrow> run_stats" where
  "count_dropped st = st \<lparr> rt_dropped := rt_dropped st + 1 \<rparr>"

definition count_decapped :: "run_stats \<Rightarrow> run_stats" where
  "count_decapped st = st \<lparr> rt_decapped := rt_decapped st + 1 \<rparr>"

definition NAT_IDLE_TIMEOUT_MS :: u64 where "NAT_IDLE_TIMEOUT_MS = 120000"

text \<open>In nanoseconds.\<close>

definition NAT_GC_INTERVAL :: nat where "NAT_GC_INTERVAL = 1000000000"

text \<open>\<open>{seq:<4}\<close> and \<open>{:04x}\<close>.\<close>

definition pad_right :: "nat \<Rightarrow> string \<Rightarrow> string" where
  "pad_right n s = s @ replicate (n - length s) (CHR '' '')"

definition hex04 :: "u16 \<Rightarrow> string" where
  "hex04 w = hex02 (ucast (drop_bit 8 w)) @ hex02 (ucast w)"

definition print_frame :: "bytes \<Rightarrow> u64 \<Rightarrow> string option" where
  "print_frame frame seq =
     (let head = ''#'' @ pad_right 4 (nat_to_string (unat seq)) @ '' '' @ nat_to_string (length frame) @ '' bytes  '' in
      (case EthFrame_parse frame of
         Inl _ \<Rightarrow> Some (head @ ''<unparsable>'')
       | Inr eth \<Rightarrow> do {
           payload \<leftarrow> EthFrame_payload eth;
           ft \<leftarrow> five_tuple_of payload;
           src \<leftarrow> EthFrame_src eth;
           dst \<leftarrow> EthFrame_dst eth;
           let line = head @ MacAddr_to_string src @ '' -> '' @ MacAddr_to_string dst @ ''  '';
           (case ft of
              Some t \<Rightarrow> Some (line @ FiveTuple_to_string t)
            | None \<Rightarrow> do { ty \<leftarrow> EthFrame_ethertype eth; Some (line @ ''ethertype=0x'' @ hex04 ty) }) }))"

text \<open>What an iteration observes from outside: the stop flag, the clock at each of its readings (in
  nanoseconds since the start), the result of \<open>poll\<close> with the readiness of the two sockets,
  and, before the handling of each frame of the two bursts, the fabric a reload may have
  stored in the shared handle.\<close>

record tick =
  tk_stop :: bool
  tk_cap :: nat
  tk_gc_check :: nat
  tk_gc_arg :: nat
  tk_gc_reset :: nat
  tk_poll :: int
  tk_ready :: "bool \<times> bool"
  tk_now :: nat
  tk_fabric :: "nat \<Rightarrow> fabric option"
  tk_fabric2 :: "nat \<Rightarrow> fabric option"

definition see_fabric :: "fabric option \<Rightarrow> pipeline \<Rightarrow> pipeline" where
  "see_fabric f p = (case f of None \<Rightarrow> p | Some fab \<Rightarrow> Pipeline_reload_fabric p fab)"

definition as_millis :: "nat \<Rightarrow> u64" where
  "as_millis ns = of_nat (ns div 1000000)"

definition loop_stops :: "run_opts \<Rightarrow> run_stats \<Rightarrow> tick \<Rightarrow> bool" where
  "loop_stops opts st t \<longleftrightarrow> tk_stop t \<or>
     (case ro_max_packets opts of Some m \<Rightarrow> m \<le> rt_rx st | None \<Rightarrow> False) \<or>
     (case ro_max_secs opts of Some s \<Rightarrow> s \<le> of_nat (tk_cap t div 1000000000) | None \<Rightarrow> False)"

text \<open>The periodic collection, with the time of the last one.\<close>

definition loop_gc :: "tick \<Rightarrow> pipeline \<Rightarrow> nat \<Rightarrow> (pipeline \<times> nat) option" where
  "loop_gc t p gc_at =
     (if NAT_GC_INTERVAL \<le> tk_gc_check t - gc_at then do {
        (p, _) \<leftarrow> Pipeline_gc p (as_millis (tk_gc_arg t)) NAT_IDLE_TIMEOUT_MS;
        Some (p, tk_gc_reset t) }
      else Some (p, gc_at))"

text \<open>A burst: each descriptor with the fabric the handle holds by then.\<close>

definition burst_items :: "(nat \<Rightarrow> fabric option) \<Rightarrow> (u64 \<times> u32) list \<Rightarrow> (fabric option \<times> u64 \<times> u32) list" where
  "burst_items fab ds = map (\<lambda>i. (fab i, ds ! i)) [0..<length ds]"

fun burst_loop :: "('s \<Rightarrow> 'f \<Rightarrow> 's option) \<Rightarrow> 's \<Rightarrow> 'f list \<Rightarrow> 's option" where
  "burst_loop body st [] = Some st"
| "burst_loop body st (d # ds) = do { st \<leftarrow> body st d; burst_loop body st ds }"

text \<open>A handler of the pipeline on a frame, with a frame of a socket as its output buffer.\<close>

definition into_frame ::
    "'k xsk_socket \<Rightarrow> u64 \<Rightarrow> (bytes \<Rightarrow> (pipeline \<times> bytes \<times> decision) option) \<Rightarrow> ('k xsk_socket \<times> pipeline \<times> decision) option" where
  "into_frame s addr h = XskSocket_frame_mut s addr (\<lambda>out. do { (p, out, d) \<leftarrow> h out; Some (out, p, d) })"

subsection \<open>One socket\<close>

record 'k run_state =
  rs_sock :: "'k xsk_socket"
  rs_pipe :: pipeline
  rs_stats :: run_stats
  rs_log :: "string list"
  rs_gc_at :: nat

definition run_dump :: "'k run_state \<Rightarrow> u64 \<Rightarrow> u32 \<Rightarrow> 'k run_state option" where
  "run_dump st addr len = do {
     st \<leftarrow> (if rt_rx (rs_stats st) \<le> 20 then do {
              frame \<leftarrow> XskSocket_frame (rs_sock st) addr len;
              line \<leftarrow> print_frame frame (rt_rx (rs_stats st));
              Some (st \<lparr> rs_log := rs_log st @ [line] \<rparr>) }
            else Some st);
     Some (st \<lparr> rs_sock := XskSocket_recycle (rs_sock st) addr \<rparr>) }"

definition run_encap :: "'k xdp_api \<Rightarrow> u64 \<Rightarrow> 'k run_state \<Rightarrow> u64 \<Rightarrow> u32 \<Rightarrow> 'k run_state option" where
  "run_encap api now st addr len = do {
     st \<leftarrow> (case XskSocket_alloc_tx (rs_sock st) of
         (_, None) \<Rightarrow> Some (st \<lparr> rs_stats := count_dropped (rs_stats st) \<rparr>)
       | (sock, Some tx_addr) \<Rightarrow> do {
           inner \<leftarrow> XskSocket_frame sock addr len;
           (sock, p, d) \<leftarrow> into_frame sock tx_addr (\<lambda>out. Pipeline_on_tenant_frame (rs_pipe st) inner out now);
           let (sock, queued) = (case d of
               Forward m \<Rightarrow> XskSocket_tx_one api sock tx_addr (of_nat m)
             | Reply m \<Rightarrow> XskSocket_tx_one api sock tx_addr (of_nat m)
             | _ \<Rightarrow> (sock, False));
           Some (if queued then st \<lparr> rs_sock := sock, rs_pipe := p, rs_stats := count_tx (rs_stats st) \<rparr>
                 else st \<lparr> rs_sock := XskSocket_recycle sock tx_addr, rs_pipe := p, rs_stats := count_dropped (rs_stats st) \<rparr>) });
     Some (st \<lparr> rs_sock := XskSocket_recycle (rs_sock st) addr \<rparr>) }"

definition run_decap :: "u64 \<Rightarrow> 'k run_state \<Rightarrow> u64 \<Rightarrow> u32 \<Rightarrow> 'k run_state option" where
  "run_decap now st addr len = do {
     st \<leftarrow> (case XskSocket_alloc_tx (rs_sock st) of
         (_, None) \<Rightarrow> Some st
       | (sock, Some tx_addr) \<Rightarrow> do {
           frame \<leftarrow> XskSocket_frame sock addr len;
           (sock, p, d) \<leftarrow> into_frame sock tx_addr (\<lambda>out. Pipeline_on_underlay_frame (rs_pipe st) frame out now);
           let st = st \<lparr> rs_sock := sock, rs_pipe := p \<rparr>;
           st \<leftarrow> (case d of
               Forward m \<Rightarrow>
                 let st = st \<lparr> rs_stats := count_decapped (rs_stats st) \<rparr> in
                 if rt_decapped (rs_stats st) \<le> 20 then do {
                   inner \<leftarrow> XskSocket_frame sock tx_addr (of_nat m);
                   line \<leftarrow> print_frame inner (rt_decapped (rs_stats st));
                   Some (st \<lparr> rs_log := rs_log st @ [line] \<rparr>) }
                 else Some st
             | _ \<Rightarrow> Some st);
           Some (st \<lparr> rs_sock := XskSocket_recycle (rs_sock st) tx_addr \<rparr>) });
     Some (st \<lparr> rs_sock := XskSocket_recycle (rs_sock st) addr \<rparr>) }"

definition run_frame ::
    "'k xdp_api \<Rightarrow> run_mode \<Rightarrow> u64 \<Rightarrow> 'k run_state \<Rightarrow> fabric option \<times> u64 \<times> u32 \<Rightarrow> 'k run_state option" where
  "run_frame api mode now st d =
     (case d of (fab, addr, len) \<Rightarrow>
        let st = st \<lparr> rs_stats := count_rx len (rs_stats st), rs_pipe := see_fabric fab (rs_pipe st) \<rparr> in
        (case mode of
           Dump \<Rightarrow> run_dump st addr len
         | Encap \<Rightarrow> run_encap api now st addr len
         | Decap \<Rightarrow> run_decap now st addr len))"

definition run_iter :: "'k xdp_api \<Rightarrow> run_opts \<Rightarrow> tick \<Rightarrow> 'k run_state \<Rightarrow> 'k run_state option" where
  "run_iter api opts t st = do {
     let batch = max (ro_batch opts) 1;
     (p, gc_at) \<leftarrow> loop_gc t (rs_pipe st) (rs_gc_at st);
     let st = st \<lparr> rs_pipe := p, rs_gc_at := gc_at \<rparr>;
     st \<leftarrow> (if tk_poll t \<le> 0 then Some st
           else do {
             (sock, ds) \<leftarrow> XskSocket_rx_burst api (rs_sock st) (unat batch);
             st \<leftarrow> burst_loop (run_frame api (ro_mode opts) (as_millis (tk_now t))) (st \<lparr> rs_sock := sock \<rparr>)
                    (burst_items (tk_fabric t) ds);
             Some (st \<lparr> rs_sock := XskSocket_kick_tx_if_needed api (rs_sock st) \<rparr>) });
     (sock, _) \<leftarrow> XskSocket_complete_tx api (rs_sock st) batch;
     Some (st \<lparr> rs_sock := fst (XskSocket_refill api sock batch) \<rparr>) }"

text \<open>The loop over the iterations' observations: \<open>Inr\<close> when it has left the loop, \<open>Inl\<close> when it is
  still running after the last of them.\<close>

fun loop_until :: "('s \<Rightarrow> run_stats) \<Rightarrow> (tick \<Rightarrow> 's \<Rightarrow> 's option) \<Rightarrow> run_opts \<Rightarrow> 's \<Rightarrow> tick list \<Rightarrow> ('s + 's) option" where
  "loop_until counters iter opts st [] = Some (Inl st)"
| "loop_until counters iter opts st (t # ts) =
     (if loop_stops opts (counters st) t then Some (Inr st)
      else do { st \<leftarrow> iter t st; loop_until counters iter opts st ts })"

definition run :: "'k xdp_api \<Rightarrow> 'k xsk_socket \<Rightarrow> pipeline \<Rightarrow> run_opts \<Rightarrow> nat \<Rightarrow> tick list \<Rightarrow> ('k run_state + 'k run_state) option" where
  "run api sock p opts gc_at ts =
     loop_until rs_stats (run_iter api opts) opts
       \<lparr> rs_sock = sock, rs_pipe = p, rs_stats = RunStats_default, rs_log = [], rs_gc_at = gc_at \<rparr> ts"

subsection \<open>Two sockets\<close>

record 'k switch_state =
  sw_tenant :: "'k xsk_socket"
  sw_underlay :: "'k xsk_socket"
  sw_pipe :: pipeline
  sw_stats :: run_stats
  sw_report_at :: nat

text \<open>An answer for the tenant, built in an underlay frame: it is copied to a tenant frame.\<close>

definition switch_reply :: "'k xdp_api \<Rightarrow> 'k switch_state \<Rightarrow> u64 \<Rightarrow> nat \<Rightarrow> 'k switch_state option" where
  "switch_reply api st tx_addr m = do {
     reply \<leftarrow> XskSocket_frame (sw_underlay st) tx_addr (of_nat m);
     let st = st \<lparr> sw_underlay := XskSocket_recycle (sw_underlay st) tx_addr \<rparr>;
     (case XskSocket_alloc_tx (sw_tenant st) of
        (_, None) \<Rightarrow> Some (st \<lparr> sw_stats := count_dropped (sw_stats st) \<rparr>)
      | (tenant, Some t_addr) \<Rightarrow> do {
          (tenant, _) \<leftarrow> XskSocket_frame_mut tenant t_addr (\<lambda>f. do { f \<leftarrow> put f 0 m reply; Some (f, ()) });
          let (tenant, queued) = XskSocket_tx_one api tenant t_addr (of_nat m);
          Some (if queued then st \<lparr> sw_tenant := tenant, sw_stats := count_tx (sw_stats st) \<rparr>
                else st \<lparr> sw_tenant := XskSocket_recycle tenant t_addr, sw_stats := count_dropped (sw_stats st) \<rparr>) }) }"

definition switch_egress ::
    "'k xdp_api \<Rightarrow> u64 \<Rightarrow> 'k switch_state \<Rightarrow> fabric option \<times> u64 \<times> u32 \<Rightarrow> 'k switch_state option" where
  "switch_egress api now st d =
     (case d of (fab, addr, len) \<Rightarrow> do {
        let st = st \<lparr> sw_stats := count_rx len (sw_stats st), sw_pipe := see_fabric fab (sw_pipe st) \<rparr>;
        st \<leftarrow> (case XskSocket_alloc_tx (sw_underlay st) of
            (_, None) \<Rightarrow> Some (st \<lparr> sw_stats := count_dropped (sw_stats st) \<rparr>)
          | (underlay, Some tx_addr) \<Rightarrow> do {
              inner \<leftarrow> XskSocket_frame (sw_tenant st) addr len;
              (underlay, p, d) \<leftarrow> into_frame underlay tx_addr (\<lambda>out. Pipeline_on_tenant_frame (sw_pipe st) inner out now);
              let st = st \<lparr> sw_underlay := underlay, sw_pipe := p \<rparr>;
              (case d of
                 Reply m \<Rightarrow> switch_reply api st tx_addr m
               | _ \<Rightarrow>
                   let (underlay, queued) = (case d of
                       Forward m \<Rightarrow> XskSocket_tx_one api underlay tx_addr (of_nat m) | _ \<Rightarrow> (underlay, False)) in
                   Some (if queued then st \<lparr> sw_underlay := underlay, sw_stats := count_tx (sw_stats st) \<rparr>
                         else st \<lparr> sw_underlay := XskSocket_recycle underlay tx_addr,
                                   sw_stats := count_dropped (sw_stats st) \<rparr>)) });
        Some (st \<lparr> sw_tenant := XskSocket_recycle (sw_tenant st) addr \<rparr>) })"

definition switch_ingress ::
    "'k xdp_api \<Rightarrow> u64 \<Rightarrow> 'k switch_state \<Rightarrow> fabric option \<times> u64 \<times> u32 \<Rightarrow> 'k switch_state option" where
  "switch_ingress api now st d =
     (case d of (fab, addr, len) \<Rightarrow> do {
        let st = st \<lparr> sw_stats := count_rx len (sw_stats st), sw_pipe := see_fabric fab (sw_pipe st) \<rparr>;
        st \<leftarrow> (case XskSocket_alloc_tx (sw_tenant st) of
            (_, None) \<Rightarrow> Some (st \<lparr> sw_stats := count_dropped (sw_stats st) \<rparr>)
          | (tenant, Some tx_addr) \<Rightarrow> do {
              frame \<leftarrow> XskSocket_frame (sw_underlay st) addr len;
              (tenant, p, d) \<leftarrow> into_frame tenant tx_addr (\<lambda>out. Pipeline_on_underlay_frame (sw_pipe st) frame out now);
              let (tenant, queued) = (case d of
                  Forward m \<Rightarrow> XskSocket_tx_one api tenant tx_addr (of_nat m) | _ \<Rightarrow> (tenant, False));
              let st = st \<lparr> sw_pipe := p \<rparr>;
              Some (if queued then st \<lparr> sw_tenant := tenant, sw_stats := count_decapped (count_tx (sw_stats st)) \<rparr>
                    else st \<lparr> sw_tenant := XskSocket_recycle tenant tx_addr, sw_stats := count_dropped (sw_stats st) \<rparr>) });
        Some (st \<lparr> sw_underlay := XskSocket_recycle (sw_underlay st) addr \<rparr>) })"

definition switch_iter :: "'k xdp_api \<Rightarrow> run_opts \<Rightarrow> tick \<Rightarrow> 'k switch_state \<Rightarrow> 'k switch_state option" where
  "switch_iter api opts t st = do {
     let batch = max (ro_batch opts) 1;
     (p, report_at) \<leftarrow> loop_gc t (sw_pipe st) (sw_report_at st);
     let st = st \<lparr> sw_pipe := p, sw_report_at := report_at \<rparr>;
     let now = as_millis (tk_now t);
     st \<leftarrow> (if 0 < tk_poll t \<and> fst (tk_ready t) then do {
              (tenant, ds) \<leftarrow> XskSocket_rx_burst api (sw_tenant st) (unat batch);
              burst_loop (switch_egress api now) (st \<lparr> sw_tenant := tenant \<rparr>) (burst_items (tk_fabric t) ds) }
           else Some st);
     st \<leftarrow> (if 0 < tk_poll t \<and> snd (tk_ready t) then do {
              (underlay, ds) \<leftarrow> XskSocket_rx_burst api (sw_underlay st) (unat batch);
              burst_loop (switch_ingress api now) (st \<lparr> sw_underlay := underlay \<rparr>) (burst_items (tk_fabric2 t) ds) }
           else Some st);
     (underlay, _) \<leftarrow> XskSocket_complete_tx api (XskSocket_kick_tx_if_needed api (sw_underlay st)) batch;
     (tenant, _) \<leftarrow> XskSocket_complete_tx api (XskSocket_kick_tx_if_needed api (sw_tenant st)) batch;
     Some (st \<lparr> sw_underlay := fst (XskSocket_refill api underlay batch),
                sw_tenant := fst (XskSocket_refill api tenant batch) \<rparr>) }"

definition run_switch ::
    "'k xdp_api \<Rightarrow> 'k xsk_socket \<Rightarrow> 'k xsk_socket \<Rightarrow> pipeline \<Rightarrow> run_opts \<Rightarrow> nat \<Rightarrow> tick list \<Rightarrow>
     ('k switch_state + 'k switch_state) option" where
  "run_switch api tenant underlay p opts report_at ts =
     loop_until sw_stats (switch_iter api opts) opts
       \<lparr> sw_tenant = tenant, sw_underlay = underlay, sw_pipe = p, sw_stats = RunStats_default, sw_report_at = report_at \<rparr> ts"

text \<open>One worker of \<open>run_multiqueue\<close>. Its result is an error of opening a socket, or the run of the
  switch.\<close>

definition multiqueue_worker ::
    "'k xdp_api \<Rightarrow> string \<Rightarrow> string \<Rightarrow> u32 \<Rightarrow> xsk_config \<Rightarrow> fabric \<Rightarrow> pipeline_config \<Rightarrow> ipv4addr \<Rightarrow> u16 \<times> u16 \<Rightarrow> run_opts \<Rightarrow>
     nat \<Rightarrow> tick list \<Rightarrow> (io_error + ('k switch_state + 'k switch_state)) option" where
  "multiqueue_worker api tenant_if underlay_if q xcfg fab cfg ip ports opts report_at ts =
     (case XskSocket_open api tenant_if q xcfg of
        Inl e \<Rightarrow> Some (Inl e)
      | Inr tenant \<Rightarrow> (case XskSocket_open api underlay_if q xcfg of
          Inl e \<Rightarrow> Some (Inl e)
        | Inr underlay \<Rightarrow> do {
            eng \<leftarrow> NatEngine_new ip (fst ports) (snd ports);
            p \<leftarrow> Pipeline_new_shared cfg fab eng;
            r \<leftarrow> run_switch api tenant underlay p opts report_at ts;
            Some (Inr r) }))"

text \<open>\<open>run_multiqueue\<close> joins the workers in order and keeps the counters of those that ended without
  an error or a panic, as \<open>join\<close> tells them apart in a build that unwinds; in the release profile
  (\<open>panic = abort\<close>) a panic would end the process, but \<open>Afxdp_Props\<close> shows that no worker
  panics. It does not return (\<open>None\<close>) while one of them is running. Each worker
  has its own start time, observations and view of the shared fabric handle at its start.\<close>

definition run_multiqueue ::
    "'k xdp_api \<Rightarrow> string \<Rightarrow> string \<Rightarrow> u32 \<Rightarrow> xsk_config \<Rightarrow> pipeline_config \<Rightarrow> ipv4addr \<Rightarrow> u16 \<times> u16 \<Rightarrow> run_opts \<Rightarrow>
     (nat \<Rightarrow> fabric \<times> nat \<times> tick list) \<Rightarrow> run_stats list option" where
  "run_multiqueue api tenant_if underlay_if n_queues xcfg cfg ip ports opts env =
     (let rs = map (\<lambda>q. case env q of (fab, report_at, ts) \<Rightarrow>
            multiqueue_worker api tenant_if underlay_if (of_nat q) xcfg fab cfg ip ports opts report_at ts) [0..<unat n_queues] in
      if list_ex (\<lambda>r. case r of Some (Inr (Inl _)) \<Rightarrow> True | _ \<Rightarrow> False) rs then None
      else Some (List.map_filter (\<lambda>r. case r of Some (Inr (Inr st)) \<Rightarrow> Some (sw_stats st) | _ \<Rightarrow> None) rs))"

end
