(* ===== verification/Afxdp_Own.thy ===== *)
theory Afxdp_Own
  imports Afxdp Pipeline_Inv "HOL-Library.Multiset"
begin

text \<open>
  Ownership of the UMEM frames: every frame is in exactly one place (the pool, the kernel, or
  the loop that handles it), which makes the raw views of the frames valid and free of
  aliasing. The contract \<open>frame_body\<close> of a loop body that handles one received frame.
\<close>

section \<open>The frames of a UMEM\<close>

lemma unat_umem_size: "unat (ucast (n :: u32) * ucast (fs :: u32) :: u64) = unat n * unat fs"
proof -
  have "unat n * unat fs < 2 ^ 64"
    using mult_strict_mono' [OF unsigned_less [of n, where ?'a = nat] unsigned_less [of fs, where ?'a = nat]] by simp
  then show ?thesis by (simp add: unat_word_ariths unat_ucast_up)
qed

lemma unat_umem_addr:
  assumes "i < unat (n :: u32)"
  shows "unat (of_nat i * ucast (fs :: u32) :: u64) = i * unat fs"
proof -
  have i: "i < 2 ^ 32" using assms unsigned_less [of n, where ?'a = nat] by simp
  then have "i * unat fs < 2 ^ 64"
    using mult_strict_mono' [OF i unsigned_less [of fs, where ?'a = nat]] by simp
  moreover have "unat (of_nat i :: u64) = i" using i by (simp add: unsigned_of_nat take_bit_nat_eq_self)
  ultimately show ?thesis by (simp add: unat_word_ariths unat_ucast_up)
qed

lemma in_umem_frames: "a \<in> set (umem_frames n fs) \<longleftrightarrow> (\<exists>i < unat n. unat a = i * unat fs)"
proof
  assume "a \<in> set (umem_frames n fs)"
  then show "\<exists>i < unat n. unat a = i * unat fs" by (auto simp: umem_frames_def unat_umem_addr)
next
  assume "\<exists>i < unat n. unat a = i * unat fs"
  then obtain i where "i < unat n" "unat a = i * unat fs" by blast
  then have "a = of_nat i * ucast fs" by (simp add: word_unat_eq_iff unat_umem_addr)
  then show "a \<in> set (umem_frames n fs)" using \<open>i < unat n\<close> by (auto simp: umem_frames_def)
qed

lemma distinct_umem_frames:
  assumes "fs \<noteq> 0"
  shows "distinct (umem_frames n fs)"
proof -
  have "0 < unat fs" using assms by (simp add: unat_gt_0)
  then have "inj_on (\<lambda>i. of_nat i * ucast fs :: u64) {0..<unat n}"
    by (intro inj_onI) (metis atLeastLessThan_iff mult_right_cancel not_less0 unat_umem_addr)
  then show ?thesis by (simp add: umem_frames_def distinct_map)
qed

text \<open>A frame lies in the area, and two frames are the same or apart.\<close>

lemma umem_frame_bound:
  assumes "a \<in> set (umem_frames n fs)"
  shows "unat a + unat fs \<le> unat n * unat fs"
proof -
  obtain i where i: "i < unat n" "unat a = i * unat fs" using assms in_umem_frames by blast
  then have "Suc i * unat fs \<le> unat n * unat fs" by (intro mult_le_mono1) simp
  then show ?thesis using i(2) by simp
qed

lemma umem_frames_apart:
  assumes "a \<in> set (umem_frames n fs)" and "b \<in> set (umem_frames n fs)" and "a \<noteq> b"
  shows "unat a + unat fs \<le> unat b \<or> unat b + unat fs \<le> unat a"
proof -
  obtain i j where ij: "unat a = i * unat fs" "unat b = j * unat fs" using assms in_umem_frames by metis
  then have "i \<noteq> j" using assms(3) by (auto simp: word_unat_eq_iff)
  then have "Suc i \<le> j \<or> Suc j \<le> i" by linarith
  then have "Suc i * unat fs \<le> j * unat fs \<or> Suc j * unat fs \<le> i * unat fs" using mult_le_mono1 by blast
  then show ?thesis using ij by (simp add: add.commute)
qed

text \<open>The frame an address lies in.\<close>

definition frame_base :: "u32 \<Rightarrow> u64 \<Rightarrow> u64" where
  "frame_base fs a = a - a mod ucast fs"

lemma unat_frame_base: "unat (frame_base fs a) = unat a div unat fs * unat fs"
proof -
  have m: "unat (a mod ucast fs) = unat a mod unat fs" by (simp add: unat_mod unat_ucast_up)
  then have "a mod ucast fs \<le> a" by (simp add: word_le_nat_alt)
  then have "unat (frame_base fs a) = unat a - unat a mod unat fs" by (simp add: frame_base_def unat_sub m)
  then show ?thesis by (simp add: minus_mod_eq_div_mult)
qed

lemma frame_base_in:
  assumes "unat a < unat n * unat fs"
  shows "frame_base fs a \<in> set (umem_frames n fs)"
proof -
  have "unat a div unat fs < unat n" using assms by (simp add: less_mult_imp_div_less)
  then show ?thesis using unat_frame_base by (auto simp: in_umem_frames)
qed

lemma rx_desc_eq:
  assumes "unat a < unat n * unat fs"
  shows "rx_desc n fs (a, l) = (frame_base fs a, if fs < l then fs else l)"
proof -
  have "\<not> ucast n * ucast fs \<le> a" using assms by (simp add: word_le_nat_alt unat_umem_size)
  then show ?thesis by (simp add: rx_desc_def frame_base_def)
qed

section \<open>Ownership\<close>

text \<open>What the socket relies on of the kernel and libxdp, with \<open>held k\<close> the frames the kernel holds
  in state \<open>k\<close>, none twice: handing over addresses is all or nothing and gives the frames to the kernel;
  a received descriptor lies in a frame the kernel held, which it gives back; queueing a
  descriptor for transmission gives its frame to the kernel; a completed frame comes back;
  the kernel writes only to frames it holds.\<close>

definition umem_keeps :: "u32 \<Rightarrow> u64 multiset \<Rightarrow> bytes \<Rightarrow> bytes \<Rightarrow> bool" where
  "umem_keeps fs F area area' \<longleftrightarrow>
     length area' = length area \<and> (\<forall>a \<in># F. take (unat fs) (drop (unat a) area') = take (unat fs) (drop (unat a) area))"

definition xdp_contract :: "'k xdp_api \<Rightarrow> ('k \<Rightarrow> u64 multiset) \<Rightarrow> u32 \<Rightarrow> u32 \<Rightarrow> bool" where
  "xdp_contract api held n fs \<longleftrightarrow>
     (\<forall>k addrs m k'. held k \<subseteq># mset (umem_frames n fs) \<longrightarrow> length addrs < 2 ^ 32 \<longrightarrow> xk_fill api k addrs = (m, k') \<longrightarrow>
        (m = 0 \<or> m = length addrs) \<and> held k' = held k + mset (take m addrs)) \<and>
     (\<forall>k area limit ds k' area'. held k \<subseteq># mset (umem_frames n fs) \<longrightarrow> length area = unat n * unat fs \<longrightarrow>
        xk_rx api k area limit = (ds, k', area') \<longrightarrow>
        length ds \<le> limit \<and> list_all (\<lambda>(a, l). unat a < unat n * unat fs) ds \<and>
        held k = held k' + mset (map (\<lambda>(a, l). frame_base fs a) ds) \<and>
        umem_keeps fs (mset (umem_frames n fs) - held k) area area') \<and>
     (\<forall>k a l m k'. held k \<subseteq># mset (umem_frames n fs) \<longrightarrow> xk_tx api k [(a, l)] = (m, k') \<longrightarrow> m \<le> 1 \<and> held k' = held k + (if m = 1 then {#a#} else {#})) \<and>
     (\<forall>k limit addrs k'. held k \<subseteq># mset (umem_frames n fs) \<longrightarrow> xk_comp api k limit = (addrs, k') \<longrightarrow>
        length addrs \<le> limit \<and> held k = held k' + mset addrs) \<and>
     (\<forall>k. held k \<subseteq># mset (umem_frames n fs) \<longrightarrow> held (xk_kick api k) = held k)"

lemma contract_fill:
  "xdp_contract api held n fs \<Longrightarrow> held k \<subseteq># mset (umem_frames n fs) \<Longrightarrow> length addrs < 2 ^ 32 \<Longrightarrow>
   xk_fill api k addrs = (m, k') \<Longrightarrow>
   (m = 0 \<or> m = length addrs) \<and> held k' = held k + mset (take m addrs)"
  unfolding xdp_contract_def by blast

lemma contract_rx:
  "xdp_contract api held n fs \<Longrightarrow> held k \<subseteq># mset (umem_frames n fs) \<Longrightarrow> length area = unat n * unat fs \<Longrightarrow>
   xk_rx api k area limit = (ds, k', area') \<Longrightarrow>
   length ds \<le> limit \<and> list_all (\<lambda>(a, l). unat a < unat n * unat fs) ds \<and>
   held k = held k' + mset (map (\<lambda>(a, l). frame_base fs a) ds) \<and>
   umem_keeps fs (mset (umem_frames n fs) - held k) area area'"
  unfolding xdp_contract_def by blast

lemma contract_tx:
  "xdp_contract api held n fs \<Longrightarrow> held k \<subseteq># mset (umem_frames n fs) \<Longrightarrow>
   xk_tx api k [(a, l)] = (m, k') \<Longrightarrow> held k' = held k + (if m = 1 then {#a#} else {#})"
  unfolding xdp_contract_def by blast

lemma contract_comp:
  "xdp_contract api held n fs \<Longrightarrow> held k \<subseteq># mset (umem_frames n fs) \<Longrightarrow>
   xk_comp api k limit = (addrs, k') \<Longrightarrow> length addrs \<le> limit \<and> held k = held k' + mset addrs"
  unfolding xdp_contract_def by blast

lemma contract_kick:
  "xdp_contract api held n fs \<Longrightarrow> held k \<subseteq># mset (umem_frames n fs) \<Longrightarrow> held (xk_kick api k) = held k"
  unfolding xdp_contract_def by blast

text \<open>Every frame of the UMEM is in exactly one place: in the pool, with the kernel, or with the loop
  (\<open>L\<close>).\<close>

definition xsk_inv :: "('k \<Rightarrow> u64 multiset) \<Rightarrow> u32 \<Rightarrow> u32 \<Rightarrow> 'k xsk_socket \<Rightarrow> u64 multiset \<Rightarrow> bool" where
  "xsk_inv held n fs s L \<longleftrightarrow>
     xs_n_frames s = n \<and> xs_frame_size s = fs \<and> fs \<noteq> 0 \<and> length (xs_area s) = unat n * unat fs \<and>
     mset (xs_free s) + held (xs_kernel s) + L = mset (umem_frames n fs)"

lemma xsk_inv_loaned: "xsk_inv held n fs s L \<Longrightarrow> a \<in># L \<Longrightarrow> a \<in> set (umem_frames n fs)"
  unfolding xsk_inv_def by (metis set_mset_mset union_iff)

lemma xsk_inv_held: "xsk_inv held n fs s L \<Longrightarrow> held (xs_kernel s) \<subseteq># mset (umem_frames n fs)"
  unfolding xsk_inv_def by (metis mset_subset_eq_add_left mset_subset_eq_add_right subset_mset.order_trans)

text \<open>A frame the loop has is not with the kernel, and different from every other frame it has.\<close>

lemma xsk_inv_apart:
  assumes "xsk_inv held n fs s (add_mset a L)" and "b \<in># held (xs_kernel s) + L"
  shows "unat a + unat fs \<le> unat b \<or> unat b + unat fs \<le> unat a"
proof -
  have eq: "mset (umem_frames n fs) = add_mset a (mset (xs_free s) + held (xs_kernel s) + L)"
    using assms(1) by (simp add: xsk_inv_def ac_simps)
  have "distinct (umem_frames n fs)" using assms(1) distinct_umem_frames by (auto simp: xsk_inv_def)
  then have "count (mset (umem_frames n fs)) a \<le> 1" by (simp add: distinct_count_atmost_1)
  then have "b \<noteq> a" using assms(2) unfolding eq by (auto simp: count_eq_zero_iff)
  moreover have "a \<in># mset (umem_frames n fs)" "b \<in># mset (umem_frames n fs)"
    using assms(2) unfolding eq by auto
  ultimately show ?thesis using umem_frames_apart [of a n fs b] by auto
qed

lemma xsk_alloc:
  assumes "xsk_inv held n fs s L" and "XskSocket_alloc_tx s = (s', Some a)"
  shows "xsk_inv held n fs s' (add_mset a L)" and "xs_kernel s' = xs_kernel s" and "xs_area s' = xs_area s"
proof -
  have s': "s' = s \<lparr> xs_free := butlast (xs_free s) \<rparr>" "a = last (xs_free s)" "xs_free s \<noteq> []"
    using assms(2) by (auto simp: XskSocket_alloc_tx_def split: if_splits)
  have "mset (xs_free s) = mset (butlast (xs_free s) @ [a])" using s'(2,3) by simp
  then have "mset (xs_free s) = add_mset a (mset (butlast (xs_free s)))" by (simp only: mset_append mset.simps) simp
  then show "xsk_inv held n fs s' (add_mset a L)" using assms(1) s'(1) by (simp add: xsk_inv_def del: append_butlast_last_id)
qed (use assms(2) in \<open>auto simp: XskSocket_alloc_tx_def split: if_splits\<close>)

lemma xsk_recycle: "xsk_inv held n fs s (add_mset a L) \<Longrightarrow> xsk_inv held n fs (XskSocket_recycle s a) L"
  by (simp add: xsk_inv_def XskSocket_recycle_def)

lemma xsk_recycle_simps [simp]:
  "xs_kernel (XskSocket_recycle s a) = xs_kernel s" "xs_area (XskSocket_recycle s a) = xs_area s"
  by (simp_all add: XskSocket_recycle_def)

lemma xsk_tx_one:
  assumes "xdp_contract api held n fs" and "xsk_inv held n fs s (add_mset a L)"
    and "XskSocket_tx_one api s a l = (s', queued)"
  shows "xsk_inv held n fs s' (if queued then L else add_mset a L)"
    and "held (xs_kernel s') = held (xs_kernel s) + (if queued then {#a#} else {#})" and "xs_area s' = xs_area s"
proof -
  obtain m k' where k: "xk_tx api (xs_kernel s) [(a, l)] = (m, k')" by fastforce
  then have "held k' = held (xs_kernel s) + (if m = 1 then {#a#} else {#})" by (rule contract_tx [OF assms(1) xsk_inv_held [OF assms(2)]])
  moreover have s': "s' = s \<lparr> xs_kernel := k' \<rparr>" "queued = (m = 1)" using assms(3) k by (auto simp: XskSocket_tx_one_def)
  ultimately show "held (xs_kernel s') = held (xs_kernel s) + (if queued then {#a#} else {#})" by simp
  then show "xsk_inv held n fs s' (if queued then L else add_mset a L)" using assms(2) s' by (simp add: xsk_inv_def)
  show "xs_area s' = xs_area s" by (simp add: s'(1))
qed

lemma xsk_kick:
  "xdp_contract api held n fs \<Longrightarrow> xsk_inv held n fs s L \<Longrightarrow> xsk_inv held n fs (XskSocket_kick_tx_if_needed api s) L"
  using contract_kick [of api held n fs "xs_kernel s"] xsk_inv_held [of held n fs s L]
  by (simp add: xsk_inv_def XskSocket_kick_tx_if_needed_def)

lemma xsk_complete:
  assumes "xdp_contract api held n fs" and "xsk_inv held n fs s L"
  shows "\<exists>s' m. XskSocket_complete_tx api s limit = Some (s', m) \<and> xsk_inv held n fs s' L"
proof -
  obtain addrs k' where k: "xk_comp api (xs_kernel s) (unat limit) = (addrs, k')" by fastforce
  note c = contract_comp [OF assms(1) xsk_inv_held [OF assms(2)] this]
  let ?s = "s \<lparr> xs_kernel := k', xs_free := xs_free s @ addrs \<rparr>"
  have e: "held (xs_kernel s) = mset addrs + held k'" using c by (simp add: union_commute)
  have "xsk_inv held n fs ?s L" using assms(2) [unfolded xsk_inv_def e] by (simp add: xsk_inv_def union_assoc)
  then show ?thesis using assms(2) c by (cases "limit = 0") (auto simp: XskSocket_complete_tx_def k)
qed

lemma xsk_refill:
  assumes "xdp_contract api held n fs" and "xsk_inv held n fs s L"
  shows "xsk_inv held n fs (fst (XskSocket_refill api s want)) L"
proof (cases "want = 0 \<or> xs_free s = []")
  case False
  let ?n = "length (xs_free s)" and ?t = "min (unat want) (length (xs_free s))"
  obtain m k' where k: "xk_fill api (xs_kernel s) (drop (?n - ?t) (xs_free s)) = (m, k')" by fastforce
  have "length (drop (?n - ?t) (xs_free s)) \<le> unat want" by simp
  also have "\<dots> < 2 ^ 32" using unsigned_less [of want, where ?'a = nat] by simp
  finally have "length (drop (?n - ?t) (xs_free s)) < 2 ^ 32" .
  note fill = contract_fill [OF assms(1) xsk_inv_held [OF assms(2)] this k]
  note m = conjunct1 [OF fill] conjunct2 [OF fill]
  then have m': "m = 0 \<or> m = ?t" by auto
  have r: "fst (XskSocket_refill api s want) = s \<lparr> xs_kernel := k', xs_free := take (?n - m) (xs_free s) \<rparr>"
    using False m' by (auto simp: XskSocket_refill_def k Let_def)
  have "mset (take (?n - m) (xs_free s)) + held k' = mset (xs_free s) + held (xs_kernel s)"
  proof (cases "m = 0")
    case True
    then show ?thesis using m(2) by simp
  next
    case False
    then have mt: "m = ?t" using m' by simp
    have "mset (take (?n - m) (xs_free s)) + mset (drop (?n - m) (xs_free s)) = mset (xs_free s)"
      by (metis append_take_drop_id mset_append)
    then show ?thesis using m(2) by (simp add: mt ac_simps)
  qed
  then show ?thesis using assms(2) unfolding r by (simp add: xsk_inv_def)
qed (use assms(2) in \<open>auto simp: XskSocket_refill_def\<close>)

lemma xsk_rx_burst:
  assumes "xdp_contract api held n fs" and inv: "xsk_inv held n fs s L"
  obtains s' ds where "XskSocket_rx_burst api s limit = Some (s', ds)" "xsk_inv held n fs s' (mset (map fst ds) + L)"
    "length ds \<le> limit" "list_all (\<lambda>(a, l). l \<le> fs) ds"
proof -
  obtain ds k' area' where k: "xk_rx api (xs_kernel s) (xs_area s) limit = (ds, k', area')" by (metis prod_cases3)
  have "length (xs_area s) = unat n * unat fs" using inv by (simp add: xsk_inv_def)
  from contract_rx [OF assms(1) xsk_inv_held [OF inv] this k]
  have c: "length ds \<le> limit" "list_all (\<lambda>(a, l). unat a < unat n * unat fs) ds"
      "held (xs_kernel s) = held k' + mset (map (\<lambda>(a, l). frame_base fs a) ds)" "length area' = length (xs_area s)"
    by (simp_all add: umem_keeps_def)
  have fs: "xs_n_frames s = n" "xs_frame_size s = fs" using inv by (simp_all add: xsk_inv_def)
  define ds' where "ds' = map (\<lambda>(a, l). (frame_base fs a, if fs < l then fs else l)) ds"
  have "map (rx_desc n fs) ds = ds'"
    using c(2) by (auto simp: ds'_def list_all_iff rx_desc_eq)
  moreover have "map (\<lambda>(a, l). (a, if fs < l then fs else l)) ds' = ds'" by (auto simp: ds'_def)
  ultimately have r: "XskSocket_rx_burst api s limit = Some (s \<lparr> xs_kernel := k', xs_area := area' \<rparr>, ds')"
    using c(1) by (simp add: XskSocket_rx_burst_def k fs Let_def cong: if_cong del: map_map)
  have "map fst ds' = map (\<lambda>(a, l). frame_base fs a) ds" by (auto simp: ds'_def)
  then have "xsk_inv held n fs (s \<lparr> xs_kernel := k', xs_area := area' \<rparr>) (mset (map fst ds') + L)"
    using inv c(3,4) by (simp add: xsk_inv_def ac_simps)
  moreover have "list_all (\<lambda>(a, l). l \<le> fs) ds'" by (auto simp: ds'_def list_all_iff)
  moreover have "length ds' \<le> limit" using c(1) by (simp add: ds'_def)
  ultimately show thesis using that r by blast
qed

section \<open>Views and writes\<close>

definition xsk_bytes :: "'k xsk_socket \<Rightarrow> u64 \<Rightarrow> bytes" where
  "xsk_bytes s a = take (unat (xs_frame_size s)) (drop (unat a) (xs_area s))"

text \<open>What the kernel has stays with it, and those frames keep their bytes.\<close>

definition xsk_keeps :: "('k \<Rightarrow> u64 multiset) \<Rightarrow> u32 \<Rightarrow> 'k xsk_socket \<Rightarrow> 'k xsk_socket \<Rightarrow> bool" where
  "xsk_keeps held fs s s' \<longleftrightarrow>
     held (xs_kernel s) \<subseteq># held (xs_kernel s') \<and> umem_keeps fs (held (xs_kernel s)) (xs_area s) (xs_area s')"

lemma xsk_keeps_refl [simp]: "xsk_keeps held fs s s"
  by (simp add: xsk_keeps_def umem_keeps_def)

lemma xsk_keeps_trans: "xsk_keeps held fs s s' \<Longrightarrow> xsk_keeps held fs s' s'' \<Longrightarrow> xsk_keeps held fs s s''"
  unfolding xsk_keeps_def umem_keeps_def by (auto dest: mset_subset_eqD intro: subset_mset.order_trans)

lemma xsk_keeps_same_area:
  "held (xs_kernel s) \<subseteq># held (xs_kernel s') \<Longrightarrow> xs_area s' = xs_area s \<Longrightarrow> xsk_keeps held fs s s'"
  by (simp add: xsk_keeps_def umem_keeps_def)

lemma take_drop_patch_apart:
  assumes "length src \<le> m" and "a + m \<le> length b" and "c + m \<le> a \<or> a + m \<le> c"
  shows "take m (drop c (patch b a src)) = take m (drop c b)"
  using assms(3)
proof
  assume "c + m \<le> a"
  then have "take m (drop c (take a b)) = take m (drop c b)" by (simp add: drop_take min_def)
  then show ?thesis using assms(2) \<open>c + m \<le> a\<close> by (simp add: patch_def)
next
  assume "a + m \<le> c"
  then show ?thesis using assms(1,2) by (simp add: drop_patch_after)
qed

lemma xsk_frame:
  assumes "xsk_inv held n fs s L" and "a \<in># L" and "l \<le> fs"
  shows "XskSocket_frame s a l = Some (take (unat l) (xsk_bytes s a))"
proof -
  have "unat l \<le> unat fs" using assms(3) by (simp add: word_le_nat_alt)
  moreover have "unat a + unat fs \<le> length (xs_area s)"
    using umem_frame_bound [OF xsk_inv_loaned [OF assms(1,2)]] assms(1) by (simp add: xsk_inv_def)
  moreover have "xs_frame_size s = fs" using assms(1) by (simp add: xsk_inv_def)
  ultimately show ?thesis by (simp add: XskSocket_frame_def slice_def xsk_bytes_def)
qed

lemma length_xsk_bytes: "xsk_inv held n fs s L \<Longrightarrow> a \<in># L \<Longrightarrow> length (xsk_bytes s a) = unat fs"
  using umem_frame_bound [OF xsk_inv_loaned, of held n fs s L a] by (simp add: xsk_inv_def xsk_bytes_def)

text \<open>A write to a frame of the loop: it succeeds, changes that frame only, and the frames with the
  kernel or elsewhere in the loop keep their bytes.\<close>

lemma xsk_frame_mut:
  assumes inv: "xsk_inv held n fs s (add_mset a L)" and f: "f (xsk_bytes s a) = Some (out, r)" and len: "length out = unat fs"
  obtains s' where "XskSocket_frame_mut s a f = Some (s', r)" "xsk_inv held n fs s' (add_mset a L)"
    "xs_kernel s' = xs_kernel s" "xsk_bytes s' a = out" "umem_keeps fs (held (xs_kernel s) + L) (xs_area s) (xs_area s')"
proof -
  let ?s = "s \<lparr> xs_area := patch (xs_area s) (unat a) out \<rparr>"
  have fs: "xs_frame_size s = fs" "length (xs_area s) = unat n * unat fs" using inv by (simp_all add: xsk_inv_def)
  have bound: "unat a + unat fs \<le> length (xs_area s)"
    using umem_frame_bound [OF xsk_inv_loaned [OF inv]] fs(2) by simp
  have run: "XskSocket_frame_mut s a f = Some (?s, r)"
    using f bound fs(1) by (simp add: XskSocket_frame_mut_def sub_mut_def slice_def xsk_bytes_def)
  have "xsk_inv held n fs ?s (add_mset a L)" using inv bound len by (simp add: xsk_inv_def)
  moreover have "xsk_bytes ?s a = out"
    using bound len by (simp add: xsk_bytes_def fs(1) patch_def)
  moreover have "umem_keeps fs (held (xs_kernel s) + L) (xs_area s) (xs_area ?s)"
    unfolding umem_keeps_def
  proof (intro conjI ballI)
    fix b assume "b \<in># held (xs_kernel s) + L"
    from xsk_inv_apart [OF inv this] show "take (unat fs) (drop (unat b) (xs_area ?s)) = take (unat fs) (drop (unat b) (xs_area s))"
      using take_drop_patch_apart [OF eq_refl [OF len] bound, of "unat b"] by auto
  qed (use bound len in simp)
  ultimately show thesis using that [OF run] by simp
qed

lemma umem_keeps_mono: "umem_keeps fs (F + G) x y \<Longrightarrow> umem_keeps fs F x y"
  by (simp add: umem_keeps_def)

text \<open>A handler of the pipeline that writes into a frame of the loop.\<close>

lemma into_frame_ok:
  assumes inv: "xsk_inv held n fs s (add_mset a L)" and h: "\<And>out. \<exists>r. h out = Some r \<and> handled p out r"
  obtains s' p' d where "into_frame s a h = Some (s', p', d)" "xsk_inv held n fs s' (add_mset a L)"
    "xs_kernel s' = xs_kernel s" "umem_keeps fs (held (xs_kernel s) + L) (xs_area s) (xs_area s')" "pipeline_inv p'"
    "h (xsk_bytes s a) = Some (p', xsk_bytes s' a, d)" "\<And>m. d = Forward m \<or> d = Reply m \<Longrightarrow> m \<le> unat fs"
proof -
  obtain p' out d where o: "h (xsk_bytes s a) = Some (p', out, d)" "handled p (xsk_bytes s a) (p', out, d)"
    using h [of "xsk_bytes s a"] by auto
  have len: "length (xsk_bytes s a) = unat fs" using length_xsk_bytes [OF inv, of a] by simp
  then have hd: "length out = unat fs" "pipeline_inv p'" "\<And>m. d = Forward m \<or> d = Reply m \<Longrightarrow> m \<le> unat fs"
    using o(2) by (auto simp: handled_def)
  have f: "do { (p, out, d) \<leftarrow> h (xsk_bytes s a); Some (out, p, d) } = Some (out, p', d)" by (simp add: o(1))
  obtain s' where "XskSocket_frame_mut s a (\<lambda>out. do { (p, out, d) \<leftarrow> h out; Some (out, p, d) }) = Some (s', p', d)"
    "xsk_inv held n fs s' (add_mset a L)" "xs_kernel s' = xs_kernel s" "xsk_bytes s' a = out"
    "umem_keeps fs (held (xs_kernel s) + L) (xs_area s) (xs_area s')"
    by (rule xsk_frame_mut [where f = "\<lambda>out. do { (p, out, d) \<leftarrow> h out; Some (out, p, d) }", OF inv f hd(1)])
  then show thesis using that o(1) hd(2,3) unfolding into_frame_def by blast
qed

lemma xsk_tx_or_recycle:
  assumes "xdp_contract api held n fs" and "xsk_inv held n fs s (add_mset a L)"
    and "XskSocket_tx_one api s a l = (s', queued)"
  shows "xsk_inv held n fs (if queued then s' else XskSocket_recycle s' a) L"
    and "xsk_keeps held fs s (if queued then s' else XskSocket_recycle s' a)"
proof -
  note t = xsk_tx_one [OF assms]
  show "xsk_inv held n fs (if queued then s' else XskSocket_recycle s' a) L"
    using t(1) xsk_recycle [of held n fs s' a L] by (cases queued) auto
  show "xsk_keeps held fs s (if queued then s' else XskSocket_recycle s' a)"
    using t(2,3) by (intro xsk_keeps_same_area) auto
qed

lemma of_nat_le_frame:
  assumes "m \<le> unat (fs :: u32)"
  shows "unat (of_nat m :: u32) = m" and "(of_nat m :: u32) \<le> fs"
proof -
  have "m < 2 ^ 32" using assms unsigned_less [of fs, where ?'a = nat] by simp
  then show "unat (of_nat m :: u32) = m" by (simp add: unsigned_of_nat take_bit_nat_eq_self)
  then show "(of_nat m :: u32) \<le> fs" using assms by (simp add: word_le_nat_alt)
qed

lemma print_frame_total: "\<exists>line. print_frame f seq = Some line"
proof (cases "length f < 14")
  case False
  then have "14 \<le> length f" by simp
  from EthFrame_accessors [OF this] show ?thesis
    using False by (auto simp: print_frame_def EthFrame_parse_eq five_tuple_of_eq Let_def)
qed (simp add: print_frame_def EthFrame_parse_eq)

lemma pipeline_inv_see_fabric [simp]: "pipeline_inv (see_fabric f p) = pipeline_inv p"
  by (simp add: see_fabric_def Pipeline_reload_fabric_def pipeline_inv_def split: option.split)

lemma tenant_handled: "pipeline_inv p \<Longrightarrow> \<exists>r. Pipeline_on_tenant_frame p inner out now = Some r \<and> handled p out r"
  using tenant.handle_ok [of p "(inner, pc_vni (p_cfg p))" out now] by (simp add: Pipeline_on_tenant_frame_def)

lemma underlay_handled: "pipeline_inv p \<Longrightarrow> \<exists>r. Pipeline_on_underlay_frame p frame out now = Some r \<and> handled p out r"
  by (rule underlay.handle_ok) simp_all

section \<open>The contract of a loop body\<close>

text \<open>A body that handles one received frame, which the loop has: it returns the frame to its pool,
  counts it, and takes nothing from the kernel.\<close>

locale frame_body =
  fixes body :: "'s \<Rightarrow> fabric option \<times> u64 \<times> u32 \<Rightarrow> 's option" and inv :: "'s \<Rightarrow> u64 multiset \<Rightarrow> bool"
    and keeps :: "'s \<Rightarrow> 's \<Rightarrow> bool" and fs :: u32 and counters :: "'s \<Rightarrow> run_stats"
  assumes body_ok: "inv s (add_mset a L) \<Longrightarrow> l \<le> fs \<Longrightarrow>
      \<exists>s'. body s (fab, a, l) = Some s' \<and> inv s' L \<and> keeps s s' \<and> rt_rx (counters s') = rt_rx (counters s) + 1"
    and keeps_refl: "keeps s s"
    and keeps_trans: "keeps s s' \<Longrightarrow> keeps s' s'' \<Longrightarrow> keeps s s''"
begin

lemma burst:
  assumes "inv s (mset (map (fst \<circ> snd) ds) + L)" and "list_all (\<lambda>d. snd (snd d) \<le> fs) ds"
  shows "\<exists>s'. burst_loop body s ds = Some s' \<and> inv s' L \<and> keeps s s' \<and>
    rt_rx (counters s') = rt_rx (counters s) + of_nat (length ds)"
  using assms
proof (induction ds arbitrary: s)
  case Nil
  then show ?case by (simp add: keeps_refl)
next
  case (Cons d ds)
  obtain fab a l where d: "d = (fab, a, l)" by (cases d)
  then have "inv s (add_mset a (mset (map (fst \<circ> snd) ds) + L))" "l \<le> fs" using Cons.prems by (simp_all add: comp_def)
  from body_ok [OF this] obtain s1 where s1: "body s d = Some s1" "inv s1 (mset (map (fst \<circ> snd) ds) + L)" "keeps s s1"
    "rt_rx (counters s1) = rt_rx (counters s) + 1" unfolding d by blast
  have "list_all (\<lambda>d. snd (snd d) \<le> fs) ds" using Cons.prems(2) by simp
  from Cons.IH [OF s1(2) this] obtain s' where "burst_loop body s1 ds = Some s'" "inv s' L" "keeps s1 s'"
    "rt_rx (counters s') = rt_rx (counters s1) + of_nat (length ds)" by blast
  then show ?case using s1 keeps_trans by (auto simp: ac_simps)
qed

lemma burst_items_ok:
  assumes "inv s (mset (map fst ds) + L)" and "list_all (\<lambda>(a, l). l \<le> fs) ds"
  shows "\<exists>s'. burst_loop body s (burst_items fab ds) = Some s' \<and> inv s' L \<and> keeps s s' \<and>
    rt_rx (counters s') = rt_rx (counters s) + of_nat (length ds)"
proof -
  have snd: "map snd (burst_items fab ds) = ds"
    by (simp add: burst_items_def comp_def map_nth)
  then have "map (fst \<circ> snd) (burst_items fab ds) = map fst ds" by (metis map_map)
  moreover have "list_all (\<lambda>d. snd (snd d) \<le> fs) (burst_items fab ds)"
    using assms(2) nth_mem by (fastforce simp: burst_items_def list_all_iff)
  moreover have "length (burst_items fab ds) = length ds" by (simp add: burst_items_def)
  ultimately show ?thesis using burst [of s "burst_items fab ds" L] assms(1) by simp
qed

end

end
