(* ===== verification/Afxdp_Loops.thy ===== *)
theory Afxdp_Loops
  imports Afxdp_Own
begin

text \<open>
  The bodies of the two forwarding loops meet the contract \<open>frame_body\<close>; their iterations
  meet the contract \<open>stoppable_loop\<close>.
\<close>


section \<open>One socket\<close>

definition run_inv ::
    "'k xdp_api \<Rightarrow> ('k \<Rightarrow> u64 multiset) \<Rightarrow> u32 \<Rightarrow> u32 \<Rightarrow> run_mode \<Rightarrow> 'k run_state \<Rightarrow> u64 multiset \<Rightarrow> bool" where
  "run_inv api held n fs mode st L \<longleftrightarrow>
     xdp_contract api held n fs \<and> xsk_inv held n fs (rs_sock st) L \<and> pipeline_inv (rs_pipe st) \<and>
     (mode = Encap \<longrightarrow> rt_rx (rs_stats st) = rt_tx (rs_stats st) + rt_dropped (rs_stats st))"

lemmas count_defs = count_rx_def count_tx_def count_dropped_def count_decapped_def

text \<open>A frame that is queued, or returned to the pool when it was not.\<close>

lemma xsk_queue:
  assumes "xdp_contract api held n fs" and "xsk_inv held n fs s (add_mset a L)"
    and "(s', queued) = XskSocket_tx_one api s a l \<or> (s', queued) = (s, False)"
  shows "xsk_inv held n fs (if queued then s' else XskSocket_recycle s' a) L"
    and "xsk_keeps held fs s (if queued then s' else XskSocket_recycle s' a)"
  using assms(3) xsk_tx_or_recycle [OF assms(1,2), of l s' queued] xsk_recycle [OF assms(2)]
  by (auto intro: xsk_keeps_same_area)

lemma xsk_write_keeps:
  "xs_kernel s' = xs_kernel s \<Longrightarrow> umem_keeps fs (held (xs_kernel s) + L) (xs_area s) (xs_area s') \<Longrightarrow> xsk_keeps held fs s s'"
  using umem_keeps_mono [of fs "held (xs_kernel s)" L] by (simp add: xsk_keeps_def)

lemma xsk_alloc_keeps: "XskSocket_alloc_tx s = (s', o') \<Longrightarrow> xsk_keeps held fs s s'"
  by (auto simp: XskSocket_alloc_tx_def intro: xsk_keeps_same_area split: if_splits)

lemma xsk_recycle_keeps: "xsk_keeps held fs s (XskSocket_recycle s a)"
  by (rule xsk_keeps_same_area) simp_all

lemma run_dump_ok:
  assumes inv: "xsk_inv held n fs (rs_sock st) (add_mset a L)" and "l \<le> fs"
  shows "\<exists>st'. run_dump st a l = Some st' \<and> xsk_inv held n fs (rs_sock st') L \<and> rs_pipe st' = rs_pipe st \<and>
    rs_stats st' = rs_stats st \<and> xsk_keeps held fs (rs_sock st) (rs_sock st')"
proof -
  have "XskSocket_frame (rs_sock st) a l = Some (take (unat l) (xsk_bytes (rs_sock st) a))"
    using xsk_frame [OF inv _ assms(2)] by simp
  then show ?thesis
    using xsk_recycle [OF inv] xsk_recycle_keeps print_frame_total [of "take (unat l) (xsk_bytes (rs_sock st) a)" "rt_rx (rs_stats st)"]
    by (auto simp: run_dump_def)
qed

lemma run_encap_ok:
  assumes c: "xdp_contract api held n fs" and inv: "xsk_inv held n fs (rs_sock st) (add_mset a L)" and p: "pipeline_inv (rs_pipe st)"
    and "l \<le> fs"
  shows "\<exists>st'. run_encap api now st a l = Some st' \<and> xsk_inv held n fs (rs_sock st') L \<and> pipeline_inv (rs_pipe st') \<and>
    (rs_stats st' = count_tx (rs_stats st) \<or> rs_stats st' = count_dropped (rs_stats st)) \<and>
    xsk_keeps held fs (rs_sock st) (rs_sock st')"
proof (cases "snd (XskSocket_alloc_tx (rs_sock st))")
  case None
  then show ?thesis
    using xsk_recycle [OF inv] p by (auto simp: run_encap_def xsk_recycle_keeps split: prod.split)
next
  case (Some tx)
  then obtain s1 where s1: "XskSocket_alloc_tx (rs_sock st) = (s1, Some tx)" by (metis prod.collapse)
  note i1 = xsk_alloc(1) [OF inv s1]
  have f: "XskSocket_frame s1 a l = Some (take (unat l) (xsk_bytes s1 a))" using xsk_frame [OF i1 _ assms(4)] by simp
  let ?h = "\<lambda>out. Pipeline_on_tenant_frame (rs_pipe st) (take (unat l) (xsk_bytes s1 a)) out now"
  have hh: "\<And>out. \<exists>r. ?h out = Some r \<and> handled (rs_pipe st) out r" by (rule tenant_handled [OF p])
  obtain s2 p2 d where s2: "into_frame s1 tx ?h = Some (s2, p2, d)" "xsk_inv held n fs s2 (add_mset tx (add_mset a L))"
    "xs_kernel s2 = xs_kernel s1" "umem_keeps fs (held (xs_kernel s1) + add_mset a L) (xs_area s1) (xs_area s2)"
    "pipeline_inv p2"
    by (rule into_frame_ok [OF i1 hh]) blast
  obtain s3 q where q: "(s3, q) = (case d of Forward m \<Rightarrow> XskSocket_tx_one api s2 tx (of_nat m)
      | Reply m \<Rightarrow> XskSocket_tx_one api s2 tx (of_nat m) | _ \<Rightarrow> (s2, False))"
    by (metis surj_pair)
  let ?s4 = "if q then s3 else XskSocket_recycle s3 tx"
  have "(s3, q) = XskSocket_tx_one api s2 tx (case d of Forward m \<Rightarrow> of_nat m | Reply m \<Rightarrow> of_nat m | _ \<Rightarrow> 0) \<or> (s3, q) = (s2, False)"
    using q by (auto split: decision.splits)
  note i4 = xsk_queue [OF c s2(2) this]
  have run: "run_encap api now st a l = Some (st \<lparr> rs_sock := XskSocket_recycle ?s4 a, rs_pipe := p2,
      rs_stats := (if q then count_tx (rs_stats st) else count_dropped (rs_stats st)) \<rparr>)"
    by (simp add: run_encap_def s1 f s2(1) q [symmetric])
  have "xsk_keeps held fs (rs_sock st) (XskSocket_recycle ?s4 a)"
    using xsk_alloc_keeps [OF s1] xsk_write_keeps [where L = "add_mset a L" and held = held, OF s2(3,4)] i4(2) xsk_recycle_keeps
    by (blast intro: xsk_keeps_trans)
  then show ?thesis using run xsk_recycle [OF i4(1)] s2(5) by auto
qed

lemma run_decap_ok:
  assumes inv: "xsk_inv held n fs (rs_sock st) (add_mset a L)" and p: "pipeline_inv (rs_pipe st)" and "l \<le> fs"
  shows "\<exists>st'. run_decap now st a l = Some st' \<and> xsk_inv held n fs (rs_sock st') L \<and> pipeline_inv (rs_pipe st') \<and>
    rt_rx (rs_stats st') = rt_rx (rs_stats st) \<and> xsk_keeps held fs (rs_sock st) (rs_sock st')"
proof (cases "snd (XskSocket_alloc_tx (rs_sock st))")
  case None
  then show ?thesis
    using xsk_recycle [OF inv] p by (auto simp: run_decap_def xsk_recycle_keeps split: prod.split)
next
  case (Some tx)
  then obtain s1 where s1: "XskSocket_alloc_tx (rs_sock st) = (s1, Some tx)" by (metis prod.collapse)
  note i1 = xsk_alloc(1) [OF inv s1]
  have f: "XskSocket_frame s1 a l = Some (take (unat l) (xsk_bytes s1 a))" using xsk_frame [OF i1 _ assms(3)] by simp
  let ?h = "\<lambda>out. Pipeline_on_underlay_frame (rs_pipe st) (take (unat l) (xsk_bytes s1 a)) out now"
  have hh: "\<And>out. \<exists>r. ?h out = Some r \<and> handled (rs_pipe st) out r" by (rule underlay_handled [OF p])
  obtain s2 p2 d where s2: "into_frame s1 tx ?h = Some (s2, p2, d)" "xsk_inv held n fs s2 (add_mset tx (add_mset a L))"
    "xs_kernel s2 = xs_kernel s1" "umem_keeps fs (held (xs_kernel s1) + add_mset a L) (xs_area s1) (xs_area s2)"
    "pipeline_inv p2" "\<And>m. d = Forward m \<Longrightarrow> m \<le> unat fs"
    by (rule into_frame_ok [OF i1 hh]) blast
  have out: "XskSocket_frame s2 tx (of_nat m) = Some (take (unat (of_nat m :: u32)) (xsk_bytes s2 tx))" if "d = Forward m" for m
    using xsk_frame [OF s2(2) _ of_nat_le_frame(2) [OF s2(6) [OF that]]] by simp
  obtain line where line: "\<And>f seq. print_frame f seq = Some (line f seq)" using print_frame_total by metis
  have run: "\<exists>st'. run_decap now st a l = Some st' \<and> rs_sock st' = XskSocket_recycle (XskSocket_recycle s2 tx) a \<and> rs_pipe st' = p2 \<and>
      rt_rx (rs_stats st') = rt_rx (rs_stats st)"
    by (cases d) (auto simp: run_decap_def s1 f s2(1) Let_def count_decapped_def out line)
  have "xsk_keeps held fs (rs_sock st) (XskSocket_recycle (XskSocket_recycle s2 tx) a)"
    using xsk_alloc_keeps [OF s1] xsk_write_keeps [where L = "add_mset a L" and held = held, OF s2(3,4)] xsk_recycle_keeps
    by (blast intro: xsk_keeps_trans)
  then show ?thesis using run xsk_recycle [OF xsk_recycle [OF s2(2)]] s2(5) by auto
qed

interpretation run_body: frame_body "run_frame api mode now" "run_inv api held n fs mode"
  "\<lambda>st st'. xsk_keeps held fs (rs_sock st) (rs_sock st')" fs rs_stats
  for api held n fs mode now
proof
  fix st a L l fab
  assume "run_inv api held n fs mode st (add_mset a L)" and l: "l \<le> fs"
  then have c: "xdp_contract api held n fs" and inv: "xsk_inv held n fs (rs_sock st) (add_mset a L)" and p: "pipeline_inv (rs_pipe st)"
    and e: "mode = Encap \<longrightarrow> rt_rx (rs_stats st) = rt_tx (rs_stats st) + rt_dropped (rs_stats st)"
    by (simp_all add: run_inv_def)
  let ?st = "st \<lparr> rs_stats := count_rx l (rs_stats st), rs_pipe := see_fabric fab (rs_pipe st) \<rparr>"
  have inv': "xsk_inv held n fs (rs_sock ?st) (add_mset a L)" and p': "pipeline_inv (rs_pipe ?st)" using inv p by simp_all
  show "\<exists>st'. run_frame api mode now st (fab, a, l) = Some st' \<and> run_inv api held n fs mode st' L \<and>
      xsk_keeps held fs (rs_sock st) (rs_sock st') \<and> rt_rx (rs_stats st') = rt_rx (rs_stats st) + 1"
  proof (cases mode)
    case Dump
    then show ?thesis
      using run_dump_ok [OF inv' l] c p' by (auto simp: run_frame_def run_inv_def count_rx_def)
  next
    case Encap
    then show ?thesis
      using run_encap_ok [OF c inv' p' l, of now] c e
      by (auto simp: run_frame_def run_inv_def count_defs)
  next
    case Decap
    then show ?thesis
      using run_decap_ok [OF inv' p' l, of now] c by (auto simp: run_frame_def run_inv_def count_rx_def)
  qed
qed (auto intro: xsk_keeps_trans)

section \<open>Two sockets\<close>

text \<open>Both sockets are opened with one configuration, so they have frames of one size.\<close>

definition switch_inv ::
    "'k xdp_api \<Rightarrow> ('k \<Rightarrow> u64 multiset) \<Rightarrow> u32 \<Rightarrow> u32 \<Rightarrow> 'k switch_state \<Rightarrow> u64 multiset \<Rightarrow> u64 multiset \<Rightarrow> bool" where
  "switch_inv api held n fs st LT LU \<longleftrightarrow>
     xdp_contract api held n fs \<and> xsk_inv held n fs (sw_tenant st) LT \<and> xsk_inv held n fs (sw_underlay st) LU \<and>
     pipeline_inv (sw_pipe st) \<and> rt_rx (sw_stats st) = rt_tx (sw_stats st) + rt_dropped (sw_stats st)"

definition switch_keeps :: "('k \<Rightarrow> u64 multiset) \<Rightarrow> u32 \<Rightarrow> 'k switch_state \<Rightarrow> 'k switch_state \<Rightarrow> bool" where
  "switch_keeps held fs st st' \<longleftrightarrow>
     xsk_keeps held fs (sw_tenant st) (sw_tenant st') \<and> xsk_keeps held fs (sw_underlay st) (sw_underlay st')"

lemma switch_keeps_trans: "switch_keeps held fs s s' \<Longrightarrow> switch_keeps held fs s' s'' \<Longrightarrow> switch_keeps held fs s s''"
  unfolding switch_keeps_def by (blast intro: xsk_keeps_trans)

text \<open>The common shape of the two directions: a received frame of one socket is handled into a frame
  of the other.\<close>

lemma handle_across:
  assumes inv: "xsk_inv held n fs s LT" "a \<in># LT" "l \<le> fs" and out: "xsk_inv held n fs o' {#}"
    and alloc: "XskSocket_alloc_tx o' = (o1, Some tx)" and p: "pipeline_inv p"
    and h: "\<And>frame out. \<exists>r. h p frame out now = Some r \<and> handled p out r"
  obtains o2 p2 d where "XskSocket_frame s a l = Some (take (unat l) (xsk_bytes s a))"
    "into_frame o1 tx (\<lambda>out. h p (take (unat l) (xsk_bytes s a)) out now) = Some (o2, p2, d)"
    "xsk_inv held n fs o2 {#tx#}" "xsk_keeps held fs o' o2" "pipeline_inv p2"
    "h p (take (unat l) (xsk_bytes s a)) (xsk_bytes o1 tx) now = Some (p2, xsk_bytes o2 tx, d)"
    "\<And>m. d = Forward m \<or> d = Reply m \<Longrightarrow> m \<le> unat fs"
proof -
  note i1 = xsk_alloc(1) [OF out alloc]
  have hh: "\<And>out. \<exists>r. h p (take (unat l) (xsk_bytes s a)) out now = Some r \<and> handled p out r" by (rule h)
  obtain o2 p2 d where o2: "into_frame o1 tx (\<lambda>out. h p (take (unat l) (xsk_bytes s a)) out now) = Some (o2, p2, d)"
    "xsk_inv held n fs o2 {#tx#}" "xs_kernel o2 = xs_kernel o1" "umem_keeps fs (held (xs_kernel o1) + {#}) (xs_area o1) (xs_area o2)"
    "pipeline_inv p2" "h p (take (unat l) (xsk_bytes s a)) (xsk_bytes o1 tx) now = Some (p2, xsk_bytes o2 tx, d)"
    "\<And>m. d = Forward m \<or> d = Reply m \<Longrightarrow> m \<le> unat fs"
    by (rule into_frame_ok [OF i1 hh]) blast
  have "xsk_keeps held fs o' o2"
    using xsk_alloc_keeps [OF alloc] xsk_write_keeps [where L = "{#}" and held = held, OF o2(3,4)] by (rule xsk_keeps_trans)
  then show thesis using that xsk_frame [OF inv] o2 by blast
qed

lemma switch_reply_ok:
  assumes c: "xdp_contract api held n fs" and t: "xsk_inv held n fs (sw_tenant st) L" and u: "xsk_inv held n fs (sw_underlay st) {#tx#}"
    and m: "m \<le> unat fs"
  shows "\<exists>st'. switch_reply api st tx m = Some st' \<and> xsk_inv held n fs (sw_tenant st') L \<and>
    xsk_inv held n fs (sw_underlay st') {#} \<and> sw_pipe st' = sw_pipe st \<and>
    (sw_stats st' = count_tx (sw_stats st) \<or> sw_stats st' = count_dropped (sw_stats st)) \<and> switch_keeps held fs st st'"
proof -
  have f: "XskSocket_frame (sw_underlay st) tx (of_nat m) = Some (take m (xsk_bytes (sw_underlay st) tx))"
    using xsk_frame [OF u _ of_nat_le_frame(2) [OF m]] of_nat_le_frame(1) [OF m] by simp
  have len: "length (take m (xsk_bytes (sw_underlay st) tx)) = m" using length_xsk_bytes [OF u, of tx] m by simp
  note ur = xsk_recycle [OF u]
  show ?thesis
  proof (cases "snd (XskSocket_alloc_tx (sw_tenant st))")
    case None
    then obtain s1 where s1: "XskSocket_alloc_tx (sw_tenant st) = (s1, None)" by (metis prod.collapse)
    then show ?thesis
      using t ur by (simp add: switch_reply_def f switch_keeps_def xsk_recycle_keeps)
  next
    case (Some ta)
    then obtain s1 where s1: "XskSocket_alloc_tx (sw_tenant st) = (s1, Some ta)" by (metis prod.collapse)
    note i1 = xsk_alloc(1) [OF t s1]
    let ?w = "\<lambda>b. do { b \<leftarrow> put b 0 m (take m (xsk_bytes (sw_underlay st) tx)); Some (b, ()) }"
    have fl: "length (xsk_bytes s1 ta) = unat fs" using length_xsk_bytes [OF i1, of ta] by simp
    then have w: "?w (xsk_bytes s1 ta) = Some (patch (xsk_bytes s1 ta) 0 (take m (xsk_bytes (sw_underlay st) tx)), ())"
      using len m by (simp add: put_def)
    have pl: "length (patch (xsk_bytes s1 ta) 0 (take m (xsk_bytes (sw_underlay st) tx))) = unat fs"
      using fl len m by simp
    obtain s2 where s2: "XskSocket_frame_mut s1 ta ?w = Some (s2, ())" "xsk_inv held n fs s2 (add_mset ta L)"
      "xs_kernel s2 = xs_kernel s1" "umem_keeps fs (held (xs_kernel s1) + L) (xs_area s1) (xs_area s2)"
      by (rule xsk_frame_mut [where f = ?w, OF i1 w pl])
    obtain s3 q where q: "(s3, q) = XskSocket_tx_one api s2 ta (of_nat m)" by (metis surj_pair)
    note i4 = xsk_queue [OF c s2(2) disjI1 [OF q]]
    have "xsk_keeps held fs (sw_tenant st) (if q then s3 else XskSocket_recycle s3 ta)"
      using xsk_alloc_keeps [OF s1] xsk_write_keeps [where L = L and held = held, OF s2(3,4)] i4(2)
      by (blast intro: xsk_keeps_trans)
    then show ?thesis
      using i4(1) ur by (auto simp: switch_reply_def f s1 s2(1) q [symmetric] switch_keeps_def xsk_recycle_keeps Let_def)
  qed
qed

interpretation egress: frame_body "switch_egress api now" "\<lambda>st L. switch_inv api held n fs st L {#}"
  "switch_keeps held fs" fs sw_stats
  for api held n fs now
proof
  fix st a L l fab
  assume "switch_inv api held n fs st (add_mset a L) {#}" and l: "l \<le> fs"
  then have c: "xdp_contract api held n fs" and t: "xsk_inv held n fs (sw_tenant st) (add_mset a L)"
    and u: "xsk_inv held n fs (sw_underlay st) {#}" and p: "pipeline_inv (see_fabric fab (sw_pipe st))"
    and e: "rt_rx (sw_stats st) = rt_tx (sw_stats st) + rt_dropped (sw_stats st)"
    by (simp_all add: switch_inv_def)
  let ?st = "st \<lparr> sw_stats := count_rx l (sw_stats st), sw_pipe := see_fabric fab (sw_pipe st) \<rparr>"
  note tr = xsk_recycle [OF t]
  have "\<exists>st'. switch_egress api now st (fab, a, l) = Some (st' \<lparr> sw_tenant := XskSocket_recycle (sw_tenant st') a \<rparr>) \<and>
      xsk_inv held n fs (sw_tenant st') (add_mset a L) \<and> xsk_inv held n fs (sw_underlay st') {#} \<and> pipeline_inv (sw_pipe st') \<and>
      (sw_stats st' = count_tx (sw_stats ?st) \<or> sw_stats st' = count_dropped (sw_stats ?st)) \<and> switch_keeps held fs st st'"
  proof (cases "snd (XskSocket_alloc_tx (sw_underlay st))")
    case None
    then obtain o1 where "XskSocket_alloc_tx (sw_underlay st) = (o1, None)" by (metis prod.collapse)
    then show ?thesis
      using t u p
      by (intro exI [of _ "?st \<lparr> sw_stats := count_dropped (sw_stats ?st) \<rparr>"]) (simp add: switch_egress_def switch_keeps_def)
  next
    case (Some tx)
    then obtain o1 where o1: "XskSocket_alloc_tx (sw_underlay st) = (o1, Some tx)" by (metis prod.collapse)
    have aL: "a \<in># add_mset a L" by simp
    obtain o2 p2 d where o2: "XskSocket_frame (sw_tenant st) a l = Some (take (unat l) (xsk_bytes (sw_tenant st) a))"
      "into_frame o1 tx (\<lambda>out. Pipeline_on_tenant_frame (see_fabric fab (sw_pipe st)) (take (unat l) (xsk_bytes (sw_tenant st) a)) out now) = Some (o2, p2, d)"
      "xsk_inv held n fs o2 {#tx#}" "xsk_keeps held fs (sw_underlay st) o2" "pipeline_inv p2"
      "\<And>m. d = Forward m \<or> d = Reply m \<Longrightarrow> m \<le> unat fs"
      by (rule handle_across [where h = Pipeline_on_tenant_frame, OF t aL l u o1 p tenant_handled [OF p]]) blast
    let ?s2 = "?st \<lparr> sw_underlay := o2, sw_pipe := p2 \<rparr>"
    show ?thesis
    proof (cases "\<exists>m. d = Reply m")
      case True
      then obtain m where m: "d = Reply m" by blast
      have "xsk_inv held n fs (sw_tenant ?s2) (add_mset a L)" "xsk_inv held n fs (sw_underlay ?s2) {#tx#}" "m \<le> unat fs"
        using t o2(3,6) m by simp_all
      from switch_reply_ok [OF c this] obtain st' where "switch_reply api ?s2 tx m = Some st'"
        "xsk_inv held n fs (sw_tenant st') (add_mset a L)" "xsk_inv held n fs (sw_underlay st') {#}" "sw_pipe st' = sw_pipe ?s2"
        "sw_stats st' = count_tx (sw_stats ?s2) \<or> sw_stats st' = count_dropped (sw_stats ?s2)" "switch_keeps held fs ?s2 st'"
        by blast
      moreover have "switch_keeps held fs st ?s2" using o2(4) by (simp add: switch_keeps_def)
      ultimately show ?thesis
        using o2(5) switch_keeps_trans by (intro exI [of _ st']) (auto simp: switch_egress_def o1 o2(1,2) m)
    next
      case False
      obtain o3 q where q: "(o3, q) = (case d of Forward m \<Rightarrow> XskSocket_tx_one api o2 tx (of_nat m) | _ \<Rightarrow> (o2, False))"
        by (metis surj_pair)
      then have "(o3, q) = XskSocket_tx_one api o2 tx (case d of Forward m \<Rightarrow> of_nat m | _ \<Rightarrow> 0) \<or> (o3, q) = (o2, False)"
        by (auto split: decision.splits)
      note i4 = xsk_queue [OF c o2(3) this]
      have "xsk_keeps held fs (sw_underlay st) (if q then o3 else XskSocket_recycle o3 tx)"
        using o2(4) i4(2) by (rule xsk_keeps_trans)
      moreover have "switch_egress api now st (fab, a, l) =
          (let st' = ?s2 \<lparr> sw_underlay := (if q then o3 else XskSocket_recycle o3 tx),
             sw_stats := (if q then count_tx (sw_stats ?st) else count_dropped (sw_stats ?st)) \<rparr>
           in Some (st' \<lparr> sw_tenant := XskSocket_recycle (sw_tenant st') a \<rparr>))"
        using False q by (cases d) (auto simp: switch_egress_def o1 o2(1,2) Let_def split: prod.splits)
      ultimately show ?thesis
        using i4(1) t o2(5) unfolding Let_def
        by (intro exI [of _ "?s2 \<lparr> sw_underlay := (if q then o3 else XskSocket_recycle o3 tx),
             sw_stats := (if q then count_tx (sw_stats ?st) else count_dropped (sw_stats ?st)) \<rparr>"])
          (auto simp: switch_keeps_def)
    qed
  qed
  then obtain st' where st': "switch_egress api now st (fab, a, l) = Some (st' \<lparr> sw_tenant := XskSocket_recycle (sw_tenant st') a \<rparr>)"
      "xsk_inv held n fs (sw_tenant st') (add_mset a L)" "xsk_inv held n fs (sw_underlay st') {#}" "pipeline_inv (sw_pipe st')"
      "sw_stats st' = count_tx (sw_stats ?st) \<or> sw_stats st' = count_dropped (sw_stats ?st)" "switch_keeps held fs st st'"
    by blast
  moreover have "switch_keeps held fs st (st' \<lparr> sw_tenant := XskSocket_recycle (sw_tenant st') a \<rparr>)"
    using st'(6) xsk_recycle_keeps xsk_keeps_trans by (fastforce simp: switch_keeps_def)
  ultimately show "\<exists>st'. switch_egress api now st (fab, a, l) = Some st' \<and> switch_inv api held n fs st' L {#} \<and>
      switch_keeps held fs st st' \<and> rt_rx (sw_stats st') = rt_rx (sw_stats st) + 1"
    using c e xsk_recycle [OF st'(2)] by (auto simp: switch_inv_def count_defs)
qed (auto intro: xsk_keeps_trans simp: switch_keeps_def)

interpretation ingress: frame_body "switch_ingress api now" "\<lambda>st L. switch_inv api held n fs st {#} L"
  "switch_keeps held fs" fs sw_stats
  for api held n fs now
proof
  fix st a L l fab
  assume "switch_inv api held n fs st {#} (add_mset a L)" and l: "l \<le> fs"
  then have c: "xdp_contract api held n fs" and u: "xsk_inv held n fs (sw_underlay st) (add_mset a L)"
    and t: "xsk_inv held n fs (sw_tenant st) {#}" and p: "pipeline_inv (see_fabric fab (sw_pipe st))"
    and e: "rt_rx (sw_stats st) = rt_tx (sw_stats st) + rt_dropped (sw_stats st)"
    by (simp_all add: switch_inv_def)
  note ur = xsk_recycle [OF u]
  let ?st = "st \<lparr> sw_stats := count_rx l (sw_stats st), sw_pipe := see_fabric fab (sw_pipe st) \<rparr>"
  show "\<exists>st'. switch_ingress api now st (fab, a, l) = Some st' \<and> switch_inv api held n fs st' {#} L \<and>
      switch_keeps held fs st st' \<and> rt_rx (sw_stats st') = rt_rx (sw_stats st) + 1"
  proof (cases "snd (XskSocket_alloc_tx (sw_tenant st))")
    case None
    then obtain o1 where "XskSocket_alloc_tx (sw_tenant st) = (o1, None)" by (metis prod.collapse)
    then show ?thesis
      using t p c e ur by (simp add: switch_ingress_def switch_keeps_def switch_inv_def xsk_recycle_keeps count_defs)
  next
    case (Some tx)
    then obtain o1 where o1: "XskSocket_alloc_tx (sw_tenant st) = (o1, Some tx)" by (metis prod.collapse)
    have aL: "a \<in># add_mset a L" by simp
    obtain o2 p2 d where o2: "XskSocket_frame (sw_underlay st) a l = Some (take (unat l) (xsk_bytes (sw_underlay st) a))"
      "into_frame o1 tx (\<lambda>out. Pipeline_on_underlay_frame (see_fabric fab (sw_pipe st)) (take (unat l) (xsk_bytes (sw_underlay st) a)) out now) = Some (o2, p2, d)"
      "xsk_inv held n fs o2 {#tx#}" "xsk_keeps held fs (sw_tenant st) o2" "pipeline_inv p2"
      by (rule handle_across [where h = Pipeline_on_underlay_frame, OF u aL l t o1 p underlay_handled [OF p]]) blast
    obtain o3 q where q: "(o3, q) = (case d of Forward m \<Rightarrow> XskSocket_tx_one api o2 tx (of_nat m) | _ \<Rightarrow> (o2, False))"
      by (metis surj_pair)
    then have "(o3, q) = XskSocket_tx_one api o2 tx (case d of Forward m \<Rightarrow> of_nat m | _ \<Rightarrow> 0) \<or> (o3, q) = (o2, False)"
      by (auto split: decision.splits)
    note i4 = xsk_queue [OF c o2(3) this]
    let ?st' = "?st \<lparr> sw_pipe := p2, sw_tenant := (if q then o3 else XskSocket_recycle o3 tx),
      sw_stats := (if q then count_decapped (count_tx (sw_stats ?st)) else count_dropped (sw_stats ?st)),
      sw_underlay := XskSocket_recycle (sw_underlay st) a \<rparr>"
    have "switch_ingress api now st (fab, a, l) = Some ?st'"
      by (simp add: switch_ingress_def o1 o2(1,2) q [symmetric])
    moreover have "xsk_keeps held fs (sw_tenant st) (if q then o3 else XskSocket_recycle o3 tx)"
      using o2(4) i4(2) by (rule xsk_keeps_trans)
    ultimately show ?thesis
      using i4(1) ur o2(5) c e by (simp add: switch_inv_def switch_keeps_def xsk_recycle_keeps count_defs)
  qed
qed (auto intro: xsk_keeps_trans simp: switch_keeps_def)

section \<open>The loops\<close>

text \<open>An iteration that keeps an invariant is a loop that runs for any number of observations, and
  that ends at the first one that stops it.\<close>

locale stoppable_loop =
  fixes iter :: "tick \<Rightarrow> 's \<Rightarrow> 's option" and inv :: "'s \<Rightarrow> bool" and counters :: "'s \<Rightarrow> run_stats"
  assumes iter_ok: "inv s \<Longrightarrow> \<exists>s'. iter t s = Some s' \<and> inv s'"
begin

lemma loop_total:
  assumes "inv s"
  shows "\<exists>r. loop_until counters iter opts s ts = Some r \<and>
    (case r of Inl s' \<Rightarrow> inv s' \<and> \<not> list_ex tk_stop ts | Inr s' \<Rightarrow> inv s' \<and> list_ex (loop_stops opts (counters s')) ts)"
  using assms
proof (induction ts arbitrary: s)
  case (Cons t ts)
  show ?case
  proof (cases "loop_stops opts (counters s) t")
    case False
    obtain s1 where s1: "iter t s = Some s1" "inv s1" using iter_ok [OF Cons.prems] by blast
    from Cons.IH [OF s1(2)] obtain r where r: "loop_until counters iter opts s1 ts = Some r"
      "case r of Inl s' \<Rightarrow> inv s' \<and> \<not> list_ex tk_stop ts | Inr s' \<Rightarrow> inv s' \<and> list_ex (loop_stops opts (counters s')) ts" by blast
    have "\<not> tk_stop t" using False by (simp add: loop_stops_def)
    then show ?thesis using r s1 False by (cases r) auto
  qed (use Cons.prems in simp)
qed simp

end

lemma loop_gc_ok: "pipeline_inv p \<Longrightarrow> \<exists>p' g. loop_gc t p gc_at = Some (p', g) \<and> pipeline_inv p'"
  using Pipeline_gc_ok [of p "as_millis (tk_gc_arg t)" NAT_IDLE_TIMEOUT_MS] by (auto simp: loop_gc_def)

lemma xsk_settle:
  assumes "xdp_contract api held n fs" and "xsk_inv held n fs s L"
  shows "\<exists>s' m. XskSocket_complete_tx api s limit = Some (s', m) \<and> xsk_inv held n fs (fst (XskSocket_refill api s' want)) L"
  using xsk_complete [OF assms] xsk_refill [OF assms(1)] by blast

interpretation run_loop: stoppable_loop "run_iter api opts" "\<lambda>st. run_inv api held n fs (ro_mode opts) st {#}" rs_stats
  for api opts held n fs
proof
  fix st t
  assume inv: "run_inv api held n fs (ro_mode opts) st {#}"
  then have c: "xdp_contract api held n fs" and p: "pipeline_inv (rs_pipe st)" by (simp_all add: run_inv_def)
  obtain p' g where g: "loop_gc t (rs_pipe st) (rs_gc_at st) = Some (p', g)" "pipeline_inv p'" using loop_gc_ok [OF p] by blast
  let ?batch = "max (ro_batch opts) 1" and ?st = "st \<lparr> rs_pipe := p', rs_gc_at := g \<rparr>"
  let ?poll = "if tk_poll t \<le> 0 then Some ?st
     else do {
       (sock, ds) \<leftarrow> XskSocket_rx_burst api (rs_sock ?st) (unat ?batch);
       st \<leftarrow> burst_loop (run_frame api (ro_mode opts) (as_millis (tk_now t))) (?st \<lparr> rs_sock := sock \<rparr>) (burst_items (tk_fabric t) ds);
       Some (st \<lparr> rs_sock := XskSocket_kick_tx_if_needed api (rs_sock st) \<rparr>) }"
  have i1: "run_inv api held n fs (ro_mode opts) ?st {#}" using inv g(2) by (simp add: run_inv_def)
  have "\<exists>st2. ?poll = Some st2 \<and> run_inv api held n fs (ro_mode opts) st2 {#}"
  proof (cases "tk_poll t \<le> 0")
    case False
    have "xsk_inv held n fs (rs_sock ?st) {#}" using i1 by (simp add: run_inv_def)
    then obtain s2 ds where s2: "XskSocket_rx_burst api (rs_sock ?st) (unat ?batch) = Some (s2, ds)"
      "xsk_inv held n fs s2 (mset (map fst ds) + {#})" "list_all (\<lambda>(a, l). l \<le> fs) ds" by (rule xsk_rx_burst [OF c])
    then have "run_inv api held n fs (ro_mode opts) (?st \<lparr> rs_sock := s2 \<rparr>) (mset (map fst ds) + {#})"
      using i1 by (simp add: run_inv_def)
    from run_body.burst_items_ok [OF this s2(3), of "as_millis (tk_now t)" "tk_fabric t"] obtain st3 where
      "burst_loop (run_frame api (ro_mode opts) (as_millis (tk_now t))) (?st \<lparr> rs_sock := s2 \<rparr>) (burst_items (tk_fabric t) ds) = Some st3"
      "run_inv api held n fs (ro_mode opts) st3 {#}" by blast
    then show ?thesis using False s2(1) xsk_kick [OF c] by (auto simp: run_inv_def)
  qed (use i1 in simp)
  then obtain st2 where st2: "?poll = Some st2" "run_inv api held n fs (ro_mode opts) st2 {#}" by blast
  then have "xsk_inv held n fs (rs_sock st2) {#}" by (simp add: run_inv_def)
  from xsk_settle [OF c this, of ?batch ?batch] obtain s' m where
    "XskSocket_complete_tx api (rs_sock st2) ?batch = Some (s', m)" "xsk_inv held n fs (fst (XskSocket_refill api s' ?batch)) {#}" by blast
  then show "\<exists>st'. run_iter api opts t st = Some st' \<and> run_inv api held n fs (ro_mode opts) st' {#}"
    using st2 unfolding run_iter_def Let_def g by (simp add: st2(1) run_inv_def)
qed

interpretation switch_loop: stoppable_loop "switch_iter api opts" "\<lambda>st. switch_inv api held n fs st {#} {#}" sw_stats
  for api opts held n fs
proof
  fix st t
  assume inv: "switch_inv api held n fs st {#} {#}"
  then have c: "xdp_contract api held n fs" and p: "pipeline_inv (sw_pipe st)" by (simp_all add: switch_inv_def)
  obtain p' g where g: "loop_gc t (sw_pipe st) (sw_report_at st) = Some (p', g)" "pipeline_inv p'" using loop_gc_ok [OF p] by blast
  let ?batch = "max (ro_batch opts) 1" and ?now = "as_millis (tk_now t)"
  let ?st = "st \<lparr> sw_pipe := p', sw_report_at := g \<rparr>"
  let ?up = "if 0 < tk_poll t \<and> fst (tk_ready t) then do {
       (tenant, ds) \<leftarrow> XskSocket_rx_burst api (sw_tenant ?st) (unat ?batch);
       burst_loop (switch_egress api ?now) (?st \<lparr> sw_tenant := tenant \<rparr>) (burst_items (tk_fabric t) ds) }
     else Some ?st"
  have i1: "switch_inv api held n fs ?st {#} {#}" using inv g(2) by (simp add: switch_inv_def)
  have "\<exists>st2. ?up = Some st2 \<and> switch_inv api held n fs st2 {#} {#}"
  proof (cases "0 < tk_poll t \<and> fst (tk_ready t)")
    case True
    have "xsk_inv held n fs (sw_tenant ?st) {#}" using i1 by (simp add: switch_inv_def)
    then obtain s2 ds where s2: "XskSocket_rx_burst api (sw_tenant ?st) (unat ?batch) = Some (s2, ds)"
      "xsk_inv held n fs s2 (mset (map fst ds) + {#})" "list_all (\<lambda>(a, l). l \<le> fs) ds" by (rule xsk_rx_burst [OF c])
    then have "switch_inv api held n fs (?st \<lparr> sw_tenant := s2 \<rparr>) (mset (map fst ds) + {#}) {#}"
      using i1 by (simp add: switch_inv_def)
    from egress.burst_items_ok [OF this s2(3), of ?now "tk_fabric t"] show ?thesis using True s2(1) by auto
  qed (use i1 in auto)
  then obtain st2 where st2: "?up = Some st2" "switch_inv api held n fs st2 {#} {#}" by blast
  let ?down = "if 0 < tk_poll t \<and> snd (tk_ready t) then do {
       (underlay, ds) \<leftarrow> XskSocket_rx_burst api (sw_underlay st2) (unat ?batch);
       burst_loop (switch_ingress api ?now) (st2 \<lparr> sw_underlay := underlay \<rparr>) (burst_items (tk_fabric2 t) ds) }
     else Some st2"
  have "\<exists>st3. ?down = Some st3 \<and> switch_inv api held n fs st3 {#} {#}"
  proof (cases "0 < tk_poll t \<and> snd (tk_ready t)")
    case True
    have "xsk_inv held n fs (sw_underlay st2) {#}" using st2(2) by (simp add: switch_inv_def)
    then obtain s2 ds where s2: "XskSocket_rx_burst api (sw_underlay st2) (unat ?batch) = Some (s2, ds)"
      "xsk_inv held n fs s2 (mset (map fst ds) + {#})" "list_all (\<lambda>(a, l). l \<le> fs) ds" by (rule xsk_rx_burst [OF c])
    then have "switch_inv api held n fs (st2 \<lparr> sw_underlay := s2 \<rparr>) {#} (mset (map fst ds) + {#})"
      using st2(2) by (simp add: switch_inv_def)
    from ingress.burst_items_ok [OF this s2(3), of ?now "tk_fabric2 t"] show ?thesis using True s2(1) by auto
  qed (use st2(2) in auto)
  then obtain st3 where st3: "?down = Some st3" "switch_inv api held n fs st3 {#} {#}" by blast
  then have "xsk_inv held n fs (XskSocket_kick_tx_if_needed api (sw_underlay st3)) {#}"
      "xsk_inv held n fs (XskSocket_kick_tx_if_needed api (sw_tenant st3)) {#}"
    using xsk_kick [OF c] by (simp_all add: switch_inv_def)
  from xsk_settle [OF c this(1), of ?batch ?batch] xsk_settle [OF c this(2), of ?batch ?batch] obtain u m t' k where
    "XskSocket_complete_tx api (XskSocket_kick_tx_if_needed api (sw_underlay st3)) ?batch = Some (u, m)"
    "xsk_inv held n fs (fst (XskSocket_refill api u ?batch)) {#}"
    "XskSocket_complete_tx api (XskSocket_kick_tx_if_needed api (sw_tenant st3)) ?batch = Some (t', k)"
    "xsk_inv held n fs (fst (XskSocket_refill api t' ?batch)) {#}" by blast
  then show "\<exists>st'. switch_iter api opts t st = Some st' \<and> switch_inv api held n fs st' {#} {#}"
    using st3(2) unfolding switch_iter_def Let_def g by (simp add: st2(1) st3(1) switch_inv_def)
qed

end
