(* ===== verification/Afxdp_Props.thy ===== *)
theory Afxdp_Props
  imports Afxdp_Loops Pipeline_Props
begin

text \<open>
  Properties of the forwarding loops: safety and ownership of the frames over any kernel that
  meets its contract, what is transmitted, and that the loops end. A simulated kernel
  shows that the contract can be met.
\<close>

section \<open>Opening a socket\<close>

text \<open>A new socket of the kernel holds no frame.\<close>

definition fresh_kernel :: "'k xdp_api \<Rightarrow> ('k \<Rightarrow> u64 multiset) \<Rightarrow> xsk_config \<Rightarrow> bool" where
  "fresh_kernel api held cfg \<longleftrightarrow> (\<forall>ifname q k fd zc. xk_create api ifname q cfg = Inr (k, fd, zc) \<longrightarrow> held k = {#})"

lemma XskSocket_open_inv:
  assumes "xdp_contract api held (xc_n_frames cfg) (xc_frame_size cfg)" and "fresh_kernel api held cfg"
    and "XskSocket_open api ifname q cfg = Inr s"
  shows "xsk_inv held (xc_n_frames cfg) (xc_frame_size cfg) s {#}"
proof -
  obtain k fd zc where k: "xc_frame_size cfg \<noteq> 0" "xk_create api ifname q cfg = Inr (k, fd, zc)"
    using assms(3) by (auto simp: XskSocket_open_def split: if_splits sum.splits)
  let ?s = "\<lparr> xs_kernel = k, xs_n_frames = xc_n_frames cfg,
    xs_area = replicate (unat (xc_n_frames cfg) * unat (xc_frame_size cfg)) 0,
    xs_frame_size = xc_frame_size cfg, xs_fd = fd, xs_zerocopy = zc,
    xs_free = umem_frames (xc_n_frames cfg) (xc_frame_size cfg) \<rparr>"
  have "held k = {#}" using assms(2) k(2) unfolding fresh_kernel_def by blast
  then have "xsk_inv held (xc_n_frames cfg) (xc_frame_size cfg) ?s {#}" using k(1) by (simp add: xsk_inv_def)
  moreover have "s = fst (XskSocket_refill api ?s (xc_fill_size cfg))"
    using assms(3) k by (auto simp: XskSocket_open_def Let_def split: if_splits)
  ultimately show ?thesis using xsk_refill [OF assms(1)] by simp
qed

text \<open>Refilling relies on the FILL ring taking all the addresses or none: if it took only some of
  them, a frame it took would stay in the pool.\<close>

lemma refill_relies_on_all_or_nothing:
  assumes "xs_free s \<noteq> []" and "want \<noteq> 0" and "t = min (unat want) (length (xs_free s))"
    and "xk_fill api (xs_kernel s) (drop (length (xs_free s) - t) (xs_free s)) = (m, k')" and "0 < m" and "m < t"
  shows "xs_free s ! (length (xs_free s) - t) \<in> set (take m (drop (length (xs_free s) - t) (xs_free s)))"
    and "xs_free s ! (length (xs_free s) - t) \<in> set (xs_free (fst (XskSocket_refill api s want)))"
proof -
  let ?n = "length (xs_free s)"
  have t: "t \<le> ?n" "0 < t" using assms by simp_all
  then have "drop (?n - t) (xs_free s) = xs_free s ! (?n - t) # drop (Suc (?n - t)) (xs_free s)"
    by (simp add: Cons_nth_drop_Suc)
  then show "xs_free s ! (?n - t) \<in> set (take m (drop (?n - t) (xs_free s)))" using assms(5) by (cases m) simp_all
  have "xs_free (fst (XskSocket_refill api s want)) = take (?n - m) (xs_free s)"
    using assms t by (simp add: XskSocket_refill_def Let_def)
  moreover have "?n - t < ?n - m" "?n - t < ?n" using t assms(6) by simp_all
  ultimately show "xs_free s ! (?n - t) \<in> set (xs_free (fst (XskSocket_refill api s want)))"
    by (auto simp: in_set_conv_nth intro!: exI [of _ "?n - t"])
qed

section \<open>A kernel that meets the contract\<close>

text \<open>Frames wait on the FILL ring for pending packets, which fit in a frame; what is queued for
  transmission completes at once.\<close>

record sim_kernel =
  sk_fill :: "u64 list"
  sk_pending :: "bytes list"
  sk_tx :: "(u64 \<times> u32) list"

definition sim_held :: "sim_kernel \<Rightarrow> u64 multiset" where
  "sim_held k = mset (sk_fill k) + mset (map fst (sk_tx k))"

definition sim_rx :: "u32 \<Rightarrow> sim_kernel \<Rightarrow> bytes \<Rightarrow> nat \<Rightarrow> (u64 \<times> u32) list \<times> sim_kernel \<times> bytes" where
  "sim_rx fs k area limit =
     (case (sk_fill k, sk_pending k) of
        (a # as, pkt # pkts) \<Rightarrow>
          if 0 < limit \<and> length pkt \<le> unat fs
          then ([(a, of_nat (length pkt))], k \<lparr> sk_fill := as, sk_pending := pkts \<rparr>, patch area (unat a) pkt)
          else ([], k, area)
      | _ \<Rightarrow> ([], k, area))"

definition sim_api :: "u32 \<Rightarrow> bytes list \<Rightarrow> sim_kernel xdp_api" where
  "sim_api fs pkts =
     \<lparr> xk_create = (\<lambda>_ _ _. Inr (\<lparr> sk_fill = [], sk_pending = pkts, sk_tx = [] \<rparr>, 3, False)),
       xk_fill = (\<lambda>k addrs. (length addrs, k \<lparr> sk_fill := sk_fill k @ addrs \<rparr>)),
       xk_rx = sim_rx fs,
       xk_tx = (\<lambda>k ds. (length ds, k \<lparr> sk_tx := sk_tx k @ ds \<rparr>)),
       xk_comp = (\<lambda>k limit. (map fst (take limit (sk_tx k)), k \<lparr> sk_tx := drop limit (sk_tx k) \<rparr>)),
       xk_kick = (\<lambda>k. k) \<rparr>"

lemma frame_base_frame: "a \<in> set (umem_frames n fs) \<Longrightarrow> frame_base fs a = a"
  by (auto simp: in_umem_frames word_unat_eq_iff unat_frame_base)

lemma sim_rx_contract:
  assumes fs: "fs \<noteq> 0" and sub: "sim_held k \<subseteq># mset (umem_frames n fs)" and area: "length area = unat n * unat fs"
    and rx: "sim_rx fs k area limit = (ds, k', area')"
  shows "length ds \<le> limit \<and> list_all (\<lambda>(a, l). unat a < unat n * unat fs) ds \<and>
    sim_held k = sim_held k' + mset (map (\<lambda>(a, l). frame_base fs a) ds) \<and>
    umem_keeps fs (mset (umem_frames n fs) - sim_held k) area area'"
proof (cases "ds = []")
  case True
  then show ?thesis using rx by (auto simp: sim_rx_def umem_keeps_def split: list.splits if_splits)
next
  case False
  then obtain a as pkt pkts where f: "sk_fill k = a # as" "sk_pending k = pkt # pkts" "0 < limit" "length pkt \<le> unat fs"
      "ds = [(a, of_nat (length pkt))]" "k' = k \<lparr> sk_fill := as, sk_pending := pkts \<rparr>" "area' = patch area (unat a) pkt"
    using rx by (auto simp: sim_rx_def split: list.splits if_splits)
  have "a \<in># sim_held k" by (simp add: sim_held_def f(1))
  then have a: "a \<in> set (umem_frames n fs)" using sub by (meson mset_subset_eqD set_mset_mset in_multiset_in_set)
  have bound: "unat a + unat fs \<le> length area" using umem_frame_bound [OF a] area by simp
  have "0 < unat fs" using fs by (simp add: unat_gt_0)
  moreover have "umem_keeps fs (mset (umem_frames n fs) - sim_held k) area area'"
    unfolding umem_keeps_def
  proof (intro conjI ballI)
    show "length area' = length area" using bound f(4,7) by simp
    fix b assume b: "b \<in># mset (umem_frames n fs) - sim_held k"
    have "count (mset (umem_frames n fs)) a \<le> 1" using distinct_umem_frames [OF fs, of n] by (simp add: distinct_count_atmost_1)
    moreover have "1 \<le> count (sim_held k) a" using \<open>a \<in># sim_held k\<close> by (simp add: Suc_le_eq)
    ultimately have "count (mset (umem_frames n fs) - sim_held k) a = 0" by (metis count_diff diff_is_0_eq order_trans)
    then have "a \<notin># mset (umem_frames n fs) - sim_held k" by (metis count_eq_zero_iff)
    then have "b \<noteq> a" using b by blast
    moreover have "b \<in> set (umem_frames n fs)" using b by (meson in_diffD in_multiset_in_set)
    ultimately show "take (unat fs) (drop (unat b) area') = take (unat fs) (drop (unat b) area)"
      using umem_frames_apart [OF a, of b] take_drop_patch_apart [OF f(4) bound, of "unat b"] f(7) by auto
  qed
  ultimately show ?thesis
    using f bound area a by (simp add: sim_held_def frame_base_frame)
qed

lemma sim_contract: "fs \<noteq> 0 \<Longrightarrow> xdp_contract (sim_api fs pkts) sim_held n fs"
  unfolding xdp_contract_def
proof (intro conjI allI impI)
  fix k limit addrs k'
  assume "xk_comp (sim_api fs pkts) k limit = (addrs, k')"
  then have "addrs = map fst (take limit (sk_tx k))" "k' = k \<lparr> sk_tx := drop limit (sk_tx k) \<rparr>" by (auto simp: sim_api_def)
  moreover have "mset (map fst (sk_tx k)) = mset (map fst (drop limit (sk_tx k))) + mset (map fst (take limit (sk_tx k)))"
    by (metis append_take_drop_id map_append mset_append union_commute)
  ultimately show "length addrs \<le> limit" "sim_held k = sim_held k' + mset addrs" by (simp_all add: sim_held_def)
qed (auto simp: sim_api_def sim_held_def dest: sim_rx_contract [unfolded sim_held_def])

lemma sim_fresh: "fresh_kernel (sim_api fs pkts) sim_held cfg"
  by (auto simp: fresh_kernel_def sim_api_def sim_held_def)

section \<open>Properties\<close>

text \<open>C13: the one-socket loop is safe and stops. Started with a socket whose frames are all accounted
  for and a reachable pipeline, over any kernel that meets its contract, whatever is
  received, however often the fabric is reloaded and in every mode, the loop never panics
  and never reads or writes outside the UMEM; it ends at the first stop request; every
  frame of the UMEM is afterwards in the pool or with the kernel, exactly once; and in encap
  mode every received frame was transmitted or counted as dropped.\<close>

theorem run_safe:
  assumes "xdp_contract api held n fs" and "xsk_inv held n fs sock {#}" and "pipeline_reachable p"
  shows "\<exists>r. run api sock p opts gc_at ts = Some r \<and>
    (case r of
       Inl st \<Rightarrow> \<not> list_ex tk_stop ts
     | Inr st \<Rightarrow> list_ex (loop_stops opts (rs_stats st)) ts) \<and>
    (let st = (case r of Inl st \<Rightarrow> st | Inr st \<Rightarrow> st) in
       mset (xs_free (rs_sock st)) + held (xs_kernel (rs_sock st)) = mset (umem_frames n fs) \<and>
       distinct (umem_frames n fs) \<and>
       (ro_mode opts = Encap \<longrightarrow> rt_rx (rs_stats st) = rt_tx (rs_stats st) + rt_dropped (rs_stats st)))"
proof -
  let ?st = "\<lparr> rs_sock = sock, rs_pipe = p, rs_stats = RunStats_default, rs_log = [], rs_gc_at = gc_at \<rparr>"
  have "run_inv api held n fs (ro_mode opts) ?st {#}"
    using assms pipeline_reachable_inv by (simp add: run_inv_def RunStats_default_def)
  from run_loop.loop_total [OF this, of opts ts] obtain r where r: "run api sock p opts gc_at ts = Some r"
    "case r of Inl s' \<Rightarrow> run_inv api held n fs (ro_mode opts) s' {#} \<and> \<not> list_ex tk_stop ts
     | Inr s' \<Rightarrow> run_inv api held n fs (ro_mode opts) s' {#} \<and> list_ex (loop_stops opts (rs_stats s')) ts"
    by (auto simp: run_def)
  moreover have "distinct (umem_frames n fs)" using assms(2) by (simp add: xsk_inv_def distinct_umem_frames)
  ultimately show ?thesis by (cases r) (auto simp: run_inv_def xsk_inv_def)
qed

definition sample_xsk :: xsk_config where
  "sample_xsk = XskConfig_default \<lparr> xc_n_frames := 8, xc_fill_size := 4 \<rparr>"

definition sample_opts :: run_opts where
  "sample_opts = \<lparr> ro_mode = Encap, ro_max_packets = None, ro_max_secs = None, ro_batch = 64 \<rparr>"

definition sample_tick :: "bool \<Rightarrow> tick" where
  "sample_tick stop =
     \<lparr> tk_stop = stop, tk_cap = 0, tk_gc_check = 0, tk_gc_arg = 0, tk_gc_reset = 0, tk_poll = 2, tk_ready = (True, True),
       tk_now = 0, tk_fabric = (\<lambda>_. None), tk_fabric2 = (\<lambda>_. None) \<rparr>"

lemma sample_contract: "xdp_contract (sim_api 2048 pkts) sim_held (xc_n_frames sample_xsk) (xc_frame_size sample_xsk)"
  using sim_contract [of 2048 pkts 8] by (simp add: sample_xsk_def XskConfig_default_def)

lemma sample_socket:
  obtains s where "XskSocket_open (sim_api 2048 pkts) ''eth0'' 0 sample_xsk = Inr s"
    "xsk_inv sim_held (xc_n_frames sample_xsk) (xc_frame_size sample_xsk) s {#}"
proof -
  obtain s where s: "XskSocket_open (sim_api 2048 pkts) ''eth0'' 0 sample_xsk = Inr s"
    by (simp add: XskSocket_open_def sample_xsk_def XskConfig_default_def sim_api_def)
  show thesis using that [OF s XskSocket_open_inv [OF sample_contract sim_fresh s]] .
qed

theorem run_safe_witness:
  "\<exists>s p st. XskSocket_open (sim_api 2048 [sample_frame]) ''eth0'' 0 sample_xsk = Inr s \<and> pipeline_reachable p \<and>
     run (sim_api 2048 [sample_frame]) s p sample_opts 0 [sample_tick False, sample_tick True] = Some (Inr st) \<and>
     rt_rx (rs_stats st) = rt_tx (rs_stats st) + rt_dropped (rs_stats st)"
proof -
  obtain s where s: "XskSocket_open (sim_api 2048 [sample_frame]) ''eth0'' 0 sample_xsk = Inr s"
    "xsk_inv sim_held (xc_n_frames sample_xsk) (xc_frame_size sample_xsk) s {#}" by (rule sample_socket)
  obtain eng p where p: "pipeline_reachable p" by (rule sample_pipeline)
  from run_safe [OF sample_contract s(2) p, of "[sample_frame]" sample_opts 0 "[sample_tick False, sample_tick True]"]
  obtain r where r: "run (sim_api 2048 [sample_frame]) s p sample_opts 0 [sample_tick False, sample_tick True] = Some r"
    "case r of Inl st \<Rightarrow> \<not> list_ex tk_stop [sample_tick False, sample_tick True] | Inr st \<Rightarrow> True"
    "let st = (case r of Inl st \<Rightarrow> st | Inr st \<Rightarrow> st) in ro_mode sample_opts = Encap \<longrightarrow>
       rt_rx (rs_stats st) = rt_tx (rs_stats st) + rt_dropped (rs_stats st)"
    by (auto split: sum.splits)
  then show ?thesis using s(1) p by (cases r) (auto simp: sample_tick_def sample_opts_def)
qed

text \<open>C15: a burst on the tenant port leaves the kernel's frames alone. Handling any received frames
  never panics, returns each of them to the pool, and neither takes back nor changes a byte
  of any frame that the kernel holds on either port; each frame is counted once.\<close>

theorem switch_burst_keeps_kernel_frames:
  assumes "switch_inv api held n fs st (mset (map fst ds)) {#}" and "list_all (\<lambda>(a, l). l \<le> fs) ds"
  shows "\<exists>st'. burst_loop (switch_egress api now) st (burst_items fab ds) = Some st' \<and>
    (\<forall>a \<in># held (xs_kernel (sw_tenant st)). a \<in># held (xs_kernel (sw_tenant st')) \<and> xsk_bytes (sw_tenant st') a = xsk_bytes (sw_tenant st) a) \<and>
    (\<forall>a \<in># held (xs_kernel (sw_underlay st)).
       a \<in># held (xs_kernel (sw_underlay st')) \<and> xsk_bytes (sw_underlay st') a = xsk_bytes (sw_underlay st) a) \<and>
    mset (xs_free (sw_tenant st')) + held (xs_kernel (sw_tenant st')) = mset (umem_frames n fs) \<and>
    mset (xs_free (sw_underlay st')) + held (xs_kernel (sw_underlay st')) = mset (umem_frames n fs) \<and>
    rt_rx (sw_stats st') = rt_rx (sw_stats st) + of_nat (length ds)"
proof -
  from egress.burst_items_ok [of api held n fs st ds "{#}" now fab] assms obtain st' where
    st': "burst_loop (switch_egress api now) st (burst_items fab ds) = Some st'" "switch_inv api held n fs st' {#} {#}"
    "switch_keeps held fs st st'" "rt_rx (sw_stats st') = rt_rx (sw_stats st) + of_nat (length ds)" by auto
  have "xs_frame_size (sw_tenant st) = fs" "xs_frame_size (sw_tenant st') = fs"
    "xs_frame_size (sw_underlay st) = fs" "xs_frame_size (sw_underlay st') = fs"
    using assms(1) st'(2) by (simp_all add: switch_inv_def xsk_inv_def)
  with st' show ?thesis
    by (auto simp: switch_keeps_def xsk_keeps_def umem_keeps_def xsk_bytes_def switch_inv_def xsk_inv_def dest: mset_subset_eqD)
qed

text \<open>After opening, the kernel has the last four of eight frames; the pending packet arrives in the
  first of those.\<close>

lemma sample_umem: "umem_frames 8 2048 = [0, 2048, 4096, 6144, 8192, 10240, 12288, 14336]"
  by (simp add: umem_frames_def upt_rec)

lemma unat_of_nat_u32: "n < 2 ^ 32 \<Longrightarrow> unat (of_nat n :: u32) = n"
  by (simp add: unsigned_of_nat take_bit_nat_eq_self)

lemma receive_one:
  assumes "length pkt \<le> 2048"
  obtains s s' where "XskSocket_open (sim_api 2048 [pkt]) ''eth0'' 0 sample_xsk = Inr s"
    "XskSocket_rx_burst (sim_api 2048 [pkt]) s 64 = Some (s', [(8192, of_nat (length pkt))])"
    "xsk_inv sim_held (xc_n_frames sample_xsk) (xc_frame_size sample_xsk) s' {#8192#}"
    "take (length pkt) (xsk_bytes s' 8192) = pkt" "xs_free s = [0, 2048, 4096, 6144]"
proof -
  obtain s where s: "XskSocket_open (sim_api 2048 [pkt]) ''eth0'' 0 sample_xsk = Inr s"
    "xsk_inv sim_held (xc_n_frames sample_xsk) (xc_frame_size sample_xsk) s {#}" by (rule sample_socket)
  have k: "sk_fill (xs_kernel s) = [8192, 10240, 12288, 14336]" "sk_pending (xs_kernel s) = [pkt]"
      "xs_n_frames s = 8" "xs_frame_size s = 2048" "xs_free s = [0, 2048, 4096, 6144]" "xs_area s = replicate 16384 0"
    using s(1) by (auto simp: XskSocket_open_def sample_xsk_def XskConfig_default_def sim_api_def XskSocket_refill_def sample_umem Let_def)
  obtain s' ds where s': "XskSocket_rx_burst (sim_api 2048 [pkt]) s 64 = Some (s', ds)"
    "xsk_inv sim_held (xc_n_frames sample_xsk) (xc_frame_size sample_xsk) s' (mset (map fst ds) + {#})"
    by (rule xsk_rx_burst [OF sample_contract s(2)])
  have len: "(of_nat (length pkt) :: u32) \<le> 2048"
    using assms by (simp add: word_le_nat_alt unat_of_nat_u32)
  have rx: "ds = [(8192, of_nat (length pkt))]" "xs_area s' = patch (replicate 16384 0) 8192 pkt" "xs_frame_size s' = 2048"
    using s'(1) k assms len by (auto simp: XskSocket_rx_burst_def sim_api_def sim_rx_def rx_desc_def Let_def min_def)
  have "take (length pkt) (xsk_bytes s' 8192) = pkt"
    using assms by (simp add: xsk_bytes_def rx(2,3) patch_def)
  then show thesis using that s(1) s' rx(1) k(5) by simp
qed

lemma sample_receive:
  obtains s s' where "XskSocket_open (sim_api 2048 [sample_frame]) ''eth0'' 0 sample_xsk = Inr s"
    "XskSocket_rx_burst (sim_api 2048 [sample_frame]) s 64 = Some (s', [(8192, 44)])"
    "xsk_inv sim_held (xc_n_frames sample_xsk) (xc_frame_size sample_xsk) s' {#8192#}"
    "take 44 (xsk_bytes s' 8192) = sample_frame" "xs_free s = [0, 2048, 4096, 6144]"
  using receive_one [of sample_frame] by (simp add: sample_lengths(1)) blast

theorem switch_burst_keeps_kernel_frames_witness:
  "\<exists>s s' p st'. XskSocket_open (sim_api 2048 [sample_frame]) ''eth0'' 0 sample_xsk = Inr s \<and>
     XskSocket_rx_burst (sim_api 2048 [sample_frame]) s 64 = Some (s', [(8192, 44)]) \<and>
     burst_loop (switch_egress (sim_api 2048 [sample_frame]) 0)
       \<lparr> sw_tenant = s', sw_underlay = s, sw_pipe = p, sw_stats = RunStats_default, sw_report_at = 0 \<rparr>
       (burst_items (\<lambda>_. None) [(8192, 44)]) = Some st' \<and>
     rt_rx (sw_stats st') = 1"
proof -
  obtain s s' where s: "XskSocket_open (sim_api 2048 [sample_frame]) ''eth0'' 0 sample_xsk = Inr s"
    "XskSocket_rx_burst (sim_api 2048 [sample_frame]) s 64 = Some (s', [(8192, 44)])"
    "xsk_inv sim_held (xc_n_frames sample_xsk) (xc_frame_size sample_xsk) s' {#8192#}" by (rule sample_receive)
  note u = XskSocket_open_inv [OF sample_contract sim_fresh s(1)]
  obtain eng p where p: "pipeline_reachable p" by (rule sample_pipeline)
  let ?st = "\<lparr> sw_tenant = s', sw_underlay = s, sw_pipe = p, sw_stats = RunStats_default, sw_report_at = 0 \<rparr>"
  let ?ds = "[(8192 :: u64, 44 :: u32)]"
  have "switch_inv (sim_api 2048 [sample_frame]) sim_held (xc_n_frames sample_xsk) (xc_frame_size sample_xsk) ?st (mset (map fst ?ds)) {#}"
    using s(3) u pipeline_reachable_inv [OF p] sample_contract by (simp add: switch_inv_def RunStats_default_def)
  moreover have "list_all (\<lambda>(a, l). l \<le> xc_frame_size sample_xsk) ?ds"
    by (simp add: sample_xsk_def XskConfig_default_def)
  ultimately obtain st' where "burst_loop (switch_egress (sim_api 2048 [sample_frame]) 0) ?st (burst_items (\<lambda>_. None) ?ds) = Some st'"
    "rt_rx (sw_stats st') = rt_rx (sw_stats ?st) + of_nat (length ?ds)"
    using switch_burst_keeps_kernel_frames [where now = 0 and fab = "\<lambda>_. None"] by blast
  moreover from this have "rt_rx (sw_stats st') = 1" by (simp add: RunStats_default_def)
  ultimately show ?thesis using s(1,2) by blast
qed

lemma multiqueue_worker_ok:
  assumes c: "xdp_contract api held (xc_n_frames xcfg) (xc_frame_size xcfg)" and fresh: "fresh_kernel api held xcfg"
    and "fst ports \<le> snd ports"
  shows "\<exists>r. multiqueue_worker api tif uif q xcfg fab cfg ip ports opts at ts = Some r \<and>
    (case r of
       Inl e \<Rightarrow> XskSocket_open api tif q xcfg = Inl e \<or> XskSocket_open api uif q xcfg = Inl e
     | Inr (Inl st) \<Rightarrow> \<not> list_ex tk_stop ts
     | Inr (Inr st) \<Rightarrow> switch_inv api held (xc_n_frames xcfg) (xc_frame_size xcfg) st {#} {#})"
proof (cases "XskSocket_open api tif q xcfg")
  case (Inr t)
  note ti = XskSocket_open_inv [OF c fresh Inr]
  show ?thesis
  proof (cases "XskSocket_open api uif q xcfg")
    case u: (Inr u)
    note ui = XskSocket_open_inv [OF c fresh u]
    obtain eng where eng: "NatEngine_new ip (fst ports) (snd ports) = Some eng"
      using assms(3) by (simp add: NatEngine_new_def TimingWheel_new_def)
    obtain p where p: "Pipeline_new_shared cfg fab eng = Some p" "Pipeline_new cfg fab eng = Some p"
      using Pipeline_new_eq [of cfg fab eng] by (simp add: Pipeline_new_def)
    have "pipeline_inv p" using pipeline_reachable_inv pipeline_reachable.start [OF nat_reachable.start [OF eng] p(2)] by blast
    then have "switch_inv api held (xc_n_frames xcfg) (xc_frame_size xcfg)
        \<lparr> sw_tenant = t, sw_underlay = u, sw_pipe = p, sw_stats = RunStats_default, sw_report_at = at \<rparr> {#} {#}"
      using c ti ui by (simp add: switch_inv_def RunStats_default_def)
    from switch_loop.loop_total [OF this, of opts opts ts] obtain r where r: "run_switch api t u p opts at ts = Some r"
      "case r of Inl st \<Rightarrow> switch_inv api held (xc_n_frames xcfg) (xc_frame_size xcfg) st {#} {#} \<and> \<not> list_ex tk_stop ts
       | Inr st \<Rightarrow> switch_inv api held (xc_n_frames xcfg) (xc_frame_size xcfg) st {#} {#} \<and> list_ex (loop_stops opts (sw_stats st)) ts"
      unfolding run_switch_def by blast
    then show ?thesis using Inr u eng p(1) by (cases r) (simp_all add: multiqueue_worker_def)
  qed (simp add: multiqueue_worker_def Inr)
qed (simp add: multiqueue_worker_def)

text \<open>C16: the multi-queue switch ends. When the sockets of every queue can be opened and the port range
  of the translation is not empty, over any kernel that meets its contract and holds no
  frame of a new socket, no worker panics, and once a stop request has reached every worker
  \<open>run_multiqueue\<close> returns the counters of all of them, in which every received frame was
  transmitted or counted as dropped.\<close>

theorem run_multiqueue_returns:
  assumes "xdp_contract api held (xc_n_frames xcfg) (xc_frame_size xcfg)" and "fresh_kernel api held xcfg"
    and "fst ports \<le> snd ports"
    and "\<And>q. \<not> isl (XskSocket_open api tif q xcfg)" and "\<And>q. \<not> isl (XskSocket_open api uif q xcfg)"
    and "\<And>q. list_ex tk_stop (snd (snd (env q)))"
  shows "\<exists>stats. run_multiqueue api tif uif n_queues xcfg cfg ip ports opts env = Some stats \<and>
    length stats = unat n_queues \<and> list_all (\<lambda>s. rt_rx s = rt_tx s + rt_dropped s) stats"
proof -
  let ?w = "\<lambda>q. multiqueue_worker api tif uif (of_nat q) xcfg (fst (env q)) cfg ip ports opts (fst (snd (env q))) (snd (snd (env q)))"
  have "\<exists>st. ?w q = Some (Inr (Inr st)) \<and> rt_rx (sw_stats st) = rt_tx (sw_stats st) + rt_dropped (sw_stats st)" for q
  proof -
    obtain r where r: "?w q = Some r" "case r of
        Inl e \<Rightarrow> XskSocket_open api tif (of_nat q) xcfg = Inl e \<or> XskSocket_open api uif (of_nat q) xcfg = Inl e
      | Inr (Inl st) \<Rightarrow> \<not> list_ex tk_stop (snd (snd (env q)))
      | Inr (Inr st) \<Rightarrow> switch_inv api held (xc_n_frames xcfg) (xc_frame_size xcfg) st {#} {#}"
      using multiqueue_worker_ok [OF assms(1-3)] by blast
    moreover have "\<not> isl r" using r(2) assms(4,5) [of "of_nat q"] by (cases r) auto
    then obtain x where "r = Inr x" by (cases r) auto
    ultimately show ?thesis using assms(6) [of q] by (cases x) (auto simp: switch_inv_def)
  qed
  then obtain st where st: "\<And>q. ?w q = Some (Inr (Inr (st q)))"
      "\<And>q. rt_rx (sw_stats (st q)) = rt_tx (sw_stats (st q)) + rt_dropped (sw_stats (st q))" by metis
  have "run_multiqueue api tif uif n_queues xcfg cfg ip ports opts env = Some (map (\<lambda>q. sw_stats (st q)) [0..<unat n_queues])"
    using st(1) by (simp add: run_multiqueue_def case_prod_beta list_ex_iff List.map_filter_def comp_def Let_def)
  then show ?thesis using st(2) by (simp add: list_all_iff)
qed

theorem run_multiqueue_returns_witness:
  "\<exists>stats. run_multiqueue (sim_api 2048 [sample_frame]) ''eth0'' ''eth1'' 2 sample_xsk sample_cfg 0xcb007101 (40000, 40001) sample_opts
     (\<lambda>_. (sample_fabric, 0, [sample_tick False, sample_tick True])) = Some stats \<and> length stats = 2"
proof -
  have o: "\<not> isl (XskSocket_open (sim_api 2048 [sample_frame]) ''eth0'' q sample_xsk)"
      "\<not> isl (XskSocket_open (sim_api 2048 [sample_frame]) ''eth1'' q sample_xsk)" for q
    by (simp_all add: XskSocket_open_def sample_xsk_def XskConfig_default_def sim_api_def Let_def)
  have e: "list_ex tk_stop (snd (snd ((\<lambda>_. (sample_fabric, 0 :: nat, [sample_tick False, sample_tick True])) (q :: nat))))" for q
    by (simp add: sample_tick_def)
  have p: "fst (40000 :: u16, 40001 :: u16) \<le> snd (40000, 40001)" by simp
  show ?thesis
    using run_multiqueue_returns [OF sample_contract sim_fresh p o e, of 2 sample_cfg "0xcb007101" sample_opts] by auto
qed

end
