(* ===== verification/Afxdp_Host.thy ===== *)
theory Afxdp_Host
  imports Afxdp_Props
begin

text \<open>
  What the driver of \<open>andromeda-dataplane/src/afxdp.rs\<close> asks of the process around it: the stop
  flag that the handler of SIGINT sets and every loop reads, and the pinning of a worker to its
  core. The observations of a loop are derived from the arrival of the signal, and what a
  signal does to each forwarding loop is stated.
\<close>

section \<open>The stop flag\<close>

text \<open>\<open>STOP\<close> is one flag of the process; nothing ever clears it.\<close>

definition STOP_init :: bool where "STOP_init = False"

definition on_sigint :: "bool \<Rightarrow> bool" where "on_sigint stop = True"

text \<open>The iterations of a loop, each with the number of signals delivered since the previous load of
  the flag, and what the loop observes of them.\<close>

fun stop_ticks :: "bool \<Rightarrow> (nat \<times> tick) list \<Rightarrow> tick list" where
  "stop_ticks stop [] = []"
| "stop_ticks stop ((signals, t) # rest) =
     (let stop = (on_sigint ^^ signals) stop in t \<lparr> tk_stop := stop \<rparr> # stop_ticks stop rest)"

lemma on_sigint_pow: "(on_sigint ^^ n) stop \<longleftrightarrow> stop \<or> 0 < n"
  by (induction n) (auto simp: on_sigint_def)

lemma stop_ticks_sticky: "list_all tk_stop (stop_ticks True ts)"
  by (induction ts) (auto simp: on_sigint_pow Let_def)

lemma stop_ticks_append:
  "stop_ticks stop (pre @ rest) = stop_ticks stop pre @ stop_ticks (stop \<or> (\<exists>x \<in> set pre. 0 < fst x)) rest"
  by (induction pre arbitrary: stop) (auto simp: on_sigint_pow Let_def disj_ac)

lemma stop_ticks_quiet: "list_all (\<lambda>x. fst x = 0) ts \<Longrightarrow> stop_ticks False ts = map (\<lambda>x. snd x \<lparr> tk_stop := False \<rparr>) ts"
  by (induction ts) (auto simp: on_sigint_pow Let_def)

context stoppable_loop
begin

lemma loop_append:
  "loop_until counters iter opts s (ts @ us) =
     do { r \<leftarrow> loop_until counters iter opts s ts;
          (case r of Inl s' \<Rightarrow> loop_until counters iter opts s' us | Inr s' \<Rightarrow> Some (Inr s')) }"
  by (induction ts arbitrary: s) (auto split: Option.bind_split)

text \<open>The iterations up to the first signal run, unless another bound ends the loop before; none of
  those after it does.\<close>

lemma signal_stops:
  assumes "inv s" and quiet: "list_all (\<lambda>x. fst x = 0) pre" and "0 < k"
  shows "\<exists>r. loop_until counters iter opts s (stop_ticks STOP_init pre) = Some r \<and>
    loop_until counters iter opts s (stop_ticks STOP_init (pre @ (k, t) # rest)) = Some (Inr (case r of Inl s' \<Rightarrow> s' | Inr s' \<Rightarrow> s')) \<and>
    inv (case r of Inl s' \<Rightarrow> s' | Inr s' \<Rightarrow> s')"
proof -
  from loop_total [OF assms(1), of opts "stop_ticks STOP_init pre"] obtain r where
    r: "loop_until counters iter opts s (stop_ticks STOP_init pre) = Some r" "inv (case r of Inl s' \<Rightarrow> s' | Inr s' \<Rightarrow> s')"
    by (fastforce split: sum.splits)
  obtain t' ts' where "stop_ticks (STOP_init \<or> (\<exists>x \<in> set pre. 0 < fst x)) ((k, t) # rest) = t' # ts'" "tk_stop t'"
    using assms(3) by (simp add: on_sigint_pow Let_def)
  then have "loop_until counters iter opts s (stop_ticks STOP_init (pre @ (k, t) # rest)) =
      (case r of Inl s' \<Rightarrow> Some (Inr s') | Inr s' \<Rightarrow> Some (Inr s'))"
    by (simp add: stop_ticks_append loop_append r(1) loop_stops_def split: sum.split)
  with r show ?thesis by (auto split: sum.splits)
qed

lemma stopped_at_once: "ts \<noteq> [] \<Longrightarrow> loop_until counters iter opts s (stop_ticks True ts) = Some (Inr s)"
  by (cases ts) (auto simp: on_sigint_pow Let_def loop_stops_def)

end

text \<open>On the code: a signal ends the one-socket loop and the switch with the state of the iterations
  before it, with every frame accounted for; a loop started after the signal handles nothing.\<close>

lemma run_stops_at_signal:
  assumes "run_inv api held n fs (ro_mode opts) st {#}" and "list_all (\<lambda>x. fst x = 0) pre" and "0 < k"
  shows "\<exists>st'. loop_until rs_stats (run_iter api opts) opts st (stop_ticks STOP_init (pre @ (k, t) # rest)) = Some (Inr st') \<and>
    run_inv api held n fs (ro_mode opts) st' {#}"
  using run_loop.signal_stops [OF assms] by blast

lemma switch_stops_at_signal:
  assumes "switch_inv api held n fs st {#} {#}" and "list_all (\<lambda>x. fst x = 0) pre" and "0 < k"
  shows "\<exists>st'. loop_until sw_stats (switch_iter api opts) opts st (stop_ticks STOP_init (pre @ (k, t) # rest)) = Some (Inr st') \<and>
    switch_inv api held n fs st' {#} {#}"
  using switch_loop.signal_stops [OF assms] by blast

section \<open>Pinning a worker\<close>

text \<open>The set is a bitmap of the size \<open>setsize\<close> of the C library, written without a bounds check, so
  that a write outside it is \<open>None\<close>; \<open>setaffinity\<close> is the system call, with an errno when it fails.\<close>

definition cpu_set :: "bool list \<Rightarrow> nat \<Rightarrow> bool list option" where
  "cpu_set cpus core = (if core < length cpus then Some (cpus[core := True]) else None)"

definition pin_current_thread_to_core :: "nat \<Rightarrow> (bool list \<Rightarrow> nat option) \<Rightarrow> nat \<Rightarrow> (io_error + unit) option" where
  "pin_current_thread_to_core setsize setaffinity core =
     (if setsize \<le> core then Some (Inl (InvalidInput ''core id out of range''))
      else do {
        cpus \<leftarrow> cpu_set (replicate setsize False) core;
        (case setaffinity cpus of
           Some err \<Rightarrow> Some (Inl (RawOsError err))
         | None \<Rightarrow> Some (Inr ())) })"

lemma pin_spec:
  "pin_current_thread_to_core setsize setaffinity core =
     Some (if setsize \<le> core then Inl (InvalidInput ''core id out of range'')
       else case setaffinity (map (\<lambda>i. i = core) [0..<setsize]) of Some err \<Rightarrow> Inl (RawOsError err) | None \<Rightarrow> Inr ())"
proof -
  have "(replicate setsize False)[core := True] = map (\<lambda>i. i = core) [0..<setsize]" if "core < setsize"
    using that by (auto intro!: nth_equalityI simp: nth_list_update split: if_splits)
  then show ?thesis by (auto simp: pin_current_thread_to_core_def cpu_set_def split: option.split)
qed

definition XskSocket_fd :: "'k xsk_socket \<Rightarrow> int" where
  "XskSocket_fd s = xs_fd s"

end
