(* ===== verification/Switch_Net.thy ===== *)
theory Switch_Net
  imports Afxdp_Props
begin

text \<open>
  Two switches on a network. What one step of each direction of the switch queues on its output
  port when the pipeline forwards, and the delivery of a frame from the tenant port of
  one switch to the tenant port of another: the composition of the AF\_XDP sockets, the
  frame loops and the pipeline of \<^verbatim>\<open>crates/andromeda-dataplane/src/afxdp.rs\<close> and
  \<^verbatim>\<open>pipeline.rs\<close>, over the kernel contract of \<^verbatim>\<open>Afxdp_Own\<close>.
\<close>

section \<open>From switch to switch\<close>

text \<open>The switch forwards what the pipeline decides. For a frame received on the tenant port, when
  the underlay port has a free frame, the pipeline forwards and the TX ring accepts: the
  bytes the pipeline produced are in that frame, exactly its descriptor is queued on the
  underlay port with the length the pipeline gave, the frame now belongs to the kernel, the
  received frame is back in the tenant pool and one transmission is counted.\<close>

lemma switch_egress_forwards:
  assumes "switch_inv api held n fs st (add_mset a L) {#}" and "l \<le> fs"
    and "XskSocket_alloc_tx (sw_underlay st) = (u, Some tx)"
    and "Pipeline_on_tenant_frame (sw_pipe st) (take (unat l) (xsk_bytes (sw_tenant st) a)) (xsk_bytes u tx) now = Some (p', out, Forward m)"
    and "xk_tx api (xs_kernel (sw_underlay st)) [(tx, of_nat m)] = (1, k')"
  shows "\<exists>st'. switch_egress api now st (None, a, l) = Some st' \<and> sw_pipe st' = p' \<and>
    xs_kernel (sw_underlay st') = k' \<and> tx \<in># held k' \<and> xsk_bytes (sw_underlay st') tx = out \<and> m \<le> length out \<and>
    xs_free (sw_tenant st') = xs_free (sw_tenant st) @ [a] \<and> xs_area (sw_tenant st') = xs_area (sw_tenant st) \<and>
    sw_stats st' = count_tx (count_rx l (sw_stats st))"
proof -
  have c: "xdp_contract api held n fs" and t: "xsk_inv held n fs (sw_tenant st) (add_mset a L)"
    and u: "xsk_inv held n fs (sw_underlay st) {#}" and p: "pipeline_inv (sw_pipe st)"
    using assms(1) by (simp_all add: switch_inv_def)
  have aL: "a \<in># add_mset a L" by simp
  obtain u2 p2 d where u2: "XskSocket_frame (sw_tenant st) a l = Some (take (unat l) (xsk_bytes (sw_tenant st) a))"
    "into_frame u tx (\<lambda>out. Pipeline_on_tenant_frame (sw_pipe st) (take (unat l) (xsk_bytes (sw_tenant st) a)) out now) = Some (u2, p2, d)"
    "xsk_inv held n fs u2 {#tx#}"
    "Pipeline_on_tenant_frame (sw_pipe st) (take (unat l) (xsk_bytes (sw_tenant st) a)) (xsk_bytes u tx) now = Some (p2, xsk_bytes u2 tx, d)"
    "\<And>m. d = Forward m \<or> d = Reply m \<Longrightarrow> m \<le> unat fs"
    by (rule handle_across [where h = Pipeline_on_tenant_frame, OF t aL assms(2) u assms(3) p tenant_handled [OF p]]) blast
  have d: "p2 = p'" "out = xsk_bytes u2 tx" "d = Forward m" using u2(4) assms(4) by simp_all
  have "xs_kernel u2 = xs_kernel (sw_underlay st)"
    using u2(2) xsk_alloc(2) [OF u assms(3)]
    by (auto simp: into_frame_def XskSocket_frame_mut_def Option.bind_eq_Some_conv split: prod.splits)
  then have tx: "XskSocket_tx_one api u2 tx (of_nat m) = (u2 \<lparr> xs_kernel := k' \<rparr>, True)"
    using assms(5) by (simp add: XskSocket_tx_one_def)
  have "length out = unat fs" using length_xsk_bytes [OF u2(3), of tx] d(2) by simp
  moreover have "m \<le> unat fs" using u2(5) d(3) by simp
  moreover have "tx \<in># held k'" using contract_tx [OF c xsk_inv_held [OF u] assms(5)] by simp
  moreover have "xsk_bytes (u2 \<lparr> xs_kernel := k' \<rparr>) tx = out" by (simp add: xsk_bytes_def d(2))
  ultimately show ?thesis
    using d(1,3) by (simp add: switch_egress_def see_fabric_def assms(3) u2(1,2) tx XskSocket_recycle_def)
qed

text \<open>A frame received on the underlay port that the pipeline delivers is queued on the tenant port.\<close>

lemma switch_ingress_forwards:
  assumes "switch_inv api held n fs st {#} (add_mset a L)" and "l \<le> fs"
    and "XskSocket_alloc_tx (sw_tenant st) = (t, Some tx)"
    and "Pipeline_on_underlay_frame (sw_pipe st) (take (unat l) (xsk_bytes (sw_underlay st) a)) (xsk_bytes t tx) now = Some (p', out, Forward m)"
    and "xk_tx api (xs_kernel (sw_tenant st)) [(tx, of_nat m)] = (1, k')"
  shows "\<exists>st'. switch_ingress api now st (None, a, l) = Some st' \<and> sw_pipe st' = p' \<and>
    xs_kernel (sw_tenant st') = k' \<and> tx \<in># held k' \<and> xsk_bytes (sw_tenant st') tx = out \<and> m \<le> length out \<and>
    xs_free (sw_underlay st') = xs_free (sw_underlay st) @ [a] \<and> xs_area (sw_underlay st') = xs_area (sw_underlay st) \<and>
    sw_stats st' = count_decapped (count_tx (count_rx l (sw_stats st)))"
proof -
  have c: "xdp_contract api held n fs" and u: "xsk_inv held n fs (sw_underlay st) (add_mset a L)"
    and t: "xsk_inv held n fs (sw_tenant st) {#}" and p: "pipeline_inv (sw_pipe st)"
    using assms(1) by (simp_all add: switch_inv_def)
  have aL: "a \<in># add_mset a L" by simp
  obtain t2 p2 d where t2: "XskSocket_frame (sw_underlay st) a l = Some (take (unat l) (xsk_bytes (sw_underlay st) a))"
    "into_frame t tx (\<lambda>out. Pipeline_on_underlay_frame (sw_pipe st) (take (unat l) (xsk_bytes (sw_underlay st) a)) out now) = Some (t2, p2, d)"
    "xsk_inv held n fs t2 {#tx#}"
    "Pipeline_on_underlay_frame (sw_pipe st) (take (unat l) (xsk_bytes (sw_underlay st) a)) (xsk_bytes t tx) now = Some (p2, xsk_bytes t2 tx, d)"
    "\<And>m. d = Forward m \<or> d = Reply m \<Longrightarrow> m \<le> unat fs"
    by (rule handle_across [where h = Pipeline_on_underlay_frame, OF u aL assms(2) t assms(3) p underlay_handled [OF p]]) blast
  have d: "p2 = p'" "out = xsk_bytes t2 tx" "d = Forward m" using t2(4) assms(4) by simp_all
  have "xs_kernel t2 = xs_kernel (sw_tenant st)"
    using t2(2) xsk_alloc(2) [OF t assms(3)]
    by (auto simp: into_frame_def XskSocket_frame_mut_def Option.bind_eq_Some_conv split: prod.splits)
  then have tx: "XskSocket_tx_one api t2 tx (of_nat m) = (t2 \<lparr> xs_kernel := k' \<rparr>, True)"
    using assms(5) by (simp add: XskSocket_tx_one_def)
  have "length out = unat fs" using length_xsk_bytes [OF t2(3), of tx] d(2) by simp
  moreover have "m \<le> unat fs" using t2(5) d(3) by simp
  moreover have "tx \<in># held k'" using contract_tx [OF c xsk_inv_held [OF t] assms(5)] by simp
  moreover have "xsk_bytes (t2 \<lparr> xs_kernel := k' \<rparr>) tx = out" by (simp add: xsk_bytes_def d(2))
  ultimately show ?thesis
    using d(1,3) by (simp add: switch_ingress_def see_fabric_def assms(3) t2(1,2) tx XskSocket_recycle_def)
qed

text \<open>The sample switch: a tenant socket that has received the sample frame, a fresh underlay socket,
  and what one egress step makes of them.\<close>

lemma sample_switch:
  obtains s s' p u out a' where "XskSocket_open (sim_api 2048 [sample_frame]) ''eth0'' 0 sample_xsk = Inr s"
    "XskSocket_rx_burst (sim_api 2048 [sample_frame]) s 64 = Some (s', [(8192, 44)])"
    "switch_inv (sim_api 2048 [sample_frame]) sim_held (xc_n_frames sample_xsk) (xc_frame_size sample_xsk)
       \<lparr> sw_tenant = s', sw_underlay = s, sw_pipe = p, sw_stats = RunStats_default, sw_report_at = 0 \<rparr> {#8192#} {#}"
    "take 44 (xsk_bytes s' 8192) = sample_frame" "p_cfg p = sample_cfg" "p_fabric p = sample_fabric"
    "XskSocket_alloc_tx s = (u, Some 6144)"
    "switch_egress (sim_api 2048 [sample_frame]) 1
       \<lparr> sw_tenant = s', sw_underlay = s, sw_pipe = p, sw_stats = RunStats_default, sw_report_at = 0 \<rparr> (None, 8192, 44) = Some a'"
    "6144 \<in># sim_held (xs_kernel (sw_underlay a'))" "rt_tx (sw_stats a') = 1" "94 \<le> length (xsk_bytes (sw_underlay a') 6144)"
proof -
  let ?api = "sim_api 2048 [sample_frame]" and ?fs = "xc_frame_size sample_xsk"
  obtain s s' where s: "XskSocket_open ?api ''eth0'' 0 sample_xsk = Inr s" "XskSocket_rx_burst ?api s 64 = Some (s', [(8192, 44)])"
    "xsk_inv sim_held (xc_n_frames sample_xsk) ?fs s' {#8192#}" "take 44 (xsk_bytes s' 8192) = sample_frame"
    "xs_free s = [0, 2048, 4096, 6144]" by (rule sample_receive)
  note u = XskSocket_open_inv [OF sample_contract sim_fresh s(1)]
  obtain eng p where p: "pipeline_reachable p" "p_cfg p = sample_cfg" "p_fabric p = sample_fabric"
    by (rule sample_pipeline [of sample_cfg sample_fabric]) blast
  note pi = pipeline_reachable_inv [OF p(1)]
  let ?st = "\<lparr> sw_tenant = s', sw_underlay = s, sw_pipe = p, sw_stats = RunStats_default, sw_report_at = 0 \<rparr>"
  let ?u = "s \<lparr> xs_free := [0, 2048, 4096] \<rparr>" and ?hop = "(e_node_ip sample_endpoint, Some (e_inner_mac sample_endpoint), False)"
  have inv: "switch_inv ?api sim_held (xc_n_frames sample_xsk) ?fs ?st (add_mset 8192 {#}) {#}"
    using s(3) u pi sample_contract by (simp add: switch_inv_def RunStats_default_def)
  have al: "XskSocket_alloc_tx (sw_underlay ?st) = (?u, Some 6144)" by (simp add: XskSocket_alloc_tx_def s(5))
  have "length (xsk_bytes ?u 6144) = 2048"
    using length_xsk_bytes [OF xsk_alloc(1) [OF u, of ?u 6144], of 6144] al by (simp add: sample_xsk_def XskConfig_default_def)
  moreover have "tenant_verdict (p_cfg p) (p_fabric p) 42 sample_frame = Encapsulate ?hop"
    using tenant_verdict_ip [OF sample_frame_facts(2,1,4,5)] sample_frame_facts(6) sample_resolve p(2,3)
    by (simp add: next_hop_of_def hop_of_def)
  ultimately obtain out where "Pipeline_encap_for_vni p sample_frame (xsk_bytes ?u 6144) 1 42 =
      Some (after_egress p (p_nat p) False, out, Forward (50 + length sample_frame))"
    using encap_forwards [OF pi, of 42 sample_frame ?hop "xsk_bytes ?u 6144" 1] sample_lengths(1)
    by (auto simp: egress_inner_def)
  then have run: "Pipeline_on_tenant_frame (sw_pipe ?st) (take (unat (44 :: u32)) (xsk_bytes (sw_tenant ?st) 8192)) (xsk_bytes ?u 6144) 1 =
      Some (after_egress p (p_nat p) False, out, Forward 94)"
    using p(2) s(4) by (simp add: Pipeline_on_tenant_frame_def sample_cfg_def sample_lengths(1))
  have tx: "xk_tx ?api (xs_kernel (sw_underlay ?st)) [(6144, of_nat 94)] =
      (1, (xs_kernel s) \<lparr> sk_tx := sk_tx (xs_kernel s) @ [(6144, 94)] \<rparr>)" by (simp add: sim_api_def)
  have l: "(44 :: u32) \<le> ?fs" by (simp add: sample_xsk_def XskConfig_default_def)
  from switch_egress_forwards [OF inv l al run tx] obtain a' where
    "switch_egress ?api 1 ?st (None, 8192, 44) = Some a'" "6144 \<in># sim_held (xs_kernel (sw_underlay a'))" "rt_tx (sw_stats a') = 1"
    "94 \<le> length (xsk_bytes (sw_underlay a') 6144)"
    by (fastforce simp: count_defs RunStats_default_def)
  then show thesis using that s(1,2,4) inv p(2,3) al by simp
qed

text \<open>C3: a frame crosses two switches from port to port. The tenant port of switch A has received an
  IPv4 frame whose destination the fabric resolves and whose size is within the limits; both
  switches have a free frame and their TX rings accept. Then A queues on its underlay port a
  descriptor of 50 bytes more than the frame. When the network hands the bytes of that descriptor
  to the underlay port of switch B, which serves the network and does not translate, B queues on
  its tenant port a descriptor of the original length whose bytes are the tenant's frame with only
  its destination MAC replaced by the endpoint's; both received frames return to their pools.\<close>

theorem switch_to_switch_delivery:
  assumes "switch_inv api held n fs a (add_mset f L) {#}" and "switch_inv api' held' n' fs' b {#} (add_mset g M)"
    and "l \<le> fs" and "50 + unat l \<le> unat fs" and "50 + unat l \<le> unat fs'" and "unat l \<le> 65499"
    and "inner = take (unat l) (xsk_bytes (sw_tenant a) f)" and "14 \<le> unat l"
    and "EthFrame_ethertype inner = Some ethertype_IPV4"
    and "Ipv4View_parse (drop 14 inner) = Some (Inr (drop 14 inner))" and "Ipv4View_dst (drop 14 inner) = Some dst"
    and "Fabric_resolve (p_fabric (sw_pipe a)) (pc_vni (p_cfg (sw_pipe a))) dst = Some nh"
    and "\<not> too_big (p_cfg (sw_pipe a)) (drop 14 inner)"
    and "pc_vni (p_cfg (sw_pipe a)) AND 0xffffff = pc_vni (p_cfg (sw_pipe a))"
    and "pc_vni (p_cfg (sw_pipe a)) = pc_vni (p_cfg (sw_pipe b)) \<or> Fabric_vpc (p_fabric (sw_pipe b)) (pc_vni (p_cfg (sw_pipe a))) \<noteq> None"
    and "pc_nat_ip (p_cfg (sw_pipe b)) = None"
    and "XskSocket_alloc_tx (sw_underlay a) = (ua, Some tx)" and "XskSocket_alloc_tx (sw_tenant b) = (tb, Some tx')"
    and "xk_tx api (xs_kernel (sw_underlay a)) [(tx, of_nat (50 + unat l))] = (1, k)"
    and "xk_tx api' (xs_kernel (sw_tenant b)) [(tx', of_nat (unat l))] = (1, k')"
    and "switch_egress api now a (None, f, l) = Some a'"
    and "take (50 + unat l) (xsk_bytes (sw_underlay b) g) = take (50 + unat l) (xsk_bytes (sw_underlay a') tx)"
  shows "xs_kernel (sw_underlay a') = k \<and> xs_free (sw_tenant a') = xs_free (sw_tenant a) @ [f] \<and>
    (\<exists>b'. switch_ingress api' now' b (None, g, of_nat (50 + unat l)) = Some b' \<and> xs_kernel (sw_tenant b') = k' \<and>
      take (unat l) (xsk_bytes (sw_tenant b') tx') = mac_bytes (nh_inner_mac nh) @ drop 6 inner \<and>
      xs_free (sw_underlay b') = xs_free (sw_underlay b) @ [g] \<and>
      rt_decapped (sw_stats b') = rt_decapped (sw_stats b) + 1)"
proof -
  let ?pa = "sw_pipe a" and ?pb = "sw_pipe b"
  let ?hop = "(nh_node_ip nh, Some (nh_inner_mac nh), False)" and ?i = "mac_bytes (nh_inner_mac nh) @ drop 6 inner"
  have inv: "pipeline_inv ?pa" "pipeline_inv ?pb" using assms(1,2) by (simp_all add: switch_inv_def)
  have ta: "xsk_inv held n fs (sw_tenant a) (add_mset f L)" and ua: "xsk_inv held n fs (sw_underlay a) {#}"
    and tb: "xsk_inv held' n' fs' (sw_tenant b) {#}" and ub: "xsk_inv held' n' fs' (sw_underlay b) (add_mset g M)"
    using assms(1,2) by (simp_all add: switch_inv_def)
  have len: "length inner = unat l"
    using assms(3,7) length_xsk_bytes [OF ta, of f] by (simp add: word_le_nat_alt)
  have lo: "length (xsk_bytes ua tx) = unat fs" "length (xsk_bytes tb tx') = unat fs'"
    using length_xsk_bytes [OF xsk_alloc(1) [OF ua assms(17)], of tx] length_xsk_bytes [OF xsk_alloc(1) [OF tb assms(18)], of tx'] by simp_all
  have v: "tenant_verdict (p_cfg ?pa) (p_fabric ?pa) (pc_vni (p_cfg ?pa)) inner = Encapsulate ?hop"
    using tenant_verdict_ip [of inner dst] assms(8-13) len by (simp add: next_hop_of_def)
  have e: "egress_inner (p_nat ?pa) now (flow_of (drop 14 inner)) ?hop inner = Some (?i, p_nat ?pa, False, flow_of (drop 14 inner))"
    by (simp add: egress_inner_def)
  have fits: "50 + length inner \<le> length (xsk_bytes ua tx)" "length inner \<le> 65499" using assms(4,6) len lo by simp_all
  obtain wire where w: "Pipeline_encap_for_vni ?pa inner (xsk_bytes ua tx) now (pc_vni (p_cfg ?pa)) =
        Some (after_egress ?pa (p_nat ?pa) False, wire, Forward (50 + length inner))"
      "decap (take (50 + length inner) wire) = Some (Inr (Some
        \<lparr> dc_header = AndromedaHdr_new (pc_vni (p_cfg ?pa)) (flow_of (drop 14 inner)), dc_inner = ?i,
          dc_outer_src_ip = pc_local_node_ip (p_cfg ?pa), dc_outer_dst_ip = fst ?hop \<rparr>))"
    by (rule encap_forwards [OF inv(1) v fits e])
  have runa: "Pipeline_on_tenant_frame ?pa (take (unat l) (xsk_bytes (sw_tenant a) f)) (xsk_bytes ua tx) now =
      Some (after_egress ?pa (p_nat ?pa) False, wire, Forward (50 + unat l))"
    using w(1) by (simp only: Pipeline_on_tenant_frame_def assms(7) [symmetric] len)
  obtain a1 where "switch_egress api now a (None, f, l) = Some a1" "xs_kernel (sw_underlay a1) = k"
      "xsk_bytes (sw_underlay a1) tx = wire" "xs_free (sw_tenant a1) = xs_free (sw_tenant a) @ [f]"
    using switch_egress_forwards [OF assms(1,3,17) runa assms(19)] by blast
  then have a': "xs_kernel (sw_underlay a') = k" "xsk_bytes (sw_underlay a') tx = wire" "xs_free (sw_tenant a') = xs_free (sw_tenant a) @ [f]"
    using assms(21) by simp_all
  let ?l = "of_nat (50 + unat l) :: u32"
  have "50 + unat l < 2 ^ 32" using assms(6) by simp
  then have ul: "unat ?l = 50 + unat l" by (rule unat_of_nat_u32)
  then have le: "?l \<le> fs'" using assms(5) by (simp add: word_le_nat_alt)
  have li: "length ?i = length inner" using assms(8) len by simp
  have room: "length inner \<le> length (xsk_bytes tb tx')" using assms(5) lo(2) len by simp
  have "Pipeline_on_underlay_frame ?pb (take (50 + length inner) wire) (xsk_bytes tb tx') now' =
      Some (after_ingress ?pb (p_nat ?pb) False, ?i @ drop (length inner) (xsk_bytes tb tx'), Forward (length inner))"
    using assms(14-16) li room
    by (simp add: Pipeline_underlay_eq [OF inv(2) w(2)] underlay_outcome_def serves_def AndromedaHdr_new_def
        ingress_inner_def del: append_assoc length_append)
  then have run: "Pipeline_on_underlay_frame ?pb (take (unat ?l) (xsk_bytes (sw_underlay b) g)) (xsk_bytes tb tx') now' =
      Some (after_ingress ?pb (p_nat ?pb) False, ?i @ drop (length inner) (xsk_bytes tb tx'), Forward (unat l))"
    using assms(22) a'(2) ul len by simp
  from switch_ingress_forwards [OF assms(2) le assms(18) run assms(20)] obtain b' where b':
      "switch_ingress api' now' b (None, g, ?l) = Some b'" "xs_kernel (sw_tenant b') = k'"
      "xsk_bytes (sw_tenant b') tx' = ?i @ drop (length inner) (xsk_bytes tb tx')"
      "xs_free (sw_underlay b') = xs_free (sw_underlay b) @ [g]" "sw_stats b' = count_decapped (count_tx (count_rx ?l (sw_stats b)))"
    by blast
  have "take (unat l) (xsk_bytes (sw_tenant b') tx') = ?i" using b'(3) li len assms(8) by (simp del: append_assoc length_append)
  then show ?thesis using a' b' by (simp add: count_defs)
qed

theorem switch_to_switch_delivery_witness:
  "\<exists>s s' r r' p q a' b'. XskSocket_rx_burst (sim_api 2048 [sample_frame]) s 64 = Some (s', [(8192, 44)]) \<and>
     switch_egress (sim_api 2048 [sample_frame]) 1
       \<lparr> sw_tenant = s', sw_underlay = s, sw_pipe = p, sw_stats = RunStats_default, sw_report_at = 0 \<rparr> (None, 8192, 44) = Some a' \<and>
     XskSocket_rx_burst (sim_api 2048 [take 94 (xsk_bytes (sw_underlay a') 6144)]) r 64 = Some (r', [(8192, 94)]) \<and>
     switch_ingress (sim_api 2048 [take 94 (xsk_bytes (sw_underlay a') 6144)]) 2
       \<lparr> sw_tenant = r, sw_underlay = r', sw_pipe = q, sw_stats = RunStats_default, sw_report_at = 0 \<rparr> (None, 8192, 94) = Some b' \<and>
     take 44 (xsk_bytes (sw_tenant b') 6144) = mac_bytes (e_inner_mac sample_endpoint) @ drop 6 sample_frame"
proof -
  let ?api = "sim_api 2048 [sample_frame]" and ?fs = "xc_frame_size sample_xsk" and ?n = "xc_n_frames sample_xsk"
  obtain s s' p u a' where a: "XskSocket_rx_burst ?api s 64 = Some (s', [(8192, 44)])"
    "switch_inv ?api sim_held ?n ?fs
       \<lparr> sw_tenant = s', sw_underlay = s, sw_pipe = p, sw_stats = RunStats_default, sw_report_at = 0 \<rparr> {#8192#} {#}"
    "take 44 (xsk_bytes s' 8192) = sample_frame" "p_cfg p = sample_cfg" "p_fabric p = sample_fabric"
    "XskSocket_alloc_tx s = (u, Some 6144)"
    "switch_egress ?api 1
       \<lparr> sw_tenant = s', sw_underlay = s, sw_pipe = p, sw_stats = RunStats_default, sw_report_at = 0 \<rparr> (None, 8192, 44) = Some a'"
    "94 \<le> length (xsk_bytes (sw_underlay a') 6144)" by (rule sample_switch)
  define wire where "wire = take 94 (xsk_bytes (sw_underlay a') 6144)"
  let ?a = "\<lparr> sw_tenant = s', sw_underlay = s, sw_pipe = p, sw_stats = RunStats_default, sw_report_at = 0 \<rparr>"
  let ?api' = "sim_api 2048 [wire]"
  have lw: "length wire = 94" using a(8) by (simp add: wire_def)
  then have "length wire \<le> 2048" by simp
  from receive_one [OF this] obtain r r' where r: "XskSocket_open ?api' ''eth0'' 0 sample_xsk = Inr r"
    "XskSocket_rx_burst ?api' r 64 = Some (r', [(8192, of_nat (length wire))])"
    "xsk_inv sim_held ?n ?fs r' {#8192#}" "take (length wire) (xsk_bytes r' 8192) = wire" "xs_free r = [0, 2048, 4096, 6144]" by metis
  obtain eng q where q: "pipeline_reachable q" "p_cfg q = sample_peer_cfg" by (rule sample_pipeline) 
  let ?b = "\<lparr> sw_tenant = r, sw_underlay = r', sw_pipe = q, sw_stats = RunStats_default, sw_report_at = 0 \<rparr>"
  let ?r = "r \<lparr> xs_free := [0, 2048, 4096] \<rparr>"
  have b: "switch_inv ?api' sim_held ?n ?fs ?b {#} (add_mset 8192 {#})"
    using r(3) XskSocket_open_inv [OF sample_contract sim_fresh r(1)] pipeline_reachable_inv [OF q(1)] sample_contract
    by (simp add: switch_inv_def RunStats_default_def)
  have al: "XskSocket_alloc_tx (sw_tenant ?b) = (?r, Some 6144)" by (simp add: XskSocket_alloc_tx_def r(5))
  have fs: "?fs = 2048" by (simp add: sample_xsk_def XskConfig_default_def)
  have tx: "xk_tx ?api (xs_kernel (sw_underlay ?a)) [(6144, of_nat (50 + unat (44 :: u32)))] =
      (1, (xs_kernel s) \<lparr> sk_tx := sk_tx (xs_kernel s) @ [(6144, 94)] \<rparr>)"
    "xk_tx ?api' (xs_kernel (sw_tenant ?b)) [(6144, of_nat (unat (44 :: u32)))] =
      (1, (xs_kernel r) \<lparr> sk_tx := sk_tx (xs_kernel r) @ [(6144, 44)] \<rparr>)" by (simp_all add: sim_api_def)
  have "switch_inv ?api sim_held ?n ?fs ?a (add_mset 8192 {#}) {#}" using a(2) by simp
  note deliver = switch_to_switch_delivery [OF this b, where l = 44 and inner = sample_frame and dst = "0x0a000002"
      and nh = "hop_of sample_endpoint" and ua = u and tx = 6144 and tb = ?r and tx' = 6144 and now = 1 and a' = a'
      and now' = 2, OF _ _ _ _ _ _ sample_frame_facts(1,4,5)]
  obtain b' where "switch_ingress ?api' 2 ?b (None, 8192, of_nat (50 + unat (44 :: u32))) = Some b'"
    "take (unat (44 :: u32)) (xsk_bytes (sw_tenant b') 6144) = mac_bytes (nh_inner_mac (hop_of sample_endpoint)) @ drop 6 sample_frame"
    using deliver a sample_frame_facts sample_resolve q(2) al tx r(4) lw fs
    by (fastforce simp: sample_peer_cfg_def sample_cfg_def wire_def)
  then show ?thesis using a(1,7) r(2) lw by (fastforce simp: wire_def hop_of_def)
qed

end
