(* ===== verification/Unit_Core.thy ===== *)
theory Unit_Core
  imports Overlay Arp Icmp Five_Tuple
begin

text \<open>
  The unit tests of \<open>andromeda-core\<close> (the \<open>mod tests\<close> of each of its files), translated and run
  on the definitions of this development. A test is a computation whose result is \<open>Some ()\<close> when
  it passes and \<open>None\<close> when it panics: a failed assertion, an \<open>unwrap\<close> of an error, or a panic
  of the code under test. Each is evaluated by the simplifier, which is set up as a
  call-by-value evaluator: the congruence rules keep it from rewriting a continuation before
  its argument is a value, the collection \<open>eval_simps\<close> unfolds the operations.
\<close>

section \<open>Assertions\<close>

named_theorems eval_simps \<open>definitions that a test evaluates\<close>

definition require :: "bool \<Rightarrow> unit option" where
  "require b = (if b then Some () else None)"

definition unwrap :: "('e + 'a) option \<Rightarrow> 'a option" where
  "unwrap r = (case r of Some (Inr v) \<Rightarrow> Some v | _ \<Rightarrow> None)"

definition is_err :: "('e + 'a) option \<Rightarrow> bool option" where
  "is_err r = map_option isl r"

lemma require_iff [simp]: "require b = Some u \<longleftrightarrow> b" "require True = Some ()"
  by (simp_all add: require_def)

lemma unwrap_Inr [simp]: "unwrap (Some (Inr v)) = Some v"
  by (simp add: unwrap_def)

lemma is_err_simps [simp]: "is_err (Some (Inl e)) = Some True" "is_err (Some (Inr v)) = Some False"
  by (simp_all add: is_err_def)

section \<open>Evaluation\<close>

lemma bind_weak_cong: "m = m' \<Longrightarrow> Option.bind m f = Option.bind m' f"
  by simp

lemmas eval_cong = bind_weak_cong let_weak_cong

lemma checksum_fold_eval [eval_simps]:
  "drop_bit 16 s = 0 \<Longrightarrow> checksum_fold s = ucast s"
  "drop_bit 16 s \<noteq> 0 \<Longrightarrow> checksum_fold s = checksum_fold ((s AND 0xffff) + drop_bit 16 s)"
  by (subst checksum_fold.simps, simp)+

text \<open>Buffers of zeroes are expanded only when they are short, so that a long buffer stays symbolic
  behind the bytes that were written.\<close>

lemma replicate_eval [eval_simps]:
  "numeral k < (128 :: nat) \<Longrightarrow> replicate (numeral k) x = x # replicate (pred_numeral k) x"
  by (simp add: numeral_eq_Suc)

lemmas bytes_eval [eval_simps] = rd8_def rd16_def rd32_def slice_def slice_from_def put_def patch_def wr8_def
  sub_mut_def to_be16_def octets_def be16_def be32_def Let_def try_bind_def min_def usize_add_def

lemmas core_eval [eval_simps] = finalize_def accumulate_def sum_be16_def checksum_def update_word_def update_dword_def
  pseudo_header_sum_def proto_UDP_def proto_TCP_def proto_ICMP_def
  ETH_HDR_LEN_def ethertype_IPV4_def ethertype_ARP_def ethertype_IPV6_def BROADCAST_def ZERO_def is_broadcast_def
  EthFrame_parse_def EthFrame_dst_def EthFrame_src_def EthFrame_ethertype_def EthFrame_payload_def ethernet_write_header_def
  IPV4_MIN_HDR_LEN_def Ipv4View_parse_def Ipv4View_ihl_bytes_def Ipv4View_total_length_def Ipv4View_flags_frag_def
  Ipv4View_dont_fragment_def Ipv4View_more_fragments_def Ipv4View_ttl_def Ipv4View_protocol_def Ipv4View_src_def
  Ipv4View_dst_def Ipv4View_checksum_valid_def Ipv4View_payload_def Ipv4View_bytes_def ipv4_write_header_def
  Ipv4ViewMut_parse_def Ipv4ViewMut_src_def Ipv4ViewMut_dst_def Ipv4ViewMut_header_checksum_def
  Ipv4ViewMut_set_header_checksum_def Ipv4ViewMut_set_src_def Ipv4ViewMut_set_dst_def Ipv4ViewMut_decrement_ttl_def
  UDP_HDR_LEN_def udp_write_header_def udp_compute_checksum_def UdpViewMut_parse_def UdpView_parse_def
  UdpViewMut_set_dst_port_def UdpViewMut_dst_port_def UdpViewMut_patch_checksum_word_def UdpViewMut_checksum_def
  UdpViewMut_checksum_disabled_def UdpViewMut_set_checksum_def UdpView_dst_port_def UdpView_checksum_def
  TCP_MIN_HDR_LEN_def tcp_compute_checksum_def TcpView_parse_def TcpViewMut_parse_def TcpView_src_port_def TcpView_dst_port_def
  TcpView_data_offset_def TcpView_flags_def TcpView_has_flag_def TcpView_checksum_def flag_SYN_def flag_ACK_def
  TcpViewMut_patch_checksum_dword_def TcpViewMut_patch_checksum_word_def TcpViewMut_checksum_def TcpViewMut_set_checksum_def
  ARP_LEN_def ARP_FRAME_LEN_def oper_REQUEST_def oper_REPLY_def ArpView_parse_def ArpView_oper_def ArpView_is_request_def
  ArpView_sender_mac_def ArpView_sender_ip_def ArpView_target_ip_def arp_write_reply_def arp_write_payload_def
  ICMP_HDR_LEN_def icmp_type_DEST_UNREACHABLE_def icmp_code_FRAG_NEEDED_def write_frag_needed_def icmp_write_message_def

text \<open>The address literals of the tests.\<close>

lemma ipv4_literals [eval_simps]:
  "ipv4_from_str ''10.0.0.1'' = Some 0x0a000001" "ipv4_from_str ''10.0.0.10'' = Some 0x0a00000a"
  "ipv4_from_str ''10.0.0.20'' = Some 0x0a000014"
  by code_simp+

section \<open>\<open>checksum.rs\<close>\<close>

definition test_rfc1071_known_vector :: "unit option" where
  "test_rfc1071_known_vector = require (checksum [0x00, 0x01, 0xf2, 0x03, 0xf4, 0xf5, 0xf6, 0xf7] = 0x220d)"

definition ip_vector :: bytes where
  "ip_vector = [0x45, 0x00, 0x00, 0x3c, 0x1c, 0x46, 0x40, 0x00, 0x40, 0x06, 0x00, 0x00, 0xac, 0x10,
     0x0a, 0x63, 0xac, 0x10, 0x0a, 0x0c]"

definition test_checksum_verifies_to_zero :: "unit option" where
  "test_checksum_verifies_to_zero = do {
     let data = ip_vector;
     let c = checksum data;
     data \<leftarrow> wr8 data 10 (ucast (drop_bit 8 c));
     data \<leftarrow> wr8 data 11 (ucast (c AND 0xff));
     require (checksum data = 0) }"

definition test_odd_length_uses_high_byte :: "unit option" where
  "test_odd_length_uses_high_byte = require (sum_be16 [0x12, 0x34, 0x56] = 0x1234 + 0x5600)"

definition test_incremental_matches_full_recompute :: "unit option" where
  "test_incremental_matches_full_recompute = do {
     let hdr = ip_vector;
     let c0 = checksum hdr;
     hdr \<leftarrow> wr8 hdr 10 (ucast (drop_bit 8 c0));
     hdr \<leftarrow> wr8 hdr 11 (ucast (c0 AND 0xff));
     old_src \<leftarrow> rd32 hdr 12;
     let new_src = be32 10 0 0 7;
     hdr \<leftarrow> put hdr 12 16 (octets new_src);
     let incremental = update_dword c0 old_src new_src;
     hdr \<leftarrow> wr8 hdr 10 0;
     hdr \<leftarrow> wr8 hdr 11 0;
     require (incremental = checksum hdr) }"

lemma checksum_tests_pass:
  "test_rfc1071_known_vector = Some ()" "test_checksum_verifies_to_zero = Some ()"
  "test_odd_length_uses_high_byte = Some ()" "test_incremental_matches_full_recompute = Some ()"
  by (simp_all add: test_rfc1071_known_vector_def test_checksum_verifies_to_zero_def test_odd_length_uses_high_byte_def
      test_incremental_matches_full_recompute_def ip_vector_def eval_simps cong: eval_cong)

section \<open>\<open>lib.rs\<close>\<close>

definition test_five_tuple_reverse :: "unit option" where
  "test_five_tuple_reverse = do {
     let t = \<lparr> src_ip = be32 10 0 0 1, dst_ip = be32 10 0 0 2, protocol = 6, src_port = 1234, dst_port = 80 \<rparr>;
     let r = FiveTuple_reversed t;
     require (src_ip r = dst_ip t);
     require (src_port r = dst_port t);
     require (FiveTuple_reversed r = t) }"

lemma five_tuple_tests_pass: "test_five_tuple_reverse = Some ()"
  by (simp add: test_five_tuple_reverse_def FiveTuple_reversed_def)

section \<open>\<open>ethernet.rs\<close>\<close>

definition eth_sample :: bytes where
  "eth_sample = [0x02, 0x00, 0x00, 0x00, 0x00, 0x02, 0x02, 0x00, 0x00, 0x00, 0x00, 0x01, 0x08, 0x00] @ [0xde, 0xad, 0xbe, 0xef]"

definition test_eth_parse_fields :: "unit option" where
  "test_eth_parse_fields = do {
     f \<leftarrow> unwrap (Some (EthFrame_parse eth_sample));
     dst \<leftarrow> EthFrame_dst f;
     require (dst = MacAddr 0x02 0 0 0 0 0x02);
     src \<leftarrow> EthFrame_src f;
     require (src = MacAddr 0x02 0 0 0 0 0x01);
     ty \<leftarrow> EthFrame_ethertype f;
     require (ty = ethertype_IPV4);
     pl \<leftarrow> EthFrame_payload f;
     require (pl = [0xde, 0xad, 0xbe, 0xef]) }"

definition test_eth_too_short_rejected :: "unit option" where
  "test_eth_too_short_rejected = require (isl (EthFrame_parse (replicate 13 0)))"

definition test_mac_display_and_flags :: "unit option" where
  "test_mac_display_and_flags = do {
     require (MacAddr_to_string (MacAddr 0x02 0xaa 0xbb 0xcc 0xdd 0xee) = ''02:aa:bb:cc:dd:ee'');
     require (is_broadcast BROADCAST);
     require (is_multicast BROADCAST);
     require (\<not> is_multicast (MacAddr 0x02 0 0 0 0 1)) }"

definition test_mac_from_str :: "unit option" where
  "test_mac_from_str = do {
     a \<leftarrow> unwrap (MacAddr_from_str ''02:aa:bb:cc:dd:ee'');
     require (a = MacAddr 0x02 0xaa 0xbb 0xcc 0xdd 0xee);
     b \<leftarrow> unwrap (MacAddr_from_str ''02-00-00-00-00-01'');
     require (b = MacAddr 0x02 0 0 0 0 1);
     e \<leftarrow> is_err (MacAddr_from_str ''02:aa:bb'');
     require e;
     e \<leftarrow> is_err (MacAddr_from_str ''zz:aa:bb:cc:dd:ee'');
     require e;
     e \<leftarrow> is_err (MacAddr_from_str ''02:aa:bb:cc:dd:ee:ff'');
     require e }"

definition test_eth_write_roundtrip :: "unit option" where
  "test_eth_write_roundtrip = do {
     (buf, _) \<leftarrow> ethernet_write_header (replicate 14 0) BROADCAST (MacAddr 2 0 0 0 0 1) ethertype_ARP;
     f \<leftarrow> unwrap (Some (EthFrame_parse buf));
     dst \<leftarrow> EthFrame_dst f;
     require (dst = BROADCAST);
     ty \<leftarrow> EthFrame_ethertype f;
     require (ty = ethertype_ARP) }"

lemma ethernet_tests_pass:
  "test_eth_parse_fields = Some ()" "test_eth_too_short_rejected = Some ()" "test_eth_write_roundtrip = Some ()"
  by (simp_all add: test_eth_parse_fields_def test_eth_too_short_rejected_def test_eth_write_roundtrip_def eth_sample_def
      eval_simps cong: eval_cong)

lemma mac_tests_pass: "test_mac_display_and_flags = Some ()" "test_mac_from_str = Some ()"
  by code_simp+

section \<open>\<open>ipv4.rs\<close>\<close>

definition real_packet :: bytes where
  "real_packet = [0x45, 0x00, 0x00, 0x3c, 0x1c, 0x46, 0x40, 0x00, 0x40, 0x06, 0xb1, 0xe6, 0xac, 0x10,
     0x0a, 0x63, 0xac, 0x10, 0x0a, 0x0c]"

definition test_parses_real_header :: "unit option" where
  "test_parses_real_header = do {
     v \<leftarrow> unwrap (Ipv4View_parse real_packet);
     x \<leftarrow> Ipv4View_ihl_bytes v;
     require (x = 20);
     x \<leftarrow> Ipv4View_total_length v;
     require (x = 0x3c);
     x \<leftarrow> Ipv4View_ttl v;
     require (x = 64);
     x \<leftarrow> Ipv4View_protocol v;
     require (x = proto_TCP);
     x \<leftarrow> Ipv4View_dont_fragment v;
     require x;
     x \<leftarrow> Ipv4View_more_fragments v;
     require (\<not> x);
     x \<leftarrow> Ipv4View_src v;
     require (x = be32 172 16 10 99);
     x \<leftarrow> Ipv4View_dst v;
     require (x = be32 172 16 10 12);
     x \<leftarrow> Ipv4View_checksum_valid v;
     require x }"

definition test_snat_keeps_header_checksum_valid :: "unit option" where
  "test_snat_keeps_header_checksum_valid = do {
     v \<leftarrow> unwrap (Ipv4ViewMut_parse real_packet);
     (p, _) \<leftarrow> Ipv4ViewMut_set_src v (be32 10 0 0 7);
     v \<leftarrow> unwrap (Ipv4View_parse p);
     x \<leftarrow> Ipv4View_src v;
     require (x = be32 10 0 0 7);
     x \<leftarrow> Ipv4View_checksum_valid v;
     require x }"

definition test_ttl_decrement_keeps_checksum_valid :: "unit option" where
  "test_ttl_decrement_keeps_checksum_valid = do {
     v \<leftarrow> unwrap (Ipv4ViewMut_parse real_packet);
     (p, t) \<leftarrow> Ipv4ViewMut_decrement_ttl v;
     require (t = Some 63);
     v \<leftarrow> unwrap (Ipv4View_parse p);
     x \<leftarrow> Ipv4View_ttl v;
     require (x = 63);
     x \<leftarrow> Ipv4View_checksum_valid v;
     require x }"

definition test_write_header_produces_valid_checksum :: "unit option" where
  "test_write_header_produces_valid_checksum = do {
     (buf, _) \<leftarrow> ipv4_write_header (replicate 20 0) (be32 10 0 0 1) (be32 10 0 0 2) proto_UDP 64 0x4242 True 100;
     v \<leftarrow> unwrap (Ipv4View_parse buf);
     x \<leftarrow> Ipv4View_checksum_valid v;
     require x;
     x \<leftarrow> Ipv4View_total_length v;
     require (x = 120);
     x \<leftarrow> Ipv4View_protocol v;
     require (x = proto_UDP) }"

definition test_rejects_ipv6_version :: "unit option" where
  "test_rejects_ipv6_version = do {
     p \<leftarrow> wr8 real_packet 0 0x60;
     e \<leftarrow> is_err (Ipv4View_parse p);
     require e }"

lemma ipv4_tests_pass:
  "test_parses_real_header = Some ()" "test_snat_keeps_header_checksum_valid = Some ()"
  "test_ttl_decrement_keeps_checksum_valid = Some ()" "test_write_header_produces_valid_checksum = Some ()"
  "test_rejects_ipv6_version = Some ()"
  by (simp_all add: test_parses_real_header_def test_snat_keeps_header_checksum_valid_def
      test_ttl_decrement_keeps_checksum_valid_def test_write_header_produces_valid_checksum_def
      test_rejects_ipv6_version_def real_packet_def eval_simps cong: eval_cong)

section \<open>\<open>udp.rs\<close>\<close>

text \<open>Byte string literals.\<close>

definition byte_str :: "string \<Rightarrow> bytes" where
  "byte_str s = map (\<lambda>c. of_nat (of_char c)) s"

definition test_dnat_port_keeps_checksum_consistent :: "unit option" where
  "test_dnat_port_keeps_checksum_consistent = do {
     let src = be32 10 0 0 1;
     let dst = be32 10 0 0 2;
     let payload = byte_str ''hello-andromeda'';
     let dgram = replicate (UDP_HDR_LEN + length payload) 0;
     (dgram, _) \<leftarrow> udp_write_header dgram 4242 53 (of_nat (length payload));
     dgram \<leftarrow> put dgram UDP_HDR_LEN (length dgram) payload;
     let c = udp_compute_checksum src dst dgram;
     dgram \<leftarrow> put dgram 6 8 (to_be16 c);
     v \<leftarrow> unwrap (Some (UdpViewMut_parse dgram));
     dgram \<leftarrow> UdpViewMut_set_dst_port v 5353;
     check \<leftarrow> put dgram 6 8 [0, 0];
     let full = udp_compute_checksum src dst check;
     stored \<leftarrow> rd16 dgram 6;
     require (stored = full);
     v \<leftarrow> unwrap (Some (UdpView_parse dgram));
     x \<leftarrow> UdpView_dst_port v;
     require (x = 5353) }"

definition test_disabled_checksum_left_alone :: "unit option" where
  "test_disabled_checksum_left_alone = do {
     (dgram, _) \<leftarrow> udp_write_header (replicate (UDP_HDR_LEN + 4) 0) 1 2 4;
     v \<leftarrow> unwrap (Some (UdpViewMut_parse dgram));
     v \<leftarrow> UdpViewMut_set_dst_port v 9999;
     x \<leftarrow> UdpViewMut_checksum v;
     require (x = 0) }"

lemma udp_tests_pass:
  "test_dnat_port_keeps_checksum_consistent = Some ()" "test_disabled_checksum_left_alone = Some ()"
  by (simp_all add: test_dnat_port_keeps_checksum_consistent_def test_disabled_checksum_left_alone_def byte_str_def
      eval_simps cong: eval_cong)

section \<open>\<open>tcp.rs\<close>\<close>

definition syn_segment :: "bytes option" where
  "syn_segment = do {
     let seg = [0xc0, 0x00, 0x00, 0x50, 0x00, 0x00, 0x00, 0x01, 0x00, 0x00, 0x00, 0x00,
       0x50, 0x02, 0x72, 0x10, 0x00, 0x00, 0x00, 0x00];
     let src = be32 10 0 0 1;
     let dst = be32 10 0 0 2;
     let c = tcp_compute_checksum src dst seg;
     put seg 16 18 (to_be16 c) }"

definition test_parse_flags_and_ports :: "unit option" where
  "test_parse_flags_and_ports = do {
     seg \<leftarrow> syn_segment;
     v \<leftarrow> unwrap (TcpView_parse seg);
     x \<leftarrow> TcpView_src_port v;
     require (x = 49152);
     x \<leftarrow> TcpView_dst_port v;
     require (x = 80);
     x \<leftarrow> TcpView_data_offset v;
     require (x = 20);
     x \<leftarrow> TcpView_has_flag v flag_SYN;
     require x;
     x \<leftarrow> TcpView_has_flag v flag_ACK;
     require (\<not> x) }"

definition test_address_rewrite_patch_matches_recompute :: "unit option" where
  "test_address_rewrite_patch_matches_recompute = do {
     seg \<leftarrow> syn_segment;
     let old_src = be32 10 0 0 1;
     let new_src = be32 203 0 113 5;
     let dst = be32 10 0 0 2;
     v \<leftarrow> unwrap (TcpViewMut_parse seg);
     seg \<leftarrow> TcpViewMut_patch_checksum_dword v old_src new_src;
     check \<leftarrow> put seg 16 18 [0, 0];
     let full = tcp_compute_checksum new_src dst check;
     x \<leftarrow> rd16 seg 16;
     require (x = full) }"

lemma tcp_tests_pass:
  "test_parse_flags_and_ports = Some ()" "test_address_rewrite_patch_matches_recompute = Some ()"
  by (simp_all add: test_parse_flags_and_ports_def test_address_rewrite_patch_matches_recompute_def syn_segment_def
      eval_simps cong: eval_cong)

section \<open>\<open>arp.rs\<close>\<close>

definition arp_request_payload :: "mac_addr \<Rightarrow> ipv4addr \<Rightarrow> ipv4addr \<Rightarrow> bytes \<Rightarrow> (bytes \<times> unit) option" where
  "arp_request_payload sender_mac sender_ip target_ip p = do {
     p \<leftarrow> put p 0 2 (to_be16 1);
     p \<leftarrow> put p 2 4 (to_be16 ethertype_IPV4);
     p \<leftarrow> wr8 p 4 6;
     p \<leftarrow> wr8 p 5 4;
     p \<leftarrow> put p 6 8 (to_be16 oper_REQUEST);
     p \<leftarrow> put p 8 14 (mac_bytes sender_mac);
     p \<leftarrow> put p 14 18 (octets sender_ip);
     p \<leftarrow> put p 24 28 (octets target_ip);
     Some (p, ()) }"

definition arp_request :: "mac_addr \<Rightarrow> ipv4addr \<Rightarrow> ipv4addr \<Rightarrow> bytes option" where
  "arp_request sender_mac sender_ip target_ip = do {
     let f = replicate ARP_FRAME_LEN 0;
     (f, _) \<leftarrow> sub_mut f 0 14 (\<lambda>s. ethernet_write_header s BROADCAST sender_mac ethertype_ARP);
     (f, _) \<leftarrow> sub_mut f 14 (length f) (arp_request_payload sender_mac sender_ip target_ip);
     Some f }"

definition test_parse_request_fields :: "unit option" where
  "test_parse_request_fields = do {
     ten \<leftarrow> ipv4_from_str ''10.0.0.10'';
     twenty \<leftarrow> ipv4_from_str ''10.0.0.20'';
     f \<leftarrow> arp_request (MacAddr 0x02 0 0 0 0 0x0a) ten twenty;
     pl \<leftarrow> slice_from f 14;
     a \<leftarrow> unwrap (ArpView_parse pl);
     x \<leftarrow> ArpView_is_request a;
     require x;
     x \<leftarrow> ArpView_sender_ip a;
     require (x = ten);
     x \<leftarrow> ArpView_target_ip a;
     require (x = twenty) }"

definition test_reply_is_well_formed :: "unit option" where
  "test_reply_is_well_formed = do {
     ten \<leftarrow> ipv4_from_str ''10.0.0.10'';
     twenty \<leftarrow> ipv4_from_str ''10.0.0.20'';
     req \<leftarrow> arp_request (MacAddr 0x02 0 0 0 0 0x0a) ten twenty;
     let vmac = MacAddr 0x02 0 0 0 0 0xff;
     pl \<leftarrow> slice_from req 14;
     (out, r) \<leftarrow> arp_write_reply (replicate 64 0) pl vmac;
     n \<leftarrow> unwrap (Some r);
     require (n = ARP_FRAME_LEN);
     f \<leftarrow> slice out 0 n;
     eth \<leftarrow> unwrap (Some (EthFrame_parse f));
     x \<leftarrow> EthFrame_ethertype eth;
     require (x = ethertype_ARP);
     x \<leftarrow> EthFrame_dst eth;
     require (x = MacAddr 0x02 0 0 0 0 0x0a);
     x \<leftarrow> EthFrame_src eth;
     require (x = vmac);
     pl \<leftarrow> EthFrame_payload eth;
     a \<leftarrow> unwrap (ArpView_parse pl);
     x \<leftarrow> ArpView_oper a;
     require (x = oper_REPLY);
     x \<leftarrow> ArpView_sender_mac a;
     require (x = vmac);
     x \<leftarrow> ArpView_sender_ip a;
     require (x = twenty);
     x \<leftarrow> ArpView_target_ip a;
     require (x = ten) }"

lemma arp_tests_pass: "test_parse_request_fields = Some ()" "test_reply_is_well_formed = Some ()"
  by (simp_all add: test_parse_request_fields_def test_reply_is_well_formed_def arp_request_def arp_request_payload_def
      eval_simps cong: eval_cong)

section \<open>\<open>icmp.rs\<close>\<close>

definition icmp_tenant_frame :: "bytes option" where
  "icmp_tenant_frame = do {
     let f = replicate (14 + 20 + 20 + 40) 0;
     (f, _) \<leftarrow> sub_mut f 0 14
       (\<lambda>s. ethernet_write_header s (MacAddr 2 0 0 0 0 0xff) (MacAddr 2 0 0 0 0 0x0a) ethertype_IPV4);
     src \<leftarrow> ipv4_from_str ''10.0.0.10'';
     dst \<leftarrow> ipv4_from_str ''10.0.0.20'';
     (f, _) \<leftarrow> sub_mut f 14 34 (\<lambda>s. ipv4_write_header s src dst proto_TCP 64 0x1234 True (20 + 40));
     f \<leftarrow> put f 34 36 (to_be16 1234);
     put f 36 38 (to_be16 80) }"

definition test_frag_needed_is_well_formed :: "unit option" where
  "test_frag_needed_is_well_formed = do {
     orig \<leftarrow> icmp_tenant_frame;
     gw \<leftarrow> ipv4_from_str ''10.0.0.1'';
     (out, r) \<leftarrow> write_frag_needed (replicate 1500 0) orig (MacAddr 2 0 0 0 0 0xff) gw 1450;
     n \<leftarrow> unwrap (Some r);
     f \<leftarrow> slice out 0 n;
     eth \<leftarrow> unwrap (Some (EthFrame_parse f));
     x \<leftarrow> EthFrame_ethertype eth;
     require (x = ethertype_IPV4);
     x \<leftarrow> EthFrame_dst eth;
     require (x = MacAddr 2 0 0 0 0 0x0a);
     x \<leftarrow> EthFrame_src eth;
     require (x = MacAddr 2 0 0 0 0 0xff);
     pl \<leftarrow> EthFrame_payload eth;
     ip \<leftarrow> unwrap (Ipv4View_parse pl);
     x \<leftarrow> Ipv4View_protocol ip;
     require (x = proto_ICMP);
     x \<leftarrow> Ipv4View_src ip;
     require (x = gw);
     x \<leftarrow> Ipv4View_dst ip;
     ten \<leftarrow> ipv4_from_str ''10.0.0.10'';
     require (x = ten);
     x \<leftarrow> Ipv4View_checksum_valid ip;
     require x;
     icmp \<leftarrow> Ipv4View_payload ip;
     x \<leftarrow> rd8 icmp 0;
     require (x = icmp_type_DEST_UNREACHABLE);
     x \<leftarrow> rd8 icmp 1;
     require (x = icmp_code_FRAG_NEEDED);
     x \<leftarrow> rd16 icmp 6;
     require (x = 1450);
     x \<leftarrow> rd8 icmp ICMP_HDR_LEN;
     require (x = 0x45);
     let ports_off = ICMP_HDR_LEN + 20;
     x \<leftarrow> rd16 icmp ports_off;
     require (x = 1234) }"

definition test_frag_needed_icmp_checksum_valid :: "unit option" where
  "test_frag_needed_icmp_checksum_valid = do {
     orig \<leftarrow> icmp_tenant_frame;
     gw \<leftarrow> ipv4_from_str ''10.0.0.1'';
     (out, r) \<leftarrow> write_frag_needed (replicate 1500 0) orig (MacAddr 2 0 0 0 0 0xff) gw 1450;
     n \<leftarrow> unwrap (Some r);
     f \<leftarrow> slice out 14 n;
     ip \<leftarrow> unwrap (Ipv4View_parse f);
     pl \<leftarrow> Ipv4View_payload ip;
     require (checksum pl = 0) }"

definition test_too_small_buffer_errs :: "unit option" where
  "test_too_small_buffer_errs = do {
     orig \<leftarrow> icmp_tenant_frame;
     gw \<leftarrow> ipv4_from_str ''10.0.0.1'';
     (out, r) \<leftarrow> write_frag_needed (replicate 20 0) orig (MacAddr 2 0 0 0 0 0xff) gw 1450;
     require (isl r) }"

definition test_garbage_input_errs :: "unit option" where
  "test_garbage_input_errs = do {
     gw \<leftarrow> ipv4_from_str ''10.0.0.1'';
     (out, r) \<leftarrow> write_frag_needed (replicate 1500 0) (replicate 10 0) (MacAddr 2 0 0 0 0 0xff) gw 1450;
     require (isl r) }"

lemma icmp_frame_eval:
  "icmp_tenant_frame = Some ([2, 0, 0, 0, 0, 0xff, 2, 0, 0, 0, 0, 0x0a, 8, 0] @
     [0x45, 0, 0, 80, 0x12, 0x34, 0x40, 0, 64, 6, 0x14, 0x57, 10, 0, 0, 10, 10, 0, 0, 20] @ [4, 0xd2, 0, 80] @ replicate 56 0)"
  by (simp add: icmp_tenant_frame_def eval_simps cong: eval_cong)

lemma icmp_tests_pass:
  "test_frag_needed_is_well_formed = Some ()" "test_frag_needed_icmp_checksum_valid = Some ()"
  "test_too_small_buffer_errs = Some ()" "test_garbage_input_errs = Some ()"
  by (simp_all add: test_frag_needed_is_well_formed_def test_frag_needed_icmp_checksum_valid_def
      test_too_small_buffer_errs_def test_garbage_input_errs_def icmp_frame_eval eval_simps cong: eval_cong)

section \<open>\<open>overlay.rs\<close>\<close>

lemmas overlay_eval [eval_simps] = ANDROMEDA_UDP_PORT_def ANDROMEDA_VERSION_def ANDROMEDA_HDR_LEN_def OVERLAY_OVERHEAD_def
  flags_CONTROL_def inner_proto_ETHERNET_def AndromedaHdr_new_def AndromedaHdr_is_control_def AndromedaHdr_encode_def
  AndromedaHdr_decode_def MAX_INNER_def encap_in_place_def encap_def decap_def

definition overlay_inner_frame :: bytes where
  "overlay_inner_frame = mac_bytes (MacAddr 0x02 0 0 0 0 0x0b) @ mac_bytes (MacAddr 0x02 0 0 0 0 0x0a) @
     to_be16 ethertype_IPV4 @ [1, 2, 3, 4, 5, 6, 7, 8]"

definition test_header_roundtrip :: "unit option" where
  "test_header_roundtrip = do {
     let h = (AndromedaHdr_new 0x00abcd 0x1234) \<lparr> ah_flags := flags_CONTROL, ah_hop_limit := 32 \<rparr>;
     buf \<leftarrow> AndromedaHdr_encode h (replicate 8 0);
     d \<leftarrow> unwrap (AndromedaHdr_decode buf);
     require (d = h);
     require (AndromedaHdr_is_control d);
     require (ah_vni d = 0x00abcd) }"

definition test_encap_then_decap_roundtrips_inner :: "unit option" where
  "test_encap_then_decap_roundtrips_inner = do {
     let inner = overlay_inner_frame;
     let out = replicate (OVERLAY_OVERHEAD + length inner) 0;
     let p = \<lparr> ep_outer_src_mac = MacAddr 0x02 0 0 0 0xaa 1, ep_outer_dst_mac = MacAddr 0x02 0 0 0 0xaa 2,
       ep_outer_src_ip = be32 192 168 0 1, ep_outer_dst_ip = be32 192 168 0 2, ep_vni = 0x000064,
       ep_flow_hash = 0xbeef, ep_ip_id = 0x4242, ep_outer_udp_checksum = True \<rparr>;
     (out, r) \<leftarrow> encap out inner p;
     n \<leftarrow> unwrap (Some r);
     require (n = OVERLAY_OVERHEAD + length inner);
     f \<leftarrow> slice out 0 n;
     eth \<leftarrow> unwrap (Some (EthFrame_parse f));
     pl \<leftarrow> EthFrame_payload eth;
     ip \<leftarrow> unwrap (Ipv4View_parse pl);
     x \<leftarrow> Ipv4View_checksum_valid ip;
     require x;
     l4 \<leftarrow> Ipv4View_payload ip;
     u \<leftarrow> unwrap (Some (UdpView_parse l4));
     stored_udp_ck \<leftarrow> UdpView_checksum u;
     l4 \<leftarrow> wr8 l4 6 0;
     l4 \<leftarrow> wr8 l4 7 0;
     let recomputed = udp_compute_checksum (ep_outer_src_ip p) (ep_outer_dst_ip p) l4;
     require (stored_udp_ck = recomputed);
     d \<leftarrow> unwrap (decap f);
     d \<leftarrow> d;
     require (ah_vni (dc_header d) = 0x000064);
     require (ah_flow_hash (dc_header d) = 0xbeef);
     require (dc_inner d = inner) }"

definition test_decap_ignores_non_andromeda :: "unit option" where
  "test_decap_ignores_non_andromeda = do {
     let v = replicate 6 0xff @ [0x02, 0, 0, 0, 0, 1] @ to_be16 ethertype_ARP @ replicate 28 0;
     d \<leftarrow> unwrap (decap v);
     require (d = None) }"

definition test_flow_hash_is_stable_and_varies :: "unit option" where
  "test_flow_hash_is_stable_and_varies = do {
     let a = flow_hash (be32 10 0 0 1) (be32 10 0 0 2) 6 1234 80;
     let b = flow_hash (be32 10 0 0 1) (be32 10 0 0 2) 6 1234 80;
     let c = flow_hash (be32 10 0 0 1) (be32 10 0 0 2) 6 1235 80;
     require (a = b);
     require (a \<noteq> c) }"

lemma overlay_tests_pass:
  "test_header_roundtrip = Some ()" "test_encap_then_decap_roundtrips_inner = Some ()"
  "test_decap_ignores_non_andromeda = Some ()" "test_flow_hash_is_stable_and_varies = Some ()"
  by (simp_all add: test_header_roundtrip_def test_encap_then_decap_roundtrips_inner_def test_decap_ignores_non_andromeda_def
      test_flow_hash_is_stable_and_varies_def overlay_inner_frame_def flow_hash_def eval_simps cong: eval_cong)

end
