(* ===== verification/Unit_Nat.thy ===== *)
theory Unit_Nat
  imports Unit_Core Nat_Apply
begin

text \<open>
  The unit tests of \<open>andromeda-nat\<close> (\<open>timing_wheel.rs\<close> and \<open>lib.rs\<close>), translated and run on the
  definitions of this development as in \<open>Unit_Core\<close>.
\<close>

section \<open>\<open>timing_wheel.rs\<close>\<close>

text \<open>A loop \<open>for (k, d) in entries { w.insert(k, d) }\<close>.\<close>

fun insert_each :: "('k \<times> u64) list \<Rightarrow> 'k timing_wheel \<Rightarrow> 'k timing_wheel option" where
  "insert_each [] w = Some w"
| "insert_each ((k, d) # ks) w = do { w \<leftarrow> TimingWheel_insert w k d; insert_each ks w }"

definition test_fires_only_after_the_deadline_bucket :: "unit option" where
  "test_fires_only_after_the_deadline_bucket = do {
     w \<leftarrow> TimingWheel_new 10 16;
     w \<leftarrow> TimingWheel_insert w ''a'' 50;
     w \<leftarrow> TimingWheel_insert w ''b'' 90;
     (w, due) \<leftarrow> TimingWheel_advance w 40 [];
     require (due = []);
     (w, due) \<leftarrow> TimingWheel_advance w 55 due;
     require (due = [''a'']);
     (w, due) \<leftarrow> TimingWheel_advance w 95 [];
     require (due = [''b'']);
     require (TimingWheel_is_empty w) }"

definition test_reschedule_extends_the_deadline :: "unit option" where
  "test_reschedule_extends_the_deadline = do {
     w \<leftarrow> TimingWheel_new 10 16;
     w \<leftarrow> TimingWheel_insert w (1 :: u32) 50;
     (w, due) \<leftarrow> TimingWheel_advance w 55 [];
     require (due = [1]);
     w \<leftarrow> TimingWheel_insert w 1 150;
     (w, due) \<leftarrow> TimingWheel_advance w 100 [];
     require (due = []);
     (w, due) \<leftarrow> TimingWheel_advance w 155 due;
     require (due = [1]) }"

definition test_a_long_gap_drains_at_most_one_revolution :: "unit option" where
  "test_a_long_gap_drains_at_most_one_revolution = do {
     w \<leftarrow> TimingWheel_new 1 8;
     w \<leftarrow> insert_each (map (\<lambda>i. (of_nat i :: u32, of_nat i)) [0..<8]) w;
     require (TimingWheel_len w = 8);
     (w, due) \<leftarrow> TimingWheel_advance w 1000 [];
     let due = sort due;
     require (due = [0, 1, 2, 3, 4, 5, 6, 7]);
     require (TimingWheel_is_empty w) }"

definition test_many_entries_same_bucket :: "unit option" where
  "test_many_entries_same_bucket = do {
     w \<leftarrow> TimingWheel_new 10 4;
     w \<leftarrow> insert_each (map (\<lambda>k. (of_nat k :: u32, 25)) [0..<100]) w;
     (w, due) \<leftarrow> TimingWheel_advance w 30 [];
     require (length due = 100) }"

text \<open>Recursion over a numeral count.\<close>

lemmas loop_numeral [eval_simps] =
  advance_loop.simps(2) [where k = "pred_numeral v" for v, folded numeral_eq_Suc]
  alloc_loop.simps(2) [where k = "pred_numeral v" for v, folded numeral_eq_Suc]

lemmas wheel_eval [eval_simps] = TimingWheel_new_def TimingWheel_bucket_of_def TimingWheel_insert_def TimingWheel_advance_def
  TimingWheel_len_def TimingWheel_is_empty_def upt_rec

lemma timing_wheel_tests_pass:
  "test_fires_only_after_the_deadline_bucket = Some ()" "test_reschedule_extends_the_deadline = Some ()"
  "test_a_long_gap_drains_at_most_one_revolution = Some ()" "test_many_entries_same_bucket = Some ()"
  by (simp_all add: test_fires_only_after_the_deadline_bucket_def test_reschedule_extends_the_deadline_def
      test_a_long_gap_drains_at_most_one_revolution_def test_many_entries_same_bucket_def eval_simps cong: eval_cong)

section \<open>\<open>lib.rs\<close>: the engine\<close>

definition tuple :: "string \<Rightarrow> u16 \<Rightarrow> string \<Rightarrow> u16 \<Rightarrow> u8 \<Rightarrow> five_tuple option" where
  "tuple s sp d dp pr = do {
     src \<leftarrow> ipv4_from_str s;
     dst \<leftarrow> ipv4_from_str d;
     Some \<lparr> src_ip = src, dst_ip = dst, protocol = pr, src_port = sp, dst_port = dp \<rparr> }"

definition test_snat_allocates_and_reverses :: "unit option" where
  "test_snat_allocates_and_reverses = do {
     pub \<leftarrow> ipv4_from_str ''203.0.113.7'';
     nat \<leftarrow> NatEngine_new pub 20000 20010;
     out \<leftarrow> tuple ''10.0.0.5'' 40000 ''1.1.1.1'' 443 proto_TCP;
     (nat, rw) \<leftarrow> NatEngine_process nat out Outbound 1;
     require (new_src_ip rw = Some pub);
     nat_port \<leftarrow> new_src_port rw;
     (nat, rw2) \<leftarrow> NatEngine_process nat out Outbound 2;
     require (new_src_port rw2 = Some nat_port);
     require (snat_created (NatEngine_stats nat) = 1);
     require (snat_hits (NatEngine_stats nat) = 1);
     reply \<leftarrow> tuple ''1.1.1.1'' 443 ''203.0.113.7'' nat_port proto_TCP;
     (nat, rrw) \<leftarrow> NatEngine_process nat reply Inbound 3;
     priv \<leftarrow> ipv4_from_str ''10.0.0.5'';
     require (new_dst_ip rrw = Some priv);
     require (new_dst_port rrw = Some 40000) }"

definition test_dnat_forwards_and_reverses :: "unit option" where
  "test_dnat_forwards_and_reverses = do {
     pub \<leftarrow> ipv4_from_str ''203.0.113.7'';
     nat \<leftarrow> NatEngine_new pub 20000 20010;
     server \<leftarrow> ipv4_from_str ''10.0.0.9'';
     let nat = NatEngine_add_dnat_rule nat \<lparr> rule_protocol = proto_TCP, ext_port = 80, to_ip = server, to_port = 8080 \<rparr>;
     inbound \<leftarrow> tuple ''8.8.8.8'' 51000 ''203.0.113.7'' 80 proto_TCP;
     (nat, rw) \<leftarrow> NatEngine_process nat inbound Inbound 1;
     require (new_dst_ip rw = Some server);
     require (new_dst_port rw = Some 8080);
     server_reply \<leftarrow> tuple ''10.0.0.9'' 8080 ''8.8.8.8'' 51000 proto_TCP;
     (nat, rrw) \<leftarrow> NatEngine_process nat server_reply Outbound 2;
     require (new_src_ip rrw = Some pub);
     require (new_src_port rrw = Some 80) }"

definition test_gc_frees_ports :: "unit option" where
  "test_gc_frees_ports = do {
     pub \<leftarrow> ipv4_from_str ''203.0.113.7'';
     nat \<leftarrow> NatEngine_new pub 20000 20001;
     let nat = NatEngine_set_idle_timeout nat 5000;
     t1 \<leftarrow> tuple ''10.0.0.1'' 1 ''1.1.1.1'' 80 proto_TCP;
     (nat, _) \<leftarrow> NatEngine_process nat t1 Outbound 1000;
     t2 \<leftarrow> tuple ''10.0.0.2'' 2 ''1.1.1.1'' 80 proto_TCP;
     (nat, _) \<leftarrow> NatEngine_process nat t2 Outbound 1000;
     require (NatEngine_active_bindings nat = 2);
     require (port_exhausted (NatEngine_stats nat) = 0);
     (nat, freed) \<leftarrow> NatEngine_gc nat 4000 5000;
     require (freed = 0);
     require (NatEngine_active_bindings nat = 2);
     (nat, freed) \<leftarrow> NatEngine_gc nat 10000 5000;
     require (freed = 2);
     require (NatEngine_active_bindings nat = 0);
     t3 \<leftarrow> tuple ''10.0.0.3'' 3 ''1.1.1.1'' 80 proto_TCP;
     (nat, rw) \<leftarrow> NatEngine_process nat t3 Outbound 11000;
     require (new_src_port rw \<noteq> None) }"

definition test_gc_keeps_a_flow_still_seeing_reply_traffic :: "unit option" where
  "test_gc_keeps_a_flow_still_seeing_reply_traffic = do {
     pub \<leftarrow> ipv4_from_str ''203.0.113.7'';
     nat \<leftarrow> NatEngine_new pub 20000 20005;
     let nat = NatEngine_set_idle_timeout nat 5000;
     out \<leftarrow> tuple ''10.0.0.1'' 1234 ''1.1.1.1'' 80 proto_TCP;
     (nat, rw) \<leftarrow> NatEngine_process nat out Outbound 1000;
     nat_port \<leftarrow> new_src_port rw;
     reply \<leftarrow> tuple ''1.1.1.1'' 80 ''203.0.113.7'' nat_port proto_TCP;
     (nat, _) \<leftarrow> NatEngine_process nat reply Inbound 9000;
     (nat, freed) \<leftarrow> NatEngine_gc nat 10000 5000;
     require (freed = 0);
     require (NatEngine_active_bindings nat = 1);
     (nat, freed) \<leftarrow> NatEngine_gc nat 20000 5000;
     require (freed = 1);
     require (NatEngine_active_bindings nat = 0) }"

lemma nat_literals [eval_simps]:
  "ipv4_from_str ''203.0.113.7'' = Some 0xcb007107" "ipv4_from_str ''1.1.1.1'' = Some 0x01010101"
  "ipv4_from_str ''8.8.8.8'' = Some 0x08080808" "ipv4_from_str ''10.0.0.2'' = Some 0x0a000002"
  "ipv4_from_str ''10.0.0.3'' = Some 0x0a000003" "ipv4_from_str ''10.0.0.5'' = Some 0x0a000005"
  "ipv4_from_str ''10.0.0.9'' = Some 0x0a000009"
  by code_simp+

text \<open>The number of entries of a table.\<close>

lemmas fcard_eval [eval_simps] = fcard_fempty fcard_finsert_if finsert_fminus_if

lemmas nat_eval [eval_simps] = NatEngine_new_def NatStats_default_def Rewrite_default_def NatEngine_add_dnat_rule_def
  NatEngine_set_idle_timeout_def NatEngine_stats_def NatEngine_active_bindings_def NatEngine_alloc_port_def reply_tuple_def
  NatEngine_process_outbound_def NatEngine_process_inbound_def NatEngine_process_def MAX_DNAT_BINDINGS_def
  gc_step_def NatEngine_gc_def fm_retain_def saturating_add_def saturating_sub_def

lemma nat_engine_tests_pass:
  "test_snat_allocates_and_reverses = Some ()" "test_dnat_forwards_and_reverses = Some ()"
  "test_gc_frees_ports = Some ()" "test_gc_keeps_a_flow_still_seeing_reply_traffic = Some ()"
  by (simp_all add: test_snat_allocates_and_reverses_def test_dnat_forwards_and_reverses_def
      test_gc_frees_ports_def test_gc_keeps_a_flow_still_seeing_reply_traffic_def tuple_def eval_simps cong: eval_cong)

section \<open>\<open>lib.rs\<close>: the packet rewrite\<close>

definition test_apply_snat_to_real_tcp_packet :: "unit option" where
  "test_apply_snat_to_real_tcp_packet = do {
     src \<leftarrow> ipv4_from_str ''10.0.0.5'';
     dst \<leftarrow> ipv4_from_str ''1.1.1.1'';
     let tcp_seg = [0x9c, 0x40, 0x01, 0xbb, 0, 0, 0, 1, 0, 0, 0, 0, 0x50, 0x02, 0x72, 0x10, 0, 0, 0, 0];
     let c = tcp_compute_checksum src dst tcp_seg;
     tcp_seg \<leftarrow> put tcp_seg 16 18 (to_be16 c);
     let pkt = replicate (IPV4_MIN_HDR_LEN + length tcp_seg) 0;
     (pkt, _) \<leftarrow> sub_mut pkt 0 20 (\<lambda>s. ipv4_write_header s src dst proto_TCP 64 1 True (of_nat (length tcp_seg)));
     pkt \<leftarrow> put pkt 20 (length pkt) tcp_seg;
     new_src \<leftarrow> ipv4_from_str ''203.0.113.7'';
     let rw = Rewrite_default \<lparr> new_src_ip := Some new_src, new_src_port := Some 20000 \<rparr>;
     (pkt, r) \<leftarrow> nat_apply pkt rw;
     _ \<leftarrow> unwrap (Some r);
     v \<leftarrow> unwrap (Ipv4View_parse pkt);
     x \<leftarrow> Ipv4View_checksum_valid v;
     require x;
     x \<leftarrow> Ipv4View_src v;
     require (x = new_src);
     seg \<leftarrow> slice_from pkt 20;
     t \<leftarrow> unwrap (TcpView_parse seg);
     stored \<leftarrow> TcpView_checksum t;
     seg0 \<leftarrow> wr8 seg 16 0;
     seg0 \<leftarrow> wr8 seg0 17 0;
     let recomputed = tcp_compute_checksum new_src dst seg0;
     require (stored = recomputed);
     t \<leftarrow> unwrap (TcpView_parse seg);
     x \<leftarrow> TcpView_src_port t;
     require (x = 20000) }"

definition test_apply_dnat_to_real_udp_packet :: "unit option" where
  "test_apply_dnat_to_real_udp_packet = do {
     src \<leftarrow> ipv4_from_str ''8.8.8.8'';
     dst \<leftarrow> ipv4_from_str ''203.0.113.7'';
     let payload = byte_str ''query'';
     let udp_dg = replicate (UDP_HDR_LEN + length payload) 0;
     (udp_dg, _) \<leftarrow> udp_write_header udp_dg 51000 53 (of_nat (length payload));
     udp_dg \<leftarrow> put udp_dg UDP_HDR_LEN (length udp_dg) payload;
     let c = udp_compute_checksum src dst udp_dg;
     udp_dg \<leftarrow> put udp_dg 6 8 (to_be16 c);
     let pkt = replicate (IPV4_MIN_HDR_LEN + length udp_dg) 0;
     (pkt, _) \<leftarrow> sub_mut pkt 0 20 (\<lambda>s. ipv4_write_header s src dst proto_UDP 64 1 True (of_nat (length udp_dg)));
     pkt \<leftarrow> put pkt 20 (length pkt) udp_dg;
     new_dst \<leftarrow> ipv4_from_str ''10.0.0.9'';
     let rw = Rewrite_default \<lparr> new_dst_ip := Some new_dst, new_dst_port := Some 5353 \<rparr>;
     (pkt, r) \<leftarrow> nat_apply pkt rw;
     _ \<leftarrow> unwrap (Some r);
     v \<leftarrow> unwrap (Ipv4View_parse pkt);
     x \<leftarrow> Ipv4View_checksum_valid v;
     require x;
     dg \<leftarrow> slice_from pkt 20;
     u \<leftarrow> unwrap (Some (UdpView_parse dg));
     stored \<leftarrow> UdpView_checksum u;
     dg0 \<leftarrow> wr8 dg 6 0;
     dg0 \<leftarrow> wr8 dg0 7 0;
     let recomputed = udp_compute_checksum src new_dst dg0;
     require (stored = recomputed);
     u \<leftarrow> unwrap (Some (UdpView_parse dg));
     x \<leftarrow> UdpView_dst_port u;
     require (x = 5353) }"

lemmas apply_eval [eval_simps] = nat_apply_def l4_rewrite_def Rewrite_is_noop_def Ipv4ViewMut_ihl_bytes_def
  Ipv4ViewMut_protocol_def TcpViewMut_set_src_port_def TcpViewMut_set_dst_port_def TcpViewMut_src_port_def
  TcpViewMut_dst_port_def TcpViewMut_patch_checksum_word_def UdpViewMut_set_src_port_def UdpViewMut_src_port_def
  UdpViewMut_patch_checksum_dword_def

lemma nat_apply_tests_pass:
  "test_apply_snat_to_real_tcp_packet = Some ()" "test_apply_dnat_to_real_udp_packet = Some ()"
  by (simp_all add: test_apply_snat_to_real_tcp_packet_def test_apply_dnat_to_real_udp_packet_def byte_str_def
      eval_simps cong: eval_cong)

end
