(* ===== verification/Unit_Control.thy ===== *)
theory Unit_Control
  imports Unit_Nat Control_Socket
begin

text \<open>
  The unit tests of \<open>andromeda-control\<close> (\<open>lib.rs\<close>, \<open>config.rs\<close>) and of the control socket
  (\<open>andromeda-dataplane/src/control.rs\<close>), translated and run on the definitions of this
  development as in \<open>Unit_Core\<close>. The TOML decoder and the file system are parameters; where a
  test fixes a text, what the decoder makes of that text is a hypothesis.
\<close>

section \<open>\<open>lib.rs\<close>: the fabric\<close>

definition fab_mac :: "u8 \<Rightarrow> mac_addr" where
  "fab_mac n = MacAddr 0x02 0 0 0 0 n"

definition test_cidr_membership :: "unit option" where
  "test_cidr_membership = do {
     net \<leftarrow> ipv4_from_str ''10.0.0.0'';
     let v = \<lparr> v_vni = 100, v_name = ''web'', v_cidr = (net, 24) \<rparr>;
     a \<leftarrow> ipv4_from_str ''10.0.0.42'';
     require (Vpc_contains v a);
     b \<leftarrow> ipv4_from_str ''10.0.1.1'';
     require (\<not> Vpc_contains v b) }"

definition test_resolve_across_nodes :: "unit option" where
  "test_resolve_across_nodes = do {
     here \<leftarrow> ipv4_from_str ''192.168.1.1'';
     let fab = Fabric_new here;
     net \<leftarrow> ipv4_from_str ''10.0.0.0'';
     let fab = Fabric_add_vpc fab \<lparr> v_vni = 100, v_name = ''web'', v_cidr = (net, 24) \<rparr>;
     ten \<leftarrow> ipv4_from_str ''10.0.0.10'';
     let fab = Fabric_add_endpoint fab
       \<lparr> e_vni = 100, e_inner_ip = ten, e_inner_mac = fab_mac 0x10, e_node_ip = here, e_local = True \<rparr>;
     twenty \<leftarrow> ipv4_from_str ''10.0.0.20'';
     there \<leftarrow> ipv4_from_str ''192.168.1.2'';
     let fab = Fabric_add_endpoint fab
       \<lparr> e_vni = 100, e_inner_ip = twenty, e_inner_mac = fab_mac 0x20, e_node_ip = there, e_local = False \<rparr>;
     nh \<leftarrow> Fabric_resolve fab 100 twenty;
     require (nh_node_ip nh = there);
     require (nh_inner_mac nh = fab_mac 0x20);
     require (\<not> nh_local nh);
     local \<leftarrow> Fabric_resolve fab 100 ten;
     require (nh_local local);
     other \<leftarrow> ipv4_from_str ''10.0.0.99'';
     require (Fabric_resolve fab 100 other = None);
     require (Fabric_resolve fab 200 twenty = None);
     require (fcard (Fabric_local_endpoints fab) = 1) }"

lemma control_literals [eval_simps]:
  "ipv4_from_str ''10.0.0.0'' = Some 0x0a000000" "ipv4_from_str ''10.0.0.42'' = Some 0x0a00002a"
  "ipv4_from_str ''10.0.1.1'' = Some 0x0a000101" "ipv4_from_str ''10.0.0.99'' = Some 0x0a000063"
  "ipv4_from_str ''192.168.1.1'' = Some 0xc0a80101" "ipv4_from_str ''192.168.1.2'' = Some 0xc0a80102"
  "ipv4_from_str ''192.168.1.3'' = Some 0xc0a80103"
  "ipv4_from_str ''10.9.0.0'' = Some 0x0a090000" "ipv4_from_str ''10.9.0.254'' = Some 0x0a0900fe"
  "ipv4_from_str ''10.9.0.1'' = Some 0x0a090001" "ipv4_from_str ''nope'' = None"
  by code_simp+

lemma mac_literals [eval_simps]:
  "MacAddr_from_str ''02:00:00:00:00:ff'' = Some (Inr (MacAddr 0x02 0 0 0 0 0xff))"
  "MacAddr_from_str ''02:00:00:00:00:20'' = Some (Inr (MacAddr 0x02 0 0 0 0 0x20))"
  "MacAddr_from_str ''aa:bb:cc:00:00:10'' = Some (Inr (MacAddr 0xaa 0xbb 0xcc 0 0 0x10))"
  "MacAddr_from_str ''aa:bb:cc:00:00:20'' = Some (Inr (MacAddr 0xaa 0xbb 0xcc 0 0 0x20))"
  "MacAddr_from_str ''aa:bb:cc:00:01:05'' = Some (Inr (MacAddr 0xaa 0xbb 0xcc 0 0x01 0x05))"
  "MacAddr_from_str ''aa:bb:cc:00:02:05'' = Some (Inr (MacAddr 0xaa 0xbb 0xcc 0 0x02 0x05))"
  by code_simp+

lemmas fabric_eval [eval_simps] = Fabric_new_def Fabric_add_vpc_def Fabric_add_endpoint_def Fabric_resolve_def Fabric_vpc_def
  hop_of_def

text \<open>The values of a map built by updates at new keys.\<close>

lemma fmran_fmupd_eval [eval_simps]: "fmlookup m k = None \<Longrightarrow> fmran (fmupd k v m) = finsert v (fmran m)"
  by (rule fset_eqI, simp add: fmlookup_ran_iff) (metis option.inject option.distinct(1))

lemma ffilter_finsert_eval [eval_simps]:
  "ffilter P (finsert x A) = (if P x then finsert x (ffilter P A) else ffilter P A)" "ffilter P {||} = {||}"
  by (rule fset_eqI; auto)+

lemma cidr_test_passes: "test_cidr_membership = Some ()"
  by code_simp

lemma fabric_test_passes: "test_resolve_across_nodes = Some ()"
  by (simp add: test_resolve_across_nodes_def fab_mac_def
      Fabric_local_endpoints_def fcard_finsert_if fcard_fempty eval_simps cong: eval_cong)

section \<open>\<open>config.rs\<close>\<close>

text \<open>What the decoder makes of the texts of the tests: \<open>raw_form\<close> is a configuration in which only
  the mandatory field is given.\<close>

definition raw_form :: "string \<Rightarrow> raw_config" where
  "raw_form node = \<lparr> rc_local_node = node, rc_peer_node = None, rc_vni = None, rc_virtual_gateway_mac = None,
     rc_virtual_gateway_ip = None, rc_nat_ip = None, rc_vpc_cidr = None, rc_underlay_mtu = None,
     rc_endpoints = [], rc_vpcs = [] \<rparr>"

definition raw_SAMPLE :: raw_config where
  "raw_SAMPLE = (raw_form ''192.168.1.1'')
     \<lparr> rc_peer_node := Some ''192.168.1.2'', rc_vni := Some 100, rc_virtual_gateway_mac := Some ''02:00:00:00:00:ff'',
       rc_nat_ip := Some ''203.0.113.7'', rc_vpc_cidr := Some ''10.0.0.0/24'',
       rc_endpoints :=
         [\<lparr> re_inner_ip = ''10.0.0.10'', re_inner_mac = ''aa:bb:cc:00:00:10'', re_node_ip = ''192.168.1.1'', re_local = True \<rparr>,
          \<lparr> re_inner_ip = ''10.0.0.20'', re_inner_mac = ''aa:bb:cc:00:00:20'', re_node_ip = ''192.168.1.2'', re_local = False \<rparr>] \<rparr>"

definition test_parses_full_config :: "(string \<Rightarrow> string + raw_config) \<Rightarrow> string \<Rightarrow> unit option" where
  "test_parses_full_config from_str SAMPLE = do {
     c \<leftarrow> unwrap (NodeConfig_parse from_str SAMPLE);
     here \<leftarrow> ipv4_from_str ''192.168.1.1'';
     require (nc_local_node c = here);
     there \<leftarrow> ipv4_from_str ''192.168.1.2'';
     require (nc_peer_node c = Some there);
     require (nc_vni c = 100);
     require (nc_virtual_gateway_mac c = MacAddr 0x02 0 0 0 0 0xff);
     pub \<leftarrow> ipv4_from_str ''203.0.113.7'';
     require (nc_nat_ip c = Some pub);
     require (length (nc_endpoints c) = 2);
     let fab = NodeConfig_build_fabric c;
     twenty \<leftarrow> ipv4_from_str ''10.0.0.20'';
     nh \<leftarrow> Fabric_resolve fab 100 twenty;
     require (nh_node_ip nh = there);
     m \<leftarrow> unwrap (MacAddr_from_str ''aa:bb:cc:00:00:20'');
     require (nh_inner_mac nh = m);
     require (NodeConfig_served_vnis c = [100]) }"

definition raw_two_vpcs :: raw_config where
  "raw_two_vpcs = (raw_form ''192.168.1.1'')
     \<lparr> rc_virtual_gateway_mac := Some ''02:00:00:00:00:ff'',
       rc_vpcs :=
         [\<lparr> rv_vni = 100, rv_cidr = Some ''10.0.0.0/24'', rv_endpoints =
            [\<lparr> re_inner_ip = ''10.0.0.5'', re_inner_mac = ''aa:bb:cc:00:01:05'', re_node_ip = ''192.168.1.2'', re_local = False \<rparr>] \<rparr>,
          \<lparr> rv_vni = 200, rv_cidr = Some ''10.0.0.0/24'', rv_endpoints =
            [\<lparr> re_inner_ip = ''10.0.0.5'', re_inner_mac = ''aa:bb:cc:00:02:05'', re_node_ip = ''192.168.1.3'', re_local = False \<rparr>] \<rparr>] \<rparr>"

definition test_multi_vpc_parses_and_isolates :: "(string \<Rightarrow> string + raw_config) \<Rightarrow> string \<Rightarrow> unit option" where
  "test_multi_vpc_parses_and_isolates from_str toml = do {
     c \<leftarrow> unwrap (NodeConfig_parse from_str toml);
     require (NodeConfig_served_vnis c = [100, 200]);
     require (length (nc_endpoints c) = 2);
     require (nc_vni c = 100);
     let fab = NodeConfig_build_fabric c;
     five \<leftarrow> ipv4_from_str ''10.0.0.5'';
     a \<leftarrow> Fabric_resolve fab 100 five;
     b \<leftarrow> Fabric_resolve fab 200 five;
     two \<leftarrow> ipv4_from_str ''192.168.1.2'';
     require (nh_node_ip a = two);
     three \<leftarrow> ipv4_from_str ''192.168.1.3'';
     require (nh_node_ip b = three);
     require (nh_node_ip a \<noteq> nh_node_ip b);
     require (nh_inner_mac a \<noteq> nh_inner_mac b) }"

text \<open>\<open>str::contains\<close>.\<close>

definition contains :: "string \<Rightarrow> string \<Rightarrow> bool" where
  "contains s t = list_ex (\<lambda>i. take (length t) (drop i s) = t) [0..<length s + 1]"

definition test_config_without_vni_is_rejected :: "(string \<Rightarrow> string + raw_config) \<Rightarrow> string \<Rightarrow> unit option" where
  "test_config_without_vni_is_rejected from_str toml = do {
     r \<leftarrow> NodeConfig_parse from_str toml;
     (case r of Inr _ \<Rightarrow> None | Inl err \<Rightarrow>
        require (contains (ConfigError_to_string err) ''vni'' \<or> contains (ConfigError_to_string err) ''vpc'')) }"

definition test_minimal_config_defaults :: "(string \<Rightarrow> string + raw_config) \<Rightarrow> string \<Rightarrow> unit option" where
  "test_minimal_config_defaults from_str toml = do {
     c \<leftarrow> unwrap (NodeConfig_parse from_str toml);
     require (nc_vni c = 7);
     require (nc_virtual_gateway_mac c = MacAddr 0x02 0 0 0 0 0xff);
     require (nc_peer_node c = None);
     require (nc_endpoints c = []);
     require (snd (nc_vpc_cidr c) = 0);
     require (nc_underlay_mtu c = 1500) }"

definition test_parses_mtu_and_gateway_ip ::
    "(string \<Rightarrow> string + raw_config) \<Rightarrow> string \<Rightarrow> string \<Rightarrow> string \<Rightarrow> unit option" where
  "test_parses_mtu_and_gateway_ip from_str explicit defaults small = do {
     c \<leftarrow> unwrap (NodeConfig_parse from_str explicit);
     require (nc_underlay_mtu c = 9000);
     gw \<leftarrow> ipv4_from_str ''10.9.0.254'';
     require (nc_virtual_gateway_ip c = gw);
     d \<leftarrow> unwrap (NodeConfig_parse from_str defaults);
     require (nc_underlay_mtu d = 1500);
     one \<leftarrow> ipv4_from_str ''10.9.0.1'';
     require (nc_virtual_gateway_ip d = one);
     e \<leftarrow> is_err (NodeConfig_parse from_str small);
     require e }"

definition test_rejects_bad_ip :: "(string \<Rightarrow> string + raw_config) \<Rightarrow> string \<Rightarrow> unit option" where
  "test_rejects_bad_ip from_str toml = do {
     r \<leftarrow> NodeConfig_parse from_str toml;
     (case r of Inr _ \<Rightarrow> None | Inl err \<Rightarrow> require (contains (ConfigError_to_string err) ''local_node'')) }"

lemma cidr_literals [eval_simps]:
  "parse_cidr ''10.0.0.0/24'' = Some (Inr (0x0a000000, 24))" "parse_cidr ''10.9.0.0/24'' = Some (Inr (0x0a090000, 24))"
  by code_simp+

lemma contains_literals [eval_simps]:
  "contains (ConfigError_to_string (ConfigError ''config needs a `vni` or at least one `[[vpc]]`'')) ''vni''"
  "contains (ConfigError_to_string (ConfigError ''bad local_node: nope'')) ''local_node''"
  by code_simp+

lemmas config_eval [eval_simps] = parse_ip_def parse_mac_def opt_parse_def parse_endpoint_def parse_endpoints_def
  cidr_or_any_def parse_vpc_def parse_vpcs_def default_gateway_mac_def NodeConfig_finish_def NodeConfig_parse_def
  NodeConfig_served_vnis_def add_vpc_spec_def NodeConfig_build_fabric_def raw_form_def raw_SAMPLE_def raw_two_vpcs_def

lemma config_tests_pass:
  "from_str text = Inr raw_SAMPLE \<Longrightarrow> test_parses_full_config from_str text = Some ()"
  "from_str text = Inr raw_two_vpcs \<Longrightarrow> test_multi_vpc_parses_and_isolates from_str text = Some ()"
  "from_str text = Inr (raw_form ''192.168.1.1'') \<Longrightarrow> test_config_without_vni_is_rejected from_str text = Some ()"
  "from_str text = Inr ((raw_form ''192.168.1.1'') \<lparr> rc_vni := Some 7 \<rparr>) \<Longrightarrow>
     test_minimal_config_defaults from_str text = Some ()"
  "from_str text = Inr ((raw_form ''nope'') \<lparr> rc_vni := Some 1 \<rparr>) \<Longrightarrow> test_rejects_bad_ip from_str text = Some ()"
  by (simp_all add: test_parses_full_config_def test_multi_vpc_parses_and_isolates_def test_config_without_vni_is_rejected_def
      test_minimal_config_defaults_def test_rejects_bad_ip_def eval_simps cong: eval_cong)

lemma config_mtu_tests_pass:
  assumes "from_str t1 = Inr ((raw_form ''192.168.1.1'') \<lparr> rc_vni := Some 5, rc_vpc_cidr := Some ''10.9.0.0/24'',
      rc_underlay_mtu := Some 9000, rc_virtual_gateway_ip := Some ''10.9.0.254'' \<rparr>)"
    and "from_str t2 = Inr ((raw_form ''192.168.1.1'') \<lparr> rc_vni := Some 5, rc_vpc_cidr := Some ''10.9.0.0/24'' \<rparr>)"
    and "from_str t3 = Inr ((raw_form ''192.168.1.1'') \<lparr> rc_vni := Some 5, rc_underlay_mtu := Some 20 \<rparr>)"
  shows "test_parses_mtu_and_gateway_ip from_str t1 t2 t3 = Some ()"
  by (simp add: test_parses_mtu_and_gateway_ip_def assms eval_simps cong: eval_cong)

section \<open>\<open>control.rs\<close>\<close>

text \<open>The tests write their configuration to a file in the temporary directory, named after the
  process: \<open>path\<close> below. What reading and decoding it gives is a hypothesis.\<close>

definition test_handle :: "fabric option" where
  "test_handle = do { here \<leftarrow> ipv4_from_str ''192.168.1.1''; Some (Fabric_new here) }"

definition starts_with :: "string \<Rightarrow> string \<Rightarrow> bool" where
  "starts_with s t \<longleftrightarrow> take (length t) s = t"

definition test_reload_command_swaps_fabric ::
    "(string \<Rightarrow> nat \<Rightarrow> string + string) \<Rightarrow> (string \<Rightarrow> string + raw_config) \<Rightarrow> string \<Rightarrow> unit option" where
  "test_reload_command_swaps_fabric read_file from_str path = do {
     h \<leftarrow> test_handle;
     twenty \<leftarrow> ipv4_from_str ''10.0.0.20'';
     require (Fabric_resolve h 100 twenty = None);
     (h, reply) \<leftarrow> apply_command read_file from_str (''reload '' @ path) h;
     require (starts_with reply ''ok'');
     nh \<leftarrow> Fabric_resolve h 100 twenty;
     there \<leftarrow> ipv4_from_str ''192.168.1.2'';
     require (nh_node_ip nh = there) }"

definition raw_ctl_a :: raw_config where
  "raw_ctl_a = (raw_form ''192.168.1.1'') \<lparr> rc_vni := Some 100, rc_vpc_cidr := Some ''10.0.0.0/24'',
     rc_endpoints :=
       [\<lparr> re_inner_ip = ''10.0.0.20'', re_inner_mac = ''02:00:00:00:00:20'', re_node_ip = ''192.168.1.2'', re_local = False \<rparr>] \<rparr>"

definition test_bad_command_and_bad_path ::
    "(string \<Rightarrow> nat \<Rightarrow> string + string) \<Rightarrow> (string \<Rightarrow> string + raw_config) \<Rightarrow> unit option" where
  "test_bad_command_and_bad_path read_file from_str = do {
     h \<leftarrow> test_handle;
     (h, r) \<leftarrow> apply_command read_file from_str ''wat'' h;
     require (starts_with r ''err'');
     (h, r) \<leftarrow> apply_command read_file from_str ''reload'' h;
     require (starts_with r ''err'');
     (h, r) \<leftarrow> apply_command read_file from_str ''reload /no/such/file.toml'' h;
     require (starts_with r ''err'');
     (h, r) \<leftarrow> apply_command read_file from_str ''ping'' h;
     require (r = ''ok pong'') }"

text \<open>\<open>writeln!\<close> ends the line with a line feed; the reply is read to the end of the stream.\<close>

definition test_end_to_end_over_the_socket ::
    "(string \<Rightarrow> nat \<Rightarrow> string + string) \<Rightarrow> (string \<Rightarrow> string + raw_config) \<Rightarrow> string \<Rightarrow> unit option" where
  "test_end_to_end_over_the_socket read_file from_str path = do {
     h \<leftarrow> test_handle;
     (h, replies) \<leftarrow> serve_loop read_file from_str h
       [Some \<lparr> cn_line = Some (''reload '' @ path @ [CHR 0x0A]), cn_clones = True \<rparr>];
     (case replies of [Some reply] \<Rightarrow> require (starts_with reply ''ok'') | _ \<Rightarrow> None) }"

lemma blank_literals: "blank []" "blank '' ''" "blank [CHR 0x0A]"
proof -
  have "blank w" if "w \<in> set ws_chars" for w using that by (auto simp: blank_def intro: exI [of _ "[w]"])
  moreover have "char_of (32 :: nat) = CHR '' ''" "char_of (10 :: nat) = CHR 0x0A" by code_simp+
  then have "'' '' \<in> set ws_chars" "[CHR 0x0A] \<in> set ws_chars" by (simp_all add: ws_chars_def)
  ultimately show "blank '' ''" "blank [CHR 0x0A]" by blast+
  show "blank []" by (auto simp: blank_def intro: exI [of _ "[]"])
qed

lemma split_ws_single: "list_all is_graph p \<Longrightarrow> split_ws p = (p, None)"
  using lead_len_word [OF ws_chars_code(1)] by (induction p) auto

lemma control_words:
  assumes "w \<in> {''wat'', ''reload'', ''ping''}"
  shows "split_ws (str_trim w) = (w, None)"
  using assms str_trim_word [OF blank_literals(1,1), of w] split_ws_single [of w] by (auto simp: is_word_def is_graph_def)

lemma reload_line:
  assumes "is_word path" and "nl = [] \<or> nl = [CHR 0x0A]"
  obtains rest where "split_ws (str_trim (''reload '' @ path @ nl)) = (''reload'', Some rest)" "str_trim rest = path" "path \<noteq> []"
  using reload_words [OF blank_literals(1,2) _ _ assms(1), of nl] assms blank_literals by (auto simp: is_word_def)

lemma apply_reload:
  assumes "is_word path" and "nl = [] \<or> nl = [CHR 0x0A]" and "read_file path 1048576 = Inr text"
    and "NodeConfig_parse from_str text = Some (Inr nc)"
  shows "\<exists>s. apply_command read_file from_str (''reload '' @ path @ nl) h = Some (NodeConfig_build_fabric nc, ''ok'' @ s)"
proof -
  obtain rest where "split_ws (str_trim (''reload '' @ path @ nl)) = (''reload'', Some rest)" "str_trim rest = path" "path \<noteq> []"
    using assms(1,2) by (rule reload_line)
  then show ?thesis using assms(3,4) by (simp add: apply_command_def NodeConfig_load_def Let_def)
qed

lemma test_reload_command_passes:
  assumes "is_word path" and "read_file path 1048576 = Inr text" and "from_str text = Inr raw_ctl_a"
  shows "test_reload_command_swaps_fabric read_file from_str path = Some ()"
proof -
  obtain nc where "NodeConfig_parse from_str text = Some (Inr nc)"
      "Fabric_resolve (NodeConfig_build_fabric nc) 100 0x0a000014 =
        Some \<lparr> nh_node_ip = 0xc0a80102, nh_inner_mac = MacAddr 0x02 0 0 0 0 0x20, nh_local = False \<rparr>"
    by (simp add: assms(3) raw_ctl_a_def eval_simps cong: eval_cong)
  moreover from this obtain s where
    "apply_command read_file from_str (''reload '' @ path @ []) (Fabric_new 0xc0a80101) = Some (NodeConfig_build_fabric nc, ''ok'' @ s)"
    using apply_reload [where path = path and nl = "[]", OF assms(1)] assms(2) by blast
  ultimately show ?thesis
    by (simp add: test_reload_command_swaps_fabric_def test_handle_def starts_with_def control_literals ipv4_literals)
qed

lemma test_end_to_end_passes:
  assumes "is_word path" and "read_file path 1048576 = Inr text"
    and "from_str text = Inr ((raw_form ''192.168.1.1'') \<lparr> rc_vni := Some 7 \<rparr>)"
  shows "test_end_to_end_over_the_socket read_file from_str path = Some ()"
proof -
  obtain nc where "NodeConfig_parse from_str text = Some (Inr nc)"
    by (simp add: assms(3) eval_simps cong: eval_cong)
  then obtain s where
    "apply_command read_file from_str (''reload '' @ path @ [CHR 0x0A]) (Fabric_new 0xc0a80101) = Some (NodeConfig_build_fabric nc, ''ok'' @ s)"
    using apply_reload [where path = path and nl = "[CHR 0x0A]", OF assms(1)] assms(2) by blast
  then show ?thesis
    by (auto simp: test_end_to_end_over_the_socket_def test_handle_def control_literals handle_conn_def starts_with_def)
qed

lemma test_bad_command_passes:
  assumes "read_file ''/no/such/file.toml'' 1048576 = Inl e"
  shows "test_bad_command_and_bad_path read_file from_str = Some ()"
proof -
  have "is_word ''/no/such/file.toml''" by (simp add: is_word_def is_graph_def)
  then obtain rest where rest: "split_ws (str_trim (''reload '' @ ''/no/such/file.toml'' @ [])) = (''reload'', Some rest)"
      "str_trim rest = ''/no/such/file.toml''"
    using reload_line by blast
  have "apply_command read_file from_str ''wat'' h = Some (h, ''err usage: `reload <config.toml>` | `ping`'')"
    "apply_command read_file from_str ''reload'' h = Some (h, ''err usage: `reload <config.toml>` | `ping`'')"
    "apply_command read_file from_str ''ping'' h = Some (h, ''ok pong'')" for h
    by (simp_all add: apply_command_def control_words)
  moreover have "\<exists>m. apply_command read_file from_str ''reload /no/such/file.toml'' h = Some (h, ''err '' @ m)" for h
    using rest assms by (simp add: apply_command_def NodeConfig_load_def)
  moreover obtain m where "apply_command read_file from_str ''reload /no/such/file.toml'' (Fabric_new 0xc0a80101) =
      Some (Fabric_new 0xc0a80101, ''err '' @ m)" using calculation(4) by blast
  ultimately show ?thesis
    by (simp add: test_bad_command_and_bad_path_def test_handle_def control_literals starts_with_def)
qed

end
