(* ===== verification/Unit_Dataplane.thy ===== *)
theory Unit_Dataplane
  imports Unit_Control Spsc Pipeline
begin

text \<open>
  The unit tests of \<open>andromeda-dataplane\<close> (\<open>spsc.rs\<close>, \<open>pipeline.rs\<close>), translated and run on the
  definitions of this development as in \<open>Unit_Core\<close>. The two tests of the queue with two
  threads (\<open>two_thread_stress_preserves_fifo\<close> and the loom test) are transfers under every
  interleaving, in \<open>Spsc_Threads\<close>.
\<close>

section \<open>\<open>spsc.rs\<close>\<close>

text \<open>\<open>for v in vs { assert!(tx.push(v).is_ok()) }\<close> and \<open>for v in vs { assert_eq!(rx.pop(), Some(v)) }\<close>.\<close>

fun push_all :: "'a ring \<Rightarrow> 'a list \<Rightarrow> 'a ring option" where
  "push_all r [] = Some r"
| "push_all r (v # vs) = do { (r, res) \<leftarrow> Producer_push r v; require (\<not> isl res); push_all r vs }"

fun pop_all :: "'a ring \<Rightarrow> 'a list \<Rightarrow> 'a ring option" where
  "pop_all r [] = Some r"
| "pop_all r (v # vs) = do { (r, res) \<leftarrow> Consumer_pop r; require (res = Some v); pop_all r vs }"

fun spsc_rounds :: "u64 ring \<Rightarrow> u64 list \<Rightarrow> unit option" where
  "spsc_rounds r [] = Some ()"
| "spsc_rounds r (n # rounds) = do {
     let vs = map (\<lambda>i. n * 10 + i) [0, 1, 2, 3];
     r \<leftarrow> push_all r vs;
     (r, res) \<leftarrow> Producer_push r 999;
     require (isl res);
     r \<leftarrow> pop_all r vs;
     (r, res) \<leftarrow> Consumer_pop r;
     require (res = None);
     spsc_rounds r rounds }"

definition test_empty_pop_is_none_and_wraps_around :: "unit option" where
  "test_empty_pop_is_none_and_wraps_around = do {
     let r = spsc_channel 0 4;
     (r, res) \<leftarrow> Consumer_pop r;
     require (res = None);
     spsc_rounds r [0, 1, 2, 3, 4, 5, 6, 7, 8, 9] }"

definition test_capacity_is_rounded_up :: "unit option" where
  "test_capacity_is_rounded_up = do {
     let r = spsc_channel (0 :: u8) 3;
     r \<leftarrow> push_all r [0, 1, 2, 3];
     (r, res) \<leftarrow> Producer_push r 4;
     require (isl res) }"

lemma power_of_two_eval: "next_power_of_two 4 = 4" "next_power_of_two 3 = 4"
  by (simp_all add: next_power_of_two_def bit_len.simps)

lemma spsc_tests_pass: "test_empty_pop_is_none_and_wraps_around = Some ()" "test_capacity_is_rounded_up = Some ()"
  by (simp_all add: test_empty_pop_is_none_and_wraps_around_def test_capacity_is_rounded_up_def spsc_channel_def
      power_of_two_eval Producer_push_def Consumer_pop_def eval_simps cong: eval_cong)

section \<open>\<open>pipeline.rs\<close>: the frames and the pipeline of the tests\<close>

definition tenant_udp_frame :: "string \<Rightarrow> string \<Rightarrow> u16 \<Rightarrow> u16 \<Rightarrow> bytes \<Rightarrow> bytes option" where
  "tenant_udp_frame src dst sport dport payload = do {
     src \<leftarrow> ipv4_from_str src;
     dst \<leftarrow> ipv4_from_str dst;
     let udp_dg = replicate (UDP_HDR_LEN + length payload) 0;
     (udp_dg, _) \<leftarrow> udp_write_header udp_dg sport dport (of_nat (length payload));
     udp_dg \<leftarrow> put udp_dg UDP_HDR_LEN (length udp_dg) payload;
     let c = udp_compute_checksum src dst udp_dg;
     udp_dg \<leftarrow> put udp_dg 6 8 (to_be16 c);
     let ippkt = replicate (IPV4_MIN_HDR_LEN + length udp_dg) 0;
     (ippkt, _) \<leftarrow> sub_mut ippkt 0 20 (\<lambda>s. ipv4_write_header s src dst proto_UDP 64 1 True (of_nat (length udp_dg)));
     ippkt \<leftarrow> put ippkt 20 (length ippkt) udp_dg;
     let frame = replicate (ETH_HDR_LEN + length ippkt) 0;
     (frame, _) \<leftarrow> sub_mut frame 0 14 (\<lambda>s. ethernet_write_header s (fab_mac 0xbb) (fab_mac 0xaa) ethertype_IPV4);
     put frame 14 (length frame) ippkt }"

definition test_vpc :: "u32 \<Rightarrow> string \<Rightarrow> ipv4addr \<Rightarrow> vpc" where
  "test_vpc vni name net = \<lparr> v_vni = vni, v_name = name, v_cidr = (net, 24) \<rparr>"

definition test_cfg :: "pipeline_config option" where
  "test_cfg = do {
     node \<leftarrow> ipv4_from_str ''192.168.1.1'';
     gw_ip \<leftarrow> ipv4_from_str ''10.0.0.1'';
     Some \<lparr> pc_local_node_ip = node, pc_outer_src_mac = fab_mac 0x01, pc_outer_dst_mac = fab_mac 0x02, pc_vni = 100,
       pc_nat_ip = None, pc_gateway_node_ip = None, pc_virtual_gateway_mac = fab_mac 0xff,
       pc_outer_udp_checksum = False, pc_underlay_mtu = 1500, pc_virtual_gateway_ip = gw_ip \<rparr> }"

text \<open>The fabric with one endpoint 10.0.0.20 of network 100 at the given node.\<close>

definition one_endpoint_fabric :: "string \<Rightarrow> fabric option" where
  "one_endpoint_fabric there = do {
     node \<leftarrow> ipv4_from_str ''192.168.1.1'';
     net \<leftarrow> ipv4_from_str ''10.0.0.0'';
     let fabric = Fabric_add_vpc (Fabric_new node) (test_vpc 100 ''t'' net);
     inner_ip \<leftarrow> ipv4_from_str ''10.0.0.20'';
     peer \<leftarrow> ipv4_from_str there;
     Some (Fabric_add_endpoint fabric
       \<lparr> e_vni = 100, e_inner_ip = inner_ip, e_inner_mac = fab_mac 0x20, e_node_ip = peer, e_local = False \<rparr>) }"

definition two_node_pipeline :: "pipeline option" where
  "two_node_pipeline = do {
     fabric \<leftarrow> one_endpoint_fabric ''192.168.1.2'';
     cfg \<leftarrow> test_cfg;
     nat_ip \<leftarrow> ipv4_from_str ''203.0.113.7'';
     nat \<leftarrow> NatEngine_new nat_ip 20000 20100;
     Pipeline_new cfg fabric nat }"

definition expect_forward :: "decision \<Rightarrow> nat option" where
  "expect_forward d = (case d of Forward n \<Rightarrow> Some n | _ \<Rightarrow> None)"

definition expect_reply :: "decision \<Rightarrow> nat option" where
  "expect_reply d = (case d of Reply n \<Rightarrow> Some n | _ \<Rightarrow> None)"

section \<open>\<open>pipeline.rs\<close>: the tests\<close>

definition test_pmtud_oversize_df_replies_with_icmp :: "unit option" where
  "test_pmtud_oversize_df_replies_with_icmp = do {
     p \<leftarrow> two_node_pipeline;
     frame \<leftarrow> tenant_udp_frame ''10.0.0.9'' ''10.0.0.20'' 1111 2222 (replicate 1500 0x41);
     (p, out, d) \<leftarrow> Pipeline_encap_for_vni p frame (replicate 2048 0) 1 100;
     n \<leftarrow> expect_reply d;
     require (ps_pmtud_replied (Pipeline_stats p) = 1);
     require (ps_encapped (Pipeline_stats p) = 0);
     f \<leftarrow> slice out 0 n;
     eth \<leftarrow> unwrap (Some (EthFrame_parse f));
     x \<leftarrow> EthFrame_dst eth;
     require (x = fab_mac 0xaa);
     pl \<leftarrow> EthFrame_payload eth;
     ip \<leftarrow> unwrap (Ipv4View_parse pl);
     x \<leftarrow> Ipv4View_protocol ip;
     require (x = proto_ICMP);
     x \<leftarrow> Ipv4View_dst ip;
     nine \<leftarrow> ipv4_from_str ''10.0.0.9'';
     require (x = nine);
     x \<leftarrow> Ipv4View_src ip;
     gw \<leftarrow> ipv4_from_str ''10.0.0.1'';
     require (x = gw);
     x \<leftarrow> Ipv4View_checksum_valid ip;
     require x;
     icmp \<leftarrow> Ipv4View_payload ip;
     x \<leftarrow> rd8 icmp 0;
     require (x = 3);
     x \<leftarrow> rd8 icmp 1;
     require (x = 4);
     x \<leftarrow> rd16 icmp 6;
     require (x = 1450) }"

definition test_pmtud_oversize_without_df_encapsulates :: "unit option" where
  "test_pmtud_oversize_without_df_encapsulates = do {
     p \<leftarrow> two_node_pipeline;
     frame \<leftarrow> tenant_udp_frame ''10.0.0.9'' ''10.0.0.20'' 1111 2222 (replicate 1500 0x41);
     b \<leftarrow> rd8 frame 20;
     frame \<leftarrow> wr8 frame 20 (b AND NOT 0x40);
     frame \<leftarrow> wr8 frame 24 0;
     frame \<leftarrow> wr8 frame 25 0;
     h \<leftarrow> slice frame 14 34;
     let c = checksum h;
     frame \<leftarrow> put frame 24 26 (to_be16 c);
     (p, out, d) \<leftarrow> Pipeline_encap_for_vni p frame (replicate 2048 0) 1 100;
     _ \<leftarrow> expect_forward d;
     require (ps_pmtud_replied (Pipeline_stats p) = 0) }"

definition test_pmtud_normal_frame_encapsulates :: "unit option" where
  "test_pmtud_normal_frame_encapsulates = do {
     p \<leftarrow> two_node_pipeline;
     frame \<leftarrow> tenant_udp_frame ''10.0.0.9'' ''10.0.0.20'' 1111 2222 (byte_str ''hello'');
     (p, out, d) \<leftarrow> Pipeline_encap_for_vni p frame (replicate 2048 0) 1 100;
     _ \<leftarrow> expect_forward d;
     require (ps_pmtud_replied (Pipeline_stats p) = 0) }"

definition test_pmtud_inplace_oversize_df_replies_with_icmp :: "unit option" where
  "test_pmtud_inplace_oversize_df_replies_with_icmp = do {
     p \<leftarrow> two_node_pipeline;
     inner \<leftarrow> tenant_udp_frame ''10.0.0.9'' ''10.0.0.20'' 1111 2222 (replicate 1500 0x41);
     let ioff = OVERLAY_OVERHEAD;
     buf \<leftarrow> put (replicate (ioff + length inner + 64) 0) ioff (ioff + length inner) inner;
     (p, buf, d) \<leftarrow> Pipeline_on_tenant_frame_inplace p buf (length inner) 1;
     n \<leftarrow> expect_reply d;
     require (ps_pmtud_replied (Pipeline_stats p) = 1);
     require (ps_encapped (Pipeline_stats p) = 0);
     f \<leftarrow> slice buf 0 n;
     eth \<leftarrow> unwrap (Some (EthFrame_parse f));
     pl \<leftarrow> EthFrame_payload eth;
     ip \<leftarrow> unwrap (Ipv4View_parse pl);
     x \<leftarrow> Ipv4View_protocol ip;
     require (x = proto_ICMP);
     x \<leftarrow> Ipv4View_checksum_valid ip;
     require x;
     icmp \<leftarrow> Ipv4View_payload ip;
     x \<leftarrow> rd16 icmp 6;
     require (x = 1450) }"

definition test_fabric_hot_reload_reroutes :: "unit option" where
  "test_fabric_hot_reload_reroutes = do {
     p \<leftarrow> two_node_pipeline;
     frame \<leftarrow> tenant_udp_frame ''10.0.0.9'' ''10.0.0.20'' 1 2 (byte_str ''hi'');
     (p, out, d) \<leftarrow> Pipeline_encap_for_vni p frame (replicate 2048 0) 1 100;
     n \<leftarrow> expect_forward d;
     f \<leftarrow> slice out 0 n;
     d \<leftarrow> unwrap (decap f);
     d \<leftarrow> d;
     two \<leftarrow> ipv4_from_str ''192.168.1.2'';
     require (dc_outer_dst_ip d = two);
     fab2 \<leftarrow> one_endpoint_fabric ''192.168.1.9'';
     let p = Pipeline_reload_fabric p fab2;
     (p, out, d) \<leftarrow> Pipeline_encap_for_vni p frame out 1 100;
     n2 \<leftarrow> expect_forward d;
     f \<leftarrow> slice out 0 n2;
     d2 \<leftarrow> unwrap (decap f);
     d2 \<leftarrow> d2;
     nine \<leftarrow> ipv4_from_str ''192.168.1.9'';
     require (dc_outer_dst_ip d2 = nine) }"

text \<open>The loop over the two networks, and the rest of the test.\<close>

definition test_multi_vpc_isolates_same_inner_ip :: "unit option" where
  "test_multi_vpc_isolates_same_inner_ip = do {
     node \<leftarrow> ipv4_from_str ''192.168.1.1'';
     net \<leftarrow> ipv4_from_str ''10.0.0.0'';
     five \<leftarrow> ipv4_from_str ''10.0.0.5'';
     two \<leftarrow> ipv4_from_str ''192.168.1.2'';
     three \<leftarrow> ipv4_from_str ''192.168.1.3'';
     let fabric = foldl (\<lambda>fab (vni, m, n). Fabric_add_endpoint
         (Fabric_add_vpc fab (test_vpc vni (''vpc-'' @ nat_to_string (unat vni)) net))
         \<lparr> e_vni = vni, e_inner_ip = five, e_inner_mac = fab_mac m, e_node_ip = n, e_local = False \<rparr>)
       (Fabric_new node) [(100, 0x11, two), (200, 0x22, three)];
     cfg \<leftarrow> test_cfg;
     nat_ip \<leftarrow> ipv4_from_str ''203.0.113.7'';
     nat \<leftarrow> NatEngine_new nat_ip 20000 20100;
     p \<leftarrow> Pipeline_new cfg fabric nat;
     frame \<leftarrow> tenant_udp_frame ''10.0.0.9'' ''10.0.0.5'' 1111 2222 (byte_str ''iso'');
     (p, w1, d) \<leftarrow> Pipeline_encap_for_vni p frame (replicate 2048 0) 1 100;
     n1 \<leftarrow> expect_forward d;
     (p, w2, d) \<leftarrow> Pipeline_encap_for_vni p frame (replicate 2048 0) 1 200;
     n2 \<leftarrow> expect_forward d;
     f1 \<leftarrow> slice w1 0 n1;
     d1 \<leftarrow> unwrap (decap f1);
     d1 \<leftarrow> d1;
     f2 \<leftarrow> slice w2 0 n2;
     d2 \<leftarrow> unwrap (decap f2);
     d2 \<leftarrow> d2;
     require (ah_vni (dc_header d1) = 100);
     require (ah_vni (dc_header d2) = 200);
     require (dc_outer_dst_ip d1 = two);
     require (dc_outer_dst_ip d2 = three);
     e1 \<leftarrow> unwrap (Some (EthFrame_parse (dc_inner d1)));
     x \<leftarrow> EthFrame_dst e1;
     require (x = fab_mac 0x11);
     e2 \<leftarrow> unwrap (Some (EthFrame_parse (dc_inner d2)));
     x \<leftarrow> EthFrame_dst e2;
     require (x = fab_mac 0x22);
     (p, deliver, d) \<leftarrow> Pipeline_on_underlay_frame p f1 (replicate 2048 0) 1;
     _ \<leftarrow> expect_forward d;
     (p, deliver, d) \<leftarrow> Pipeline_on_underlay_frame p f2 deliver 1;
     _ \<leftarrow> expect_forward d;
     Some () }"

definition test_east_west_encap_then_peer_decap :: "unit option" where
  "test_east_west_encap_then_peer_decap = do {
     node1 \<leftarrow> two_node_pipeline;
     frame \<leftarrow> tenant_udp_frame ''10.0.0.10'' ''10.0.0.20'' 1111 2222 (byte_str ''east-west'');
     (node1, wire, d) \<leftarrow> Pipeline_on_tenant_frame node1 frame (replicate 2048 0) 1;
     n \<leftarrow> expect_forward d;
     w \<leftarrow> slice wire 0 n;
     d \<leftarrow> unwrap (decap w);
     require (d \<noteq> None);
     node2 \<leftarrow> two_node_pipeline;
     (node2, delivered, d) \<leftarrow> Pipeline_on_underlay_frame node2 w (replicate 2048 0) 2;
     m \<leftarrow> expect_forward d;
     f \<leftarrow> slice delivered 0 m;
     eth \<leftarrow> unwrap (Some (EthFrame_parse f));
     x \<leftarrow> EthFrame_dst eth;
     require (x = fab_mac 0x20);
     pl \<leftarrow> EthFrame_payload eth;
     ip \<leftarrow> unwrap (Ipv4View_parse pl);
     x \<leftarrow> Ipv4View_dst ip;
     twenty \<leftarrow> ipv4_from_str ''10.0.0.20'';
     require (x = twenty);
     x \<leftarrow> Ipv4View_checksum_valid ip;
     require x;
     require (ps_encapped (Pipeline_stats node1) = 1);
     require (ps_decapped (Pipeline_stats node2) = 1) }"

definition test_outer_ipv4_checksum_valid_via_template :: "unit option" where
  "test_outer_ipv4_checksum_valid_via_template = do {
     node1 \<leftarrow> two_node_pipeline;
     frame \<leftarrow> tenant_udp_frame ''10.0.0.10'' ''10.0.0.20'' 1111 2222 (byte_str ''x'');
     (node1, wire, d) \<leftarrow> Pipeline_on_tenant_frame node1 frame (replicate 2048 0) 1;
     n \<leftarrow> expect_forward d;
     pl \<leftarrow> slice wire ETH_HDR_LEN n;
     outer_ip \<leftarrow> unwrap (Ipv4View_parse pl);
     x \<leftarrow> Ipv4View_checksum_valid outer_ip;
     require x;
     x \<leftarrow> Ipv4View_protocol outer_ip;
     require (x = proto_UDP);
     let ioff = OVERLAY_OVERHEAD;
     zc \<leftarrow> put (replicate 2048 0) ioff (ioff + length frame) frame;
     node1b \<leftarrow> two_node_pipeline;
     (node1b, zc, d) \<leftarrow> Pipeline_on_tenant_frame_inplace node1b zc (length frame) 1;
     m \<leftarrow> expect_forward d;
     a \<leftarrow> slice wire 0 n;
     b \<leftarrow> slice zc 0 m;
     require (a = b) }"

definition test_unknown_destination_without_gateway_drops :: "unit option" where
  "test_unknown_destination_without_gateway_drops = do {
     node1 \<leftarrow> two_node_pipeline;
     frame \<leftarrow> tenant_udp_frame ''10.0.0.10'' ''10.0.0.99'' 1 2 (byte_str ''x'');
     (node1, wire, d) \<leftarrow> Pipeline_on_tenant_frame node1 frame (replicate 2048 0) 1;
     require (d = Drop ''no-route'') }"

definition test_egress_to_gateway_applies_snat :: "unit option" where
  "test_egress_to_gateway_applies_snat = do {
     p \<leftarrow> two_node_pipeline;
     gw \<leftarrow> ipv4_from_str ''192.168.1.254'';
     pub \<leftarrow> ipv4_from_str ''203.0.113.7'';
     let p = p \<lparr> p_cfg := (p_cfg p) \<lparr> pc_gateway_node_ip := Some gw, pc_nat_ip := Some pub \<rparr> \<rparr>;
     frame \<leftarrow> tenant_udp_frame ''10.0.0.10'' ''8.8.8.8'' 40000 53 (byte_str ''dns'');
     (p, wire, d) \<leftarrow> Pipeline_on_tenant_frame p frame (replicate 2048 0) 1;
     n \<leftarrow> expect_forward d;
     require (ps_natted (Pipeline_stats p) = 1);
     w \<leftarrow> slice wire 0 n;
     d \<leftarrow> unwrap (decap w);
     d \<leftarrow> d;
     pl \<leftarrow> slice_from (dc_inner d) ETH_HDR_LEN;
     ip \<leftarrow> unwrap (Ipv4View_parse pl);
     x \<leftarrow> Ipv4View_src ip;
     require (x = pub);
     x \<leftarrow> Ipv4View_checksum_valid ip;
     require x }"

definition test_proxy_arp_replies_to_tenant :: "unit option" where
  "test_proxy_arp_replies_to_tenant = do {
     p \<leftarrow> two_node_pipeline;
     let req = replicate ARP_FRAME_LEN 0;
     (req, _) \<leftarrow> sub_mut req 0 14 (\<lambda>s. ethernet_write_header s BROADCAST (fab_mac 0x0a) ethertype_ARP);
     (req, _) \<leftarrow> sub_mut req 14 (length req)
       (arp_request_payload (fab_mac 0x0a) (be32 10 0 0 10) (be32 10 0 0 20));
     (p, out, d) \<leftarrow> Pipeline_on_tenant_frame p req (replicate 128 0) 1;
     n \<leftarrow> expect_reply d;
     f \<leftarrow> slice out 0 n;
     eth \<leftarrow> unwrap (Some (EthFrame_parse f));
     x \<leftarrow> EthFrame_ethertype eth;
     require (x = ethertype_ARP);
     x \<leftarrow> EthFrame_dst eth;
     require (x = fab_mac 0x0a);
     pl \<leftarrow> EthFrame_payload eth;
     a \<leftarrow> unwrap (ArpView_parse pl);
     x \<leftarrow> ArpView_oper a;
     require (x = oper_REPLY);
     x \<leftarrow> ArpView_sender_mac a;
     require (x = fab_mac 0xff);
     require (ps_arp_replied (Pipeline_stats p) = 1) }"

definition test_foreign_frame_passes :: "unit option" where
  "test_foreign_frame_passes = do {
     p \<leftarrow> two_node_pipeline;
     frame \<leftarrow> tenant_udp_frame ''1.2.3.4'' ''5.6.7.8'' 1 2 (byte_str ''z'');
     (p, out, d) \<leftarrow> Pipeline_on_underlay_frame p frame (replicate 2048 0) 1;
     require (d = Pass) }"

section \<open>Evaluation of the pipeline\<close>

text \<open>A payload of one repeated byte stays symbolic; its part of a checksum is a product.\<close>

lemma sum_be16_loop_replicate: "sum_be16_loop acc (replicate (n + n) b) = acc + of_nat n * ucast (be16 b b)"
proof (induction n arbitrary: acc)
  case (Suc n)
  have "replicate (Suc n + Suc n) b = b # b # replicate (n + n) b" by simp
  then show ?case using Suc [of "acc + ucast (be16 b b)"] by (simp only: sum_be16_loop.simps) (simp add: algebra_simps)
qed simp

lemma sum_payload_eval [eval_simps]: "sum_be16_loop acc (replicate 1500 b) = acc + 750 * ucast (be16 b b)"
  using sum_be16_loop_replicate [of acc 750 b] by simp

lemma pipeline_literals [eval_simps]: "ipv4_from_str ''192.168.1.9'' = Some 0xc0a80109" "ipv4_from_str ''192.168.1.254'' = Some 0xc0a801fe"
  "ipv4_from_str ''1.2.3.4'' = Some 0x01020304" "ipv4_from_str ''5.6.7.8'' = Some 0x05060708"
  by code_simp+

lemmas pipeline_eval [eval_simps] = tenant_udp_frame_def test_vpc_def test_cfg_def one_endpoint_fabric_def two_node_pipeline_def
  expect_forward_def expect_reply_def fab_mac_def byte_str_def
  OuterTemplate_new_def Pipeline_new_def Pipeline_new_shared_def PipelineStats_default_def Pipeline_reload_fabric_def
  Pipeline_stats_def Pipeline_next_ip_id_def add_encapped_def add_decapped_def add_natted_def add_arp_replied_def
  add_pmtud_replied_def add_dropped_def add_passed_def Pipeline_drop_def return_drop_def flow_hash_of_def flow_hash_def
  Pipeline_stamp_outer_def next_hop_of_def inner_mtu_of_def nat_translate_def snat_egress_def egress_frame_def
  Pipeline_encap_for_vni_def Pipeline_on_tenant_frame_def parse_inner_def Pipeline_on_tenant_frame_inplace_def
  Pipeline_on_underlay_frame_def five_tuple_of_def EthFrameMut_parse_def EthFrameMut_set_dst_def UdpView_src_port_def
  Ipv4View_fragment_offset_def TcpView_dst_port_def PipelineStats_default_def EthFrame_bytes_def


lemma pmtud_oversize_df_replies_with_icmp_passes: "test_pmtud_oversize_df_replies_with_icmp = Some ()"
  by (simp add: test_pmtud_oversize_df_replies_with_icmp_def eval_simps cong: eval_cong)
lemma pmtud_oversize_without_df_encapsulates_passes: "test_pmtud_oversize_without_df_encapsulates = Some ()"
  by (simp add: test_pmtud_oversize_without_df_encapsulates_def eval_simps cong: eval_cong)
lemma pmtud_normal_frame_encapsulates_passes: "test_pmtud_normal_frame_encapsulates = Some ()"
  by (simp add: test_pmtud_normal_frame_encapsulates_def eval_simps cong: eval_cong)
lemma pmtud_inplace_oversize_df_replies_with_icmp_passes: "test_pmtud_inplace_oversize_df_replies_with_icmp = Some ()"
  by (simp add: test_pmtud_inplace_oversize_df_replies_with_icmp_def eval_simps cong: eval_cong)
lemma fabric_hot_reload_reroutes_passes: "test_fabric_hot_reload_reroutes = Some ()"
  by (simp add: test_fabric_hot_reload_reroutes_def eval_simps cong: eval_cong)
lemma multi_vpc_isolates_same_inner_ip_passes: "test_multi_vpc_isolates_same_inner_ip = Some ()"
  by (simp add: test_multi_vpc_isolates_same_inner_ip_def eval_simps cong: eval_cong)
lemma east_west_encap_then_peer_decap_passes: "test_east_west_encap_then_peer_decap = Some ()"
  by (simp add: test_east_west_encap_then_peer_decap_def eval_simps cong: eval_cong)
lemma outer_ipv4_checksum_valid_via_template_passes: "test_outer_ipv4_checksum_valid_via_template = Some ()"
  by (simp add: test_outer_ipv4_checksum_valid_via_template_def eval_simps cong: eval_cong)
lemma unknown_destination_without_gateway_drops_passes: "test_unknown_destination_without_gateway_drops = Some ()"
  by (simp add: test_unknown_destination_without_gateway_drops_def eval_simps cong: eval_cong)
lemma egress_to_gateway_applies_snat_passes: "test_egress_to_gateway_applies_snat = Some ()"
  by (simp add: test_egress_to_gateway_applies_snat_def eval_simps cong: eval_cong)
lemma proxy_arp_replies_to_tenant_passes: "test_proxy_arp_replies_to_tenant = Some ()"
  by (simp add: test_proxy_arp_replies_to_tenant_def arp_request_payload_def eval_simps cong: eval_cong)
lemma foreign_frame_passes_passes: "test_foreign_frame_passes = Some ()"
  by (simp add: test_foreign_frame_passes_def eval_simps cong: eval_cong)

end
