(* ===== verification/Property_Tests.thy ===== *)
theory Property_Tests
  imports Unit_Dataplane Pipeline_Inv
begin

text \<open>
  The property tests of the repository (\<open>andromeda-core/tests/proptests.rs\<close>,
  \<open>andromeda-nat/tests/nat_fuzz.rs\<close>, \<open>andromeda-dataplane/tests/pipeline_fuzz.rs\<close>): the body of each
  as a function of the values its generator draws, and a theorem that says on which of all the
  values the generator can draw the body passes.
\<close>

section \<open>\<open>proptests.rs\<close>\<close>

definition parsers_never_panic :: "bytes \<Rightarrow> unit option" where
  "parsers_never_panic data = do {
     let _ = EthFrame_parse data;
     _ \<leftarrow> Ipv4View_parse data;
     let _ = UdpView_parse data;
     _ \<leftarrow> TcpView_parse data;
     _ \<leftarrow> ArpView_parse data;
     _ \<leftarrow> AndromedaHdr_decode data;
     _ \<leftarrow> five_tuple_of data;
     _ \<leftarrow> decap data;
     let d2 = data;
     let _ = EthFrameMut_parse d2;
     _ \<leftarrow> Ipv4ViewMut_parse d2;
     Some () }"

definition encap_decap_roundtrips :: "bytes \<Rightarrow> u32 \<Rightarrow> u16 \<Rightarrow> u16 \<Rightarrow> unit option" where
  "encap_decap_roundtrips inner vni flow ip_id = do {
     let out = replicate (OVERLAY_OVERHEAD + length inner) 0;
     let params = \<lparr> ep_outer_src_mac = MacAddr 2 0 0 0 0 1, ep_outer_dst_mac = MacAddr 2 0 0 0 0 2,
       ep_outer_src_ip = be32 192 168 0 1, ep_outer_dst_ip = be32 192 168 0 2, ep_vni = vni,
       ep_flow_hash = flow, ep_ip_id = ip_id, ep_outer_udp_checksum = True \<rparr>;
     (out, r) \<leftarrow> encap out inner params;
     n \<leftarrow> unwrap (Some r);
     require (n = OVERLAY_OVERHEAD + length inner);
     f \<leftarrow> slice out 0 n;
     eth \<leftarrow> unwrap (Some (EthFrame_parse f));
     pl \<leftarrow> EthFrame_payload eth;
     ip \<leftarrow> unwrap (Ipv4View_parse pl);
     x \<leftarrow> Ipv4View_checksum_valid ip;
     require x;
     d \<leftarrow> unwrap (decap f);
     d \<leftarrow> d;
     require (dc_inner d = inner);
     require (ah_vni (dc_header d) = vni);
     require (ah_flow_hash (dc_header d) = flow) }"

definition andromeda_header_roundtrips :: "u32 \<Rightarrow> u16 \<Rightarrow> u8 \<Rightarrow> u8 \<Rightarrow> u8 \<Rightarrow> unit option" where
  "andromeda_header_roundtrips vni flow flags inner_proto hop = do {
     let h = (AndromedaHdr_new vni flow) \<lparr> ah_flags := flags, ah_inner_proto := inner_proto, ah_hop_limit := hop \<rparr>;
     buf \<leftarrow> AndromedaHdr_encode h (replicate 8 0);
     got \<leftarrow> unwrap (AndromedaHdr_decode buf);
     require (got = h) }"

text \<open>The buffer the checksum test works on, of even length, and the offset of the word it changes.\<close>

definition even_buf :: "bytes \<Rightarrow> bytes" where
  "even_buf data = (if length data mod 2 = 1 then data @ [0] else data)"

definition word_offset :: "bytes \<Rightarrow> nat \<Rightarrow> nat" where
  "word_offset buf widx = widx mod (length buf div 2) * 2"

definition incremental_checksum_matches_recompute :: "bytes \<Rightarrow> nat \<Rightarrow> u16 \<Rightarrow> unit option" where
  "incremental_checksum_matches_recompute data widx new = do {
     let buf = even_buf data;
     let words = length buf div 2;
     if words = 0 then None
     else do {
       let idx = word_offset buf widx;
       let c0 = checksum buf;
       old \<leftarrow> rd16 buf idx;
       buf \<leftarrow> put buf idx (idx + 2) (to_be16 new);
       let incremental = update_word c0 old new;
       let full = checksum buf;
       require (incremental = full) } }"

definition ipv4_src_rewrite_keeps_checksum_valid :: "u32 \<Rightarrow> u32 \<Rightarrow> u32 \<Rightarrow> unit option" where
  "ipv4_src_rewrite_keeps_checksum_valid a b new = do {
     (pkt, _) \<leftarrow> ipv4_write_header (replicate 20 0) a b proto_UDP 64 1 True 0;
     v \<leftarrow> unwrap (Ipv4View_parse pkt);
     x \<leftarrow> Ipv4View_checksum_valid v;
     require x;
     v \<leftarrow> unwrap (Ipv4ViewMut_parse pkt);
     (pkt, _) \<leftarrow> Ipv4ViewMut_set_src v new;
     v \<leftarrow> unwrap (Ipv4View_parse pkt);
     x \<leftarrow> Ipv4View_src v;
     require (x = new);
     x \<leftarrow> Ipv4View_checksum_valid v;
     require x }"

section \<open>\<open>nat_fuzz.rs\<close>\<close>

definition nat_apply_never_panics ::
    "bytes \<Rightarrow> u32 \<Rightarrow> u16 \<Rightarrow> u16 \<Rightarrow> bool \<Rightarrow> bool \<Rightarrow> bool \<Rightarrow> bool \<Rightarrow> unit option" where
  "nat_apply_never_panics pkt addr sp dp do_src do_dst do_sp do_dp = do {
     let rw = \<lparr> new_src_ip = (if do_src then Some addr else None), new_dst_ip = (if do_dst then Some (NOT addr) else None),
       new_src_port = (if do_sp then Some sp else None), new_dst_port = (if do_dp then Some dp else None) \<rparr>;
     _ \<leftarrow> nat_apply pkt rw;
     Some () }"

section \<open>\<open>pipeline_fuzz.rs\<close>\<close>

definition fuzz_pipeline :: "pipeline option" where
  "fuzz_pipeline = do {
     fabric \<leftarrow> one_endpoint_fabric ''192.168.1.2'';
     cfg \<leftarrow> test_cfg;
     nat_ip \<leftarrow> ipv4_from_str ''203.0.113.7'';
     gw \<leftarrow> ipv4_from_str ''192.168.1.254'';
     let cfg = cfg \<lparr> pc_nat_ip := Some nat_ip, pc_gateway_node_ip := Some gw \<rparr>;
     nat \<leftarrow> NatEngine_new nat_ip 20000 60000;
     Pipeline_new cfg fabric nat }"

definition pipeline_never_panics :: "bytes \<Rightarrow> unit option" where
  "pipeline_never_panics data = do {
     p \<leftarrow> fuzz_pipeline;
     (p, out, _) \<leftarrow> Pipeline_on_tenant_frame p data (replicate 2048 0) 0;
     (p, out, _) \<leftarrow> Pipeline_on_underlay_frame p data out 0;
     let inner_len = min (length data) (2048 - OVERLAY_OVERHEAD);
     d \<leftarrow> slice data 0 inner_len;
     buf \<leftarrow> put (replicate 2048 0) OVERLAY_OVERHEAD (OVERLAY_OVERHEAD + inner_len) d;
     (p, buf, _) \<leftarrow> Pipeline_on_tenant_frame_inplace p buf inner_len 0;
     (p, buf, _) \<leftarrow> Pipeline_encap_batch_inplace p buf [\<lparr> fs_offset = 0, fs_inner_len = inner_len \<rparr>] 0;
     Some () }"

definition encap_for_vni_never_panics :: "bytes \<Rightarrow> u32 \<Rightarrow> unit option" where
  "encap_for_vni_never_panics data vni = do {
     p \<leftarrow> fuzz_pipeline;
     _ \<leftarrow> Pipeline_encap_for_vni p data (replicate 2048 0) 0 vni;
     Some () }"

section \<open>Each test on every input\<close>

lemma parsers_pass: "parsers_never_panic data = Some ()"
proof -
  obtain r1 r2 r3 r4 r5 r6 where "Ipv4View_parse data = Some r1" "TcpView_parse data = Some r2" "ArpView_parse data = Some r3"
    "AndromedaHdr_decode data = Some r4" "five_tuple_of data = Some r5" "decap data = Some r6"
    using Ipv4View_parse_total [of data] TcpView_parse_total [of data] ArpView_parse_total [of data]
      AndromedaHdr_decode_total [of data] five_tuple_of_eq [of data] decap_total [of data] by metis
  then show ?thesis by (cases r1) (simp_all add: parsers_never_panic_def Ipv4ViewMut_parse_def)
qed

lemma header_roundtrips_pass:
  assumes "vni < 0x1000000" and "flags < 16"
  shows "andromeda_header_roundtrips vni flow flags inner_proto hop = Some ()"
proof -
  have "vni AND 0xffffff = vni" "flags AND 0xf = flags"
    using assms less_mask_eq [of vni 24] less_mask_eq [of flags 4] by (simp_all add: mask_eq_exp_minus_1)
  then have "andro_ok ((AndromedaHdr_new vni flow) \<lparr> ah_flags := flags, ah_inner_proto := inner_proto, ah_hop_limit := hop \<rparr>)"
    by (simp add: andro_ok_def AndromedaHdr_new_def)
  from andro_decode_encode [OF this, of "[]"] show ?thesis
    by (simp add: andromeda_header_roundtrips_def AndromedaHdr_encode_eq Let_def)
qed

lemma incremental_passes:
  assumes "2 \<le> length data" and "length data < 128"
  shows "incremental_checksum_matches_recompute data widx new = Some () \<longleftrightarrow>
    (\<exists>x \<in> set (patch (even_buf data) (word_offset (even_buf data) widx) (to_be16 new)). x \<noteq> 0)"
proof -
  let ?b = "even_buf data" and ?i = "word_offset (even_buf data) widx"
  have b: "even (length ?b)" "2 \<le> length ?b" "length ?b \<le> 128" using assms by (auto simp: even_buf_def)
  then have w: "0 < length ?b div 2" by linarith
  then have w': "(length ?b div 2 = 0) = False" by simp
  then have "widx mod (length ?b div 2) < length ?b div 2" by simp
  then have i: "even ?i" "?i + 2 \<le> length ?b" using b(1) by (auto simp: word_offset_def)
  have "incremental_checksum_matches_recompute data widx new =
      require (update_word (checksum ?b) (word16 ?b ?i) new = checksum (patch ?b ?i (to_be16 new)))"
    using i by (simp add: incremental_checksum_matches_recompute_def w' Let_def rd16_eq put_eq)
  then show ?thesis using update_word_exact [OF i, of new] b(3) by simp
qed

lemma src_rewrite_passes: "ipv4_src_rewrite_keeps_checksum_valid a b new = Some ()"
proof -
  obtain p where p: "ipv4_write_header (replicate 20 0) a b proto_UDP 64 1 True 0 = Some (p, 20)" "Ipv4View_parse p = Some (Inr p)"
    "Ipv4View_checksum_valid p = Some True"
    using ipv4_write_header_roundtrip [of "replicate 20 0" 0 a b proto_UDP 64 1 True] by auto
  then have ok: "ipv4_ok p" using Ipv4View_parse_err [of p] by (cases "ipv4_ok p") auto
  from Ipv4ViewMut_rewrite_addr [OF ok, of Ipv4ViewMut_set_src 12 new] obtain q where
    "Ipv4ViewMut_set_src p new = Some (q, word32 p 12, new)" "ipv4_ok q" "word32 q 12 = new"
    "Ipv4View_checksum_valid q = Ipv4View_checksum_valid p" "20 \<le> length q" by (auto dest: ipv4_okD)
  then show ?thesis
    using p ok by (simp add: ipv4_src_rewrite_keeps_checksum_valid_def Ipv4ViewMut_parse_def Ipv4View_parse_ok Ipv4View_accessors)
qed

lemma apply_passes: "nat_apply_never_panics pkt addr sp dp do_src do_dst do_sp do_dp = Some ()"
  using nat_apply_total [of pkt] by (simp add: nat_apply_never_panics_def Let_def) (metis bind.bind_lunit)

lemma encap_roundtrips_pass:
  assumes "length inner < 1400" and "vni < 0x1000000"
  shows "encap_decap_roundtrips inner vni flow ip_id = Some ()"
proof -
  let ?p = "\<lparr> ep_outer_src_mac = MacAddr 2 0 0 0 0 1, ep_outer_dst_mac = MacAddr 2 0 0 0 0 2,
       ep_outer_src_ip = be32 192 168 0 1, ep_outer_dst_ip = be32 192 168 0 2, ep_vni = vni,
       ep_flow_hash = flow, ep_ip_id = ip_id, ep_outer_udp_checksum = True \<rparr>"
  let ?I = "ip_hdr (be32 192 168 0 1) (be32 192 168 0 2) proto_UDP 64 ip_id True (of_nat (16 + length inner))"
  let ?E = "eth_hdr (MacAddr 2 0 0 0 0 2) (MacAddr 2 0 0 0 0 1) ethertype_IPV4" and ?f = "overlay_prefix ?p inner @ inner"
  obtain U where U: "overlay_prefix ?p inner = ?E @ ?I @ U @ overlay_andro ?p" "length U = 8"
    by (rule overlay_prefix_split [of ?p inner]) simp
  define ip where "ip = ?I @ U @ overlay_andro ?p @ inner"
  have len: "length ip = 36 + length inner" by (simp add: ip_def U(2))
  have f: "?f = ?E @ ip" "length ?f = 50 + length inner" using U by (simp_all add: ip_def)
  have "unat (of_nat (16 + length inner) :: u16) = 16 + length inner" using assms(1) by (intro unat_of_nat_u16) simp
  then have ok: "ipv4_ok ip" unfolding ip_def using assms(1) by (intro ipv4_ok_ip_hdr) simp
  have "Ipv4View_checksum_valid ip = Some True"
    using ok by (simp add: view_simps) (simp add: ip_def ip_sum_ok_def ihl_ip_hdr checksum_ip_hdr)
  moreover have "EthFrame_payload (?E @ ip) = Some ip" by (simp add: EthFrame_payload_def ETH_HDR_LEN_def slice_from_eq)
  moreover have "EthFrame_parse (?E @ ip) = Inr (?E @ ip)" by (simp add: EthFrame_parse_def ETH_HDR_LEN_def)
  moreover have "decap (?E @ ip) = Some (Inr (Some \<lparr> dc_header = AndromedaHdr_new vni flow, dc_inner = inner,
      dc_outer_src_ip = be32 192 168 0 1, dc_outer_dst_ip = be32 192 168 0 2 \<rparr>))"
    using decap_overlay [of inner ?p] assms(1) by (simp add: f(1) [symmetric])
  moreover have "encap (replicate (50 + length inner) 0) inner ?p = Some (?E @ ip, Inr (50 + length inner))"
    using assms(1) by (simp add: encap_eq f(1) [symmetric])
  moreover have "vni AND 0xffffff = vni"
    using assms(2) less_mask_eq [of vni 24] by (simp add: mask_eq_exp_minus_1)
  ultimately show ?thesis
    using ok len by (simp add: encap_decap_roundtrips_def overlay_len_defs slice_eq Ipv4View_parse_ok AndromedaHdr_new_def)
qed

lemma fuzz_pipeline_ok: obtains p where "fuzz_pipeline = Some p" "pipeline_inv p"
proof -
  obtain fab where fab: "one_endpoint_fabric ''192.168.1.2'' = Some fab"
    by (simp add: one_endpoint_fabric_def ipv4_literals control_literals)
  obtain cfg where cfg: "test_cfg = Some cfg" by (simp add: test_cfg_def ipv4_literals control_literals)
  let ?cfg = "cfg \<lparr> pc_nat_ip := Some 0xcb007107, pc_gateway_node_ip := Some 0xc0a801fe \<rparr>"
  obtain nat where nat: "NatEngine_new 0xcb007107 20000 60000 = Some nat"
    by (simp add: NatEngine_new_def TimingWheel_new_def)
  obtain p where p: "Pipeline_new ?cfg fab nat = Some p" by (simp add: Pipeline_new_eq)
  have "pipeline_inv p" by (rule pipeline_reachable_inv [OF pipeline_reachable.start [OF nat_reachable.start [OF nat] p]])
  then show thesis using that p by (simp add: fuzz_pipeline_def fab cfg nat nat_literals pipeline_literals)
qed

lemma vni_fuzz_passes: "encap_for_vni_never_panics data vni = Some ()"
proof -
  obtain p where p: "fuzz_pipeline = Some p" "pipeline_inv p" by (rule fuzz_pipeline_ok)
  from tenant.handle_ok [OF p(2), of "(data, vni)" "replicate 2048 0" 0] show ?thesis
    by (auto simp: encap_for_vni_never_panics_def p(1))
qed

lemma pipeline_fuzz_passes: "pipeline_never_panics data = Some ()"
proof -
  obtain p where p: "fuzz_pipeline = Some p" "pipeline_inv p" by (rule fuzz_pipeline_ok)
  define n where "n = min (length data) (2048 - OVERLAY_OVERHEAD)"
  have n: "n \<le> length data" "50 + n \<le> 2048" by (simp_all add: n_def overlay_len_defs)
  let ?zero = "replicate 2048 (0 :: u8)"
  obtain p1 o1 d1 where 1: "Pipeline_on_tenant_frame p data ?zero 0 = Some (p1, o1, d1)" "pipeline_inv p1"
    using tenant.handle_ok [OF p(2), of "(data, pc_vni (p_cfg p))" ?zero 0]
    by (auto simp: Pipeline_on_tenant_frame_def handled_def)
  obtain p2 o2 d2 where 2: "Pipeline_on_underlay_frame p1 data o1 0 = Some (p2, o2, d2)" "pipeline_inv p2"
    using underlay.handle_ok [OF 1(2), of data o1 0] by (auto simp: handled_def)
  let ?buf = "patch ?zero 50 (take n data)"
  obtain p3 b3 d3 where 3: "Pipeline_on_tenant_frame_inplace p2 ?buf n 0 = Some (p3, b3, d3)" "pipeline_inv p3"
    using inplace.handle_ok [OF 2(2), of n ?buf 0] n by (auto simp: handled_def)
  obtain p4 b4 k where 4: "Pipeline_encap_batch_inplace p3 b3 [\<lparr> fs_offset = 0, fs_inner_len = n \<rparr>] 0 = Some (p4, b4, k)"
    using Pipeline_batch_eq [OF 3(2), of "[\<lparr> fs_offset = 0, fs_inner_len = n \<rparr>]" 0 b3] n by (auto simp: slot_ok_def)
  have "slice data 0 n = Some (take n data)" "put ?zero OVERLAY_OVERHEAD (OVERLAY_OVERHEAD + n) (take n data) = Some ?buf"
    using n by (simp_all add: slice_eq put_eq overlay_len_defs)
  then show ?thesis using 1 2 3 4 by (simp add: pipeline_never_panics_def p(1) n_def [symmetric] Let_def)
qed

text \<open>C31: the property tests of the repository. For all the inputs their generators can draw (and
  not only the few hundred a run tries), the bodies of the tests of the parsers, of the
  encapsulation, of the header codec, of the address rewrite, of the translation and of the
  pipeline's entry points pass, with no panic. The test of the incremental checksum passes
  exactly when the changed buffer is not all zero: it fails on, say, the buffer 00 01 with the
  new word 0.\<close>

theorem property_tests_pass:
  "parsers_never_panic data = Some () \<and>
   (length inner < 1400 \<and> vni < 0x1000000 \<longrightarrow> encap_decap_roundtrips inner vni flow ip_id = Some ()) \<and>
   (vni < 0x1000000 \<and> flags < 16 \<longrightarrow> andromeda_header_roundtrips vni flow flags inner_proto hop = Some ()) \<and>
   (2 \<le> length data \<and> length data < 128 \<longrightarrow>
     (incremental_checksum_matches_recompute data widx new = Some () \<longleftrightarrow>
       (\<exists>x \<in> set (patch (even_buf data) (word_offset (even_buf data) widx) (to_be16 new)). x \<noteq> 0))) \<and>
   ipv4_src_rewrite_keeps_checksum_valid a b c = Some () \<and>
   nat_apply_never_panics data addr sp dp do_src do_dst do_sp do_dp = Some () \<and>
   pipeline_never_panics data = Some () \<and> encap_for_vni_never_panics data vni = Some ()"
proof (intro conjI impI)
qed (simp_all only: parsers_pass encap_roundtrips_pass header_roundtrips_pass incremental_passes src_rewrite_passes
    apply_passes pipeline_fuzz_passes vni_fuzz_passes)

theorem property_tests_pass_witness:
  "encap_decap_roundtrips [1, 2, 3] 42 7 9 = Some () \<and> andromeda_header_roundtrips 42 7 8 1 64 = Some () \<and>
   incremental_checksum_matches_recompute [0x45, 0, 1] 1 7 = Some () \<and>
   incremental_checksum_matches_recompute [0, 1] 0 0 \<noteq> Some ()"
  using property_tests_pass [of "[0x45, 0, 1]" "[1, 2, 3]" 42 7 9 8 1 64 1 7]
    property_tests_pass [of "[0, 1]" "[1, 2, 3]" 42 7 9 8 1 64 0 0]
  by (simp add: even_buf_def word_offset_def patch_def to_be16_def)

end
