(* ===== verification/Cli.thy ===== *)
theory Cli
  imports Config Control_Socket Afxdp_Props
begin

text \<open>
  \<open>andromeda-cli/src/main.rs\<close>: the packets and pipelines of the self test and the benchmark (\<open>Bench\<close>), the
  packet inspector, the options, and the commands \<open>run\<close> and \<open>switch\<close> of a build with the feature
  \<open>afxdp\<close>. Printed lines are kept for the inspector; the progress messages of the other
  commands and the usage texts are left out. A command
  that calls \<open>exit\<close> has its exit code as its result. The file reader, the decoder of the
  configuration format, the kernel and the binding of the control socket are parameters.
\<close>

section \<open>Sample packets\<close>

text \<open>\<open>s.parse::<Ipv4Addr>().unwrap()\<close> is \<open>ipv4_from_str\<close>, whose \<open>None\<close> is the panic.\<close>

definition cli_src_mac :: mac_addr where "cli_src_mac = MacAddr 0x02 0 0 0 0 0x0a"

definition cli_dst_mac :: mac_addr where "cli_dst_mac = MacAddr 0x02 0 0 0 0 0x0b"

text \<open>The common body of the two builders of tenant frames.\<close>

definition udp_frame :: "string \<Rightarrow> string \<Rightarrow> u16 \<Rightarrow> u16 \<Rightarrow> bytes \<Rightarrow> bytes option" where
  "udp_frame src dst sp dp payload = do {
     src \<leftarrow> ipv4_from_str src;
     dst \<leftarrow> ipv4_from_str dst;
     let dg = replicate (UDP_HDR_LEN + length payload) 0;
     (dg, _) \<leftarrow> udp_write_header dg sp dp (of_nat (length payload));
     dg \<leftarrow> put dg UDP_HDR_LEN (length dg) payload;
     let c = udp_compute_checksum src dst dg;
     dg \<leftarrow> put dg 6 8 (to_be16 c);
     let ip = replicate (IPV4_MIN_HDR_LEN + length dg) 0;
     (ip, _) \<leftarrow> sub_mut ip 0 20 (\<lambda>s. ipv4_write_header s src dst proto_UDP 64 1 True (of_nat (length dg)));
     ip \<leftarrow> put ip 20 (length ip) dg;
     let frame = replicate (ETH_HDR_LEN + length ip) 0;
     (frame, _) \<leftarrow> sub_mut frame 0 14 (\<lambda>s. ethernet_write_header s cli_dst_mac cli_src_mac ethertype_IPV4);
     put frame 14 (length frame) ip }"

definition demo_frame :: "string \<Rightarrow> string \<Rightarrow> bytes option" where
  "demo_frame src dst = udp_frame src dst 40000 4242 (map (\<lambda>c. of_nat (of_char c)) ''hello from the tenant'')"

definition udp_tenant_frame :: "string \<Rightarrow> string \<Rightarrow> u16 \<Rightarrow> u16 \<Rightarrow> nat \<Rightarrow> bytes option" where
  "udp_tenant_frame src dst sp dp payload_len = udp_frame src dst sp dp (replicate payload_len 0xab)"

definition synth_overlay_packet :: "bytes option" where
  "synth_overlay_packet = do {
     inner \<leftarrow> udp_tenant_frame ''10.0.0.10'' ''10.0.0.20'' 40000 4242 12;
     let out = replicate (OVERLAY_OVERHEAD + length inner) 0;
     outer_src \<leftarrow> ipv4_from_str ''192.168.1.1'';
     outer_dst \<leftarrow> ipv4_from_str ''192.168.1.2'';
     src \<leftarrow> ipv4_from_str ''10.0.0.10'';
     dst \<leftarrow> ipv4_from_str ''10.0.0.20'';
     (out, r) \<leftarrow> encap out inner
       \<lparr> ep_outer_src_mac = MacAddr 0x02 0 0 0 0xa1 0x01, ep_outer_dst_mac = MacAddr 0x02 0 0 0 0xa1 0x02,
         ep_outer_src_ip = outer_src, ep_outer_dst_ip = outer_dst, ep_vni = 100,
         ep_flow_hash = flow_hash src dst 17 40000 4242, ep_ip_id = 0x4242, ep_outer_udp_checksum = True \<rparr>;
     (case r of Inl _ \<Rightarrow> None | Inr n \<Rightarrow> Some (take n out)) }"

section \<open>Sample pipelines\<close>

definition build_pipeline :: "bool \<Rightarrow> bool \<Rightarrow> pipeline option" where
  "build_pipeline east_west snat = do {
     node \<leftarrow> ipv4_from_str ''192.168.1.1'';
     net \<leftarrow> ipv4_from_str ''10.0.0.0'';
     let fabric = Fabric_add_vpc (Fabric_new node) \<lparr> v_vni = 100, v_name = ''b'', v_cidr = (net, 24) \<rparr>;
     inner_ip \<leftarrow> ipv4_from_str ''10.0.0.20'';
     peer \<leftarrow> ipv4_from_str ''192.168.1.2'';
     let fabric = (if east_west then Fabric_add_endpoint fabric
         \<lparr> e_vni = 100, e_inner_ip = inner_ip, e_inner_mac = MacAddr 0x02 0 0 0 0 0x20, e_node_ip = peer, e_local = False \<rparr>
       else fabric);
     nat_ip \<leftarrow> ipv4_from_str ''203.0.113.7'';
     gw \<leftarrow> ipv4_from_str ''192.168.1.254'';
     gw_ip \<leftarrow> ipv4_from_str ''10.0.0.1'';
     let cfg = \<lparr> pc_local_node_ip = node, pc_outer_src_mac = MacAddr 0x02 0 0 0 0 0x01, pc_outer_dst_mac = MacAddr 0x02 0 0 0 0 0x02,
       pc_vni = 100, pc_nat_ip = (if snat then Some nat_ip else None), pc_gateway_node_ip = (if snat then Some gw else None),
       pc_virtual_gateway_mac = MacAddr 0x02 0 0 0 0 0xff, pc_outer_udp_checksum = False, pc_underlay_mtu = 1500,
       pc_virtual_gateway_ip = gw_ip \<rparr>;
     eng \<leftarrow> NatEngine_new nat_ip 20000 60000;
     Pipeline_new cfg fabric eng }"

text \<open>The self test: the pipeline it builds, and what it makes of the demo frame: the line and the
  counters it prints when the frame is forwarded, the other decision it reports otherwise.\<close>

definition selftest_pipeline :: "pipeline option" where
  "selftest_pipeline = do {
     node \<leftarrow> ipv4_from_str ''192.168.1.1'';
     net \<leftarrow> ipv4_from_str ''10.0.0.0'';
     inner_ip \<leftarrow> ipv4_from_str ''10.0.0.20'';
     peer \<leftarrow> ipv4_from_str ''192.168.1.2'';
     gw_ip \<leftarrow> ipv4_from_str ''10.0.0.1'';
     nat_ip \<leftarrow> ipv4_from_str ''203.0.113.7'';
     let fabric = Fabric_add_vpc (Fabric_new node) \<lparr> v_vni = 100, v_name = ''demo'', v_cidr = (net, 24) \<rparr>;
     let fabric = Fabric_add_endpoint fabric
       \<lparr> e_vni = 100, e_inner_ip = inner_ip, e_inner_mac = MacAddr 0x02 0 0 0 0 0x20, e_node_ip = peer, e_local = False \<rparr>;
     let cfg = \<lparr> pc_local_node_ip = node, pc_outer_src_mac = MacAddr 0x02 0 0 0 0 0x01, pc_outer_dst_mac = MacAddr 0x02 0 0 0 0 0x02,
       pc_vni = 100, pc_nat_ip = None, pc_gateway_node_ip = None,
       pc_virtual_gateway_mac = MacAddr 0x02 0 0 0 0 0xff, pc_outer_udp_checksum = False, pc_underlay_mtu = 1500,
       pc_virtual_gateway_ip = gw_ip \<rparr>;
     eng \<leftarrow> NatEngine_new nat_ip 20000 30000;
     Pipeline_new cfg fabric eng }"

definition selftest :: "(decision + string \<times> pipeline_stats) option" where
  "selftest = do {
     p \<leftarrow> selftest_pipeline;
     inner \<leftarrow> demo_frame ''10.0.0.10'' ''10.0.0.20'';
     (p, wire, d) \<leftarrow> Pipeline_on_tenant_frame p inner (replicate 2048 0) 1;
     (case d of
        Forward n \<Rightarrow> Some (Inr (''encapsulated '' @ nat_to_string (length inner) @ '' inner bytes -> '' @ nat_to_string n @
          '' wire bytes (VNI 100)'', p_stats p))
      | other \<Rightarrow> Some (Inl other)) }"

section \<open>Inspecting a packet\<close>

definition is_ascii_hexdigit :: "char \<Rightarrow> bool" where
  "is_ascii_hexdigit c \<longleftrightarrow> to_digit 16 c \<noteq> None"

fun hex_pairs :: "string \<Rightarrow> bytes option" where
  "hex_pairs [] = Some []"
| "hex_pairs [c] = None"
| "hex_pairs (c # d # cs) = do { b \<leftarrow> u8_from_str_radix 16 [c, d]; bs \<leftarrow> hex_pairs cs; Some (b # bs) }"

definition parse_hex :: "string \<Rightarrow> bytes option" where
  "parse_hex s =
     (let cleaned = filter is_ascii_hexdigit s in
      if cleaned = [] \<or> odd (length cleaned) then None else hex_pairs cleaned)"

definition andro_line :: "string \<Rightarrow> andromeda_hdr \<Rightarrow> string" where
  "andro_line pad h =
     pad @ ''      Andromeda  v'' @ nat_to_string (unat (ah_version h)) @ ''  VNI '' @ nat_to_string (unat (ah_vni h)) @
     ''  flow 0x'' @ hex04 (ah_flow_hash h) @ ''  hop '' @ nat_to_string (unat (ah_hop_limit h)) @ ''  '' @
     (if AndromedaHdr_is_control h then ''[control]'' else '''')"

text \<open>The lines printed for the outermost frame, and the inner frame that is decoded next, if any.\<close>

definition decode_udp :: "string \<Rightarrow> bytes \<Rightarrow> (string list \<times> bytes option) option" where
  "decode_udp pad payload =
     (case UdpView_parse payload of
        Inl _ \<Rightarrow> Some ([], None)
      | Inr u \<Rightarrow> do {
          sp \<leftarrow> UdpView_src_port u;
          dp \<leftarrow> UdpView_dst_port u;
          len \<leftarrow> UdpView_length u;
          let line = pad @ ''    UDP  '' @ nat_to_string (unat sp) @ '' -> '' @ nat_to_string (unat dp) @ ''  len '' @ nat_to_string (unat len);
          if dp = ANDROMEDA_UDP_PORT then do {
            after \<leftarrow> slice_from payload UDP_HDR_LEN;
            r \<leftarrow> AndromedaHdr_decode after;
            (case r of
               Inl _ \<Rightarrow> Some ([line], None)
             | Inr h \<Rightarrow> do {
                 inner \<leftarrow> slice_from after ANDROMEDA_HDR_LEN;
                 Some ([line, andro_line pad h, pad @ ''      -- inner frame --''], Some inner) }) }
          else Some ([line], None) })"

definition decode_tcp :: "string \<Rightarrow> bytes \<Rightarrow> (string list \<times> bytes option) option" where
  "decode_tcp pad payload = do {
     r \<leftarrow> TcpView_parse payload;
     (case r of
        Inl _ \<Rightarrow> Some ([], None)
      | Inr t \<Rightarrow> do {
          sp \<leftarrow> TcpView_src_port t;
          dp \<leftarrow> TcpView_dst_port t;
          sq \<leftarrow> TcpView_seq t;
          fl \<leftarrow> TcpView_flags t;
          Some ([pad @ ''    TCP  '' @ nat_to_string (unat sp) @ '' -> '' @ nat_to_string (unat dp) @ ''  seq '' @ nat_to_string (unat sq) @
            ''  flags 0x'' @ hex02 fl], None) }) }"

definition decode_ipv4 :: "string \<Rightarrow> bytes \<Rightarrow> (string list \<times> bytes option) option" where
  "decode_ipv4 pad pkt = do {
     r \<leftarrow> Ipv4View_parse pkt;
     (case r of
        Inl _ \<Rightarrow> Some ([pad @ ''  [!] truncated IPv4''], None)
      | Inr ip \<Rightarrow> do {
          p \<leftarrow> Ipv4View_protocol ip;
          let pn = (if p = proto_TCP then ''TCP'' else if p = proto_UDP then ''UDP'' else if p = proto_ICMP then ''ICMP'' else ''?'');
          src \<leftarrow> Ipv4View_src ip;
          dst \<leftarrow> Ipv4View_dst ip;
          ttl \<leftarrow> Ipv4View_ttl ip;
          len \<leftarrow> Ipv4View_total_length ip;
          ok \<leftarrow> Ipv4View_checksum_valid ip;
          let line = pad @ ''  IPv4  '' @ ipv4_to_string src @ '' -> '' @ ipv4_to_string dst @ ''  proto '' @ nat_to_string (unat p) @
            '' ('' @ pn @ '')  ttl '' @ nat_to_string (unat ttl) @ ''  len '' @ nat_to_string (unat len) @ ''  cksum '' @
            (if ok then ''ok'' else ''BAD'');
          payload \<leftarrow> Ipv4View_payload ip;
          (ls, inner) \<leftarrow> (if p = proto_UDP then decode_udp pad payload
            else if p = proto_TCP then decode_tcp pad payload else Some ([], None));
          Some (line # ls, inner) }) }"

definition decode_arp :: "string \<Rightarrow> bytes \<Rightarrow> (string list \<times> bytes option) option" where
  "decode_arp pad payload = do {
     r \<leftarrow> ArpView_parse payload;
     (case r of
        Inl _ \<Rightarrow> Some ([], None)
      | Inr a \<Rightarrow> do {
          rq \<leftarrow> ArpView_is_request a;
          sip \<leftarrow> ArpView_sender_ip a;
          smac \<leftarrow> ArpView_sender_mac a;
          tip \<leftarrow> ArpView_target_ip a;
          Some ([pad @ ''  ARP '' @ (if rq then ''request'' else ''reply'') @ '': '' @ ipv4_to_string sip @ '' ('' @
            MacAddr_to_string smac @ '') asks/answers '' @ ipv4_to_string tip], None) }) }"

definition decode_layer :: "bytes \<Rightarrow> nat \<Rightarrow> (string list \<times> bytes option) option" where
  "decode_layer b depth =
     (let pad = concat (replicate depth ''  '') in
      (case EthFrame_parse b of
         Inl _ \<Rightarrow> Some ([pad @ ''[!] truncated Ethernet frame''], None)
       | Inr eth \<Rightarrow> do {
           et \<leftarrow> EthFrame_ethertype eth;
           let etn = (if et = ethertype_IPV4 then ''IPv4'' else if et = ethertype_ARP then ''ARP''
             else if et = ethertype_IPV6 then ''IPv6'' else ''?'');
           src \<leftarrow> EthFrame_src eth;
           dst \<leftarrow> EthFrame_dst eth;
           let line = pad @ ''Ethernet  '' @ MacAddr_to_string src @ '' -> '' @ MacAddr_to_string dst @ ''  ethertype 0x'' @ hex04 et @
             '' ('' @ etn @ '')'';
           payload \<leftarrow> EthFrame_payload eth;
           (ls, inner) \<leftarrow>
             (if et = ethertype_ARP then decode_arp pad payload
              else if et = ethertype_IPV4 then decode_ipv4 pad payload
              else Some ([], None));
           Some (line # ls, inner) }))"

text \<open>The inner frame is shorter, so decoding ends.\<close>

lemma slice_from_length: "slice_from b i = Some s \<Longrightarrow> length s = length b - i"
  by (auto simp: slice_from_def split: if_splits)

lemma decode_udp_inner:
  assumes d: "decode_udp pad pl = Some (ls, Some inner)"
  shows "length inner \<le> length pl"
proof -
  obtain u sp dp len where "UdpView_parse pl = Inr u" "UdpView_src_port u = Some sp" "UdpView_dst_port u = Some dp"
    "UdpView_length u = Some len"
    using d by (auto simp: decode_udp_def Option.bind_eq_Some_conv split: sum.splits)
  note u = this
  then have "dp = ANDROMEDA_UDP_PORT" using d by (auto simp: decode_udp_def Let_def split: if_splits)
  with d u obtain r after where "slice_from pl UDP_HDR_LEN = Some after" "AndromedaHdr_decode after = Some r"
    by (auto simp: decode_udp_def Let_def Option.bind_eq_Some_conv)
  note r = this
  have "slice_from after ANDROMEDA_HDR_LEN = Some inner"
    using d u r \<open>dp = _\<close> by (cases r) (auto simp: decode_udp_def Let_def Option.bind_eq_Some_conv)
  from slice_from_length [OF this] slice_from_length [OF r(1)] show ?thesis by simp
qed

lemma decode_tcp_inner: "decode_tcp pad pl = Some (ls, inner) \<Longrightarrow> inner = None"
proof (cases "TcpView_parse pl")
  case (Some r)
  then show "decode_tcp pad pl = Some (ls, inner) \<Longrightarrow> inner = None"
    by (cases r) (auto simp: decode_tcp_def Option.bind_eq_Some_conv)
qed (simp add: decode_tcp_def)

lemma decode_arp_inner: "decode_arp pad pl = Some (ls, inner) \<Longrightarrow> inner = None"
proof (cases "ArpView_parse pl")
  case (Some r)
  then show "decode_arp pad pl = Some (ls, inner) \<Longrightarrow> inner = None"
    by (cases r) (auto simp: decode_arp_def Option.bind_eq_Some_conv)
qed (simp add: decode_arp_def)

lemma decode_ipv4_inner:
  assumes "decode_ipv4 pad pkt = Some (ls, Some inner)"
  shows "length inner \<le> length pkt"
proof -
  obtain r where r: "Ipv4View_parse pkt = Some r" using assms by (auto simp: decode_ipv4_def Option.bind_eq_Some_conv)
  then obtain ip where ip: "r = Inr ip" using assms by (cases r) (auto simp: decode_ipv4_def)
  then have "ip = pkt" using r Ipv4View_parse_err [of pkt] Ipv4View_parse_ok [of pkt] by (cases "ipv4_ok pkt") auto
  with assms r ip obtain pl ls' where pl: "Ipv4View_payload pkt = Some pl" and d: "decode_udp pad pl = Some (ls', Some inner)"
    by (auto simp: decode_ipv4_def Let_def Option.bind_eq_Some_conv split: if_splits dest: decode_tcp_inner)
  have "length pl \<le> length pkt"
    using pl by (auto simp: Ipv4View_payload_def Option.bind_eq_Some_conv dest!: slice_from_length)
  then show ?thesis using decode_udp_inner [OF d] by simp
qed

lemma decode_layer_inner:
  assumes "decode_layer b depth = Some (ls, Some inner)"
  shows "length inner < length b"
proof -
  have b: "14 \<le> length b"
    using assms by (auto simp: decode_layer_def EthFrame_parse_eq Let_def split: if_splits)
  then obtain pad ls' where "decode_ipv4 pad (drop 14 b) = Some (ls', Some inner)"
    using assms EthFrame_accessors(2) [OF b]
    by (auto simp: decode_layer_def EthFrame_parse_eq Let_def Option.bind_eq_Some_conv split: if_splits
        dest: decode_arp_inner)
  then have "length inner \<le> length (drop 14 b)" by (rule decode_ipv4_inner)
  then show ?thesis using b by simp
qed

function decode_frame :: "bytes \<Rightarrow> nat \<Rightarrow> string list option" where
  "decode_frame b depth =
     (case decode_layer b depth of
        None \<Rightarrow> None
      | Some (ls, None) \<Rightarrow> Some ls
      | Some (ls, Some inner) \<Rightarrow> do { ls' \<leftarrow> decode_frame inner (depth + 4); Some (ls @ ls') })"
  by pat_completeness auto
termination
  by (relation "measure (\<lambda>(b, depth). length b)") (auto dest: decode_layer_inner)

declare decode_frame.simps [simp del]

text \<open>A command ends with an exit code (\<open>Inl\<close>) or with its output.\<close>

definition inspect_cmd :: "string list \<Rightarrow> (nat + string list) option" where
  "inspect_cmd args =
     (case args of
        hex # _ \<Rightarrow>
          (case parse_hex hex of
             None \<Rightarrow> Some (Inl 2)
           | Some b \<Rightarrow> do { ls \<leftarrow> decode_frame b 0; Some (Inr ([nat_to_string (length b) @ '' bytes'', []] @ ls)) })
      | [] \<Rightarrow> do {
          b \<leftarrow> synth_overlay_packet;
          ls \<leftarrow> decode_frame b 0;
          Some (Inr ([''(no input given '' @ [CHR 0xE2, CHR 0x80, CHR 0x94] @ '' decoding a synthesized Andromeda overlay packet)'', [],
            nat_to_string (length b) @ '' bytes'', []] @ ls)) })"

section \<open>Options\<close>

definition u32_from_str :: "string \<Rightarrow> u32 option" where
  "u32_from_str s = map_option of_nat (from_str_radix (2 ^ 32 - 1) 10 s)"

definition u64_from_str :: "string \<Rightarrow> u64 option" where
  "u64_from_str s = map_option of_nat (from_str_radix (2 ^ 64 - 1) 10 s)"

text \<open>The value after a flag and the arguments after it; a missing or malformed value ends the
  process with exit code 2.\<close>

definition next_str :: "string list \<Rightarrow> nat + string \<times> string list" where
  "next_str it = (case it of v # it \<Rightarrow> Inr (v, it) | [] \<Rightarrow> Inl 2)"

definition next_parse :: "(string \<Rightarrow> 'a option) \<Rightarrow> string list \<Rightarrow> nat + 'a \<times> string list" where
  "next_parse from_str it =
     (case next_str it of
        Inl c \<Rightarrow> Inl c
      | Inr (s, it) \<Rightarrow> (case from_str s of Some v \<Rightarrow> Inr (v, it) | None \<Rightarrow> Inl 2))"

record cli_opts =
  co_tenant :: "string option"
  co_underlay :: "string option"
  co_config :: "string option"
  co_control :: "string option"
  co_queues :: u32
  co_queue :: u32
  co_mode :: run_mode
  co_vni :: u32
  co_local_node :: ipv4addr
  co_peer_node :: ipv4addr
  co_nat_ip :: "ipv4addr option"
  co_max_packets :: "u64 option"
  co_max_secs :: "u64 option"
  co_batch :: u32
  co_xdp_mode :: xdp_mode
  co_zerocopy :: bool

text \<open>The locals with their defaults; the addresses are parsed literals.\<close>

definition default_opts :: "cli_opts option" where
  "default_opts = do {
     local_node \<leftarrow> ipv4_from_str ''192.168.1.1'';
     peer_node \<leftarrow> ipv4_from_str ''192.168.1.2'';
     Some \<lparr> co_tenant = None, co_underlay = None, co_config = None, co_control = None, co_queues = 1, co_queue = 0,
       co_mode = Dump, co_vni = 100, co_local_node = local_node, co_peer_node = peer_node, co_nat_ip = None,
       co_max_packets = None, co_max_secs = None, co_batch = 64, co_xdp_mode = Auto, co_zerocopy = False \<rparr> }"

text \<open>One option of each command: the new locals and the remaining arguments.\<close>

definition with_value :: "nat + 'a \<times> string list \<Rightarrow> ('a \<Rightarrow> cli_opts) \<Rightarrow> nat + cli_opts \<times> string list" where
  "with_value r f = (case r of Inl c \<Rightarrow> Inl c | Inr (v, it) \<Rightarrow> Inr (f v, it))"

text \<open>The options the two commands share.\<close>

definition common_option :: "string \<Rightarrow> string list \<Rightarrow> cli_opts \<Rightarrow> nat + cli_opts \<times> string list" where
  "common_option a it o' =
     (if a = ''--vni'' then with_value (next_parse u32_from_str it) (\<lambda>v. o' \<lparr> co_vni := v \<rparr>)
      else if a = ''--local-node'' then with_value (next_parse ipv4_from_str it) (\<lambda>v. o' \<lparr> co_local_node := v \<rparr>)
      else if a = ''--peer-node'' then with_value (next_parse ipv4_from_str it) (\<lambda>v. o' \<lparr> co_peer_node := v \<rparr>)
      else if a = ''--nat-ip'' then with_value (next_parse ipv4_from_str it) (\<lambda>v. o' \<lparr> co_nat_ip := Some v \<rparr>)
      else if a = ''--secs'' then with_value (next_parse u64_from_str it) (\<lambda>v. o' \<lparr> co_max_secs := Some v \<rparr>)
      else if a = ''--batch'' then with_value (next_parse u32_from_str it) (\<lambda>v. o' \<lparr> co_batch := v \<rparr>)
      else if a = ''--skb'' then Inr (o' \<lparr> co_xdp_mode := Skb \<rparr>, it)
      else if a = ''--drv'' then Inr (o' \<lparr> co_xdp_mode := Drv \<rparr>, it)
      else if a = ''--zerocopy'' \<or> a = ''--zc'' then Inr (o' \<lparr> co_zerocopy := True \<rparr>, it)
      else Inl 2)"

definition run_option :: "string \<Rightarrow> string list \<Rightarrow> cli_opts \<Rightarrow> nat + cli_opts \<times> string list" where
  "run_option a it o' =
     (if a = ''--queue'' then with_value (next_parse u32_from_str it) (\<lambda>v. o' \<lparr> co_queue := v \<rparr>)
      else if a = ''--mode'' then
        (case next_str it of
           Inl c \<Rightarrow> Inl c
         | Inr (m, it) \<Rightarrow>
             if m = ''dump'' then Inr (o' \<lparr> co_mode := Dump \<rparr>, it)
             else if m = ''encap'' then Inr (o' \<lparr> co_mode := Encap \<rparr>, it)
             else if m = ''decap'' then Inr (o' \<lparr> co_mode := Decap \<rparr>, it)
             else Inl 2)
      else if a = ''--count'' then with_value (next_parse u64_from_str it) (\<lambda>v. o' \<lparr> co_max_packets := Some v \<rparr>)
      else common_option a it o')"

definition switch_option :: "string \<Rightarrow> string list \<Rightarrow> cli_opts \<Rightarrow> nat + cli_opts \<times> string list" where
  "switch_option a it o' =
     (if a = ''--tenant'' then with_value (next_str it) (\<lambda>v. o' \<lparr> co_tenant := Some v \<rparr>)
      else if a = ''--underlay'' then with_value (next_str it) (\<lambda>v. o' \<lparr> co_underlay := Some v \<rparr>)
      else if a = ''--config'' then with_value (next_str it) (\<lambda>v. o' \<lparr> co_config := Some v \<rparr>)
      else if a = ''--control'' then with_value (next_str it) (\<lambda>v. o' \<lparr> co_control := Some v \<rparr>)
      else if a = ''--queues'' then with_value (next_parse u32_from_str it) (\<lambda>v. o' \<lparr> co_queues := v \<rparr>)
      else common_option a it o')"

text \<open>The loops over the arguments: an option leaves fewer arguments than it found.\<close>

lemma next_str_len: "next_str it = Inr (v, it') \<Longrightarrow> length it' < length it"
  by (auto simp: next_str_def split: list.splits)

lemma with_value_len: "(\<And>v r'. r = Inr (v, r') \<Longrightarrow> length r' \<le> n) \<Longrightarrow> with_value r f = Inr (x, it') \<Longrightarrow> length it' \<le> n"
  by (auto simp: with_value_def split: sum.splits)

lemma next_parse_len: "next_parse from_str it = Inr (v, it') \<Longrightarrow> length it' \<le> length it"
  by (auto simp: next_parse_def split: sum.splits option.splits dest: next_str_len)

lemma common_option_len: "common_option a it o' = Inr (x, it') \<Longrightarrow> length it' \<le> length it"
  by (auto simp: common_option_def split: if_splits intro: with_value_len [OF next_parse_len])

lemma option_len:
  "run_option a it o' = Inr (x, it') \<Longrightarrow> length it' \<le> length it"
  "switch_option a it o' = Inr (x, it') \<Longrightarrow> length it' \<le> length it"
proof -
  have ns: "length r' \<le> length it" if "next_str it = Inr (v, r')" for v r' using next_str_len [OF that] by simp
  show "run_option a it o' = Inr (x, it') \<Longrightarrow> length it' \<le> length it"
    by (auto simp: run_option_def split: if_splits sum.splits prod.splits intro: with_value_len [OF next_parse_len] common_option_len dest: ns)
  show "switch_option a it o' = Inr (x, it') \<Longrightarrow> length it' \<le> length it"
    by (auto simp: switch_option_def split: if_splits intro: with_value_len [OF next_parse_len] with_value_len [OF ns] common_option_len)
qed

function run_options :: "string list \<Rightarrow> cli_opts \<Rightarrow> nat + cli_opts" where
  "run_options [] o' = Inr o'"
| "run_options (a # it) o' =
     (case run_option a it o' of Inl c \<Rightarrow> Inl c | Inr (o'', it') \<Rightarrow> run_options it' o'')"
  by pat_completeness auto
termination
  by (relation "measure (\<lambda>(it, o'). length it)") (auto dest: option_len(1) simp: less_Suc_eq_le)

function switch_options :: "string list \<Rightarrow> cli_opts \<Rightarrow> nat + cli_opts" where
  "switch_options [] o' = Inr o'"
| "switch_options (a # it) o' =
     (case switch_option a it o' of Inl c \<Rightarrow> Inl c | Inr (o'', it') \<Rightarrow> switch_options it' o'')"
  by pat_completeness auto
termination
  by (relation "measure (\<lambda>(it, o'). length it)") (auto dest: option_len(2) simp: less_Suc_eq_le)

section \<open>The commands\<close>

datatype command = Selftest | Bench "string list" | Inspect "string list" | Run "string list" | Switch "string list" | Version | Help
  | Unknown string

text \<open>What \<open>main\<close> does with the arguments after the program name.\<close>

definition main_command :: "string list \<Rightarrow> command" where
  "main_command args =
     (case args of
        [] \<Rightarrow> Version
      | c # rest \<Rightarrow>
          if c = ''selftest'' then Selftest
          else if c = ''bench'' then Bench rest
          else if c = ''inspect'' then Inspect rest
          else if c = ''run'' then Run rest
          else if c = ''switch'' then Switch rest
          else if c = ''version'' \<or> c = ''--version'' then Version
          else if c = ''help'' \<or> c = ''--help'' \<or> c = ''-h'' then Help
          else Unknown c)"

text \<open>How a forwarding command stands after the observations it was given: ended with an exit code,
  still forwarding, or returned normally.\<close>

datatype 'a cli_end = Exit nat | Running | Done 'a

text \<open>The fabric and the configuration the flags describe: one network that covers every address, and
  the peer node as the gateway.\<close>

definition flag_fabric :: "cli_opts \<Rightarrow> fabric option" where
  "flag_fabric o' = do {
     any \<leftarrow> ipv4_from_str ''0.0.0.0'';
     Some (Fabric_add_vpc (Fabric_new (co_local_node o'))
       \<lparr> v_vni = co_vni o', v_name = ''vpc-'' @ nat_to_string (unat (co_vni o')), v_cidr = (any, 0) \<rparr>) }"

definition flag_config :: "cli_opts \<Rightarrow> pipeline_config option" where
  "flag_config o' = do {
     gw_ip \<leftarrow> ipv4_from_str ''10.0.0.1'';
     Some \<lparr> pc_local_node_ip = co_local_node o', pc_outer_src_mac = MacAddr 0x02 0 0 0 0xa1 0x01,
       pc_outer_dst_mac = MacAddr 0x02 0 0 0 0xa1 0x02, pc_vni = co_vni o', pc_nat_ip = co_nat_ip o',
       pc_gateway_node_ip = Some (co_peer_node o'), pc_virtual_gateway_mac = MacAddr 0x02 0 0 0 0 0xff,
       pc_outer_udp_checksum = False, pc_underlay_mtu = 1500, pc_virtual_gateway_ip = gw_ip \<rparr> }"

definition flag_nat :: "cli_opts \<Rightarrow> nat_engine option" where
  "flag_nat o' = NatEngine_new (case co_nat_ip o' of Some ip \<Rightarrow> ip | None \<Rightarrow> co_local_node o') 20000 60000"

definition cli_xcfg :: "cli_opts \<Rightarrow> xsk_config" where
  "cli_xcfg o' = XskConfig_default \<lparr> xc_xdp_mode := co_xdp_mode o', xc_zerocopy := co_zerocopy o' \<rparr>"

text \<open>\<open>run\<close>: the interface is the first argument unless it looks like an option. \<open>gc_at\<close> and the
  observations are those of the loop.\<close>

definition run_cmd :: "'k xdp_api \<Rightarrow> string list \<Rightarrow> nat \<Rightarrow> tick list \<Rightarrow> 'k run_state cli_end option" where
  "run_cmd api args gc_at ts =
     (case args of
        [] \<Rightarrow> Some (Exit 2)
      | iface # rest \<Rightarrow>
          if take 2 iface = ''--'' then Some (Exit 2)
          else do {
            defaults \<leftarrow> default_opts;
            (case run_options rest defaults of
               Inl c \<Rightarrow> Some (Exit c)
             | Inr o' \<Rightarrow> do {
                 fabric \<leftarrow> flag_fabric o';
                 cfg \<leftarrow> flag_config o';
                 eng \<leftarrow> flag_nat o';
                 p \<leftarrow> Pipeline_new cfg fabric eng;
                 (case XskSocket_open api iface (co_queue o') (cli_xcfg o') of
                    Inl e \<Rightarrow> Some (Exit 1)
                  | Inr sock \<Rightarrow> do {
                      r \<leftarrow> run api sock p \<lparr> ro_mode = co_mode o', ro_max_packets = co_max_packets o',
                        ro_max_secs = co_max_secs o', ro_batch = co_batch o' \<rparr> gc_at ts;
                      Some (case r of Inl st \<Rightarrow> Running | Inr st \<Rightarrow> Done st) }) }) })"

text \<open>The node of \<open>switch\<close>: from the configuration file when there is one, from the flags otherwise.\<close>

definition file_config :: "node_config \<Rightarrow> pipeline_config" where
  "file_config nc =
     \<lparr> pc_local_node_ip = nc_local_node nc, pc_outer_src_mac = MacAddr 0x02 0 0 0 0xa1 0x01,
       pc_outer_dst_mac = MacAddr 0x02 0 0 0 0xa1 0x02, pc_vni = nc_vni nc, pc_nat_ip = nc_nat_ip nc,
       pc_gateway_node_ip = nc_peer_node nc, pc_virtual_gateway_mac = nc_virtual_gateway_mac nc,
       pc_outer_udp_checksum = False, pc_underlay_mtu = nc_underlay_mtu nc, pc_virtual_gateway_ip = nc_virtual_gateway_ip nc \<rparr>"

definition switch_node ::
    "(string \<Rightarrow> nat \<Rightarrow> string + string) \<Rightarrow> (string \<Rightarrow> string + raw_config) \<Rightarrow> cli_opts \<Rightarrow>
     (nat + fabric \<times> pipeline_config \<times> nat_engine) option" where
  "switch_node read_file from_str o' =
     (case co_config o' of
        Some cp \<Rightarrow> do {
          r \<leftarrow> NodeConfig_load read_file from_str cp;
          (case r of
             Inl e \<Rightarrow> Some (Inl 2)
           | Inr nc \<Rightarrow> do {
               eng \<leftarrow> NatEngine_new (case nc_nat_ip nc of Some ip \<Rightarrow> ip | None \<Rightarrow> nc_local_node nc) 20000 60000;
               Some (Inr (NodeConfig_build_fabric nc, file_config nc, eng)) }) }
      | None \<Rightarrow> do {
          fabric \<leftarrow> flag_fabric o';
          cfg \<leftarrow> flag_config o';
          eng \<leftarrow> flag_nat o';
          Some (Inr (fabric, cfg, eng)) })"

text \<open>What the environment of \<open>switch\<close> decides: whether the control socket can be bound, and for each
  worker the fabric it finds in the shared handle (\<open>None\<close> for the initial one), its start
  time and its observations; worker 0 stands for the loop of a single queue.\<close>

record switch_env =
  se_bind :: "string \<Rightarrow> bool"
  se_worker :: "nat \<Rightarrow> fabric option \<times> nat \<times> tick list"

definition control_bound :: "switch_env \<Rightarrow> cli_opts \<Rightarrow> bool" where
  "control_bound env o' = (case co_control o' of None \<Rightarrow> True | Some sock \<Rightarrow> se_bind env sock)"

definition switch_run_opts :: "cli_opts \<Rightarrow> run_opts" where
  "switch_run_opts o' = \<lparr> ro_mode = Encap, ro_max_packets = None, ro_max_secs = co_max_secs o', ro_batch = co_batch o' \<rparr>"

definition sum_stats :: "run_stats list \<Rightarrow> u64 \<times> u64 \<times> u64" where
  "sum_stats all = foldl (\<lambda>(a, b, c) s. (a + rt_rx s, b + rt_tx s, c + rt_dropped s)) (0, 0, 0) all"

definition switch_multi ::
    "'k xdp_api \<Rightarrow> switch_env \<Rightarrow> cli_opts \<Rightarrow> string \<Rightarrow> string \<Rightarrow> fabric \<Rightarrow> pipeline_config \<Rightarrow> (u64 \<times> u64 \<times> u64) cli_end option" where
  "switch_multi api env o' tif uif fabric cfg =
     (if \<not> control_bound env o' then Some (Exit 1)
      else
        let ip = (case pc_nat_ip cfg of Some ip \<Rightarrow> ip | None \<Rightarrow> pc_local_node_ip cfg) in
        (case run_multiqueue api tif uif (co_queues o') (cli_xcfg o') cfg ip (20000, 60000) (switch_run_opts o')
            (\<lambda>q. case se_worker env q of (f, at, ts) \<Rightarrow> (case_option fabric (\<lambda>f. f) f, at, ts)) of
           None \<Rightarrow> Some Running
         | Some all \<Rightarrow> Some (Done (sum_stats all))))"

definition switch_single ::
    "'k xdp_api \<Rightarrow> switch_env \<Rightarrow> cli_opts \<Rightarrow> string \<Rightarrow> string \<Rightarrow> pipeline \<Rightarrow> (u64 \<times> u64 \<times> u64) cli_end option" where
  "switch_single api env o' tif uif p =
     (if \<not> control_bound env o' then Some (Exit 1)
      else case XskSocket_open api tif 0 (cli_xcfg o') of
        Inl e \<Rightarrow> Some (Exit 1)
      | Inr tenant \<Rightarrow> (case XskSocket_open api uif 0 (cli_xcfg o') of
          Inl e \<Rightarrow> Some (Exit 1)
        | Inr underlay \<Rightarrow> do {
            r \<leftarrow> run_switch api tenant underlay p (switch_run_opts o') (fst (snd (se_worker env 0))) (snd (snd (se_worker env 0)));
            Some (case r of
              Inl st \<Rightarrow> Running
            | Inr st \<Rightarrow> Done (rt_rx (sw_stats st), rt_tx (sw_stats st), rt_dropped (sw_stats st))) }))"

text \<open>The counters \<open>switch\<close> reports when it ends: received, transmitted, dropped.\<close>

definition switch_cmd ::
    "'k xdp_api \<Rightarrow> (string \<Rightarrow> nat \<Rightarrow> string + string) \<Rightarrow> (string \<Rightarrow> string + raw_config) \<Rightarrow> switch_env \<Rightarrow> string list \<Rightarrow>
     (u64 \<times> u64 \<times> u64) cli_end option" where
  "switch_cmd api read_file from_str env args = do {
     defaults \<leftarrow> default_opts;
     (case switch_options args defaults of
        Inl c \<Rightarrow> Some (Exit c)
      | Inr o' \<Rightarrow>
          (case (co_tenant o', co_underlay o') of
             (Some tif, Some uif) \<Rightarrow> do {
               node \<leftarrow> switch_node read_file from_str o';
               (case node of
                  Inl c \<Rightarrow> Some (Exit c)
                | Inr (fabric, cfg, eng) \<Rightarrow>
                    if 1 < co_queues o' then switch_multi api env o' tif uif fabric cfg
                    else do { p \<leftarrow> Pipeline_new cfg fabric eng; switch_single api env o' tif uif p }) }
           | _ \<Rightarrow> Some (Exit 2))) }"

section \<open>Decoding is total\<close>

lemma decode_udp_total: "\<exists>r. decode_udp pad pl = Some r"
proof (cases "length pl < 8")
  case False
  then have len: "8 \<le> length pl" by simp
  have s: "slice_from pl UDP_HDR_LEN = Some (drop 8 pl)" using len by (simp add: slice_from_def UDP_HDR_LEN_def)
  obtain r where r: "AndromedaHdr_decode (drop 8 pl) = Some r" using AndromedaHdr_decode_total [of "drop 8 pl"] by blast
  have "slice_from (drop 8 pl) ANDROMEDA_HDR_LEN \<noteq> None" if "r = Inr h" for h
    using r that by (auto simp: AndromedaHdr_decode_def slice_from_def split: if_splits)
  then show ?thesis using len s r by (cases r) (auto simp: decode_udp_def UdpView_parse_eq UdpView_accessors Let_def)
qed (simp add: decode_udp_def UdpView_parse_eq)

lemma decode_tcp_total: "\<exists>r. decode_tcp pad pl = Some r"
proof (cases "tcp_ok pl")
  case True
  then have len: "20 \<le> length pl" by (simp add: tcp_ok_def)
  show ?thesis using True len
    by (simp add: decode_tcp_def TcpView_parse_ok TcpView_accessors TcpView_seq_def TcpView_flags_def view_simps)
next
  case False
  with TcpView_parse_err show ?thesis by (fastforce simp: decode_tcp_def)
qed

lemma decode_arp_total: "\<exists>r. decode_arp pad pl = Some r"
proof (cases "arp_ok pl")
  case True
  then have "28 \<le> length pl" by (simp add: arp_ok_def)
  then show ?thesis using True ArpView_sender_mac_eq [of pl] by (auto simp: decode_arp_def ArpView_parse_ok ArpView_accessors)
next
  case False
  with ArpView_parse_err show ?thesis by (fastforce simp: decode_arp_def)
qed

lemma decode_ipv4_total: "\<exists>r. decode_ipv4 pad pkt = Some r"
proof (cases pkt rule: Ipv4View_parse_cases)
  case ok
  then have len: "20 \<le> length pkt" "ihl pkt \<le> length pkt" by (simp_all add: ipv4_ok_def)
  obtain pl where pl: "Ipv4View_payload pkt = Some pl" using len by (simp add: Ipv4View_payload_def Ipv4View_accessors slice_from_def)
  obtain v where v: "Ipv4View_checksum_valid pkt = Some v"
    using len by (simp add: Ipv4View_checksum_valid_def Ipv4View_accessors slice_def)
  show ?thesis using ok len pl v decode_udp_total [of pad pl] decode_tcp_total [of pad pl]
    by (auto simp: decode_ipv4_def Ipv4View_accessors Let_def)
qed (simp add: decode_ipv4_def)

lemma decode_layer_total: "\<exists>r. decode_layer b depth = Some r"
proof (cases "length b < 14")
  case False
  then have len: "14 \<le> length b" by simp
  let ?pad = "concat (replicate depth ''  '')"
  show ?thesis using EthFrame_accessors [OF len] decode_arp_total [of ?pad "drop 14 b"] decode_ipv4_total [of ?pad "drop 14 b"] False
    by (auto simp: decode_layer_def EthFrame_parse_eq Let_def)
qed (simp add: decode_layer_def EthFrame_parse_eq)

lemma decode_frame_total: "\<exists>ls. decode_frame b depth = Some ls"
proof (induction b depth rule: decode_frame.induct)
  case (1 b depth)
  obtain ls inner where r: "decode_layer b depth = Some (ls, inner)" using decode_layer_total [of b depth] by auto
  show ?case
  proof (cases inner)
    case (Some i)
    with 1 [OF r refl Some] r show ?thesis by (auto simp: decode_frame.simps [of b])
  qed (simp add: decode_frame.simps r)
qed

lemma hex_pairs_hex02: "hex_pairs (concat (map hex02 bs)) = Some bs"
proof (induction bs)
  case (Cons b bs)
  then show ?case using u8_from_str_radix_hex02 [of b] by (simp add: hex02_def)
qed simp

lemma parse_hex_hex02: "bs \<noteq> [] \<Longrightarrow> parse_hex (concat (map hex02 bs)) = Some bs"
proof -
  assume "bs \<noteq> []"
  have "is_ascii_hexdigit c" if "c \<in> set (hex02 b)" for b c
  proof -
    have "unat b div 16 < 16" "unat b mod 16 < 16" using unat_u8_less [of b] by (simp_all add: less_mult_imp_div_less)
    then show ?thesis using that by (auto simp: hex02_def is_ascii_hexdigit_def to_digit_digit_char)
  qed
  then have f: "filter is_ascii_hexdigit (concat (map hex02 bs)) = concat (map hex02 bs)" by (auto simp: filter_id_conv)
  have "length (concat (map hex02 bs)) = 2 * length bs" by (induction bs) (simp_all add: hex02_def)
  then show ?thesis using f \<open>bs \<noteq> []\<close> hex_pairs_hex02 [of bs] by (cases bs) (auto simp: parse_hex_def hex02_def Let_def)
qed


section \<open>Inspection and decapsulation\<close>

lemma decode_udp_Some:
  assumes "decode_udp pad pl = Some (ls, Some inner)"
  shows "16 \<le> length pl" and "word16 pl 2 = ANDROMEDA_UDP_PORT" and "drop_bit 4 (pl ! 8) = 1"
proof -
  have l: "8 \<le> length pl" using assms by (auto simp: decode_udp_def UdpView_parse_eq split: if_splits)
  show p: "word16 pl 2 = ANDROMEDA_UDP_PORT"
    using assms l by (auto simp: decode_udp_def UdpView_parse_eq UdpView_accessors Let_def split: if_splits)
  have s: "slice_from pl UDP_HDR_LEN = Some (drop 8 pl)" using l by (simp add: slice_from_def UDP_HDR_LEN_def)
  obtain h where "AndromedaHdr_decode (drop 8 pl) = Some (Inr h)"
    using assms l p s AndromedaHdr_decode_total [of "drop 8 pl"]
    by (cases "the (AndromedaHdr_decode (drop 8 pl))")
      (auto simp: decode_udp_def UdpView_parse_eq UdpView_accessors Let_def simp del: drop_drop)
  then show "16 \<le> length pl" "drop_bit 4 (pl ! 8) = 1"
    by (simp_all add: AndromedaHdr_decode_total split: if_splits)
qed

lemma decode_layer_Some:
  assumes "decode_layer f depth = Some (ls, Some inner)"
  shows "is_andromeda f"
proof -
  have l: "14 \<le> length f" using assms by (auto simp: decode_layer_def EthFrame_parse_eq Let_def split: if_splits)
  let ?pad = "concat (replicate depth ''  '')" and ?ip = "drop 14 f"
  obtain ls' where e: "word16 f 12 = ethertype_IPV4" and i: "decode_ipv4 ?pad ?ip = Some (ls', Some inner)"
    using assms EthFrame_accessors [OF l]
    by (auto simp: decode_layer_def EthFrame_parse_eq Let_def Option.bind_eq_Some_conv split: if_splits dest: decode_arp_inner)
  show ?thesis
  proof (cases ?ip rule: Ipv4View_parse_cases)
    case ok
    then have len: "20 \<le> length ?ip" "ihl ?ip \<le> length ?ip" by (simp_all add: ipv4_ok_def)
    obtain ls'' where p: "?ip ! 9 = proto_UDP" and u: "decode_udp ?pad (drop (ihl ?ip) ?ip) = Some (ls'', Some inner)"
      using i ok len
      by (auto simp: decode_ipv4_def Ipv4View_accessors Ipv4View_payload_eq Let_def Option.bind_eq_Some_conv
          split: if_splits dest: decode_tcp_inner simp del: drop_drop)
    from decode_udp_Some [OF u] p e l ok len show ?thesis by (auto simp: is_andromeda_def word16_drop add.commute add.left_commute)
  next
    case err
    then show ?thesis using i by (simp add: decode_ipv4_def)
  qed
qed

lemma decode_layer_andromeda:
  assumes f: "is_andromeda f" and h: "AndromedaHdr_decode (drop (22 + ihl (drop 14 f)) f) = Some (Inr h)"
  shows "\<exists>l1 l2 l3. decode_layer f depth =
    Some ([l1, l2, l3, andro_line (concat (replicate depth ''  '')) h, concat (replicate depth ''  '') @ ''      -- inner frame --''],
      Some (drop (30 + ihl (drop 14 f)) f))"
proof -
  let ?pad = "concat (replicate depth ''  '')" and ?ip = "drop 14 f"
  let ?l4 = "drop (ihl ?ip) ?ip"
  have l: "14 \<le> length f" "30 + ihl ?ip \<le> length f" and ok: "ipv4_ok ?ip" and e: "word16 f 12 = ethertype_IPV4"
    and pr: "f ! 23 = proto_UDP" and port: "word16 f (16 + ihl ?ip) = ANDROMEDA_UDP_PORT"
    using f by (simp_all add: is_andromeda_def)
  have len: "20 \<le> length ?ip" "ihl ?ip \<le> length ?ip" "8 \<le> length ?l4" using ok l by (simp_all add: ipv4_ok_def)
  have d: "drop 8 ?l4 = drop (22 + ihl ?ip) f" "drop 8 (drop 8 ?l4) = drop (30 + ihl ?ip) f" by (simp_all add: add.commute)
  have s: "slice_from ?l4 UDP_HDR_LEN = Some (drop 8 ?l4)" "slice_from (drop 8 ?l4) ANDROMEDA_HDR_LEN = Some (drop 8 (drop 8 ?l4))"
    using l by (simp_all add: slice_from_def UDP_HDR_LEN_def ANDROMEDA_HDR_LEN_def)
  have p: "word16 ?l4 2 = ANDROMEDA_UDP_PORT" using l port by (simp add: word16_drop)
  have "\<exists>l3. decode_udp ?pad ?l4 = Some ([l3, andro_line ?pad h, ?pad @ ''      -- inner frame --''], Some (drop (30 + ihl ?ip) f))"
    using len(3) s p h d by (simp add: decode_udp_def UdpView_parse_eq UdpView_accessors Let_def del: drop_drop)
  moreover obtain v where "Ipv4View_checksum_valid ?ip = Some v"
    using len by (simp add: Ipv4View_checksum_valid_def Ipv4View_accessors slice_def)
  moreover have "?ip ! 9 = proto_UDP" using l pr by simp
  ultimately have "\<exists>l2 l3. decode_ipv4 ?pad ?ip =
      Some ([l2, l3, andro_line ?pad h, ?pad @ ''      -- inner frame --''], Some (drop (30 + ihl ?ip) f))"
    using len(1) ok
    by (auto simp: decode_ipv4_def Ipv4View_parse_ok Ipv4View_accessors Ipv4View_payload_eq Let_def simp del: drop_drop)
  then show ?thesis using EthFrame_accessors [OF l(1)] l(1) e
    by (auto simp: decode_layer_def EthFrame_parse_eq Let_def ethertype_IPV4_def ethertype_ARP_def simp del: drop_drop)
qed

text \<open>C34: \<open>inspect\<close> decodes every packet, and sees what the switch sees. Given the hexadecimal dump of any
  bytes it neither panics nor rejects them; it goes on to an inner frame exactly when
  decapsulation yields one, after showing the header decapsulation returns, and then decodes
  that inner frame in the same way.\<close>

theorem inspect_packet:
  assumes "f \<noteq> []"
  shows "\<exists>ls more. inspect_cmd (concat (map hex02 f) # rest) =
      Some (Inr ([nat_to_string (length f) @ '' bytes'', []] @ ls @ more)) \<and>
    (case decap f of
       Some (Inr (Some d)) \<Rightarrow> length ls = 5 \<and> ls ! 3 = andro_line [] (dc_header d) \<and> decode_frame (dc_inner d) 4 = Some more
     | _ \<Rightarrow> decode_layer f 0 = Some (ls, None) \<and> more = [])"
proof (cases "is_andromeda f")
  case True
  from decap_andromeda [OF True] obtain h where h: "AndromedaHdr_decode (drop (22 + ihl (drop 14 f)) f) = Some (Inr h)"
    "decap f = Some (Inr (Some \<lparr> dc_header = h, dc_inner = drop (30 + ihl (drop 14 f)) f,
          dc_outer_src_ip = word32 (drop 14 f) 12, dc_outer_dst_ip = word32 (drop 14 f) 16 \<rparr>))" by blast
  from decode_layer_andromeda [OF True h(1), of 0] obtain ls where
    ls: "decode_layer f 0 = Some (ls, Some (drop (30 + ihl (drop 14 f)) f))" "length ls = 5" "ls ! 3 = andro_line [] h" by auto
  obtain more where "decode_frame (drop (30 + ihl (drop 14 f)) f) 4 = Some more" using decode_frame_total by blast
  with ls h(2) assms show ?thesis by (simp add: inspect_cmd_def parse_hex_hex02 decode_frame.simps [of f])
next
  case False
  obtain ls inner where "decode_layer f 0 = Some (ls, inner)" using decode_layer_total [of f 0] by auto
  with False have d: "decode_layer f 0 = Some (ls, None)" using decode_layer_Some [of f 0 ls] by (cases inner) auto
  obtain r where r: "decap f = Some r" "\<forall>d. r \<noteq> Inr (Some d)" using decap_other [OF False] by blast
  have i: "inspect_cmd (concat (map hex02 f) # rest) = Some (Inr ([nat_to_string (length f) @ '' bytes'', []] @ ls @ []))"
    using d assms by (simp add: inspect_cmd_def parse_hex_hex02 decode_frame.simps [of f])
  show ?thesis
    by (rule exI [of _ ls], rule exI [of _ "[]"], rule conjI [OF i])
      (use r d in \<open>auto split: sum.split option.split\<close>)
qed

theorem inspect_packet_witness:
  "\<exists>ls more. inspect_cmd [concat (map hex02 (overlay_prefix sample_params [1, 2, 3] @ [1, 2, 3]))] =
      Some (Inr ([nat_to_string 53 @ '' bytes'', []] @ ls @ more)) \<and>
     ls ! 3 = andro_line [] (AndromedaHdr_new (ep_vni sample_params) (ep_flow_hash sample_params)) \<and>
     decode_frame [1, 2, 3] 4 = Some more"
proof -
  let ?f = "overlay_prefix sample_params [1, 2, 3] @ [1, 2, 3]"
  have "?f \<noteq> []" "length ?f = 53" by simp_all
  then show ?thesis using inspect_packet [of ?f "[]"] decap_overlay [of "[1, 2, 3]" sample_params] by auto
qed

section \<open>The forwarding commands\<close>

lemma cli_literals:
  "ipv4_from_str ''192.168.1.1'' = Some 0xc0a80101" "ipv4_from_str ''192.168.1.2'' = Some 0xc0a80102"
  "ipv4_from_str ''0.0.0.0'' = Some 0" "ipv4_from_str ''10.0.0.1'' = Some 0x0a000001"
  by code_simp+

lemma default_opts_Some: "\<exists>o'. default_opts = Some o'"
  by (simp add: default_opts_def cli_literals)

lemma NatEngine_new_20000: "\<exists>e. NatEngine_new ip 20000 60000 = Some e"
  by (simp add: NatEngine_new_def TimingWheel_new_def)

lemma option_exit:
  "next_str it = Inl c \<Longrightarrow> c = 2" "next_parse from_str it = Inl c \<Longrightarrow> c = 2"
  by (auto simp: next_parse_def next_str_def split: list.splits option.splits)

lemma with_value_exit: "with_value r f = Inl c \<Longrightarrow> (r = Inl c \<Longrightarrow> c = 2) \<Longrightarrow> c = 2"
  by (auto simp: with_value_def split: sum.splits)

lemma common_option_exit: "common_option a it o' = Inl c \<Longrightarrow> c = 2"
  by (auto simp: common_option_def split: if_splits elim!: with_value_exit dest: option_exit)

lemma run_option_exit: "run_option a it o' = Inl c \<Longrightarrow> c = 2"
  by (auto simp: run_option_def split: if_splits sum.splits elim!: with_value_exit dest: option_exit common_option_exit)

lemma switch_option_exit: "switch_option a it o' = Inl c \<Longrightarrow> c = 2"
  by (auto simp: switch_option_def split: if_splits elim!: with_value_exit dest: option_exit common_option_exit)

lemma run_options_exit: "run_options args o' = Inl c \<Longrightarrow> c = 2"
  by (induction args o' rule: run_options.induct) (auto split: sum.splits dest: run_option_exit)

lemma switch_options_exit: "switch_options args o' = Inl c \<Longrightarrow> c = 2"
  by (induction args o' rule: switch_options.induct) (auto split: sum.splits dest: switch_option_exit)

lemma run_multiqueue_cases:
  assumes "xdp_contract api held (xc_n_frames xcfg) (xc_frame_size xcfg)" and "fresh_kernel api held xcfg" and "fst ports \<le> snd ports"
  shows "case run_multiqueue api tif uif n xcfg cfg ip ports opts env of
      None \<Rightarrow> \<exists>q. \<not> list_ex tk_stop (snd (snd (env q)))
    | Some all \<Rightarrow> list_all (\<lambda>s. rt_rx s = rt_tx s + rt_dropped s) all"
proof -
  let ?w = "\<lambda>q. multiqueue_worker api tif uif (of_nat q) xcfg (fst (env q)) cfg ip ports opts (fst (snd (env q))) (snd (snd (env q)))"
  have w: "\<exists>r. ?w q = Some r \<and> (case r of
        Inl e \<Rightarrow> True
      | Inr (Inl st) \<Rightarrow> \<not> list_ex tk_stop (snd (snd (env q)))
      | Inr (Inr st) \<Rightarrow> rt_rx (sw_stats st) = rt_tx (sw_stats st) + rt_dropped (sw_stats st))" for q
  proof -
    obtain r where r: "?w q = Some r" "case r of
        Inl e \<Rightarrow> XskSocket_open api tif (of_nat q) xcfg = Inl e \<or> XskSocket_open api uif (of_nat q) xcfg = Inl e
      | Inr (Inl st) \<Rightarrow> \<not> list_ex tk_stop (snd (snd (env q)))
      | Inr (Inr st) \<Rightarrow> switch_inv api held (xc_n_frames xcfg) (xc_frame_size xcfg) st {#} {#}"
      using multiqueue_worker_ok [OF assms] by blast
    then show ?thesis
    proof (cases r)
      case (Inr x)
      with r show ?thesis by (cases x) (simp_all add: switch_inv_def)
    qed simp
  qed
  have running: "\<exists>q. \<not> list_ex tk_stop (snd (snd (env q)))" if "?w q = Some (Inr (Inl st))" for q st
    using w [of q] that by auto
  have ended: "rt_rx (sw_stats st) = rt_tx (sw_stats st) + rt_dropped (sw_stats st)" if "?w q = Some (Inr (Inr st))" for q st
    using w [of q] that by auto
  show ?thesis
  proof (cases "run_multiqueue api tif uif n xcfg cfg ip ports opts env")
    case None
    then obtain q where q: "case ?w q of Some (Inr (Inl _)) \<Rightarrow> True | _ \<Rightarrow> False"
      by (auto simp: run_multiqueue_def Let_def case_prod_beta list_ex_iff split: if_splits)
    obtain r where r: "?w q = Some r" using w by blast
    with q obtain st where "?w q = Some (Inr (Inl st))" by (cases r; cases "projr r") auto
    from running [OF this] None show ?thesis by auto
  next
    case (Some all)
    have "rt_rx s = rt_tx s + rt_dropped s" if s: "s \<in> set all" for s
    proof -
      obtain q where q: "(case ?w q of Some (Inr (Inr st)) \<Rightarrow> Some (sw_stats st) | _ \<Rightarrow> None) = Some s"
        using Some s by (auto simp: run_multiqueue_def Let_def case_prod_beta List.map_filter_def split: if_splits)
      obtain r where r: "?w q = Some r" using w by blast
      with q obtain st where "?w q = Some (Inr (Inr st))" "s = sw_stats st" by (cases r; cases "projr r") auto
      with ended show ?thesis by blast
    qed
    with Some show ?thesis by (simp add: list_all_iff)
  qed
qed

lemma sim_command_contract: "xdp_contract (sim_api 2048 pkts) sim_held 4096 2048"
  by (rule sim_contract) simp

end
