(* ===== verification/Bench.thy ===== *)
theory Bench
  imports Cli
begin

text \<open>
  The benchmark of \<open>andromeda-cli/src/main.rs\<close>: the frames, pipelines, buffers and slots it builds,
  the five paths it times, the working-set sweep with its shuffle, and the loops that call
  them. The clock and the floating-point statistics of the samples are left out: a trial is
  the number of its calls that did what they are timed for, which the source counts and
  then hides from the optimizer. A closure that owns its state is a function on that state.
\<close>

section \<open>Timing loops\<close>

fun time_loop_from :: "nat \<Rightarrow> ('s \<Rightarrow> ('s \<times> bool) option) \<Rightarrow> 's \<Rightarrow> u64 \<Rightarrow> ('s \<times> u64) option" where
  "time_loop_from 0 f s ok = Some (s, ok)"
| "time_loop_from (Suc k) f s ok = do {
     (s, r) \<leftarrow> f s;
     time_loop_from k f s (if r then ok + 1 else ok) }"

definition time_loop :: "u64 \<Rightarrow> ('s \<Rightarrow> ('s \<times> bool) option) \<Rightarrow> 's \<Rightarrow> ('s \<times> u64) option" where
  "time_loop iters f s = time_loop_from (unat iters) f s 0"

fun measure_trials :: "nat \<Rightarrow> u64 \<Rightarrow> ('s \<Rightarrow> ('s \<times> bool) option) \<Rightarrow> 's \<Rightarrow> ('s \<times> u64 list) option" where
  "measure_trials 0 iters f s = Some (s, [])"
| "measure_trials (Suc reps) iters f s = do {
     (s, ok) \<leftarrow> time_loop iters f s;
     (s, oks) \<leftarrow> measure_trials reps iters f s;
     Some (s, ok # oks) }"

definition measure_path :: "nat \<Rightarrow> u64 \<Rightarrow> ('s \<Rightarrow> ('s \<times> bool) option) \<Rightarrow> 's \<Rightarrow> u64 list option" where
  "measure_path reps iters f s = do {
     (s, _) \<leftarrow> time_loop iters f s;
     (_, oks) \<leftarrow> measure_trials reps iters f s;
     Some oks }"

section \<open>The timed calls\<close>

definition is_forward :: "decision \<Rightarrow> bool" where
  "is_forward d = (case d of Forward _ \<Rightarrow> True | _ \<Rightarrow> False)"

definition copy_call :: "bytes \<Rightarrow> pipeline \<times> bytes \<Rightarrow> ((pipeline \<times> bytes) \<times> bool) option" where
  "copy_call frame st = (case st of (p, out) \<Rightarrow> do {
     (p, out, d) \<leftarrow> Pipeline_on_tenant_frame p frame out 0;
     Some ((p, out), is_forward d) })"

definition inplace_call :: "nat \<Rightarrow> pipeline \<times> bytes \<Rightarrow> ((pipeline \<times> bytes) \<times> bool) option" where
  "inplace_call inner_len st = (case st of (p, zc) \<Rightarrow> do {
     (p, zc, d) \<leftarrow> Pipeline_on_tenant_frame_inplace p zc inner_len 0;
     Some ((p, zc), is_forward d) })"

definition batch_call :: "frame_slot list \<Rightarrow> nat \<Rightarrow> pipeline \<times> bytes \<Rightarrow> ((pipeline \<times> bytes) \<times> bool) option" where
  "batch_call sl expected st = (case st of (p, umem) \<Rightarrow> do {
     (p, umem, k) \<leftarrow> Pipeline_encap_batch_inplace p umem sl 0;
     Some ((p, umem), k = expected) })"

definition underlay_call :: "bytes \<Rightarrow> pipeline \<times> bytes \<Rightarrow> ((pipeline \<times> bytes) \<times> bool) option" where
  "underlay_call frame st = (case st of (p, out) \<Rightarrow> do {
     (p, out, d) \<leftarrow> Pipeline_on_underlay_frame p frame out 0;
     Some ((p, out), is_forward d) })"

text \<open>Frames packed at a stride: the buffer with the frame after the headroom of each slot, and the
  slots.\<close>

fun pack_slots :: "bytes \<Rightarrow> nat \<Rightarrow> nat list \<Rightarrow> bytes \<Rightarrow> (bytes \<times> frame_slot list) option" where
  "pack_slots frame stride [] umem = Some (umem, [])"
| "pack_slots frame stride (i # is) umem = do {
     let off = i * stride;
     umem \<leftarrow> put umem (off + OVERLAY_OVERHEAD) (off + OVERLAY_OVERHEAD + length frame) frame;
     (umem, sl) \<leftarrow> pack_slots frame stride is umem;
     Some (umem, \<lparr> fs_offset = off, fs_inner_len = length frame \<rparr> # sl) }"

section \<open>The rows of the benchmark\<close>

record bench_row =
  br_path :: string
  br_frame_bytes :: nat
  br_calls :: u64
  br_oks :: "u64 list"

definition bench_reps :: nat where "bench_reps = 7"

definition bench_batch :: nat where "bench_batch = 32"

definition bench_stride :: nat where "bench_stride = 2048"

definition bench_rows :: "u64 \<Rightarrow> nat \<Rightarrow> bench_row list option" where
  "bench_rows iters payload_len = do {
     frame \<leftarrow> udp_tenant_frame ''10.0.0.10'' ''10.0.0.20'' 40000 4242 payload_len;
     let inner_len = length frame;
     let ioff = OVERLAY_OVERHEAD;
     let row = (\<lambda>path calls oks. \<lparr> br_path = path, br_frame_bytes = inner_len, br_calls = calls, br_oks = oks \<rparr>);
     ew \<leftarrow> build_pipeline True False;
     natp \<leftarrow> build_pipeline False True;
     let out = replicate 2048 0;
     copy \<leftarrow> measure_path bench_reps iters (copy_call frame) (ew, out);
     snat \<leftarrow> measure_path bench_reps iters (copy_call frame) (natp, out);
     ewz \<leftarrow> build_pipeline True False;
     zc \<leftarrow> put (replicate 2048 0) ioff (ioff + inner_len) frame;
     hot \<leftarrow> measure_path bench_reps iters (inplace_call inner_len) (ewz, zc);
     ewb \<leftarrow> build_pipeline True False;
     (umem, sl) \<leftarrow> pack_slots frame bench_stride [0..<bench_batch] (replicate (bench_batch * bench_stride) 0);
     let bi = iters div of_nat bench_batch;
     batch \<leftarrow> measure_path bench_reps bi (batch_call sl bench_batch) (ewb, umem);
     dz \<leftarrow> build_pipeline True False;
     (_, wire, d) \<leftarrow> Pipeline_on_tenant_frame dz frame (replicate 2048 0) 0;
     let n = (case d of Forward n \<Rightarrow> n | _ \<Rightarrow> 0);
     encapped \<leftarrow> slice wire 0 n;
     dd \<leftarrow> build_pipeline True False;
     decapped \<leftarrow> measure_path bench_reps iters (underlay_call encapped) (dd, replicate 2048 0);
     Some [row ''encap copy (east-west)'' iters copy, row ''encap copy + SNAT'' iters snat,
       row ''encap zero-copy (1 hot frame)'' iters hot, row ''encap zero-copy (batch 32)'' bi batch,
       row ''decap (underlay->tenant)'' iters decapped] }"

section \<open>The working-set sweep\<close>

definition xorshift :: "u32 \<Rightarrow> u32" where
  "xorshift s =
     (let s = s XOR push_bit 13 s; s = s XOR drop_bit 17 s in s XOR push_bit 5 s)"

definition slice_swap :: "'a list \<Rightarrow> nat \<Rightarrow> nat \<Rightarrow> 'a list option" where
  "slice_swap v i j = (if i < length v \<and> j < length v then Some (v [i := v ! j, j := v ! i]) else None)"

fun shuffle_loop :: "nat \<Rightarrow> u32 \<Rightarrow> 'a list \<Rightarrow> 'a list option" where
  "shuffle_loop 0 s v = Some v"
| "shuffle_loop (Suc i) s v = do {
     let s = xorshift s;
     v \<leftarrow> slice_swap v (Suc i) (unat s mod (Suc i + 1));
     shuffle_loop i s v }"

definition shuffle :: "'a list \<Rightarrow> 'a list option" where
  "shuffle v = shuffle_loop (length v - 1) 0x9e3779b9 v"

record sweep_row =
  sr_ws_kb :: nat
  sr_frames :: nat
  sr_calls :: u64
  sr_seq_oks :: "u64 list"
  sr_shuffled_oks :: "u64 list"

definition sweep_targets :: "nat list" where
  "sweep_targets = [4, 8, 16, 24, 32, 48, 64, 96, 128, 256, 384, 512, 768, 1024, 2048, 4096, 8192, 16384, 32768, 65536]"

definition sweep_stride :: "nat \<Rightarrow> nat" where
  "sweep_stride inner_len = (OVERLAY_OVERHEAD + inner_len + 63) div 64 * 64"

definition sweep_calls :: "nat \<Rightarrow> u64" where
  "sweep_calls n_frames = max (40000000 div of_nat n_frames) 4"

text \<open>\<open>bench_one\<close>: a call that is not timed, then two timed loops.\<close>

definition bench_one :: "frame_slot list \<Rightarrow> bytes \<Rightarrow> nat \<Rightarrow> (bytes \<times> u64 list) option" where
  "bench_one sl umem n_frames = do {
     p \<leftarrow> build_pipeline True False;
     let calls = sweep_calls n_frames;
     (p, umem, _) \<leftarrow> Pipeline_encap_batch_inplace p umem sl 0;
     ((_, umem), oks) \<leftarrow> measure_trials 2 calls (batch_call sl n_frames) (p, umem);
     Some (umem, oks) }"

definition sweep_one :: "bytes \<Rightarrow> nat \<Rightarrow> sweep_row option" where
  "sweep_one frame ws_kb = do {
     let stride = sweep_stride (length frame);
     let n_frames = max (ws_kb * 1024 div stride) 1;
     (umem, sl) \<leftarrow> pack_slots frame stride [0..<n_frames] (replicate (n_frames * stride) 0);
     (umem, seq) \<leftarrow> bench_one sl umem n_frames;
     sl \<leftarrow> shuffle sl;
     (_, shuf) \<leftarrow> bench_one sl umem n_frames;
     Some \<lparr> sr_ws_kb = ws_kb, sr_frames = n_frames, sr_calls = sweep_calls n_frames, sr_seq_oks = seq,
       sr_shuffled_oks = shuf \<rparr> }"

fun sweep_rows :: "bytes \<Rightarrow> nat list \<Rightarrow> sweep_row list option" where
  "sweep_rows frame [] = Some []"
| "sweep_rows frame (ws # wss) = do {
     r \<leftarrow> sweep_one frame ws;
     rs \<leftarrow> sweep_rows frame wss;
     Some (r # rs) }"

definition bench_sweep :: "sweep_row list option" where
  "bench_sweep = do {
     frame \<leftarrow> udp_tenant_frame ''10.0.0.10'' ''10.0.0.20'' 40000 4242 18;
     sweep_rows frame sweep_targets }"

text \<open>\<open>cpu_model\<close>, which heads the printed table: the value of the first line of the file that starts
  with ``model name'', if the file can be read and the value is not blank.\<close>

definition str_lines :: "string \<Rightarrow> string list" where
  "str_lines s =
     (let ls = split_on [CHR 0x0A] s;
          ls = (if last ls = [] then butlast ls else ls)
      in map (\<lambda>l. if l \<noteq> [] \<and> last l = CHR 0x0D then butlast l else l) ls)"

definition unknown_cpu :: string where "unknown_cpu = ''unknown (see `lscpu`)''"

definition cpu_model :: "string option \<Rightarrow> string" where
  "cpu_model cpuinfo =
     (case cpuinfo of
        None \<Rightarrow> unknown_cpu
      | Some s \<Rightarrow>
          (case find (\<lambda>l. take 10 l = ''model name'') (str_lines s) of
             None \<Rightarrow> unknown_cpu
           | Some l \<Rightarrow>
               (case split_on [CHR '':''] l of
                  _ # m # _ \<Rightarrow> (if str_trim m = [] then unknown_cpu else str_trim m)
                | _ \<Rightarrow> unknown_cpu)))"

section \<open>The command\<close>

definition is_ascii_digit :: "char \<Rightarrow> bool" where
  "is_ascii_digit c \<longleftrightarrow> to_digit 10 c \<noteq> None"

definition bench_total :: "string list \<Rightarrow> u64" where
  "bench_total args =
     (case find (\<lambda>a. a \<noteq> [] \<and> list_all is_ascii_digit a) args of
        None \<Rightarrow> 21000000
      | Some s \<Rightarrow> (case u64_from_str s of None \<Rightarrow> 21000000 | Some t \<Rightarrow> t))"

definition bench_iters :: "string list \<Rightarrow> u64" where
  "bench_iters args = max (bench_total args div of_nat bench_reps) 1"

text \<open>The rows it prints, of the sweep or of the five paths; \<open>--json\<close> only selects their form.\<close>

definition bench_cmd :: "string list \<Rightarrow> (sweep_row list + bench_row list) option" where
  "bench_cmd args =
     (if list_ex (\<lambda>a. a = ''--sweep'') args then map_option Inl bench_sweep
      else do {
        small \<leftarrow> bench_rows (bench_iters args) 18;
        large \<leftarrow> bench_rows (bench_iters args) 1354;
        Some (Inr (small @ large)) })"

lemma cpu_model_not_empty: "cpu_model f \<noteq> []"
  by (auto simp: cpu_model_def unknown_cpu_def split: option.split list.split)

section \<open>A path that is timed\<close>

text \<open>What a timed call must keep for its loop to measure forwarding: from a ready state it succeeds
  and leaves a ready state.\<close>

locale timed_path =
  fixes call :: "'s \<Rightarrow> ('s \<times> bool) option"
    and ready :: "'s \<Rightarrow> bool"
  assumes call_ok: "ready s \<Longrightarrow> \<exists>s'. call s = Some (s', True) \<and> ready s'"
begin

lemma loop_from: "ready s \<Longrightarrow> \<exists>s'. time_loop_from k call s ok = Some (s', ok + of_nat k) \<and> ready s'"
proof (induction k arbitrary: s ok)
  case (Suc k)
  obtain s1 where "call s = Some (s1, True)" "ready s1" using call_ok [OF Suc.prems] by blast
  with Suc.IH [of s1 "ok + 1"] show ?case by (auto simp: ac_simps)
qed simp

lemma loop: "ready s \<Longrightarrow> \<exists>s'. time_loop iters call s = Some (s', iters) \<and> ready s'"
  using loop_from [of s "unat iters" 0] by (simp add: time_loop_def)

lemma trials: "ready s \<Longrightarrow> \<exists>s'. measure_trials reps iters call s = Some (s', replicate reps iters) \<and> ready s'"
proof (induction reps arbitrary: s)
  case (Suc reps)
  obtain s1 where "time_loop iters call s = Some (s1, iters)" "ready s1" using loop [OF Suc.prems] by blast
  with Suc.IH [of s1] show ?case by auto
qed simp

lemma measured: "ready s \<Longrightarrow> measure_path reps iters call s = Some (replicate reps iters)"
proof -
  assume "ready s"
  then obtain s1 where "time_loop iters call s = Some (s1, iters)" "ready s1" using loop by blast
  moreover obtain s2 where "measure_trials reps iters call s1 = Some (s2, replicate reps iters)"
    using trials [OF \<open>ready s1\<close>] by blast
  ultimately show ?thesis by (simp add: measure_path_def)
qed

end

section \<open>Frames the benchmark forwards\<close>

text \<open>A frame that the pipeline sends to an endpoint, and one that it sends to its gateway.\<close>

definition hop_for :: "pipeline \<Rightarrow> bytes \<Rightarrow> ipv4addr \<times> mac_addr option \<times> bool \<Rightarrow> bool" where
  "hop_for p inner hop \<longleftrightarrow> 14 \<le> length inner \<and> word16 inner 12 = ethertype_IPV4 \<and>
     ip_verdict (p_cfg p) (p_fabric p) (pc_vni (p_cfg p)) (drop 14 inner) = Encapsulate hop"

definition routable :: "pipeline \<Rightarrow> bytes \<Rightarrow> bool" where "routable p inner \<longleftrightarrow> (\<exists>hop. hop_for p inner hop)"

definition resolvable :: "pipeline \<Rightarrow> bytes \<Rightarrow> bool" where
  "resolvable p inner \<longleftrightarrow> (\<exists>node mac. hop_for p inner (node, Some mac, False))"

lemma resolvable_routable: "resolvable p inner \<Longrightarrow> routable p inner"
  by (auto simp: resolvable_def routable_def)

lemma hop_for_verdict:
  assumes "hop_for p inner hop"
  shows "tenant_verdict (p_cfg p) (p_fabric p) (pc_vni (p_cfg p)) inner = Encapsulate hop"
    "inplace_verdict (p_cfg p) (p_fabric p) (pc_vni (p_cfg p)) inner = Encapsulate hop"
  using assms by (simp_all add: hop_for_def tenant_verdict_def inplace_verdict_eq ethertype_defs)

lemma hop_for_cong: "p_cfg q = p_cfg p \<Longrightarrow> p_fabric q = p_fabric p \<Longrightarrow> hop_for q = hop_for p"
  by (simp add: hop_for_def fun_eq_iff)

lemma resolvable_cong: "p_cfg q = p_cfg p \<Longrightarrow> p_fabric q = p_fabric p \<Longrightarrow> resolvable q = resolvable p"
  "p_cfg q = p_cfg p \<Longrightarrow> p_fabric q = p_fabric p \<Longrightarrow> routable q = routable p"
  by (simp_all add: resolvable_def [abs_def] routable_def [abs_def] hop_for_cong [of q p])

lemma hop_for_new_mac: "hop_for p inner hop \<Longrightarrow> hop_for p (mac_bytes m @ drop 6 inner) hop"
  by (simp add: hop_for_def word16_def nth_append)

lemma copy_forwards:
  assumes inv: "pipeline_inv p" and r: "routable p inner" and fits: "50 + length inner \<le> length out"
    and n: "length inner \<le> 65499"
  shows "\<exists>p' out'. Pipeline_on_tenant_frame p inner out now = Some (p', out', Forward (50 + length inner)) \<and>
    pipeline_inv p' \<and> p_cfg p' = p_cfg p \<and> p_fabric p' = p_fabric p \<and> length out' = length out \<and>
    (\<exists>d. decap (take (50 + length inner) out') = Some (Inr (Some d)) \<and> length (dc_inner d) = length inner \<and>
      ah_vni (dc_header d) = ah_vni (AndromedaHdr_new (pc_vni (p_cfg p)) 0))"
proof -
  obtain hop where h: "hop_for p inner hop" using r by (auto simp: routable_def)
  have l14: "14 \<le> length inner" using h by (simp add: hop_for_def)
  have nat: "nat_inv (p_nat p)" using inv by (simp add: pipeline_inv_def)
  from egress_inner_ok [OF nat l14, of now "flow_of (drop 14 inner)" hop] obtain inner' eng natted flow where
    e: "egress_inner (p_nat p) now (flow_of (drop 14 inner)) hop inner = Some (inner', eng, natted, flow)"
    "length inner' = length inner" "nat_inv eng" by blast
  obtain out' where "Pipeline_encap_for_vni p inner out now (pc_vni (p_cfg p)) =
      Some (after_egress p eng natted, out', Forward (50 + length inner))" "length out' = length out"
    "decap (take (50 + length inner) out') = Some (Inr (Some
      \<lparr> dc_header = AndromedaHdr_new (pc_vni (p_cfg p)) flow, dc_inner = inner',
        dc_outer_src_ip = pc_local_node_ip (p_cfg p), dc_outer_dst_ip = fst hop \<rparr>))"
    by (rule encap_forwards [OF inv hop_for_verdict(1) [OF h] fits n e(1)])
  then show ?thesis
    using e(2) after_egress_simps(4) [OF inv e(3), of natted]
    by (simp add: after_egress_simps(1,2) Pipeline_on_tenant_frame_def AndromedaHdr_new_def)
qed

lemma inplace_forwards:
  assumes inv: "pipeline_inv p" and r: "resolvable p (take n (drop 50 frame))" and len: "50 + n \<le> length frame"
    and n: "50 + n < 2 ^ 64"
  shows "\<exists>p' frame'. Pipeline_on_tenant_frame_inplace p frame n now = Some (p', frame', Forward (50 + n)) \<and>
    pipeline_inv p' \<and> p_cfg p' = p_cfg p \<and> p_fabric p' = p_fabric p \<and> length frame' = length frame \<and>
    resolvable p (take n (drop 50 frame'))"
proof -
  let ?inner = "take n (drop 50 frame)"
  obtain node mac where h: "hop_for p ?inner (node, Some mac, False)" using r by (auto simp: resolvable_def)
  have l: "length ?inner = n" "14 \<le> n" using h len by (auto simp: hop_for_def)
  let ?i = "mac_bytes mac @ drop 6 ?inner"
  have li: "length ?i = n" using l by simp
  let ?out = "overlay_prefix (outer_params (p_cfg p) node (flow_of (drop 14 ?inner)) (p_ip_id p + 1) (pc_vni (p_cfg p))) ?i
      @ ?i @ drop (50 + n) frame"
  have "Pipeline_on_tenant_frame_inplace p frame n now = Some (after_egress p (p_nat p) False, ?out, Forward (50 + n))"
    using len l by (simp add: Pipeline_inplace_eq [OF inv n] hop_for_verdict(2) [OF h] tenant_outcome_def egress_inner_def Let_def)
  moreover have "take n (drop 50 ?out) = ?i" "length ?out = length frame" using li len by simp_all
  moreover have "resolvable p ?i" using hop_for_new_mac [OF h] by (auto simp: resolvable_def)
  moreover have "pipeline_inv (after_egress p (p_nat p) False)"
    using after_egress_simps(4) [OF inv, of "p_nat p" False] inv by (simp add: pipeline_inv_def)
  ultimately show ?thesis by (auto simp: after_egress_simps(1,2))
qed

section \<open>Slots at a stride\<close>

text \<open>Every slot has room for its frame, none reaches into the next one, and each frame in the buffer
  is one the pipeline forwards to an endpoint.\<close>

definition slots_at :: "nat \<Rightarrow> nat \<Rightarrow> frame_slot list \<Rightarrow> bool" where
  "slots_at stride n sl \<longleftrightarrow> 50 + n \<le> stride \<and> length sl < 2 ^ 64 \<and>
     (\<forall>s \<in> set sl. stride dvd fs_offset s \<and> fs_inner_len s = n \<and> slot_ok s)"

definition frames_ready :: "pipeline \<Rightarrow> bytes \<Rightarrow> frame_slot list \<Rightarrow> bool" where
  "frames_ready p umem sl \<longleftrightarrow> (\<forall>s \<in> set sl. fs_offset s + 50 + fs_inner_len s \<le> length umem \<and>
     resolvable p (take (fs_inner_len s) (drop (fs_offset s + 50) umem)))"

lemma frames_ready_cong:
  "p_cfg p = p_cfg q \<Longrightarrow> p_fabric p = p_fabric q \<Longrightarrow> frames_ready p umem sl = frames_ready q umem sl"
  by (simp add: frames_ready_def resolvable_cong(1) [of p q])

lemma multiple_gap: "(k :: nat) dvd a \<Longrightarrow> k dvd b \<Longrightarrow> a < b \<Longrightarrow> a + k \<le> b"
  using dvd_imp_le [of k "b - a"] by (simp add: dvd_diff_nat)

lemma patch_slot_same:
  "a + length f \<le> length b \<Longrightarrow> length f = 50 + n \<Longrightarrow> take n (drop (a + 50) (patch b a f)) = take n (drop 50 f)"
  by (simp add: patch_def)

lemma patch_slot_other:
  assumes "c + 50 + n \<le> a \<or> a + length f \<le> c" and "a + length f \<le> length b" and "c + 50 + n \<le> length b"
  shows "take n (drop (c + 50) (patch b a f)) = take n (drop (c + 50) b)"
  using assms by (auto intro!: nth_equalityI simp: nth_patch)

lemma ref_slot_forwards:
  assumes inv: "pipeline_inv p" and sl: "slots_at stride n sl" and ready: "frames_ready p umem sl" and s: "s \<in> set sl"
  shows "\<exists>p' umem'. batch_ref_slot now (p, umem, k) s = (p', umem', k + 1) \<and> pipeline_inv p' \<and>
    p_cfg p' = p_cfg p \<and> p_fabric p' = p_fabric p \<and> length umem' = length umem \<and> frames_ready p' umem' sl"
proof -
  have room: "50 + n \<le> stride" and at: "stride dvd fs_offset s" "fs_inner_len s = n" "fs_offset s + 50 + n < 2 ^ 64"
    using sl s by (auto simp: slots_at_def slot_ok_def)
  have fit: "fs_offset s + 50 + n \<le> length umem" and res: "resolvable p (take n (drop (fs_offset s + 50) umem))"
    using ready s at(2) by (auto simp: frames_ready_def)
  let ?f = "take (50 + n) (drop (fs_offset s) umem)"
  have "take n (drop 50 ?f) = take n (drop (fs_offset s + 50) umem)" by (simp add: drop_take ac_simps)
  with res have "resolvable p (take n (drop 50 ?f))" by simp
  moreover have lf: "length ?f = 50 + n" using fit by simp
  ultimately obtain p' f' where f: "Pipeline_on_tenant_frame_inplace p ?f n now = Some (p', f', Forward (50 + n))"
      "pipeline_inv p'" "p_cfg p' = p_cfg p" "p_fabric p' = p_fabric p" "length f' = 50 + n"
      "resolvable p (take n (drop 50 f'))"
    using inplace_forwards [OF inv, of n ?f now] at(3) by auto
  have "frames_ready p' (patch umem (fs_offset s) f') sl"
    unfolding frames_ready_def
  proof
    fix t assume t: "t \<in> set sl"
    then have tt: "stride dvd fs_offset t" "fs_inner_len t = n" using sl by (auto simp: slots_at_def)
    have fit_t: "fs_offset t + 50 + n \<le> length umem" and res_t: "resolvable p (take n (drop (fs_offset t + 50) umem))"
      using ready t tt(2) by (auto simp: frames_ready_def)
    consider "fs_offset t = fs_offset s" | "fs_offset t + stride \<le> fs_offset s" | "fs_offset s + stride \<le> fs_offset t"
      using multiple_gap [OF tt(1) at(1)] multiple_gap [OF at(1) tt(1)] by linarith
    then have "resolvable p (take n (drop (fs_offset t + 50) (patch umem (fs_offset s) f')))"
    proof cases
      case 1
      then show ?thesis using f(5,6) fit by (simp add: patch_slot_same)
    next
      case 2
      then show ?thesis using f(5) fit fit_t res_t room by (simp add: patch_slot_other)
    next
      case 3
      then show ?thesis using f(5) fit fit_t res_t room by (simp add: patch_slot_other)
    qed
    then show "fs_offset t + 50 + fs_inner_len t \<le> length (patch umem (fs_offset s) f') \<and>
        resolvable p' (take (fs_inner_len t) (drop (fs_offset t + 50) (patch umem (fs_offset s) f')))"
      using tt(2) fit fit_t f(5) by (simp add: resolvable_cong(1) [OF f(3,4)])
  qed
  then show ?thesis using f fit at(2) by (simp add: batch_ref_slot_def Let_def)
qed

lemma ref_batch_forwards:
  assumes "pipeline_inv p" and "slots_at stride n sl" and "frames_ready p umem sl" and "set batch \<subseteq> set sl"
  shows "\<exists>p' umem'. foldl (batch_ref_slot now) (p, umem, k) batch = (p', umem', k + length batch) \<and> pipeline_inv p' \<and>
    p_cfg p' = p_cfg p \<and> p_fabric p' = p_fabric p \<and> length umem' = length umem \<and> frames_ready p' umem' sl"
  using assms
proof (induction batch arbitrary: p umem k)
  case (Cons s batch)
  have "s \<in> set sl" using Cons.prems(4) by simp
  from ref_slot_forwards [OF Cons.prems(1-3) this, of now k] obtain p1 umem1 where
    1: "batch_ref_slot now (p, umem, k) s = (p1, umem1, k + 1)" "pipeline_inv p1" "p_cfg p1 = p_cfg p"
      "p_fabric p1 = p_fabric p" "length umem1 = length umem" "frames_ready p1 umem1 sl" by blast
  have "set batch \<subseteq> set sl" using Cons.prems(4) by simp
  from Cons.IH [OF 1(2) Cons.prems(2) 1(6) this, of "k + 1"] 1 show ?case by auto
qed simp

lemma batch_forwards:
  assumes inv: "pipeline_inv p" and sl: "slots_at stride n sl" and ready: "frames_ready p umem sl"
  shows "\<exists>p' umem'. Pipeline_encap_batch_inplace p umem sl now = Some (p', umem', length sl) \<and> pipeline_inv p' \<and>
    p_cfg p' = p_cfg p \<and> p_fabric p' = p_fabric p \<and> length umem' = length umem \<and> frames_ready p' umem' sl"
proof -
  have "\<forall>s \<in> set sl. slot_ok s" "length sl < 2 ^ 64" using sl by (simp_all add: slots_at_def)
  from Pipeline_batch_eq [OF inv this, of now umem] obtain p1 umem1 k m where
    1: "foldl (batch_ref_slot now) (p, umem, 0) sl = (p1, umem1, k)"
      "Pipeline_encap_batch_inplace p umem sl now = Some (add_dropped (of_nat m) p1, umem1, k)" by blast
  from ref_batch_forwards [OF inv sl ready subset_refl, of now 0] 1(1) have
    2: "k = length sl" "pipeline_inv p1" "p_cfg p1 = p_cfg p" "p_fabric p1 = p_fabric p" "length umem1 = length umem"
      "frames_ready p1 umem1 sl" by auto
  have "frames_ready (add_dropped (of_nat m) p1) umem1 sl"
    using 2(6) by (simp add: frames_ready_cong [of "add_dropped (of_nat m) p1" p1])
  then show ?thesis using 1(2) 2 by simp
qed

section \<open>Shuffling\<close>

lemma slice_swap_mset: "slice_swap v i j = Some v' \<Longrightarrow> mset v' = mset v"
  by (auto simp: slice_swap_def mset_swap split: if_splits)

lemma shuffle_loop_mset: "i < length v \<or> v = [] \<and> i = 0 \<Longrightarrow> \<exists>v'. shuffle_loop i s v = Some v' \<and> mset v' = mset v"
proof (induction i arbitrary: s v)
  case (Suc i)
  let ?j = "unat (xorshift s) mod (Suc i + 1)"
  have "?j < length v" using Suc.prems mod_less_divisor [of "Suc i + 1" "unat (xorshift s)"] by linarith
  with Suc.prems obtain v1 where v1: "slice_swap v (Suc i) ?j = Some v1" by (simp add: slice_swap_def)
  then have m: "mset v1 = mset v" by (rule slice_swap_mset)
  then have "i < length v1" using Suc.prems by (metis Suc_lessD mset_eq_length nat.simps(3))
  with Suc.IH [of v1 "xorshift s"] v1 m show ?case by (auto simp: Let_def simp del: One_nat_def)
qed simp

lemma shuffle_mset: "\<exists>v'. shuffle v = Some v' \<and> mset v' = mset v"
  unfolding shuffle_def by (rule shuffle_loop_mset) (cases v; simp)

lemma slots_at_perm: "mset sl' = mset sl \<Longrightarrow> slots_at stride n sl' = slots_at stride n sl"
  "mset sl' = mset sl \<Longrightarrow> frames_ready p umem sl' = frames_ready p umem sl"
  using mset_eq_setD [of sl' sl] mset_eq_length [of sl' sl] by (auto simp: slots_at_def frames_ready_def)

section \<open>The timed paths forward\<close>

interpretation copied: timed_path "copy_call frame"
  "\<lambda>(p, out). pipeline_inv p \<and> routable p frame \<and> length frame \<le> 65499 \<and> 50 + length frame \<le> length out" for frame
proof (unfold_locales, clarsimp)
  fix p and out :: bytes
  assume ready: "pipeline_inv p" "routable p frame" "length frame \<le> 65499" "50 + length frame \<le> length out"
  from copy_forwards [OF ready(1,2,4,3), of 0] obtain p' out' where
    "Pipeline_on_tenant_frame p frame out 0 = Some (p', out', Forward (50 + length frame))" "pipeline_inv p'"
    "p_cfg p' = p_cfg p" "p_fabric p' = p_fabric p" "length out' = length out" by blast
  moreover from this have "routable p' frame" using ready(2) resolvable_cong(2) [of p' p] by simp
  ultimately show "\<exists>a b. copy_call frame (p, out) = Some ((a, b), True) \<and> pipeline_inv a \<and> routable a frame \<and>
      50 + length frame \<le> length b"
    using ready(4) by (simp add: copy_call_def is_forward_def)
qed

interpretation hot: timed_path "inplace_call n"
  "\<lambda>(p, zc). pipeline_inv p \<and> resolvable p (take n (drop 50 zc)) \<and> 50 + n \<le> length zc \<and> 50 + n < 2 ^ 64" for n
proof (unfold_locales, clarify)
  fix p and zc :: bytes
  assume ready: "pipeline_inv p" "resolvable p (take n (drop 50 zc))" "50 + n \<le> length zc"
    "50 + n < 2 ^ 64"
  obtain p' zc' where "Pipeline_on_tenant_frame_inplace p zc n 0 = Some (p', zc', Forward (50 + n))" "pipeline_inv p'"
    "p_cfg p' = p_cfg p" "p_fabric p' = p_fabric p" "length zc' = length zc" "resolvable p (take n (drop 50 zc'))"
    using inplace_forwards [OF ready(1,2,3,4), of 0] by blast
  moreover from this have "resolvable p' (take n (drop 50 zc'))" using resolvable_cong(1) [of p' p] by simp
  ultimately show "\<exists>s'. inplace_call n (p, zc) = Some (s', True) \<and>
      (case s' of (p, zc) \<Rightarrow> pipeline_inv p \<and> resolvable p (take n (drop 50 zc)) \<and> 50 + n \<le> length zc \<and> 50 + n < 2 ^ 64)"
    using ready(3,4) by (simp add: inplace_call_def is_forward_def)
qed

interpretation batched: timed_path "batch_call sl (length sl)"
  "\<lambda>(p, umem). pipeline_inv p \<and> p_cfg p = p_cfg q \<and> p_fabric p = p_fabric q \<and> slots_at stride n sl \<and> frames_ready q umem sl"
  for sl stride n q
proof (unfold_locales, clarify)
  fix p and umem :: bytes
  assume inv: "pipeline_inv p" and q: "p_cfg p = p_cfg q" "p_fabric p = p_fabric q"
    and sl: "slots_at stride n sl" "frames_ready q umem sl"
  have "frames_ready p umem sl" using sl(2) by (simp only: frames_ready_cong [OF q])
  from batch_forwards [OF inv sl(1) this, of 0] obtain p' umem' where
    b: "Pipeline_encap_batch_inplace p umem sl 0 = Some (p', umem', length sl)" "pipeline_inv p'"
      "p_cfg p' = p_cfg q" "p_fabric p' = p_fabric q" "frames_ready p' umem' sl"
    using q by auto
  have "frames_ready q umem' sl" using b(5) by (simp only: frames_ready_cong [OF b(3,4)])
  with b q sl(1) show "\<exists>s'. batch_call sl (length sl) (p, umem) = Some (s', True) \<and>
      (case s' of (p, umem) \<Rightarrow> pipeline_inv p \<and> p_cfg p = p_cfg q \<and> p_fabric p = p_fabric q \<and> slots_at stride n sl \<and>
        frames_ready q umem sl)"
    by (simp add: batch_call_def)
qed

interpretation received: timed_path "underlay_call frame"
  "\<lambda>(p, out). pipeline_inv p \<and> (\<exists>d. decap frame = Some (Inr (Some d)) \<and> serves p (ah_vni (dc_header d)) \<and>
     length (dc_inner d) \<le> length out)" for frame
proof (unfold_locales, clarsimp)
  fix p and out :: bytes and d
  assume inv: "pipeline_inv p" and d: "decap frame = Some (Inr (Some d))" "serves p (ah_vni (dc_header d))"
    "length (dc_inner d) \<le> length out"
  from ingress_inner_ok [OF inv, of 0 "dc_inner d"] obtain inner' eng natted where
    i: "ingress_inner p 0 (dc_inner d) = Some (inner', eng, natted)" "length inner' = length (dc_inner d)" "nat_inv eng"
    by blast
  show "\<exists>a b. underlay_call frame (p, out) = Some ((a, b), True) \<and> pipeline_inv a \<and>
      serves a (ah_vni (dc_header d)) \<and> length (dc_inner d) \<le> length b"
    using d i after_ingress_simps(4) [OF inv i(3), of natted]
    by (simp add: underlay_call_def Pipeline_underlay_eq [OF inv d(1)] underlay_outcome_def Let_def is_forward_def
        serves_def after_ingress_simps(1,2))
qed

section \<open>What the benchmark builds\<close>

lemma pack_slots_ok:
  assumes "50 + length frame \<le> stride" and "length umem = m * stride" and "\<forall>i \<in> set is. i < m" and "distinct is"
  shows "\<exists>umem' sl. pack_slots frame stride is umem = Some (umem', sl) \<and> length umem' = length umem \<and>
    sl = map (\<lambda>i. \<lparr> fs_offset = i * stride, fs_inner_len = length frame \<rparr>) is \<and>
    (\<forall>i \<in> set is. take (length frame) (drop (i * stride + 50) umem') = frame) \<and>
    (\<forall>i. i \<notin> set is \<longrightarrow> i < m \<longrightarrow> take (length frame) (drop (i * stride + 50) umem') =
      take (length frame) (drop (i * stride + 50) umem))"
  using assms(2-4)
proof (induction "is" arbitrary: umem)
  case (Cons i "is")
  have fit: "j * stride + stride \<le> m * stride" if "j < m" for j
    using mult_le_mono1 [of "Suc j" m stride] that by simp
  let ?off = "i * stride + 50"
  have "i < m" using Cons.prems(2) by simp
  then have le: "?off + length frame \<le> length umem" using fit assms(1) Cons.prems(1) by fastforce
  then have put: "put umem ?off (?off + length frame) frame = Some (patch umem ?off frame)" by (simp add: put_eq)
  let ?u = "patch umem ?off frame"
  have lu: "length ?u = m * stride" using le Cons.prems(1) by simp
  have other: "take (length frame) (drop (j * stride + 50) ?u) = take (length frame) (drop (j * stride + 50) umem)"
    if "j < m" "j \<noteq> i" for j
  proof -
    have "j * stride + stride \<le> i * stride \<or> i * stride + stride \<le> j * stride"
      using that(2) mult_le_mono1 [of "Suc j" i stride] mult_le_mono1 [of "Suc i" j stride]
      by (cases j i rule: linorder_cases) simp_all
    then show ?thesis
      using fit [OF that(1)] assms(1) le Cons.prems(1) by (auto intro!: nth_equalityI simp: nth_patch)
  qed
  have same: "take (length frame) (drop ?off ?u) = frame" using le by (simp add: patch_def)
  have "\<forall>j \<in> set is. j < m" "distinct is" "i \<notin> set is" using Cons.prems(2,3) by simp_all
  from Cons.IH [OF lu this(1,2)] obtain umem' sl where
    "pack_slots frame stride is ?u = Some (umem', sl)" "length umem' = length ?u"
    "sl = map (\<lambda>i. \<lparr> fs_offset = i * stride, fs_inner_len = length frame \<rparr>) is"
    "\<forall>j \<in> set is. take (length frame) (drop (j * stride + 50) umem') = frame"
    "\<forall>j. j \<notin> set is \<longrightarrow> j < m \<longrightarrow> take (length frame) (drop (j * stride + 50) umem') =
      take (length frame) (drop (j * stride + 50) ?u)" by blast
  then show ?case
    using put le other same \<open>i \<notin> set is\<close> \<open>i < m\<close> by (simp add: OVERLAY_OVERHEAD_eq Let_def)
qed simp

lemma packed_ready:
  assumes "resolvable p frame" and "50 + length frame \<le> stride" and "m * stride < 2 ^ 64"
  shows "\<exists>umem sl. pack_slots frame stride [0..<m] (replicate (m * stride) 0) = Some (umem, sl) \<and>
    slots_at stride (length frame) sl \<and> frames_ready p umem sl \<and> length sl = m"
proof -
  have fit: "i * stride + stride \<le> m * stride" if "i < m" for i
    using mult_le_mono1 [of "Suc i" m stride] that by simp
  have "m \<le> m * stride" using assms(2) by simp
  then have small: "m < 2 ^ 64" using assms(3) by linarith
  from pack_slots_ok [of frame stride "replicate (m * stride) 0" m "[0..<m]"] assms(2) obtain umem where
    u: "pack_slots frame stride [0..<m] (replicate (m * stride) 0) =
        Some (umem, map (\<lambda>i. \<lparr> fs_offset = i * stride, fs_inner_len = length frame \<rparr>) [0..<m])"
      "length umem = m * stride" "\<forall>i < m. take (length frame) (drop (i * stride + 50) umem) = frame" by auto
  have "slots_at stride (length frame) (map (\<lambda>i. \<lparr> fs_offset = i * stride, fs_inner_len = length frame \<rparr>) [0..<m])"
    using assms(2,3) small fit by (fastforce simp: slots_at_def slot_ok_def)
  moreover have "frames_ready p umem (map (\<lambda>i. \<lparr> fs_offset = i * stride, fs_inner_len = length frame \<rparr>) [0..<m])"
    using u(2,3) fit assms(1,2) by (fastforce simp: frames_ready_def)
  ultimately show ?thesis using u(1) by simp
qed

lemma bench_literals:
  "ipv4_from_str ''192.168.1.1'' = Some 0xc0a80101" "ipv4_from_str ''192.168.1.2'' = Some 0xc0a80102"
  "ipv4_from_str ''10.0.0.1'' = Some 0x0a000001" "ipv4_from_str ''10.0.0.0'' = Some 0x0a000000"
  "ipv4_from_str ''10.0.0.10'' = Some 0x0a00000a" "ipv4_from_str ''10.0.0.20'' = Some 0x0a000014"
  "ipv4_from_str ''203.0.113.7'' = Some 0xcb007107" "ipv4_from_str ''192.168.1.254'' = Some 0xc0a801fe"
  by code_simp+

lemma udp_frame_eq:
  assumes "ipv4_from_str src = Some s" and "ipv4_from_str dst = Some d"
  shows "\<exists>dg. udp_frame src dst sp dp payload =
      Some (eth_hdr cli_dst_mac cli_src_mac ethertype_IPV4 @ ip_hdr s d proto_UDP 64 1 True (of_nat (length dg)) @ dg) \<and>
    length dg = 8 + length payload"
proof -
  let ?n = "length payload"
  let ?d1 = "udp_hdr sp dp (of_nat ?n) @ replicate ?n 0"
  let ?d2 = "patch ?d1 8 payload"
  let ?d3 = "patch ?d2 6 (to_be16 (udp_compute_checksum s d ?d2))"
  have 1: "udp_write_header (replicate (UDP_HDR_LEN + ?n) 0) sp dp (of_nat ?n) = Some (?d1, 8)"
    by (simp add: udp_write_header_eq UDP_HDR_LEN_def)
  have l: "length ?d1 = 8 + ?n" by (simp add: udp_hdr_def)
  then have l2: "length ?d2 = 8 + ?n" and l3: "length ?d3 = 8 + ?n" by simp_all
  have 2: "put ?d1 UDP_HDR_LEN (length ?d1) payload = Some ?d2" using l by (simp add: put_eq UDP_HDR_LEN_def)
  have 3: "put ?d2 6 8 (to_be16 c) = Some (patch ?d2 6 (to_be16 c))" for c using l2 by (simp add: put_eq)
  let ?h = "ip_hdr s d proto_UDP 64 1 True (of_nat (length ?d3))"
  have 4: "sub_mut (replicate (IPV4_MIN_HDR_LEN + length ?d3) 0) 0 20
      (\<lambda>b. ipv4_write_header b s d proto_UDP 64 1 True (of_nat (length ?d3))) = Some (?h @ replicate (length ?d3) 0, 20)"
    by (simp add: sub_mut_eq ipv4_write_header_eq IPV4_MIN_HDR_LEN_def patch_0)
  have lh: "length ?h = 20" by simp
  have 5: "put (?h @ replicate (length ?d3) 0) 20 (length (?h @ replicate (length ?d3) 0)) ?d3 = Some (?h @ ?d3)"
    using lh by (simp only: length_append length_replicate) (simp add: put_eq patch_append_right patch_0 del: length_patch)
  let ?e = "eth_hdr cli_dst_mac cli_src_mac ethertype_IPV4"
  have 6: "sub_mut (replicate (ETH_HDR_LEN + length (?h @ ?d3)) 0) 0 14
      (\<lambda>b. ethernet_write_header b cli_dst_mac cli_src_mac ethertype_IPV4) = Some (?e @ replicate (length (?h @ ?d3)) 0, 14)"
    by (simp add: sub_mut_eq ethernet_write_header_eq ETH_HDR_LEN_def patch_0 del: length_patch)
  have 7: "put (?e @ replicate (length p) 0) 14 (length (?e @ replicate (length p) 0)) p = Some (?e @ p)" for p :: bytes
    by (simp add: put_eq patch_append_right patch_0)
  have "udp_frame src dst sp dp payload = Some (?e @ ?h @ ?d3)"
    unfolding udp_frame_def assms Let_def
    by (simp only: bind.bind_lunit split 1 2 3 4 5 6 7)
  with l3 show ?thesis by blast
qed

lemma bench_frame:
  assumes "n \<le> 1354"
  shows "\<exists>dg. udp_tenant_frame ''10.0.0.10'' ''10.0.0.20'' 40000 4242 n =
      Some (eth_hdr cli_dst_mac cli_src_mac ethertype_IPV4 @
        ip_hdr 0x0a00000a 0x0a000014 proto_UDP 64 1 True (of_nat (8 + n)) @ dg) \<and> length dg = 8 + n"
  using udp_frame_eq [OF bench_literals(5,6), of 40000 4242 "replicate n 0xab"] by (auto simp: udp_tenant_frame_def)

lemma bench_ip:
  assumes "n \<le> 1354" and "length dg = 8 + n"
  defines "ip \<equiv> ip_hdr 0x0a00000a 0x0a000014 proto_UDP 64 1 True (of_nat (8 + n)) @ dg"
  shows "ipv4_ok ip" "word32 ip 16 = 0x0a000014" "pc_underlay_mtu cfg = 1500 \<Longrightarrow> \<not> too_big cfg ip"
proof -
  have u: "unat (of_nat (8 + n) :: u16) = 8 + n" using assms(1) by (simp add: unsigned_of_nat take_bit_nat_eq_self del: of_nat_add of_nat_numeral)
  show "ipv4_ok ip" unfolding ip_def using u assms(1) by (intro ipv4_ok_ip_hdr) simp
  have w: "word32 ip 16 = word32 (ip_hdr 0x0a00000a 0x0a000014 proto_UDP 64 1 True (of_nat (8 + n))) 16"
    "word16 ip 2 = word16 (ip_hdr 0x0a00000a 0x0a000014 proto_UDP 64 1 True (of_nat (8 + n))) 2"
    by (simp_all add: ip_def word32_append word16_append)
  then show "word32 ip 16 = 0x0a000014" by (simp add: ip_hdr_words)
  have "unat (20 + of_nat (8 + n) :: u16) = 28 + n" using u assms(1) by (simp only: unat_word_ariths) simp
  then have "unat (word16 ip 2) = 28 + n" by (simp only: w ip_hdr_words)
  then show "\<not> too_big cfg ip" if "pc_underlay_mtu cfg = 1500" using that assms(1) by (simp add: too_big_def)
qed

lemma bench_pipeline:
  obtains p where "build_pipeline ew snat = Some p" "pipeline_inv p" "pc_underlay_mtu (p_cfg p) = 1500"
    "pc_vni (p_cfg p) = 100" "snat \<Longrightarrow> pc_gateway_node_ip (p_cfg p) \<noteq> None"
    "ew \<Longrightarrow> \<exists>ep. Fabric_resolve (p_fabric p) 100 0x0a000014 = Some (hop_of ep)"
proof -
  obtain eng where e: "NatEngine_new 0xcb007107 20000 60000 = Some eng" using NatEngine_new_20000 by blast
  let ?fab = "Fabric_add_vpc (Fabric_new 0xc0a80101) \<lparr> v_vni = 100, v_name = ''b'', v_cidr = (0x0a000000, 24) \<rparr>"
  let ?ep = "\<lparr> e_vni = 100, e_inner_ip = 0x0a000014, e_inner_mac = MacAddr 0x02 0 0 0 0 0x20, e_node_ip = 0xc0a80102, e_local = False \<rparr>"
  define fab where "fab = (if ew then Fabric_add_endpoint ?fab ?ep else ?fab)"
  define cfg where "cfg = \<lparr> pc_local_node_ip = 0xc0a80101, pc_outer_src_mac = MacAddr 0x02 0 0 0 0 0x01,
     pc_outer_dst_mac = MacAddr 0x02 0 0 0 0 0x02,
     pc_vni = 100, pc_nat_ip = (if snat then Some 0xcb007107 else None),
     pc_gateway_node_ip = (if snat then Some 0xc0a801fe else None),
     pc_virtual_gateway_mac = MacAddr 0x02 0 0 0 0 0xff, pc_outer_udp_checksum = False, pc_underlay_mtu = 1500,
     pc_virtual_gateway_ip = 0x0a000001 \<rparr>"
  obtain p where p: "Pipeline_new cfg fab eng = Some p" "pipeline_reachable p" "p_cfg p = cfg" "p_fabric p = fab"
    by (rule fresh_pipeline [OF e])
  have "build_pipeline ew snat = Some p"
    unfolding build_pipeline_def bench_literals Let_def
    by (simp add: e flip: fab_def cfg_def) (simp add: p(1))
  moreover have "\<exists>ep. Fabric_resolve fab 100 0x0a000014 = Some (hop_of ep)" if ew
    using that by (auto simp: fab_def fabmap.lookup_add intro: exI [of _ ?ep])
  ultimately show thesis
    using that p pipeline_reachable_inv [OF p(2)] by (simp add: cfg_def)
qed

definition bench_setup :: "pipeline \<Rightarrow> bool" where
  "bench_setup p \<longleftrightarrow> pc_underlay_mtu (p_cfg p) = 1500 \<and> pc_vni (p_cfg p) = 100"

lemma bench_frame_forwarded:
  assumes "n \<le> 1354"
  shows "\<exists>frame. udp_tenant_frame ''10.0.0.10'' ''10.0.0.20'' 40000 4242 n = Some frame \<and> length frame = 42 + n \<and>
    (\<forall>p. bench_setup p \<longrightarrow> (\<forall>ep. Fabric_resolve (p_fabric p) 100 0x0a000014 = Some (hop_of ep) \<longrightarrow> resolvable p frame) \<and>
      (pc_gateway_node_ip (p_cfg p) \<noteq> None \<longrightarrow> routable p frame))"
proof -
  obtain dg where dg: "udp_tenant_frame ''10.0.0.10'' ''10.0.0.20'' 40000 4242 n =
      Some (eth_hdr cli_dst_mac cli_src_mac ethertype_IPV4 @
        ip_hdr 0x0a00000a 0x0a000014 proto_UDP 64 1 True (of_nat (8 + n)) @ dg)" "length dg = 8 + n"
    using bench_frame [OF assms] by blast
  let ?ip = "ip_hdr 0x0a00000a 0x0a000014 proto_UDP 64 1 True (of_nat (8 + n)) @ dg"
  let ?frame = "eth_hdr cli_dst_mac cli_src_mac ethertype_IPV4 @ ?ip"
  have le: "length (eth_hdr cli_dst_mac cli_src_mac ethertype_IPV4) = 14" by simp
  then have l: "length ?frame = 42 + n" using dg(2) by simp
  have d: "drop 14 ?frame = ?ip" using le by simp
  have ty: "word16 ?frame 12 = ethertype_IPV4" by (simp add: eth_hdr_def word16_def nth_append)
  have hop: "hop_for p ?frame hop"
    if "bench_setup p" "next_hop_of (p_cfg p) (p_fabric p) 100 0x0a000014 = Some hop" for p hop
    unfolding hop_for_def d ip_verdict_def
    using ty l that bench_ip [OF assms dg(2)] by (simp add: bench_setup_def del: append_assoc)
  have "resolvable p ?frame" if "bench_setup p" "Fabric_resolve (p_fabric p) 100 0x0a000014 = Some (hop_of ep)" for p ep
    using hop [of p "(nh_node_ip (hop_of ep), Some (nh_inner_mac (hop_of ep)), False)"] that
    by (auto simp: resolvable_def next_hop_of_def)
  moreover have "routable p ?frame" if p: "bench_setup p" "pc_gateway_node_ip (p_cfg p) \<noteq> None" for p
  proof -
    have "next_hop_of (p_cfg p) (p_fabric p) 100 0x0a000014 \<noteq> None"
      using p(2) by (auto simp: next_hop_of_def split: option.splits)
    with hop [OF p(1)] show ?thesis unfolding routable_def by blast
  qed
  ultimately show ?thesis using dg(1) l by blast
qed

text \<open>The rows of the paths when every timed call forwards: the number of its calls, in each trial.\<close>

definition forwarded_rows :: "u64 \<Rightarrow> nat \<Rightarrow> bench_row list" where
  "forwarded_rows iters n = map (\<lambda>(path, calls). \<lparr> br_path = path, br_frame_bytes = 42 + n, br_calls = calls,
      br_oks = replicate 7 calls \<rparr>)
    [(''encap copy (east-west)'', iters), (''encap copy + SNAT'', iters), (''encap zero-copy (1 hot frame)'', iters),
     (''encap zero-copy (batch 32)'', iters div 32), (''decap (underlay->tenant)'', iters)]"

lemma bench_rows_eq:
  assumes n: "n \<le> 1354"
  shows "bench_rows iters n = Some (forwarded_rows iters n)"
proof -
  obtain frame where f: "udp_tenant_frame ''10.0.0.10'' ''10.0.0.20'' 40000 4242 n = Some frame" "length frame = 42 + n"
    and fwd: "\<forall>p. bench_setup p \<longrightarrow>
      (\<forall>ep. Fabric_resolve (p_fabric p) 100 0x0a000014 = Some (hop_of ep) \<longrightarrow> resolvable p frame) \<and>
      (pc_gateway_node_ip (p_cfg p) \<noteq> None \<longrightarrow> routable p frame)"
    using bench_frame_forwarded [OF n] by blast
  obtain ew ep where ew: "build_pipeline True False = Some ew" "pipeline_inv ew" "pc_underlay_mtu (p_cfg ew) = 1500"
    "pc_vni (p_cfg ew) = 100" "Fabric_resolve (p_fabric ew) 100 0x0a000014 = Some (hop_of ep)"
    using bench_pipeline [of True False] by metis
  obtain nt where nt: "build_pipeline False True = Some nt" "pipeline_inv nt" "pc_underlay_mtu (p_cfg nt) = 1500"
    "pc_vni (p_cfg nt) = 100" "pc_gateway_node_ip (p_cfg nt) \<noteq> None"
    using bench_pipeline [of False True] by metis
  have "bench_setup ew" "bench_setup nt" using ew(3,4) nt(3,4) by (simp_all add: bench_setup_def)
  then have r: "resolvable ew frame" and g: "routable nt frame" using fwd ew(5) nt(5) by blast+
  have small: "length frame \<le> 65499" "50 + length frame \<le> 2048" using f(2) n by simp_all
  have copy: "measure_path 7 iters (copy_call frame) (ew, replicate 2048 0) = Some (replicate 7 iters)"
    by (rule copied.measured) (use ew(2) resolvable_routable [OF r] small in simp)
  have snat: "measure_path 7 iters (copy_call frame) (nt, replicate 2048 0) = Some (replicate 7 iters)"
    by (rule copied.measured) (use nt(2) g small in simp)
  let ?zc = "patch (replicate 2048 0) 50 frame"
  have put: "put (replicate 2048 0) 50 (50 + length frame) frame = Some ?zc" using small by (simp add: put_eq)
  have "take (length frame) (drop 50 ?zc) = frame" "length ?zc = 2048" using small by (simp_all add: patch_def)
  then have hot: "measure_path 7 iters (inplace_call (length frame)) (ew, ?zc) = Some (replicate 7 iters)"
    using ew(2) r small by (intro hot.measured) simp
  obtain umem sl where pk: "pack_slots frame 2048 [0..<32] (replicate (32 * 2048) 0) = Some (umem, sl)"
      "slots_at 2048 (length frame) sl" "frames_ready ew umem sl" "length sl = 32"
    using packed_ready [OF r small(2), of 32] by auto
  have batch: "measure_path 7 bi (batch_call sl 32) (ew, umem) = Some (replicate 7 bi)" for bi
    using batched.measured [of ew 2048 "length frame" sl "(ew, umem)" 7 bi] ew(2) pk(2-4) by simp
  from copy_forwards [OF ew(2) resolvable_routable [OF r], of "replicate 2048 0" 0] small obtain p1 wire d where
    w: "Pipeline_on_tenant_frame ew frame (replicate 2048 0) 0 = Some (p1, wire, Forward (50 + length frame))"
      "length wire = 2048" "decap (take (50 + length frame) wire) = Some (Inr (Some d))" "length (dc_inner d) = length frame"
      "ah_vni (dc_header d) = 100"
    using ew(4) by (auto simp: AndromedaHdr_new_def)
  have decap: "measure_path 7 iters (underlay_call (take (50 + length frame) wire)) (ew, replicate 2048 0) =
      Some (replicate 7 iters)"
    by (rule received.measured) (use ew(2,4) w small in \<open>simp add: serves_def\<close>)
  have sl: "slice wire 0 (50 + length frame) = Some (take (50 + length frame) wire)" using w(2) small by (simp add: slice_def)
  show ?thesis
    unfolding bench_rows_def f(1) bench_reps_def bench_batch_def bench_stride_def OVERLAY_OVERHEAD_eq Let_def
    by (simp only: bind.bind_lunit prod.case of_nat_numeral ew(1) nt(1) copy snat put hot pk(1) batch w(1) decision.case sl
        decap) (simp add: forwarded_rows_def f(2))
qed

lemma bench_one_ok:
  assumes p: "build_pipeline True False = Some p" "pipeline_inv p" and sl: "slots_at stride n sl" "frames_ready p umem sl"
  shows "\<exists>umem'. bench_one sl umem (length sl) = Some (umem', replicate 2 (sweep_calls (length sl))) \<and> frames_ready p umem' sl"
proof -
  from batch_forwards [OF p(2) sl, of 0] obtain p1 umem1 where
    1: "Pipeline_encap_batch_inplace p umem sl 0 = Some (p1, umem1, length sl)" "pipeline_inv p1" "p_cfg p1 = p_cfg p"
      "p_fabric p1 = p_fabric p" "frames_ready p1 umem1 sl" by blast
  have "frames_ready p umem1 sl" using 1(5) by (simp only: frames_ready_cong [OF 1(3,4)])
  then obtain p2 umem2 where
    "measure_trials 2 (sweep_calls (length sl)) (batch_call sl (length sl)) (p1, umem1) =
      Some ((p2, umem2), replicate 2 (sweep_calls (length sl)))" "frames_ready p umem2 sl"
    using batched.trials [of p stride n sl "(p1, umem1)" 2 "sweep_calls (length sl)"] 1 sl(1) by auto
  with 1(1) p(1) show ?thesis by (simp add: bench_one_def)
qed

definition forwarded_sweep :: "nat \<Rightarrow> sweep_row" where
  "forwarded_sweep ws = \<lparr> sr_ws_kb = ws, sr_frames = 8 * ws, sr_calls = sweep_calls (8 * ws),
     sr_seq_oks = replicate 2 (sweep_calls (8 * ws)), sr_shuffled_oks = replicate 2 (sweep_calls (8 * ws)) \<rparr>"

lemma sweep_one_ok:
  assumes p: "build_pipeline True False = Some p" "pipeline_inv p" and frame: "resolvable p frame" "length frame = 60"
    and ws: "0 < ws" "ws \<le> 65536"
  shows "sweep_one frame ws = Some (forwarded_sweep ws)"
proof -
  have stride: "sweep_stride (length frame) = 128" using frame(2) by (simp add: sweep_stride_def OVERLAY_OVERHEAD_eq)
  have n: "max (ws * 1024 div 128) 1 = 8 * ws" using ws(1) by simp
  from packed_ready [OF frame(1), of 128 "8 * ws"] frame(2) ws(2) obtain umem sl where
    pk: "pack_slots frame 128 [0..<8 * ws] (replicate (8 * ws * 128) 0) = Some (umem, sl)" "slots_at 128 (length frame) sl"
      "frames_ready p umem sl" "length sl = 8 * ws" by auto
  from bench_one_ok [OF p pk(2,3)] obtain umem1 where
    1: "bench_one sl umem (8 * ws) = Some (umem1, replicate 2 (sweep_calls (8 * ws)))" "frames_ready p umem1 sl"
    unfolding pk(4) by blast
  obtain sl' where sh: "shuffle sl = Some sl'" "mset sl' = mset sl" using shuffle_mset by blast
  have l: "length sl' = 8 * ws" using mset_eq_length [OF sh(2)] pk(4) by simp
  from bench_one_ok [OF p, of 128 "length frame" sl' umem1] obtain umem2 where
    2: "bench_one sl' umem1 (8 * ws) = Some (umem2, replicate 2 (sweep_calls (8 * ws)))"
    using pk(2) 1(2) slots_at_perm [OF sh(2)] unfolding l by blast
  show ?thesis
    unfolding sweep_one_def stride Let_def n
    by (simp only: bind.bind_lunit prod.case pk(1) 1(1) sh(1) 2 forwarded_sweep_def)
qed

lemma sweep_rows_ok:
  assumes "build_pipeline True False = Some p" and "pipeline_inv p" and "resolvable p frame" and "length frame = 60"
    and "\<forall>ws \<in> set wss. 0 < ws \<and> ws \<le> 65536"
  shows "sweep_rows frame wss = Some (map forwarded_sweep wss)"
  using assms(5) by (induction wss) (simp_all add: sweep_one_ok [OF assms(1-4)])

lemma bench_cmd_rows:
  "bench_cmd args = Some (if list_ex (\<lambda>a. a = ''--sweep'') args then Inl (map forwarded_sweep sweep_targets)
     else Inr (forwarded_rows (bench_iters args) 18 @ forwarded_rows (bench_iters args) 1354))"
proof -
  obtain p ep where p: "build_pipeline True False = Some p" "pipeline_inv p" "bench_setup p"
    "Fabric_resolve (p_fabric p) 100 0x0a000014 = Some (hop_of ep)"
    unfolding bench_setup_def using bench_pipeline [of True False] by metis
  obtain frame where f: "udp_tenant_frame ''10.0.0.10'' ''10.0.0.20'' 40000 4242 18 = Some frame" "length frame = 60"
    "resolvable p frame"
    using bench_frame_forwarded [of 18] p(3,4) by auto
  have sweep: "bench_sweep = Some (map forwarded_sweep sweep_targets)"
    using sweep_rows_ok [OF p(1,2) f(3,2), of sweep_targets] f(1)
    by (simp add: bench_sweep_def) (simp add: sweep_targets_def)
  have rows: "bench_rows (bench_iters args) 18 = Some (forwarded_rows (bench_iters args) 18)"
    "bench_rows (bench_iters args) 1354 = Some (forwarded_rows (bench_iters args) 1354)"
    by (rule bench_rows_eq; simp)+
  show ?thesis
    by (simp only: bench_cmd_def sweep rows bind.bind_lunit option.map if_distrib [of Some])
qed

text \<open>C35: the benchmark times forwarding and nothing else. Whatever the arguments, it does not
  panic; in each of the seven recorded trials of each of the five paths, on both frame sizes,
  every call forwarded its frame (or all 32 of its batch), none was a drop; and in the sweep
  every timed batch call forwarded every frame of the working set, in sequential order and
  after the shuffle. Every path makes a positive number of calls but the batch path,
  which makes none for fewer than 32 iterations.\<close>

theorem bench_times_forwarding:
  "bench_cmd args = Some (if list_ex (\<lambda>a. a = ''--sweep'') args then Inl (map forwarded_sweep sweep_targets)
     else Inr (forwarded_rows (bench_iters args) 18 @ forwarded_rows (bench_iters args) 1354)) \<and>
   0 < bench_iters args \<and> bench_iters [''7''] div 32 = 0 \<and> 0 < sweep_calls k"
proof -
  have "0 < bench_iters args" "0 < sweep_calls k" by (simp_all add: bench_iters_def sweep_calls_def less_max_iff_disj)
  moreover have "bench_total [''7''] = 7"
    by (simp add: bench_total_def is_ascii_digit_def u64_from_str_def to_digit_def from_str_radix_def of_char_def)
  then have "bench_iters [''7''] div 32 = 0" by (simp add: bench_iters_def bench_reps_def)
  ultimately show ?thesis using bench_cmd_rows by blast
qed

end
