(* ===== verification/Cli_Args.thy ===== *)
theory Cli_Args
  imports Cli
begin

text \<open>
  What the options of \<open>run\<close> and \<open>switch\<close> mean (\<open>andromeda-cli/src/main.rs\<close>), stated without the
  option loops: which words write a setting, which settings a command takes, and what a list of
  settings chooses. The loops of \<open>Cli\<close> read exactly the lists of settings that are written in the
  arguments, and choose the same values.
\<close>

section \<open>Settings and how they are written\<close>

datatype setting =
    Set_tenant string
  | Set_underlay string
  | Set_config string
  | Set_control string
  | Set_queues u32
  | Set_queue u32
  | Set_mode run_mode
  | Set_vni u32
  | Set_local_node ipv4addr
  | Set_peer_node ipv4addr
  | Set_nat_ip ipv4addr
  | Set_count u64
  | Set_secs u64
  | Set_batch u32
  | Set_skb
  | Set_drv
  | Set_zerocopy

text \<open>A decimal number below \<open>2 ^ b\<close>, as \<open>str::parse\<close> reads it.\<close>

definition decimal :: "nat \<Rightarrow> string \<Rightarrow> nat \<Rightarrow> bool" where
  "decimal b s n \<longleftrightarrow> from_str_radix (2 ^ b - 1) 10 s = Some n"

fun written :: "setting \<Rightarrow> string list \<Rightarrow> bool" where
  "written (Set_tenant v) ws = (ws = [''--tenant'', v])"
| "written (Set_underlay v) ws = (ws = [''--underlay'', v])"
| "written (Set_config v) ws = (ws = [''--config'', v])"
| "written (Set_control v) ws = (ws = [''--control'', v])"
| "written (Set_queues n) ws = (\<exists>s. ws = [''--queues'', s] \<and> decimal 32 s (unat n))"
| "written (Set_queue n) ws = (\<exists>s. ws = [''--queue'', s] \<and> decimal 32 s (unat n))"
| "written (Set_mode m) ws = (ws = [''--mode'', case m of Dump \<Rightarrow> ''dump'' | Encap \<Rightarrow> ''encap'' | Decap \<Rightarrow> ''decap''])"
| "written (Set_vni n) ws = (\<exists>s. ws = [''--vni'', s] \<and> decimal 32 s (unat n))"
| "written (Set_local_node ip) ws = (\<exists>s. ws = [''--local-node'', s] \<and> ipv4_from_str s = Some ip)"
| "written (Set_peer_node ip) ws = (\<exists>s. ws = [''--peer-node'', s] \<and> ipv4_from_str s = Some ip)"
| "written (Set_nat_ip ip) ws = (\<exists>s. ws = [''--nat-ip'', s] \<and> ipv4_from_str s = Some ip)"
| "written (Set_count n) ws = (\<exists>s. ws = [''--count'', s] \<and> decimal 64 s (unat n))"
| "written (Set_secs n) ws = (\<exists>s. ws = [''--secs'', s] \<and> decimal 64 s (unat n))"
| "written (Set_batch n) ws = (\<exists>s. ws = [''--batch'', s] \<and> decimal 32 s (unat n))"
| "written Set_skb ws = (ws = [''--skb''])"
| "written Set_drv ws = (ws = [''--drv''])"
| "written Set_zerocopy ws = (ws = [''--zerocopy''] \<or> ws = [''--zc''])"

text \<open>The settings each command takes.\<close>

fun run_takes :: "setting \<Rightarrow> bool" where
  "run_takes (Set_tenant v) = False"
| "run_takes (Set_underlay v) = False"
| "run_takes (Set_config v) = False"
| "run_takes (Set_control v) = False"
| "run_takes (Set_queues n) = False"
| "run_takes _ = True"

fun switch_takes :: "setting \<Rightarrow> bool" where
  "switch_takes (Set_queue n) = False"
| "switch_takes (Set_mode m) = False"
| "switch_takes (Set_count n) = False"
| "switch_takes _ = True"

text \<open>Arguments that write a list of settings, one after the other.\<close>

definition writes :: "(setting \<Rightarrow> bool) \<Rightarrow> string list \<Rightarrow> setting list \<Rightarrow> bool" where
  "writes takes args ss \<longleftrightarrow> list_all takes ss \<and> (\<exists>wss. list_all2 written ss wss \<and> args = concat wss)"

text \<open>The value a list of settings chooses: the last one given, or the default.\<close>

definition chosen :: "(setting \<Rightarrow> 'a option) \<Rightarrow> 'a \<Rightarrow> setting list \<Rightarrow> 'a" where
  "chosen f dflt ss = last (dflt # List.map_filter f ss)"

definition choices :: "setting list \<Rightarrow> cli_opts" where
  "choices ss =
     \<lparr> co_tenant = chosen (\<lambda>s. case s of Set_tenant v \<Rightarrow> Some (Some v) | _ \<Rightarrow> None) None ss,
       co_underlay = chosen (\<lambda>s. case s of Set_underlay v \<Rightarrow> Some (Some v) | _ \<Rightarrow> None) None ss,
       co_config = chosen (\<lambda>s. case s of Set_config v \<Rightarrow> Some (Some v) | _ \<Rightarrow> None) None ss,
       co_control = chosen (\<lambda>s. case s of Set_control v \<Rightarrow> Some (Some v) | _ \<Rightarrow> None) None ss,
       co_queues = chosen (\<lambda>s. case s of Set_queues n \<Rightarrow> Some n | _ \<Rightarrow> None) 1 ss,
       co_queue = chosen (\<lambda>s. case s of Set_queue n \<Rightarrow> Some n | _ \<Rightarrow> None) 0 ss,
       co_mode = chosen (\<lambda>s. case s of Set_mode m \<Rightarrow> Some m | _ \<Rightarrow> None) Dump ss,
       co_vni = chosen (\<lambda>s. case s of Set_vni n \<Rightarrow> Some n | _ \<Rightarrow> None) 100 ss,
       co_local_node = chosen (\<lambda>s. case s of Set_local_node ip \<Rightarrow> Some ip | _ \<Rightarrow> None) 0xc0a80101 ss,
       co_peer_node = chosen (\<lambda>s. case s of Set_peer_node ip \<Rightarrow> Some ip | _ \<Rightarrow> None) 0xc0a80102 ss,
       co_nat_ip = chosen (\<lambda>s. case s of Set_nat_ip ip \<Rightarrow> Some (Some ip) | _ \<Rightarrow> None) None ss,
       co_max_packets = chosen (\<lambda>s. case s of Set_count n \<Rightarrow> Some (Some n) | _ \<Rightarrow> None) None ss,
       co_max_secs = chosen (\<lambda>s. case s of Set_secs n \<Rightarrow> Some (Some n) | _ \<Rightarrow> None) None ss,
       co_batch = chosen (\<lambda>s. case s of Set_batch n \<Rightarrow> Some n | _ \<Rightarrow> None) 64 ss,
       co_xdp_mode = chosen (\<lambda>s. case s of Set_skb \<Rightarrow> Some Skb | Set_drv \<Rightarrow> Some Drv | _ \<Rightarrow> None) Auto ss,
       co_zerocopy = (Set_zerocopy \<in> set ss) \<rparr>"

section \<open>The option loops\<close>

text \<open>What one setting does to the locals.\<close>

fun apply_setting :: "setting \<Rightarrow> cli_opts \<Rightarrow> cli_opts" where
  "apply_setting (Set_tenant v) o' = o' \<lparr> co_tenant := Some v \<rparr>"
| "apply_setting (Set_underlay v) o' = o' \<lparr> co_underlay := Some v \<rparr>"
| "apply_setting (Set_config v) o' = o' \<lparr> co_config := Some v \<rparr>"
| "apply_setting (Set_control v) o' = o' \<lparr> co_control := Some v \<rparr>"
| "apply_setting (Set_queues n) o' = o' \<lparr> co_queues := n \<rparr>"
| "apply_setting (Set_queue n) o' = o' \<lparr> co_queue := n \<rparr>"
| "apply_setting (Set_mode m) o' = o' \<lparr> co_mode := m \<rparr>"
| "apply_setting (Set_vni n) o' = o' \<lparr> co_vni := n \<rparr>"
| "apply_setting (Set_local_node ip) o' = o' \<lparr> co_local_node := ip \<rparr>"
| "apply_setting (Set_peer_node ip) o' = o' \<lparr> co_peer_node := ip \<rparr>"
| "apply_setting (Set_nat_ip ip) o' = o' \<lparr> co_nat_ip := Some ip \<rparr>"
| "apply_setting (Set_count n) o' = o' \<lparr> co_max_packets := Some n \<rparr>"
| "apply_setting (Set_secs n) o' = o' \<lparr> co_max_secs := Some n \<rparr>"
| "apply_setting (Set_batch n) o' = o' \<lparr> co_batch := n \<rparr>"
| "apply_setting Set_skb o' = o' \<lparr> co_xdp_mode := Skb \<rparr>"
| "apply_setting Set_drv o' = o' \<lparr> co_xdp_mode := Drv \<rparr>"
| "apply_setting Set_zerocopy o' = o' \<lparr> co_zerocopy := True \<rparr>"

lemma chosen_simps:
  "chosen f d [] = d" "chosen f d (ss @ [s]) = (case f s of None \<Rightarrow> chosen f d ss | Some v \<Rightarrow> v)"
  by (simp_all add: chosen_def List.map_filter_def split: option.split)

lemma choices_snoc: "choices (ss @ [s]) = apply_setting s (choices ss)"
  by (cases s) (simp_all add: choices_def chosen_simps)

lemma fold_choices: "default_opts = Some d \<Longrightarrow> fold apply_setting ss d = choices ss"
proof (induction ss rule: rev_induct)
  case Nil
  then show ?case by (auto simp: choices_def chosen_simps default_opts_def cli_literals)
qed (simp add: choices_snoc)

lemma radix_digits_le: "radix_digits limit radix acc cs = Some n \<Longrightarrow> acc \<le> limit \<Longrightarrow> n \<le> limit"
  by (induction limit radix acc cs rule: radix_digits.induct) (auto split: option.splits if_splits)

lemma from_str_radix_le: "from_str_radix limit radix s = Some n \<Longrightarrow> n \<le> limit"
  unfolding from_str_radix_def
  by (auto simp del: radix_digits.simps dest: radix_digits_le split: list.splits if_splits)

lemma number_decimal:
  "u32_from_str s = Some n \<longleftrightarrow> decimal 32 s (unat n)" "u64_from_str s = Some m \<longleftrightarrow> decimal 64 s (unat m)"
proof -
  have "unat (of_nat k :: u32) = k" if "from_str_radix (2 ^ 32 - 1) 10 s = Some k" for k
    using from_str_radix_le [OF that] by (simp add: unsigned_of_nat take_bit_nat_eq_self)
  then show "u32_from_str s = Some n \<longleftrightarrow> decimal 32 s (unat n)" by (auto simp: u32_from_str_def decimal_def)
  have "unat (of_nat k :: u64) = k" if "from_str_radix (2 ^ 64 - 1) 10 s = Some k" for k
    using from_str_radix_le [OF that] by (simp add: unsigned_of_nat take_bit_nat_eq_self)
  then show "u64_from_str s = Some m \<longleftrightarrow> decimal 64 s (unat m)" by (auto simp: u64_from_str_def decimal_def)
qed

lemmas option_values = with_value_def next_parse_def next_str_def

lemma common_option_words:
  "decimal 32 v (unat n) \<Longrightarrow> common_option ''--vni'' (v # it) o' = Inr (apply_setting (Set_vni n) o', it)"
  "ipv4_from_str v = Some ip \<Longrightarrow> common_option ''--local-node'' (v # it) o' = Inr (apply_setting (Set_local_node ip) o', it)"
  "ipv4_from_str v = Some ip \<Longrightarrow> common_option ''--peer-node'' (v # it) o' = Inr (apply_setting (Set_peer_node ip) o', it)"
  "ipv4_from_str v = Some ip \<Longrightarrow> common_option ''--nat-ip'' (v # it) o' = Inr (apply_setting (Set_nat_ip ip) o', it)"
  "decimal 64 v (unat m) \<Longrightarrow> common_option ''--secs'' (v # it) o' = Inr (apply_setting (Set_secs m) o', it)"
  "decimal 32 v (unat n) \<Longrightarrow> common_option ''--batch'' (v # it) o' = Inr (apply_setting (Set_batch n) o', it)"
  "common_option ''--skb'' it o' = Inr (apply_setting Set_skb o', it)"
  "common_option ''--drv'' it o' = Inr (apply_setting Set_drv o', it)"
  "common_option ''--zerocopy'' it o' = Inr (apply_setting Set_zerocopy o', it)"
  "common_option ''--zc'' it o' = Inr (apply_setting Set_zerocopy o', it)"
  by (simp_all add: common_option_def option_values flip: number_decimal)

lemma shared_words:
  assumes "a \<in> {''--vni'', ''--local-node'', ''--peer-node'', ''--nat-ip'', ''--secs'', ''--batch'', ''--skb'', ''--drv'', ''--zerocopy'', ''--zc''}"
  shows "run_option a it o' = common_option a it o'" "switch_option a it o' = common_option a it o'"
  using assms by (elim insertE emptyE; simp add: run_option_def switch_option_def)+

lemma run_option_words:
  "decimal 32 v (unat n) \<Longrightarrow> run_option ''--queue'' (v # it) o' = Inr (apply_setting (Set_queue n) o', it)"
  "run_option ''--mode'' (''dump'' # it) o' = Inr (apply_setting (Set_mode Dump) o', it)"
  "run_option ''--mode'' (''encap'' # it) o' = Inr (apply_setting (Set_mode Encap) o', it)"
  "run_option ''--mode'' (''decap'' # it) o' = Inr (apply_setting (Set_mode Decap) o', it)"
  "decimal 64 v (unat m) \<Longrightarrow> run_option ''--count'' (v # it) o' = Inr (apply_setting (Set_count m) o', it)"
  by (simp_all add: run_option_def option_values flip: number_decimal)

lemma switch_option_words:
  "switch_option ''--tenant'' (v # it) o' = Inr (apply_setting (Set_tenant v) o', it)"
  "switch_option ''--underlay'' (v # it) o' = Inr (apply_setting (Set_underlay v) o', it)"
  "switch_option ''--config'' (v # it) o' = Inr (apply_setting (Set_config v) o', it)"
  "switch_option ''--control'' (v # it) o' = Inr (apply_setting (Set_control v) o', it)"
  "decimal 32 v (unat n) \<Longrightarrow> switch_option ''--queues'' (v # it) o' = Inr (apply_setting (Set_queues n) o', it)"
  by (simp_all add: switch_option_def option_values flip: number_decimal)

lemma run_option_applies:
  assumes "run_takes s" and "written s ws"
  shows "\<exists>a it. ws = a # it \<and> run_option a (it @ rest) o' = Inr (apply_setting s o', rest)"
  using assms
  by (cases s) (auto simp: run_option_words common_option_words shared_words simp del: apply_setting.simps split: run_mode.splits)

lemma switch_option_applies:
  assumes "switch_takes s" and "written s ws"
  shows "\<exists>a it. ws = a # it \<and> switch_option a (it @ rest) o' = Inr (apply_setting s o', rest)"
  using assms
  by (cases s) (auto simp: switch_option_words common_option_words shared_words simp del: apply_setting.simps)

text \<open>A setting read at the front of the arguments.\<close>

definition reads :: "string \<Rightarrow> string list \<Rightarrow> cli_opts \<Rightarrow> cli_opts \<Rightarrow> string list \<Rightarrow> setting \<Rightarrow> bool" where
  "reads a it o' o'' it' s \<longleftrightarrow> (\<exists>ws. written s ws \<and> a # it = ws @ it') \<and> o'' = apply_setting s o'"

lemma value_read:
  "with_value (next_parse from_str it) f = Inr (o'', it') \<Longrightarrow> \<exists>v x. it = v # it' \<and> from_str v = Some x \<and> o'' = f x"
  "with_value (next_str it) g = Inr (o'', it') \<Longrightarrow> \<exists>v. it = v # it' \<and> o'' = g v"
  by (auto simp: with_value_def next_parse_def next_str_def split: list.splits option.splits sum.splits)

lemma branchE: "(if P then x else y) = z \<Longrightarrow> (P \<Longrightarrow> x = z \<Longrightarrow> R) \<Longrightarrow> (y = z \<Longrightarrow> R) \<Longrightarrow> R"
  by (cases P) simp_all

lemma reads_value:
  "a = w \<Longrightarrow> with_value (next_parse from_str it) f = Inr (o'', it') \<Longrightarrow>
    (\<And>v x. from_str v = Some x \<Longrightarrow> written (S x) [w, v]) \<Longrightarrow> (\<And>x. f x = apply_setting (S x) o') \<Longrightarrow> \<exists>x. reads a it o' o'' it' (S x)"
  by (drule value_read(1)) (force simp: reads_def)

lemma common_option_written:
  assumes "common_option a it o' = Inr (o'', it')"
  shows "\<exists>s. run_takes s \<and> switch_takes s \<and> reads a it o' o'' it' s"
proof -
  have ex: "\<exists>x. reads a it o' o'' it' (S x) \<Longrightarrow> (\<And>x. run_takes (S x) \<and> switch_takes (S x)) \<Longrightarrow> ?thesis" for S by blast
  from assms show ?thesis
    unfolding common_option_def
  proof (elim branchE)
    assume "a = ''--vni''" "with_value (next_parse u32_from_str it) (\<lambda>v. o' \<lparr> co_vni := v \<rparr>) = Inr (o'', it')"
    then show ?thesis by (intro ex [of Set_vni] reads_value) (auto simp: number_decimal)
  next
    assume "a = ''--local-node''" "with_value (next_parse ipv4_from_str it) (\<lambda>v. o' \<lparr> co_local_node := v \<rparr>) = Inr (o'', it')"
    then show ?thesis by (intro ex [of Set_local_node] reads_value) auto
  next
    assume "a = ''--peer-node''" "with_value (next_parse ipv4_from_str it) (\<lambda>v. o' \<lparr> co_peer_node := v \<rparr>) = Inr (o'', it')"
    then show ?thesis by (intro ex [of Set_peer_node] reads_value) auto
  next
    assume "a = ''--nat-ip''" "with_value (next_parse ipv4_from_str it) (\<lambda>v. o' \<lparr> co_nat_ip := Some v \<rparr>) = Inr (o'', it')"
    then show ?thesis by (intro ex [of Set_nat_ip] reads_value) auto
  next
    assume "a = ''--secs''" "with_value (next_parse u64_from_str it) (\<lambda>v. o' \<lparr> co_max_secs := Some v \<rparr>) = Inr (o'', it')"
    then show ?thesis by (intro ex [of Set_secs] reads_value) (auto simp: number_decimal)
  next
    assume "a = ''--batch''" "with_value (next_parse u32_from_str it) (\<lambda>v. o' \<lparr> co_batch := v \<rparr>) = Inr (o'', it')"
    then show ?thesis by (intro ex [of Set_batch] reads_value) (auto simp: number_decimal)
  next
    assume "a = ''--skb''" "Inr (o' \<lparr> co_xdp_mode := Skb \<rparr>, it) = Inr (o'', it')"
    then show ?thesis by (intro exI [of _ Set_skb]) (auto simp: reads_def)
  next
    assume "a = ''--drv''" "Inr (o' \<lparr> co_xdp_mode := Drv \<rparr>, it) = Inr (o'', it')"
    then show ?thesis by (intro exI [of _ Set_drv]) (auto simp: reads_def)
  next
    assume "a = ''--zerocopy'' \<or> a = ''--zc''" "Inr (o' \<lparr> co_zerocopy := True \<rparr>, it) = Inr (o'', it')"
    then show ?thesis by (intro exI [of _ Set_zerocopy]) (auto simp: reads_def)
  qed simp
qed

lemma run_option_written:
  assumes "run_option a it o' = Inr (o'', it')"
  shows "\<exists>s. run_takes s \<and> reads a it o' o'' it' s"
proof -
  have ex: "\<exists>x. reads a it o' o'' it' (S x) \<Longrightarrow> (\<And>x. run_takes (S x)) \<Longrightarrow> ?thesis" for S by blast
  from assms show ?thesis
    unfolding run_option_def
  proof (elim branchE)
    assume "a = ''--queue''" "with_value (next_parse u32_from_str it) (\<lambda>v. o' \<lparr> co_queue := v \<rparr>) = Inr (o'', it')"
    then show ?thesis by (intro ex [of Set_queue] reads_value) (auto simp: number_decimal)
  next
    assume a: "a = ''--mode''" and m: "(case next_str it of Inl c \<Rightarrow> Inl c | Inr (m, it) \<Rightarrow>
        if m = ''dump'' then Inr (o' \<lparr> co_mode := Dump \<rparr>, it)
        else if m = ''encap'' then Inr (o' \<lparr> co_mode := Encap \<rparr>, it)
        else if m = ''decap'' then Inr (o' \<lparr> co_mode := Decap \<rparr>, it) else Inl 2) = Inr (o'', it')"
    then obtain m where it: "it = m # it'" and b: "(if m = ''dump'' then Inr (o' \<lparr> co_mode := Dump \<rparr>, it')
        else if m = ''encap'' then Inr (o' \<lparr> co_mode := Encap \<rparr>, it')
        else if m = ''decap'' then Inr (o' \<lparr> co_mode := Decap \<rparr>, it') else Inl 2) = (Inr (o'', it') :: nat + cli_opts \<times> string list)"
      by (cases it) (auto simp: next_str_def split: if_splits)
    from b have "\<exists>x. reads a it o' o'' it' (Set_mode x)"
    proof (elim branchE)
      assume "m = ''dump''" "Inr (o' \<lparr> co_mode := Dump \<rparr>, it') = (Inr (o'', it') :: nat + cli_opts \<times> string list)"
      then show ?thesis using a it by (intro exI [of _ Dump]) (simp add: reads_def)
    next
      assume "m = ''encap''" "Inr (o' \<lparr> co_mode := Encap \<rparr>, it') = (Inr (o'', it') :: nat + cli_opts \<times> string list)"
      then show ?thesis using a it by (intro exI [of _ Encap]) (simp add: reads_def)
    next
      assume "m = ''decap''" "Inr (o' \<lparr> co_mode := Decap \<rparr>, it') = (Inr (o'', it') :: nat + cli_opts \<times> string list)"
      then show ?thesis using a it by (intro exI [of _ Decap]) (simp add: reads_def)
    qed simp
    then show ?thesis by (rule ex) simp
  next
    assume "a = ''--count''" "with_value (next_parse u64_from_str it) (\<lambda>v. o' \<lparr> co_max_packets := Some v \<rparr>) = Inr (o'', it')"
    then show ?thesis by (intro ex [of Set_count] reads_value) (auto simp: number_decimal)
  qed (use common_option_written in blast)
qed

lemma switch_option_written:
  assumes "switch_option a it o' = Inr (o'', it')"
  shows "\<exists>s. switch_takes s \<and> reads a it o' o'' it' s"
proof -
  have ex: "\<exists>x. reads a it o' o'' it' (S x) \<Longrightarrow> (\<And>x. switch_takes (S x)) \<Longrightarrow> ?thesis" for S by blast
  have word: "\<exists>x. reads a it o' o'' it' (S x)"
    if "a = w" "with_value (next_str it) f = Inr (o'', it')" "\<And>v. written (S v) [w, v]" "\<And>v. f v = apply_setting (S v) o'" for S w f
    using value_read(2) [OF that(2)] that(1,3,4) by (force simp: reads_def)
  from assms show ?thesis
    unfolding switch_option_def
  proof (elim branchE)
    assume "a = ''--tenant''" "with_value (next_str it) (\<lambda>v. o' \<lparr> co_tenant := Some v \<rparr>) = Inr (o'', it')"
    then show ?thesis by (intro ex [of Set_tenant] word) auto
  next
    assume "a = ''--underlay''" "with_value (next_str it) (\<lambda>v. o' \<lparr> co_underlay := Some v \<rparr>) = Inr (o'', it')"
    then show ?thesis by (intro ex [of Set_underlay] word) auto
  next
    assume "a = ''--config''" "with_value (next_str it) (\<lambda>v. o' \<lparr> co_config := Some v \<rparr>) = Inr (o'', it')"
    then show ?thesis by (intro ex [of Set_config] word) auto
  next
    assume "a = ''--control''" "with_value (next_str it) (\<lambda>v. o' \<lparr> co_control := Some v \<rparr>) = Inr (o'', it')"
    then show ?thesis by (intro ex [of Set_control] word) auto
  next
    assume "a = ''--queues''" "with_value (next_parse u32_from_str it) (\<lambda>v. o' \<lparr> co_queues := v \<rparr>) = Inr (o'', it')"
    then show ?thesis by (intro ex [of Set_queues] reads_value) (auto simp: number_decimal)
  qed (use common_option_written in blast)
qed

text \<open>What both option loops do: read settings off the front until the arguments end.\<close>

locale option_loop =
  fixes takes :: "setting \<Rightarrow> bool"
    and option :: "string \<Rightarrow> string list \<Rightarrow> cli_opts \<Rightarrow> nat + cli_opts \<times> string list"
    and options :: "string list \<Rightarrow> cli_opts \<Rightarrow> nat + cli_opts"
  assumes applies: "takes s \<Longrightarrow> written s ws \<Longrightarrow> \<exists>a it. ws = a # it \<and> option a (it @ rest) o' = Inr (apply_setting s o', rest)"
    and read: "option a it o' = Inr (o'', it') \<Longrightarrow> \<exists>s. takes s \<and> reads a it o' o'' it' s"
    and loop: "options [] o' = Inr o'"
      "options (a # it) o' = (case option a it o' of Inl c \<Rightarrow> Inl c | Inr (o'', it') \<Rightarrow> options it' o'')"
begin

lemma writes_Nil: "writes takes [] []"
  by (simp add: writes_def)

lemma writes_Cons: "takes s \<Longrightarrow> written s ws \<Longrightarrow> writes takes args ss \<Longrightarrow> writes takes (ws @ args) (s # ss)"
  unfolding writes_def by (force intro: exI [of _ "ws # _"])

lemma reads_writes: "takes s \<Longrightarrow> reads a it o' o'' it' s \<Longrightarrow> writes takes it' ss \<Longrightarrow> writes takes (a # it) (s # ss)"
  unfolding reads_def by (auto intro: writes_Cons)

lemma options_read:
  assumes "writes takes args ss"
  shows "options args o' = Inr (fold apply_setting ss o')"
proof -
  obtain wss where "list_all2 written ss wss" "args = concat wss" "list_all takes ss" using assms by (auto simp: writes_def)
  then show ?thesis
  proof (induction ss wss arbitrary: args o' rule: list_all2_induct)
    case (Cons s ss ws wss)
    then obtain a it where "ws = a # it" "option a (it @ concat wss) o' = Inr (apply_setting s o', concat wss)"
      using applies [of s ws "concat wss" o'] by auto
    with Cons show ?case by (simp add: loop)
  qed (simp add: loop)
qed

lemma options_accept:
  "length args = n \<Longrightarrow> options args o' = Inr o'' \<Longrightarrow> \<exists>ss. writes takes args ss"
proof (induction n arbitrary: args o' rule: less_induct)
  case (less n)
  show ?case
  proof (cases args)
    case Nil
    then show ?thesis using writes_Nil by blast
  next
    case (Cons a it)
    with less.prems(2) obtain o1 it' where o1: "option a it o' = Inr (o1, it')" "options it' o1 = Inr o''"
      by (auto simp: loop split: sum.splits)
    from read [OF o1(1)] obtain s where s: "takes s" "reads a it o' o1 it' s" by blast
    then obtain ws where "written s ws" "a # it = ws @ it'" by (auto simp: reads_def)
    moreover from applies [OF s(1) this(1)] have "ws \<noteq> []" by blast
    ultimately have "length it' < n" using less.prems(1) Cons by (metis length_append less_add_same_cancel2 length_greater_0_conv)
    from less.IH [OF this refl o1(2)] reads_writes [OF s] Cons show ?thesis by blast
  qed
qed

text \<open>The loop accepts exactly the arguments that write a list of settings, and applies them in order.\<close>

lemma options_iff: "options args o' = Inr o'' \<longleftrightarrow> (\<exists>ss. writes takes args ss \<and> o'' = fold apply_setting ss o')"
  using options_read options_accept by (metis sum.inject(2))

end

interpretation run_loop_args: option_loop run_takes run_option run_options
  by unfold_locales (fact run_option_applies run_option_written run_options.simps)+

interpretation switch_loop_args: option_loop switch_takes switch_option switch_options
  by unfold_locales (fact switch_option_applies switch_option_written switch_options.simps)+

text \<open>From the defaults of the commands.\<close>

lemma options_choices:
  assumes "default_opts = Some d"
  shows "writes run_takes args ss \<Longrightarrow> run_options args d = Inr (choices ss)"
    "\<not> (\<exists>ss. writes run_takes args ss) \<Longrightarrow> run_options args d = Inl 2"
    "writes switch_takes args ss \<Longrightarrow> switch_options args d = Inr (choices ss)"
    "\<not> (\<exists>ss. writes switch_takes args ss) \<Longrightarrow> switch_options args d = Inl 2"
proof -
  show "writes run_takes args ss \<Longrightarrow> run_options args d = Inr (choices ss)"
    by (simp add: run_loop_args.options_read fold_choices [OF assms])
  show "writes switch_takes args ss \<Longrightarrow> switch_options args d = Inr (choices ss)"
    by (simp add: switch_loop_args.options_read fold_choices [OF assms])
  show "\<not> (\<exists>ss. writes run_takes args ss) \<Longrightarrow> run_options args d = Inl 2"
    using run_loop_args.options_iff [of args d] by (cases "run_options args d") (auto dest: run_options_exit)
  show "\<not> (\<exists>ss. writes switch_takes args ss) \<Longrightarrow> switch_options args d = Inl 2"
    using switch_loop_args.options_iff [of args d] by (cases "switch_options args d") (auto dest: switch_options_exit)
qed

end
