(* ===== verification/Cli_Forward.thy ===== *)
theory Cli_Forward
  imports Cli_Args
begin

text \<open>
  What \<open>run\<close> and \<open>switch\<close> do with the values their arguments choose
  (\<open>andromeda-cli/src/main.rs\<close>): the sockets they open, the pipeline they forward with, how they end,
  and that the commands of \<open>Cli\<close> do exactly that, over any kernel that meets its contract.
\<close>

section \<open>What the chosen values ask for\<close>

text \<open>The sockets: 4096 frames of 2048 bytes and rings of 2048 entries.\<close>

definition asked_sockets :: "cli_opts \<Rightarrow> xsk_config" where
  "asked_sockets O' =
     \<lparr> xc_n_frames = 4096, xc_frame_size = 2048, xc_fill_size = 2048, xc_comp_size = 2048, xc_rx_size = 2048,
       xc_tx_size = 2048, xc_xdp_mode = co_xdp_mode O', xc_zerocopy = co_zerocopy O' \<rparr>"

text \<open>The node the flags describe: one network over all addresses, the peer as the gateway.\<close>

definition asked_fabric :: "cli_opts \<Rightarrow> fabric" where
  "asked_fabric O' = Fabric_add_vpc (Fabric_new (co_local_node O'))
     \<lparr> v_vni = co_vni O', v_name = ''vpc-'' @ nat_to_string (unat (co_vni O')), v_cidr = (0, 0) \<rparr>"

definition node_pipeline ::
    "ipv4addr \<Rightarrow> u32 \<Rightarrow> ipv4addr option \<Rightarrow> ipv4addr option \<Rightarrow> mac_addr \<Rightarrow> u16 \<Rightarrow> ipv4addr \<Rightarrow> pipeline_config" where
  "node_pipeline node vni snat gateway vmac mtu vip =
     \<lparr> pc_local_node_ip = node, pc_outer_src_mac = MacAddr 0x02 0 0 0 0xa1 0x01, pc_outer_dst_mac = MacAddr 0x02 0 0 0 0xa1 0x02,
       pc_vni = vni, pc_nat_ip = snat, pc_gateway_node_ip = gateway, pc_virtual_gateway_mac = vmac,
       pc_outer_udp_checksum = False, pc_underlay_mtu = mtu, pc_virtual_gateway_ip = vip \<rparr>"

definition asked_pipeline :: "cli_opts \<Rightarrow> pipeline_config" where
  "asked_pipeline O' = node_pipeline (co_local_node O') (co_vni O') (co_nat_ip O') (Some (co_peer_node O'))
     (MacAddr 0x02 0 0 0 0 0xff) 1500 0x0a000001"

text \<open>The node of \<open>switch\<close>: the one of the configuration file when a file is named, and none when the
  file does not load.\<close>

definition asked_node ::
    "(string \<Rightarrow> nat \<Rightarrow> string + string) \<Rightarrow> (string \<Rightarrow> string + raw_config) \<Rightarrow> cli_opts \<Rightarrow> (fabric \<times> pipeline_config) option" where
  "asked_node read_file from_str O' =
     (case co_config O' of
        None \<Rightarrow> Some (asked_fabric O', asked_pipeline O')
      | Some path \<Rightarrow> (case NodeConfig_load read_file from_str path of
          Some (Inr nc) \<Rightarrow> Some (NodeConfig_build_fabric nc,
            node_pipeline (nc_local_node nc) (nc_vni nc) (nc_nat_ip nc) (nc_peer_node nc)
              (nc_virtual_gateway_mac nc) (nc_underlay_mtu nc) (nc_virtual_gateway_ip nc))
        | _ \<Rightarrow> None))"

text \<open>The external address of a node's translator.\<close>

definition translator_ip :: "pipeline_config \<Rightarrow> ipv4addr" where
  "translator_ip cfg = (case pc_nat_ip cfg of Some ip \<Rightarrow> ip | None \<Rightarrow> pc_local_node_ip cfg)"

definition node_starts :: "fabric \<times> pipeline_config \<Rightarrow> pipeline \<Rightarrow> bool" where
  "node_starts node p \<longleftrightarrow>
     (\<exists>eng. NatEngine_new (translator_ip (snd node)) 20000 60000 = Some eng \<and> Pipeline_new (snd node) (fst node) eng = Some p)"

section \<open>How the commands end\<close>

text \<open>\<open>run\<close>: exit code 1 when its socket cannot be opened; else the forwarding loop from a new
  pipeline. It goes on while it has seen no stop request, and ends with every frame in the
  socket's pool or with the kernel.\<close>

definition run_ends ::
    "'k xdp_api \<Rightarrow> ('k \<Rightarrow> u64 multiset) \<Rightarrow> nat \<Rightarrow> tick list \<Rightarrow> string \<Rightarrow> cli_opts \<Rightarrow> 'k run_state cli_end \<Rightarrow> bool" where
  "run_ends api held gc_at ts iface O' r \<longleftrightarrow>
     (case XskSocket_open api iface (co_queue O') (asked_sockets O') of
        Inl e \<Rightarrow> r = Exit 1
      | Inr sock \<Rightarrow> \<exists>p. node_starts (asked_fabric O', asked_pipeline O') p \<and>
          (case run api sock p \<lparr> ro_mode = co_mode O', ro_max_packets = co_max_packets O', ro_max_secs = co_max_secs O',
               ro_batch = co_batch O' \<rparr> gc_at ts of
             None \<Rightarrow> False
           | Some (Inl st) \<Rightarrow> r = Running \<and> \<not> list_ex tk_stop ts
           | Some (Inr st) \<Rightarrow> r = Done st \<and>
               mset (xs_free (rs_sock st)) + held (xs_kernel (rs_sock st)) = mset (umem_frames 4096 2048)))"

text \<open>\<open>switch\<close>: exit code 2 without both interfaces or when its configuration does not load; exit code
  1 when the control socket cannot be bound, or with a single queue when a socket cannot be opened.
  With more queues it is the multi-queue run, else the two-socket loop, from a new pipeline of the
  node. It goes on while a worker has seen no stop request; it ends with the sums of the workers'
  counters, in which every received frame was transmitted or dropped.\<close>

definition loop_asks :: "cli_opts \<Rightarrow> run_opts" where
  "loop_asks O' = \<lparr> ro_mode = Encap, ro_max_packets = None, ro_max_secs = co_max_secs O', ro_batch = co_batch O' \<rparr>"

definition worker_view :: "fabric \<Rightarrow> switch_env \<Rightarrow> nat \<Rightarrow> fabric \<times> nat \<times> tick list" where
  "worker_view fabric env q = (case fst (se_worker env q) of None \<Rightarrow> fabric | Some f \<Rightarrow> f, snd (se_worker env q))"

definition totals_end :: "run_stats list \<Rightarrow> (u64 \<times> u64 \<times> u64) cli_end \<Rightarrow> bool" where
  "totals_end all r \<longleftrightarrow>
     r = Done (sum_list (map rt_rx all), sum_list (map rt_tx all), sum_list (map rt_dropped all)) \<and>
     sum_list (map rt_rx all) = sum_list (map rt_tx all) + sum_list (map rt_dropped all)"

definition switch_ends ::
    "'k xdp_api \<Rightarrow> switch_env \<Rightarrow> string \<Rightarrow> string \<Rightarrow> cli_opts \<Rightarrow> fabric \<times> pipeline_config \<Rightarrow> (u64 \<times> u64 \<times> u64) cli_end \<Rightarrow> bool" where
  "switch_ends api env tif uif O' node r \<longleftrightarrow>
     (if 1 < co_queues O' then
        (case run_multiqueue api tif uif (co_queues O') (asked_sockets O') (snd node) (translator_ip (snd node)) (20000, 60000)
             (loop_asks O') (worker_view (fst node) env) of
           None \<Rightarrow> r = Running \<and> (\<exists>q. \<not> list_ex tk_stop (snd (snd (se_worker env q))))
         | Some all \<Rightarrow> totals_end all r)
      else
        (case (XskSocket_open api tif 0 (asked_sockets O'), XskSocket_open api uif 0 (asked_sockets O')) of
           (Inr t, Inr u) \<Rightarrow> \<exists>p. node_starts node p \<and>
             (case run_switch api t u p (loop_asks O') (fst (snd (se_worker env 0))) (snd (snd (se_worker env 0))) of
                None \<Rightarrow> False
              | Some (Inl st) \<Rightarrow> r = Running \<and> \<not> list_ex tk_stop (snd (snd (se_worker env 0)))
              | Some (Inr st) \<Rightarrow> totals_end [sw_stats st] r)
         | _ \<Rightarrow> r = Exit 1))"

definition switch_answers ::
    "'k xdp_api \<Rightarrow> (string \<Rightarrow> nat \<Rightarrow> string + string) \<Rightarrow> (string \<Rightarrow> string + raw_config) \<Rightarrow> switch_env \<Rightarrow> cli_opts \<Rightarrow>
     (u64 \<times> u64 \<times> u64) cli_end \<Rightarrow> bool" where
  "switch_answers api read_file from_str env O' r \<longleftrightarrow>
     (case (co_tenant O', co_underlay O', asked_node read_file from_str O') of
        (Some tif, Some uif, Some node) \<Rightarrow>
          if \<exists>path. co_control O' = Some path \<and> \<not> se_bind env path then r = Exit 1
          else switch_ends api env tif uif O' node r
      | _ \<Rightarrow> r = Exit 2)"

section \<open>The commands do that\<close>

lemma translator_ip_node:
  "translator_ip (node_pipeline node vni snat gateway vmac mtu vip) = (case snat of Some ip \<Rightarrow> ip | None \<Rightarrow> node)"
  by (simp add: translator_ip_def node_pipeline_def split: option.split)

lemma file_config_node:
  "file_config nc = node_pipeline (nc_local_node nc) (nc_vni nc) (nc_nat_ip nc) (nc_peer_node nc)
     (nc_virtual_gateway_mac nc) (nc_underlay_mtu nc) (nc_virtual_gateway_ip nc)"
  by (simp add: file_config_def node_pipeline_def)

lemma asked_eqs:
  "cli_xcfg O' = asked_sockets O'" "flag_fabric O' = Some (asked_fabric O')" "flag_config O' = Some (asked_pipeline O')"
  "flag_nat O' = NatEngine_new (translator_ip (asked_pipeline O')) 20000 60000" "switch_run_opts O' = loop_asks O'"
proof -
  show c: "flag_config O' = Some (asked_pipeline O')"
    by (simp add: flag_config_def cli_literals asked_pipeline_def node_pipeline_def)
qed (simp_all add: cli_xcfg_def XskConfig_default_def asked_sockets_def flag_fabric_def asked_fabric_def
      asked_pipeline_def flag_nat_def translator_ip_node switch_run_opts_def loop_asks_def cli_literals)

lemma asked_sizes [simp]: "xc_n_frames (asked_sockets O') = 4096" "xc_frame_size (asked_sockets O') = 2048"
  by (simp_all add: asked_sockets_def)

lemma node_starts_obtain:
  obtains p where "node_starts node p" "pipeline_inv p"
proof -
  obtain eng where e: "NatEngine_new (translator_ip (snd node)) 20000 60000 = Some eng" using NatEngine_new_20000 by blast
  obtain p where p: "Pipeline_new (snd node) (fst node) eng = Some p" using Pipeline_new_eq by blast
  from pipeline_reachable_inv [OF pipeline_reachable.start [OF nat_reachable.start [OF e] p]] that e p show thesis
    by (auto simp: node_starts_def)
qed

lemma run_cmd_ends:
  assumes c: "xdp_contract api held 4096 2048" and fresh: "\<And>O'. fresh_kernel api held (asked_sockets O')"
    and args: "take 2 iface \<noteq> ''--''" "default_opts = Some d" "run_options ws d = Inr O'"
  shows "\<exists>r. run_cmd api (iface # ws) gc_at ts = Some r \<and> run_ends api held gc_at ts iface O' r"
proof -
  obtain p where p: "node_starts (asked_fabric O', asked_pipeline O') p" "pipeline_inv p" by (rule node_starts_obtain)
  then obtain eng where e: "NatEngine_new (translator_ip (asked_pipeline O')) 20000 60000 = Some eng"
    "Pipeline_new (asked_pipeline O') (asked_fabric O') eng = Some p" by (auto simp: node_starts_def)
  let ?opts = "\<lparr> ro_mode = co_mode O', ro_max_packets = co_max_packets O', ro_max_secs = co_max_secs O', ro_batch = co_batch O' \<rparr>"
  have cmd: "run_cmd api (iface # ws) gc_at ts = (case XskSocket_open api iface (co_queue O') (asked_sockets O') of
      Inl err \<Rightarrow> Some (Exit 1)
    | Inr sock \<Rightarrow> map_option (case_sum (\<lambda>st. Running) Done) (run api sock p ?opts gc_at ts))"
    using args(1,3) by (simp add: run_cmd_def args(2) asked_eqs e map_conv_bind_option o_def split: sum.split)
  show ?thesis
  proof (cases "XskSocket_open api iface (co_queue O') (asked_sockets O')")
    case (Inr sock)
    have "run_inv api held 4096 2048 (ro_mode ?opts)
        \<lparr> rs_sock = sock, rs_pipe = p, rs_stats = RunStats_default, rs_log = [], rs_gc_at = gc_at \<rparr> {#}"
      using c p(2) XskSocket_open_inv [OF _ fresh Inr] by (simp add: run_inv_def RunStats_default_def)
    from run_loop.loop_total [OF this, of ?opts ts] obtain r where r: "run api sock p ?opts gc_at ts = Some r"
      "case r of Inl s' \<Rightarrow> run_inv api held 4096 2048 (ro_mode ?opts) s' {#} \<and> \<not> list_ex tk_stop ts
       | Inr s' \<Rightarrow> run_inv api held 4096 2048 (ro_mode ?opts) s' {#} \<and> list_ex (loop_stops ?opts (rs_stats s')) ts"
      unfolding run_def by blast
    then show ?thesis using Inr p(1)
      by (cases r) (auto simp: cmd run_ends_def run_inv_def xsk_inv_def)
  qed (simp add: cmd run_ends_def)
qed

lemma sum_stats_totals: "sum_stats all = (sum_list (map rt_rx all), sum_list (map rt_tx all), sum_list (map rt_dropped all))"
proof -
  have "foldl (\<lambda>(a, b, c) s. (a + rt_rx s, b + rt_tx s, c + rt_dropped s)) (x, y, z) all =
      (x + sum_list (map rt_rx all), y + sum_list (map rt_tx all), z + sum_list (map rt_dropped all))" for x y z
    by (induction all arbitrary: x y z) (simp_all add: add.assoc)
  then show ?thesis by (simp add: sum_stats_def)
qed

lemma totals_end_sums:
  assumes "list_all (\<lambda>s. rt_rx s = rt_tx s + rt_dropped s) all"
  shows "totals_end all (Done (sum_stats all))"
  using assms by (induction all) (simp_all add: totals_end_def sum_stats_totals)

lemma switch_multi_ends:
  assumes c: "xdp_contract api held 4096 2048" and fresh: "\<And>O'. fresh_kernel api held (asked_sockets O')"
    and "control_bound env O'" and "1 < co_queues O'"
  shows "\<exists>r. switch_multi api env O' tif uif (fst node) (snd node) = Some r \<and> switch_ends api env tif uif O' node r"
proof -
  let ?m = "run_multiqueue api tif uif (co_queues O') (asked_sockets O') (snd node) (translator_ip (snd node)) (20000, 60000)
    (loop_asks O') (worker_view (fst node) env)"
  have v: "(\<lambda>q. case se_worker env q of (f, at, ts) \<Rightarrow> (case_option (fst node) (\<lambda>f. f) f, at, ts)) = worker_view (fst node) env"
    by (simp add: fun_eq_iff worker_view_def case_prod_beta)
  have view: "snd (worker_view (fst node) env q) = snd (se_worker env q)" for q by (simp add: worker_view_def)
  have "case ?m of None \<Rightarrow> \<exists>q. \<not> list_ex tk_stop (snd (snd (se_worker env q)))
      | Some all \<Rightarrow> list_all (\<lambda>s. rt_rx s = rt_tx s + rt_dropped s) all"
    using run_multiqueue_cases [where api = api and held = held and xcfg = "asked_sockets O'" and ports = "(20000, 60000)"
      and env = "worker_view (fst node) env" and tif = tif and uif = uif and n = "co_queues O'" and cfg = "snd node"
      and ip = "translator_ip (snd node)" and opts = "loop_asks O'"] c fresh
    by (simp add: view split: option.splits)
  moreover have "switch_multi api env O' tif uif (fst node) (snd node) =
      (case ?m of None \<Rightarrow> Some Running | Some all \<Rightarrow> Some (Done (sum_stats all)))"
    unfolding switch_multi_def Let_def asked_eqs v translator_ip_def using assms(3) by simp
  ultimately show ?thesis using assms(4) totals_end_sums by (cases ?m) (auto simp: switch_ends_def)
qed

lemma switch_single_ends:
  assumes c: "xdp_contract api held 4096 2048" and fresh: "\<And>O'. fresh_kernel api held (asked_sockets O')"
    and "control_bound env O'" and "\<not> 1 < co_queues O'" and p: "node_starts node p" "pipeline_inv p"
  shows "\<exists>r. switch_single api env O' tif uif p = Some r \<and> switch_ends api env tif uif O' node r"
proof (cases "XskSocket_open api tif 0 (asked_sockets O')")
  case t: (Inr t)
  show ?thesis
  proof (cases "XskSocket_open api uif 0 (asked_sockets O')")
    case u: (Inr u)
    let ?at = "fst (snd (se_worker env 0))" and ?ts = "snd (snd (se_worker env 0))" and ?opts = "loop_asks O'"
    have "switch_inv api held 4096 2048
        \<lparr> sw_tenant = t, sw_underlay = u, sw_pipe = p, sw_stats = RunStats_default, sw_report_at = ?at \<rparr> {#} {#}"
      using c p(2) XskSocket_open_inv [OF _ fresh t] XskSocket_open_inv [OF _ fresh u]
      by (simp add: switch_inv_def RunStats_default_def)
    from switch_loop.loop_total [OF this, of ?opts ?opts ?ts] obtain r where r: "run_switch api t u p ?opts ?at ?ts = Some r"
      "case r of Inl st \<Rightarrow> switch_inv api held 4096 2048 st {#} {#} \<and> \<not> list_ex tk_stop ?ts
       | Inr st \<Rightarrow> switch_inv api held 4096 2048 st {#} {#} \<and> list_ex (loop_stops ?opts (sw_stats st)) ?ts"
      unfolding run_switch_def by blast
    then show ?thesis using t u assms(3,4) p(1)
      by (cases r) (auto simp: switch_single_def asked_eqs switch_ends_def totals_end_def switch_inv_def)
  qed (use t assms(3,4) in \<open>simp add: switch_single_def asked_eqs switch_ends_def\<close>)
qed (use assms(3,4) in \<open>simp add: switch_single_def asked_eqs switch_ends_def\<close>)

lemma switch_node_asked:
  "(asked_node read_file from_str O' = None \<and> switch_node read_file from_str O' = Some (Inl 2)) \<or>
   (\<exists>node eng. asked_node read_file from_str O' = Some node \<and>
     NatEngine_new (translator_ip (snd node)) 20000 60000 = Some eng \<and>
     switch_node read_file from_str O' = Some (Inr (fst node, snd node, eng)))"
proof (cases "co_config O'")
  case None
  then show ?thesis using NatEngine_new_20000 [of "translator_ip (asked_pipeline O')"]
    by (auto simp: asked_node_def switch_node_def asked_eqs)
next
  case (Some path)
  obtain r where r: "NodeConfig_load read_file from_str path = Some r" using NodeConfig_load_total by blast
  show ?thesis
  proof (cases r)
    case (Inr nc)
    then show ?thesis using Some r NatEngine_new_20000 [of "case nc_nat_ip nc of Some ip \<Rightarrow> ip | None \<Rightarrow> nc_local_node nc"]
      by (auto simp: asked_node_def switch_node_def file_config_node translator_ip_node)
  qed (use Some r in \<open>simp add: asked_node_def switch_node_def\<close>)
qed

lemma switch_cmd_answers:
  assumes c: "xdp_contract api held 4096 2048" and fresh: "\<And>O'. fresh_kernel api held (asked_sockets O')"
    and args: "default_opts = Some d" "switch_options args d = Inr O'"
  shows "\<exists>r. switch_cmd api read_file from_str env args = Some r \<and> switch_answers api read_file from_str env O' r"
proof (cases "co_tenant O' = None \<or> co_underlay O' = None")
  case True
  then show ?thesis using args(2) by (auto simp: switch_cmd_def args(1) switch_answers_def split: option.splits)
next
  case False
  then obtain tif uif where i: "co_tenant O' = Some tif" "co_underlay O' = Some uif" by auto
  from switch_node_asked [of read_file from_str O'] show ?thesis
  proof (elim disjE exE conjE)
    fix node eng
    assume n: "asked_node read_file from_str O' = Some node" "NatEngine_new (translator_ip (snd node)) 20000 60000 = Some eng"
      "switch_node read_file from_str O' = Some (Inr (fst node, snd node, eng))"
    obtain p where p: "node_starts node p" "pipeline_inv p" by (rule node_starts_obtain)
    then have "Pipeline_new (snd node) (fst node) eng = Some p" using n(2) by (simp add: node_starts_def)
    then have cmd: "switch_cmd api read_file from_str env args =
        (if 1 < co_queues O' then switch_multi api env O' tif uif (fst node) (snd node) else switch_single api env O' tif uif p)"
      using args(2) i n(3) by (simp add: switch_cmd_def args(1))
    have bound: "control_bound env O' \<longleftrightarrow> \<not> (\<exists>path. co_control O' = Some path \<and> \<not> se_bind env path)"
      by (simp add: control_bound_def split: option.split)
    have "\<exists>r. switch_cmd api read_file from_str env args = Some r \<and>
        (if control_bound env O' then switch_ends api env tif uif O' node r else r = Exit 1)"
    proof (cases "control_bound env O'")
      case True
      then show ?thesis unfolding cmd
        using switch_multi_ends [OF c fresh True] switch_single_ends [OF c fresh True _ p] by (simp only: if_True split: if_split) blast
    qed (simp add: cmd switch_multi_def switch_single_def)
    moreover have "switch_answers api read_file from_str env O' r \<longleftrightarrow>
        (if control_bound env O' then switch_ends api env tif uif O' node r else r = Exit 1)" for r
      unfolding switch_answers_def bound by (auto simp: i n(1))
    ultimately show ?thesis by blast
  qed (use args(2) i in \<open>simp add: switch_cmd_def args(1) switch_answers_def\<close>)
qed

end
