(* ===== verification/Utf8.thy ===== *)
theory Utf8
  imports Text_Std
begin

text \<open>
  UTF-8, as the standard library checks it when it turns what the operating system hands over into
  strings (\<open>std::env::args\<close>).
\<close>

section \<open>The check\<close>

definition continuation :: "nat \<Rightarrow> bool" where
  "continuation b \<longleftrightarrow> 0x80 \<le> b \<and> b \<le> 0xbf"

text \<open>The bytes after the first character of a text, when it starts with a well-formed one.\<close>

definition utf8_next :: "nat list \<Rightarrow> nat list option" where
  "utf8_next s =
     (case s of
        [] \<Rightarrow> None
      | a # s \<Rightarrow>
          if a < 0x80 then Some s
          else (case s of
            [] \<Rightarrow> None
          | b # s \<Rightarrow>
              if \<not> continuation b then None
              else if 0xc2 \<le> a \<and> a \<le> 0xdf then Some s
              else (case s of
                [] \<Rightarrow> None
              | c # s \<Rightarrow>
                  if \<not> continuation c then None
                  else if 0xe0 \<le> a \<and> a \<le> 0xef then
                    (if (a = 0xe0 \<and> b < 0xa0) \<or> (a = 0xed \<and> 0x9f < b) then None else Some s)
                  else (case s of
                    [] \<Rightarrow> None
                  | d # s \<Rightarrow>
                      if continuation d \<and> 0xf0 \<le> a \<and> a \<le> 0xf4 \<and> \<not> (a = 0xf0 \<and> b < 0x90) \<and> \<not> (a = 0xf4 \<and> 0x8f < b)
                      then Some s else None))))"

lemma utf8_next_length: "utf8_next s = Some r \<Longrightarrow> length r < length s"
  by (auto simp: utf8_next_def split: list.splits if_splits)

function utf8_bytes :: "nat list \<Rightarrow> bool" where
  "utf8_bytes s = (s = [] \<or> (case utf8_next s of None \<Rightarrow> False | Some r \<Rightarrow> utf8_bytes r))"
  by pat_completeness auto
termination
  by (relation "measure length") (auto dest: utf8_next_length)

declare utf8_bytes.simps [simp del]

definition utf8_valid :: "string \<Rightarrow> bool" where
  "utf8_valid s \<longleftrightarrow> utf8_bytes (map of_char s)"

section \<open>It accepts exactly the encodings of texts\<close>

definition scalar_value :: "nat \<Rightarrow> bool" where
  "scalar_value c \<longleftrightarrow> c < 0xd800 \<or> (0xe000 \<le> c \<and> c < 0x110000)"

definition utf8_encode :: "nat \<Rightarrow> nat list" where
  "utf8_encode c =
     (if c < 0x80 then [c]
      else if c < 0x800 then [0xc0 + c div 64, 0x80 + c mod 64]
      else if c < 0x10000 then [0xe0 + c div 4096, 0x80 + c div 64 mod 64, 0x80 + c mod 64]
      else [0xf0 + c div 262144, 0x80 + c div 4096 mod 64, 0x80 + c div 64 mod 64, 0x80 + c mod 64])"

definition encodes :: "nat list \<Rightarrow> string \<Rightarrow> bool" where
  "encodes cs s \<longleftrightarrow> list_all scalar_value cs \<and> map of_char s = concat (map utf8_encode cs)"

lemma utf8_next_encode:
  assumes "scalar_value c"
  shows "utf8_next (utf8_encode c @ r) = Some r"
proof -
  have m: "x mod 64 \<le> 63" for x :: nat using mod_less_divisor [of 64 x] by simp
  consider "c < 0x80" | "0x80 \<le> c" "c < 0x800" | "0x800 \<le> c" "c < 0x10000" | "0x10000 \<le> c" by linarith
  then show ?thesis
  proof cases
    case 2
    then have "2 \<le> c div 64" "c div 64 \<le> 31" by linarith+
    then show ?thesis using 2 m by (simp add: utf8_encode_def utf8_next_def continuation_def)
  next
    case 3
    have d: "c div 4096 \<le> 15" "c div 64 = 64 * (c div 4096) + c div 64 mod 64"
      using 3 by (linarith, simp add: div_mult2_eq [of c 64 64, simplified])
    have "\<not> (c div 4096 = 0 \<and> c div 64 mod 64 < 32)" "\<not> (c div 4096 = 13 \<and> 31 < c div 64 mod 64)"
      using 3 assms d(2) unfolding scalar_value_def by linarith+
    then show ?thesis using 3 m d(1) by (auto simp: utf8_encode_def utf8_next_def continuation_def)
  next
    case 4
    have c: "c < 0x110000" using 4 assms by (simp add: scalar_value_def)
    have d: "c div 262144 \<le> 4" "c div 4096 = 64 * (c div 262144) + c div 4096 mod 64"
      using c by (linarith, simp add: div_mult2_eq [of c 4096 64, simplified])
    have "\<not> (c div 262144 = 0 \<and> c div 4096 mod 64 < 16)" "\<not> (c div 262144 = 4 \<and> 15 < c div 4096 mod 64)"
      using 4 c d(2) by linarith+
    then show ?thesis using 4 m d(1) by (auto simp: utf8_encode_def utf8_next_def continuation_def)
  qed (simp add: utf8_encode_def utf8_next_def)
qed

lemma three_bounds:
  fixes i j k :: nat
  assumes "j < 64" and "k < 64"
  shows "1 \<le> i \<or> 32 \<le> j \<Longrightarrow> 0x800 \<le> 4096 * i + 64 * j + k" and "i \<le> 15 \<Longrightarrow> 4096 * i + 64 * j + k < 0x10000"
    and "i \<le> 12 \<or> 14 \<le> i \<or> j \<le> 31 \<Longrightarrow> i \<le> 15 \<Longrightarrow> 4096 * i + 64 * j + k < 0xd800 \<or> 0xe000 \<le> 4096 * i + 64 * j + k"
proof -
  show "1 \<le> i \<or> 32 \<le> j \<Longrightarrow> 0x800 \<le> 4096 * i + 64 * j + k" by (elim disjE) linarith+
  show "i \<le> 15 \<Longrightarrow> 4096 * i + 64 * j + k < 0x10000" using assms by linarith
  assume "i \<le> 12 \<or> 14 \<le> i \<or> j \<le> 31" and "i \<le> 15"
  then consider "i \<le> 12" | "14 \<le> i" | "i = 13" "j \<le> 31" by linarith
  then show "4096 * i + 64 * j + k < 0xd800 \<or> 0xe000 \<le> 4096 * i + 64 * j + k"
    using assms by cases linarith+
qed

lemma four_bounds:
  fixes i j k l :: nat
  assumes "j < 64" and "k < 64" and "l < 64"
  shows "1 \<le> i \<or> 16 \<le> j \<Longrightarrow> 0x10000 \<le> 262144 * i + 4096 * j + 64 * k + l"
    and "i \<le> 3 \<or> j \<le> 15 \<Longrightarrow> i \<le> 4 \<Longrightarrow> 262144 * i + 4096 * j + 64 * k + l < 0x110000"
proof -
  show "1 \<le> i \<or> 16 \<le> j \<Longrightarrow> 0x10000 \<le> 262144 * i + 4096 * j + 64 * k + l" by (elim disjE) linarith+
  show "i \<le> 3 \<or> j \<le> 15 \<Longrightarrow> i \<le> 4 \<Longrightarrow> 262144 * i + 4096 * j + 64 * k + l < 0x110000"
    using assms by (elim disjE) linarith+
qed

lemma low_digit:
  fixes q k :: nat
  assumes "k < 64"
  shows "(64 * q + k) div 64 = q" "(64 * q + k) mod 64 = k" "(64 * q + k) div (64 * n) = q div n"
  using assms by (simp_all add: div_mult2_eq)

lemma three_digits:
  fixes i j k :: nat
  assumes "j < 64" and "k < 64"
  shows "(4096 * i + 64 * j + k) div 4096 = i" "(4096 * i + 64 * j + k) div 64 mod 64 = j" "(4096 * i + 64 * j + k) mod 64 = k"
proof -
  have e: "4096 * i + 64 * j + k = 64 * (64 * i + j) + k" by simp
  show "(4096 * i + 64 * j + k) div 4096 = i"
    unfolding e using low_digit(3) [OF assms(2), of "64 * i + j" 64] low_digit(1) [OF assms(1), of i] by simp
  show "(4096 * i + 64 * j + k) div 64 mod 64 = j" unfolding e low_digit(1) [OF assms(2)] by (rule low_digit(2) [OF assms(1)])
  show "(4096 * i + 64 * j + k) mod 64 = k" unfolding e by (rule low_digit(2) [OF assms(2)])
qed

lemma four_digits:
  fixes i j k l :: nat
  assumes "j < 64" and "k < 64" and "l < 64"
  shows "(262144 * i + 4096 * j + 64 * k + l) div 262144 = i" "(262144 * i + 4096 * j + 64 * k + l) div 4096 mod 64 = j"
    "(262144 * i + 4096 * j + 64 * k + l) div 64 mod 64 = k" "(262144 * i + 4096 * j + 64 * k + l) mod 64 = l"
proof -
  have e: "262144 * i + 4096 * j + 64 * k + l = 64 * (4096 * i + 64 * j + k) + l" by simp
  note three = three_digits [OF assms(1,2), of i]
  show "(262144 * i + 4096 * j + 64 * k + l) div 262144 = i"
    unfolding e using low_digit(3) [OF assms(3), of "4096 * i + 64 * j + k" 4096] three(1) by simp
  show "(262144 * i + 4096 * j + 64 * k + l) div 4096 mod 64 = j"
    unfolding e using low_digit(3) [OF assms(3), of "4096 * i + 64 * j + k" 64] three(2) by simp
  show "(262144 * i + 4096 * j + 64 * k + l) div 64 mod 64 = k" unfolding e low_digit(1) [OF assms(3)] by (rule three(3))
  show "(262144 * i + 4096 * j + 64 * k + l) mod 64 = l" unfolding e by (rule low_digit(2) [OF assms(3)])
qed

lemma utf8_next_decode:
  assumes "utf8_next s = Some r"
  shows "\<exists>c. scalar_value c \<and> s = utf8_encode c @ r"
proof -
  have cont: "\<exists>j<64. b = 0x80 + j" if "continuation b" for b
    using that by (intro exI [of _ "b - 0x80"]) (auto simp: continuation_def)
  from assms consider
      (one) a where "s = a # r" "a < 0x80"
    | (two) a b where "s = a # b # r" "continuation b" "0xc2 \<le> a" "a \<le> 0xdf"
    | (three) a b c where "s = a # b # c # r" "continuation b" "continuation c" "0xe0 \<le> a" "a \<le> 0xef"
        "\<not> (a = 0xe0 \<and> b < 0xa0)" "\<not> (a = 0xed \<and> 0x9f < b)"
    | (four) a b c d where "s = a # b # c # d # r" "continuation b" "continuation c" "continuation d" "0xf0 \<le> a" "a \<le> 0xf4"
        "\<not> (a = 0xf0 \<and> b < 0x90)" "\<not> (a = 0xf4 \<and> 0x8f < b)"
    by (auto simp: utf8_next_def split: list.splits if_splits)
  then show ?thesis
  proof cases
    case one
    then show ?thesis by (intro exI [of _ a]) (simp add: scalar_value_def utf8_encode_def)
  next
    case two
    obtain i where i: "a = 0xc0 + i" "2 \<le> i" "i \<le> 31" using two by (intro that [of "a - 0xc0"]) auto
    obtain j where j: "b = 0x80 + j" "j < 64" using cont two(2) by blast
    have "0x80 \<le> 64 * i + j" "64 * i + j < 0x800" using i j by linarith+
    then show ?thesis using two(1) i(1) j
      by (intro exI [of _ "64 * i + j"]) (simp add: scalar_value_def utf8_encode_def)
  next
    case three
    obtain i where i: "a = 0xe0 + i" "i \<le> 15" using three by (intro that [of "a - 0xe0"]) auto
    obtain j where j: "b = 0x80 + j" "j < 64" using cont three(2) by blast
    obtain k where k: "c = 0x80 + k" "k < 64" using cont three(3) by blast
    let ?c = "4096 * i + 64 * j + k"
    have "1 \<le> i \<or> 32 \<le> j" and "i \<le> 12 \<or> 14 \<le> i \<or> j \<le> 31" using three(6,7) i(1) j(1) by auto
    note b = three_bounds(1) [OF j(2) k(2) this(1)] three_bounds(2) [OF j(2) k(2) i(2)] three_bounds(3) [OF j(2) k(2) this(2) i(2)]
    have "utf8_encode ?c = [a, b, c]"
      unfolding utf8_encode_def three_digits [OF j(2) k(2)] using b(1,2) i(1) j(1) k(1) by simp
    moreover have "scalar_value ?c" using b(2,3) unfolding scalar_value_def by linarith
    ultimately show ?thesis using three(1) by (intro exI [of _ ?c]) simp
  next
    case four
    obtain i where i: "a = 0xf0 + i" "i \<le> 4" using four by (intro that [of "a - 0xf0"]) auto
    obtain j where j: "b = 0x80 + j" "j < 64" using cont four(2) by blast
    obtain k where k: "c = 0x80 + k" "k < 64" using cont four(3) by blast
    obtain l where l: "d = 0x80 + l" "l < 64" using cont four(4) by blast
    let ?c = "262144 * i + 4096 * j + 64 * k + l"
    have "1 \<le> i \<or> 16 \<le> j" and "i \<le> 3 \<or> j \<le> 15" using four(7,8) i by (auto simp: j(1))
    note b = four_bounds(1) [OF j(2) k(2) l(2) this(1)] four_bounds(2) [OF j(2) k(2) l(2) this(2) i(2)]
    have "utf8_encode ?c = [a, b, c, d]"
      unfolding utf8_encode_def four_digits [OF j(2) k(2) l(2)] using b i(1) j(1) k(1) l(1) by simp
    moreover have "scalar_value ?c" using b unfolding scalar_value_def by linarith
    ultimately show ?thesis using four(1) by (intro exI [of _ ?c]) simp
  qed
qed

lemma utf8_encode_not_Nil: "utf8_encode c \<noteq> []"
  by (simp add: utf8_encode_def)

lemma utf8_bytes_iff: "utf8_bytes s \<longleftrightarrow> (\<exists>cs. list_all scalar_value cs \<and> s = concat (map utf8_encode cs))"
proof
  show "utf8_bytes s \<Longrightarrow> \<exists>cs. list_all scalar_value cs \<and> s = concat (map utf8_encode cs)"
  proof (induction s rule: utf8_bytes.induct)
    case (1 s)
    show ?case
    proof (cases "s = []")
      case False
      with 1(2) obtain r where r: "utf8_next s = Some r" "utf8_bytes r"
        by (subst (asm) utf8_bytes.simps) (auto split: option.splits)
      from 1(1) [OF r] obtain cs where "list_all scalar_value cs" "r = concat (map utf8_encode cs)" by blast
      moreover from utf8_next_decode [OF r(1)] obtain c where "scalar_value c" "s = utf8_encode c @ r" by blast
      ultimately show ?thesis by (intro exI [of _ "c # cs"]) simp
    qed (auto intro: exI [of _ "[]"])
  qed
next
  assume "\<exists>cs. list_all scalar_value cs \<and> s = concat (map utf8_encode cs)"
  then obtain cs where "list_all scalar_value cs" "s = concat (map utf8_encode cs)" by blast
  then show "utf8_bytes s"
  proof (induction cs arbitrary: s)
    case (Cons c cs)
    then show ?case by (subst utf8_bytes.simps) (simp add: utf8_next_encode)
  qed (simp add: utf8_bytes.simps)
qed

lemma utf8_valid_iff: "utf8_valid s \<longleftrightarrow> (\<exists>cs. encodes cs s)"
  by (simp add: utf8_valid_def utf8_bytes_iff encodes_def)

end
