(* ===== verification/Program.thy ===== *)
theory Program
  imports Cli_Forward Bench Utf8
begin

text \<open>
  The executable of \<open>andromeda-cli/src/main.rs\<close>: \<open>main\<close> with all its commands composed, in a build with
  the feature \<open>afxdp\<close> or without it, and the texts of \<open>version\<close> and \<open>help\<close>. Its specification \<open>answers\<close>
  reads the words of the arguments itself; it shares the forwarding loops, the packet decoder and
  the loading of a configuration with the model, whose own theorems say what they do. That what
  \<open>println!\<close> writes is accepted by standard output is assumed throughout.
\<close>

section \<open>Version and help\<close>

text \<open>The em dash, in UTF-8.\<close>

definition em_dash :: string where "em_dash = [CHR 0xE2, CHR 0x80, CHR 0x94]"

definition print_version :: "string \<Rightarrow> string" where
  "print_version version = ''andromeda '' @ version @ '' '' @ em_dash @ '' user-space VPC overlay dataplane''"

text \<open>The lines of the help text.\<close>

definition print_help :: "string list" where
  "print_help =
     [''andromeda '' @ em_dash @ '' Light-Andromeda switch'',
      [],
      ''USAGE:'',
      ''  andromeda selftest'',
      ''  andromeda bench [n] [--json]   perf table, mean +/- sd over trials'',
      ''  andromeda bench --sweep        working-set sweep (cache-hierarchy experiment)'',
      ''  andromeda inspect [hex]        decode a packet (or a synthesized overlay one)'',
      ''  andromeda run <iface> [options]'',
      ''  andromeda switch --tenant <if> --underlay <if> [--config f.toml] [options]'',
      [],
      ''run options:'',
      ''  --queue <n>         RX/TX queue id (default 0)'',
      ''  --mode <m>          dump | encap | decap (default dump)'',
      ''  --vni <n>           virtual network id (default 100)'',
      ''  --local-node <ip>   this switch's underlay IP (default 192.168.1.1)'',
      ''  --peer-node <ip>    encap destination / default gateway (default 192.168.1.2)'',
      ''  --nat-ip <ip>       enable SNAT to this address on egress'',
      ''  --count <n>         stop after n received frames'',
      ''  --secs <n>          stop after n seconds'',
      ''  --batch <n>         RX/TX batch size (default 64)'',
      ''  --skb               force generic/SKB XDP mode'',
      ''  --drv               force native/driver XDP mode'',
      ''  --zerocopy | --zc   request true zero-copy UMEM (needs mlx5/ice/i40e/ixgbe; falls back to copy)'',
      [],
      [CHR 0x27] @ ''run'/'switch' require the binary built with --features afxdp and CAP_NET_ADMIN (root).'',
      ''  'switch' also takes --control <sock> to hot-reload the fabric over a Unix socket.'']"

section \<open>The commands of a build\<close>

text \<open>What the process finds: the version it was built with, whether the feature \<open>afxdp\<close> was on, the
  kernel, the files and the decoder, and the observations of the forwarding loops.\<close>

record 'k world =
  w_version :: string
  w_afxdp :: bool
  w_api :: "'k xdp_api"
  w_read_file :: "string \<Rightarrow> nat \<Rightarrow> string + string"
  w_from_str :: "string \<Rightarrow> string + raw_config"
  w_switch :: switch_env
  w_gc_at :: nat
  w_ticks :: "tick list"

text \<open>What a command that returns has shown.\<close>

datatype 'k report =
    Selftest_report "decision + string \<times> pipeline_stats"
  | Bench_report "sweep_row list + bench_row list"
  | Inspect_report "string list"
  | Run_report "'k run_state"
  | Switch_report "u64 \<times> u64 \<times> u64"
  | Version_report string
  | Help_report "string list"

text \<open>\<open>run\<close> and \<open>switch\<close> of either build: without the feature they only say what to rebuild with.\<close>

definition build_run_cmd :: "'k world \<Rightarrow> string list \<Rightarrow> 'k run_state cli_end option" where
  "build_run_cmd w args = (if w_afxdp w then run_cmd (w_api w) args (w_gc_at w) (w_ticks w) else Some (Exit 1))"

definition build_switch_cmd :: "'k world \<Rightarrow> string list \<Rightarrow> (u64 \<times> u64 \<times> u64) cli_end option" where
  "build_switch_cmd w args =
     (if w_afxdp w then switch_cmd (w_api w) (w_read_file w) (w_from_str w) (w_switch w) args else Some (Exit 1))"

text \<open>\<open>main\<close>, from all the arguments with the program name first: \<open>std::env::args\<close> panics (\<open>None\<close>) on
  one that is not UTF-8.\<close>

definition main_prog :: "'k world \<Rightarrow> string list \<Rightarrow> 'k report cli_end option" where
  "main_prog w argv =
     (if \<not> list_all utf8_valid argv then None
      else case main_command (drop 1 argv) of
        Selftest \<Rightarrow> do { r \<leftarrow> selftest; Some (Done (Selftest_report r)) }
      | Bench rest \<Rightarrow> do { r \<leftarrow> bench_cmd rest; Some (Done (Bench_report r)) }
      | Inspect rest \<Rightarrow> do {
          r \<leftarrow> inspect_cmd rest;
          Some (case r of Inl c \<Rightarrow> Exit c | Inr ls \<Rightarrow> Done (Inspect_report ls)) }
      | Run rest \<Rightarrow> do { r \<leftarrow> build_run_cmd w rest; Some (map_cli_end Run_report r) }
      | Switch rest \<Rightarrow> do { r \<leftarrow> build_switch_cmd w rest; Some (map_cli_end Switch_report r) }
      | Version \<Rightarrow> Some (Done (Version_report (print_version (w_version w))))
      | Help \<Rightarrow> Some (Done (Help_report print_help))
      | Unknown c \<Rightarrow> Some (Exit 2))"

section \<open>The commands that need no interface\<close>

lemma udp_frame_ip:
  assumes "length payload \<le> 1354"
  shows "\<exists>dg. udp_frame ''10.0.0.10'' ''10.0.0.20'' 40000 4242 payload =
      Some (eth_hdr cli_dst_mac cli_src_mac ethertype_IPV4 @
        ip_hdr 0x0a00000a 0x0a000014 proto_UDP 64 1 True (of_nat (8 + length payload)) @ dg) \<and> length dg = 8 + length payload"
  using udp_frame_eq [OF bench_literals(5,6), of 40000 4242 payload] by auto

lemma selftest_pipeline_ok:
  obtains p where "selftest_pipeline = Some p" "pipeline_inv p" "pc_underlay_mtu (p_cfg p) = 1500" "pc_vni (p_cfg p) = 100"
    "p_stats p = PipelineStats_default"
    "next_hop_of (p_cfg p) (p_fabric p) 100 0x0a000014 = Some (0xc0a80102, Some (MacAddr 0x02 0 0 0 0 0x20), False)"
proof -
  obtain eng where e: "NatEngine_new 0xcb007107 20000 30000 = Some eng"
    by (simp add: NatEngine_new_def TimingWheel_new_def)
  let ?fab = "Fabric_add_vpc (Fabric_new 0xc0a80101) \<lparr> v_vni = 100, v_name = ''demo'', v_cidr = (0x0a000000, 24) \<rparr>"
  let ?ep = "\<lparr> e_vni = 100, e_inner_ip = 0x0a000014, e_inner_mac = MacAddr 0x02 0 0 0 0 0x20, e_node_ip = 0xc0a80102, e_local = False \<rparr>"
  define fab where "fab = Fabric_add_endpoint ?fab ?ep"
  define cfg where "cfg = \<lparr> pc_local_node_ip = 0xc0a80101, pc_outer_src_mac = MacAddr 0x02 0 0 0 0 0x01,
     pc_outer_dst_mac = MacAddr 0x02 0 0 0 0 0x02, pc_vni = 100, pc_nat_ip = None, pc_gateway_node_ip = None,
     pc_virtual_gateway_mac = MacAddr 0x02 0 0 0 0 0xff, pc_outer_udp_checksum = False, pc_underlay_mtu = 1500,
     pc_virtual_gateway_ip = 0x0a000001 \<rparr>"
  obtain p where p: "Pipeline_new cfg fab eng = Some p" "pipeline_reachable p" "p_cfg p = cfg" "p_fabric p = fab"
    by (rule fresh_pipeline [OF e])
  have "selftest_pipeline = Some p"
    unfolding selftest_pipeline_def bench_literals Let_def
    by (simp add: e flip: fab_def cfg_def) (simp add: p(1))
  moreover have "Fabric_resolve fab 100 0x0a000014 = Some (hop_of ?ep)" by (simp add: fab_def fabmap.lookup_add)
  moreover have "p_stats p = PipelineStats_default"
    using p(1) by (auto simp: Pipeline_new_def Pipeline_new_shared_def Option.bind_eq_Some_conv)
  ultimately show thesis
    using that p pipeline_reachable_inv [OF p(2)] by (simp add: cfg_def next_hop_of_def hop_of_def)
qed

lemma bench_frame_hop:
  assumes "length payload \<le> 1354" and "bench_setup p" and "next_hop_of (p_cfg p) (p_fabric p) 100 0x0a000014 = Some hop"
    and "length dg = 8 + length payload"
  shows "hop_for p (eth_hdr cli_dst_mac cli_src_mac ethertype_IPV4 @
    ip_hdr 0x0a00000a 0x0a000014 proto_UDP 64 1 True (of_nat (8 + length payload)) @ dg) hop"
proof -
  let ?ip = "ip_hdr 0x0a00000a 0x0a000014 proto_UDP 64 1 True (of_nat (8 + length payload)) @ dg"
  let ?frame = "eth_hdr cli_dst_mac cli_src_mac ethertype_IPV4 @ ?ip"
  have le: "length (eth_hdr cli_dst_mac cli_src_mac ethertype_IPV4) = 14" by simp
  then have l: "length ?frame = 42 + length payload" using assms(4) by simp
  have d: "drop 14 ?frame = ?ip" using le by simp
  have ty: "word16 ?frame 12 = ethertype_IPV4" by (simp add: eth_hdr_def word16_def nth_append)
  show ?thesis
    unfolding hop_for_def d ip_verdict_def
    using ty l assms(2,3) bench_ip [OF assms(1,4)] by (simp add: bench_setup_def del: append_assoc)
qed

lemma selftest_ok:
  "selftest = Some (Inr (''encapsulated 63 inner bytes -> 113 wire bytes (VNI 100)'', PipelineStats_default \<lparr> ps_encapped := 1 \<rparr>))"
proof -
  obtain p where p: "selftest_pipeline = Some p" "pipeline_inv p" "pc_underlay_mtu (p_cfg p) = 1500" "pc_vni (p_cfg p) = 100"
    "p_stats p = PipelineStats_default"
    "next_hop_of (p_cfg p) (p_fabric p) 100 0x0a000014 = Some (0xc0a80102, Some (MacAddr 0x02 0 0 0 0 0x20), False)"
    by (rule selftest_pipeline_ok)
  let ?payload = "map (\<lambda>c. of_nat (of_char c)) ''hello from the tenant'' :: bytes"
  have n: "length ?payload = 21" by simp
  obtain dg where dg: "demo_frame ''10.0.0.10'' ''10.0.0.20'' = Some (eth_hdr cli_dst_mac cli_src_mac ethertype_IPV4 @
      ip_hdr 0x0a00000a 0x0a000014 proto_UDP 64 1 True (of_nat (8 + length ?payload)) @ dg)" "length dg = 8 + length ?payload"
    using udp_frame_ip [of ?payload] unfolding demo_frame_def n by auto
  define inner where "inner = eth_hdr cli_dst_mac cli_src_mac ethertype_IPV4 @
      ip_hdr 0x0a00000a 0x0a000014 proto_UDP 64 1 True (of_nat (8 + length ?payload)) @ dg"
  let ?hop = "(0xc0a80102, Some (MacAddr 0x02 0 0 0 0 0x20), False)"
  have hop: "hop_for p inner ?hop"
    unfolding inner_def by (rule bench_frame_hop [OF _ _ p(6) dg(2)]) (simp_all add: bench_setup_def p(3,4))
  have len: "length inner = 63" using dg(2) by (simp add: inner_def)
  obtain e' eng where e: "egress_inner (p_nat p) 1 (flow_of (drop 14 inner)) ?hop inner = Some (e', eng, False, flow_of (drop 14 inner))"
    by (simp add: egress_inner_def Let_def)
  obtain out' where "Pipeline_encap_for_vni p inner (replicate 2048 0) 1 100 =
      Some (after_egress p eng False, out', Forward (50 + length inner))"
    using encap_forwards [OF p(2) hop_for_verdict(1) [OF hop, unfolded p(4)] _ _ e, of "replicate 2048 0"] len by auto
  then have "Pipeline_on_tenant_frame p inner (replicate 2048 0) 1 = Some (after_egress p eng False, out', Forward 113)"
    by (simp add: Pipeline_on_tenant_frame_def p(4) len)
  moreover have "p_stats (after_egress p eng False) = PipelineStats_default \<lparr> ps_encapped := 1 \<rparr>"
    by (simp add: after_egress_def add_encapped_def p(5) PipelineStats_default_def)
  moreover have "nat_to_string 63 = ''63''" "nat_to_string 113 = ''113''"
    by (simp_all add: nat_to_string_2 nat_to_string_3 digit_char_def char_of_def bit_0)
  ultimately show ?thesis
    unfolding selftest_def p(1) dg(1) inner_def [symmetric] by (simp add: len)
qed

lemma synth_overlay_packet_ok: "\<exists>b. synth_overlay_packet = Some b \<and> length b = 104"
proof -
  obtain inner where "udp_tenant_frame ''10.0.0.10'' ''10.0.0.20'' 40000 4242 12 = Some inner" "length inner = 54"
    using udp_frame_ip [of "replicate 12 0xab"] by (auto simp: udp_tenant_frame_def)
  then show ?thesis
    by (simp add: synth_overlay_packet_def bench_literals OVERLAY_OVERHEAD_def encap_eq Let_def overlay_len_defs)
qed

section \<open>What the arguments call for\<close>

text \<open>Stated over the words of the arguments. \<open>bench\<close>: the number of calls of each loop, a
  seventh of the first argument that is a decimal number, or of 21000000 (also when that number
  does not fit in 64 bits), at least 1.\<close>

definition bench_count :: "string list \<Rightarrow> u64" where
  "bench_count args =
     max ((case filter (\<lambda>a. a \<noteq> [] \<and> set a \<subseteq> set ''0123456789'') args of
         [] \<Rightarrow> 21000000
       | a # _ \<Rightarrow> (case from_str_radix (2 ^ 64 - 1) 10 a of None \<Rightarrow> 21000000 | Some n \<Rightarrow> of_nat n)) div 7) 1"

definition bench_answer :: "string list \<Rightarrow> sweep_row list + bench_row list" where
  "bench_answer args =
     (if ''--sweep'' \<in> set args then Inl (map forwarded_sweep sweep_targets)
      else Inr (forwarded_rows (bench_count args) 18 @ forwarded_rows (bench_count args) 1354))"

text \<open>\<open>inspect\<close>: the bytes that an even number of hexadecimal digits spell.\<close>

definition hex_digits :: "(char \<times> nat) list" where
  "hex_digits = zip ''0123456789abcdefABCDEF'' ([0..<16] @ [10..<16])"

fun spells :: "string \<Rightarrow> bytes \<Rightarrow> bool" where
  "spells (c # d # cs) (b # bs) \<longleftrightarrow>
     unat b = 16 * the (map_of hex_digits c) + the (map_of hex_digits d) \<and> spells cs bs"
| "spells cs bs \<longleftrightarrow> cs = [] \<and> bs = []"

definition inspect_answers :: "string list \<Rightarrow> 'k report cli_end \<Rightarrow> bool" where
  "inspect_answers args r \<longleftrightarrow>
     (case args of
        [] \<Rightarrow> \<exists>b ls. synth_overlay_packet = Some b \<and> length b = 104 \<and> decode_frame b 0 = Some ls \<and>
          r = Done (Inspect_report ([''(no input given '' @ em_dash @ '' decoding a synthesized Andromeda overlay packet)'', [],
            ''104 bytes'', []] @ ls))
      | hex # _ \<Rightarrow>
          let cs = filter (\<lambda>c. c \<in> set ''0123456789abcdefABCDEF'') hex in
          if cs = [] \<or> odd (length cs) then r = Exit 2
          else \<exists>b ls. spells cs b \<and> decode_frame b 0 = Some ls \<and>
            r = Done (Inspect_report ([nat_to_string (length b) @ '' bytes'', []] @ ls)))"

text \<open>\<open>run\<close> and \<open>switch\<close>: without the feature, exit code 1. Otherwise the arguments must write a list of
  settings, after the interface in the case of \<open>run\<close>, and the command ends as those settings ask.\<close>

definition run_answers :: "'k world \<Rightarrow> ('k \<Rightarrow> u64 multiset) \<Rightarrow> string list \<Rightarrow> 'k run_state cli_end \<Rightarrow> bool" where
  "run_answers w held args r \<longleftrightarrow>
     (\<not> w_afxdp w \<longrightarrow> r = Exit 1) \<and>
     (\<forall>iface ws ss. w_afxdp w \<and> args = iface # ws \<and> take 2 iface \<noteq> ''--'' \<and> writes run_takes ws ss \<longrightarrow>
        run_ends (w_api w) held (w_gc_at w) (w_ticks w) iface (choices ss) r) \<and>
     (w_afxdp w \<and> (\<nexists>iface ws ss. args = iface # ws \<and> take 2 iface \<noteq> ''--'' \<and> writes run_takes ws ss) \<longrightarrow> r = Exit 2)"

definition switch_answer :: "'k world \<Rightarrow> string list \<Rightarrow> (u64 \<times> u64 \<times> u64) cli_end \<Rightarrow> bool" where
  "switch_answer w args r \<longleftrightarrow>
     (\<not> w_afxdp w \<longrightarrow> r = Exit 1) \<and>
     (\<forall>ss. w_afxdp w \<and> writes switch_takes args ss \<longrightarrow>
        switch_answers (w_api w) (w_read_file w) (w_from_str w) (w_switch w) (choices ss) r) \<and>
     (w_afxdp w \<and> (\<nexists>ss. writes switch_takes args ss) \<longrightarrow> r = Exit 2)"

text \<open>All the commands, by the first word after the program name.\<close>

definition version_text :: "string \<Rightarrow> string" where
  "version_text v = ''andromeda '' @ v @ '' '' @ em_dash @ '' user-space VPC overlay dataplane''"

definition answers :: "'k world \<Rightarrow> ('k \<Rightarrow> u64 multiset) \<Rightarrow> string list \<Rightarrow> 'k report cli_end \<Rightarrow> bool" where
  "answers w held args r \<longleftrightarrow>
     (case args of
        [] \<Rightarrow> r = Done (Version_report (version_text (w_version w)))
      | c # rest \<Rightarrow>
          (c \<in> {''version'', ''--version''} \<longrightarrow> r = Done (Version_report (version_text (w_version w)))) \<and>
          (c \<in> {''help'', ''--help'', ''-h''} \<longrightarrow> r = Done (Help_report print_help)) \<and>
          (c = ''selftest'' \<longrightarrow>
             r = Done (Selftest_report (Inr (''encapsulated 63 inner bytes -> 113 wire bytes (VNI 100)'',
               PipelineStats_default \<lparr> ps_encapped := 1 \<rparr>)))) \<and>
          (c = ''bench'' \<longrightarrow> r = Done (Bench_report (bench_answer rest))) \<and>
          (c = ''inspect'' \<longrightarrow> inspect_answers rest r) \<and>
          (c = ''run'' \<longrightarrow> (\<exists>r'. run_answers w held rest r' \<and> r = map_cli_end Run_report r')) \<and>
          (c = ''switch'' \<longrightarrow> (\<exists>r'. switch_answer w rest r' \<and> r = map_cli_end Switch_report r')) \<and>
          (c \<notin> {''version'', ''--version'', ''help'', ''--help'', ''-h'', ''selftest'', ''bench'', ''inspect'', ''run'', ''switch''} \<longrightarrow>
             r = Exit 2))"

section \<open>The commands answer\<close>

lemma digit_chars: "map char_of ([48..<58] @ [97..<103] @ [65..<71 :: nat]) = ''0123456789abcdefABCDEF''"
  "map char_of [48..<58 :: nat] = ''0123456789''"
  by code_simp+

lemma hex_digits_eq: "list_all (\<lambda>c. to_digit 16 c = map_of hex_digits c) ''0123456789abcdefABCDEF''"
  by code_simp

lemma char_of_mem: "char_of ` set xs = set ys \<Longrightarrow> of_char c \<in> set xs \<Longrightarrow> c \<in> set ys" for xs :: "nat list"
  by (metis char_of_char imageI)

lemma hex_digits_dom: "map_of hex_digits c \<noteq> None \<longleftrightarrow> c \<in> set ''0123456789abcdefABCDEF''"
proof -
  have "map fst hex_digits = ''0123456789abcdefABCDEF''" unfolding hex_digits_def by (rule map_fst_zip) simp
  then show ?thesis by (simp only: map_of_eq_None_iff flip: set_map) simp
qed

lemma digit_table: "to_digit 16 c = map_of hex_digits c" "to_digit 10 c \<noteq> None \<longleftrightarrow> c \<in> set ''0123456789''"
proof -
  have img: "char_of ` set ([48..<58] @ [97..<103] @ [65..<71 :: nat]) = set ''0123456789abcdefABCDEF''"
    "char_of ` set [48..<58 :: nat] = set ''0123456789''"
    using arg_cong [OF digit_chars(1), of set] arg_cong [OF digit_chars(2), of set] by (simp_all only: set_map)
  show "to_digit 16 c = map_of hex_digits c"
  proof (cases "c \<in> set ''0123456789abcdefABCDEF''")
    case True
    then show ?thesis using hex_digits_eq unfolding list_all_iff by blast
  next
    case False
    then have "of_char c \<notin> set ([48..<58] @ [97..<103] @ [65..<71 :: nat])" using char_of_mem [OF img(1)] by blast
    then have "to_digit 16 c = None" unfolding set_append set_upt Un_iff atLeastLessThan_iff by (auto simp: to_digit_def Let_def)
    moreover have "map_of hex_digits c = None" using False hex_digits_dom by blast
    ultimately show ?thesis by simp
  qed
  show "to_digit 10 c \<noteq> None \<longleftrightarrow> c \<in> set ''0123456789''"
  proof
    assume "to_digit 10 c \<noteq> None"
    then have "of_char c \<in> set [48..<58 :: nat]" unfolding set_upt by (auto simp: to_digit_def Let_def split: if_splits)
    then show "c \<in> set ''0123456789''" by (rule char_of_mem [OF img(2)])
  next
    have "list_all (\<lambda>c. to_digit 10 c \<noteq> None) ''0123456789''" by code_simp
    then show "c \<in> set ''0123456789'' \<Longrightarrow> to_digit 10 c \<noteq> None" unfolding list_all_iff by blast
  qed
qed

lemma bench_count_iters: "bench_iters args = bench_count args"
proof -
  have "(\<lambda>a. a \<noteq> [] \<and> list_all is_ascii_digit a) = (\<lambda>a. a \<noteq> [] \<and> set a \<subseteq> set ''0123456789'')"
    unfolding is_ascii_digit_def digit_table(2) list_all_iff by blast
  moreover have "find P xs = (case filter P xs of [] \<Rightarrow> None | x # _ \<Rightarrow> Some x)" for P and xs :: "string list"
    by (induction xs) simp_all
  ultimately show ?thesis
    by (simp add: bench_iters_def bench_total_def bench_count_def bench_reps_def u64_from_str_def split: list.split option.split)
qed

lemma bench_cmd_answer: "bench_cmd args = Some (bench_answer args)"
  by (simp add: bench_cmd_rows bench_answer_def bench_count_iters list_ex_iff)

lemma hex_digits_ran: "map_of hex_digits c = Some n \<Longrightarrow> n < 16"
  by (drule map_of_SomeD) (auto simp: hex_digits_def dest!: set_zip_rightD)

lemma hex_digits_sign: "map_of hex_digits (CHR ''+'') = None" "map_of hex_digits (CHR ''-'') = None"
  by code_simp+

lemma hex_pairs_spells:
  assumes "even (length cs)" and "\<forall>c \<in> set cs. map_of hex_digits c \<noteq> None"
  shows "\<exists>b. hex_pairs cs = Some b \<and> spells cs b"
  using assms
proof (induction cs rule: hex_pairs.induct)
  case (3 c d cs)
  obtain x y where xy: "map_of hex_digits c = Some x" "map_of hex_digits d = Some y" using "3.prems"(2) by auto
  have lt: "x < 16" "y < 16" using xy by (auto dest: hex_digits_ran)
  have "c \<noteq> CHR ''+''" "c \<noteq> CHR ''-''" using xy(1) hex_digits_sign by auto
  then have u: "u8_from_str_radix 16 [c, d] = Some (of_nat (x * 16 + y))"
    using lt xy by (simp add: u8_from_str_radix_def from_str_radix_def digit_table(1))
  then obtain b where b: "hex_pairs cs = Some b" "spells cs b" using "3.IH" "3.prems" by auto
  have byte: "unat (of_nat n :: u8) = n" if "n < 256" for n using that by (simp add: unat_of_nat)
  have "unat (of_nat (x * 16 + y) :: u8) = x * 16 + y" by (rule byte) (use lt in simp)
  then have "unat (of_nat (x * 16 + y) :: u8) = 16 * x + y" by (simp only: mult.commute)
  then show ?case using u b xy by simp
qed simp_all

lemma inspect_cmd_answers:
  "\<exists>r. inspect_cmd args = Some r \<and> inspect_answers args (case r of Inl c \<Rightarrow> Exit c | Inr ls \<Rightarrow> Done (Inspect_report ls))"
proof (cases args)
  case Nil
  obtain b where b: "synth_overlay_packet = Some b" "length b = 104" using synth_overlay_packet_ok by blast
  obtain ls where "decode_frame b 0 = Some ls" using decode_frame_total by blast
  moreover have "nat_to_string 104 = ''104''" by code_simp
  ultimately show ?thesis unfolding Nil inspect_cmd_def inspect_answers_def em_dash_def list.case b(1) by (auto simp: b(2))
next
  case (Cons hex rest)
  have hexdigit: "is_ascii_hexdigit c \<longleftrightarrow> c \<in> set ''0123456789abcdefABCDEF''" for c
    unfolding is_ascii_hexdigit_def digit_table(1) by (rule hex_digits_dom)
  define cs where "cs = filter is_ascii_hexdigit hex"
  have cs: "cs = filter (\<lambda>c. c \<in> set ''0123456789abcdefABCDEF'') hex" unfolding cs_def hexdigit ..
  have answer: "inspect_answers args r \<longleftrightarrow> (if cs = [] \<or> odd (length cs) then r = Exit 2
      else \<exists>b ls. spells cs b \<and> decode_frame b 0 = Some ls \<and>
        r = Done (Inspect_report ([nat_to_string (length b) @ '' bytes'', []] @ ls)))" for r :: "'a report cli_end"
    unfolding Cons inspect_answers_def Let_def list.case cs [symmetric] ..
  show ?thesis
  proof (cases "cs = [] \<or> odd (length cs)")
    case True
    then show ?thesis unfolding answer by (simp add: Cons inspect_cmd_def parse_hex_def flip: cs_def)
  next
    case False
    have "\<forall>c \<in> set cs. map_of hex_digits c \<noteq> None" by (simp add: cs_def is_ascii_hexdigit_def digit_table(1))
    then obtain b where b: "hex_pairs cs = Some b" "spells cs b" using hex_pairs_spells False by blast
    obtain ls where ls: "decode_frame b 0 = Some ls" using decode_frame_total by blast
    have "parse_hex hex = Some b" using False b(1) by (simp add: parse_hex_def flip: cs_def)
    then show ?thesis unfolding answer using False b(2) ls by (auto simp: Cons inspect_cmd_def)
  qed
qed

lemma build_run_answers:
  assumes "xdp_contract (w_api w) held 4096 2048" and "\<And>O'. fresh_kernel (w_api w) held (asked_sockets O')"
  shows "\<exists>r. build_run_cmd w args = Some r \<and> run_answers w held args r"
proof (cases "w_afxdp w \<and> (\<exists>iface ws ss. args = iface # ws \<and> take 2 iface \<noteq> ''--'' \<and> writes run_takes ws ss)")
  case True
  then obtain iface ws ss where a: "args = iface # ws" "take 2 iface \<noteq> ''--''" "writes run_takes ws ss" by blast
  obtain d where d: "default_opts = Some d" using default_opts_Some by blast
  have read: "run_options ws d = Inr (choices ss')" if "writes run_takes ws ss'" for ss' using options_choices(1) [OF d that] .
  from run_cmd_ends [OF assms a(2) d read [OF a(3)]] obtain r where
    r: "run_cmd (w_api w) args (w_gc_at w) (w_ticks w) = Some r"
      "run_ends (w_api w) held (w_gc_at w) (w_ticks w) iface (choices ss) r" unfolding a(1) by blast
  have "choices ss' = choices ss" if "writes run_takes ws ss'" for ss' using read [OF that] read [OF a(3)] by simp
  then have "run_ends (w_api w) held (w_gc_at w) (w_ticks w) iface' (choices ss') r"
    if "args = iface' # ws'" "writes run_takes ws' ss'" for iface' ws' ss' using that a(1) r(2) by auto
  then have "run_answers w held args r" using True unfolding run_answers_def by blast
  then show ?thesis using True r(1) by (simp add: build_run_cmd_def)
next
  case False
  obtain d where d: "default_opts = Some d" using default_opts_Some by blast
  have "run_cmd api args gc_at ts = Some (Exit 2)" if "w_afxdp w" for api :: "'a xdp_api" and gc_at ts
  proof (cases args)
    case (Cons iface ws)
    then have "take 2 iface = ''--'' \<or> run_options ws d = Inl 2"
      using False that options_choices(2) [OF d, of ws] by blast
    then show ?thesis by (auto simp: Cons run_cmd_def d)
  qed (simp add: run_cmd_def)
  then show ?thesis using False unfolding build_run_cmd_def run_answers_def by (cases "w_afxdp w") (simp_all only: if_True if_False, blast+)
qed

lemma build_switch_answers:
  assumes "xdp_contract (w_api w) held 4096 2048" and "\<And>O'. fresh_kernel (w_api w) held (asked_sockets O')"
  shows "\<exists>r. build_switch_cmd w args = Some r \<and> switch_answer w args r"
proof (cases "w_afxdp w \<and> (\<exists>ss. writes switch_takes args ss)")
  case True
  then obtain ss where a: "writes switch_takes args ss" by blast
  obtain d where d: "default_opts = Some d" using default_opts_Some by blast
  have read: "switch_options args d = Inr (choices ss')" if "writes switch_takes args ss'" for ss' using options_choices(3) [OF d that] .
  from switch_cmd_answers [OF assms d read [OF a]] obtain r where
    r: "switch_cmd (w_api w) (w_read_file w) (w_from_str w) (w_switch w) args = Some r"
      "switch_answers (w_api w) (w_read_file w) (w_from_str w) (w_switch w) (choices ss) r" by blast
  have "choices ss' = choices ss" if "writes switch_takes args ss'" for ss' using read [OF that] read [OF a] by simp
  then have "switch_answers (w_api w) (w_read_file w) (w_from_str w) (w_switch w) (choices ss') r"
    if "writes switch_takes args ss'" for ss' using that r(2) by auto
  then have "switch_answer w args r" using True unfolding switch_answer_def by blast
  then show ?thesis using True r(1) by (simp add: build_switch_cmd_def)
next
  case False
  obtain d where d: "default_opts = Some d" using default_opts_Some by blast
  have "switch_cmd api f g env args = Some (Exit 2)" if "w_afxdp w" for api :: "'a xdp_api" and f g env
    using False that options_choices(4) [OF d, of args] by (simp add: switch_cmd_def d)
  then show ?thesis using False unfolding build_switch_cmd_def switch_answer_def by (cases "w_afxdp w") (simp_all only: if_True if_False, blast+)
qed

section \<open>The executable\<close>

lemma main_prog_answers:
  fixes w :: "'k world"
  assumes utf8: "list_all utf8_valid argv"
    and api: "xdp_contract (w_api w) held 4096 2048" "\<And>O'. fresh_kernel (w_api w) held (asked_sockets O')"
  shows "\<exists>r. main_prog w argv = Some r \<and> answers w held (drop 1 argv) r"
proof (cases "drop 1 argv")
  case Nil
  then show ?thesis using utf8 by (simp add: main_prog_def main_command_def answers_def print_version_def version_text_def)
next
  case (Cons c rest)
  obtain ri where ri: "inspect_cmd rest = Some ri"
    "inspect_answers rest ((case ri of Inl c \<Rightarrow> Exit c | Inr ls \<Rightarrow> Done (Inspect_report ls)) :: 'k report cli_end)"
    using inspect_cmd_answers by blast
  obtain rr where rr: "build_run_cmd w rest = Some rr" "run_answers w held rest rr" using build_run_answers [OF api] by blast
  obtain rs where rs: "build_switch_cmd w rest = Some rs" "switch_answer w rest rs" using build_switch_answers [OF api] by blast
  have "c \<in> {''version'', ''--version''} \<or> c \<in> {''help'', ''--help'', ''-h''} \<or> c = ''selftest'' \<or> c = ''bench'' \<or> c = ''inspect'' \<or>
      c = ''run'' \<or> c = ''switch'' \<or>
      c \<notin> {''version'', ''--version'', ''help'', ''--help'', ''-h'', ''selftest'', ''bench'', ''inspect'', ''run'', ''switch''}"
    unfolding insert_iff empty_iff by argo
  then consider "c \<in> {''version'', ''--version''}" | "c \<in> {''help'', ''--help'', ''-h''}" | "c = ''selftest''" | "c = ''bench''"
    | "c = ''inspect''" | "c = ''run''" | "c = ''switch''"
    | "c \<notin> {''version'', ''--version'', ''help'', ''--help'', ''-h'', ''selftest'', ''bench'', ''inspect'', ''run'', ''switch''}"
    by (elim disjE)
  then show ?thesis
  proof cases
    case 1
    then show ?thesis using utf8 Cons
      by (elim insertE emptyE) (simp_all add: main_prog_def main_command_def answers_def print_version_def version_text_def)
  next
    case 2
    then show ?thesis using utf8 Cons
      by (elim insertE emptyE) (simp_all add: main_prog_def main_command_def answers_def)
  next
    case 3
    then show ?thesis using utf8 Cons by (simp add: main_prog_def main_command_def answers_def selftest_ok)
  next
    case 4
    then show ?thesis using utf8 Cons by (simp add: main_prog_def main_command_def answers_def bench_cmd_answer)
  next
    case 5
    then show ?thesis using utf8 Cons ri by (simp add: main_prog_def main_command_def answers_def)
  next
    case 6
    then show ?thesis using utf8 Cons rr by (auto simp: main_prog_def main_command_def answers_def)
  next
    case 7
    then show ?thesis using utf8 Cons rs by (auto simp: main_prog_def main_command_def answers_def)
  next
    case 8
    then show ?thesis using utf8 Cons by (simp add: main_prog_def main_command_def answers_def)
  qed
qed

text \<open>C29: the executable does what its arguments call for. In a build with the feature \<open>afxdp\<close> or
  without it, for any files, traffic and reloads, and as long as standard output accepts what it
  prints, \<open>main\<close> panics exactly when one of its arguments is not UTF-8. Otherwise the first word
  selects the command: no word, \<open>version\<close> or \<open>--version\<close> prints the version; \<open>help\<close>, \<open>--help\<close> or
  \<open>-h\<close> the help; a word that is no command exits with code 2. The self test encapsulates its frame.
  \<open>bench\<close> makes as many forwarding calls as its number asks for. \<open>inspect\<close> decodes the bytes its
  hexadecimal digits spell, and exits with code 2 when there are none or an odd number of them.
  \<open>run\<close> and \<open>switch\<close> exit with code 1 in a build without the feature, and with code 2 when their
  arguments do not write a list of settings, or lack an interface, or the configuration does not load.
  Otherwise each value is that of the last setting that names it, or its default; the commands open
  the sockets, build the pipeline and run the loop that these values describe. They exit with
  code 1 when the control socket cannot be bound or, except in a worker, a socket cannot be opened;
  they go on only while some loop has seen no stop request; and they end with every frame of the
  socket (\<open>run\<close>) or every received frame (\<open>switch\<close>) accounted for.\<close>

theorem main_prog_outcome:
  assumes "xdp_contract (w_api w) held 4096 2048" and "\<And>O'. fresh_kernel (w_api w) held (asked_sockets O')"
  shows "if \<forall>a \<in> set argv. \<exists>cs. encodes cs a then \<exists>r. main_prog w argv = Some r \<and> answers w held (drop 1 argv) r
    else main_prog w argv = None"
proof (cases "list_all utf8_valid argv")
  case True
  then have u: "\<forall>a \<in> set argv. \<exists>cs. encodes cs a" by (simp add: list_all_iff utf8_valid_iff)
  show ?thesis unfolding if_P [OF u] by (rule main_prog_answers [OF True assms])
next
  case False
  then have u: "\<not> (\<forall>a \<in> set argv. \<exists>cs. encodes cs a)" by (simp add: list_all_iff utf8_valid_iff)
  show ?thesis unfolding if_not_P [OF u] by (simp add: main_prog_def False)
qed

text \<open>Over a kernel that meets its contract: an argument that is the byte FF panics; \<open>inspect zz\<close> exits
  with code 2; \<open>switch\<close> without interfaces exits with code 2, in a build without the feature with
  code 1; with two interfaces it forwards until its stop.\<close>

definition sample_world :: "bool \<Rightarrow> sim_kernel world" where
  "sample_world afxdp =
     \<lparr> w_version = ''0.2.2'', w_afxdp = afxdp, w_api = sim_api 2048 [sample_frame], w_read_file = \<lambda>_ _. Inl [],
       w_from_str = \<lambda>_. Inl [], w_switch = \<lparr> se_bind = \<lambda>_. True, se_worker = \<lambda>_. (None, 0, [sample_tick False, sample_tick True]) \<rparr>,
       w_gc_at = 0, w_ticks = [sample_tick False, sample_tick True] \<rparr>"

definition sample_words :: "string list" where
  "sample_words = [''andromeda'', ''switch'', ''inspect'', ''zz'', ''--tenant'', ''tap0'', ''--underlay'', ''eth0'']"

lemma sample_utf8: "a \<in> set sample_words \<Longrightarrow> \<exists>cs. encodes cs a"
proof -
  have "list_all utf8_valid sample_words" by code_simp
  then show "a \<in> set sample_words \<Longrightarrow> \<exists>cs. encodes cs a" unfolding list_all_iff using utf8_valid_iff by blast
qed

lemma sample_settings:
  "writes switch_takes [] []"
  "writes switch_takes [''--tenant'', ''tap0'', ''--underlay'', ''eth0''] [Set_tenant ''tap0'', Set_underlay ''eth0'']"
proof -
  have "list_all2 written [Set_tenant ''tap0'', Set_underlay ''eth0''] [[''--tenant'', ''tap0''], [''--underlay'', ''eth0'']]" by simp
  then show "writes switch_takes [''--tenant'', ''tap0'', ''--underlay'', ''eth0''] [Set_tenant ''tap0'', Set_underlay ''eth0'']"
    unfolding writes_def by (intro conjI exI) (simp, assumption, simp)
qed (simp add: writes_def)

lemma loop_resultD:
  "(case x of None \<Rightarrow> False | Some (Inl st) \<Rightarrow> P st | Some (Inr st) \<Rightarrow> Q st) \<Longrightarrow>
    (\<exists>st. x = Some (Inl st) \<and> P st) \<or> (\<exists>st. x = Some (Inr st) \<and> Q st)"
  by (auto split: option.splits sum.splits)

theorem main_prog_outcome_witness:
  "main_prog (sample_world True) [''andromeda'', [CHR 0xFF]] = None \<and>
   main_prog (sample_world True) [''andromeda'', ''switch''] = Some (Exit 2) \<and>
   main_prog (sample_world False) [''andromeda'', ''switch''] = Some (Exit 1) \<and>
   main_prog (sample_world True) [''andromeda'', ''inspect'', ''zz''] = Some (Exit 2) \<and>
   (\<exists>rx tx dr. main_prog (sample_world True) [''andromeda'', ''switch'', ''--tenant'', ''tap0'', ''--underlay'', ''eth0''] =
      Some (Done (Switch_report (rx, tx, dr))) \<and> rx = tx + dr)"
proof (intro conjI)
  have hyp: "xdp_contract (w_api (sample_world b)) sim_held 4096 2048" "fresh_kernel (w_api (sample_world b)) sim_held (asked_sockets O')"
    for b O' by (simp_all add: sample_world_def sim_command_contract sim_fresh)
  note out = main_prog_outcome [of _ sim_held, OF hyp]
  have run: "\<exists>r. main_prog (sample_world b) (''andromeda'' # args) = Some r \<and> answers (sample_world b) sim_held args r"
    if "set (''andromeda'' # args) \<subseteq> set sample_words" for b args
  proof -
    have u: "\<forall>a \<in> set (''andromeda'' # args). \<exists>cs. encodes cs a" using that sample_utf8 by blast
    show ?thesis using out [of "''andromeda'' # args" b] unfolding if_P [OF u] by simp
  qed
  have "\<not> utf8_valid [CHR 0xFF]" by code_simp
  then show "main_prog (sample_world True) [''andromeda'', [CHR 0xFF]] = None"
    using out [of "[''andromeda'', [CHR 0xFF]]" True] by (simp add: utf8_valid_iff split: if_splits)
  have choice: "co_tenant (choices []) = None" by (simp add: choices_def chosen_simps)
  show "main_prog (sample_world True) [''andromeda'', ''switch''] = Some (Exit 2)"
    using run [of "[''switch'']" True] sample_settings(1) choice
    by (auto simp: sample_words_def answers_def switch_answer_def switch_answers_def sample_world_def)
  show "main_prog (sample_world False) [''andromeda'', ''switch''] = Some (Exit 1)"
    using run [of "[''switch'']" False] by (auto simp: sample_words_def answers_def switch_answer_def sample_world_def)
  show "main_prog (sample_world True) [''andromeda'', ''inspect'', ''zz''] = Some (Exit 2)"
    using run [of "[''inspect'', ''zz'']" True] by (auto simp: sample_words_def answers_def inspect_answers_def)
  show "\<exists>rx tx dr. main_prog (sample_world True) [''andromeda'', ''switch'', ''--tenant'', ''tap0'', ''--underlay'', ''eth0''] =
      Some (Done (Switch_report (rx, tx, dr))) \<and> rx = tx + dr"
  proof -
    let ?w = "sample_world True" and ?args = "[''--tenant'', ''tap0'', ''--underlay'', ''eth0'']"
    let ?O = "choices [Set_tenant ''tap0'', Set_underlay ''eth0'']"
    have o: "co_tenant ?O = Some ''tap0''" "co_underlay ?O = Some ''eth0''" "co_config ?O = None" "co_control ?O = None" "co_queues ?O = 1"
      by (simp_all add: choices_def chosen_def List.map_filter_def)
    obtain r where r: "main_prog ?w (''andromeda'' # ''switch'' # ?args) = Some (map_cli_end Switch_report r)" "switch_answer ?w ?args r"
      using run [of "''switch'' # ?args" True] by (auto simp: sample_words_def answers_def)
    then have ans: "switch_answers (w_api ?w) (w_read_file ?w) (w_from_str ?w) (w_switch ?w) ?O r"
      using sample_settings(2) by (simp add: switch_answer_def sample_world_def)
    have open_ok: "\<exists>k. XskSocket_open (w_api ?w) i 0 (asked_sockets ?O) = Inr k" if "CHR 0x00 \<notin> set i" for i
      using that by (simp add: XskSocket_open_def sim_api_def Let_def sample_world_def asked_sockets_def)
    obtain t u where "XskSocket_open (w_api ?w) ''tap0'' 0 (asked_sockets ?O) = Inr t"
      "XskSocket_open (w_api ?w) ''eth0'' 0 (asked_sockets ?O) = Inr u"
      using open_ok [of "''tap0''"] open_ok [of "''eth0''"] by auto
    moreover have "list_ex tk_stop (snd (snd (se_worker (w_switch ?w) 0)))" by (simp add: sample_world_def sample_tick_def)
    ultimately have "\<exists>all. totals_end all r"
      using ans by (auto simp: switch_answers_def switch_ends_def asked_node_def o dest!: loop_resultD)
    then show ?thesis using r(1) by (auto simp: totals_end_def)
  qed
qed

end
