(* ===== verification/Xsk_Shim.thy ===== *)
theory Xsk_Shim
  imports Afxdp_Props
begin

text \<open>
  The C shim \<open>andromeda-dataplane/csrc/xsk_shim.c\<close> between the socket of \<open>afxdp.rs\<close> and libxdp:
  opening with its fallback to copy mode and the release of what a failure leaves behind, and
  the four ring operations. libxdp and the C library are parameters (\<open>libxdp\<close>, \<open>lib_open\<close>).
  \<open>libxdp_contract\<close> states the documented protocol of the rings, and the shim over any library
  that keeps it is a kernel interface that meets \<open>xdp_contract\<close>, the hypothesis of the driver.
  A read or write past the end of an argument array, or a second \<open>free\<close>, is \<open>None\<close>.
\<close>

section \<open>The library\<close>

text \<open>The inline functions of \<open>xdp/xsk.h\<close> on the state of the rings and the kernel: on a producer ring
  \<open>reserve\<close> (how many slots, and the index of the first), writing a slot, \<open>submit\<close>; on a consumer
  ring \<open>peek\<close>, reading a slot, \<open>release\<close>. What is received is visible in the UMEM at \<open>peek\<close>.\<close>

record 'k libxdp =
  lx_fill_reserve :: "'k \<Rightarrow> u32 \<Rightarrow> u32 \<times> u32 \<times> 'k"
  lx_fill_addr :: "'k \<Rightarrow> u32 \<Rightarrow> u64 \<Rightarrow> 'k"
  lx_fill_submit :: "'k \<Rightarrow> u32 \<Rightarrow> 'k"
  lx_tx_reserve :: "'k \<Rightarrow> u32 \<Rightarrow> u32 \<times> u32 \<times> 'k"
  lx_tx_desc :: "'k \<Rightarrow> u32 \<Rightarrow> u64 \<times> u32 \<times> u32 \<Rightarrow> 'k"
  lx_tx_submit :: "'k \<Rightarrow> u32 \<Rightarrow> 'k"
  lx_rx_peek :: "'k \<Rightarrow> bytes \<Rightarrow> u32 \<Rightarrow> u32 \<times> u32 \<times> 'k \<times> bytes"
  lx_rx_desc :: "'k \<Rightarrow> u32 \<Rightarrow> u64 \<times> u32"
  lx_rx_release :: "'k \<Rightarrow> u32 \<Rightarrow> 'k"
  lx_comp_peek :: "'k \<Rightarrow> u32 \<Rightarrow> u32 \<times> u32 \<times> 'k"
  lx_comp_addr :: "'k \<Rightarrow> u32 \<Rightarrow> u64"
  lx_comp_release :: "'k \<Rightarrow> u32 \<Rightarrow> 'k"
  lx_tx_needs_wakeup :: "'k \<Rightarrow> bool"
  lx_sendto :: "'k \<Rightarrow> 'k \<times> int"

section \<open>The ring operations\<close>

text \<open>The loop that fills the reserved slots from an array, and the one that copies slots out to an
  array of length \<open>cap\<close>.\<close>

fun put_loop :: "('k \<Rightarrow> u32 \<Rightarrow> 'e \<Rightarrow> 'k) \<Rightarrow> u32 \<Rightarrow> 'e list \<Rightarrow> 'k \<Rightarrow> nat \<Rightarrow> nat \<Rightarrow> 'k option" where
  "put_loop poke idx xs k i 0 = Some k"
| "put_loop poke idx xs k i (Suc r) =
     (if i < length xs then put_loop poke idx xs (poke k (idx + of_nat i) (xs ! i)) (Suc i) r else None)"

fun get_loop :: "(u32 \<Rightarrow> 'e) \<Rightarrow> u32 \<Rightarrow> nat \<Rightarrow> nat \<Rightarrow> nat \<Rightarrow> 'e list option" where
  "get_loop get idx cap i 0 = Some []"
| "get_loop get idx cap i (Suc r) =
     (if i < cap then do { xs \<leftarrow> get_loop get idx cap (Suc i) r; Some (get (idx + of_nat i) # xs) } else None)"

definition ring_push ::
    "('k \<Rightarrow> u32 \<Rightarrow> u32 \<times> u32 \<times> 'k) \<Rightarrow> ('k \<Rightarrow> u32 \<Rightarrow> 'e \<Rightarrow> 'k) \<Rightarrow> ('k \<Rightarrow> u32 \<Rightarrow> 'k) \<Rightarrow> 'k \<Rightarrow> 'e list \<Rightarrow> u32 \<Rightarrow> (u32 \<times> 'k) option" where
  "ring_push reserve poke submit k xs n =
     (case reserve k n of (got, idx, k) \<Rightarrow> do {
        k \<leftarrow> put_loop poke idx xs k 0 (unat got);
        Some (got, if got \<noteq> 0 then submit k got else k) })"

definition ring_take ::
    "('k \<Rightarrow> u32 \<Rightarrow> u32 \<times> u32 \<times> 'k) \<Rightarrow> ('k \<Rightarrow> u32 \<Rightarrow> 'e) \<Rightarrow> ('k \<Rightarrow> u32 \<Rightarrow> 'k) \<Rightarrow> 'k \<Rightarrow> nat \<Rightarrow> ('e list \<times> 'k) option" where
  "ring_take peek get release k cap =
     (case peek k (of_nat cap) of (got, idx, k) \<Rightarrow> do {
        xs \<leftarrow> get_loop (get k) idx cap 0 (unat got);
        Some (xs, if got \<noteq> 0 then release k got else k) })"

definition andro_fq_push :: "'k libxdp \<Rightarrow> 'k \<Rightarrow> u64 list \<Rightarrow> u32 \<Rightarrow> (u32 \<times> 'k) option" where
  "andro_fq_push lib = ring_push (lx_fill_reserve lib) (lx_fill_addr lib) (lx_fill_submit lib)"

text \<open>The arrays of addresses and lengths are one list of pairs; \<open>options\<close> is 0.\<close>

definition andro_tx_push :: "'k libxdp \<Rightarrow> 'k \<Rightarrow> (u64 \<times> u32) list \<Rightarrow> u32 \<Rightarrow> (u32 \<times> 'k) option" where
  "andro_tx_push lib = ring_push (lx_tx_reserve lib) (\<lambda>k i (a, l). lx_tx_desc lib k i (a, l, 0)) (lx_tx_submit lib)"

text \<open>Receiving with the treatment \<open>f\<close> of a descriptor; the arrays have room for \<open>cap\<close>.\<close>

definition rx_take :: "(u64 \<times> u32 \<Rightarrow> 'e) \<Rightarrow> 'k libxdp \<Rightarrow> 'k \<Rightarrow> bytes \<Rightarrow> nat \<Rightarrow> ('e list \<times> 'k \<times> bytes) option" where
  "rx_take f lib k area cap =
     (case lx_rx_peek lib k area (of_nat cap) of (got, idx, k, area) \<Rightarrow> do {
        xs \<leftarrow> get_loop (\<lambda>i. f (lx_rx_desc lib k i)) idx cap 0 (unat got);
        Some (xs, if got \<noteq> 0 then lx_rx_release lib k got else k, area) })"

definition andro_rx_peek :: "u32 \<Rightarrow> u32 \<Rightarrow> 'k libxdp \<Rightarrow> 'k \<Rightarrow> bytes \<Rightarrow> nat \<Rightarrow> ((u64 \<times> u32) list \<times> 'k \<times> bytes) option" where
  "andro_rx_peek n_frames frame_size = rx_take (rx_desc n_frames frame_size)"

definition andro_cq_collect :: "'k libxdp \<Rightarrow> 'k \<Rightarrow> nat \<Rightarrow> (u64 list \<times> 'k) option" where
  "andro_cq_collect lib = ring_take (lx_comp_peek lib) (lx_comp_addr lib) (lx_comp_release lib)"

definition andro_kick_tx :: "'k libxdp \<Rightarrow> 'k \<Rightarrow> 'k \<times> int" where
  "andro_kick_tx lib k = (case lx_sendto lib k of (k, r) \<Rightarrow> (k, if r < 0 then r else 0))"

section \<open>Opening and closing\<close>

text \<open>What the shim owns: the structure, the UMEM area, the UMEM and the socket of libxdp. Releasing what
  is not owned is \<open>None\<close>.\<close>

datatype c_res = R_struct | R_area | R_umem | R_xsk

definition c_free :: "c_res \<Rightarrow> c_res list \<Rightarrow> c_res list option" where
  "c_free r h = (if r \<in> set h then Some (remove1 r h) else None)"

record umem_config =
  uc_fill_size :: u32
  uc_comp_size :: u32
  uc_frame_size :: u32

record socket_config =
  sc_rx_size :: u32
  sc_tx_size :: u32
  sc_xdp_flags :: xdp_mode
  sc_zerocopy :: bool

text \<open>The outcomes of \<open>calloc\<close> and \<open>posix_memalign\<close> (an errno when it fails), and the creation of the
  UMEM and of the socket, each an errno or the object.\<close>

record ('u, 'k) lib_open =
  lo_calloc :: bool
  lo_memalign :: "u64 \<Rightarrow> nat option"
  lo_umem_create :: "u64 \<Rightarrow> umem_config \<Rightarrow> nat + 'u"
  lo_socket_create :: "'u \<Rightarrow> string \<Rightarrow> u32 \<Rightarrow> socket_config \<Rightarrow> 'u \<times> (nat + 'k)"
  lo_fd :: "'k \<Rightarrow> int"

record 'k andro_xsk =
  ax_lib :: 'k
  ax_frame_size :: u32
  ax_n_frames :: u32
  ax_fd :: int
  ax_zc_bound :: bool

definition ENOMEM :: nat where "ENOMEM = 12"

definition EINVAL :: nat where "EINVAL = 22"

text \<open>The flags of the first attempt: zero-copy needs the native mode when none is forced.\<close>

definition first_flags :: "xdp_mode \<Rightarrow> bool \<Rightarrow> xdp_mode" where
  "first_flags m zerocopy = (case m of Skb \<Rightarrow> Skb | Drv \<Rightarrow> Drv | Auto \<Rightarrow> if zerocopy then Drv else Auto)"

text \<open>Binding: a zero-copy attempt that fails is followed by one in copy mode with no flags.\<close>

definition andro_bind ::
    "('u, 'k) lib_open \<Rightarrow> 'u \<Rightarrow> string \<Rightarrow> u32 \<Rightarrow> xsk_config \<Rightarrow> 'u \<times> (nat + 'k) \<times> bool" where
  "andro_bind lo u ifname queue_id cfg =
     (let zerocopy = xc_zerocopy cfg;
          scfg = \<lparr> sc_rx_size = xc_rx_size cfg, sc_tx_size = xc_tx_size cfg,
            sc_xdp_flags = first_flags (xc_xdp_mode cfg) zerocopy, sc_zerocopy = zerocopy \<rparr>;
          (u, r) = lo_socket_create lo u ifname queue_id scfg in
      (case r of
         Inl _ \<Rightarrow>
           if zerocopy then
             (case lo_socket_create lo u ifname queue_id (scfg \<lparr> sc_xdp_flags := Auto, sc_zerocopy := False \<rparr>) of
                (u, r) \<Rightarrow> (u, r, False))
           else (u, r, False)
       | Inr _ \<Rightarrow> (u, r, zerocopy)))"

definition andro_xsk_open ::
    "('u, 'k) lib_open \<Rightarrow> string \<Rightarrow> u32 \<Rightarrow> xsk_config \<Rightarrow> c_res list \<Rightarrow> (c_res list \<times> (nat + 'k andro_xsk)) option" where
  "andro_xsk_open lo ifname queue_id cfg h =
     (if \<not> lo_calloc lo then Some (h, Inl ENOMEM)
      else
        let h = R_struct # h in
        if xc_frame_size cfg = 0 then do { h \<leftarrow> c_free R_struct h; Some (h, Inl EINVAL) }
        else
          let area_sz = ucast (xc_n_frames cfg) * ucast (xc_frame_size cfg) in
          (case lo_memalign lo area_sz of
             Some rc \<Rightarrow> do { h \<leftarrow> c_free R_struct h; Some (h, Inl rc) }
           | None \<Rightarrow>
               let h = R_area # h in
               (case lo_umem_create lo area_sz \<lparr> uc_fill_size = xc_fill_size cfg, uc_comp_size = xc_comp_size cfg,
                    uc_frame_size = xc_frame_size cfg \<rparr> of
                  Inl err \<Rightarrow> do { h \<leftarrow> c_free R_area h; h \<leftarrow> c_free R_struct h; Some (h, Inl err) }
                | Inr u \<Rightarrow>
                    let h = R_umem # h in
                    (case andro_bind lo u ifname queue_id cfg of
                       (u, Inl err, _) \<Rightarrow> do {
                         h \<leftarrow> c_free R_umem h; h \<leftarrow> c_free R_area h; h \<leftarrow> c_free R_struct h;
                         Some (h, Inl err) }
                     | (u, Inr k, zc) \<Rightarrow>
                         Some (R_xsk # h, Inr \<lparr> ax_lib = k, ax_frame_size = xc_frame_size cfg,
                           ax_n_frames = xc_n_frames cfg, ax_fd = lo_fd lo k, ax_zc_bound = zc \<rparr>)))))"

text \<open>Closing a socket that was opened: its four pointers are set.\<close>

definition andro_xsk_close :: "c_res list \<Rightarrow> c_res list option" where
  "andro_xsk_close h = do {
     h \<leftarrow> c_free R_xsk h;
     h \<leftarrow> c_free R_umem h;
     h \<leftarrow> c_free R_area h;
     c_free R_struct h }"

section \<open>The shim as the kernel interface of the driver\<close>

text \<open>The clamping of received descriptors is part of \<open>XskSocket_rx_burst\<close>; \<open>rx_burst_through_shim\<close>
  shows that the socket sees what \<open>andro_rx_peek\<close> returns. A \<open>None\<close> of the shim becomes ``nothing
  done'' here; \<open>shim_meets_contract\<close> shows that there is none.\<close>

definition shim_api :: "('u, 'k) lib_open \<Rightarrow> 'k libxdp \<Rightarrow> 'k xdp_api" where
  "shim_api lo lib =
     \<lparr> xk_create = (\<lambda>ifname q cfg. case andro_xsk_open lo ifname q cfg [] of
           Some (_, Inr x) \<Rightarrow> Inr (ax_lib x, ax_fd x, ax_zc_bound x)
         | Some (_, Inl err) \<Rightarrow> Inl err
         | None \<Rightarrow> Inl 0),
       xk_fill = (\<lambda>k addrs. case andro_fq_push lib k addrs (of_nat (length addrs)) of
           Some (got, k') \<Rightarrow> (unat got, k') | None \<Rightarrow> (0, k)),
       xk_rx = (\<lambda>k area limit. case rx_take id lib k area limit of Some r \<Rightarrow> r | None \<Rightarrow> ([], k, area)),
       xk_tx = (\<lambda>k ds. case andro_tx_push lib k ds (of_nat (length ds)) of
           Some (got, k') \<Rightarrow> (unat got, k') | None \<Rightarrow> (0, k)),
       xk_comp = (\<lambda>k limit. case andro_cq_collect lib k limit of Some r \<Rightarrow> r | None \<Rightarrow> ([], k)),
       xk_kick = (\<lambda>k. if lx_tx_needs_wakeup lib k then fst (andro_kick_tx lib k) else k) \<rparr>"

section \<open>The protocol of the rings\<close>

text \<open>What libxdp documents of its rings, in terms of the slots that are reserved (or peeked) and not
  yet submitted (or released), with the index of the first, and of the frames the kernel holds.
  Reserving gives all the slots asked for or none; submitting hands their contents to the
  kernel; peeking gives at most what was asked for; releasing takes the contents back.
  \<open>others\<close> says that no slot of another ring is open (and, for the RX ring, that the kernel holds
  only frames of the UMEM, none twice).\<close>

definition producer_ring ::
    "('k \<Rightarrow> u32 \<Rightarrow> u32 \<times> u32 \<times> 'k) \<Rightarrow> ('k \<Rightarrow> u32 \<Rightarrow> 'e \<Rightarrow> 'k) \<Rightarrow> ('k \<Rightarrow> u32 \<Rightarrow> 'k) \<Rightarrow> ('e \<Rightarrow> u64) \<Rightarrow>
     ('k \<Rightarrow> u64 multiset) \<Rightarrow> ('k \<Rightarrow> 'e list) \<Rightarrow> ('k \<Rightarrow> u32) \<Rightarrow> ('k \<Rightarrow> bool) \<Rightarrow> bool" where
  "producer_ring reserve poke submit frame held win at others \<longleftrightarrow>
     (\<forall>k n got idx k'. win k = [] \<longrightarrow> others k \<longrightarrow> reserve k n = (got, idx, k') \<longrightarrow>
        (got = 0 \<or> got = n) \<and> length (win k') = unat got \<and> at k' = idx \<and> held k' = held k \<and> others k') \<and>
     (\<forall>k i v. length (win k) < 2 ^ 32 \<longrightarrow> i < length (win k) \<longrightarrow> others k \<longrightarrow>
        (let k' = poke k (at k + of_nat i) v in
           win k' = (win k)[i := v] \<and> at k' = at k \<and> held k' = held k \<and> others k')) \<and>
     (\<forall>k. length (win k) < 2 ^ 32 \<longrightarrow> others k \<longrightarrow>
        (let k' = submit k (of_nat (length (win k))) in
           win k' = [] \<and> held k' = held k + mset (map frame (win k)) \<and> others k'))"

definition consumer_ring ::
    "('k \<Rightarrow> u32 \<Rightarrow> u32 \<times> u32 \<times> 'k) \<Rightarrow> ('k \<Rightarrow> u32 \<Rightarrow> 'e) \<Rightarrow> ('k \<Rightarrow> u32 \<Rightarrow> 'k) \<Rightarrow> ('e \<Rightarrow> u64) \<Rightarrow>
     ('k \<Rightarrow> u64 multiset) \<Rightarrow> ('k \<Rightarrow> 'e list) \<Rightarrow> ('k \<Rightarrow> u32) \<Rightarrow> ('k \<Rightarrow> bool) \<Rightarrow> bool" where
  "consumer_ring peek get release frame held win at others \<longleftrightarrow>
     (\<forall>k n got idx k'. win k = [] \<longrightarrow> others k \<longrightarrow> peek k n = (got, idx, k') \<longrightarrow>
        got \<le> n \<and> length (win k') = unat got \<and> at k' = idx \<and> held k' = held k \<and> others k') \<and>
     (\<forall>k i. length (win k) < 2 ^ 32 \<longrightarrow> i < length (win k) \<longrightarrow> get k (at k + of_nat i) = win k ! i) \<and>
     (\<forall>k. length (win k) < 2 ^ 32 \<longrightarrow> others k \<longrightarrow>
        (let k' = release k (of_nat (length (win k))) in
           win k' = [] \<and> held k = held k' + mset (map frame (win k)) \<and> others k'))"

record 'k ring_view =
  rv_fill :: "'k \<Rightarrow> u64 list"
  rv_fill_at :: "'k \<Rightarrow> u32"
  rv_tx :: "'k \<Rightarrow> (u64 \<times> u32 \<times> u32) list"
  rv_tx_at :: "'k \<Rightarrow> u32"
  rv_rx :: "'k \<Rightarrow> (u64 \<times> u32) list"
  rv_rx_at :: "'k \<Rightarrow> u32"
  rv_comp :: "'k \<Rightarrow> u64 list"
  rv_comp_at :: "'k \<Rightarrow> u32"
  rv_held :: "'k \<Rightarrow> u64 multiset"

text \<open>No slot of any ring is open.\<close>

definition rings_idle :: "'k ring_view \<Rightarrow> 'k \<Rightarrow> bool" where
  "rings_idle v k \<longleftrightarrow> rv_fill v k = [] \<and> rv_tx v k = [] \<and> rv_rx v k = [] \<and> rv_comp v k = []"

definition libxdp_contract :: "'k libxdp \<Rightarrow> 'k ring_view \<Rightarrow> u32 \<Rightarrow> u32 \<Rightarrow> bool" where
  "libxdp_contract lib v n fs \<longleftrightarrow>
     producer_ring (lx_fill_reserve lib) (lx_fill_addr lib) (lx_fill_submit lib) id (rv_held v) (rv_fill v) (rv_fill_at v)
       (\<lambda>k. rv_tx v k = [] \<and> rv_rx v k = [] \<and> rv_comp v k = []) \<and>
     producer_ring (lx_tx_reserve lib) (lx_tx_desc lib) (lx_tx_submit lib) fst (rv_held v) (rv_tx v) (rv_tx_at v)
       (\<lambda>k. rv_fill v k = [] \<and> rv_rx v k = [] \<and> rv_comp v k = []) \<and>
     (\<forall>area. consumer_ring (\<lambda>k max. case lx_rx_peek lib k area max of (got, idx, k', _) \<Rightarrow> (got, idx, k'))
       (lx_rx_desc lib) (lx_rx_release lib) (\<lambda>(a, l). frame_base fs a) (rv_held v) (rv_rx v) (rv_rx_at v)
       (\<lambda>k. rv_fill v k = [] \<and> rv_tx v k = [] \<and> rv_comp v k = [] \<and> rv_held v k \<subseteq># mset (umem_frames n fs))) \<and>
     (\<forall>k area max got idx k' area'. rings_idle v k \<longrightarrow> rv_held v k \<subseteq># mset (umem_frames n fs) \<longrightarrow>
        length area = unat n * unat fs \<longrightarrow> lx_rx_peek lib k area max = (got, idx, k', area') \<longrightarrow>
        list_all (\<lambda>(a, l). unat a < unat n * unat fs) (rv_rx v k') \<and>
        umem_keeps fs (mset (umem_frames n fs) - rv_held v k) area area') \<and>
     consumer_ring (lx_comp_peek lib) (lx_comp_addr lib) (lx_comp_release lib) id (rv_held v) (rv_comp v) (rv_comp_at v)
       (\<lambda>k. rv_fill v k = [] \<and> rv_tx v k = [] \<and> rv_rx v k = []) \<and>
     (\<forall>k. rings_idle v k \<longrightarrow> rings_idle v (fst (lx_sendto lib k)) \<and> rv_held v (fst (lx_sendto lib k)) = rv_held v k)"

lemma producer_reserve:
  "producer_ring reserve poke submit frame held win at others \<Longrightarrow> win k = [] \<Longrightarrow> others k \<Longrightarrow> reserve k n = (got, idx, k') \<Longrightarrow>
   (got = 0 \<or> got = n) \<and> length (win k') = unat got \<and> at k' = idx \<and> held k' = held k \<and> others k'"
  unfolding producer_ring_def by blast

lemma producer_poke:
  "producer_ring reserve poke submit frame held win at others \<Longrightarrow> length (win k) < 2 ^ 32 \<Longrightarrow> i < length (win k) \<Longrightarrow> others k \<Longrightarrow>
   win (poke k (at k + of_nat i) v) = (win k)[i := v] \<and> at (poke k (at k + of_nat i) v) = at k \<and>
   held (poke k (at k + of_nat i) v) = held k \<and> others (poke k (at k + of_nat i) v)"
  unfolding producer_ring_def Let_def by blast

lemma producer_submit:
  "producer_ring reserve poke submit frame held win at others \<Longrightarrow> length (win k) < 2 ^ 32 \<Longrightarrow> others k \<Longrightarrow>
   win (submit k (of_nat (length (win k)))) = [] \<and>
   held (submit k (of_nat (length (win k)))) = held k + mset (map frame (win k)) \<and> others (submit k (of_nat (length (win k))))"
  unfolding producer_ring_def Let_def by blast

lemma consumer_peek:
  "consumer_ring peek get release frame held win at others \<Longrightarrow> win k = [] \<Longrightarrow> others k \<Longrightarrow> peek k n = (got, idx, k') \<Longrightarrow>
   got \<le> n \<and> length (win k') = unat got \<and> at k' = idx \<and> held k' = held k \<and> others k'"
  unfolding consumer_ring_def by blast

lemma consumer_get:
  "consumer_ring peek get release frame held win at others \<Longrightarrow> length (win k) < 2 ^ 32 \<Longrightarrow> i < length (win k) \<Longrightarrow>
   get k (at k + of_nat i) = win k ! i"
  unfolding consumer_ring_def by blast

lemma consumer_release:
  "consumer_ring peek get release frame held win at others \<Longrightarrow> length (win k) < 2 ^ 32 \<Longrightarrow> others k \<Longrightarrow>
   win (release k (of_nat (length (win k)))) = [] \<and>
   held k = held (release k (of_nat (length (win k)))) + mset (map frame (win k)) \<and> others (release k (of_nat (length (win k))))"
  unfolding consumer_ring_def Let_def by blast

section \<open>The loops over a ring\<close>

text \<open>Filling a reserved window from an array that is long enough leaves the array in it.\<close>

lemma put_loop_window:
  assumes ring: "producer_ring reserve poke submit frame held win at others"
    and "length (win k) < 2 ^ 32" and "i + r = length (win k)" and "length (win k) \<le> length xs" and "others k"
  shows "\<exists>k'. put_loop poke (at k) xs k i r = Some k' \<and> win k' = take i (win k) @ drop i (take (length (win k)) xs) \<and>
    at k' = at k \<and> held k' = held k \<and> others k'"
  using assms(2-)
proof (induction r arbitrary: k i)
  case (Suc r)
  let ?k = "poke k (at k + of_nat i) (xs ! i)"
  have i: "i < length (win k)" "i < length xs" using Suc.prems by simp_all
  note p = producer_poke [OF ring Suc.prems(1) i(1) Suc.prems(4), of "xs ! i"]
  then have "length (win ?k) < 2 ^ 32" "Suc i + r = length (win ?k)" "length (win ?k) \<le> length xs" "others ?k"
    using Suc.prems by simp_all
  from Suc.IH [OF this] obtain k' where k': "put_loop poke (at ?k) xs ?k (Suc i) r = Some k'"
    "win k' = take (Suc i) (win ?k) @ drop (Suc i) (take (length (win ?k)) xs)" "at k' = at ?k" "held k' = held ?k" "others k'"
    by blast
  have "take (Suc i) (win ?k) = take i (win k) @ [xs ! i]" using p i(1) by (simp add: take_Suc_conv_app_nth)
  moreover have "drop i (take (length (win k)) xs) = xs ! i # drop (Suc i) (take (length (win k)) xs)"
    using i by (simp add: Cons_nth_drop_Suc [symmetric])
  ultimately show ?case using k' p i(2) by simp
qed simp

lemma get_loop_window:
  assumes ring: "consumer_ring peek get release frame held win at others"
    and "length (win k) < 2 ^ 32" and "i + r = length (win k)" and "length (win k) \<le> cap"
  shows "get_loop (\<lambda>j. f (get k j)) (at k) cap i r = Some (map f (drop i (win k)))"
  using assms(3)
proof (induction r arbitrary: i)
  case (Suc r)
  have i: "i < length (win k)" using Suc.prems by simp
  have "drop i (win k) = win k ! i # drop (Suc i) (win k)" using i by (simp add: Cons_nth_drop_Suc)
  then show ?case using Suc.IH [of "Suc i"] Suc.prems i assms(4) consumer_get [OF ring assms(2) i] by simp
qed simp

lemma of_nat_unat_length: "length xs = unat (w :: u32) \<Longrightarrow> of_nat (length xs) = w \<and> length xs < 2 ^ 32"
  using unsigned_less [of w, where ?'a = nat] by simp

text \<open>The outcome of a push and of a take.\<close>

lemma ring_push_ok:
  assumes ring: "producer_ring reserve poke submit frame held win at others" and "win k = []" and "others k"
    and len: "length xs < 2 ^ 32"
  shows "\<exists>got k'. ring_push reserve poke submit k xs (of_nat (length xs)) = Some (got, k') \<and>
    (got = 0 \<or> unat got = length xs) \<and> win k' = [] \<and> others k' \<and>
    held k' = held k + mset (map frame (take (unat got) xs))"
proof -
  obtain got idx k1 where r: "reserve k (of_nat (length xs)) = (got, idx, k1)" by (metis prod_cases3)
  from producer_reserve [OF ring assms(2,3) r] have
    g: "got = 0 \<or> got = of_nat (length xs)" "length (win k1) = unat got" "at k1 = idx" "held k1 = held k" "others k1" by blast+
  have u: "unat (of_nat (length xs) :: u32) = length xs" using len by (simp add: unsigned_of_nat take_bit_nat_eq_self)
  then have le: "unat got = 0 \<or> unat got = length xs" using g(1) by auto
  note w = of_nat_unat_length [OF g(2)]
  from put_loop_window [OF ring conjunct2 [OF w], of 0 "unat got" xs] g(2,5) le obtain k2 where
    k2: "put_loop poke idx xs k1 0 (unat got) = Some k2" "win k2 = take (unat got) xs" "held k2 = held k" "others k2"
    using g(3,4) by auto
  show ?thesis
  proof (cases "got = 0")
    case True
    then show ?thesis using r k2 by (simp add: ring_push_def)
  next
    case False
    then have l2: "length (win k2) = unat got" using k2(2) le by auto
    note w2 = of_nat_unat_length [OF l2]
    from producer_submit [OF ring conjunct2 [OF w2] k2(4)] show ?thesis
      using False r k2 g(1) u by (auto simp: ring_push_def conjunct1 [OF w2])
  qed
qed

lemma ring_take_ok:
  assumes ring: "consumer_ring peek get release frame held win at others" and "win k = []" and "others k"
    and p: "peek k (of_nat cap) = (got, idx, k1)"
  shows "get_loop (\<lambda>j. f (get k1 j)) idx cap 0 (unat got) = Some (map f (win k1)) \<and> length (win k1) \<le> cap \<and>
    win (if got \<noteq> 0 then release k1 got else k1) = [] \<and> others (if got \<noteq> 0 then release k1 got else k1) \<and>
    held k = held (if got \<noteq> 0 then release k1 got else k1) + mset (map frame (win k1))"
proof -
  from consumer_peek [OF ring assms(2,3) p] have
    g: "got \<le> of_nat cap" "length (win k1) = unat got" "at k1 = idx" "held k1 = held k" "others k1" by blast+
  note w = of_nat_unat_length [OF g(2)]
  have "unat (of_nat cap :: u32) \<le> cap" by (simp add: unsigned_of_nat take_bit_nat_less_eq_self)
  then have cap: "length (win k1) \<le> cap" using g(1,2) by (simp add: word_le_nat_alt)
  have "get_loop (\<lambda>j. f (get k1 j)) idx cap 0 (unat got) = Some (map f (win k1))"
    using get_loop_window [OF ring conjunct2 [OF w], of 0 "unat got" cap f] g(2,3) cap by simp
  moreover have "win k1 = []" if "got = 0" using g(2) that by simp
  moreover note consumer_release [OF ring conjunct2 [OF w] g(5), unfolded conjunct1 [OF w]]
  ultimately show ?thesis using cap g(4,5) by (cases "got = 0") simp_all
qed

section \<open>The shim meets the contract of the driver\<close>

text \<open>The frames the kernel holds, between two calls of the shim; a state with an open slot is one no
  call leaves behind, and stands for no set of frames.\<close>

definition shim_held :: "'k ring_view \<Rightarrow> 'k \<Rightarrow> u64 multiset" where
  "shim_held v k = (if rings_idle v k then rv_held v k else {#0, 0#})"

lemma shim_held_idle:
  assumes "fs \<noteq> 0" and "shim_held v k \<subseteq># mset (umem_frames n fs)"
  shows "rings_idle v k" "rv_held v k \<subseteq># mset (umem_frames n fs)"
proof -
  show "rings_idle v k"
  proof (rule ccontr)
    assume "\<not> rings_idle v k"
    then have "{#0, 0#} \<subseteq># mset (umem_frames n fs)" using assms(2) by (simp add: shim_held_def)
    then have "2 \<le> count (mset (umem_frames n fs)) 0" using mset_subset_eq_count [of "{#0, 0#}" _ 0] by (simp add: numeral_2_eq_2)
    moreover have "count (mset (umem_frames n fs)) 0 \<le> 1"
      using distinct_umem_frames [OF assms(1), of n] by (simp add: distinct_count_atmost_1)
    ultimately show False by simp
  qed
  then show "rv_held v k \<subseteq># mset (umem_frames n fs)" using assms(2) by (simp add: shim_held_def)
qed

text \<open>Each operation from an idle state: it returns, and leaves an idle state.\<close>

lemma andro_fq_push_ok:
  assumes "libxdp_contract lib v n fs" and "rings_idle v k" and "length addrs < 2 ^ 32"
  shows "\<exists>got k'. andro_fq_push lib k addrs (of_nat (length addrs)) = Some (got, k') \<and> (got = 0 \<or> unat got = length addrs) \<and>
    rings_idle v k' \<and> rv_held v k' = rv_held v k + mset (take (unat got) addrs)"
proof -
  have "producer_ring (lx_fill_reserve lib) (lx_fill_addr lib) (lx_fill_submit lib) id (rv_held v) (rv_fill v) (rv_fill_at v)
      (\<lambda>k. rv_tx v k = [] \<and> rv_rx v k = [] \<and> rv_comp v k = [])"
    using assms(1) by (simp add: libxdp_contract_def)
  from ring_push_ok [OF this _ _ assms(3), of k] assms(2) show ?thesis by (simp add: rings_idle_def andro_fq_push_def)
qed

text \<open>The shim writes descriptors with no options; the ring of such descriptors.\<close>

lemma tx_ring:
  assumes "libxdp_contract lib v n fs" and "rings_idle v k" and "length ds < 2 ^ 32"
  shows "\<exists>got k'. andro_tx_push lib k ds (of_nat (length ds)) = Some (got, k') \<and> (got = 0 \<or> unat got = length ds) \<and>
    rings_idle v k' \<and> rv_held v k' = rv_held v k + mset (map fst (take (unat got) ds))"
proof -
  let ?d = "\<lambda>(a, l). (a, l, 0 :: u32)"
  have r: "producer_ring (lx_tx_reserve lib) (lx_tx_desc lib) (lx_tx_submit lib) fst (rv_held v) (rv_tx v) (rv_tx_at v)
      (\<lambda>k. rv_fill v k = [] \<and> rv_rx v k = [] \<and> rv_comp v k = [])"
    using assms(1) by (simp add: libxdp_contract_def)
  have loop: "put_loop (\<lambda>k i (a, l). lx_tx_desc lib k i (a, l, 0)) idx ds k i m = put_loop (lx_tx_desc lib) idx (map ?d ds) k i m"
    for idx k i m
    by (induction "\<lambda>k i (a, l). lx_tx_desc lib k i (a, l, 0)" idx ds k i m rule: put_loop.induct)
      (auto simp: case_prod_unfold)
  then have "andro_tx_push lib k ds (of_nat (length ds)) =
      ring_push (lx_tx_reserve lib) (lx_tx_desc lib) (lx_tx_submit lib) k (map ?d ds) (of_nat (length (map ?d ds)))"
    by (simp add: andro_tx_push_def ring_push_def)
  moreover have "map fst (take m (map ?d ds)) = map fst (take m ds)" for m by (simp add: take_map case_prod_unfold)
  ultimately show ?thesis
    using ring_push_ok [OF r, of k "map ?d ds"] assms(2,3) by (simp add: rings_idle_def) blast
qed

lemma rx_take_ok:
  assumes "libxdp_contract lib v n fs" and "rings_idle v k" and "rv_held v k \<subseteq># mset (umem_frames n fs)"
    and "length area = unat n * unat fs"
  shows "\<exists>ds k' area'. (\<forall>f :: u64 \<times> u32 \<Rightarrow> 'e. rx_take f lib k area cap = Some (map f ds, k', area')) \<and> length ds \<le> cap \<and>
    rings_idle v k' \<and> list_all (\<lambda>(a, l). unat a < unat n * unat fs) ds \<and>
    rv_held v k = rv_held v k' + mset (map (\<lambda>(a, l). frame_base fs a) ds) \<and>
    umem_keeps fs (mset (umem_frames n fs) - rv_held v k) area area'"
proof -
  let ?peek = "\<lambda>k max. case lx_rx_peek lib k area max of (got, idx, k', _) \<Rightarrow> (got, idx, k')"
  obtain got idx k1 area' where p: "lx_rx_peek lib k area (of_nat cap) = (got, idx, k1, area')" by (metis prod_cases4)
  have r: "consumer_ring ?peek (lx_rx_desc lib) (lx_rx_release lib) (\<lambda>(a, l). frame_base fs a) (rv_held v) (rv_rx v) (rv_rx_at v)
      (\<lambda>k. rv_fill v k = [] \<and> rv_tx v k = [] \<and> rv_comp v k = [] \<and> rv_held v k \<subseteq># mset (umem_frames n fs))"
    using assms(1) by (simp add: libxdp_contract_def)
  have "list_all (\<lambda>(a, l). unat a < unat n * unat fs) (rv_rx v k1) \<and> umem_keeps fs (mset (umem_frames n fs) - rv_held v k) area area'"
    using assms p unfolding libxdp_contract_def by blast
  moreover define k' where "k' = (if got \<noteq> 0 then lx_rx_release lib k1 got else k1)"
  have idle: "rv_rx v k = []"
    "rv_fill v k = [] \<and> rv_tx v k = [] \<and> rv_comp v k = [] \<and> rv_held v k \<subseteq># mset (umem_frames n fs)"
    using assms(2,3) by (simp_all add: rings_idle_def)
  have p': "?peek k (of_nat cap) = (got, idx, k1)" by (simp add: p)
  note t = ring_take_ok [OF r idle p', folded k'_def]
  have "rx_take f lib k area cap = Some (map f (rv_rx v k1), k', area')" for f :: "u64 \<times> u32 \<Rightarrow> 'e"
    using t [of f] p by (simp add: rx_take_def k'_def)
  moreover have "length (rv_rx v k1) \<le> cap" "rings_idle v k'"
    "rv_held v k = rv_held v k' + mset (map (\<lambda>(a, l). frame_base fs a) (rv_rx v k1))"
    using t [of id] by (simp_all add: rings_idle_def)
  ultimately show ?thesis by blast
qed

lemma andro_cq_collect_ok:
  assumes "libxdp_contract lib v n fs" and "rings_idle v k"
  shows "\<exists>addrs k'. andro_cq_collect lib k cap = Some (addrs, k') \<and> length addrs \<le> cap \<and> rings_idle v k' \<and>
    rv_held v k = rv_held v k' + mset addrs"
proof -
  obtain got idx k1 where p: "lx_comp_peek lib k (of_nat cap) = (got, idx, k1)" by (metis prod_cases3)
  have r: "consumer_ring (lx_comp_peek lib) (lx_comp_addr lib) (lx_comp_release lib) id (rv_held v) (rv_comp v) (rv_comp_at v)
      (\<lambda>k. rv_fill v k = [] \<and> rv_tx v k = [] \<and> rv_rx v k = [])"
    using assms(1) by (simp add: libxdp_contract_def)
  have "rv_comp v k = []" "rv_fill v k = [] \<and> rv_tx v k = [] \<and> rv_rx v k = []" using assms(2) by (simp_all add: rings_idle_def)
  from ring_take_ok [OF r this p, of id] p show ?thesis
    by (intro exI [of _ "rv_comp v k1"] exI [of _ "if got \<noteq> 0 then lx_comp_release lib k1 got else k1"])
      (simp add: andro_cq_collect_def ring_take_def rings_idle_def)
qed

lemma shim_contract:
  assumes lib: "libxdp_contract lib v n fs" and fs: "fs \<noteq> 0"
  shows "xdp_contract (shim_api lo lib) (shim_held v) n fs"
  unfolding xdp_contract_def
proof (intro conjI allI impI)
  fix k addrs m k' assume "shim_held v k \<subseteq># mset (umem_frames n fs)" and len: "length addrs < 2 ^ 32"
    and f: "xk_fill (shim_api lo lib) k addrs = (m, k')"
  note idle = shim_held_idle [OF fs this(1)]
  from andro_fq_push_ok [OF lib idle(1) len] f idle show "m = 0 \<or> m = length addrs" "shim_held v k' = shim_held v k + mset (take m addrs)"
    by (auto simp: shim_api_def shim_held_def)
next
  fix k area limit ds k' area' assume "shim_held v k \<subseteq># mset (umem_frames n fs)" and area: "length area = unat n * unat fs"
    and f: "xk_rx (shim_api lo lib) k area limit = (ds, k', area')"
  note idle = shim_held_idle [OF fs this(1)]
  from rx_take_ok [OF lib idle area, of limit] obtain ds1 k1 area1 where
    1: "\<forall>f :: u64 \<times> u32 \<Rightarrow> u64 \<times> u32. rx_take f lib k area limit = Some (map f ds1, k1, area1)" "length ds1 \<le> limit" "rings_idle v k1"
      "list_all (\<lambda>(a, l). unat a < unat n * unat fs) ds1"
      "rv_held v k = rv_held v k1 + mset (map (\<lambda>(a, l). frame_base fs a) ds1)"
      "umem_keeps fs (mset (umem_frames n fs) - rv_held v k) area area1"
    by blast
  then have "ds = ds1" "k' = k1" "area' = area1" using f by (simp_all add: shim_api_def)
  with 1(2-) idle(1) show "length ds \<le> limit" "list_all (\<lambda>(a, l). unat a < unat n * unat fs) ds"
    "shim_held v k = shim_held v k' + mset (map (\<lambda>(a, l). frame_base fs a) ds)"
    "umem_keeps fs (mset (umem_frames n fs) - shim_held v k) area area'"
    by (simp_all add: shim_held_def)
next
  fix k a l m k' assume "shim_held v k \<subseteq># mset (umem_frames n fs)" and f: "xk_tx (shim_api lo lib) k [(a, l)] = (m, k')"
  note idle = shim_held_idle [OF fs this(1)]
  from tx_ring [OF lib idle(1), of "[(a, l)]"] f idle show "m \<le> 1" "shim_held v k' = shim_held v k + (if m = 1 then {#a#} else {#})"
    by (auto simp: shim_api_def shim_held_def)
next
  fix k limit addrs k' assume "shim_held v k \<subseteq># mset (umem_frames n fs)"
    and f: "xk_comp (shim_api lo lib) k limit = (addrs, k')"
  note idle = shim_held_idle [OF fs this(1)]
  from andro_cq_collect_ok [OF lib idle(1), of limit] f idle show "length addrs \<le> limit" "shim_held v k = shim_held v k' + mset addrs"
    by (auto simp: shim_api_def shim_held_def)
next
  fix k assume "shim_held v k \<subseteq># mset (umem_frames n fs)"
  note idle = shim_held_idle [OF fs this]
  moreover have "rings_idle v (fst (lx_sendto lib k)) \<and> rv_held v (fst (lx_sendto lib k)) = rv_held v k"
    using lib idle(1) by (simp add: libxdp_contract_def)
  ultimately show "shim_held v (xk_kick (shim_api lo lib) k) = shim_held v k"
    by (simp add: shim_api_def shim_held_def andro_kick_tx_def case_prod_unfold)
qed

text \<open>What the socket makes of a burst is what the shim's \<open>andro_rx_peek\<close> returns, clamped once more.\<close>

lemma rx_burst_through_shim:
  assumes "libxdp_contract lib v (xs_n_frames s) (xs_frame_size s)" and "xsk_inv (shim_held v) (xs_n_frames s) (xs_frame_size s) s L"
  shows "\<exists>ds k area. andro_rx_peek (xs_n_frames s) (xs_frame_size s) lib (xs_kernel s) (xs_area s) limit = Some (ds, k, area) \<and>
    XskSocket_rx_burst (shim_api lo lib) s limit =
      Some (s \<lparr> xs_kernel := k, xs_area := area \<rparr>, map (\<lambda>(a, l). (a, if xs_frame_size s < l then xs_frame_size s else l)) ds)"
proof -
  have fs: "xs_frame_size s \<noteq> 0" and area: "length (xs_area s) = unat (xs_n_frames s) * unat (xs_frame_size s)"
    using assms(2) by (simp_all add: xsk_inv_def)
  note idle = shim_held_idle [OF fs xsk_inv_held [OF assms(2)]]
  from rx_take_ok [OF assms(1) idle area, of limit] obtain ds k area where
    1: "\<forall>f :: u64 \<times> u32 \<Rightarrow> u64 \<times> u32. rx_take f lib (xs_kernel s) (xs_area s) limit = Some (map f ds, k, area)" "length ds \<le> limit"
    by blast
  then have "xk_rx (shim_api lo lib) (xs_kernel s) (xs_area s) limit = (ds, k, area)" by (simp add: shim_api_def)
  then show ?thesis using 1 by (simp add: andro_rx_peek_def XskSocket_rx_burst_def Let_def)
qed

section \<open>Opening leaks nothing\<close>

text \<open>Opening fails with everything released, or succeeds; closing then releases everything. Zero-copy
  is reported only when it was asked for.\<close>

lemma c_free_hd [simp]: "c_free r (r # h) = Some h"
  by (simp add: c_free_def)

lemma andro_bind_created:
  assumes "andro_bind lo u ifname q cfg = (u', Inr k, zc)"
  shows "zc \<longrightarrow> xc_zerocopy cfg" and "\<exists>u1 scfg. lo_socket_create lo u1 ifname q scfg = (u', Inr k) \<and> sc_zerocopy scfg = zc"
proof -
  let ?scfg = "\<lparr> sc_rx_size = xc_rx_size cfg, sc_tx_size = xc_tx_size cfg,
    sc_xdp_flags = first_flags (xc_xdp_mode cfg) (xc_zerocopy cfg), sc_zerocopy = xc_zerocopy cfg \<rparr>"
  obtain u1 r1 where 1: "lo_socket_create lo u ifname q ?scfg = (u1, r1)" by fastforce
  obtain u2 r2 where 2: "lo_socket_create lo u1 ifname q (?scfg \<lparr> sc_xdp_flags := Auto, sc_zerocopy := False \<rparr>) = (u2, r2)" by fastforce
  consider "r1 = Inr k" "zc = xc_zerocopy cfg" "u' = u1" | "r2 = Inr k" "zc = False" "u' = u2"
    using assms 1 2 by (auto simp: andro_bind_def Let_def split: sum.splits if_splits)
  then show "zc \<longrightarrow> xc_zerocopy cfg" "\<exists>u1 scfg. lo_socket_create lo u1 ifname q scfg = (u', Inr k) \<and> sc_zerocopy scfg = zc"
    using 1 2 by (cases, force, force)+
qed

lemma andro_xsk_open_close:
  "\<exists>h' r. andro_xsk_open lo ifname q cfg h = Some (h', r) \<and>
     (case r of Inl err \<Rightarrow> h' = h
      | Inr x \<Rightarrow> andro_xsk_close h' = Some h \<and> (ax_zc_bound x \<longrightarrow> xc_zerocopy cfg) \<and> xc_frame_size cfg \<noteq> 0 \<and>
          ax_frame_size x = xc_frame_size cfg \<and> ax_n_frames x = xc_n_frames cfg \<and>
          (\<exists>u u' scfg. lo_socket_create lo u ifname q scfg = (u', Inr (ax_lib x)) \<and> sc_zerocopy scfg = ax_zc_bound x))"
proof -
  let ?area = "ucast (xc_n_frames cfg) * ucast (xc_frame_size cfg) :: u64"
  let ?ucfg = "\<lparr> uc_fill_size = xc_fill_size cfg, uc_comp_size = xc_comp_size cfg, uc_frame_size = xc_frame_size cfg \<rparr>"
  show ?thesis
  proof (cases "lo_calloc lo \<and> xc_frame_size cfg \<noteq> 0 \<and> lo_memalign lo ?area = None")
    case False
    then show ?thesis by (auto simp: andro_xsk_open_def Let_def)
  next
    case True
    show ?thesis
    proof (cases "lo_umem_create lo ?area ?ucfg")
      case (Inl err)
      then show ?thesis using True by (simp add: andro_xsk_open_def Let_def)
    next
      case (Inr u)
      obtain u' r zc where b: "andro_bind lo u ifname q cfg = (u', r, zc)" by (metis prod_cases3)
      show ?thesis
      proof (cases r)
        case (Inl err)
        then show ?thesis using True Inr b by (simp add: andro_xsk_open_def Let_def)
      next
        case (Inr k)
        note c = andro_bind_created [OF b [unfolded Inr]]
        have "\<exists>u u' scfg. lo_socket_create lo u ifname q scfg = (u', Inr k) \<and> sc_zerocopy scfg = zc" using c(2) by blast
        then show ?thesis
          using True \<open>lo_umem_create lo ?area ?ucfg = Inr u\<close> b Inr c(1) by (simp add: andro_xsk_open_def andro_xsk_close_def Let_def)
      qed
    qed
  qed
qed

text \<open>The interface hands the driver what the shim opened.\<close>

lemma shim_create:
  assumes "xk_create (shim_api lo lib) ifname q cfg = Inr (k, fd, zc)"
  shows "\<exists>u u' scfg. lo_socket_create lo u ifname q scfg = (u', Inr k)"
proof -
  obtain h' r where o: "andro_xsk_open lo ifname q cfg [] = Some (h', r)"
    "\<forall>x. r = Inr x \<longrightarrow> (\<exists>u u' scfg. lo_socket_create lo u ifname q scfg = (u', Inr (ax_lib x)))"
    using andro_xsk_open_close [of lo ifname q cfg "[]"] by fastforce
  then show ?thesis using assms by (auto simp: shim_api_def split: sum.splits)
qed

definition fresh_socket :: "('u, 'k) lib_open \<Rightarrow> 'k ring_view \<Rightarrow> bool" where
  "fresh_socket lo v \<longleftrightarrow> (\<forall>u ifname q scfg u' k. lo_socket_create lo u ifname q scfg = (u', Inr k) \<longrightarrow>
     rings_idle v k \<and> rv_held v k = {#})"

lemma shim_fresh: "fresh_socket lo v \<Longrightarrow> fresh_kernel (shim_api lo lib) (shim_held v) cfg"
  unfolding fresh_kernel_def fresh_socket_def by (auto simp: shim_held_def dest!: shim_create)

end
