(* ===== verification/Xsk_Props.thy ===== *)
theory Xsk_Props
  imports Xsk_Shim
begin

text \<open>
  A libxdp that keeps the protocol of its rings, and the properties of the C shim: over such a
  library it meets the contract of the driver, and it releases what it acquires.
\<close>

section \<open>A library that keeps the protocol\<close>

text \<open>The simulated kernel behind rings whose open slots are kept apart.\<close>

record sim_rings =
  sl_kernel :: sim_kernel
  sl_fill :: "u64 list"
  sl_fill_at :: u32
  sl_tx :: "(u64 \<times> u32 \<times> u32) list"
  sl_tx_at :: u32
  sl_rx :: "(u64 \<times> u32) list"
  sl_rx_at :: u32
  sl_comp :: "u64 list"
  sl_comp_at :: u32

definition sim_lib :: "u32 \<Rightarrow> sim_rings libxdp" where
  "sim_lib fs =
     \<lparr> lx_fill_reserve = (\<lambda>k n. (n, sl_fill_at k, k \<lparr> sl_fill := replicate (unat n) 0 \<rparr>)),
       lx_fill_addr = (\<lambda>k j a. k \<lparr> sl_fill := (sl_fill k)[unat (j - sl_fill_at k) := a] \<rparr>),
       lx_fill_submit = (\<lambda>k n. k \<lparr> sl_fill := drop (unat n) (sl_fill k), sl_fill_at := sl_fill_at k + n,
         sl_kernel := sl_kernel k \<lparr> sk_fill := sk_fill (sl_kernel k) @ take (unat n) (sl_fill k) \<rparr> \<rparr>),
       lx_tx_reserve = (\<lambda>k n. (n, sl_tx_at k, k \<lparr> sl_tx := replicate (unat n) (0, 0, 0) \<rparr>)),
       lx_tx_desc = (\<lambda>k j d. k \<lparr> sl_tx := (sl_tx k)[unat (j - sl_tx_at k) := d] \<rparr>),
       lx_tx_submit = (\<lambda>k n. k \<lparr> sl_tx := drop (unat n) (sl_tx k), sl_tx_at := sl_tx_at k + n,
         sl_kernel := sl_kernel k \<lparr> sk_tx := sk_tx (sl_kernel k) @ map (\<lambda>(a, l, _). (a, l)) (take (unat n) (sl_tx k)) \<rparr> \<rparr>),
       lx_rx_peek = (\<lambda>k area n. case sim_rx fs (sl_kernel k) area (unat n) of (ds, k', area') \<Rightarrow>
         (of_nat (length ds), sl_rx_at k, k \<lparr> sl_kernel := k', sl_rx := ds \<rparr>, area')),
       lx_rx_desc = (\<lambda>k j. sl_rx k ! unat (j - sl_rx_at k)),
       lx_rx_release = (\<lambda>k n. k \<lparr> sl_rx := drop (unat n) (sl_rx k), sl_rx_at := sl_rx_at k + n \<rparr>),
       lx_comp_peek = (\<lambda>k n. let m = min (unat n) (length (sk_tx (sl_kernel k))) in
         (of_nat m, sl_comp_at k, k \<lparr> sl_comp := map fst (take m (sk_tx (sl_kernel k))),
            sl_kernel := sl_kernel k \<lparr> sk_tx := drop m (sk_tx (sl_kernel k)) \<rparr> \<rparr>)),
       lx_comp_addr = (\<lambda>k j. sl_comp k ! unat (j - sl_comp_at k)),
       lx_comp_release = (\<lambda>k n. k \<lparr> sl_comp := drop (unat n) (sl_comp k), sl_comp_at := sl_comp_at k + n \<rparr>),
       lx_tx_needs_wakeup = (\<lambda>_. True),
       lx_sendto = (\<lambda>k. (k, 0)) \<rparr>"

definition sim_view :: "u32 \<Rightarrow> sim_rings ring_view" where
  "sim_view fs =
     \<lparr> rv_fill = sl_fill, rv_fill_at = sl_fill_at, rv_tx = sl_tx, rv_tx_at = sl_tx_at, rv_rx = sl_rx, rv_rx_at = sl_rx_at,
       rv_comp = sl_comp, rv_comp_at = sl_comp_at,
       rv_held = (\<lambda>k. sim_held (sl_kernel k) + mset (map (\<lambda>(a, l). frame_base fs a) (sl_rx k)) + mset (sl_comp k)) \<rparr>"

text \<open>Creation refuses zero-copy, so that asking for it takes the second attempt.\<close>

definition sim_open :: "bytes list \<Rightarrow> (unit, sim_rings) lib_open" where
  "sim_open pkts =
     \<lparr> lo_calloc = True, lo_memalign = (\<lambda>_. None), lo_umem_create = (\<lambda>_ _. Inr ()),
       lo_socket_create = (\<lambda>u _ _ scfg. (u, if sc_zerocopy scfg then Inl 95 else
         Inr \<lparr> sl_kernel = \<lparr> sk_fill = [], sk_pending = pkts, sk_tx = [] \<rparr>, sl_fill = [], sl_fill_at = 0, sl_tx = [],
           sl_tx_at = 0, sl_rx = [], sl_rx_at = 0, sl_comp = [], sl_comp_at = 0 \<rparr>)),
       lo_fd = (\<lambda>_. 3) \<rparr>"

lemma unat_of_nat_32: "i < 2 ^ 32 \<Longrightarrow> unat (of_nat i :: u32) = i"
  by (simp add: unsigned_of_nat take_bit_nat_eq_self)

lemma sim_fill_ring:
  "producer_ring (lx_fill_reserve (sim_lib fs)) (lx_fill_addr (sim_lib fs)) (lx_fill_submit (sim_lib fs)) id
     (rv_held (sim_view fs)) (rv_fill (sim_view fs)) (rv_fill_at (sim_view fs))
     (\<lambda>k. rv_tx (sim_view fs) k = [] \<and> rv_rx (sim_view fs) k = [] \<and> rv_comp (sim_view fs) k = [])"
  unfolding producer_ring_def by (auto simp: sim_lib_def sim_view_def sim_held_def unat_of_nat_32 Let_def)

lemma sim_tx_ring:
  "producer_ring (lx_tx_reserve (sim_lib fs)) (lx_tx_desc (sim_lib fs)) (lx_tx_submit (sim_lib fs)) fst
     (rv_held (sim_view fs)) (rv_tx (sim_view fs)) (rv_tx_at (sim_view fs))
     (\<lambda>k. rv_fill (sim_view fs) k = [] \<and> rv_rx (sim_view fs) k = [] \<and> rv_comp (sim_view fs) k = [])"
  unfolding producer_ring_def
  by (auto simp: sim_lib_def sim_view_def sim_held_def unat_of_nat_32 Let_def case_prod_unfold comp_def multiset.map_comp)

lemma sim_comp_ring:
  "consumer_ring (lx_comp_peek (sim_lib fs)) (lx_comp_addr (sim_lib fs)) (lx_comp_release (sim_lib fs)) id
     (rv_held (sim_view fs)) (rv_comp (sim_view fs)) (rv_comp_at (sim_view fs))
     (\<lambda>k. rv_fill (sim_view fs) k = [] \<and> rv_tx (sim_view fs) k = [] \<and> rv_rx (sim_view fs) k = [])"
proof -
  have small: "unat (of_nat (min (unat n) m) :: u32) = min (unat (n :: u32)) m" for n m
    using unsigned_less [of n, where ?'a = nat] by (intro unat_of_nat_32) (simp add: min_less_iff_disj)
  have tx: "mset (map fst xs) = mset (map fst (drop m xs)) + mset (map fst (take m xs))" for m and xs :: "(u64 \<times> u32) list"
    by (metis append_take_drop_id map_append mset_append union_commute)
  show ?thesis
    unfolding consumer_ring_def
  proof (intro conjI allI impI)
    fix k n got idx k'
    assume "rv_comp (sim_view fs) k = []" "lx_comp_peek (sim_lib fs) k n = (got, idx, k')"
      "rv_fill (sim_view fs) k = [] \<and> rv_tx (sim_view fs) k = [] \<and> rv_rx (sim_view fs) k = []"
    moreover define m where "m = min (unat n) (length (sk_tx (sl_kernel k)))"
    ultimately have p: "got = of_nat m" "idx = sl_comp_at k" "sl_comp k = []"
        "k' = k \<lparr> sl_comp := map fst (take m (sk_tx (sl_kernel k))),
          sl_kernel := sl_kernel k \<lparr> sk_tx := drop m (sk_tx (sl_kernel k)) \<rparr> \<rparr>"
      and q: "sl_fill k = []" "sl_tx k = []" "sl_rx k = []"
      by (auto simp: sim_lib_def sim_view_def Let_def)
    have u: "unat got = m" using small p(1) by (simp add: m_def)
    then show "got \<le> n" by (simp add: word_le_nat_alt m_def)
    have "m \<le> length (sk_tx (sl_kernel k))" by (simp add: m_def)
    then show "length (rv_comp (sim_view fs) k') = unat got" "rv_comp_at (sim_view fs) k' = idx"
      "rv_held (sim_view fs) k' = rv_held (sim_view fs) k"
      "rv_fill (sim_view fs) k' = []" "rv_tx (sim_view fs) k' = []" "rv_rx (sim_view fs) k' = []"
      using p q u tx [of "sk_tx (sl_kernel k)" m] by (simp_all add: sim_view_def sim_held_def)
  qed (auto simp: sim_lib_def sim_view_def unat_of_nat_32 Let_def)
qed

lemma sim_rx_ring:
  "consumer_ring (\<lambda>k max. case lx_rx_peek (sim_lib fs) k area max of (got, idx, k', _) \<Rightarrow> (got, idx, k'))
     (lx_rx_desc (sim_lib fs)) (lx_rx_release (sim_lib fs)) (\<lambda>(a, l). frame_base fs a)
     (rv_held (sim_view fs)) (rv_rx (sim_view fs)) (rv_rx_at (sim_view fs))
     (\<lambda>k. rv_fill (sim_view fs) k = [] \<and> rv_tx (sim_view fs) k = [] \<and> rv_comp (sim_view fs) k = [] \<and>
        rv_held (sim_view fs) k \<subseteq># mset (umem_frames n fs))"
  unfolding consumer_ring_def
proof (intro conjI allI impI)
  fix k m got idx k'
  assume "rv_rx (sim_view fs) k = []"
    and o: "rv_fill (sim_view fs) k = [] \<and> rv_tx (sim_view fs) k = [] \<and> rv_comp (sim_view fs) k = [] \<and>
      rv_held (sim_view fs) k \<subseteq># mset (umem_frames n fs)"
    and "(case lx_rx_peek (sim_lib fs) k area m of (got, idx, k', _) \<Rightarrow> (got, idx, k')) = (got, idx, k')"
  then obtain ds kk area' where r: "sim_rx fs (sl_kernel k) area (unat m) = (ds, kk, area')" "got = of_nat (length ds)"
      "idx = sl_rx_at k" "k' = k \<lparr> sl_kernel := kk, sl_rx := ds \<rparr>" "sl_rx k = []"
    by (auto simp: sim_lib_def sim_view_def split: prod.splits)
  have sub: "sim_held (sl_kernel k) \<subseteq># mset (umem_frames n fs)"
    using o r(5) by (auto simp: sim_view_def)
  have len: "length ds \<le> 1 \<and> length ds \<le> unat m"
    using r(1) by (auto simp: sim_rx_def split: list.splits if_splits)
  then have u: "unat got = length ds" using r(2) by (simp add: unat_of_nat_32)
  then show "got \<le> m" using len by (simp add: word_le_nat_alt)
  have h: "sim_held (sl_kernel k) = sim_held kk + mset (map (\<lambda>(a, l). frame_base fs a) ds)"
  proof (cases "ds = []")
    case True
    then show ?thesis using r(1) by (auto simp: sim_rx_def split: list.splits if_splits)
  next
    case False
    then obtain a as l where f: "sk_fill (sl_kernel k) = a # as" "ds = [(a, l)]" "sk_fill kk = as"
        "sk_tx kk = sk_tx (sl_kernel k)"
      using r(1) by (auto simp: sim_rx_def split: list.splits if_splits)
    have "a \<in># sim_held (sl_kernel k)" by (simp add: sim_held_def f(1))
    then have "a \<in> set (umem_frames n fs)" using sub by (meson mset_subset_eqD set_mset_mset in_multiset_in_set)
    then show ?thesis using f by (simp add: sim_held_def frame_base_frame)
  qed
  then show "length (rv_rx (sim_view fs) k') = unat got" "rv_rx_at (sim_view fs) k' = idx"
    "rv_held (sim_view fs) k' = rv_held (sim_view fs) k" "rv_fill (sim_view fs) k' = []" "rv_tx (sim_view fs) k' = []"
    "rv_comp (sim_view fs) k' = []" "rv_held (sim_view fs) k' \<subseteq># mset (umem_frames n fs)"
    using o r(3-5) u sub by (simp_all add: sim_view_def)
next
  fix k
  assume o: "rv_fill (sim_view fs) k = [] \<and> rv_tx (sim_view fs) k = [] \<and> rv_comp (sim_view fs) k = [] \<and>
      rv_held (sim_view fs) k \<subseteq># mset (umem_frames n fs)" and len: "length (rv_rx (sim_view fs) k) < 2 ^ 32"
  have "sim_held (sl_kernel k) \<subseteq># mset (umem_frames n fs)"
    using o subset_mset.order_trans [OF mset_subset_eq_add_left] by (auto simp: sim_view_def)
  then show "let k' = lx_rx_release (sim_lib fs) k (of_nat (length (rv_rx (sim_view fs) k)))
      in rv_rx (sim_view fs) k' = [] \<and>
         rv_held (sim_view fs) k = rv_held (sim_view fs) k' + mset (map (\<lambda>(a, l). frame_base fs a) (rv_rx (sim_view fs) k)) \<and>
         rv_fill (sim_view fs) k' = [] \<and> rv_tx (sim_view fs) k' = [] \<and> rv_comp (sim_view fs) k' = [] \<and>
         rv_held (sim_view fs) k' \<subseteq># mset (umem_frames n fs)"
    using o len by (simp add: sim_lib_def sim_view_def unat_of_nat_32 Let_def)
qed (simp add: sim_lib_def sim_view_def unat_of_nat_32)

lemma sim_lib_contract:
  assumes "fs \<noteq> 0"
  shows "libxdp_contract (sim_lib fs) (sim_view fs) n fs"
  unfolding libxdp_contract_def
proof (intro conjI allI impI)
  fix k area max got idx k' area'
  assume idle: "rings_idle (sim_view fs) k" and sub: "rv_held (sim_view fs) k \<subseteq># mset (umem_frames n fs)"
    and area: "length area = unat n * unat fs" and p: "lx_rx_peek (sim_lib fs) k area max = (got, idx, k', area')"
  have held: "rv_held (sim_view fs) k = sim_held (sl_kernel k)"
    using idle by (simp add: sim_view_def rings_idle_def)
  obtain kk where "sim_rx fs (sl_kernel k) area (unat max) = (rv_rx (sim_view fs) k', kk, area')"
    using p by (auto simp: sim_lib_def sim_view_def split: prod.splits)
  from sim_rx_contract [OF assms sub [unfolded held] area this]
  show "list_all (\<lambda>(a, l). unat a < unat n * unat fs) (rv_rx (sim_view fs) k')"
    "umem_keeps fs (mset (umem_frames n fs) - rv_held (sim_view fs) k) area area'"
    unfolding held by blast+
qed (simp_all add: sim_fill_ring sim_tx_ring sim_rx_ring sim_comp_ring sim_lib_def [of fs, THEN arg_cong [of _ _ lx_sendto]])

lemma sim_fresh_socket: "fresh_socket (sim_open pkts) (sim_view fs)"
  by (auto simp: fresh_socket_def sim_open_def sim_view_def rings_idle_def sim_held_def)

section \<open>Properties\<close>

text \<open>C14: the shim implements the kernel interface the driver relies on. Over any library whose rings
  follow their documented protocol, and for frames of positive size, the interface the shim
  provides meets the driver's contract (all addresses handed over or none, every received or
  completed frame one the kernel held, no frame in two places); from a state without open
  slots every ring operation returns, without reading or writing past its arrays, to such a
  state; and a socket that opens over the shim has every frame in exactly one place.\<close>

theorem shim_meets_contract:
  assumes "libxdp_contract lib v n fs" and "fs \<noteq> 0" and "fresh_socket lo v"
  shows "xdp_contract (shim_api lo lib) (shim_held v) n fs \<and>
    (\<forall>k addrs. rings_idle v k \<and> length addrs < 2 ^ 32 \<longrightarrow>
       (\<exists>got k'. andro_fq_push lib k addrs (of_nat (length addrs)) = Some (got, k') \<and> rings_idle v k')) \<and>
    (\<forall>k ds. rings_idle v k \<and> length ds < 2 ^ 32 \<longrightarrow>
       (\<exists>got k'. andro_tx_push lib k ds (of_nat (length ds)) = Some (got, k') \<and> rings_idle v k')) \<and>
    (\<forall>k cap. rings_idle v k \<longrightarrow> (\<exists>addrs k'. andro_cq_collect lib k cap = Some (addrs, k') \<and> rings_idle v k')) \<and>
    (\<forall>k area cap. rings_idle v k \<and> rv_held v k \<subseteq># mset (umem_frames n fs) \<and> length area = unat n * unat fs \<longrightarrow>
       (\<exists>ds k' area'. andro_rx_peek n fs lib k area cap = Some (ds, k', area') \<and> rings_idle v k' \<and>
          set (map fst ds) \<subseteq> set (umem_frames n fs) \<and> (\<forall>d \<in> set ds. snd d \<le> fs))) \<and>
    (\<forall>ifname q cfg s. xc_n_frames cfg = n \<and> xc_frame_size cfg = fs \<and> XskSocket_open (shim_api lo lib) ifname q cfg = Inr s \<longrightarrow>
       mset (xs_free s) + shim_held v (xs_kernel s) = mset (umem_frames n fs) \<and> distinct (umem_frames n fs))"
proof (intro conjI allI impI)
  show c: "xdp_contract (shim_api lo lib) (shim_held v) n fs" using assms(1,2) by (rule shim_contract)
  fix k and area :: bytes and cap
  assume k: "rings_idle v k \<and> rv_held v k \<subseteq># mset (umem_frames n fs) \<and> length area = unat n * unat fs"
  then obtain ds k' area' where r: "\<forall>f :: u64 \<times> u32 \<Rightarrow> u64 \<times> u32. rx_take f lib k area cap = Some (map f ds, k', area')"
      "rings_idle v k'" "list_all (\<lambda>(a, l). unat a < unat n * unat fs) ds"
    using rx_take_ok [OF assms(1), of k area cap] by blast
  have d: "rx_desc n fs d = (frame_base fs (fst d), if fs < snd d then fs else snd d) \<and> frame_base fs (fst d) \<in> set (umem_frames n fs)"
    if "d \<in> set ds" for d
  proof -
    have "unat (fst d) < unat n * unat fs" using r(3) that by (auto simp: list_all_iff)
    then show ?thesis using rx_desc_eq [of "fst d" n fs "snd d"] frame_base_in by simp
  qed
  show "\<exists>ds k' area'. andro_rx_peek n fs lib k area cap = Some (ds, k', area') \<and> rings_idle v k' \<and>
      set (map fst ds) \<subseteq> set (umem_frames n fs) \<and> (\<forall>d \<in> set ds. snd d \<le> fs)"
    using r(1,2) d by (intro exI [of _ "map (rx_desc n fs) ds"] exI [of _ k'] exI [of _ area']) (auto simp: andro_rx_peek_def)
next
  fix ifname q and cfg :: xsk_config and s
  assume o: "xc_n_frames cfg = n \<and> xc_frame_size cfg = fs \<and> XskSocket_open (shim_api lo lib) ifname q cfg = Inr s"
  have "xsk_inv (shim_held v) (xc_n_frames cfg) (xc_frame_size cfg) s {#}"
    using o shim_contract [OF assms(1,2)] by (intro XskSocket_open_inv [OF _ shim_fresh [OF assms(3)]]) auto
  then show "mset (xs_free s) + shim_held v (xs_kernel s) = mset (umem_frames n fs)" using o by (simp add: xsk_inv_def)
  show "distinct (umem_frames n fs)" using assms(2) by (rule distinct_umem_frames)
qed (use andro_fq_push_ok [OF assms(1)] tx_ring [OF assms(1)] andro_cq_collect_ok [OF assms(1)] in blast)+

theorem shim_meets_contract_witness:
  "xdp_contract (shim_api (sim_open [sample_frame]) (sim_lib 2048)) (shim_held (sim_view 2048)) 64 2048 \<and>
   (\<exists>got k. andro_fq_push (sim_lib 2048) \<lparr> sl_kernel = \<lparr> sk_fill = [], sk_pending = [], sk_tx = [] \<rparr>, sl_fill = [],
      sl_fill_at = 0xfffffffe, sl_tx = [], sl_tx_at = 0, sl_rx = [], sl_rx_at = 0, sl_comp = [], sl_comp_at = 0 \<rparr>
      [0, 2048, 4096] 3 = Some (got, k))"
proof -
  let ?k = "\<lparr> sl_kernel = \<lparr> sk_fill = [], sk_pending = [], sk_tx = [] \<rparr>, sl_fill = [],
      sl_fill_at = 0xfffffffe, sl_tx = [], sl_tx_at = 0, sl_rx = [], sl_rx_at = 0, sl_comp = [], sl_comp_at = 0 \<rparr>"
  note c = shim_meets_contract [OF sim_lib_contract [of 2048 64] _ sim_fresh_socket [of "[sample_frame]"]]
  have "rings_idle (sim_view 2048) ?k \<and> length [0 :: u64, 2048, 4096] < 2 ^ 32" by (simp add: rings_idle_def sim_view_def)
  moreover have "\<forall>k addrs. rings_idle (sim_view 2048) k \<and> length addrs < 2 ^ 32 \<longrightarrow>
       (\<exists>got k'. andro_fq_push (sim_lib 2048) k addrs (of_nat (length addrs)) = Some (got, k') \<and> rings_idle (sim_view 2048) k')"
    using c by simp
  ultimately have "\<exists>got k'. andro_fq_push (sim_lib 2048) ?k [0, 2048, 4096] (of_nat (length [0 :: u64, 2048, 4096])) = Some (got, k')"
    by blast
  then show ?thesis using c by simp
qed

text \<open>C30: opening an AF_XDP socket through the shim never leaks or frees twice. Whatever the C library
  and libxdp answer, opening returns, either with an errno and everything it had acquired
  released, or with a socket whose closing releases everything; the socket has the frame size
  and number it was asked for, zero-copy is reported exactly when the successful attempt
  asked for it, and that only when the configuration did.\<close>

theorem xsk_open_close_balanced:
  "\<exists>h' r. andro_xsk_open lo ifname q cfg h = Some (h', r) \<and>
     (case r of Inl err \<Rightarrow> h' = h
      | Inr x \<Rightarrow> andro_xsk_close h' = Some h \<and> (ax_zc_bound x \<longrightarrow> xc_zerocopy cfg) \<and> xc_frame_size cfg \<noteq> 0 \<and>
          ax_frame_size x = xc_frame_size cfg \<and> ax_n_frames x = xc_n_frames cfg \<and>
          (\<exists>u u' scfg. lo_socket_create lo u ifname q scfg = (u', Inr (ax_lib x)) \<and> sc_zerocopy scfg = ax_zc_bound x))"
  by (rule andro_xsk_open_close)

theorem xsk_open_close_witness:
  "\<exists>h' x. andro_xsk_open (sim_open []) ''eth0'' 0 (sample_xsk \<lparr> xc_zerocopy := True \<rparr>) [] = Some (h', Inr x) \<and>
     andro_xsk_close h' = Some [] \<and> \<not> ax_zc_bound x"
proof -
  let ?cfg = "sample_xsk \<lparr> xc_zerocopy := True \<rparr>"
  obtain h' x where o: "andro_xsk_open (sim_open []) ''eth0'' 0 ?cfg [] = Some (h', Inr x)"
    by (simp add: andro_xsk_open_def sim_open_def andro_bind_def sample_xsk_def XskConfig_default_def Let_def)
  from xsk_open_close_balanced [of "sim_open []" "''eth0''" 0 ?cfg "[]"] o
  have "andro_xsk_close h' = Some []"
    "\<exists>u u' scfg. lo_socket_create (sim_open []) u ''eth0'' 0 scfg = (u', Inr (ax_lib x)) \<and> sc_zerocopy scfg = ax_zc_bound x"
    by auto
  then show ?thesis using o by (auto simp: sim_open_def split: if_splits)
qed

end
