(* ===== verification/Node_Run.thy ===== *)
theory Node_Run
  imports Afxdp_Props Control_Socket
begin

text \<open>
  A node at work: the per-core workers of \<open>run_multiqueue\<close> and the control socket over one shared
  fabric handle (\<open>FabricHandle\<close> of \<open>andromeda-dataplane/src/pipeline.rs\<close>). Each worker has its
  own pipeline, with its own translation state; a handler loads the handle when it resolves a
  destination, and the control thread stores to it. A run is an interleaving of the calls of
  all threads, given as a list of events.
\<close>

section \<open>The shared handle\<close>

text \<open>The handle is one cell; a clone of it is the same cell.\<close>

definition shared_fabric :: "fabric \<Rightarrow> fabric" where "shared_fabric fab = fab"

definition Pipeline_fabric_handle :: "pipeline \<Rightarrow> fabric" where "Pipeline_fabric_handle p = p_fabric p"

record node =
  nd_fabric :: fabric
  nd_workers :: "pipeline list"

text \<open>The calls a worker makes between two loads of the stop flag: a frame of the tenant port, a frame
  of the underlay port, a collection. Each loads the handle at most once and otherwise touches only
  the worker's own pipeline, so that load is the point at which the call takes its place among the
  events of the other threads.\<close>

datatype worker_call =
    On_Tenant bytes bytes u64
  | On_Underlay bytes bytes u64
  | Collect u64 u64

datatype worker_result = Handled bytes decision | Collected nat

definition worker_call :: "pipeline \<Rightarrow> worker_call \<Rightarrow> (pipeline \<times> worker_result) option" where
  "worker_call p c =
     (case c of
        On_Tenant frame out now \<Rightarrow> do {
          (p, out, d) \<leftarrow> Pipeline_on_tenant_frame p frame out now;
          Some (p, Handled out d) }
      | On_Underlay frame out now \<Rightarrow> do {
          (p, out, d) \<leftarrow> Pipeline_on_underlay_frame p frame out now;
          Some (p, Handled out d) }
      | Collect now idle \<Rightarrow> do {
          (p, n) \<leftarrow> Pipeline_gc p now idle;
          Some (p, Collected n) })"

text \<open>An event: a call of a worker, or a connection of the control socket with what the files hold
  at that time.\<close>

datatype node_event =
    Worker nat worker_call
  | Control "string \<Rightarrow> nat \<Rightarrow> string + string" control_conn

datatype node_output =
    Result nat worker_result
  | Reply_line "string option"

definition node_step :: "(string \<Rightarrow> string + raw_config) \<Rightarrow> node_event \<Rightarrow> node \<Rightarrow> (node \<times> node_output) option" where
  "node_step from_str e nd =
     (case e of
        Worker q c \<Rightarrow>
          if q < length (nd_workers nd) then do {
            (p, r) \<leftarrow> worker_call (see_fabric (Some (nd_fabric nd)) (nd_workers nd ! q)) c;
            Some (nd \<lparr> nd_workers := (nd_workers nd)[q := p] \<rparr>, Result q r) }
          else None
      | Control files conn \<Rightarrow> do {
          (fab, reply) \<leftarrow> handle_conn files from_str conn (nd_fabric nd);
          Some (nd \<lparr> nd_fabric := fab \<rparr>, Reply_line reply) })"

fun node_run :: "(string \<Rightarrow> string + raw_config) \<Rightarrow> node_event list \<Rightarrow> node \<Rightarrow> (node \<times> node_output list) option" where
  "node_run from_str [] nd = Some (nd, [])"
| "node_run from_str (e # es) nd = do {
     (nd, out) \<leftarrow> node_step from_str e nd;
     (nd, outs) \<leftarrow> node_run from_str es nd;
     Some (nd, out # outs) }"

text \<open>The start: every worker builds its pipeline over the handle, with its own engine.\<close>

definition node_start :: "nat \<Rightarrow> fabric \<Rightarrow> pipeline_config \<Rightarrow> ipv4addr \<Rightarrow> u16 \<times> u16 \<Rightarrow> node option" where
  "node_start n fab cfg ip ports = do {
     let handle = shared_fabric fab;
     eng \<leftarrow> NatEngine_new ip (fst ports) (snd ports);
     p \<leftarrow> Pipeline_new_shared cfg handle eng;
     Some \<lparr> nd_fabric = handle, nd_workers = replicate n p \<rparr> }"

section \<open>One worker alone\<close>

text \<open>The fabric after a connection, and the calls of one worker, each with the fabric the handle held
  when it was made.\<close>

definition fabric_after :: "(string \<Rightarrow> string + raw_config) \<Rightarrow> node_event \<Rightarrow> fabric \<Rightarrow> fabric" where
  "fabric_after from_str e fab =
     (case e of
        Worker q c \<Rightarrow> fab
      | Control files conn \<Rightarrow>
          (case cn_line conn of
             None \<Rightarrow> fab
           | Some l \<Rightarrow> (case reloads files from_str l of None \<Rightarrow> fab | Some nc \<Rightarrow> NodeConfig_build_fabric nc)))"

fun calls_of :: "(string \<Rightarrow> string + raw_config) \<Rightarrow> nat \<Rightarrow> fabric \<Rightarrow> node_event list \<Rightarrow> (fabric \<times> worker_call) list" where
  "calls_of from_str q fab [] = []"
| "calls_of from_str q fab (e # es) =
     (case e of
        Worker r c \<Rightarrow> if r = q then [(fab, c)] else []
      | Control files conn \<Rightarrow> []) @ calls_of from_str q (fabric_after from_str e fab) es"

fun results_of :: "nat \<Rightarrow> node_output list \<Rightarrow> worker_result list" where
  "results_of q [] = []"
| "results_of q (out # outs) =
     (case out of Result r w \<Rightarrow> if r = q then [w] else [] | Reply_line l \<Rightarrow> []) @ results_of q outs"

fun worker_run :: "pipeline \<Rightarrow> (fabric \<times> worker_call) list \<Rightarrow> (pipeline \<times> worker_result list) option" where
  "worker_run p [] = Some (p, [])"
| "worker_run p ((fab, c) # cs) = do {
     (p, r) \<leftarrow> worker_call (see_fabric (Some fab) p) c;
     (p, rs) \<leftarrow> worker_run p cs;
     Some (p, r # rs) }"

definition event_ok :: "nat \<Rightarrow> node_event \<Rightarrow> bool" where
  "event_ok n e = (case e of Worker q c \<Rightarrow> q < n | Control files conn \<Rightarrow> True)"

lemma worker_call_ok:
  assumes "pipeline_inv p"
  shows "\<exists>p' r. worker_call p c = Some (p', r) \<and> pipeline_inv p' \<and> p_cfg p' = p_cfg p \<and>
    (\<forall>out d n. r = Handled out d \<and> (d = Forward n \<or> d = Reply n) \<longrightarrow> n \<le> length out)"
proof (cases c)
  case (On_Tenant frame out now)
  from tenant.handle_ok [OF assms, of "(frame, pc_vni (p_cfg p))" out now] show ?thesis
    by (auto simp: On_Tenant worker_call_def Pipeline_on_tenant_frame_def handled_def)
next
  case (On_Underlay frame out now)
  from underlay.handle_ok [OF assms, of frame out now] show ?thesis
    by (auto simp: On_Underlay worker_call_def handled_def)
next
  case (Collect now idle)
  from Pipeline_gc_ok [OF assms, of now idle] obtain p' n where
    g: "Pipeline_gc p now idle = Some (p', n)" "pipeline_inv p'" by blast
  moreover have "p_cfg p' = p_cfg p" using g(1) by (auto simp: Pipeline_gc_def Option.bind_eq_Some_conv)
  ultimately show ?thesis by (simp add: Collect worker_call_def)
qed

lemma handle_conn_fabric:
  "\<exists>reply. handle_conn files from_str conn fab = Some (fabric_after from_str (Control files conn) fab, reply)"
proof (cases "cn_line conn")
  case (Some l)
  obtain reply where "apply_command files from_str l fab =
      Some (case reloads files from_str l of None \<Rightarrow> fab | Some nc \<Rightarrow> NodeConfig_build_fabric nc, reply)"
    using apply_command_total by blast
  then show ?thesis by (simp add: handle_conn_def fabric_after_def Some)
qed (simp add: handle_conn_def fabric_after_def)

lemma node_run_decomposes:
  assumes "\<forall>p \<in> set (nd_workers nd). pipeline_inv p" and "\<forall>e \<in> set es. event_ok (length (nd_workers nd)) e"
  shows "\<exists>nd' outs. node_run from_str es nd = Some (nd', outs) \<and> length outs = length es \<and>
    length (nd_workers nd') = length (nd_workers nd) \<and> (\<forall>p \<in> set (nd_workers nd'). pipeline_inv p) \<and>
    nd_fabric nd' = fold (fabric_after from_str) es (nd_fabric nd) \<and>
    (\<forall>q < length (nd_workers nd).
       worker_run (nd_workers nd ! q) (calls_of from_str q (nd_fabric nd) es) = Some (nd_workers nd' ! q, results_of q outs))"
  using assms
proof (induction es arbitrary: nd)
  case (Cons e es)
  show ?case
  proof (cases e)
    case (Control files conn)
    obtain reply where h: "handle_conn files from_str conn (nd_fabric nd) =
        Some (fabric_after from_str e (nd_fabric nd), reply)"
      using handle_conn_fabric Control by blast
    let ?nd = "nd \<lparr> nd_fabric := fabric_after from_str e (nd_fabric nd) \<rparr>"
    have "\<forall>p \<in> set (nd_workers ?nd). pipeline_inv p" "\<forall>e \<in> set es. event_ok (length (nd_workers ?nd)) e"
      using Cons.prems by simp_all
    from Cons.IH [OF this] h show ?thesis by (auto simp: Control node_step_def)
  next
    case (Worker r c)
    have r: "r < length (nd_workers nd)" using Cons.prems(2) by (simp add: Worker event_ok_def)
    let ?p = "see_fabric (Some (nd_fabric nd)) (nd_workers nd ! r)"
    have "pipeline_inv ?p" using Cons.prems(1) r by simp
    then obtain p' w where w: "worker_call ?p c = Some (p', w)" "pipeline_inv p'" using worker_call_ok by blast
    let ?nd = "nd \<lparr> nd_workers := (nd_workers nd)[r := p'] \<rparr>"
    have "\<forall>p \<in> set (nd_workers ?nd). pipeline_inv p" "\<forall>e \<in> set es. event_ok (length (nd_workers ?nd)) e"
      using Cons.prems w(2) set_update_subset_insert [of "nd_workers nd" r p'] by auto
    from Cons.IH [OF this] obtain nd' outs where
      i: "node_run from_str es ?nd = Some (nd', outs)" "length outs = length es" "length (nd_workers nd') = length (nd_workers nd)"
        "\<forall>p \<in> set (nd_workers nd'). pipeline_inv p" "nd_fabric nd' = fold (fabric_after from_str) es (nd_fabric nd)"
        "\<forall>q < length (nd_workers nd). worker_run ((nd_workers nd)[r := p'] ! q) (calls_of from_str q (nd_fabric nd) es) =
           Some (nd_workers nd' ! q, results_of q outs)"
      by auto
    have step: "node_step from_str e nd = Some (?nd, Result r w)" using r w(1) by (simp add: Worker node_step_def)
    have same: "fabric_after from_str e (nd_fabric nd) = nd_fabric nd" by (simp add: Worker fabric_after_def)
    have "worker_run (nd_workers nd ! q) (calls_of from_str q (nd_fabric nd) (e # es)) =
        Some (nd_workers nd' ! q, results_of q (Result r w # outs))" if "q < length (nd_workers nd)" for q
      using i(6) that w(1) r by (cases "r = q") (auto simp: Worker fabric_after_def nth_list_update)
    then show ?thesis using step i same by simp
  qed
qed simp

lemma node_start_ok:
  assumes "node_start n fab cfg ip ports = Some nd"
  shows "nd_fabric nd = fab" "length (nd_workers nd) = n" "\<forall>p \<in> set (nd_workers nd). pipeline_reachable p"
    "\<forall>p \<in> set (nd_workers nd). p_cfg p = cfg \<and> p_fabric p = fab"
proof -
  from assms obtain eng p where e: "NatEngine_new ip (fst ports) (snd ports) = Some eng" "Pipeline_new_shared cfg fab eng = Some p"
    "nd = \<lparr> nd_fabric = fab, nd_workers = replicate n p \<rparr>"
    by (auto simp: node_start_def shared_fabric_def Option.bind_eq_Some_conv)
  then have "pipeline_reachable p"
    using pipeline_reachable.start [OF nat_reachable.start [OF e(1)], of cfg fab p] by (simp add: Pipeline_new_def)
  moreover have "p_cfg p = cfg \<and> p_fabric p = fab"
    using e(2) by (auto simp: Pipeline_new_shared_def Option.bind_eq_Some_conv)
  ultimately show "nd_fabric nd = fab" "length (nd_workers nd) = n" "\<forall>p \<in> set (nd_workers nd). pipeline_reachable p"
    "\<forall>p \<in> set (nd_workers nd). p_cfg p = cfg \<and> p_fabric p = fab"
    by (simp_all add: e(3))
qed

lemma calls_of_append:
  "calls_of from_str q fab (es @ es') =
     calls_of from_str q fab es @ calls_of from_str q (fold (fabric_after from_str) es fab) es'"
  by (induction es arbitrary: fab) simp_all

text \<open>The calls of one worker in events that hold no reload.\<close>

fun own_calls :: "nat \<Rightarrow> node_event list \<Rightarrow> worker_call list" where
  "own_calls q [] = []"
| "own_calls q (Worker r c # es) = (if r = q then c # own_calls q es else own_calls q es)"
| "own_calls q (Control files conn # es) = own_calls q es"

definition no_reload :: "(string \<Rightarrow> string + raw_config) \<Rightarrow> node_event \<Rightarrow> bool" where
  "no_reload from_str e =
     (case e of
        Worker q c \<Rightarrow> True
      | Control files conn \<Rightarrow>
          (case cn_line conn of None \<Rightarrow> True | Some l \<Rightarrow> reloads files from_str l = None))"

lemma fabric_after_same: "no_reload from_str e \<Longrightarrow> fabric_after from_str e fab = fab"
  by (auto simp: no_reload_def fabric_after_def split: node_event.splits option.splits)

lemma fold_fabric_same: "list_all (no_reload from_str) es \<Longrightarrow> fold (fabric_after from_str) es fab = fab"
  by (induction es) (simp_all add: fabric_after_same)

lemma calls_of_no_reload:
  "list_all (no_reload from_str) es \<Longrightarrow> calls_of from_str q fab es = map (Pair fab) (own_calls q es)"
  by (induction q es rule: own_calls.induct) (simp_all add: fabric_after_same)

lemma node_run_append:
  "node_run from_str (es @ es') nd = do {
     (nd, outs) \<leftarrow> node_run from_str es nd;
     (nd, outs') \<leftarrow> node_run from_str es' nd;
     Some (nd, outs @ outs') }"
proof (induction es arbitrary: nd)
  case (Cons e es)
  show ?case by (cases "node_step from_str e nd") (auto simp: Cons case_prod_unfold Option.bind_assoc)
qed (simp add: case_prod_unfold)

section \<open>Properties\<close>

text \<open>A node refines its workers. However the calls of the workers and the connections of the
  control socket interleave, nothing panics, every call gets its result, the handle ends with the
  fabric of the last reload, and each worker has the state and the results it would have alone,
  making its own calls with the fabric the handle held at each: translation state is not shared
  between workers and a worker is touched by another thread only through the handle.\<close>

lemma node_refines_workers:
  assumes "node_start n fab cfg ip ports = Some nd" and "\<forall>e \<in> set es. event_ok n e"
  shows "\<exists>nd' outs. node_run from_str es nd = Some (nd', outs) \<and> length outs = length es \<and>
    length (nd_workers nd') = n \<and> nd_fabric nd' = fold (fabric_after from_str) es fab \<and>
    (\<forall>q < n. worker_run (nd_workers nd ! q) (calls_of from_str q fab es) = Some (nd_workers nd' ! q, results_of q outs))"
proof -
  note start = node_start_ok [OF assms(1)]
  have "\<forall>p \<in> set (nd_workers nd). pipeline_inv p" using start(3) pipeline_reachable_inv by blast
  from node_run_decomposes [OF this, of es from_str] assms(2) show ?thesis by (auto simp: start(1,2))
qed

lemma sample_reloads: "reloads (\<lambda>_ _. Inr []) (\<lambda>_. Inr sample_raw) ''reload /etc/a.toml'' = Some sample_config"
proof -
  have mem: "'' '' \<in> set ws_chars" by (simp add: ws_chars_def char_of_def bit_0)
  have b: "blank []" "blank '' ''"
    using mem by (auto simp: blank_def intro: exI [of _ "[]"] exI [of _ "['' '']"])
  have p: "is_word ''/etc/a.toml''" by (simp add: is_word_def is_graph_def)
  from reload_words [OF b(1,2) _ b(1) p] obtain rest where
    "split_ws (str_trim ''reload /etc/a.toml'') = (''reload'', Some rest)" "str_trim rest = ''/etc/a.toml''" by auto
  then show ?thesis by (simp add: reloads_def NodeConfig_load_def sample_config_parse)
qed

text \<open>Two workers, a frame for each, and a reload between them.\<close>

definition sample_conn :: control_conn where
  "sample_conn = \<lparr> cn_line = Some ''reload /etc/a.toml'', cn_clones = True \<rparr>"

definition sample_events :: "node_event list" where
  "sample_events =
     [Worker 0 (On_Tenant sample_frame (replicate 256 0) 0), Control (\<lambda>_ _. Inr []) sample_conn,
      Worker 1 (On_Tenant sample_frame (replicate 256 0) 5), Worker 0 (Collect 1000 300)]"

text \<open>C18: a reload reaches every worker at once. When a connection of the control socket asks for a
  configuration that loads, then from the reply on, whatever happened before and until the next
  reload, every worker handles all its calls with exactly the fabric of that configuration, and
  goes on from the translation state it had: a reload loses no connection.\<close>

theorem node_reload_reaches_workers:
  assumes "node_start n fab cfg ip ports = Some nd" and "\<forall>e \<in> set (es @ es'). event_ok n e"
    and "cn_line conn = Some l" and "reloads files from_str l = Some nc" and "list_all (no_reload from_str) es'"
  shows "\<exists>nd1 outs nd' outs'. node_run from_str es nd = Some (nd1, outs) \<and>
    node_run from_str (es @ Control files conn # es') nd = Some (nd', outs @ outs') \<and>
    nd_fabric nd' = NodeConfig_build_fabric nc \<and>
    (\<forall>q < n. worker_run (nd_workers nd1 ! q) (map (Pair (NodeConfig_build_fabric nc)) (own_calls q es')) =
       Some (nd_workers nd' ! q, results_of q outs'))"
proof -
  note start = node_start_ok [OF assms(1)]
  have inv: "\<forall>p \<in> set (nd_workers nd). pipeline_inv p" using start(3) pipeline_reachable_inv by blast
  obtain nd1 outs where one: "node_run from_str es nd = Some (nd1, outs)" "length (nd_workers nd1) = n"
    "\<forall>p \<in> set (nd_workers nd1). pipeline_inv p"
    using node_run_decomposes [OF inv, of es from_str] assms(2) by (auto simp: start(2))
  let ?e = "Control files conn"
  have ok: "\<forall>e \<in> set (?e # es'). event_ok (length (nd_workers nd1)) e"
    using assms(2) by (simp add: one(2) event_ok_def)
  have after: "fabric_after from_str ?e (nd_fabric nd1) = NodeConfig_build_fabric nc"
    using assms(3,4) by (simp add: fabric_after_def)
  obtain nd' outs' where two: "node_run from_str (?e # es') nd1 = Some (nd', outs')"
    "nd_fabric nd' = NodeConfig_build_fabric nc"
    "\<forall>q < n. worker_run (nd_workers nd1 ! q) (calls_of from_str q (nd_fabric nd1) (?e # es')) =
       Some (nd_workers nd' ! q, results_of q outs')"
    using node_run_decomposes [OF one(3) ok, of from_str] assms(5)
    by (auto simp: one(2) after fold_fabric_same simp del: calls_of.simps node_run.simps)
  have "node_run from_str (es @ ?e # es') nd = Some (nd', outs @ outs')"
    using one(1) two(1) by (simp add: node_run_append del: node_run.simps)
  then show ?thesis using one(1) two(2,3) assms(5) by (auto simp: after calls_of_no_reload)
qed

theorem node_reload_reaches_workers_witness:
  "\<exists>nd nd1 nd' outs outs'. node_start 2 sample_fabric sample_cfg 0xcb007101 (40000, 40001) = Some nd \<and>
     node_run (\<lambda>_. Inr sample_raw) (take 1 sample_events) nd = Some (nd1, outs) \<and>
     node_run (\<lambda>_. Inr sample_raw) sample_events nd = Some (nd', outs @ outs') \<and>
     nd_fabric nd' = NodeConfig_build_fabric sample_config \<and>
     worker_run (nd_workers nd1 ! 0) [(NodeConfig_build_fabric sample_config, Collect 1000 300)] =
       Some (nd_workers nd' ! 0, results_of 0 outs')"
proof -
  obtain eng p where p: "NatEngine_new 0xcb007101 40000 40001 = Some eng" "Pipeline_new sample_cfg sample_fabric eng = Some p"
    by (rule sample_pipeline)
  then obtain nd where nd: "node_start 2 sample_fabric sample_cfg 0xcb007101 (40000, 40001) = Some nd"
    by (simp add: node_start_def shared_fabric_def Pipeline_new_def)
  let ?es = "take 1 sample_events" and ?es' = "drop 2 sample_events" and ?f = "\<lambda>_. Inr sample_raw :: string + raw_config"
  have split: "?es @ Control (\<lambda>_ _. Inr []) sample_conn # ?es' = sample_events" by (simp add: sample_events_def)
  have hyps: "\<forall>e \<in> set (?es @ ?es'). event_ok 2 e" "cn_line sample_conn = Some ''reload /etc/a.toml''"
    "list_all (no_reload ?f) ?es'"
    by (simp_all add: sample_events_def event_ok_def sample_conn_def no_reload_def)
  have calls: "map (Pair (NodeConfig_build_fabric sample_config)) (own_calls 0 ?es') =
      [(NodeConfig_build_fabric sample_config, Collect 1000 300)]"
    by (simp add: sample_events_def)
  from node_reload_reaches_workers [OF nd hyps(1,2) sample_reloads hyps(3), unfolded split]
  obtain nd1 outs nd' outs' where run: "node_run ?f ?es nd = Some (nd1, outs)"
    "node_run ?f sample_events nd = Some (nd', outs @ outs')" "nd_fabric nd' = NodeConfig_build_fabric sample_config"
    "\<forall>q < 2. worker_run (nd_workers nd1 ! q) (map (Pair (NodeConfig_build_fabric sample_config)) (own_calls q ?es')) =
       Some (nd_workers nd' ! q, results_of q outs')"
    by blast
  from run(4) have "worker_run (nd_workers nd1 ! 0) (map (Pair (NodeConfig_build_fabric sample_config)) (own_calls 0 ?es')) =
       Some (nd_workers nd' ! 0, results_of 0 outs')" by simp
  then show ?thesis using nd run(1-3) unfolding calls by blast
qed

end
