(* ===== verification/Spsc_Threads.thy ===== *)
theory Spsc_Threads
  imports Spsc
begin

text \<open>
  Two threads over the queue of \<open>andromeda-dataplane/src/spsc.rs\<close>: the transfer that the tests
  \<open>two_thread_stress_preserves_fifo\<close> and \<open>loom_spsc_is_lossless_fifo\<close> run. One thread pushes the values
  of a list in order and tries again while the ring is full; the other pops until it has as many
  values. The threads take the atomic steps of \<open>Spsc\<close>, in any order.
\<close>

section \<open>The transfer\<close>

text \<open>The queue with its threads, what the producer still has to push (the value it is at included),
  and what the consumer has taken.\<close>

record 'a transfer =
  tf_spsc :: "'a spsc_state"
  tf_todo :: "'a list"
  tf_got :: "'a list"

definition begin_push :: "'a \<Rightarrow> 'a spsc_state \<Rightarrow> 'a spsc_state" where
  "begin_push v s = s \<lparr> sp_prod := PLoadHead v (rg_tail (sp_ring s)) \<rparr>"

text \<open>What the loops do when a step ends an operation: a push that is published is done with its value,
  a push that found the ring full is tried again; a value that was popped is kept, an empty ring is
  polled again.\<close>

definition todo_after :: "'a prod_pc \<Rightarrow> 'a list \<Rightarrow> 'a list" where
  "todo_after pc todo = (case pc of PPublish v t \<Rightarrow> tl todo | _ \<Rightarrow> todo)"

definition got_after :: "'a cons_pc \<Rightarrow> 'a list \<Rightarrow> 'a list" where
  "got_after pc got = (case pc of CRelease v h \<Rightarrow> got @ [v] | _ \<Rightarrow> got)"

text \<open>A step of either thread, where the consumer takes \<open>n\<close> values.\<close>

inductive transfer_step :: "nat \<Rightarrow> 'a transfer \<Rightarrow> 'a transfer \<Rightarrow> bool" for n where
  send_begin: "sp_prod (tf_spsc x) = PIdle \<Longrightarrow> tf_todo x = v # vs \<Longrightarrow>
    transfer_step n x (x \<lparr> tf_spsc := begin_push v (tf_spsc x) \<rparr>)"
| send_on: "sp_prod (tf_spsc x) \<noteq> PIdle \<Longrightarrow> push_step (tf_spsc x) s \<Longrightarrow>
    transfer_step n x (x \<lparr> tf_spsc := s, tf_todo := todo_after (sp_prod (tf_spsc x)) (tf_todo x) \<rparr>)"
| receive: "length (tf_got x) < n \<Longrightarrow> pop_step (tf_spsc x) s \<Longrightarrow>
    transfer_step n x (x \<lparr> tf_spsc := s, tf_got := got_after (sp_cons (tf_spsc x)) (tf_got x) \<rparr>)"

definition transfer_start :: "'a \<Rightarrow> nat \<Rightarrow> 'a list \<Rightarrow> 'a transfer" where
  "transfer_start dflt capacity xs = \<lparr> tf_spsc = spsc_start dflt capacity, tf_todo = xs, tf_got = [] \<rparr>"

text \<open>Both threads have returned.\<close>

definition transfer_done :: "nat \<Rightarrow> 'a transfer \<Rightarrow> bool" where
  "transfer_done n x \<longleftrightarrow> tf_todo x = [] \<and> sp_prod (tf_spsc x) = PIdle \<and> sp_cons (tf_spsc x) = CIdle \<and> \<not> length (tf_got x) < n"

text \<open>The two tests, as the transfers they start.\<close>

definition two_thread_stress_preserves_fifo :: "u64 transfer" where
  "two_thread_stress_preserves_fifo = transfer_start 0 1024 (map of_nat [0..<200000])"

definition loom_spsc_is_lossless_fifo :: "u64 transfer" where
  "loom_spsc_is_lossless_fifo = transfer_start 0 2 [0, 1, 2]"

section \<open>Invariant\<close>

text \<open>What the threads know of each other's data: the values already pushed and those to come are the
  list, the consumer's are those taken out of the ring, and a thread inside an operation is where
  its loop says.\<close>

definition transfer_inv :: "nat \<Rightarrow> 'a list \<Rightarrow> 'a transfer \<Rightarrow> bool" where
  "transfer_inv k xs x \<longleftrightarrow>
     (let s = tf_spsc x in
      spsc_inv k s \<and> sp_pushed s @ tf_todo x = xs \<and> sp_popped s = tf_got x \<and>
      (case sp_prod s of PIdle \<Rightarrow> True
       | PLoadHead v t \<Rightarrow> tf_todo x \<noteq> [] \<and> hd (tf_todo x) = v
       | PWrite v t \<Rightarrow> tf_todo x \<noteq> [] \<and> hd (tf_todo x) = v
       | PPublish v t \<Rightarrow> tf_todo x \<noteq> [] \<and> hd (tf_todo x) = v) \<and>
      (sp_cons s \<noteq> CIdle \<longrightarrow> length (tf_got x) < length xs))"

lemma spsc_inv_counts: "spsc_inv k s \<Longrightarrow> length (sp_popped s) \<le> length (sp_pushed s)"
  by (auto simp: spsc_inv_def Let_def)

lemma push_step_begin: "sp_prod s = PIdle \<Longrightarrow> push_step s (begin_push v s)"
  unfolding begin_push_def by (rule push_begin)

lemma transfer_inv_step:
  assumes "transfer_step (length xs) x x'" and inv: "transfer_inv k xs x"
  shows "transfer_inv k xs x'"
  using assms(1)
proof (cases rule: transfer_step.cases)
  case (send_begin v vs)
  from spsc_inv_push_step [OF push_step_begin [OF send_begin(2)]] inv
  have "spsc_inv k (begin_push v (tf_spsc x))" by (simp add: transfer_inv_def Let_def)
  then show ?thesis using inv send_begin by (auto simp: transfer_inv_def Let_def begin_push_def)
next
  case (send_on s)
  from spsc_inv_push_step [OF send_on(3)] inv have "spsc_inv k s" by (simp add: transfer_inv_def Let_def)
  from send_on(3) this send_on(1,2) inv show ?thesis
    by (cases rule: push_step.cases) (auto simp: transfer_inv_def Let_def todo_after_def neq_Nil_conv)
next
  case (receive s)
  from spsc_inv_pop_step [OF receive(3)] inv have i: "spsc_inv k s" by (simp add: transfer_inv_def Let_def)
  from receive(3) i receive(1,2) inv show ?thesis
    by (cases rule: pop_step.cases) (auto simp: transfer_inv_def Let_def got_after_def split: prod_pc.splits)
qed

lemma transfer_inv_start:
  assumes "capacity \<le> 2 ^ 63"
  shows "\<exists>k. transfer_inv k xs (transfer_start d capacity xs)"
  using spsc_inv_start [OF assms, of d]
  by (auto simp: transfer_inv_def transfer_start_def Let_def spsc_start_def)

lemma transfer_reaches_inv:
  "(transfer_step (length xs))\<^sup>*\<^sup>* x x' \<Longrightarrow> transfer_inv k xs x \<Longrightarrow> transfer_inv k xs x'"
  by (induction rule: rtranclp_induct) (auto intro: transfer_inv_step)

section \<open>Progress\<close>

text \<open>A thread inside an operation can end it, whatever the other one does.\<close>

lemma thread_ends_op:
  assumes "spsc_inv k s"
  shows "sp_prod s \<noteq> PIdle \<Longrightarrow> \<exists>s'. push_step s s' \<and> prod_rank (sp_prod s') < prod_rank (sp_prod s) \<and> sp_cons s' = sp_cons s"
    and "sp_cons s \<noteq> CIdle \<Longrightarrow> \<exists>s'. pop_step s s' \<and> cons_rank (sp_cons s') < cons_rank (sp_cons s) \<and> sp_prod s' = sp_prod s"
proof -
  let ?r = "sp_ring s" and ?H = "length (sp_popped s)" and ?T = "length (sp_pushed s)"
  have at: "ring_at k ?r ?H ?T" and len: "length (rg_buf ?r) = 2 ^ k"
    using assms by (simp_all add: spsc_inv_def ring_at_def Let_def)
  have seen: "sees_head s (sp_seen_head s)" "sees_tail s (sp_seen_tail s)"
    using assms by (simp_all add: spsc_inv_def sees_head_def sees_tail_def Let_def)
  show "\<exists>s'. push_step s s' \<and> prod_rank (sp_prod s') < prod_rank (sp_prod s) \<and> sp_cons s' = sp_cons s"
    if "sp_prod s \<noteq> PIdle"
  proof (cases "sp_prod s")
    case (PLoadHead v t)
    show ?thesis
      using push_full [OF PLoadHead seen(1)] push_room [OF PLoadHead seen(1)]
      by (cases "t - of_nat (sp_seen_head s) = of_nat (length (rg_buf ?r))") (force simp: PLoadHead)+
  next
    case (PWrite v t)
    then have "slot_of ?r t = ?T mod 2 ^ k"
      using assms slot_of_at [OF at, of ?T] by (auto simp: spsc_inv_def Let_def)
    then show ?thesis using push_write [OF PWrite] by (force simp: PWrite len)
  next
    case (PPublish v t)
    then show ?thesis using push_publish [OF PPublish] by (force simp: PPublish)
  qed (use that in simp)
  show "\<exists>s'. pop_step s s' \<and> cons_rank (sp_cons s') < cons_rank (sp_cons s) \<and> sp_prod s' = sp_prod s"
    if "sp_cons s \<noteq> CIdle"
  proof (cases "sp_cons s")
    case (CLoadTail h)
    show ?thesis
      using pop_empty [OF CLoadTail seen(2)] pop_some [OF CLoadTail seen(2)]
      by (cases "h = of_nat (sp_seen_tail s)") (force simp: CLoadTail)+
  next
    case (CRead h)
    then have "slot_of ?r h = ?H mod 2 ^ k"
      using assms slot_of_at [OF at, of ?H] by (auto simp: spsc_inv_def Let_def)
    then show ?thesis using pop_read [OF CRead] by (force simp: CRead len)
  next
    case (CRelease v h)
    then show ?thesis using pop_release [OF CRelease] by (force simp: CRelease)
  qed (use that in simp)
qed

text \<open>With both threads between two operations, an empty ring takes a value, and a ring that holds one
  gives it.\<close>

lemma transfer_push:
  assumes "transfer_inv k xs x" and "sp_prod (tf_spsc x) = PIdle" and "tf_todo x = v # vs"
    and "length (sp_popped (tf_spsc x)) = length (sp_pushed (tf_spsc x))"
  shows "\<exists>x'. (transfer_step n)\<^sup>*\<^sup>* x x' \<and> tf_todo x' = vs \<and> tf_got x' = tf_got x"
proof -
  let ?s = "tf_spsc x"
  let ?r = "sp_ring ?s" and ?H = "length (sp_popped ?s)"
  have inv: "spsc_inv k ?s" using assms(1) by (simp add: transfer_inv_def Let_def)
  then have "ring_at k ?r ?H (length (sp_pushed ?s))" and seen: "sp_seen_head ?s \<le> ?H"
    by (simp_all add: spsc_inv_def Let_def)
  then have at: "ring_at k ?r ?H ?H" by (simp only: assms(4))
  then have len: "length (rg_buf ?r) = 2 ^ k" by (simp add: ring_at_def)
  have tail: "rg_tail ?r = of_nat ?H" using at by (simp add: ring_at_def)
  have room: "rg_tail ?r - of_nat ?H \<noteq> of_nat (length (rg_buf ?r))"
    using ring_at_full [OF at, of ?H] by (simp add: len)
  have slot: "slot_of ?r (rg_tail ?r) < length (rg_buf ?r)" using slot_of_at [OF at, of ?H] by (simp add: tail len)
  let ?s1 = "begin_push v ?s" and ?s2 = "?s \<lparr> sp_prod := PWrite v (rg_tail ?r), sp_seen_head := ?H \<rparr>"
  let ?s3 = "?s2 \<lparr> sp_prod := PPublish v (rg_tail ?r),
      sp_ring := ?r \<lparr> rg_buf := (rg_buf ?r)[slot_of ?r (rg_tail ?r) := v] \<rparr> \<rparr>"
  let ?s4 = "?s3 \<lparr> sp_prod := PIdle, sp_ring := (sp_ring ?s3) \<lparr> rg_tail := rg_tail ?r + 1 \<rparr>, sp_pushed := sp_pushed ?s @ [v] \<rparr>"
  have 1: "transfer_step n x (x \<lparr> tf_spsc := ?s1 \<rparr>)" using assms(2,3) by (rule send_begin)
  have "push_step ?s1 ?s2"
    using push_room [of ?s1 v "rg_tail ?r" ?H] room seen by (simp add: begin_push_def sees_head_def)
  then have 2: "transfer_step n (x \<lparr> tf_spsc := ?s1 \<rparr>) (x \<lparr> tf_spsc := ?s2 \<rparr>)"
    using send_on [of "x \<lparr> tf_spsc := ?s1 \<rparr>" ?s2 n] by (simp add: begin_push_def todo_after_def)
  have "push_step ?s2 ?s3" using push_write [of ?s2 v "rg_tail ?r"] slot by simp
  then have 3: "transfer_step n (x \<lparr> tf_spsc := ?s2 \<rparr>) (x \<lparr> tf_spsc := ?s3 \<rparr>)"
    using send_on [of "x \<lparr> tf_spsc := ?s2 \<rparr>" ?s3 n] by (simp add: todo_after_def)
  have "push_step ?s3 ?s4" using push_publish [of ?s3 v "rg_tail ?r"] by simp
  then have 4: "transfer_step n (x \<lparr> tf_spsc := ?s3 \<rparr>) (x \<lparr> tf_spsc := ?s4, tf_todo := vs \<rparr>)"
    using send_on [of "x \<lparr> tf_spsc := ?s3 \<rparr>" ?s4 n] assms(3) by (simp add: todo_after_def)
  from 1 2 3 4 have "(transfer_step n)\<^sup>*\<^sup>* x (x \<lparr> tf_spsc := ?s4, tf_todo := vs \<rparr>)"
    by (meson rtranclp.rtrancl_into_rtrancl r_into_rtranclp)
  then show ?thesis by (intro exI [of _ "x \<lparr> tf_spsc := ?s4, tf_todo := vs \<rparr>"]) simp
qed

lemma transfer_pop:
  assumes "transfer_inv k xs x" and "sp_cons (tf_spsc x) = CIdle" and "length (tf_got x) < n"
    and "length (sp_popped (tf_spsc x)) < length (sp_pushed (tf_spsc x))"
  shows "\<exists>x' v. (transfer_step n)\<^sup>*\<^sup>* x x' \<and> tf_todo x' = tf_todo x \<and> tf_got x' = tf_got x @ [v]"
proof -
  let ?s = "tf_spsc x"
  let ?r = "sp_ring ?s" and ?H = "length (sp_popped ?s)" and ?T = "length (sp_pushed ?s)"
  have inv: "spsc_inv k ?s" using assms(1) by (simp add: transfer_inv_def Let_def)
  then have at: "ring_at k ?r ?H ?T" and len: "length (rg_buf ?r) = 2 ^ k" and seen: "sp_seen_tail ?s \<le> ?T"
    by (simp_all add: spsc_inv_def ring_at_def Let_def)
  have some: "rg_head ?r \<noteq> of_nat ?T" using ring_at_empty [OF at, of ?T] assms(4) by simp
  have slot: "slot_of ?r (rg_head ?r) < length (rg_buf ?r)"
    using slot_of_at [OF at, of ?H] at by (simp add: ring_at_def)
  let ?v = "rg_buf ?r ! slot_of ?r (rg_head ?r)"
  let ?s1 = "?s \<lparr> sp_cons := CLoadTail (rg_head ?r) \<rparr>" and ?s2 = "?s \<lparr> sp_cons := CRead (rg_head ?r), sp_seen_tail := ?T \<rparr>"
  let ?s3 = "?s2 \<lparr> sp_cons := CRelease ?v (rg_head ?r) \<rparr>"
  let ?s4 = "?s3 \<lparr> sp_cons := CIdle, sp_ring := ?r \<lparr> rg_head := rg_head ?r + 1 \<rparr>, sp_popped := sp_popped ?s @ [?v] \<rparr>"
  note step = receive [where n = n]
  have "pop_step ?s ?s1" using assms(2) by (rule pop_begin)
  then have 1: "transfer_step n x (x \<lparr> tf_spsc := ?s1 \<rparr>)"
    using step [of x ?s1] assms(2,3) by (simp add: got_after_def)
  have "pop_step ?s1 ?s2" using pop_some [of ?s1 "rg_head ?r" ?T] some seen by (simp add: sees_tail_def)
  then have 2: "transfer_step n (x \<lparr> tf_spsc := ?s1 \<rparr>) (x \<lparr> tf_spsc := ?s2 \<rparr>)"
    using step [of "x \<lparr> tf_spsc := ?s1 \<rparr>" ?s2] assms(3) by (simp add: got_after_def)
  have "pop_step ?s2 ?s3" using pop_read [of ?s2 "rg_head ?r"] slot by simp
  then have 3: "transfer_step n (x \<lparr> tf_spsc := ?s2 \<rparr>) (x \<lparr> tf_spsc := ?s3 \<rparr>)"
    using step [of "x \<lparr> tf_spsc := ?s2 \<rparr>" ?s3] assms(3) by (simp add: got_after_def)
  have "pop_step ?s3 ?s4" using pop_release [of ?s3 ?v "rg_head ?r"] by simp
  then have 4: "transfer_step n (x \<lparr> tf_spsc := ?s3 \<rparr>) (x \<lparr> tf_spsc := ?s4, tf_got := tf_got x @ [?v] \<rparr>)"
    using step [of "x \<lparr> tf_spsc := ?s3 \<rparr>" ?s4] assms(3) by (simp add: got_after_def)
  from 1 2 3 4 have "(transfer_step n)\<^sup>*\<^sup>* x (x \<lparr> tf_spsc := ?s4, tf_got := tf_got x @ [?v] \<rparr>)"
    by (meson rtranclp.rtrancl_into_rtrancl r_into_rtranclp)
  then show ?thesis by (intro exI [of _ "x \<lparr> tf_spsc := ?s4, tf_got := tf_got x @ [?v] \<rparr>"] exI [of _ ?v]) simp
qed

text \<open>What is left to do: values to push or pop, then steps of the operations begun.\<close>

definition transfer_left :: "'a list \<Rightarrow> 'a transfer \<Rightarrow> nat" where
  "transfer_left xs x = length (tf_todo x) + (length xs - length (tf_got x))"

definition steps_left :: "'a transfer \<Rightarrow> nat" where
  "steps_left x = prod_rank (sp_prod (tf_spsc x)) + cons_rank (sp_cons (tf_spsc x))"

lemma transfer_advances:
  assumes inv: "transfer_inv k xs x" and "\<not> transfer_done (length xs) x"
  shows "\<exists>x'. (transfer_step (length xs))\<^sup>*\<^sup>* x x' \<and>
    (transfer_left xs x' < transfer_left xs x \<or> transfer_left xs x' \<le> transfer_left xs x \<and> steps_left x' < steps_left x)"
proof -
  let ?s = "tf_spsc x"
  have sinv: "spsc_inv k ?s" using inv by (simp add: transfer_inv_def Let_def)
  consider "sp_prod ?s \<noteq> PIdle" | "sp_cons ?s \<noteq> CIdle" | "sp_prod ?s = PIdle" "sp_cons ?s = CIdle" by blast
  then show ?thesis
  proof cases
    case 1
    obtain s' where s': "push_step ?s s'" "prod_rank (sp_prod s') < prod_rank (sp_prod ?s)" "sp_cons s' = sp_cons ?s"
      using thread_ends_op(1) [OF sinv 1] by blast
    have "length (todo_after (sp_prod ?s) (tf_todo x)) \<le> length (tf_todo x)"
      by (simp add: todo_after_def split: prod_pc.split)
    then show ?thesis
      using r_into_rtranclp [of "transfer_step (length xs)", OF send_on [OF 1 s'(1)]] s'(2,3)
      by (intro exI conjI) (auto simp: transfer_left_def steps_left_def)
  next
    case 2
    obtain s' where s': "pop_step ?s s'" "cons_rank (sp_cons s') < cons_rank (sp_cons ?s)" "sp_prod s' = sp_prod ?s"
      using thread_ends_op(2) [OF sinv 2] by blast
    have "length (tf_got x) < length xs" using inv 2 by (simp add: transfer_inv_def Let_def)
    moreover have "length (tf_got x) \<le> length (got_after (sp_cons ?s) (tf_got x))"
      by (simp add: got_after_def split: cons_pc.split)
    ultimately show ?thesis
      using r_into_rtranclp [of "transfer_step (length xs)", OF receive [OF _ s'(1)]] s'(2,3)
      by (intro exI conjI) (auto simp: transfer_left_def steps_left_def)
  next
    case 3
    have lists: "sp_pushed ?s @ tf_todo x = xs" "sp_popped ?s = tf_got x"
      using inv by (simp_all add: transfer_inv_def Let_def)
    show ?thesis
    proof (cases "length (sp_popped ?s) < length (sp_pushed ?s)")
      case True
      moreover from this have "length (tf_got x) < length xs" using lists by auto
      ultimately show ?thesis using transfer_pop [OF inv 3(2)] by (fastforce simp: transfer_left_def)
    next
      case False
      then have eq: "length (sp_popped ?s) = length (sp_pushed ?s)" using spsc_inv_counts [OF sinv] by simp
      with assms(2) 3 lists have "tf_todo x \<noteq> []" by (auto simp: transfer_done_def)
      then obtain v vs where "tf_todo x = v # vs" by (cases "tf_todo x") auto
      from transfer_push [OF inv 3(1) this eq, of "length xs"] this show ?thesis
        by (fastforce simp: transfer_left_def)
    qed
  qed
qed

lemma transfer_completes:
  "transfer_inv k xs x \<Longrightarrow> \<exists>x'. (transfer_step (length xs))\<^sup>*\<^sup>* x x' \<and> transfer_done (length xs) x'"
proof (induction x rule: wf_induct [OF wf_measures [of "[transfer_left xs, steps_left]"]])
  case (1 x)
  show ?case
  proof (cases "transfer_done (length xs) x")
    case False
    from transfer_advances [OF 1(2) this] obtain x' where x': "(transfer_step (length xs))\<^sup>*\<^sup>* x x'"
      and less: "transfer_left xs x' < transfer_left xs x \<or> transfer_left xs x' \<le> transfer_left xs x \<and> steps_left x' < steps_left x"
      by blast
    from less have "(x', x) \<in> measures [transfer_left xs, steps_left]" by (auto simp: measures_less measures_lesseq)
    with 1(1) transfer_reaches_inv [OF x'(1) 1(2)] obtain x'' where
      "(transfer_step (length xs))\<^sup>*\<^sup>* x' x''" "transfer_done (length xs) x''" by blast
    with x'(1) show ?thesis by (meson rtranclp_trans)
  qed blast
qed

section \<open>Properties\<close>

text \<open>C19: a transfer through the ring. Two threads that push the values of a list and pop as many, over
  a ring of any capacity up to 2^63 and under every interleaving of their steps, late observations
  included: what the consumer has at any time is what comes first in the list; when both threads
  have returned it is the whole list; and from every state they can be in, both can still come to
  return, so no interleaving leads them into a deadlock or a lost value.\<close>

theorem spsc_transfer:
  assumes "(transfer_step (length xs))\<^sup>*\<^sup>* (transfer_start d capacity xs) x" and "capacity \<le> 2 ^ 63"
  shows "take (length (tf_got x)) xs = tf_got x \<and> (transfer_done (length xs) x \<longrightarrow> tf_got x = xs) \<and>
    (\<exists>x'. (transfer_step (length xs))\<^sup>*\<^sup>* x x' \<and> transfer_done (length xs) x')"
proof -
  obtain k where "transfer_inv k xs (transfer_start d capacity xs)" using transfer_inv_start [OF assms(2), of xs d] by blast
  then have inv: "transfer_inv k xs x" using transfer_reaches_inv [OF assms(1)] by blast
  then have lists: "sp_pushed (tf_spsc x) @ tf_todo x = xs" "sp_popped (tf_spsc x) = tf_got x" and s: "spsc_inv k (tf_spsc x)"
    by (simp_all add: transfer_inv_def Let_def)
  have "take (length (tf_got x)) (sp_pushed (tf_spsc x)) = tf_got x"
    using s lists(2) by (simp add: spsc_inv_def Let_def)
  then have pre: "take (length (tf_got x)) xs = tf_got x"
    using spsc_inv_counts [OF s] lists by (metis take_append diff_is_0_eq take_0 append_Nil2)
  moreover from this have "transfer_done (length xs) x \<Longrightarrow> tf_got x = xs" by (simp add: transfer_done_def)
  ultimately show ?thesis using transfer_completes [OF inv] by blast
qed

text \<open>The two tests: they can end, and then the consumer has 0, 1, 2, and so on in order.\<close>

theorem spsc_transfer_witness:
  "(\<exists>x. (transfer_step 3)\<^sup>*\<^sup>* loom_spsc_is_lossless_fifo x \<and> transfer_done 3 x \<and> tf_got x = [0, 1, 2]) \<and>
   (\<exists>x. (transfer_step 200000)\<^sup>*\<^sup>* two_thread_stress_preserves_fifo x \<and> transfer_done 200000 x \<and>
     tf_got x = map of_nat [0..<200000])"
proof -
  have cap: "(2 :: nat) \<le> 2 ^ 63" "(1024 :: nat) \<le> 2 ^ 63" by simp_all
  have ends: "\<exists>x. (transfer_step (length xs))\<^sup>*\<^sup>* (transfer_start d c xs) x \<and> transfer_done (length xs) x \<and> tf_got x = xs"
    if "c \<le> 2 ^ 63" for xs :: "'b list" and d c
    using spsc_transfer [OF rtranclp.rtrancl_refl that, where xs = xs and d = d] spsc_transfer [OF _ that, where xs = xs and d = d] by blast
  have len: "length [0, 1, 2 :: u64] = 3" "length (map of_nat [0..<200000] :: u64 list) = 200000"
    by (simp, simp only: length_map length_upt diff_zero)
  show ?thesis
    using ends [OF cap(1), of "[0, 1, 2 :: u64]" 0, unfolded len] ends [OF cap(2), of "map of_nat [0..<200000] :: u64 list" 0, unfolded len]
    unfolding loom_spsc_is_lossless_fifo_def two_thread_stress_preserves_fifo_def by simp
qed

end
