(* ===== verification/Spec2Isabelle.thy ===== *)
theory Spec2Isabelle
  imports Checksum Arp Icmp Config Nat_Props Nat_Apply Pipeline_Props Spsc Control_Socket Nat_Live Afxdp_Props Afxdp_Host Switch_Net Unit_Dataplane Property_Tests Cli Bench Program Xsk_Props
    Node_Run Spsc_Threads
begin

text \<open>
  A verification development of Light-Andromeda, a user-space overlay switch for virtual private
  networks. The program (all paths below \<open>src/crates/\<close>) is a Rust workspace:

  \<^item> \<open>andromeda-core\<close>: parsing and writing of Ethernet, ARP, IPv4, ICMP, TCP, UDP and of the
    Andromeda encapsulation, and the Internet checksum with its incremental update;
  \<^item> \<open>andromeda-nat\<close>: the address translation engine with its port pool, and the timing wheel
    that finds idle flows;
  \<^item> \<open>andromeda-control\<close>: the fabric, which maps an endpoint of a virtual network to the node that
    hosts it, and the configuration file of a node;
  \<^item> \<open>andromeda-dataplane\<close>: the pipeline that turns a tenant frame into an underlay frame and back,
    the single-producer single-consumer queue, the control socket that reloads the fabric,
    and the AF\_XDP driver with its forwarding loops;
  \<^item> \<open>andromeda-cli\<close>: the commands of the executable.

  A tenant frame enters through a socket of the driver, is parsed by the core, answered (ARP, path
  MTU) or resolved through the fabric, translated by the engine when no endpoint matches,
  encapsulated, and transmitted on the other socket; an underlay frame is decapsulated,
  translated back and delivered. The control socket replaces the fabric between frames.

  \<^bold>\<open>Theories and sources.\<close>

  \<^item> \<open>Prelude\<close>: byte buffers, big-endian accesses, slices and patches with the bounds checks of the
    source, the collection \<open>view_simps\<close>, and the generic lemmas on lists, options and words.
    \<open>Text_Std\<close>: the standard library's parsing and printing of numbers and addresses.
    \<open>Parse_Error\<close>: \<open>andromeda-core/src/lib.rs\<close>.
  \<^item> \<open>Checksum\<close>, \<open>Ethernet\<close>, \<open>Arp\<close>, \<open>Ipv4\<close>, \<open>Udp\<close>, \<open>Tcp\<close>, \<open>Icmp\<close>, \<open>Overlay\<close>: the files of
    those names in \<open>andromeda-core/src\<close>, and \<open>Five_Tuple\<close> the connection key of its \<open>lib.rs\<close>.
    A view (\<open>Ipv4View\<close>, \<open>UdpView\<close>, ...) is the byte buffer it borrows; a method that writes
    returns the new buffer. \<open>L4\<close> has the locale \<open>l4_view\<close> of what TCP and UDP share and is
    interpreted for both.
  \<^item> \<open>Timing_Wheel\<close>: \<open>andromeda-nat/src/timing_wheel.rs\<close>, with the locale \<open>timing_wheel\<close>.
    \<open>Nat_Engine\<close> (state and operations), \<open>Nat_Inv\<close> (invariant), \<open>Nat_Props\<close> (properties),
    \<open>Nat_Live\<close> (expiry of idle flows, size of the tables) and \<open>Nat_Apply\<close> (the packet rewrite):
    \<open>andromeda-nat/src/lib.rs\<close>.
  \<^item> \<open>Fabric\<close>: \<open>andromeda-control/src/lib.rs\<close>, with the locale \<open>endpoint_map\<close>.
    \<open>Config\<close>: \<open>andromeda-control/src/config.rs\<close>.
  \<^item> \<open>Pipeline\<close> (state and operations), \<open>Pipeline_Inv\<close> (invariant, reachability),
    \<open>Pipeline_Refine\<close> (the copying, in-place and batch paths agree), \<open>Pipeline_Props\<close>:
    \<open>andromeda-dataplane/src/pipeline.rs\<close>, with the locale \<open>frame_handler\<close>.
  \<^item> \<open>Spsc\<close>: \<open>andromeda-dataplane/src/spsc.rs\<close>, as functions and as a step relation in which the
    two threads interleave; the locale \<open>bounded_queue\<close>. \<open>Spsc_Threads\<close>: the loops of the two threads
    of its concurrent tests. \<open>Control_Socket\<close>: \<open>control.rs\<close>.
  \<^item> \<open>Afxdp\<close> (sockets and loops), \<open>Afxdp_Own\<close> (ownership of the frames, the kernel's contract, the
    locale \<open>frame_body\<close>), \<open>Afxdp_Loops\<close> (each loop body and iteration keeps the invariant, the
    locale \<open>stoppable_loop\<close>), \<open>Afxdp_Props\<close>, \<open>Afxdp_Host\<close> (stop flag and
    pinning): \<open>afxdp.rs\<close>.
  \<^item> \<open>Xsk_Shim\<close> (the functions, the protocol of the rings), \<open>Xsk_Props\<close> (a library that follows it,
    properties): \<open>csrc/xsk_shim.c\<close>.
  \<^item> \<open>Node_Run\<close>: the workers of \<open>run_multiqueue\<close> and the control socket over one fabric handle, as
    interleavings of their calls.
  \<^item> \<open>Switch_Net\<close>: two switches, each the loop body of \<open>switch_burst\<close> over the memory of its
    sockets, composed by the wire between them.
  \<^item> \<open>Cli\<close>: \<open>andromeda-cli/src/main.rs\<close>, and \<open>Bench\<close> its command \<open>bench\<close>, with the locale
    \<open>timed_path\<close> of a call that a timing loop may repeat. \<open>Cli_Args\<close>: what the options mean, stated
    without their loops, with the locale \<open>option_loop\<close> that both loops are instances of;
    \<open>Cli_Forward\<close>: what \<open>run\<close> and \<open>switch\<close> do with the chosen values. \<open>Utf8\<close>: the standard library's
    check of the arguments. \<open>Program\<close>: \<open>main\<close> with all commands, in a build with the feature
    \<open>afxdp\<close> or without it.
  \<^item> \<open>Unit_Core\<close>, \<open>Unit_Nat\<close>, \<open>Unit_Control\<close>, \<open>Unit_Dataplane\<close>: the unit tests of the crates, each
    test function translated to the assertion it makes and evaluated on the model, which ties the
    model to what the repository itself expects of the code. \<open>Property_Tests\<close>: the bodies of
    \<open>proptests.rs\<close>, \<open>nat_fuzz.rs\<close> and \<open>pipeline_fuzz.rs\<close>, proved for every input the generators
    can produce rather than for the sampled ones.

  \<^bold>\<open>Conventions.\<close> Definitions have the names of the source (\<open>Type_method\<close>). A panic is \<open>None\<close>; a
  \<open>Result\<close> is a sum with \<open>Inl\<close> for \<open>Err\<close>, so a function that can do both returns \<open>('e + 'a)
  option\<close>. Integers have the width of the source and wrap around as in a release build, lengths
  and indices are natural numbers. A hash map is a finite map, so no result depends on the order
  of iteration. A string is the list of its bytes in UTF-8. The shared handle of the fabric is
  the fabric itself during a call; the loops take the reloads that become visible between two
  frames as observations.

  \<^bold>\<open>What the lemmas show.\<close> The incremental checksum update agrees with recomputation, except that a
  buffer which becomes all zero gets the other representation of zero. Parsers and writers are
  inverse, a parsed view keeps every accessor within its buffer, rewrites keep the header and
  transport checksums valid. Encapsulation and
  decapsulation are inverse, and the outer headers are valid. The timing wheel loses no entry and,
  over any sequence of insertions and advances, fires each at the first tick after the hand in the
  bucket of its deadline. Every reachable translation engine has a one-to-one binding between flows
  and ports in its range, every bound port is marked used and scheduled, idle flows are
  collected and only those, an idle flow is gone after one collection past its time-out, the
  tables never hold more flows than there are ports, and outbound and inbound translation are
  inverse. The fabric
  resolves within one virtual network only. The pipeline never panics on any bytes, counts every
  frame once, the copying, in-place and batch paths give the same frames and states, the
  precomputed outer header equals the generic one, an oversize frame with Don't Fragment is never
  forwarded, and a frame sent by one switch is delivered by its peer unchanged but for the
  rewritten addresses. The queue delivers what was pushed, in order, without loss or data race,
  under every interleaving, each operation ends after a bounded number of its own steps, and two
  threads that transfer a list through it keep its order and can always finish. A
  reload swaps in exactly the fabric of the file or leaves the old one; from then on every worker
  uses it for every call, and keeps its translation state. The forwarding loops never
  panic, keep every UMEM frame with exactly one owner, never touch a frame the kernel holds, and
  end at a stop request or at a signal, which no iteration follows; the frame that one switch's egress socket transmits is what the peer's
  ingress socket delivers. The C shim meets the contract the loops rely on, over any library whose
  rings follow their protocol, and opening a socket through it leaks nothing. The executable
  panics exactly on an argument that is not UTF-8; otherwise it runs the command and the values that
  the words of its arguments name, read by a specification that does not use its option loops.
  The benchmark times only calls that forward.

  \<^bold>\<open>Bounds.\<close> No definition uses fuel. Recursion is structural or has a measure: the timing wheel
  visits at most one revolution of slots, port allocation at most the range of ports, the inspector
  a shorter inner frame each time. The forwarding loops are recursive in the list of their
  observations, one per iteration; that they stop is stated about the first stop request in the
  list. Encapsulation is stated for inner frames of at most 65499 bytes, the largest the outer
  length field can carry (the source rejects longer ones). The queue's capacity is at most
  \<open>2 ^ 63\<close>, the largest power of two in a machine word, so that its free-running 64-bit indices
  wrap around consistently.

  \<^bold>\<open>Concurrency.\<close> In \<open>Spsc\<close> each thread's operation is split at its atomic accesses; a load of the
  other thread's index may return any value that index has had since the last value this thread
  has seen, as acquire loads allow. A data race is a step that would access a cell the
  other thread may access at the same time. In \<open>Node_Run\<close> a call of a worker is one event: it loads
  the shared handle at most once and otherwise touches only its worker's own pipeline.

  \<^bold>\<open>Parameters.\<close> The kernel, its rings and libxdp are the parameter \<open>'k xdp_api\<close>; theorems about the
  loops assume \<open>xdp_contract\<close>: as long as the kernel holds only frames of the UMEM, the FILL ring takes
  all offered addresses or none, frames come back from the RX and COMPLETION rings only if the
  kernel held them and in a form that names a frame, and the kernel writes only to frames it holds.
  \<open>shim_meets_contract\<close> derives it for the shim from \<open>libxdp_contract\<close>, the documented protocol of
  libxdp's rings (reserve all or nothing, write the reserved slots, submit; peek, read, release),
  which \<open>sim_lib\<close> meets. \<open>sim_api\<close> is a kernel that meets \<open>xdp_contract\<close>, on which the
  witnesses run. \<open>refill_relies_on_all_or_nothing\<close> shows that the first part is needed. The file
  reader and the TOML decoder are parameters of the configuration; the binding of the control
  socket is one of the commands. Standard output is assumed to accept what the commands print.

  \<^bold>\<open>Not modelled.\<close> The clock, the floating-point statistics and the tables of the benchmark, and
  the progress and error lines of \<open>run\<close> and \<open>switch\<close>, in \<open>andromeda-cli\<close>; the statistics line of the
  driver, which does not change its state; the accept thread and file permissions of the control
  socket; allocation failure in Rust; the build script. The XDP program is part of libxdp.
\<close>

end
